(* ===== verification/Prelude.thy ===== *)
theory Prelude
  imports Main "HOL-Library.Word"
begin

unbundle bit_operations_syntax

text \<open>
  Shared vocabulary of the development: machine types, C++ exceptions as values, the
  state-and-exception actions every component is written in, the simulation relation by
  which an action over an opaque library state is compared with the same action over a
  list, and the byte encodings of fixed-width integers.
\<close>

section \<open>Machine types\<close>

type_synonym byte = "8 word"
type_synonym bytes = "8 word list"
type_synonym u8 = "8 word"
type_synonym u16 = "16 word"
type_synonym u32 = "32 word"
type_synonym u64 = "64 word"

named_theorems sim_intros \<open>simulation rules of actions\<close>
named_theorems gives_intros \<open>rules for what an action can return\<close>

section \<open>Exceptions and outcomes\<close>

text \<open>
  The exception classes the sources throw, with the message where there is one.
  \<open>Undefined_behaviour\<close> is not thrown: it marks an execution the C++ standard gives no
  meaning, so that no theorem can silently assume one.  \<open>Out_of_fuel\<close> marks a run of an unbounded
  loop that was cut off, and theorems about such loops show that it does not occur.
\<close>

datatype exn =
    Runtime_error string
  | Logic_error string
  | Out_of_range string
  | Invalid_argument string
  | Bad_alloc
  | Bad_variant_access
  | Canceled_error
  | Undefined_behaviour string
  | Out_of_fuel

text \<open>
  What running (a part of) a coroutine gives: a value, an exception, or \<open>Blocked\<close> when
  the event loop has no further event for it and the coroutine stays suspended.
\<close>

datatype 'a outcome = Ret 'a | Throw exn | Blocked

type_synonym ('s, 'a) act = "'s \<Rightarrow> 'a outcome \<times> 's"

text \<open>State changes made before an exception is thrown persist, as they do in C++.\<close>

definition retA :: "'a \<Rightarrow> ('s, 'a) act" where
  "retA x = (\<lambda>s. (Ret x, s))"

definition throwA :: "exn \<Rightarrow> ('s, 'a) act" where
  "throwA e = (\<lambda>s. (Throw e, s))"

definition bindA :: "('s, 'a) act \<Rightarrow> ('a \<Rightarrow> ('s, 'b) act) \<Rightarrow> ('s, 'b) act" where
  "bindA m f = (\<lambda>s. case m s of
      (Ret x, s') \<Rightarrow> f x s'
    | (Throw e, s') \<Rightarrow> (Throw e, s')
    | (Blocked, s') \<Rightarrow> (Blocked, s'))"

definition seqA :: "('s, 'a) act \<Rightarrow> ('s, 'b) act \<Rightarrow> ('s, 'b) act" where
  "seqA m n = bindA m (\<lambda>_. n)"

definition getsA :: "('s \<Rightarrow> 'a) \<Rightarrow> ('s, 'a) act" where
  "getsA f = (\<lambda>s. (Ret (f s), s))"

definition modifyA :: "('s \<Rightarrow> 's) \<Rightarrow> ('s, unit) act" where
  "modifyA f = (\<lambda>s. (Ret (), f s))"

definition whenA :: "bool \<Rightarrow> ('s, unit) act \<Rightarrow> ('s, unit) act" where
  "whenA c m = (if c then m else retA ())"

text \<open>An action for each element of a list, and the results it gives.\<close>

fun eachA :: "('x \<Rightarrow> ('s, unit) act) \<Rightarrow> 'x list \<Rightarrow> ('s, unit) act" where
  "eachA f [] = retA ()"
| "eachA f (x # xs) = seqA (f x) (eachA f xs)"

fun collectA :: "('x \<Rightarrow> ('s, 'a) act) \<Rightarrow> 'x list \<Rightarrow> ('s, 'a list) act" where
  "collectA f [] = retA []"
| "collectA f (x # xs) = bindA (f x) (\<lambda>y. bindA (collectA f xs) (\<lambda>ys. retA (y # ys)))"

lemma retA_apply [simp]: "retA x s = (Ret x, s)"
  by (simp add: retA_def)

lemma throwA_apply [simp]: "throwA e s = (Throw e, s)"
  by (simp add: throwA_def)

lemma getsA_apply [simp]: "getsA f s = (Ret (f s), s)"
  by (simp add: getsA_def)

lemma modifyA_apply [simp]: "modifyA f s = (Ret (), f s)"
  by (simp add: modifyA_def)

lemma bindA_Ret: "m s = (Ret x, s') \<Longrightarrow> bindA m f s = f x s'"
  by (simp add: bindA_def)

lemma bindA_Throw: "m s = (Throw e, s') \<Longrightarrow> bindA m f s = (Throw e, s')"
  by (simp add: bindA_def)

lemma bindA_Blocked: "m s = (Blocked, s') \<Longrightarrow> bindA m f s = (Blocked, s')"
  by (simp add: bindA_def)

lemma bindA_retA [simp]: "bindA (retA x) f = f x"
  by (simp add: bindA_def retA_def)

lemma bindA_throwA [simp]: "bindA (throwA e) f = throwA e"
  by (simp add: bindA_def throwA_def)

lemma bindA_assoc: "bindA (bindA m f) g = bindA m (\<lambda>x. bindA (f x) g)"
  by (rule ext) (auto simp: bindA_def split: prod.splits outcome.splits)

lemma bindA_RetE:
  assumes "bindA m f s = (Ret y, t)"
  obtains x s' where "m s = (Ret x, s')" and "f x s' = (Ret y, t)"
  using assms by (auto simp: bindA_def split: prod.splits outcome.splits)

lemma seqA_RetE:
  assumes "seqA m n s = (Ret y, t)"
  obtains x s' where "m s = (Ret x, s')" and "n s' = (Ret y, t)"
  using assms by (auto simp: seqA_def elim: bindA_RetE)

section \<open>Runs that end normally\<close>

text \<open>\<open>reaches m s x P\<close>: from \<open>s\<close>, the action returns \<open>x\<close> in a state that satisfies \<open>P\<close>.\<close>

definition reaches :: "('s, 'a) act \<Rightarrow> 's \<Rightarrow> 'a \<Rightarrow> ('s \<Rightarrow> bool) \<Rightarrow> bool" where
  "reaches m s x P \<longleftrightarrow> (\<exists>s'. m s = (Ret x, s') \<and> P s')"

lemma reaches_retA: "P s \<Longrightarrow> reaches (retA x) s x P"
  by (simp add: reaches_def)

lemma reaches_bindA:
  "reaches m s x P \<Longrightarrow> (\<And>s'. P s' \<Longrightarrow> reaches (f x) s' y Q) \<Longrightarrow> reaches (bindA m f) s y Q"
  unfolding reaches_def by (metis bindA_Ret)

lemma reaches_seqA:
  "reaches m s x P \<Longrightarrow> (\<And>s'. P s' \<Longrightarrow> reaches n s' y Q) \<Longrightarrow> reaches (seqA m n) s y Q"
  unfolding seqA_def by (rule reaches_bindA)

text \<open>\<open>fails m s e P\<close>: it throws \<open>e\<close>, leaving such a state.\<close>

definition fails :: "('s, 'a) act \<Rightarrow> 's \<Rightarrow> exn \<Rightarrow> ('s \<Rightarrow> bool) \<Rightarrow> bool" where
  "fails m s e P \<longleftrightarrow> (\<exists>s'. m s = (Throw e, s') \<and> P s')"

lemma fails_throwA: "P s \<Longrightarrow> fails (throwA e) s e P"
  by (simp add: fails_def)

lemma fails_bindA1: "fails m s e P \<Longrightarrow> fails (bindA m f) s e P"
  unfolding fails_def by (metis bindA_Throw)

lemma fails_bindA:
  "reaches m s x P \<Longrightarrow> (\<And>s'. P s' \<Longrightarrow> fails (f x) s' e Q) \<Longrightarrow> fails (bindA m f) s e Q"
  unfolding reaches_def fails_def by (metis bindA_Ret)

lemma fails_seqA1: "fails m s e P \<Longrightarrow> fails (seqA m n) s e P"
  unfolding seqA_def by (rule fails_bindA1)

lemma fails_seqA:
  "reaches m s x P \<Longrightarrow> (\<And>s'. P s' \<Longrightarrow> fails n s' e Q) \<Longrightarrow> fails (seqA m n) s e Q"
  unfolding seqA_def by (rule fails_bindA)

lemma reaches_mono: "reaches m s x P \<Longrightarrow> (\<And>s'. P s' \<Longrightarrow> Q s') \<Longrightarrow> reaches m s x Q"
  unfolding reaches_def by blast

section \<open>What an action can return\<close>

text \<open>\<open>gives m Q\<close>: whatever \<open>m\<close> returns, from any state, satisfies \<open>Q\<close>.\<close>

definition gives :: "('s, 'a) act \<Rightarrow> ('a \<Rightarrow> bool) \<Rightarrow> bool" where
  "gives m Q \<longleftrightarrow> (\<forall>s x s'. m s = (Ret x, s') \<longrightarrow> Q x)"

lemma givesD: "gives m Q \<Longrightarrow> m s = (Ret x, s') \<Longrightarrow> Q x"
  by (auto simp: gives_def)

lemma gives_any: "gives m (\<lambda>_. True)"
  by (simp add: gives_def)

lemma gives_mono: "gives m P \<Longrightarrow> (\<And>x. P x \<Longrightarrow> Q x) \<Longrightarrow> gives m Q"
  by (auto simp: gives_def)

lemma gives_retA [gives_intros]: "Q x \<Longrightarrow> gives (retA x) Q"
  by (simp add: gives_def)

lemma gives_throwA [gives_intros]: "gives (throwA e) Q"
  by (simp add: gives_def)

lemma gives_bindA: "gives m P \<Longrightarrow> (\<And>x. P x \<Longrightarrow> gives (f x) Q) \<Longrightarrow> gives (bindA m f) Q"
  unfolding gives_def by (metis bindA_RetE)

lemma gives_bindA_any [gives_intros]: "(\<And>x. gives (f x) Q) \<Longrightarrow> gives (bindA m f) Q"
  by (rule gives_bindA [OF gives_any])

lemma gives_seqA [gives_intros]: "gives n Q \<Longrightarrow> gives (seqA m n) Q"
  unfolding seqA_def by (rule gives_bindA_any)

lemma gives_if [gives_intros]: "(c \<Longrightarrow> gives m Q) \<Longrightarrow> (\<not> c \<Longrightarrow> gives n Q) \<Longrightarrow> gives (if c then m else n) Q"
  by simp

lemma gives_collectA: "(\<And>x. x \<in> set xs \<Longrightarrow> gives (f x) (Q x)) \<Longrightarrow> gives (collectA f xs) (list_all2 Q xs)"
proof (induction xs)
  case (Cons x xs)
  show ?case unfolding collectA.simps
    by (rule gives_bindA [OF Cons.prems], simp, rule gives_bindA [OF Cons.IH], simp add: Cons.prems, simp add: gives_retA)
qed (simp add: gives_retA)

section \<open>Simulation between actions\<close>

text \<open>
  \<open>simA h m n\<close>: the action \<open>m\<close> on concrete states and \<open>n\<close> on abstract ones give the same
  outcome and related states, for the abstraction function \<open>h\<close>.  It is closed under every
  combinator, so a program over an opaque library state is related to the same program over
  the abstract state by applying the rules of \<open>sim_intros\<close>.
\<close>

definition simA :: "('s \<Rightarrow> 't) \<Rightarrow> ('s, 'a) act \<Rightarrow> ('t, 'a) act \<Rightarrow> bool" where
  "simA h m n \<longleftrightarrow> (\<forall>s. map_prod id h (m s) = n (h s))"

lemma simAI [intro?]: "(\<And>s. map_prod id h (m s) = n (h s)) \<Longrightarrow> simA h m n"
  by (simp add: simA_def)

lemma simA_eq: "simA h m n \<Longrightarrow> n (h s) = (fst (m s), h (snd (m s)))"
  by (simp add: simA_def map_prod_def case_prod_beta flip: id_def)

lemma simA_fst: "simA h m n \<Longrightarrow> fst (m s) = fst (n (h s))"
  by (simp add: simA_eq)

lemma simA_snd: "simA h m n \<Longrightarrow> h (snd (m s)) = snd (n (h s))"
  by (simp add: simA_eq)

lemma simA_retA [sim_intros]: "simA h (retA x) (retA x)"
  by (simp add: simA_def)

lemma simA_throwA [sim_intros]: "simA h (throwA e) (throwA e)"
  by (simp add: simA_def)

lemma simA_getsA [sim_intros]: "(\<And>s. f s = g (h s)) \<Longrightarrow> simA h (getsA f) (getsA g)"
  by (simp add: simA_def)

lemma simA_modifyA [sim_intros]: "(\<And>s. h (f s) = g (h s)) \<Longrightarrow> simA h (modifyA f) (modifyA g)"
  by (simp add: simA_def)

lemma simA_bindA [sim_intros]:
  assumes "simA h m n" and "\<And>x. simA h (f x) (g x)"
  shows "simA h (bindA m f) (bindA n g)"
proof
  fix s
  obtain r s' where ms: "m s = (r, s')" by (cases "m s")
  with assms(1) have ns: "n (h s) = (r, h s')" by (simp add: simA_eq)
  show "map_prod id h (bindA m f s) = bindA n g (h s)"
  proof (cases r)
    case (Ret x)
    from assms(2) have "map_prod id h (f x s') = g x (h s')" by (simp add: simA_def)
    with Ret ms ns show ?thesis by (simp add: bindA_def)
  qed (simp_all add: bindA_def ms ns)
qed

lemma simA_seqA [sim_intros]: "simA h m n \<Longrightarrow> simA h m' n' \<Longrightarrow> simA h (seqA m m') (seqA n n')"
  unfolding seqA_def by (rule simA_bindA)

lemma simA_whenA [sim_intros]: "simA h m n \<Longrightarrow> simA h (whenA c m) (whenA c n)"
  unfolding whenA_def by (simp add: simA_retA)

lemma simA_if [sim_intros]:
  "simA h m n \<Longrightarrow> simA h m' n' \<Longrightarrow> simA h (if c then m else m') (if c then n else n')"
  by simp

lemma simA_eachA [sim_intros]: "(\<And>x. simA h (f x) (g x)) \<Longrightarrow> simA h (eachA f xs) (eachA g xs)"
  by (induction xs) (auto intro: sim_intros)

lemma simA_collectA [sim_intros]:
  "(\<And>x. simA h (f x) (g x)) \<Longrightarrow> simA h (collectA f xs) (collectA g xs)"
  by (induction xs) (auto intro: sim_intros)

section \<open>Strings and maps\<close>

text \<open>A string literal as bytes, and bytes as the text of a message.\<close>

definition ascii :: "string \<Rightarrow> bytes" where
  "ascii t = map of_char t"

definition text_of :: "bytes \<Rightarrow> string" where
  "text_of d = map (\<lambda>b. char_of (unat b)) d"

text \<open>\<open>string::resize\<close> pads with zero bytes; \<open>s[i]\<close> is the final zero for \<open>i = size\<close> and undefined beyond.\<close>

definition resize :: "nat \<Rightarrow> bytes \<Rightarrow> bytes" where
  "resize n d = take n d @ replicate (n - length d) 0"

definition str_at :: "bytes \<Rightarrow> nat \<Rightarrow> byte option" where
  "str_at d i = (if i < length d then Some (d ! i) else if i = length d then Some 0 else None)"

text \<open>\<open>emplace\<close> into a map does not replace a key that is already there.\<close>

definition map_emplace :: "('k \<rightharpoonup> 'v) \<Rightarrow> 'k \<Rightarrow> 'v \<Rightarrow> ('k \<rightharpoonup> 'v)" where
  "map_emplace m k x = (if m k = None then m(k \<mapsto> x) else m)"

text \<open>A result computed elsewhere, as an action.\<close>

definition liftO :: "'a outcome \<Rightarrow> ('s, 'a) act" where
  "liftO r = (\<lambda>s. (r, s))"

lemma liftO_apply [simp]: "liftO r s = (r, s)"
  by (simp add: liftO_def)

lemma gives_liftO: "(\<And>x. r = Ret x \<Longrightarrow> Q x) \<Longrightarrow> gives (liftO r) Q"
  by (simp add: gives_def)

lemma simA_liftO [sim_intros]: "simA h (liftO r) (liftO r)"
  by (simp add: simA_def)

section \<open>Byte encodings of integers\<close>

text \<open>
  The memory image of an unsigned integer, least significant byte first (\<open>le_bytes\<close>) or
  last (\<open>be_bytes\<close>), and the value a byte sequence stands for.
\<close>

fun le_bytes :: "nat \<Rightarrow> nat \<Rightarrow> bytes" where
  "le_bytes 0 x = []"
| "le_bytes (Suc n) x = word_of_nat x # le_bytes n (x div 256)"

fun le_val :: "bytes \<Rightarrow> nat" where
  "le_val [] = 0"
| "le_val (b # bs) = unat b + 256 * le_val bs"

definition be_bytes :: "nat \<Rightarrow> nat \<Rightarrow> bytes" where
  "be_bytes n x = rev (le_bytes n x)"

definition be_val :: "bytes \<Rightarrow> nat" where
  "be_val bs = le_val (rev bs)"

lemma length_le_bytes [simp]: "length (le_bytes n x) = n"
  by (induction n x rule: le_bytes.induct) auto

lemma length_be_bytes [simp]: "length (be_bytes n x) = n"
  by (simp add: be_bytes_def)

lemma le_val_le_bytes: "le_val (le_bytes n x) = x mod 256 ^ n"
proof (induction n x rule: le_bytes.induct)
  case (2 n x)
  have "unat (word_of_nat x :: byte) = x mod 256"
    by (simp add: unat_of_nat)
  with 2 show ?case
    by (simp add: mod_mult2_eq)
qed simp

lemma le_val_bound: "le_val bs < 256 ^ length bs"
proof (induction bs)
  case (Cons b bs)
  have "unat b < 256"
    using unsigned_less [of b] by simp
  with Cons show ?case by simp
qed simp

lemma le_bytes_le_val: "le_bytes (length bs) (le_val bs) = bs"
proof (induction bs)
  case (Cons b bs)
  have b: "unat b < 256"
    using unsigned_less [of b] by simp
  have "word_of_nat (256 * le_val bs) = (0 :: byte)"
    by (simp add: word_of_nat_eq_0_iff del: of_nat_mult)
  then have "word_of_nat (unat b + 256 * le_val bs) = b"
    by (simp only: of_nat_add) simp
  with Cons b show ?case by simp
qed simp

lemma le_bytes_mod: "le_bytes n (x mod 256 ^ n) = le_bytes n x"
  using le_bytes_le_val [of "le_bytes n x"] by (simp add: le_val_le_bytes)

lemma be_val_be_bytes: "be_val (be_bytes n x) = x mod 256 ^ n"
  by (simp add: be_val_def be_bytes_def le_val_le_bytes)

lemma be_bytes_be_val: "be_bytes (length bs) (be_val bs) = bs"
  using le_bytes_le_val [of "rev bs"] by (simp add: be_val_def be_bytes_def)

lemma be_val_bound: "be_val bs < 256 ^ length bs"
  using le_val_bound [of "rev bs"] by (simp add: be_val_def)

lemma le_bytes_inj: "x < 256 ^ n \<Longrightarrow> y < 256 ^ n \<Longrightarrow> le_bytes n x = le_bytes n y \<Longrightarrow> x = y"
  by (metis le_val_le_bytes mod_less)

text \<open>The same for words: a word of \<open>8 * n\<close> bits survives its encoding.\<close>

lemma word_of_le_bytes:
  "LENGTH('a::len) \<le> 8 * n \<Longrightarrow> word_of_nat (le_val (le_bytes n (unat (w :: 'a word)))) = w"
proof -
  assume le: "LENGTH('a) \<le> 8 * n"
  have "unat w < 2 ^ LENGTH('a)" by (rule unsigned_less)
  also have "(2 :: nat) ^ LENGTH('a) \<le> 2 ^ (8 * n)" by (rule power_increasing) (use le in auto)
  also have "(2 :: nat) ^ (8 * n) = 256 ^ n" by (simp add: power_mult)
  finally have "unat w mod 256 ^ n = unat w" by simp
  then show ?thesis by (simp add: le_val_le_bytes)
qed

lemma word_of_be_bytes:
  "LENGTH('a::len) \<le> 8 * n \<Longrightarrow> word_of_nat (be_val (be_bytes n (unat (w :: 'a word)))) = w"
  using word_of_le_bytes by (simp add: be_val_def be_bytes_def)

lemmas byte_encodings = le_val_le_bytes be_val_be_bytes word_of_le_bytes word_of_be_bytes

section \<open>Lists\<close>

lemma take_append_length [simp]: "length xs = n \<Longrightarrow> take n (xs @ ys) = xs"
  by simp

lemma drop_append_length [simp]: "length xs = n \<Longrightarrow> drop n (xs @ ys) = ys"
  by simp

end
