(* ===== verification/Awaiters.thy ===== *)
theory Awaiters
  imports Prelude
begin

text \<open>
  Suspended coroutines and the events that wake them.  An awaiter class of the library
  registers a libevent event and a static callback; when the event fires, the callback either
  re-adds the event (\<open>Rearm\<close>), resumes the coroutine (\<open>Resume\<close>), or does neither (\<open>Quiet\<close>),
  in which case nothing will ever wake the coroutine again.  \<open>drive\<close> runs a suspended awaiter
  over the events the loop delivers to it.  The locale \<open>retry_loop\<close> is the contract of an
  awaiter that makes progress with every event, with the total-correctness rule for it.
\<close>

section \<open>Wake-ups\<close>

datatype wake = Rearm | Resume | Quiet

text \<open>
  \<open>drive cb fin evs aw s\<close>: the callback \<open>cb\<close> is run on each event in turn until it resumes
  the coroutine, whose \<open>await_resume\<close> is \<open>fin\<close>.  The result is the outcome of the \<open>co_await\<close>
  expression, the awaiter, the state and the events not yet delivered.
\<close>

fun drive :: "('i \<Rightarrow> 'w \<Rightarrow> 's \<Rightarrow> 'w \<times> 's \<times> wake) \<Rightarrow> ('w \<Rightarrow> 'a outcome) \<Rightarrow> 'i list \<Rightarrow> 'w \<Rightarrow> 's
    \<Rightarrow> 'a outcome \<times> 'w \<times> 's \<times> 'i list" where
  "drive cb fin [] aw s = (Blocked, aw, s, [])"
| "drive cb fin (i # evs) aw s = (case cb i aw s of (aw', s', w) \<Rightarrow>
     (case w of
        Rearm \<Rightarrow> drive cb fin evs aw' s'
      | Resume \<Rightarrow> (fin aw', aw', s', evs)
      | Quiet \<Rightarrow> (Blocked, aw', s', evs)))"

text \<open>The events left over are a suffix of those delivered.\<close>

lemma drive_suffix:
  "drive cb fin evs aw s = (r, aw', s', rest) \<Longrightarrow> \<exists>k \<le> length evs. rest = drop k evs"
proof (induction cb fin evs aw s rule: drive.induct)
  case (2 cb fin i evs aw s)
  obtain aw1 s1 w where cb: "cb i aw s = (aw1, s1, w)" by (metis prod_cases3)
  show ?case
  proof (cases w)
    case Rearm
    with 2 cb obtain k where "k \<le> length evs" "rest = drop k evs" by fastforce
    then show ?thesis by (intro exI [of _ "Suc k"]) simp
  qed (use 2 cb in \<open>auto intro: exI [of _ "Suc 0"]\<close>)
qed simp

text \<open>
  An awaiter whose callback answers every event of a given kind by re-arming itself stays
  suspended however long the loop runs.
\<close>

lemma drive_forever:
  assumes step: "\<And>i aw s. P i \<Longrightarrow> I aw s \<Longrightarrow> snd (snd (cb i aw s)) = Rearm \<and>
      I (fst (cb i aw s)) (fst (snd (cb i aw s)))"
    and "\<forall>i \<in> set evs. P i" and "I aw s"
  shows "fst (drive cb fin evs aw s) = Blocked"
  using assms(2,3)
proof (induction evs arbitrary: aw s)
  case (Cons i evs)
  obtain aw1 s1 w where cb: "cb i aw s = (aw1, s1, w)" by (metis prod_cases3)
  with step [of i aw s] Cons.prems have "w = Rearm" "I aw1 s1" by auto
  with cb Cons show ?case by simp
qed simp

text \<open>Events that change nothing and re-arm the awaiter can be left out of the schedule.\<close>

lemma drive_skip:
  assumes "\<And>i aw s. skip i \<Longrightarrow> cb i aw s = (aw, s, Rearm)"
  shows "(\<lambda>(r, aw', s', rest). (r, aw', s')) (drive cb fin evs aw s) =
    (\<lambda>(r, aw', s', rest). (r, aw', s')) (drive cb fin (filter (\<lambda>i. \<not> skip i) evs) aw s)"
proof (induction evs arbitrary: aw s)
  case (Cons i evs)
  show ?case
  proof (cases "skip i")
    case True
    with assms Cons show ?thesis by simp
  next
    case False
    obtain aw1 s1 w where "cb i aw s = (aw1, s1, w)" by (metis prod_cases3)
    with False Cons.IH [of aw1 s1] show ?thesis by (cases w) simp_all
  qed
qed simp

section \<open>Awaiters that make progress\<close>

text \<open>
  \<open>inv g\<close> is the invariant of the suspended awaiter for a ghost value \<open>g\<close> (what the caller
  asked for), \<open>good\<close> the events that carry progress, \<open>todo\<close> the work that is left, \<open>post g\<close>
  what holds when the coroutine is resumed.
\<close>

locale retry_loop =
  fixes cb :: "'g \<Rightarrow> 'i \<Rightarrow> 'w \<Rightarrow> 's \<Rightarrow> 'w \<times> 's \<times> wake"
    and inv :: "'g \<Rightarrow> 'w \<Rightarrow> 's \<Rightarrow> bool"
    and good :: "'i \<Rightarrow> bool"
    and todo :: "'g \<Rightarrow> 'w \<Rightarrow> 's \<Rightarrow> nat"
    and post :: "'g \<Rightarrow> 'w \<Rightarrow> 's \<Rightarrow> bool"
  assumes not_quiet: "inv g aw s \<Longrightarrow> good i \<Longrightarrow> snd (snd (cb g i aw s)) \<noteq> Quiet"
    and rearm: "inv g aw s \<Longrightarrow> good i \<Longrightarrow> cb g i aw s = (aw', s', Rearm) \<Longrightarrow>
      inv g aw' s' \<and> todo g aw' s' < todo g aw s"
    and resume: "inv g aw s \<Longrightarrow> good i \<Longrightarrow> cb g i aw s = (aw', s', Resume) \<Longrightarrow> post g aw' s'"
    and todo_pos: "inv g aw s \<Longrightarrow> 0 < todo g aw s"
begin

text \<open>Enough good events resume the coroutine, in a state that satisfies the postcondition.\<close>

lemma drive_total:
  assumes "inv g aw s" and "\<forall>i \<in> set evs. good i" and "todo g aw s \<le> length evs"
  shows "\<exists>aw' s' k. drive (cb g) fin evs aw s = (fin aw', aw', s', drop k evs) \<and> post g aw' s' \<and>
    k \<le> todo g aw s"
  using assms
proof (induction evs arbitrary: aw s)
  case Nil
  then show ?case using todo_pos [of g aw s] by simp
next
  case (Cons i evs)
  obtain aw1 s1 w where cb: "cb g i aw s = (aw1, s1, w)" by (metis prod_cases3)
  have inv: "inv g aw s" and good: "good i" using Cons.prems by simp_all
  show ?case
  proof (cases w)
    case Rearm
    from rearm [OF inv good] cb Rearm
    have inv1: "inv g aw1 s1" and less: "todo g aw1 s1 < todo g aw s" by auto
    with Cons.prems have "todo g aw1 s1 \<le> length evs" by simp
    with Cons.IH [OF inv1] Cons.prems obtain aw' s' k where
      "drive (cb g) fin evs aw1 s1 = (fin aw', aw', s', drop k evs)" "post g aw' s'"
      "k \<le> todo g aw1 s1" by auto
    with cb Rearm less show ?thesis
      by (intro exI [of _ aw'] exI [of _ s'] exI [of _ "Suc k"]) simp
  next
    case Resume
    with resume [OF inv good] cb have "post g aw1 s1" by auto
    with cb Resume todo_pos [OF inv] show ?thesis
      by (intro exI [of _ aw1] exI [of _ s1] exI [of _ "Suc 0"]) simp
  next
    case Quiet
    with not_quiet [OF inv good] cb show ?thesis by simp
  qed
qed

text \<open>Too few events leave it suspended with its invariant, or resume it as above.\<close>

lemma drive_partial:
  assumes "inv g aw s" and "\<forall>i \<in> set evs. good i"
    and "drive (cb g) fin evs aw s = (r, aw', s', rest)"
  shows "(r = fin aw' \<and> post g aw' s') \<or> (r = Blocked \<and> rest = [] \<and> inv g aw' s')"
  using assms
proof (induction evs arbitrary: aw s)
  case (Cons i evs)
  obtain aw1 s1 w where cb: "cb g i aw s = (aw1, s1, w)" by (metis prod_cases3)
  have inv: "inv g aw s" and good: "good i" using Cons.prems by simp_all
  show ?case
  proof (cases w)
    case Rearm
    with rearm [OF inv good] cb have "inv g aw1 s1" by auto
    with Cons.IH Cons.prems cb Rearm show ?thesis by simp
  next
    case Resume
    with resume [OF inv good] cb Cons.prems show ?thesis by auto
  next
    case Quiet
    with not_quiet [OF inv good] cb show ?thesis by simp
  qed
qed simp

end

text \<open>The laws in one: every good event either re-arms with progress or resumes.\<close>

lemma retry_loop_intro:
  assumes "\<And>g aw s i. I g aw s \<Longrightarrow> good i \<Longrightarrow> \<exists>aw' s' w. cb g i aw s = (aw', s', w) \<and>
      (w = Rearm \<and> I g aw' s' \<and> todo g aw' s' < todo g aw s \<or> w = Resume \<and> post g aw' s')"
    and "\<And>g aw s. I g aw s \<Longrightarrow> 0 < todo g aw s"
  shows "retry_loop cb I good todo post"
proof
  fix g aw s i assume "I g aw s" and "good i"
  from assms(1) [OF this] show "snd (snd (cb g i aw s)) \<noteq> Quiet" by auto
next
  fix g aw s i aw' s' assume "I g aw s" and "good i" and "cb g i aw s = (aw', s', Rearm)"
  with assms(1) [of g aw s i] show "I g aw' s' \<and> todo g aw' s' < todo g aw s" by auto
next
  fix g aw s i aw' s' assume "I g aw s" and "good i" and "cb g i aw s = (aw', s', Resume)"
  with assms(1) [of g aw s i] show "post g aw' s'" by auto
qed (rule assms(2))

end
