(* ===== verification/Base_IO.thy ===== *)
theory Base_IO
  imports Awaiters
begin

text \<open>
  The awaiters of EventAsync::Base that transfer data over a descriptor (Base.cc, lines 80 to
  402): ReadAwaiter, WriteAwaiter, RecvFromAwaiter and AcceptAwaiter.  Each is a record of the
  awaiter's fields, with one definition per method.  The system call behind a method is an
  event of the environment (\<open>sys_step\<close>, \<open>recv_step\<close>, \<open>accept_step\<close>), so every interleaving and
  fragmentation is a schedule.  The theorems show that a read or write of \<open>n\<close> bytes transfers
  exactly these bytes whatever the fragmentation, and which callback branches leave the
  coroutine suspended for ever.
\<close>

section \<open>System calls on a stream descriptor\<close>

datatype sys_step = Sys_ok nat | Sys_again | Sys_error

text \<open>
  The descriptor and the caller's memory: the bytes the peer will still deliver (an empty list
  is end of stream), the bytes written so far, and the memory the awaiter's \<open>data\<close> points into.
\<close>

record fdio =
  fd_inp :: bytes
  fd_out :: bytes
  mem :: bytes

definition mem_write :: "bytes \<Rightarrow> nat \<Rightarrow> bytes \<Rightarrow> bytes" where
  "mem_write m off d = take off m @ d @ drop (off + length d) m"

datatype errno = EAGAIN | EOTHER

text \<open>\<open>read(fd, data, size)\<close>: the return value (negative with an error number), and the state.\<close>

definition sys_read :: "sys_step \<Rightarrow> nat \<Rightarrow> nat \<Rightarrow> fdio \<Rightarrow> (errno + nat) \<times> fdio" where
  "sys_read st data sz s = (case st of
      Sys_ok k \<Rightarrow> (let n = min (Suc k) (min sz (length (fd_inp s))) in
        (Inr n, s\<lparr>fd_inp := drop n (fd_inp s), mem := mem_write (mem s) data (take n (fd_inp s))\<rparr>))
    | Sys_again \<Rightarrow> (Inl EAGAIN, s)
    | Sys_error \<Rightarrow> (Inl EOTHER, s))"

text \<open>\<open>write(fd, data, size)\<close>.\<close>

definition sys_write :: "sys_step \<Rightarrow> nat \<Rightarrow> nat \<Rightarrow> fdio \<Rightarrow> (errno + nat) \<times> fdio" where
  "sys_write st data sz s = (case st of
      Sys_ok k \<Rightarrow> (let n = min (Suc k) sz in
        (Inr n, s\<lparr>fd_out := fd_out s @ take n (drop data (mem s))\<rparr>))
    | Sys_again \<Rightarrow> (Inl EAGAIN, s)
    | Sys_error \<Rightarrow> (Inl EOTHER, s))"

section \<open>ReadAwaiter\<close>

record base_read_awaiter =
  rw_data :: nat
  rw_size :: nat
  rw_err :: bool
  rw_eof :: bool

definition ReadAwaiter_new :: "nat \<Rightarrow> nat \<Rightarrow> base_read_awaiter" where
  "ReadAwaiter_new data sz = \<lparr>rw_data = data, rw_size = sz, rw_err = False, rw_eof = False\<rparr>"

definition ReadAwaiter_await_ready :: "sys_step \<Rightarrow> base_read_awaiter \<Rightarrow> fdio
    \<Rightarrow> bool outcome \<times> base_read_awaiter \<times> fdio" where
  "ReadAwaiter_await_ready st aw s =
     (case sys_read st (rw_data aw) (rw_size aw) s of (ret, s') \<Rightarrow>
       (case ret of
          Inl e \<Rightarrow> (if e = EAGAIN then (Ret False, aw, s')
                    else (Throw (Runtime_error ''failed to read from fd''), aw, s'))
        | Inr n \<Rightarrow> (if n < rw_size aw
            then (Ret False, aw\<lparr>rw_data := rw_data aw + n, rw_size := rw_size aw - n\<rparr>, s')
            else (Ret True, aw\<lparr>rw_size := 0\<rparr>, s'))))"

definition ReadAwaiter_await_resume :: "base_read_awaiter \<Rightarrow> unit outcome" where
  "ReadAwaiter_await_resume aw =
     (if rw_err aw then Throw (Runtime_error ''failed to read from fd'')
      else if rw_eof aw then Throw (Runtime_error ''end of stream'')
      else Ret ())"

definition ReadAwaiter_on_read_ready :: "sys_step \<Rightarrow> base_read_awaiter \<Rightarrow> fdio
    \<Rightarrow> base_read_awaiter \<times> fdio \<times> wake" where
  "ReadAwaiter_on_read_ready st aw s =
     (case sys_read st (rw_data aw) (rw_size aw) s of (ret, s') \<Rightarrow>
       (case ret of
          Inl e \<Rightarrow> (if e = EAGAIN then (aw, s', Rearm) else (aw\<lparr>rw_err := True\<rparr>, s', Resume))
        | Inr n \<Rightarrow> (if n < rw_size aw
            then (aw\<lparr>rw_data := rw_data aw + n, rw_size := rw_size aw - n\<rparr>, s', Rearm)
            else (aw\<lparr>rw_size := 0\<rparr>, s', Resume))))"

text \<open>\<open>co_await base.read(fd, data, size)\<close>: the first event is the call made by \<open>await_ready\<close>.\<close>

fun Base_read_into :: "nat \<Rightarrow> nat \<Rightarrow> sys_step list \<Rightarrow> fdio \<Rightarrow> unit outcome \<times> fdio" where
  "Base_read_into data sz [] s = (Blocked, s)"
| "Base_read_into data sz (st # evs) s =
     (case ReadAwaiter_await_ready st (ReadAwaiter_new data sz) s of
        (Ret True, aw, s') \<Rightarrow> (ReadAwaiter_await_resume aw, s')
      | (Ret False, aw, s') \<Rightarrow>
          (case drive ReadAwaiter_on_read_ready ReadAwaiter_await_resume evs aw s' of
             (r, aw', s'', rest) \<Rightarrow> (r, s''))
      | (Throw e, aw, s') \<Rightarrow> (Throw e, s')
      | (Blocked, aw, s') \<Rightarrow> (Blocked, s'))"

text \<open>\<open>Task<string> Base::read(fd, size)\<close>: the caller's memory is a zeroed string of \<open>size\<close> bytes.\<close>

definition Base_read :: "nat \<Rightarrow> sys_step list \<Rightarrow> fdio \<Rightarrow> bytes outcome \<times> fdio" where
  "Base_read sz evs s =
     (case Base_read_into 0 sz evs (s\<lparr>mem := replicate sz 0\<rparr>) of
        (Ret u, s') \<Rightarrow> (Ret (mem s'), s')
      | (Throw e, s') \<Rightarrow> (Throw e, s')
      | (Blocked, s') \<Rightarrow> (Blocked, s'))"

section \<open>WriteAwaiter\<close>

record base_write_awaiter =
  ww_data :: nat
  ww_size :: nat
  ww_err :: bool

definition WriteAwaiter_new :: "nat \<Rightarrow> nat \<Rightarrow> base_write_awaiter" where
  "WriteAwaiter_new data sz = \<lparr>ww_data = data, ww_size = sz, ww_err = False\<rparr>"

definition WriteAwaiter_await_ready :: "sys_step \<Rightarrow> base_write_awaiter \<Rightarrow> fdio
    \<Rightarrow> bool outcome \<times> base_write_awaiter \<times> fdio" where
  "WriteAwaiter_await_ready st aw s =
     (case sys_write st (ww_data aw) (ww_size aw) s of (ret, s') \<Rightarrow>
       (case ret of
          Inl e \<Rightarrow> (if e = EAGAIN then (Ret False, aw, s')
                    else (Throw (Runtime_error ''failed to write to fd''), aw, s'))
        | Inr n \<Rightarrow> (if n < ww_size aw
            then (Ret False, aw\<lparr>ww_data := ww_data aw + n, ww_size := ww_size aw - n\<rparr>, s')
            else (Ret True, aw\<lparr>ww_size := 0\<rparr>, s'))))"

definition WriteAwaiter_await_resume :: "base_write_awaiter \<Rightarrow> unit outcome" where
  "WriteAwaiter_await_resume aw =
     (if ww_err aw then Throw (Runtime_error ''failed to write to fd'') else Ret ())"

definition WriteAwaiter_on_write_ready :: "sys_step \<Rightarrow> base_write_awaiter \<Rightarrow> fdio
    \<Rightarrow> base_write_awaiter \<times> fdio \<times> wake" where
  "WriteAwaiter_on_write_ready st aw s =
     (case sys_write st (ww_data aw) (ww_size aw) s of (ret, s') \<Rightarrow>
       (case ret of
          Inl e \<Rightarrow> (if e = EAGAIN then (aw, s', Rearm) else (aw\<lparr>ww_err := True\<rparr>, s', Resume))
        | Inr n \<Rightarrow> (if n < ww_size aw
            then (aw\<lparr>ww_data := ww_data aw + n, ww_size := ww_size aw - n\<rparr>, s', Rearm)
            else (aw\<lparr>ww_size := 0\<rparr>, s', Resume))))"

text \<open>\<open>co_await base.write(fd, data, size)\<close>, with the data as the whole of the caller's memory.\<close>

fun Base_write :: "bytes \<Rightarrow> sys_step list \<Rightarrow> fdio \<Rightarrow> unit outcome \<times> fdio" where
  "Base_write d [] s = (Blocked, s\<lparr>mem := d\<rparr>)"
| "Base_write d (st # evs) s =
     (case WriteAwaiter_await_ready st (WriteAwaiter_new 0 (length d)) (s\<lparr>mem := d\<rparr>) of
        (Ret True, aw, s') \<Rightarrow> (WriteAwaiter_await_resume aw, s')
      | (Ret False, aw, s') \<Rightarrow>
          (case drive WriteAwaiter_on_write_ready WriteAwaiter_await_resume evs aw s' of
             (r, aw', s'', rest) \<Rightarrow> (r, s''))
      | (Throw e, aw, s') \<Rightarrow> (Throw e, s')
      | (Blocked, aw, s') \<Rightarrow> (Blocked, s'))"

section \<open>RecvFromAwaiter\<close>

text \<open>
  A datagram socket: \<open>recvfrom(fd, data, size, 0, addr)\<close> returns the number of bytes stored,
  which is at most \<open>size\<close>; the rest of a longer message is discarded.
\<close>

datatype recv_step = Rf_msg bytes nat | Rf_again | Rf_error

record recv_result =
  rr_data :: bytes
  rr_data_available :: nat
  rr_addr :: nat

record recv_awaiter =
  rf_max_size :: nat
  rf_res :: recv_result
  rf_err :: bool

definition RecvFromAwaiter_new :: "nat \<Rightarrow> recv_awaiter" where
  "RecvFromAwaiter_new max_size = \<lparr>rf_max_size = max_size,
     rf_res = \<lparr>rr_data = [], rr_data_available = 0, rr_addr = 0\<rparr>, rf_err = False\<rparr>"

definition sys_recvfrom :: "recv_step \<Rightarrow> nat \<Rightarrow> (errno + nat) \<times> bytes \<times> nat" where
  "sys_recvfrom st sz = (case st of
      Rf_msg d a \<Rightarrow> (Inr (min sz (length d)), take sz d, a)
    | Rf_again \<Rightarrow> (Inl EAGAIN, [], 0)
    | Rf_error \<Rightarrow> (Inl EOTHER, [], 0))"

text \<open>
  The string is resized to \<open>max_size\<close> before the call; after it, it is cut to the length of
  the message where that is shorter.
\<close>

definition recv_store :: "nat \<Rightarrow> nat \<Rightarrow> bytes \<Rightarrow> nat \<Rightarrow> recv_result" where
  "recv_store max_size n d a =
     (let full = d @ replicate (max_size - length d) 0 in
      \<lparr>rr_data = (if n < length full then take n full else full), rr_data_available = n,
       rr_addr = a\<rparr>)"

definition RecvFromAwaiter_await_ready :: "recv_step \<Rightarrow> recv_awaiter
    \<Rightarrow> bool outcome \<times> recv_awaiter" where
  "RecvFromAwaiter_await_ready st aw =
     (case sys_recvfrom st (rf_max_size aw) of (ret, d, a) \<Rightarrow>
       (case ret of
          Inl e \<Rightarrow> (if e = EAGAIN then (Ret False, aw)
                    else (Throw (Runtime_error ''failed to read from fd''), aw))
        | Inr n \<Rightarrow> (if n = 0 then (Throw (Runtime_error ''zero-length message''), aw)
            else (Ret True, aw\<lparr>rf_res := recv_store (rf_max_size aw) n d a\<rparr>))))"

definition RecvFromAwaiter_await_resume :: "recv_awaiter \<Rightarrow> recv_result outcome" where
  "RecvFromAwaiter_await_resume aw =
     (if rf_err aw then Throw (Runtime_error ''failed to read from fd'') else Ret (rf_res aw))"

definition RecvFromAwaiter_on_read_ready :: "recv_step \<Rightarrow> recv_awaiter \<Rightarrow> unit
    \<Rightarrow> recv_awaiter \<times> unit \<times> wake" where
  "RecvFromAwaiter_on_read_ready st aw s =
     (case sys_recvfrom st (rf_max_size aw) of (ret, d, a) \<Rightarrow>
       (case ret of
          Inl e \<Rightarrow> (if e = EAGAIN then (aw, s, Rearm) else (aw\<lparr>rf_err := True\<rparr>, s, Resume))
        | Inr n \<Rightarrow> (if n = 0 then (aw\<lparr>rf_err := True\<rparr>, s, Quiet)
            else (aw\<lparr>rf_res := recv_store (rf_max_size aw) n d a\<rparr>, s, Resume))))"

text \<open>The result, and the events that are left.\<close>

fun Base_recvfrom_rest :: "nat \<Rightarrow> recv_step list \<Rightarrow> recv_result outcome \<times> recv_step list" where
  "Base_recvfrom_rest max_size [] = (Blocked, [])"
| "Base_recvfrom_rest max_size (st # evs) =
     (case RecvFromAwaiter_await_ready st (RecvFromAwaiter_new max_size) of
        (Ret True, aw) \<Rightarrow> (RecvFromAwaiter_await_resume aw, evs)
      | (Ret False, aw) \<Rightarrow>
          (case drive RecvFromAwaiter_on_read_ready RecvFromAwaiter_await_resume evs aw () of (r, _, _, rest) \<Rightarrow> (r, rest))
      | (Throw e, aw) \<Rightarrow> (Throw e, evs)
      | (Blocked, aw) \<Rightarrow> (Blocked, evs))"

definition Base_recvfrom :: "nat \<Rightarrow> recv_step list \<Rightarrow> recv_result outcome" where
  "Base_recvfrom max_size evs = fst (Base_recvfrom_rest max_size evs)"

section \<open>AcceptAwaiter\<close>

datatype accept_step = Ac_fd int | Ac_again | Ac_error

record accept_awaiter =
  ac_accepted_fd :: int
  ac_err :: bool

definition AcceptAwaiter_new :: accept_awaiter where
  "AcceptAwaiter_new = \<lparr>ac_accepted_fd = -1, ac_err = False\<rparr>"

definition AcceptAwaiter_await_resume :: "accept_awaiter \<Rightarrow> int outcome" where
  "AcceptAwaiter_await_resume aw =
     (if ac_err aw then Throw (Runtime_error ''accept() failed'') else Ret (ac_accepted_fd aw))"

definition sys_accept :: "accept_step \<Rightarrow> int \<times> errno" where
  "sys_accept st = (case st of
     Ac_fd f \<Rightarrow> (f, EOTHER) | Ac_again \<Rightarrow> (-1, EAGAIN) | Ac_error \<Rightarrow> (-1, EOTHER))"

definition AcceptAwaiter_on_accept_ready :: "accept_step \<Rightarrow> accept_awaiter \<Rightarrow> unit
    \<Rightarrow> accept_awaiter \<times> unit \<times> wake" where
  "AcceptAwaiter_on_accept_ready st aw s = (case sys_accept st of (f, en) \<Rightarrow>
     (let aw' = aw\<lparr>ac_accepted_fd := f\<rparr> in
      if f < 0 then (if en \<noteq> EAGAIN then (aw'\<lparr>ac_err := True\<rparr>, s, Quiet) else (aw', s, Rearm))
      else (aw', s, Resume)))"

definition Base_accept :: "accept_step list \<Rightarrow> int outcome" where
  "Base_accept evs =
     fst (drive AcceptAwaiter_on_accept_ready AcceptAwaiter_await_resume evs AcceptAwaiter_new ())"

section \<open>Transfers of a given size\<close>

lemma mem_write_append:
  "off \<le> length m \<Longrightarrow> mem_write (mem_write m off a) (off + length a) b = mem_write m off (a @ b)"
  by (simp add: mem_write_def ac_simps)

lemma mem_write_all: "length d = length m \<Longrightarrow> mem_write m 0 d = d"
  by (simp add: mem_write_def)

text \<open>
  The ghost value of a read: the stream, memory and output when it began, the offset and the
  number of bytes asked for.  \<open>rd_at g k\<close>: exactly the first \<open>k\<close> bytes have arrived.
\<close>

type_synonym read_ghost = "bytes \<times> bytes \<times> bytes \<times> nat \<times> nat"

fun rd_at :: "read_ghost \<Rightarrow> nat \<Rightarrow> base_read_awaiter \<Rightarrow> fdio \<Rightarrow> bool" where
  "rd_at (p, m, out, off, n) k aw s \<longleftrightarrow>
     n \<le> length p \<and> off + n \<le> length m \<and> \<not> rw_err aw \<and> \<not> rw_eof aw \<and> rw_size aw = n - k \<and>
     fd_inp s = drop k p \<and> mem s = mem_write m off (take k p) \<and> fd_out s = out"

fun rd_inv :: "read_ghost \<Rightarrow> base_read_awaiter \<Rightarrow> fdio \<Rightarrow> bool" where
  "rd_inv (p, m, out, off, n) aw s \<longleftrightarrow>
     (\<exists>k < n. rd_at (p, m, out, off, n) k aw s \<and> rw_data aw = off + k)"

fun rd_post :: "read_ghost \<Rightarrow> base_read_awaiter \<Rightarrow> fdio \<Rightarrow> bool" where
  "rd_post (p, m, out, off, n) aw s \<longleftrightarrow> rd_at (p, m, out, off, n) n aw s"

lemma rd_step:
  assumes "rd_at (p, m, out, off, n) k aw s" and "k < n" and "rw_data aw = off + k"
  obtains j where "0 < j" and "k + j \<le> n"
    and "ReadAwaiter_on_read_ready (Sys_ok i) aw s =
      (if k + j < n then aw\<lparr>rw_data := off + (k + j), rw_size := n - (k + j)\<rparr> else aw\<lparr>rw_size := 0\<rparr>,
       s\<lparr>fd_inp := drop (k + j) p, mem := mem_write m off (take (k + j) p)\<rparr>,
       if k + j < n then Rearm else Resume)"
proof -
  define j where "j = min (Suc i) (min (rw_size aw) (length (fd_inp s)))"
  from assms have j: "0 < j" "k + j \<le> n" by (auto simp: j_def)
  have mw: "mem_write (mem s) (rw_data aw) (take j (fd_inp s)) = mem_write m off (take (k + j) p)"
    using assms mem_write_append [of off m "take k p" "take j (drop k p)"]
    by (simp add: take_add)
  have inp: "drop j (fd_inp s) = drop (k + j) p"
    using assms(1) by (simp add: add.commute)
  have rd: "sys_read (Sys_ok i) (rw_data aw) (rw_size aw) s =
      (Inr j, s\<lparr>fd_inp := drop (k + j) p, mem := mem_write m off (take (k + j) p)\<rparr>)"
    unfolding sys_read_def by (simp only: sys_step.case Let_def j_def [symmetric] mw inp)
  have "j < rw_size aw \<longleftrightarrow> k + j < n" and "rw_size aw - j = n - (k + j)"
    using assms j by auto
  with rd assms(3) j that show ?thesis
    by (simp add: ReadAwaiter_on_read_ready_def add.assoc)
qed

interpretation rdloop: retry_loop "\<lambda>_. ReadAwaiter_on_read_ready" rd_inv
  "\<lambda>i. \<exists>k. i = Sys_ok k" "\<lambda>_ aw _. rw_size aw" rd_post
proof
  fix g :: read_ghost and aw s and i :: sys_step
  assume inv: "rd_inv g aw s" and good: "\<exists>k. i = Sys_ok k"
  obtain p m out off n where g: "g = (p, m, out, off, n)" by (metis prod_cases5)
  from inv g obtain k where k: "rd_at (p, m, out, off, n) k aw s" "k < n" "rw_data aw = off + k"
    by auto
  from good obtain i' where i: "i = Sys_ok i'" ..
  obtain j where j: "0 < j" "k + j \<le> n" and step: "ReadAwaiter_on_read_ready i aw s =
      (if k + j < n then aw\<lparr>rw_data := off + (k + j), rw_size := n - (k + j)\<rparr> else aw\<lparr>rw_size := 0\<rparr>,
       s\<lparr>fd_inp := drop (k + j) p, mem := mem_write m off (take (k + j) p)\<rparr>,
       if k + j < n then Rearm else Resume)"
    using rd_step [OF k, of i'] i by metis
  show "snd (snd (ReadAwaiter_on_read_ready i aw s)) \<noteq> Quiet"
    by (simp add: step)
  show "rd_inv g aw' s' \<and> rw_size aw' < rw_size aw"
    if "ReadAwaiter_on_read_ready i aw s = (aw', s', Rearm)" for aw' s'
    using that step k j g by (auto split: if_splits)
  show "rd_post g aw' s'" if "ReadAwaiter_on_read_ready i aw s = (aw', s', Resume)" for aw' s'
  proof -
    from that step j have "k + j = n" by (auto split: if_splits)
    with that step k g show ?thesis by auto
  qed
next
  fix g :: read_ghost and aw s
  assume "rd_inv g aw s"
  then show "0 < rw_size aw" by (cases g) auto
qed

text \<open>The call in \<open>await_ready\<close> behaves like one more run of the callback.\<close>

lemma Base_read_into_drive:
  "Base_read_into data n evs s =
     (\<lambda>(r, aw, s', rest). (r, s'))
       (drive ReadAwaiter_on_read_ready ReadAwaiter_await_resume evs (ReadAwaiter_new data n) s)"
proof (cases evs)
  case (Cons st evs')
  then show ?thesis
    by (cases "sys_read st data n s")
      (auto simp: ReadAwaiter_await_ready_def ReadAwaiter_on_read_ready_def ReadAwaiter_new_def
        ReadAwaiter_await_resume_def split: sum.splits)
qed simp

text \<open>Progress events among those that may also report that nothing is ready yet.\<close>

definition sys_oks :: "sys_step list \<Rightarrow> nat" where
  "sys_oks evs = length (filter (\<lambda>i. i \<noteq> Sys_again) evs)"

lemma drive_read_skip:
  "fst (drive ReadAwaiter_on_read_ready fin evs aw s) =
     fst (drive ReadAwaiter_on_read_ready fin (filter (\<lambda>i. i \<noteq> Sys_again) evs) aw s)"
  "fst (snd (snd (drive ReadAwaiter_on_read_ready fin evs aw s))) =
     fst (snd (snd (drive ReadAwaiter_on_read_ready fin (filter (\<lambda>i. i \<noteq> Sys_again) evs) aw s)))"
  using drive_skip [of "\<lambda>i. i = Sys_again" ReadAwaiter_on_read_ready fin evs aw s]
  by (auto simp: ReadAwaiter_on_read_ready_def sys_read_def split: prod.splits)

text \<open>C37: reading \<open>n\<close> bytes from a descriptor returns exactly the next \<open>n\<close> bytes of the stream, in
  order, and leaves the rest unread, however the kernel fragments them and however often it
  reports that nothing is ready; it does return once the kernel has reported progress \<open>n\<close> times.
\<close>

theorem Base_read_exact:
  assumes "0 < n" and "n \<le> length (fd_inp s)" and "Sys_error \<notin> set evs" and "n \<le> sys_oks evs"
  shows "\<exists>s'. Base_read n evs s = (Ret (take n (fd_inp s)), s') \<and>
    fd_inp s' = drop n (fd_inp s) \<and> fd_out s' = fd_out s"
proof -
  let ?s = "s\<lparr>mem := replicate n 0\<rparr>"
  let ?g = "(fd_inp s, replicate n 0, fd_out s, 0, n) :: read_ghost"
  let ?evs = "filter (\<lambda>i. i \<noteq> Sys_again) evs"
  have inv: "rd_inv ?g (ReadAwaiter_new 0 n) ?s"
    using assms by (auto simp: ReadAwaiter_new_def mem_write_def)
  have "\<forall>i \<in> set ?evs. \<exists>k. i = Sys_ok k"
    using assms(3) by auto (metis sys_step.exhaust)
  moreover have "rw_size (ReadAwaiter_new 0 n) \<le> length ?evs"
    using assms(4) by (simp add: ReadAwaiter_new_def sys_oks_def)
  ultimately obtain aw' s' k where
    d: "drive ReadAwaiter_on_read_ready ReadAwaiter_await_resume ?evs (ReadAwaiter_new 0 n) ?s =
      (ReadAwaiter_await_resume aw', aw', s', drop k ?evs)" and post: "rd_post ?g aw' s'"
    using rdloop.drive_total [OF inv] by blast
  from post have res: "ReadAwaiter_await_resume aw' = Ret ()" and mem: "mem s' = take n (fd_inp s)"
    and "fd_inp s' = drop n (fd_inp s)" "fd_out s' = fd_out s"
    using assms(2) by (auto simp: ReadAwaiter_await_resume_def mem_write_all)
  moreover have "Base_read_into 0 n evs ?s = (Ret (), s')"
    using d res by (simp add: Base_read_into_drive case_prod_beta drive_read_skip)
  ultimately show ?thesis by (simp add: Base_read_def)
qed

theorem Base_read_exact_witness:
  "\<exists>s'. Base_read 3 [Sys_again, Sys_ok 1, Sys_again, Sys_ok 0, Sys_ok 5]
      \<lparr>fd_inp = [10, 20, 30, 40], fd_out = [], mem = []\<rparr> = (Ret [10, 20, 30], s') \<and>
    fd_inp s' = [40] \<and> fd_out s' = []"
  using Base_read_exact [of 3 "\<lparr>fd_inp = [10, 20, 30, 40], fd_out = [], mem = []\<rparr>"
    "[Sys_again, Sys_ok 1, Sys_again, Sys_ok 0, Sys_ok 5]"]
  by (simp add: sys_oks_def)

text \<open>when the peer closes the stream before \<open>n\<close> bytes have arrived, the read never finishes: for
  every schedule without a hard error the coroutine stays suspended, re-arming itself on every
  readiness event, although \<open>await_resume\<close> has a branch for the end of the stream.
\<close>

theorem Base_read_eof_never_resumes:
  assumes "length (fd_inp s) < n" and "Sys_error \<notin> set evs"
  shows "fst (Base_read n evs s) = Blocked"
proof -
  let ?I = "\<lambda>aw (s :: fdio). length (fd_inp s) < rw_size aw"
  have "fst (drive ReadAwaiter_on_read_ready ReadAwaiter_await_resume evs (ReadAwaiter_new 0 n)
      (s\<lparr>mem := replicate n 0\<rparr>)) = Blocked"
  proof (rule drive_forever [where P = "\<lambda>i. i \<noteq> Sys_error" and I = ?I])
    show "snd (snd (ReadAwaiter_on_read_ready i aw s)) = Rearm \<and>
        ?I (fst (ReadAwaiter_on_read_ready i aw s)) (fst (snd (ReadAwaiter_on_read_ready i aw s)))"
      if "i \<noteq> Sys_error" "?I aw s" for i aw s
      using that
      by (cases i) (auto simp: ReadAwaiter_on_read_ready_def sys_read_def Let_def)
  qed (use assms in \<open>auto simp: ReadAwaiter_new_def\<close>)
  then show ?thesis
    by (cases "Base_read_into 0 n evs (s\<lparr>mem := replicate n 0\<rparr>)")
      (auto simp: Base_read_def Base_read_into_drive split: prod.splits)
qed

theorem Base_read_eof_never_resumes_witness:
  "fst (Base_read 2 (replicate 100 (Sys_ok 7)) \<lparr>fd_inp = [1], fd_out = [], mem = []\<rparr>) = Blocked"
  using Base_read_eof_never_resumes
    [of "\<lparr>fd_inp = [1], fd_out = [], mem = []\<rparr>" 2 "replicate 100 (Sys_ok 7)"]
  by simp

section \<open>Writes\<close>

type_synonym write_ghost = "bytes \<times> bytes \<times> bytes"

fun wr_at :: "write_ghost \<Rightarrow> nat \<Rightarrow> base_write_awaiter \<Rightarrow> fdio \<Rightarrow> bool" where
  "wr_at (p, d, out) k aw s \<longleftrightarrow>
     \<not> ww_err aw \<and> ww_size aw = length d - k \<and> mem s = d \<and>
     fd_inp s = p \<and> fd_out s = out @ take k d"

fun wr_inv :: "write_ghost \<Rightarrow> base_write_awaiter \<Rightarrow> fdio \<Rightarrow> bool" where
  "wr_inv (p, d, out) aw s \<longleftrightarrow>
     (\<exists>k < length d. wr_at (p, d, out) k aw s \<and> ww_data aw = k)"

fun wr_post :: "write_ghost \<Rightarrow> base_write_awaiter \<Rightarrow> fdio \<Rightarrow> bool" where
  "wr_post (p, d, out) aw s \<longleftrightarrow> wr_at (p, d, out) (length d) aw s"

lemma wr_step:
  assumes "wr_at (p, d, out) k aw s" and "k < length d" and "ww_data aw = k"
  obtains j where "0 < j" and "k + j \<le> length d"
    and "WriteAwaiter_on_write_ready (Sys_ok i) aw s =
      (if k + j < length d then aw\<lparr>ww_data := k + j, ww_size := length d - (k + j)\<rparr>
       else aw\<lparr>ww_size := 0\<rparr>, s\<lparr>fd_out := out @ take (k + j) d\<rparr>,
       if k + j < length d then Rearm else Resume)"
proof -
  define j where "j = min (Suc i) (ww_size aw)"
  from assms have j: "0 < j" "k + j \<le> length d" by (auto simp: j_def)
  have out: "fd_out s @ take j (drop (ww_data aw) (mem s)) = out @ take (k + j) d"
    using assms by (simp add: take_add)
  have wr: "sys_write (Sys_ok i) (ww_data aw) (ww_size aw) s =
      (Inr j, s\<lparr>fd_out := out @ take (k + j) d\<rparr>)"
    unfolding sys_write_def by (simp only: sys_step.case Let_def j_def [symmetric] out)
  have "j < ww_size aw \<longleftrightarrow> k + j < length d" and "ww_size aw - j = length d - (k + j)"
    using assms j by auto
  with wr assms(3) j that show ?thesis
    by (simp add: WriteAwaiter_on_write_ready_def)
qed

interpretation wrloop: retry_loop "\<lambda>_. WriteAwaiter_on_write_ready" wr_inv
  "\<lambda>i. \<exists>k. i = Sys_ok k" "\<lambda>_ aw _. ww_size aw" wr_post
proof
  fix g :: write_ghost and aw s and i :: sys_step
  assume inv: "wr_inv g aw s" and good: "\<exists>k. i = Sys_ok k"
  obtain p d out where g: "g = (p, d, out)" by (metis prod_cases3)
  from inv g obtain k where k: "wr_at (p, d, out) k aw s" "k < length d" "ww_data aw = k" by auto
  from good obtain i' where i: "i = Sys_ok i'" ..
  obtain j where j: "0 < j" "k + j \<le> length d" and step: "WriteAwaiter_on_write_ready i aw s =
      (if k + j < length d then aw\<lparr>ww_data := k + j, ww_size := length d - (k + j)\<rparr>
       else aw\<lparr>ww_size := 0\<rparr>, s\<lparr>fd_out := out @ take (k + j) d\<rparr>,
       if k + j < length d then Rearm else Resume)"
    using wr_step [OF k, of i'] i by metis
  show "snd (snd (WriteAwaiter_on_write_ready i aw s)) \<noteq> Quiet"
    by (simp add: step)
  show "wr_inv g aw' s' \<and> ww_size aw' < ww_size aw"
    if "WriteAwaiter_on_write_ready i aw s = (aw', s', Rearm)" for aw' s'
    using that step k j g by (auto split: if_splits)
  show "wr_post g aw' s'" if "WriteAwaiter_on_write_ready i aw s = (aw', s', Resume)" for aw' s'
  proof -
    from that step j have "k + j = length d" by (auto split: if_splits)
    with that step k g show ?thesis by auto
  qed
next
  fix g :: write_ghost and aw s
  assume "wr_inv g aw s"
  then show "0 < ww_size aw" by (cases g) auto
qed

lemma Base_write_drive:
  "fst (Base_write d evs s) = fst (drive WriteAwaiter_on_write_ready WriteAwaiter_await_resume evs
     (WriteAwaiter_new 0 (length d)) (s\<lparr>mem := d\<rparr>))"
  "snd (Base_write d evs s) = fst (snd (snd (drive WriteAwaiter_on_write_ready
     WriteAwaiter_await_resume evs (WriteAwaiter_new 0 (length d)) (s\<lparr>mem := d\<rparr>))))"
proof -
  have "Base_write d evs s = (\<lambda>(r, aw, s', rest). (r, s')) (drive WriteAwaiter_on_write_ready
     WriteAwaiter_await_resume evs (WriteAwaiter_new 0 (length d)) (s\<lparr>mem := d\<rparr>))"
  proof (cases evs)
    case (Cons st evs')
    then show ?thesis
      by (cases "sys_write st 0 (length d) (s\<lparr>mem := d\<rparr>)")
        (auto simp: WriteAwaiter_await_ready_def WriteAwaiter_on_write_ready_def
          WriteAwaiter_new_def WriteAwaiter_await_resume_def split: sum.splits)
  qed simp
  then show "fst (Base_write d evs s) = fst (drive WriteAwaiter_on_write_ready
      WriteAwaiter_await_resume evs (WriteAwaiter_new 0 (length d)) (s\<lparr>mem := d\<rparr>))"
    and "snd (Base_write d evs s) = fst (snd (snd (drive WriteAwaiter_on_write_ready
      WriteAwaiter_await_resume evs (WriteAwaiter_new 0 (length d)) (s\<lparr>mem := d\<rparr>))))"
    by (simp_all add: case_prod_beta)
qed

lemma drive_write_skip:
  "fst (drive WriteAwaiter_on_write_ready fin evs aw s) =
     fst (drive WriteAwaiter_on_write_ready fin (filter (\<lambda>i. i \<noteq> Sys_again) evs) aw s)"
  "fst (snd (snd (drive WriteAwaiter_on_write_ready fin evs aw s))) =
     fst (snd (snd (drive WriteAwaiter_on_write_ready fin (filter (\<lambda>i. i \<noteq> Sys_again) evs) aw s)))"
  using drive_skip [of "\<lambda>i. i = Sys_again" WriteAwaiter_on_write_ready fin evs aw s]
  by (auto simp: WriteAwaiter_on_write_ready_def sys_write_def split: prod.splits)

text \<open>writing a string to a descriptor sends exactly its bytes, in order and once, however the
  kernel fragments the transfer, and finishes once the kernel has accepted data as often as the
  string has bytes.
\<close>

theorem Base_write_exact:
  assumes "d \<noteq> []" and "Sys_error \<notin> set evs" and "length d \<le> sys_oks evs"
  shows "fst (Base_write d evs s) = Ret () \<and>
    fd_out (snd (Base_write d evs s)) = fd_out s @ d \<and> fd_inp (snd (Base_write d evs s)) = fd_inp s"
proof -
  let ?g = "(fd_inp s, d, fd_out s) :: write_ghost"
  let ?evs = "filter (\<lambda>i. i \<noteq> Sys_again) evs"
  have inv: "wr_inv ?g (WriteAwaiter_new 0 (length d)) (s\<lparr>mem := d\<rparr>)"
    using assms by (auto simp: WriteAwaiter_new_def)
  have "\<forall>i \<in> set ?evs. \<exists>k. i = Sys_ok k"
    using assms(2) by auto (metis sys_step.exhaust)
  moreover have "ww_size (WriteAwaiter_new 0 (length d)) \<le> length ?evs"
    using assms(3) by (simp add: WriteAwaiter_new_def sys_oks_def)
  ultimately obtain aw' s' k where
    dr: "drive WriteAwaiter_on_write_ready WriteAwaiter_await_resume ?evs
      (WriteAwaiter_new 0 (length d)) (s\<lparr>mem := d\<rparr>) =
      (WriteAwaiter_await_resume aw', aw', s', drop k ?evs)" and post: "wr_post ?g aw' s'"
    using wrloop.drive_total [OF inv] by blast
  from dr have "Base_write d evs s = (WriteAwaiter_await_resume aw', s')"
    by (intro prod_eqI) (simp_all add: Base_write_drive drive_write_skip)
  with post show ?thesis by (simp add: WriteAwaiter_await_resume_def)
qed

theorem Base_write_exact_witness:
  "fst (Base_write [1, 2, 3] [Sys_ok 0, Sys_again, Sys_ok 0, Sys_ok 4] \<lparr>fd_inp = [], fd_out = [9], mem = []\<rparr>) =
     Ret () \<and>
   fd_out (snd (Base_write [1, 2, 3] [Sys_ok 0, Sys_again, Sys_ok 0, Sys_ok 4]
     \<lparr>fd_inp = [], fd_out = [9], mem = []\<rparr>)) = [9, 1, 2, 3]"
  using Base_write_exact [of "[1, 2, 3]" "[Sys_ok 0, Sys_again, Sys_ok 0, Sys_ok 4]"
    "\<lparr>fd_inp = [], fd_out = [9], mem = []\<rparr>"]
  by (simp add: sys_oks_def)

section \<open>Datagrams and incoming connections\<close>

lemma recv_store_msg:
  assumes "sys_recvfrom (Rf_msg d a) n = (Inr k, d', a')"
  shows "recv_store n k d' a' =
    \<lparr>rr_data = take n d, rr_data_available = length (take n d), rr_addr = a\<rparr>"
  using assms by (auto simp: sys_recvfrom_def recv_store_def Let_def min_def split: if_splits)

lemma recvfrom_rest_message:
  assumes "0 < max_size" and "d \<noteq> []" and "\<forall>e \<in> set before. e = Rf_again"
  shows "Base_recvfrom_rest max_size (before @ Rf_msg d a # evs) =
    (Ret \<lparr>rr_data = take max_size d, rr_data_available = length (take max_size d), rr_addr = a\<rparr>, evs)"
proof -
  have n0: "min max_size (length d) \<noteq> 0" using assms by auto
  have msg: "\<And>aw. rf_max_size aw = max_size \<Longrightarrow> \<not> rf_err aw \<Longrightarrow>
    (case drive RecvFromAwaiter_on_read_ready RecvFromAwaiter_await_resume (bs @ Rf_msg d a # evs) aw () of (r, _, _, rest) \<Rightarrow> (r, rest)) =
    (Ret \<lparr>rr_data = take max_size d, rr_data_available = length (take max_size d), rr_addr = a\<rparr>, evs)"
    if "\<forall>e \<in> set bs. e = Rf_again" for bs
    using that
  proof (induction bs)
    case Nil
    then show ?case
      using n0 recv_store_msg [of d a max_size "min max_size (length d)" "take max_size d" a]
      by (auto simp: RecvFromAwaiter_on_read_ready_def RecvFromAwaiter_await_resume_def
          sys_recvfrom_def)
  next
    case (Cons e bs)
    then show ?case by (simp add: RecvFromAwaiter_on_read_ready_def sys_recvfrom_def)
  qed
  show ?thesis
  proof (cases before)
    case Nil
    then show ?thesis
      using n0 recv_store_msg [of d a max_size "min max_size (length d)" "take max_size d" a]
      by (auto simp: RecvFromAwaiter_await_ready_def RecvFromAwaiter_new_def
          RecvFromAwaiter_await_resume_def sys_recvfrom_def)
  next
    case (Cons e bs)
    with assms(3) msg [of bs "RecvFromAwaiter_new max_size"] show ?thesis
      by (simp add: RecvFromAwaiter_await_ready_def RecvFromAwaiter_new_def sys_recvfrom_def)
  qed
qed

text \<open>\<open>recvfrom\<close> returns the first non-empty message that arrives, cut to \<open>max_size\<close>, with its
  sender; the reported \<open>data_available\<close> is always the length of the returned data, also for a
  message that was too long, although the declaration says that it may be larger then.
\<close>

theorem Base_recvfrom_message:
  assumes "0 < max_size" and "d \<noteq> []" and "\<forall>e \<in> set before. e = Rf_again"
  shows "Base_recvfrom max_size (before @ Rf_msg d a # evs) =
    Ret \<lparr>rr_data = take max_size d, rr_data_available = length (take max_size d), rr_addr = a\<rparr>"
  using recvfrom_rest_message [OF assms] by (simp add: Base_recvfrom_def)

theorem Base_recvfrom_message_witness:
  "Base_recvfrom 2 [Rf_again, Rf_again, Rf_msg [5, 6, 7] 42, Rf_msg [8] 43] =
     Ret \<lparr>rr_data = [5, 6], rr_data_available = 2, rr_addr = 42\<rparr>"
  using Base_recvfrom_message [of 2 "[5, 6, 7]" "[Rf_again, Rf_again]" 42 "[Rf_msg [8] 43]"]
  by simp

text \<open>two callback branches lose the coroutine: an empty datagram that arrives while a
  \<open>recvfrom\<close> is suspended, and a hard error of \<open>accept\<close>.  Both record the error, but neither resume
  the coroutine nor re-add the event, so no later message or connection is ever delivered.
\<close>

theorem lost_wakeups:
  "Base_recvfrom max_size (Rf_again # Rf_msg [] a # evs) = Blocked \<and>
   Base_accept (Ac_error # evs') = Blocked"
  by (simp add: Base_recvfrom_def RecvFromAwaiter_await_ready_def RecvFromAwaiter_on_read_ready_def sys_recvfrom_def
      RecvFromAwaiter_new_def Base_accept_def AcceptAwaiter_on_accept_ready_def sys_accept_def
      Let_def)

lemma Base_accept_fd:
  "0 \<le> f \<Longrightarrow> (\<forall>e \<in> set before. e = Ac_again) \<Longrightarrow> Base_accept (before @ Ac_fd f # evs) = Ret f"
proof -
  assume f: "0 \<le> f" and again: "\<forall>e \<in> set before. e = Ac_again"
  have "\<not> ac_err aw \<Longrightarrow> fst (drive AcceptAwaiter_on_accept_ready AcceptAwaiter_await_resume
      (before @ Ac_fd f # evs) aw ()) = Ret f" for aw
    using again f
    by (induction before arbitrary: aw)
      (auto simp: AcceptAwaiter_on_accept_ready_def sys_accept_def AcceptAwaiter_await_resume_def
        Let_def)
  then show ?thesis by (simp add: Base_accept_def AcceptAwaiter_new_def)
qed

end
