(* ===== verification/Buffer_References.thy ===== *)
theory Buffer_References
  imports Prelude
begin

text \<open>
  The methods of Buffer that put memory into the buffer without copying it (Buffer.cc): \<open>add_reference\<close> with
  and without a cleanup function, and \<open>add\<close> of a string that is moved in.  The wrappers keep objects on
  the heap until libevent calls the cleanup function.  When libevent reads a piece of memory that it
  holds and when it releases one is not fixed: both are steps of the environment, which may come in any order
  between the calls of the program.  The lemmas show that every object of the wrappers
  is deleted exactly once, and not before libevent has released the memory it stands for.
\<close>

section \<open>Pieces of memory\<close>

text \<open>A piece is libevent's own copy, memory of the caller, or the characters of a string on the heap.\<close>

datatype memory = Copied bytes | Borrowed bytes | In_string nat

text \<open>The C function and its context, as libevent stores them.\<close>

datatype cleanup = No_cleanup | C_function nat | Dispatch_cxx nat | Dispatch_delete nat

record segment =
  sg_memory :: memory
  sg_cleanup :: cleanup

text \<open>What the wrappers allocate: copies of a function of the caller, and strings.\<close>

datatype heap_object = Function_copy nat | String_object bytes

text \<open>
  \<open>rf_called\<close> records the calls of the caller's functions with the memory they get; \<open>rf_string\<close> is the
  caller's string, which a move leaves empty.
\<close>

record references =
  rf_chain :: "segment list"
  rf_heap :: "nat \<rightharpoonup> heap_object"
  rf_next :: nat
  rf_called :: "(nat \<times> bytes) list"
  rf_deleted :: "nat list"
  rf_string :: bytes

definition references_new :: references where
  "references_new = \<lparr>rf_chain = [], rf_heap = Map.empty, rf_next = 0, rf_called = [], rf_deleted = [], rf_string = []\<rparr>"

definition new_object :: "heap_object \<Rightarrow> (references, nat) act" where
  "new_object x = (\<lambda>s. (Ret (rf_next s), s\<lparr>rf_heap := (rf_heap s)(rf_next s \<mapsto> x), rf_next := Suc (rf_next s)\<rparr>))"

definition delete_object :: "nat \<Rightarrow> (references, unit) act" where
  "delete_object h = (\<lambda>s. if rf_heap s h = None then (Throw (Undefined_behaviour ''delete of a deleted object''), s)
     else (Ret (), s\<lparr>rf_heap := (rf_heap s)(h := None), rf_deleted := rf_deleted s @ [h]\<rparr>))"

definition memory_bytes :: "(nat \<rightharpoonup> heap_object) \<Rightarrow> memory \<Rightarrow> bytes outcome" where
  "memory_bytes heap mem = (case mem of Copied d \<Rightarrow> Ret d | Borrowed d \<Rightarrow> Ret d
     | In_string h \<Rightarrow> (case heap h of Some (String_object d) \<Rightarrow> Ret d | _ \<Rightarrow> Throw (Undefined_behaviour ''read of a deleted string'')))"

section \<open>The wrappers\<close>

text \<open>\<open>ok\<close>: libevent accepts the memory, and holds it as its last piece.\<close>

definition evbuffer_append :: "bool \<Rightarrow> segment \<Rightarrow> (references, bool) act" where
  "evbuffer_append ok g = (if ok then seqA (modifyA (\<lambda>s. s\<lparr>rf_chain := rf_chain s @ [g]\<rparr>)) (retA True) else retA False)"

definition add_failed :: "(references, unit) act" where
  "add_failed = throwA (Runtime_error ''evbuffer_add_reference'')"

definition Buffer_add_copy :: "bool \<Rightarrow> bytes \<Rightarrow> (references, unit) act" where
  "Buffer_add_copy ok d = bindA (evbuffer_append ok \<lparr>sg_memory = Copied d, sg_cleanup = No_cleanup\<rparr>)
     (\<lambda>r. if r then retA () else throwA (Runtime_error ''evbuffer_add''))"

definition Buffer_add_reference_string :: "bool \<Rightarrow> bytes \<Rightarrow> (references, unit) act" where
  "Buffer_add_reference_string ok d = bindA (evbuffer_append ok \<lparr>sg_memory = Borrowed d, sg_cleanup = No_cleanup\<rparr>)
     (\<lambda>r. if r then retA () else add_failed)"

definition Buffer_add_reference_c :: "bool \<Rightarrow> bytes \<Rightarrow> nat \<Rightarrow> (references, unit) act" where
  "Buffer_add_reference_c ok d f = bindA (evbuffer_append ok \<lparr>sg_memory = Borrowed d, sg_cleanup = C_function f\<rparr>)
     (\<lambda>r. if r then retA () else add_failed)"

definition Buffer_add_reference_fn :: "bool \<Rightarrow> bytes \<Rightarrow> nat \<Rightarrow> (references, unit) act" where
  "Buffer_add_reference_fn ok d f = bindA (new_object (Function_copy f)) (\<lambda>h.
     bindA (evbuffer_append ok \<lparr>sg_memory = Borrowed d, sg_cleanup = Dispatch_cxx h\<rparr>)
     (\<lambda>r. if r then retA () else seqA (delete_object h) add_failed))"

text \<open>When libevent refuses it, the string is moved back to the caller: \<open>data = std::move(*s)\<close>.\<close>

definition move_back :: "nat \<Rightarrow> (references, unit) act" where
  "move_back h = bindA (getsA rf_heap) (\<lambda>heap. bindA (liftO (memory_bytes heap (In_string h))) (\<lambda>d.
     modifyA (\<lambda>s. s\<lparr>rf_string := d, rf_heap := (rf_heap s)(h \<mapsto> String_object [])\<rparr>)))"

definition Buffer_add_rvalue :: "bool \<Rightarrow> (references, unit) act" where
  "Buffer_add_rvalue ok = bindA (getsA rf_string) (\<lambda>d.
     bindA (new_object (String_object d)) (\<lambda>h. seqA (modifyA (\<lambda>s. s\<lparr>rf_string := []\<rparr>))
     (bindA (evbuffer_append ok \<lparr>sg_memory = In_string h, sg_cleanup = Dispatch_delete h\<rparr>)
     (\<lambda>r. if r then retA () else seqA (move_back h) (seqA (delete_object h) add_failed)))))"

text \<open>The two functions that libevent calls back.\<close>

definition dispatch_cxx_cleanup_fn :: "bytes \<Rightarrow> nat \<Rightarrow> (references, unit) act" where
  "dispatch_cxx_cleanup_fn d h = bindA (getsA rf_heap) (\<lambda>heap. case heap h of
     Some (Function_copy f) \<Rightarrow> seqA (modifyA (\<lambda>s. s\<lparr>rf_called := rf_called s @ [(f, d)]\<rparr>)) (delete_object h)
   | _ \<Rightarrow> throwA (Undefined_behaviour ''call of a deleted function''))"

definition dispatch_delete_string :: "nat \<Rightarrow> (references, unit) act" where
  "dispatch_delete_string h = delete_object h"

section \<open>libevent's steps\<close>

text \<open>Releasing a piece calls its cleanup function, with the whole memory where the function gets it.\<close>

definition release_segment :: "segment \<Rightarrow> (references, unit) act" where
  "release_segment g = (case sg_cleanup g of
     No_cleanup \<Rightarrow> retA ()
   | C_function f \<Rightarrow> bindA (getsA rf_heap) (\<lambda>heap. bindA (liftO (memory_bytes heap (sg_memory g))) (\<lambda>d. modifyA (\<lambda>s. s\<lparr>rf_called := rf_called s @ [(f, d)]\<rparr>)))
   | Dispatch_cxx h \<Rightarrow> bindA (getsA rf_heap) (\<lambda>heap. bindA (liftO (memory_bytes heap (sg_memory g))) (\<lambda>d. dispatch_cxx_cleanup_fn d h))
   | Dispatch_delete h \<Rightarrow> dispatch_delete_string h)"

section \<open>Runs\<close>

text \<open>
  Calls of the program, of which libevent accepts some, and steps of libevent: it reads the piece with a given
  position among those it holds, or releases it.  A position without a piece stands for no step.
\<close>

datatype reference_op =
    Add_copy bool bytes
  | Add_string bool bytes
  | Add_c bool bytes nat
  | Add_fn bool bytes nat
  | Add_moved bool bytes
  | Read nat
  | Release nat

text \<open>An exception goes to the caller, who goes on.\<close>

definition catch_failed :: "(references, unit) act \<Rightarrow> (references, unit) act" where
  "catch_failed m = (\<lambda>s. case m s of (Throw (Runtime_error e), s') \<Rightarrow> (Ret (), s') | r \<Rightarrow> r)"

fun reference_step :: "reference_op \<Rightarrow> (references, bytes list) act" where
  "reference_step (Add_copy ok d) = seqA (catch_failed (Buffer_add_copy ok d)) (retA [])"
| "reference_step (Add_string ok d) = seqA (catch_failed (Buffer_add_reference_string ok d)) (retA [])"
| "reference_step (Add_c ok d f) = seqA (catch_failed (Buffer_add_reference_c ok d f)) (retA [])"
| "reference_step (Add_fn ok d f) = seqA (catch_failed (Buffer_add_reference_fn ok d f)) (retA [])"
| "reference_step (Add_moved ok d) = seqA (modifyA (\<lambda>s. s\<lparr>rf_string := d\<rparr>)) (seqA (catch_failed (Buffer_add_rvalue ok)) (retA []))"
| "reference_step (Read i) = (\<lambda>s. if i < length (rf_chain s)
     then bindA (liftO (memory_bytes (rf_heap s) (sg_memory (rf_chain s ! i)))) (\<lambda>d. retA [d]) s else (Ret [], s))"
| "reference_step (Release i) = (\<lambda>s. if i < length (rf_chain s)
     then seqA (release_segment (rf_chain s ! i)) (retA []) (s\<lparr>rf_chain := take i (rf_chain s) @ drop (Suc i) (rf_chain s)\<rparr>) else (Ret [], s))"

fun reference_run :: "reference_op list \<Rightarrow> (references, bytes list) act" where
  "reference_run [] = retA []"
| "reference_run (x # xs) = bindA (reference_step x) (\<lambda>d. bindA (reference_run xs) (\<lambda>e. retA (d @ e)))"

section \<open>What the calls promise\<close>

text \<open>
  The specification knows no heap: libevent holds pieces of bytes, each with the caller's function if
  it has one.  A step gives the pieces held after it, the bytes that are read and the
  calls of functions that are made.
\<close>

type_synonym piece = "bytes \<times> nat option"

fun spec_step :: "reference_op \<Rightarrow> piece list \<Rightarrow> piece list \<times> bytes list \<times> (nat \<times> bytes) list" where
  "spec_step (Add_copy ok d) ps = (if ok then ps @ [(d, None)] else ps, [], [])"
| "spec_step (Add_string ok d) ps = (if ok then ps @ [(d, None)] else ps, [], [])"
| "spec_step (Add_c ok d f) ps = (if ok then ps @ [(d, Some f)] else ps, [], [])"
| "spec_step (Add_fn ok d f) ps = (if ok then ps @ [(d, Some f)] else ps, [], [])"
| "spec_step (Add_moved ok d) ps = (if ok then ps @ [(d, None)] else ps, [], [])"
| "spec_step (Read i) ps = (ps, if i < length ps then [fst (ps ! i)] else [], [])"
| "spec_step (Release i) ps = (take i ps @ drop (Suc i) ps, [],
     if i < length ps then (case snd (ps ! i) of None \<Rightarrow> [] | Some f \<Rightarrow> [(f, fst (ps ! i))]) else [])"

fun reference_spec :: "reference_op list \<Rightarrow> piece list \<Rightarrow> piece list \<times> bytes list \<times> (nat \<times> bytes) list" where
  "reference_spec [] ps = (ps, [], [])"
| "reference_spec (x # xs) ps = (let (ps', r, c) = spec_step x ps; (ps'', r', c') = reference_spec xs ps' in (ps'', r @ r', c @ c'))"

section \<open>The invariant\<close>

definition seg_objects :: "segment \<Rightarrow> nat list" where
  "seg_objects g = (case sg_cleanup g of Dispatch_cxx h \<Rightarrow> [h] | Dispatch_delete h \<Rightarrow> [h] | _ \<Rightarrow> [])"

definition seg_data :: "(nat \<rightharpoonup> heap_object) \<Rightarrow> segment \<Rightarrow> bytes" where
  "seg_data heap g = (case memory_bytes heap (sg_memory g) of Ret d \<Rightarrow> d | _ \<Rightarrow> [])"

definition seg_fn :: "(nat \<rightharpoonup> heap_object) \<Rightarrow> segment \<Rightarrow> nat option" where
  "seg_fn heap g = (case sg_cleanup g of
     C_function f \<Rightarrow> Some f
   | Dispatch_cxx h \<Rightarrow> (case heap h of Some (Function_copy f) \<Rightarrow> Some f | _ \<Rightarrow> None)
   | _ \<Rightarrow> None)"

definition seg_view :: "(nat \<rightharpoonup> heap_object) \<Rightarrow> segment \<Rightarrow> piece" where
  "seg_view heap g = (seg_data heap g, seg_fn heap g)"

definition seg_ok :: "(nat \<rightharpoonup> heap_object) \<Rightarrow> segment \<Rightarrow> bool" where
  "seg_ok heap g \<longleftrightarrow> memory_bytes heap (sg_memory g) = Ret (seg_data heap g) \<and>
     (case sg_cleanup g of Dispatch_cxx h \<Rightarrow> \<exists>f. heap h = Some (Function_copy f) | Dispatch_delete h \<Rightarrow> \<exists>d. heap h = Some (String_object d) | _ \<Rightarrow> True) \<and>
     (case sg_memory g of In_string h \<Rightarrow> sg_cleanup g = Dispatch_delete h | _ \<Rightarrow> True)"

definition objects :: "segment list \<Rightarrow> nat list" where
  "objects gs = concat (map seg_objects gs)"

definition refs_ok :: "references \<Rightarrow> bool" where
  "refs_ok s \<longleftrightarrow> (\<forall>g\<in>set (rf_chain s). seg_ok (rf_heap s) g) \<and> distinct (objects (rf_chain s) @ rf_deleted s) \<and>
     dom (rf_heap s) = set (objects (rf_chain s)) \<and> set (objects (rf_chain s) @ rf_deleted s) = {0..<rf_next s}"

text \<open>The pieces that libevent holds, as the specification sees them.\<close>

definition held :: "references \<Rightarrow> piece list" where
  "held s = map (seg_view (rf_heap s)) (rf_chain s)"

text \<open>What is said of a piece depends only on its own objects.\<close>

lemma seg_agree:
  assumes "seg_ok heap g" and "\<And>h. h \<in> set (seg_objects g) \<Longrightarrow> heap' h = heap h"
  shows "seg_ok heap' g \<and> seg_view heap' g = seg_view heap g"
proof -
  have d: "memory_bytes heap' (sg_memory g) = memory_bytes heap (sg_memory g)"
    using assms by (cases "sg_memory g") (auto simp: seg_ok_def seg_objects_def memory_bytes_def)
  then have e: "seg_data heap' g = seg_data heap g" by (simp add: seg_data_def)
  have "seg_fn heap' g = seg_fn heap g" unfolding seg_fn_def using assms(2) by (cases "sg_cleanup g") (auto simp: seg_objects_def)
  with e have "seg_view heap' g = seg_view heap g" by (simp add: seg_view_def)
  moreover have "seg_ok heap' g" using assms d e by (cases "sg_cleanup g") (auto simp: seg_ok_def seg_objects_def)
  ultimately show ?thesis by simp
qed

lemma chain_agree:
  assumes "\<forall>g\<in>set gs. seg_ok heap g" and "\<And>h. h \<in> set (objects gs) \<Longrightarrow> heap' h = heap h"
  shows "\<forall>g\<in>set gs. seg_ok heap' g" and "map (seg_view heap') gs = map (seg_view heap) gs"
proof -
  have "\<And>h. h \<in> set (seg_objects g) \<Longrightarrow> heap' h = heap h" if "g \<in> set gs" for g using assms(2) that by (auto simp: objects_def)
  then have "g \<in> set gs \<Longrightarrow> seg_ok heap' g \<and> seg_view heap' g = seg_view heap g" for g
    using seg_agree [of heap g heap'] assms(1) by blast
  then show "\<forall>g\<in>set gs. seg_ok heap' g" "map (seg_view heap') gs = map (seg_view heap) gs" by auto
qed

lemma objects_simps [simp]: "objects [] = []" "objects (g # gs) = seg_objects g @ objects gs" "objects (gs @ hs) = objects gs @ objects hs"
  by (simp_all add: objects_def)

text \<open>Releasing a piece, wherever it is.\<close>

lemma release_segment_run:
  assumes "refs_ok s" and "rf_chain s = as @ g # bs"
  obtains s' where "release_segment g (s\<lparr>rf_chain := as @ bs\<rparr>) = (Ret (), s')" and "refs_ok s'"
    and "held s' = map (seg_view (rf_heap s)) (as @ bs)"
    and "rf_called s' = rf_called s @ (case seg_fn (rf_heap s) g of None \<Rightarrow> [] | Some f \<Rightarrow> [(f, seg_data (rf_heap s) g)])"
proof -
  have ok: "seg_ok (rf_heap s) g" "\<forall>g\<in>set (as @ bs). seg_ok (rf_heap s) g" and dist: "distinct (seg_objects g @ objects (as @ bs) @ rf_deleted s)"
    and dom: "dom (rf_heap s) = set (seg_objects g @ objects (as @ bs))" "set (seg_objects g @ objects (as @ bs) @ rf_deleted s) = {0..<rf_next s}"
    using assms by (auto simp: refs_ok_def)
  let ?c = "case seg_fn (rf_heap s) g of None \<Rightarrow> [] | Some f \<Rightarrow> [(f, seg_data (rf_heap s) g)]"
  let ?s = "\<lambda>heap. s\<lparr>rf_chain := as @ bs, rf_called := rf_called s @ ?c, rf_deleted := rf_deleted s @ seg_objects g, rf_heap := heap\<rparr>"
  obtain heap where run: "release_segment g (s\<lparr>rf_chain := as @ bs\<rparr>) = (Ret (), ?s heap)"
    and heap: "heap = (\<lambda>h. if h \<in> set (seg_objects g) then None else rf_heap s h)"
  proof (cases "sg_cleanup g")
    case (Dispatch_cxx h)
    then obtain f where "rf_heap s h = Some (Function_copy f)" using ok(1) by (auto simp: seg_ok_def)
    then show ?thesis using Dispatch_cxx ok(1) that [of "(rf_heap s)(h := None)"]
      by (auto simp: release_segment_def dispatch_cxx_cleanup_fn_def delete_object_def seqA_def bindA_def seg_ok_def seg_fn_def seg_objects_def fun_eq_iff)
  next
    case (Dispatch_delete h)
    then obtain d where "rf_heap s h = Some (String_object d)" using ok(1) by (auto simp: seg_ok_def)
    then show ?thesis using Dispatch_delete that [of "(rf_heap s)(h := None)"]
      by (auto simp: release_segment_def dispatch_delete_string_def delete_object_def seg_fn_def seg_objects_def fun_eq_iff)
  qed (use ok(1) that [of "rf_heap s"] in \<open>auto simp: release_segment_def seqA_def bindA_def seg_ok_def seg_fn_def seg_objects_def\<close>)
  have agree: "heap h = rf_heap s h" if "h \<in> set (objects (as @ bs))" for h using that dist by (auto simp: heap)
  note ag = chain_agree [OF ok(2) agree]
  have "dom heap = set (objects (as @ bs))" using dom(1) dist by (auto simp: heap dom_def split: if_splits)
  then have "refs_ok (?s heap)" using ag(1) dist dom(2) by (auto simp: refs_ok_def)
  moreover have "held (?s heap) = map (seg_view (rf_heap s)) (as @ bs)" using ag(2) by (simp add: held_def)
  ultimately show ?thesis by (rule that [OF run]) simp
qed

section \<open>Adding\<close>

text \<open>A new piece at the end, with its object, if it has one, new on the heap.\<close>

lemma append_ok:
  assumes "refs_ok s" and "seg_ok (rf_heap s ++ new) g" and "dom new = set (seg_objects g)" and "seg_objects g = [] \<and> k = 0 \<or> seg_objects g = [rf_next s] \<and> k = 1"
    and t: "rf_chain t = rf_chain s @ [g]" "rf_heap t = rf_heap s ++ new" "rf_next t = rf_next s + k" "rf_deleted t = rf_deleted s"
  shows "refs_ok t \<and> held t = held s @ [seg_view (rf_heap t) g]"
proof -
  have sub: "set (objects (rf_chain s)) \<subseteq> {0..<rf_next s}" "set (rf_deleted s) \<subseteq> {0..<rf_next s}" using assms(1) by (auto simp: refs_ok_def)
  then have agree: "(rf_heap s ++ new) h = rf_heap s h" if "h \<in> set (objects (rf_chain s))" for h
    using that assms(3,4) by (auto simp: map_add_dom_app_simps)
  have old: "\<forall>g\<in>set (rf_chain s). seg_ok (rf_heap s) g" using assms(1) by (simp add: refs_ok_def)
  note ag = chain_agree [OF old agree]
  have "set (objects (rf_chain s) @ rf_deleted s) = {0..<rf_next s}" using assms(1) by (simp add: refs_ok_def)
  then have "set (objects (rf_chain s) @ seg_objects g @ rf_deleted s) = {0..<rf_next s + k}"
    using assms(4) by (elim disjE conjE) (simp_all add: atLeast0_lessThan_Suc)
  moreover have "distinct (objects (rf_chain s) @ seg_objects g @ rf_deleted s)" using assms(1,4) sub by (auto simp: refs_ok_def)
  moreover have "dom (rf_heap s ++ new) = set (objects (rf_chain s) @ seg_objects g)" using assms(1,3) by (auto simp: refs_ok_def)
  ultimately have "refs_ok t" using assms(2) ag(1) by (simp add: refs_ok_def t)
  moreover have "held t = held s @ [seg_view (rf_heap t) g]" using ag(2) by (simp add: held_def t)
  ultimately show ?thesis by simp
qed

lemma add_plain:
  assumes "refs_ok s" and "mem \<in> {Copied d, Borrowed d}" and "cl = No_cleanup \<and> f = None \<or> cl = C_function n \<and> f = Some n"
  shows "refs_ok (s\<lparr>rf_chain := rf_chain s @ [\<lparr>sg_memory = mem, sg_cleanup = cl\<rparr>]\<rparr>) \<and>
    held (s\<lparr>rf_chain := rf_chain s @ [\<lparr>sg_memory = mem, sg_cleanup = cl\<rparr>]\<rparr>) = held s @ [(d, f)]"
proof -
  let ?g = "\<lparr>sg_memory = mem, sg_cleanup = cl\<rparr>"
  have g: "seg_ok (rf_heap s ++ Map.empty) ?g" "dom Map.empty = set (seg_objects ?g)" "seg_objects ?g = [] \<and> 0 = (0 :: nat) \<or> seg_objects ?g = [rf_next s] \<and> 0 = (1 :: nat)"
    using assms(2,3) by (auto simp: seg_ok_def seg_objects_def seg_data_def memory_bytes_def)
  show ?thesis using append_ok [OF assms(1) g, of "s\<lparr>rf_chain := rf_chain s @ [?g]\<rparr>"] assms(2,3)
    by (auto simp: seg_view_def seg_fn_def seg_data_def memory_bytes_def)
qed

lemma add_object:
  assumes "refs_ok s"
    and "mem = Borrowed d \<and> cl = Dispatch_cxx (rf_next s) \<and> x = Function_copy n \<and> f = Some n \<or> mem = In_string (rf_next s) \<and> cl = Dispatch_delete (rf_next s) \<and> x = String_object d \<and> f = None"
    and t: "rf_chain t = rf_chain s @ [\<lparr>sg_memory = mem, sg_cleanup = cl\<rparr>]" "rf_heap t = (rf_heap s)(rf_next s \<mapsto> x)" "rf_next t = Suc (rf_next s)" "rf_deleted t = rf_deleted s"
  shows "refs_ok t \<and> held t = held s @ [(d, f)]"
proof -
  let ?g = "\<lparr>sg_memory = mem, sg_cleanup = cl\<rparr>"
  have g: "seg_ok (rf_heap s ++ [rf_next s \<mapsto> x]) ?g" "dom [rf_next s \<mapsto> x] = set (seg_objects ?g)" "seg_objects ?g = [] \<and> 1 = (0 :: nat) \<or> seg_objects ?g = [rf_next s] \<and> 1 = (1 :: nat)"
    using assms(2) by (auto simp: seg_ok_def seg_objects_def seg_data_def memory_bytes_def)
  show ?thesis using append_ok [OF assms(1) g, of t] t assms(2) by (auto simp: seg_view_def seg_fn_def seg_data_def memory_bytes_def)
qed

text \<open>An object that was allocated for a call that failed has been deleted again.\<close>

lemma deleted_ok:
  assumes "refs_ok s" and t: "rf_chain t = rf_chain s" "rf_heap t = rf_heap s" "rf_next t = Suc (rf_next s)" "rf_deleted t = rf_deleted s @ [rf_next s]"
  shows "refs_ok t \<and> held t = held s"
proof -
  have "set (objects (rf_chain s)) \<union> set (rf_deleted s) = {0..<rf_next s}" using assms(1) by (simp add: refs_ok_def)
  then have "rf_next s \<notin> set (objects (rf_chain s))" "rf_next s \<notin> set (rf_deleted s)" "insert (rf_next s) (set (objects (rf_chain s)) \<union> set (rf_deleted s)) = {0..<Suc (rf_next s)}"
    by (auto simp: atLeast0_lessThan_Suc)
  then have "refs_ok t" using assms by (auto simp: refs_ok_def)
  then show ?thesis by (simp add: t held_def)
qed

lemma fresh_object: "refs_ok s \<Longrightarrow> rf_heap s (rf_next s) = None"
proof -
  assume "refs_ok s"
  then have "dom (rf_heap s) \<subseteq> {0..<rf_next s}" by (auto simp: refs_ok_def)
  then show ?thesis by (auto simp: domIff)
qed

text \<open>A step does what the specification says, and keeps the invariant.\<close>

definition implements :: "(references, bytes list) act \<Rightarrow> references \<Rightarrow> piece list \<times> bytes list \<times> (nat \<times> bytes) list \<Rightarrow> bool" where
  "implements m s r \<longleftrightarrow> (case r of (ps, rs, cs) \<Rightarrow> \<exists>s'. m s = (Ret rs, s') \<and> refs_ok s' \<and> held s' = ps \<and> rf_called s' = rf_called s @ cs)"

lemmas adding_defs = catch_failed_def evbuffer_append_def add_failed_def new_object_def delete_object_def seqA_def bindA_def

lemma add_fn_step:
  assumes "refs_ok s"
  shows "implements (reference_step (Add_fn ok d f)) s (spec_step (Add_fn ok d f) (held s))"
proof -
  define t where "t = snd (reference_step (Add_fn ok d f) s)"
  have run: "reference_step (Add_fn ok d f) s = (Ret [], t)" and called: "rf_called t = rf_called s"
    using fresh_object [OF assms] by (cases ok; simp add: t_def Buffer_add_reference_fn_def adding_defs)+
  have "refs_ok t \<and> held t = held s @ [(d, Some f)]" if ok
    by (rule add_object [OF assms, of "Borrowed d" d "Dispatch_cxx (rf_next s)" "Function_copy f" f])
      (use that in \<open>simp_all add: t_def Buffer_add_reference_fn_def adding_defs\<close>)
  moreover have "refs_ok t \<and> held t = held s" if "\<not> ok"
    by (rule deleted_ok [OF assms]) (use that fresh_object [OF assms] in \<open>simp_all add: t_def Buffer_add_reference_fn_def adding_defs fun_upd_idem\<close>)
  ultimately show ?thesis using called by (simp add: implements_def run del: reference_step.simps)
qed

lemma add_moved_step:
  assumes "refs_ok s"
  shows "implements (reference_step (Add_moved ok d)) s (spec_step (Add_moved ok d) (held s))"
proof -
  define t where "t = snd (reference_step (Add_moved ok d) s)"
  note defs = Buffer_add_rvalue_def move_back_def memory_bytes_def adding_defs
  have run: "reference_step (Add_moved ok d) s = (Ret [], t)" and called: "rf_called t = rf_called s"
    using fresh_object [OF assms] by (cases ok; simp add: t_def defs)+
  have "refs_ok t \<and> held t = held s @ [(d, None)]" if ok
    by (rule add_object [OF assms, of "In_string (rf_next s)" d "Dispatch_delete (rf_next s)" "String_object d"])
      (use that in \<open>simp_all add: t_def defs\<close>)
  moreover have "refs_ok t \<and> held t = held s" if "\<not> ok"
    by (rule deleted_ok [OF assms]) (use that fresh_object [OF assms] in \<open>simp_all add: t_def defs fun_upd_idem\<close>)
  ultimately show ?thesis using called by (simp add: implements_def run del: reference_step.simps)
qed

lemma release_step:
  assumes "refs_ok s"
  shows "implements (reference_step (Release i)) s (spec_step (Release i) (held s))"
proof (cases "i < length (rf_chain s)")
  case True
  let ?g = "rf_chain s ! i" and ?as = "take i (rf_chain s)" and ?bs = "drop (Suc i) (rf_chain s)"
  have "rf_chain s = ?as @ ?g # ?bs" using True by (rule id_take_nth_drop)
  then obtain s' where "release_segment ?g (s\<lparr>rf_chain := ?as @ ?bs\<rparr>) = (Ret (), s')" "refs_ok s'" "held s' = map (seg_view (rf_heap s)) (?as @ ?bs)"
    "rf_called s' = rf_called s @ (case seg_fn (rf_heap s) ?g of None \<Rightarrow> [] | Some f \<Rightarrow> [(f, seg_data (rf_heap s) ?g)])"
    by (rule release_segment_run [OF assms])
  with True show ?thesis
    by (auto simp: implements_def seqA_def bindA_def held_def take_map drop_map seg_view_def split: option.split)
next
  case False
  then show ?thesis using assms by (simp add: implements_def held_def)
qed

lemma reference_step_implements:
  assumes "refs_ok s"
  shows "implements (reference_step x) s (spec_step x (held s))"
proof (cases x)
  case (Add_copy ok d)
  then show ?thesis using assms add_plain [OF assms, of "Copied d" d No_cleanup None] by (cases ok) (simp_all add: implements_def Buffer_add_copy_def adding_defs)
next
  case (Add_string ok d)
  then show ?thesis using assms add_plain [OF assms, of "Borrowed d" d No_cleanup None] by (cases ok) (simp_all add: implements_def Buffer_add_reference_string_def adding_defs)
next
  case (Add_c ok d f)
  then show ?thesis using assms add_plain [OF assms, of "Borrowed d" d "C_function f" "Some f"] by (cases ok) (simp_all add: implements_def Buffer_add_reference_c_def adding_defs)
next
  case (Read i)
  have "i < length (rf_chain s) \<Longrightarrow> memory_bytes (rf_heap s) (sg_memory (rf_chain s ! i)) = Ret (seg_data (rf_heap s) (rf_chain s ! i))"
    using assms nth_mem unfolding refs_ok_def seg_ok_def by blast
  then show ?thesis using assms by (auto simp: Read implements_def bindA_def held_def seg_view_def)
qed (simp_all only: add_fn_step [OF assms] add_moved_step [OF assms] release_step [OF assms])

lemma reference_run_implements: "refs_ok s \<Longrightarrow> implements (reference_run xs) s (reference_spec xs (held s))"
proof (induction xs arbitrary: s)
  case (Cons x xs)
  obtain ps rs cs where x: "spec_step x (held s) = (ps, rs, cs)" by (metis prod_cases3)
  obtain s1 where 1: "reference_step x s = (Ret rs, s1)" "refs_ok s1" "held s1 = ps" "rf_called s1 = rf_called s @ cs"
    using reference_step_implements [OF Cons.prems, of x] by (auto simp: implements_def x)
  show ?case using Cons.IH [OF 1(2)] 1 by (auto simp: implements_def x bindA_def Let_def split: prod.splits)
qed (simp add: implements_def)


end
