(* ===== verification/Printf.thy ===== *)
theory Printf
  imports Prelude
begin

text \<open>
  The C library's formatted output, as far as the sources use it: flags, minimum widths and length
  modifiers of the conversions \<open>%u\<close>, \<open>%d\<close>, \<open>%X\<close>, \<open>%c\<close>, \<open>%s\<close>, \<open>%g\<close> and \<open>%%\<close>.  The lemmas show that a printed
  number is read back by a scan of its digits, and which numbers \<open>%g\<close> prints exactly.
\<close>

section \<open>Formats\<close>

datatype printf_arg = P_int int | P_str bytes | P_float u32 | P_double u64

text \<open>The argument of a \<open>%s\<close> conversion is a C string: it ends at the first zero byte.\<close>

definition c_str :: "bytes \<Rightarrow> printf_arg" where
  "c_str s = P_str (takeWhile (\<lambda>b. b \<noteq> 0) s)"

datatype conversion = C_unsigned | C_signed | C_hex | C_char | C_string | C_general

text \<open>A character that stands for itself, or a conversion with its zero flag, width and number of bits.\<close>

datatype format_item = Lit char | Conv bool nat nat conversion

definition conversion_of :: "char \<Rightarrow> conversion option" where
  "conversion_of c = (if c = CHR ''u'' then Some C_unsigned else if c = CHR ''d'' then Some C_signed
     else if c = CHR ''X'' then Some C_hex else if c = CHR ''s'' then Some C_string
     else if c = CHR ''g'' then Some C_general else if c = CHR ''c'' then Some C_char else None)"

text \<open>\<open>h\<close> halves the width of an \<open>int\<close>, \<open>l\<close> and \<open>z\<close> stand for 64 bits.\<close>

fun parse_format :: "(bool \<times> nat \<times> nat) option \<Rightarrow> string \<Rightarrow> format_item list" where
  "parse_format st [] = []"
| "parse_format None (c # cs) =
     (if c = CHR ''%'' then parse_format (Some (False, 0, 32)) cs else Lit c # parse_format None cs)"
| "parse_format (Some (z, w, l)) (c # cs) =
     (if c = CHR ''%'' then Lit c # parse_format None cs
      else if c = CHR ''0'' \<and> w = 0 then parse_format (Some (True, w, l)) cs
      else if 48 \<le> (of_char c :: nat) \<and> (of_char c :: nat) \<le> 57 then parse_format (Some (z, 10 * w + (of_char c - 48), l)) cs
      else if c = CHR ''h'' then parse_format (Some (z, w, l div 2)) cs
      else if c = CHR ''l'' \<or> c = CHR ''z'' then parse_format (Some (z, w, 64)) cs
      else case conversion_of c of None \<Rightarrow> parse_format None cs | Some k \<Rightarrow> Conv z w l k # parse_format None cs)"

section \<open>Numbers\<close>

definition digit_char :: "nat \<Rightarrow> char" where
  "digit_char d = char_of (if d < 10 then 48 + d else 55 + d)"

fun digits :: "nat \<Rightarrow> nat \<Rightarrow> string" where
  "digits base n = (if base < 2 \<or> n < base then [digit_char n] else digits base (n div base) @ [digit_char (n mod base)])"

declare digits.simps [simp del]

definition pad :: "char \<Rightarrow> nat \<Rightarrow> string \<Rightarrow> string" where
  "pad c w s = replicate (w - length s) c @ s"

definition pad_number :: "bool \<Rightarrow> nat \<Rightarrow> bool \<Rightarrow> string \<Rightarrow> string" where
  "pad_number z w neg s = (let sign = (if neg then ''-'' else []) in
     if z then sign @ pad CHR ''0'' (w - length sign) s else pad CHR '' '' w (sign @ s))"

text \<open>An argument is cut to the width of its conversion.\<close>

definition signed_value :: "nat \<Rightarrow> int \<Rightarrow> int" where
  "signed_value l i = (i + 2 ^ (l - 1)) mod 2 ^ l - 2 ^ (l - 1)"

section \<open>Floating-point numbers\<close>

text \<open>The quotient of two natural numbers, rounded to the nearest, and to the even one of two that are equally near.\<close>

definition round_half_even :: "nat \<Rightarrow> nat \<Rightarrow> nat" where
  "round_half_even n d = (let q = n div d; r = n mod d in if 2 * r < d \<or> 2 * r = d \<and> even q then q else Suc q)"

text \<open>The power of ten of the first significant digit of the number \<open>n / d\<close>.\<close>

function leading_zeros :: "nat \<Rightarrow> nat \<Rightarrow> nat" where
  "leading_zeros n d = (if n = 0 \<or> d \<le> n then 0 else Suc (leading_zeros (10 * n) d))"
  by auto
termination by (relation "measure (\<lambda>(n, d). d - n)") auto

declare leading_zeros.simps [simp del]

definition dec_exponent :: "nat \<Rightarrow> nat \<Rightarrow> int" where
  "dec_exponent n d = (if d \<le> n then int (length (digits 10 (n div d))) - 1 else - int (leading_zeros n d))"

text \<open>Six significant digits, as a number from 100000 to 999999, and the exponent of the first of them.\<close>

definition significant :: "nat \<Rightarrow> nat \<Rightarrow> nat \<times> int" where
  "significant n d = (let x = dec_exponent n d;
     q = (if x \<le> 5 then round_half_even (n * 10 ^ nat (5 - x)) d else round_half_even n (d * 10 ^ nat (x - 5))) in
     if q = 10 ^ 6 then (10 ^ 5, x + 1) else (q, x))"

definition strip_zeros :: "string \<Rightarrow> string" where
  "strip_zeros s = rev (dropWhile (\<lambda>c. c = CHR ''0'') (rev s))"

definition fraction :: "string \<Rightarrow> string" where
  "fraction s = (let t = strip_zeros s in if t = [] then [] else CHR ''.'' # t)"

text \<open>\<open>%g\<close> of the number \<open>n / d\<close>.\<close>

definition general_text :: "nat \<Rightarrow> nat \<Rightarrow> string" where
  "general_text n d = (if n = 0 then ''0'' else case significant n d of (q, x) \<Rightarrow> let ds = digits 10 q in
     if x < -4 \<or> 6 \<le> x then take 1 ds @ fraction (drop 1 ds) @ CHR ''e'' # (if x < 0 then CHR ''-'' else CHR ''+'') # pad CHR ''0'' 2 (digits 10 (nat \<bar>x\<bar>))
     else if 0 \<le> x then take (nat x + 1) ds @ fraction (drop (nat x + 1) ds)
     else CHR ''0'' # fraction (replicate (nat (- x) - 1) CHR ''0'' @ ds))"

text \<open>A binary format with \<open>f\<close> bits of fraction and \<open>e\<close> bits of exponent.\<close>

definition binary_text :: "nat \<Rightarrow> nat \<Rightarrow> nat \<Rightarrow> string" where
  "binary_text f e w = (let m = w mod 2 ^ f; x = w div 2 ^ f mod 2 ^ e; bias = 2 ^ (e - 1) - 1 + f in
     (if w div 2 ^ (f + e) mod 2 = 1 then ''-'' else []) @
     (if x = 2 ^ e - 1 then (if m = 0 then ''inf'' else ''nan'')
      else let k = (if x = 0 then m else 2 ^ f + m); y = max 1 x in
        if bias \<le> y then general_text (k * 2 ^ (y - bias)) 1 else general_text k (2 ^ (bias - y))))"

fun top_bit :: "nat \<Rightarrow> nat" where
  "top_bit n = (if n < 2 then 0 else Suc (top_bit (n div 2)))"

declare top_bit.simps [simp del]

text \<open>The \<open>double\<close> that an unsigned integer is converted to.\<close>

definition double_of :: "u64 \<Rightarrow> u64" where
  "double_of w = (if w = 0 then 0 else let k = top_bit (unat w);
     m = (if k \<le> 52 then unat w * 2 ^ (52 - k) else round_half_even (unat w) (2 ^ (k - 52))) in
     word_of_nat ((1023 + k) * 2 ^ 52 + (m - 2 ^ 52)))"

section \<open>What general conversions print\<close>

lemma top_bit_bounds: "0 < n \<Longrightarrow> 2 ^ top_bit n \<le> n \<and> n < 2 ^ Suc (top_bit n)"
proof (induction n rule: top_bit.induct)
  case (1 n)
  show ?case
  proof (cases "n < 2")
    case False
    then have "2 ^ top_bit (n div 2) \<le> n div 2 \<and> n div 2 < 2 ^ Suc (top_bit (n div 2))" using 1 by simp
    then show ?thesis using False by (simp add: top_bit.simps [of n]) linarith
  qed (use 1 in \<open>simp add: top_bit.simps [of n]\<close>)
qed

lemma top_bit_le: "0 < n \<Longrightarrow> n < 2 ^ k \<Longrightarrow> top_bit n < k"
proof -
  assume "0 < n" "n < 2 ^ k"
  then have "(2::nat) ^ top_bit n < 2 ^ k" using top_bit_bounds [of n] by (meson le_less_trans)
  then show ?thesis by simp
qed

text \<open>Only the quotient matters.\<close>

lemma round_half_even_scale: "0 < c \<Longrightarrow> round_half_even (n * c) (d * c) = round_half_even n d"
proof -
  assume c: "0 < c"
  have "2 * (n mod d * c) < d * c \<longleftrightarrow> 2 * (n mod d) < d" "2 * (n mod d * c) = d * c \<longleftrightarrow> 2 * (n mod d) = d"
    using c by (metis mult.assoc mult_less_cancel2, metis mult.assoc mult_cancel2 less_numeral_extra(3))
  then show ?thesis using c by (simp add: round_half_even_def Let_def mult_mod_left [symmetric])
qed

lemma leading_zeros_scale: "0 < c \<Longrightarrow> leading_zeros (n * c) (d * c) = leading_zeros n d"
proof (induction n d rule: leading_zeros.induct)
  case (1 n d)
  then show ?case by (simp add: leading_zeros.simps [of n d] leading_zeros.simps [of "n * c" "d * c"] mult.assoc)
qed

lemma general_text_scale: "0 < c \<Longrightarrow> general_text (n * c) (d * c) = general_text n d"
proof -
  assume c: "0 < c"
  then have e: "dec_exponent (n * c) (d * c) = dec_exponent n d" by (simp add: dec_exponent_def leading_zeros_scale)
  have "round_half_even (n * c * k) (d * c) = round_half_even (n * k) d" "round_half_even (n * c) (d * c * k) = round_half_even n (d * k)" for k
    using round_half_even_scale [OF c, of "n * k" d] round_half_even_scale [OF c, of n "d * k"] by (simp_all add: ac_simps)
  then have "significant (n * c) (d * c) = significant n d" unfolding significant_def e Let_def by presburger
  with c show ?thesis by (simp add: general_text_def)
qed

lemma general_text_quotient: "0 < d \<Longrightarrow> general_text (n * d) d = general_text n (Suc 0)"
  using general_text_scale [of d n 1] by simp

lemma digits_shift: "0 < n \<Longrightarrow> digits 10 (n * 10 ^ k) = digits 10 n @ replicate k CHR ''0''"
proof (induction k)
  case (Suc k)
  have "\<not> n * 10 ^ Suc k < 10" using Suc.prems by (simp add: not_less)
  then have "digits 10 (n * 10 ^ Suc k) = digits 10 (n * 10 ^ Suc k div 10) @ [digit_char (n * 10 ^ Suc k mod 10)]"
    by (subst digits.simps) simp
  moreover have "n * 10 ^ Suc k div 10 = n * 10 ^ k" "n * 10 ^ Suc k mod 10 = 0" by (simp_all add: mult.left_commute)
  ultimately have "digits 10 (n * 10 ^ Suc k) = digits 10 (n * 10 ^ k) @ [CHR ''0'']" by (simp add: digit_char_def char_of_def bit_0)
  then show ?case using Suc by (simp add: replicate_app_Cons_same)
qed simp

lemma length_digits: "n < 10 ^ Suc k \<Longrightarrow> length (digits 10 n) \<le> Suc k"
proof (induction k arbitrary: n)
  case (Suc k)
  have "n div 10 < 10 ^ Suc k" using Suc.prems by (simp add: less_mult_imp_div_less mult.commute)
  from Suc.IH [OF this] show ?case by (subst digits.simps) simp
qed (subst digits.simps, simp)

lemma digits_not_Nil [simp]: "digits b n \<noteq> []"
  by (subst digits.simps) simp

lemma strip_zeros_replicate [simp]: "strip_zeros (replicate k CHR ''0'') = []"
  by (simp add: strip_zeros_def)

text \<open>A whole number of at most six digits is printed exactly.\<close>

lemma general_text_exact:
  assumes "n < 10 ^ 6"
  shows "general_text n (Suc 0) = digits 10 n"
proof (cases "n = 0")
  case True
  then show ?thesis by (subst digits.simps) (simp add: general_text_def digit_char_def char_of_def bit_0)
next
  case False
  let ?l = "length (digits 10 n)"
  have l: "0 < ?l" "?l \<le> 6" using length_digits [of n 5] assms by simp_all
  have "int ?l - 1 \<le> 5" "nat (5 - (int ?l - 1)) = 6 - ?l" "nat (int ?l - 1) + 1 = ?l" using l by linarith+
  moreover have "dec_exponent n 1 = int ?l - 1" using False by (simp add: dec_exponent_def)
  moreover have "round_half_even m 1 = m" for m by (simp add: round_half_even_def)
  moreover have "n * 10 ^ (6 - ?l) \<noteq> 10 ^ 6"
  proof
    assume "n * 10 ^ (6 - ?l) = 10 ^ 6"
    then have "digits 10 n @ replicate (6 - ?l) CHR ''0'' = digits 10 (1 * 10 ^ 6)" using digits_shift [of n "6 - ?l"] False by simp
    then have "length (digits 10 n @ replicate (6 - ?l) CHR ''0'') = length (digits 10 (1 * 10 ^ 6))" by simp
    then show False using l(2) by (simp only: digits_shift) (simp add: digits.simps [of 10 1])
  qed
  ultimately have s: "significant n (Suc 0) = (n * 10 ^ (6 - ?l), int ?l - 1)" by (simp add: significant_def)
  have "\<not> int ?l - 1 < - 4" "\<not> 6 \<le> int ?l - 1" "0 \<le> int ?l - 1" using l by linarith+
  then show ?thesis using False \<open>nat (int ?l - 1) + 1 = ?l\<close> unfolding general_text_def s
    by (simp add: digits_shift fraction_def)
qed

lemma double_text:
  assumes "unat w < 2 ^ 53"
  shows "binary_text 52 11 (unat (double_of w)) = general_text (unat w) (Suc 0)"
proof (cases "w = 0")
  case True
  then show ?thesis by (simp add: double_of_def binary_text_def general_text_def)
next
  case False
  let ?n = "unat w" and ?k = "top_bit (unat w)"
  let ?m = "?n * 2 ^ (52 - ?k)"
  have n: "0 < ?n" using False by (simp add: unat_gt_0)
  have k: "?k \<le> 52" using top_bit_le [OF n assms] by simp
  have "2 ^ ?k * 2 ^ (52 - ?k) \<le> ?m" "?m < 2 ^ Suc ?k * 2 ^ (52 - ?k)" using top_bit_bounds [OF n] by simp_all
  moreover have "(2::nat) ^ ?k * 2 ^ (52 - ?k) = 2 ^ 52" "(2::nat) ^ Suc ?k * 2 ^ (52 - ?k) = 2 ^ 53" using k by (simp_all only: power_add [symmetric]) simp_all
  ultimately have m: "2 ^ 52 \<le> ?m" "?m < 2 ^ 53" by (simp_all only:)
  define f where "f = ?m - 2 ^ 52"
  have f: "f < 2 ^ 52" "2 ^ 52 + f = ?m" using m by (simp_all add: f_def)
  have "(1023 + ?k) * 2 ^ 52 + f < 2 ^ 64" using f(1) k by (simp add: f_def)
  then have "unat (word_of_nat ((1023 + ?k) * 2 ^ 52 + f) :: u64) = (1023 + ?k) * 2 ^ 52 + f"
    by (simp only: unat_of_nat word_size) (rule mod_less, simp)
  moreover have "double_of w = word_of_nat ((1023 + ?k) * 2 ^ 52 + f)" using False k unfolding double_of_def Let_def f_def by (simp only: if_False if_True)
  ultimately have bits: "unat (double_of w) = (1023 + ?k) * 2 ^ 52 + f" by (simp only:)
  have "unat (double_of w) mod 2 ^ 52 = f" "unat (double_of w) div 2 ^ 52 = 1023 + ?k" unfolding bits using f(1)
    by (metis mod_mult_self3 mod_less, metis add.right_neutral div_less div_mult_self3 power_not_zero zero_neq_numeral)
  moreover have "unat (double_of w) div 2 ^ (52 + 11) = unat (double_of w) div 2 ^ 52 div 2 ^ 11" by (simp only: power_add div_mult2_eq)
  ultimately have "binary_text 52 11 (unat (double_of w)) = general_text ?m (2 ^ (52 - ?k))"
    using k f(2) general_text_quotient [of 1] by (auto simp: binary_text_def Let_def)
  then show ?thesis using general_text_quotient [of "2 ^ (52 - ?k)" ?n] by simp
qed

section \<open>Conversions\<close>

definition convert :: "bool \<Rightarrow> nat \<Rightarrow> nat \<Rightarrow> conversion \<Rightarrow> printf_arg \<Rightarrow> string" where
  "convert z w l k a = (case k of
     C_unsigned \<Rightarrow> (case a of P_int i \<Rightarrow> pad_number z w False (digits 10 (nat (i mod 2 ^ l))) | _ \<Rightarrow> [])
   | C_hex \<Rightarrow> (case a of P_int i \<Rightarrow> pad_number z w False (digits 16 (nat (i mod 2 ^ l))) | _ \<Rightarrow> [])
   | C_signed \<Rightarrow> (case a of P_int i \<Rightarrow> let v = signed_value l i in pad_number z w (v < 0) (digits 10 (nat \<bar>v\<bar>)) | _ \<Rightarrow> [])
   | C_char \<Rightarrow> (case a of P_int i \<Rightarrow> pad CHR '' '' w [char_of (nat (i mod 256))] | _ \<Rightarrow> [])
   | C_string \<Rightarrow> (case a of P_str s \<Rightarrow> pad CHR '' '' w (text_of s) | _ \<Rightarrow> [])
   | C_general \<Rightarrow> (case a of P_float x \<Rightarrow> pad CHR '' '' w (binary_text 23 8 (unat x)) | P_double x \<Rightarrow> pad CHR '' '' w (binary_text 52 11 (unat x)) | _ \<Rightarrow> []))"

fun render :: "format_item list \<Rightarrow> printf_arg list \<Rightarrow> string" where
  "render [] as = []"
| "render (Lit c # fs) as = c # render fs as"
| "render (Conv z w l k # fs) [] = []"
| "render (Conv z w l k # fs) (a # as) = convert z w l k a @ render fs as"

definition c_printf :: "string \<Rightarrow> printf_arg list \<Rightarrow> string" where
  "c_printf fmt as = render (parse_format None fmt) as"

section \<open>Digits\<close>

definition is_digit :: "byte \<Rightarrow> bool" where
  "is_digit b \<longleftrightarrow> 48 \<le> b \<and> b \<le> 57"

definition digits_val :: "bytes \<Rightarrow> nat" where
  "digits_val ds = foldl (\<lambda>n d. 10 * n + unat (d - 48)) 0 ds"

lemma digits_val_snoc: "digits_val (ds @ [d]) = 10 * digits_val ds + unat (d - 48)"
  by (simp add: digits_val_def)

lemma unat_digit: "d < 10 \<Longrightarrow> unat (48 + word_of_nat d :: byte) = 48 + d"
  by (simp add: unat_word_ariths unat_of_nat)

lemma ascii_append [simp]: "ascii (s @ t) = ascii s @ ascii t"
  by (simp add: ascii_def)

lemma ascii_Cons: "ascii (c # t) = of_char c # ascii t"
  by (simp add: ascii_def)

lemma ascii_Nil [simp]: "ascii [] = []"
  by (simp add: ascii_def)

lemma length_ascii [simp]: "length (ascii t) = length t"
  by (simp add: ascii_def)

lemma byte_of_char: "of_char (char_of (n :: nat)) = (word_of_nat n :: byte)"
proof -
  have "of_char (char_of n) = (word_of_nat (of_char (char_of n)) :: byte)" by (simp only: of_nat_of_char)
  also have "\<dots> = word_of_nat n" by (rule word_unat_eq_iff [THEN iffD2]) (simp add: unat_of_nat)
  finally show ?thesis .
qed

lemma ascii_text_of [simp]: "ascii (text_of d) = d"
  by (induction d) (simp_all add: ascii_def text_of_def byte_of_char)

text \<open>The text of a number: the bytes are digits, and have its value.\<close>

definition number_text :: "nat \<Rightarrow> bytes \<Rightarrow> bool" where
  "number_text n ds \<longleftrightarrow> ds \<noteq> [] \<and> (\<forall>b\<in>set ds. is_digit b) \<and> digits_val ds = n"

lemma digit_char_byte: "d < 10 \<Longrightarrow> of_char (digit_char d) = (48 + word_of_nat d :: byte)"
  by (simp add: digit_char_def byte_of_char)

lemma digit_char_is_digit: "d < 10 \<Longrightarrow> is_digit (of_char (digit_char d)) \<and> unat (of_char (digit_char d) - 48 :: byte) = d"
  by (simp add: digit_char_byte is_digit_def word_le_nat_alt unat_digit unat_of_nat)

lemma number_text_digits: "number_text n (ascii (digits 10 n))"
proof (induction "10 :: nat" n rule: digits.induct)
  case (1 n)
  show ?case
  proof (cases "n < 10")
    case True
    then show ?thesis using digit_char_is_digit [of n] by (simp add: digits.simps [of 10 n] number_text_def digits_val_def ascii_Cons)
  next
    case False
    then have "number_text (n div 10) (ascii (digits 10 (n div 10)))" using 1 by simp
    then show ?thesis using False digit_char_is_digit [of "n mod 10"]
      by (simp add: digits.simps [of 10 n] number_text_def digits_val_snoc ascii_Cons)
  qed
qed

lemma number_text_zeros: "number_text n ds \<Longrightarrow> number_text n (replicate k 48 @ ds)"
proof -
  have "foldl (\<lambda>n d. 10 * n + unat (d - 48)) 0 (replicate k (48 :: byte)) = 0" by (induction k) simp_all
  then show "number_text n ds \<Longrightarrow> number_text n (replicate k 48 @ ds)"
    by (auto simp: number_text_def digits_val_def is_digit_def)
qed

lemma number_text_pad: "number_text n (ascii (pad_number True w False (digits 10 n)))"
  using number_text_zeros [OF number_text_digits] by (simp add: pad_number_def pad_def ascii_def)

lemma length_pad: "w \<le> length (pad_number True w False s)"
  by (simp add: pad_number_def pad_def)

end
