(* ===== verification/Evbuffer.thy ===== *)
theory Evbuffer
  imports Printf
begin

text \<open>
  The part of libevent that the Buffer class wraps.  libevent is not part of the repository,
  so its functions are a parameter: a record \<open>evbuffer_api\<close> over an opaque buffer type, which
  every definition that calls libevent takes as an argument.  \<open>evbuffer_spec\<close> states, as a
  hypothesis, what the libevent manual documents of these functions in terms of the bytes a
  buffer holds; \<open>evb_list\<close> is a list implementation, which shows that the hypothesis can hold and
  serves as the abstract side of the simulation lemmas.
\<close>

section \<open>The operating system side of a file descriptor\<close>

text \<open>
  One readiness event of a nonblocking descriptor.  \<open>Os_ok k\<close>: the system call that follows
  transfers at most \<open>Suc k\<close> bytes; \<open>Os_fail\<close>: it returns -1 with an error other than
  \<open>EAGAIN\<close>.  A schedule of such events is any fragmentation of the stream.
\<close>

datatype os_step = Os_ok nat | Os_fail

definition os_xfer :: "nat \<Rightarrow> int \<Rightarrow> nat \<Rightarrow> nat" where
  "os_xfer k howmuch avail =
     min (Suc k) (if howmuch < 0 then avail else min (nat howmuch) avail)"

lemma os_xfer_le: "os_xfer k h n \<le> n"
  by (auto simp: os_xfer_def)

lemma os_xfer_pos: "h \<noteq> 0 \<Longrightarrow> 0 < n \<Longrightarrow> 0 < os_xfer k h n"
  by (simp add: os_xfer_def)

lemma os_xfer_howmuch: "0 \<le> h \<Longrightarrow> os_xfer k h n \<le> nat h"
  by (simp add: os_xfer_def)

section \<open>The evbuffer functions\<close>

datatype eol_style = EOL_ANY | EOL_CRLF | EOL_CRLF_STRICT | EOL_LF | EOL_NUL

text \<open>
  Results that C code returns through pointers are components of the result tuple.  The first
  component is the function's return value.  \<open>evbuffer_read\<close> takes the bytes the peer has
  still to deliver and returns the rest of them; \<open>evbuffer_write_atmost\<close> returns the bytes it
  put on the wire.  \<open>evbuffer_write_none\<close> is what the latter returns when it has nothing to
  write, which the manual leaves open.
\<close>

record 'b evbuffer_api =
  evbuffer_new :: "'b option"
  evbuffer_get_length :: "'b \<Rightarrow> nat"
  evbuffer_expand :: "'b \<Rightarrow> nat \<Rightarrow> int \<times> 'b"
  evbuffer_add :: "'b \<Rightarrow> bytes \<Rightarrow> int \<times> 'b"
  evbuffer_add_vprintf :: "'b \<Rightarrow> string \<Rightarrow> printf_arg list \<Rightarrow> int \<times> 'b"
  evbuffer_add_reference :: "'b \<Rightarrow> bytes \<Rightarrow> int \<times> 'b"
  evbuffer_prepend :: "'b \<Rightarrow> bytes \<Rightarrow> int \<times> 'b"
  evbuffer_add_buffer :: "'b \<Rightarrow> 'b \<Rightarrow> int \<times> 'b \<times> 'b"
  evbuffer_prepend_buffer :: "'b \<Rightarrow> 'b \<Rightarrow> int \<times> 'b \<times> 'b"
  evbuffer_remove_buffer :: "'b \<Rightarrow> 'b \<Rightarrow> nat \<Rightarrow> int \<times> 'b \<times> 'b"
  evbuffer_drain :: "'b \<Rightarrow> nat \<Rightarrow> int \<times> 'b"
  evbuffer_remove :: "'b \<Rightarrow> nat \<Rightarrow> int \<times> bytes \<times> 'b"
  evbuffer_copyout :: "'b \<Rightarrow> nat \<Rightarrow> int \<times> bytes"
  evbuffer_readln :: "'b \<Rightarrow> eol_style \<Rightarrow> bytes option \<times> 'b"
  evbuffer_freeze :: "'b \<Rightarrow> bool \<Rightarrow> int \<times> 'b"
  evbuffer_unfreeze :: "'b \<Rightarrow> bool \<Rightarrow> int \<times> 'b"
  evbuffer_read :: "'b \<Rightarrow> int \<Rightarrow> os_step \<Rightarrow> bytes \<Rightarrow> int \<times> 'b \<times> bytes"
  evbuffer_write_atmost :: "'b \<Rightarrow> int \<Rightarrow> os_step \<Rightarrow> int \<times> bytes \<times> 'b"
  evbuffer_write_none :: int

text \<open>The line a NUL-terminated read extracts, and what stays behind.\<close>

definition split_nul :: "bytes \<Rightarrow> (bytes \<times> bytes) option" where
  "split_nul xs = (if 0 \<in> set xs
     then Some (takeWhile (\<lambda>b. b \<noteq> 0) xs, tl (dropWhile (\<lambda>b. b \<noteq> 0) xs)) else None)"

lemma split_nul_append: "0 \<notin> set xs \<Longrightarrow> split_nul (xs @ 0 # ys) = Some (xs, ys)"
  by (induction xs) (auto simp: split_nul_def)

text \<open>
  The documented behaviour, for a view \<open>v\<close> of a buffer as the bytes it holds: additions
  succeed (there is memory), removals take from the front and report how many bytes they
  moved, nothing is lost or reordered.
\<close>

definition evbuffer_spec :: "'b evbuffer_api \<Rightarrow> ('b \<Rightarrow> bytes) \<Rightarrow> bool" where
  "evbuffer_spec E v \<longleftrightarrow>
     map_option v (evbuffer_new E) = Some [] \<and>
     (\<forall>b. evbuffer_get_length E b = length (v b)) \<and>
     (\<forall>b n. map_prod id v (evbuffer_expand E b n) = (0, v b)) \<and>
     (\<forall>b d. map_prod id v (evbuffer_add E b d) = (0, v b @ d)) \<and>
     (\<forall>b fmt as. map_prod id v (evbuffer_add_vprintf E b fmt as) = (int (length (c_printf fmt as)), v b @ ascii (c_printf fmt as))) \<and>
     (\<forall>b d. map_prod id v (evbuffer_add_reference E b d) = (0, v b @ d)) \<and>
     (\<forall>b d. map_prod id v (evbuffer_prepend E b d) = (0, d @ v b)) \<and>
     (\<forall>b c. map_prod id (map_prod v v) (evbuffer_add_buffer E b c) = (0, v b @ v c, [])) \<and>
     (\<forall>b c. map_prod id (map_prod v v) (evbuffer_prepend_buffer E b c) = (0, v c @ v b, [])) \<and>
     (\<forall>b c n. map_prod id (map_prod v v) (evbuffer_remove_buffer E b c n) =
        (int (min n (length (v b))), drop n (v b), v c @ take n (v b))) \<and>
     (\<forall>b n. map_prod id v (evbuffer_drain E b n) = (0, drop n (v b))) \<and>
     (\<forall>b n. map_prod id (map_prod id v) (evbuffer_remove E b n) =
        (int (min n (length (v b))), take n (v b), drop n (v b))) \<and>
     (\<forall>b n. evbuffer_copyout E b n = (int (min n (length (v b))), take n (v b))) \<and>
     (\<forall>b. map_prod id v (evbuffer_readln E b EOL_NUL) =
        (case split_nul (v b) of None \<Rightarrow> (None, v b) | Some (l, r) \<Rightarrow> (Some l, r))) \<and>
     (\<forall>b h k p. map_prod id (map_prod v id) (evbuffer_read E b h (Os_ok k) p) =
        (let n = os_xfer k h (length p) in (int n, v b @ take n p, drop n p))) \<and>
     (\<forall>b h p. map_prod id (map_prod v id) (evbuffer_read E b h Os_fail p) = (-1, v b, p)) \<and>
     (\<forall>b h k. map_prod id (map_prod id v) (evbuffer_write_atmost E b h (Os_ok k)) =
        (let n = os_xfer k h (length (v b))
         in if n = 0 then (evbuffer_write_none E, [], v b)
            else (int n, take n (v b), drop n (v b)))) \<and>
     (\<forall>b h. map_prod id (map_prod id v) (evbuffer_write_atmost E b h Os_fail) = (-1, [], v b)) \<and>
     evbuffer_write_none E \<le> 0"

section \<open>A list implementation\<close>

definition evb_list :: "int \<Rightarrow> bytes evbuffer_api" where
  "evb_list z = \<lparr>
     evbuffer_new = Some [],
     evbuffer_get_length = length,
     evbuffer_expand = (\<lambda>b n. (0, b)),
     evbuffer_add = (\<lambda>b d. (0, b @ d)),
     evbuffer_add_vprintf = (\<lambda>b fmt as. (int (length (c_printf fmt as)), b @ ascii (c_printf fmt as))),
     evbuffer_add_reference = (\<lambda>b d. (0, b @ d)),
     evbuffer_prepend = (\<lambda>b d. (0, d @ b)),
     evbuffer_add_buffer = (\<lambda>b c. (0, b @ c, [])),
     evbuffer_prepend_buffer = (\<lambda>b c. (0, c @ b, [])),
     evbuffer_remove_buffer = (\<lambda>b c n. (int (min n (length b)), drop n b, c @ take n b)),
     evbuffer_drain = (\<lambda>b n. (0, drop n b)),
     evbuffer_remove = (\<lambda>b n. (int (min n (length b)), take n b, drop n b)),
     evbuffer_copyout = (\<lambda>b n. (int (min n (length b)), take n b)),
     evbuffer_readln = (\<lambda>b eol. case split_nul b of None \<Rightarrow> (None, b) | Some (l, r) \<Rightarrow> (Some l, r)),
     evbuffer_freeze = (\<lambda>b f. (0, b)),
     evbuffer_unfreeze = (\<lambda>b f. (0, b)),
     evbuffer_read = (\<lambda>b h st p. case st of
         Os_ok k \<Rightarrow> (let n = os_xfer k h (length p) in (int n, b @ take n p, drop n p))
       | Os_fail \<Rightarrow> (-1, b, p)),
     evbuffer_write_atmost = (\<lambda>b h st. case st of
         Os_ok k \<Rightarrow> (let n = os_xfer k h (length b)
           in if n = 0 then (z, [], b) else (int n, take n b, drop n b))
       | Os_fail \<Rightarrow> (-1, [], b)),
     evbuffer_write_none = z \<rparr>"

lemma evb_list_spec: "z \<le> 0 \<Longrightarrow> evbuffer_spec (evb_list z) id"
  unfolding evbuffer_spec_def evb_list_def
  by (auto simp: map_prod_def Let_def split: option.splits prod.splits)

lemma evb_list_simps [simp]:
  "evbuffer_new (evb_list z) = Some []"
  "evbuffer_get_length (evb_list z) b = length b"
  "evbuffer_expand (evb_list z) b n = (0, b)"
  "evbuffer_add (evb_list z) b d = (0, b @ d)"
  "evbuffer_add_vprintf (evb_list z) b fmt as = (int (length (c_printf fmt as)), b @ ascii (c_printf fmt as))"
  "evbuffer_add_reference (evb_list z) b d = (0, b @ d)"
  "evbuffer_prepend (evb_list z) b d = (0, d @ b)"
  "evbuffer_add_buffer (evb_list z) b c = (0, b @ c, [])"
  "evbuffer_prepend_buffer (evb_list z) b c = (0, c @ b, [])"
  "evbuffer_remove_buffer (evb_list z) b c n = (int (min n (length b)), drop n b, c @ take n b)"
  "evbuffer_drain (evb_list z) b n = (0, drop n b)"
  "evbuffer_remove (evb_list z) b n = (int (min n (length b)), take n b, drop n b)"
  "evbuffer_copyout (evb_list z) b n = (int (min n (length b)), take n b)"
  "evbuffer_readln (evb_list z) b eol =
     (case split_nul b of None \<Rightarrow> (None, b) | Some (l, r) \<Rightarrow> (Some l, r))"
  "evbuffer_read (evb_list z) b h (Os_ok k) p =
     (let n = os_xfer k h (length p) in (int n, b @ take n p, drop n p))"
  "evbuffer_read (evb_list z) b h Os_fail p = (-1, b, p)"
  "evbuffer_write_atmost (evb_list z) b h (Os_ok k) =
     (let n = os_xfer k h (length b)
      in if n = 0 then (z, [], b) else (int n, take n b, drop n b))"
  "evbuffer_write_atmost (evb_list z) b h Os_fail = (-1, [], b)"
  "evbuffer_write_none (evb_list z) = z"
  by (simp_all add: evb_list_def)

text \<open>The list implementation that agrees with \<open>E\<close> where the manual leaves the result open.\<close>

definition evb_ref :: "'b evbuffer_api \<Rightarrow> bytes evbuffer_api" where
  "evb_ref E = evb_list (evbuffer_write_none E)"

text \<open>The laws of \<open>evbuffer_spec\<close>, component by component, as rewrite rules.\<close>

lemma evb_laws:
  assumes "evbuffer_spec E v"
  shows "map_option v (evbuffer_new E) = Some []"
    and "evbuffer_get_length E b = length (v b)"
    and "fst (evbuffer_expand E b n) = 0" "v (snd (evbuffer_expand E b n)) = v b"
    and "fst (evbuffer_add E b d) = 0" "v (snd (evbuffer_add E b d)) = v b @ d"
    and "fst (evbuffer_add_vprintf E b fmt as) = int (length (c_printf fmt as))"
      "v (snd (evbuffer_add_vprintf E b fmt as)) = v b @ ascii (c_printf fmt as)"
    and "fst (evbuffer_add_reference E b d) = 0"
      "v (snd (evbuffer_add_reference E b d)) = v b @ d"
    and "fst (evbuffer_prepend E b d) = 0" "v (snd (evbuffer_prepend E b d)) = d @ v b"
    and "fst (evbuffer_drain E b n) = 0" "v (snd (evbuffer_drain E b n)) = drop n (v b)"
    and "fst (evbuffer_remove E b n) = int (min n (length (v b)))"
      "fst (snd (evbuffer_remove E b n)) = take n (v b)"
      "v (snd (snd (evbuffer_remove E b n))) = drop n (v b)"
    and "evbuffer_copyout E b n = (int (min n (length (v b))), take n (v b))"
  using assms unfolding evbuffer_spec_def by (auto simp: map_prod_def case_prod_beta)

lemma evb_move_laws:
  assumes "evbuffer_spec E v"
  shows "fst (evbuffer_add_buffer E b c) = 0"
      "v (fst (snd (evbuffer_add_buffer E b c))) = v b @ v c"
      "v (snd (snd (evbuffer_add_buffer E b c))) = []"
    and "fst (evbuffer_prepend_buffer E b c) = 0"
      "v (fst (snd (evbuffer_prepend_buffer E b c))) = v c @ v b"
      "v (snd (snd (evbuffer_prepend_buffer E b c))) = []"
    and "fst (evbuffer_remove_buffer E b c n) = int (min n (length (v b)))"
      "v (fst (snd (evbuffer_remove_buffer E b c n))) = drop n (v b)"
      "v (snd (snd (evbuffer_remove_buffer E b c n))) = v c @ take n (v b)"
  using assms unfolding evbuffer_spec_def by (auto simp: map_prod_def case_prod_beta)

lemma evb_readln_law:
  assumes "evbuffer_spec E v"
  shows "fst (evbuffer_readln E b EOL_NUL) = map_option fst (split_nul (v b))"
    and "v (snd (evbuffer_readln E b EOL_NUL)) =
      (case split_nul (v b) of None \<Rightarrow> v b | Some p \<Rightarrow> snd p)"
proof -
  have *: "map_prod id v (evbuffer_readln E b EOL_NUL) =
      (case split_nul (v b) of None \<Rightarrow> (None, v b) | Some (l, r) \<Rightarrow> (Some l, r))"
    using assms unfolding evbuffer_spec_def by blast
  show "fst (evbuffer_readln E b EOL_NUL) = map_option fst (split_nul (v b))"
    using arg_cong [OF *, of fst] by (auto split: option.splits)
  show "v (snd (evbuffer_readln E b EOL_NUL)) =
      (case split_nul (v b) of None \<Rightarrow> v b | Some p \<Rightarrow> snd p)"
    using arg_cong [OF *, of snd] by (auto split: option.splits)
qed

lemma evb_io_laws:
  assumes "evbuffer_spec E v"
  shows "map_prod id (map_prod v id) (evbuffer_read E b h st p) =
      evbuffer_read (evb_ref E) (v b) h st p"
    and "map_prod id (map_prod id v) (evbuffer_write_atmost E b h st) =
      evbuffer_write_atmost (evb_ref E) (v b) h st"
    and "evbuffer_write_none E \<le> 0"
  using assms unfolding evbuffer_spec_def evb_ref_def by (cases st; simp)+

lemma evb_ref_spec: "evbuffer_spec E v \<Longrightarrow> evbuffer_spec (evb_ref E) id"
  by (simp add: evb_ref_def evb_list_spec evb_io_laws(3))

end
