(* ===== verification/Buffer.thy ===== *)
theory Buffer
  imports Evbuffer
begin

text \<open>
  The synchronous methods of EventAsync::Buffer (Buffer.hh and Buffer.cc): each calls one
  evbuffer function and turns its error return into an exception.  A method is an action on
  the wrapped evbuffer; the methods that move bytes between two buffers act on the pair
  (this, other).  The typed accessors add, remove or copy out the memory image of an integer.
  The lemmas show that the class is a byte queue: what is added comes out in order, no byte is
  invented, a short read throws.
\<close>

section \<open>Methods\<close>

definition Buffer_get_length :: "'b evbuffer_api \<Rightarrow> ('b, nat) act" where
  "Buffer_get_length E = getsA (evbuffer_get_length E)"

definition Buffer_expand :: "'b evbuffer_api \<Rightarrow> nat \<Rightarrow> ('b, unit) act" where
  "Buffer_expand E n = (\<lambda>b. case evbuffer_expand E b n of (rc, b') \<Rightarrow>
     if rc \<noteq> 0 then (Throw (Runtime_error ''evbuffer_expand''), b') else (Ret (), b'))"

definition Buffer_add :: "'b evbuffer_api \<Rightarrow> bytes \<Rightarrow> ('b, unit) act" where
  "Buffer_add E d = (\<lambda>b. case evbuffer_add E b d of (rc, b') \<Rightarrow>
     if rc \<noteq> 0 then (Throw (Runtime_error ''evbuffer_add''), b') else (Ret (), b'))"

definition Buffer_add_string :: "'b evbuffer_api \<Rightarrow> bytes \<Rightarrow> ('b, unit) act" where
  "Buffer_add_string E s = Buffer_add E s"

text \<open>The two variants differ in how the arguments are passed.\<close>

definition Buffer_add_printf :: "'b evbuffer_api \<Rightarrow> string \<Rightarrow> printf_arg list \<Rightarrow> ('b, nat) act" where
  "Buffer_add_printf E fmt va = (\<lambda>b. case evbuffer_add_vprintf E b fmt va of (ret, b') \<Rightarrow>
     if ret < 0 then (Throw (Runtime_error ''evbuffer_add_vprintf''), b') else (Ret (nat ret), b'))"

definition Buffer_add_vprintf :: "'b evbuffer_api \<Rightarrow> string \<Rightarrow> printf_arg list \<Rightarrow> ('b, nat) act" where
  "Buffer_add_vprintf E fmt va = (\<lambda>b. case evbuffer_add_vprintf E b fmt va of (ret, b') \<Rightarrow>
     if ret < 0 then (Throw (Runtime_error ''evbuffer_add_vprintf''), b') else (Ret (nat ret), b'))"

definition Buffer_add_buffer :: "'b evbuffer_api \<Rightarrow> ('b \<times> 'b, unit) act" where
  "Buffer_add_buffer E = (\<lambda>(b, c). case evbuffer_add_buffer E b c of (rc, b', c') \<Rightarrow>
     if rc \<noteq> 0 then (Throw (Runtime_error ''evbuffer_add_buffer''), b', c') else (Ret (), b', c'))"

definition Buffer_remove_buffer :: "'b evbuffer_api \<Rightarrow> nat \<Rightarrow> ('b \<times> 'b, nat) act" where
  "Buffer_remove_buffer E n = (\<lambda>(b, c). case evbuffer_remove_buffer E b c n of (rc, b', c') \<Rightarrow>
     if rc < 0 then (Throw (Runtime_error ''evbuffer_remove_buffer''), b', c')
     else (Ret (nat rc), b', c'))"

definition Buffer_prepend :: "'b evbuffer_api \<Rightarrow> bytes \<Rightarrow> ('b, unit) act" where
  "Buffer_prepend E d = (\<lambda>b. case evbuffer_prepend E b d of (rc, b') \<Rightarrow>
     if rc \<noteq> 0 then (Throw (Runtime_error ''evbuffer_prepend''), b') else (Ret (), b'))"

definition Buffer_prepend_buffer :: "'b evbuffer_api \<Rightarrow> ('b \<times> 'b, unit) act" where
  "Buffer_prepend_buffer E = (\<lambda>(b, c). case evbuffer_prepend_buffer E b c of (rc, b', c') \<Rightarrow>
     if rc \<noteq> 0 then (Throw (Runtime_error ''evbuffer_prepend_buffer''), b', c')
     else (Ret (), b', c'))"

definition Buffer_drain :: "'b evbuffer_api \<Rightarrow> nat \<Rightarrow> ('b, unit) act" where
  "Buffer_drain E n = (\<lambda>b. case evbuffer_drain E b n of (rc, b') \<Rightarrow>
     if rc \<noteq> 0 then (Throw (Runtime_error ''evbuffer_drain''), b') else (Ret (), b'))"

definition Buffer_drain_all :: "'b evbuffer_api \<Rightarrow> ('b, unit) act" where
  "Buffer_drain_all E = bindA (Buffer_get_length E) (Buffer_drain E)"

text \<open>\<open>remove_atmost\<close> returns the bytes it copied; their number is the return value of the C++ overload that takes a pointer.\<close>

definition Buffer_remove_atmost :: "'b evbuffer_api \<Rightarrow> nat \<Rightarrow> ('b, bytes) act" where
  "Buffer_remove_atmost E n = (\<lambda>b. case evbuffer_remove E b n of (rc, d, b') \<Rightarrow>
     if rc < 0 then (Throw (Runtime_error ''evbuffer_remove''), b')
     else (Ret (take (nat rc) d), b'))"

definition Buffer_remove :: "'b evbuffer_api \<Rightarrow> nat \<Rightarrow> ('b, bytes) act" where
  "Buffer_remove E n = (\<lambda>b. case evbuffer_remove E b n of (rc, d, b') \<Rightarrow>
     if rc < 0 then (Throw (Runtime_error ''evbuffer_remove''), b')
     else if nat rc < n then (Throw (Runtime_error ''not enough data in buffer''), b')
     else (Ret d, b'))"

definition Buffer_copyout_atmost :: "'b evbuffer_api \<Rightarrow> nat \<Rightarrow> ('b, bytes) act" where
  "Buffer_copyout_atmost E n = (\<lambda>b. case evbuffer_copyout E b n of (rc, d) \<Rightarrow>
     if rc < 0 then (Throw (Runtime_error ''evbuffer_copyout''), b)
     else (Ret (take (nat rc) d), b))"

definition Buffer_copyout :: "'b evbuffer_api \<Rightarrow> nat \<Rightarrow> ('b, bytes) act" where
  "Buffer_copyout E n = (\<lambda>b. case evbuffer_copyout E b n of (rc, d) \<Rightarrow>
     if rc < 0 then (Throw (Runtime_error ''evbuffer_copyout''), b)
     else if nat rc < n then (Throw (Runtime_error ''not enough data in buffer''), b)
     else (Ret d, b))"

definition Buffer_readln :: "'b evbuffer_api \<Rightarrow> eol_style \<Rightarrow> ('b, bytes) act" where
  "Buffer_readln E eol = (\<lambda>b. case evbuffer_readln E b eol of
     (Some l, b') \<Rightarrow> (Ret l, b')
   | (None, b') \<Rightarrow> (Throw (Runtime_error ''end of stream''), b'))"

definition Buffer_add_reference :: "'b evbuffer_api \<Rightarrow> bytes \<Rightarrow> ('b, unit) act" where
  "Buffer_add_reference E d = (\<lambda>b. case evbuffer_add_reference E b d of (rc, b') \<Rightarrow>
     if rc \<noteq> 0 then (Throw (Runtime_error ''evbuffer_add_reference''), b') else (Ret (), b'))"

text \<open>\<open>add(string\&\&)\<close> hands the string over by reference and checks only for a negative return.\<close>

definition Buffer_add_moved :: "'b evbuffer_api \<Rightarrow> bytes \<Rightarrow> ('b, unit) act" where
  "Buffer_add_moved E d = (\<lambda>b. case evbuffer_add_reference E b d of (rc, b') \<Rightarrow>
     if rc < 0 then (Throw (Runtime_error ''evbuffer_add_reference''), b') else (Ret (), b'))"

definition Buffer_freeze :: "'b evbuffer_api \<Rightarrow> bool \<Rightarrow> ('b, unit) act" where
  "Buffer_freeze E f = (\<lambda>b. case evbuffer_freeze E b f of (rc, b') \<Rightarrow>
     if rc \<noteq> 0 then (Throw (Runtime_error ''evbuffer_freeze''), b') else (Ret (), b'))"

definition Buffer_unfreeze :: "'b evbuffer_api \<Rightarrow> bool \<Rightarrow> ('b, unit) act" where
  "Buffer_unfreeze E f = (\<lambda>b. case evbuffer_unfreeze E b f of (rc, b') \<Rightarrow>
     if rc \<noteq> 0 then (Throw (Runtime_error ''evbuffer_unfreeze''), b') else (Ret (), b'))"

section \<open>Typed accessors\<close>

text \<open>The member templates: \<open>T\<close> is given by its size and the function from its memory image.\<close>

definition Buffer_add_T :: "'b evbuffer_api \<Rightarrow> bytes \<Rightarrow> ('b, unit) act" where
  "Buffer_add_T E img = Buffer_add E img"

definition Buffer_remove_T :: "'b evbuffer_api \<Rightarrow> nat \<Rightarrow> (bytes \<Rightarrow> 'a) \<Rightarrow> ('b, 'a) act" where
  "Buffer_remove_T E n f = bindA (Buffer_remove E n) (\<lambda>d. retA (f d))"

definition Buffer_copyout_T :: "'b evbuffer_api \<Rightarrow> nat \<Rightarrow> (bytes \<Rightarrow> 'a) \<Rightarrow> ('b, 'a) act" where
  "Buffer_copyout_T E n f = bindA (Buffer_copyout E n) (\<lambda>d. retA (f d))"

definition Buffer_add_u8 :: "'b evbuffer_api \<Rightarrow> u8 \<Rightarrow> ('b, unit) act" where
  "Buffer_add_u8 E v = Buffer_add_T E (le_bytes 1 (unat v))"

definition Buffer_add_s8 :: "'b evbuffer_api \<Rightarrow> int \<Rightarrow> ('b, unit) act" where
  "Buffer_add_s8 E v = Buffer_add_T E (le_bytes 1 (unat (word_of_int v :: 8 word)))"

definition Buffer_add_u16b :: "'b evbuffer_api \<Rightarrow> u16 \<Rightarrow> ('b, unit) act" where
  "Buffer_add_u16b E v = Buffer_add_T E (be_bytes 2 (unat v))"

definition Buffer_add_s16b :: "'b evbuffer_api \<Rightarrow> int \<Rightarrow> ('b, unit) act" where
  "Buffer_add_s16b E v = Buffer_add_T E (be_bytes 2 (unat (word_of_int v :: 16 word)))"

definition Buffer_add_u16l :: "'b evbuffer_api \<Rightarrow> u16 \<Rightarrow> ('b, unit) act" where
  "Buffer_add_u16l E v = Buffer_add_T E (le_bytes 2 (unat v))"

definition Buffer_add_s16l :: "'b evbuffer_api \<Rightarrow> int \<Rightarrow> ('b, unit) act" where
  "Buffer_add_s16l E v = Buffer_add_T E (le_bytes 2 (unat (word_of_int v :: 16 word)))"

definition Buffer_add_u32b :: "'b evbuffer_api \<Rightarrow> u32 \<Rightarrow> ('b, unit) act" where
  "Buffer_add_u32b E v = Buffer_add_T E (be_bytes 4 (unat v))"

definition Buffer_add_s32b :: "'b evbuffer_api \<Rightarrow> int \<Rightarrow> ('b, unit) act" where
  "Buffer_add_s32b E v = Buffer_add_T E (be_bytes 4 (unat (word_of_int v :: 32 word)))"

definition Buffer_add_u32l :: "'b evbuffer_api \<Rightarrow> u32 \<Rightarrow> ('b, unit) act" where
  "Buffer_add_u32l E v = Buffer_add_T E (le_bytes 4 (unat v))"

definition Buffer_add_s32l :: "'b evbuffer_api \<Rightarrow> int \<Rightarrow> ('b, unit) act" where
  "Buffer_add_s32l E v = Buffer_add_T E (le_bytes 4 (unat (word_of_int v :: 32 word)))"

definition Buffer_add_u64b :: "'b evbuffer_api \<Rightarrow> u64 \<Rightarrow> ('b, unit) act" where
  "Buffer_add_u64b E v = Buffer_add_T E (be_bytes 8 (unat v))"

definition Buffer_add_s64b :: "'b evbuffer_api \<Rightarrow> int \<Rightarrow> ('b, unit) act" where
  "Buffer_add_s64b E v = Buffer_add_T E (be_bytes 8 (unat (word_of_int v :: 64 word)))"

definition Buffer_add_u64l :: "'b evbuffer_api \<Rightarrow> u64 \<Rightarrow> ('b, unit) act" where
  "Buffer_add_u64l E v = Buffer_add_T E (le_bytes 8 (unat v))"

definition Buffer_add_s64l :: "'b evbuffer_api \<Rightarrow> int \<Rightarrow> ('b, unit) act" where
  "Buffer_add_s64l E v = Buffer_add_T E (le_bytes 8 (unat (word_of_int v :: 64 word)))"

definition Buffer_remove_u8 :: "'b evbuffer_api \<Rightarrow> ('b, u8) act" where
  "Buffer_remove_u8 E = Buffer_remove_T E 1 (\<lambda>d. word_of_nat (le_val d))"

definition Buffer_remove_s8 :: "'b evbuffer_api \<Rightarrow> ('b, int) act" where
  "Buffer_remove_s8 E = Buffer_remove_T E 1 (\<lambda>d. sint (word_of_nat (le_val d) :: 8 word))"

definition Buffer_remove_u16b :: "'b evbuffer_api \<Rightarrow> ('b, u16) act" where
  "Buffer_remove_u16b E = Buffer_remove_T E 2 (\<lambda>d. word_of_nat (be_val d))"

definition Buffer_remove_s16b :: "'b evbuffer_api \<Rightarrow> ('b, int) act" where
  "Buffer_remove_s16b E = Buffer_remove_T E 2 (\<lambda>d. sint (word_of_nat (be_val d) :: 16 word))"

definition Buffer_remove_u16l :: "'b evbuffer_api \<Rightarrow> ('b, u16) act" where
  "Buffer_remove_u16l E = Buffer_remove_T E 2 (\<lambda>d. word_of_nat (le_val d))"

definition Buffer_remove_s16l :: "'b evbuffer_api \<Rightarrow> ('b, int) act" where
  "Buffer_remove_s16l E = Buffer_remove_T E 2 (\<lambda>d. sint (word_of_nat (le_val d) :: 16 word))"

definition Buffer_remove_u32b :: "'b evbuffer_api \<Rightarrow> ('b, u32) act" where
  "Buffer_remove_u32b E = Buffer_remove_T E 4 (\<lambda>d. word_of_nat (be_val d))"

definition Buffer_remove_s32b :: "'b evbuffer_api \<Rightarrow> ('b, int) act" where
  "Buffer_remove_s32b E = Buffer_remove_T E 4 (\<lambda>d. sint (word_of_nat (be_val d) :: 32 word))"

definition Buffer_remove_u32l :: "'b evbuffer_api \<Rightarrow> ('b, u32) act" where
  "Buffer_remove_u32l E = Buffer_remove_T E 4 (\<lambda>d. word_of_nat (le_val d))"

definition Buffer_remove_s32l :: "'b evbuffer_api \<Rightarrow> ('b, int) act" where
  "Buffer_remove_s32l E = Buffer_remove_T E 4 (\<lambda>d. sint (word_of_nat (le_val d) :: 32 word))"

definition Buffer_remove_u64b :: "'b evbuffer_api \<Rightarrow> ('b, u64) act" where
  "Buffer_remove_u64b E = Buffer_remove_T E 8 (\<lambda>d. word_of_nat (be_val d))"

definition Buffer_remove_s64b :: "'b evbuffer_api \<Rightarrow> ('b, int) act" where
  "Buffer_remove_s64b E = Buffer_remove_T E 8 (\<lambda>d. sint (word_of_nat (be_val d) :: 64 word))"

definition Buffer_remove_u64l :: "'b evbuffer_api \<Rightarrow> ('b, u64) act" where
  "Buffer_remove_u64l E = Buffer_remove_T E 8 (\<lambda>d. word_of_nat (le_val d))"

definition Buffer_remove_s64l :: "'b evbuffer_api \<Rightarrow> ('b, int) act" where
  "Buffer_remove_s64l E = Buffer_remove_T E 8 (\<lambda>d. sint (word_of_nat (le_val d) :: 64 word))"

definition Buffer_copyout_u8 :: "'b evbuffer_api \<Rightarrow> ('b, u8) act" where
  "Buffer_copyout_u8 E = Buffer_copyout_T E 1 (\<lambda>d. word_of_nat (le_val d))"

definition Buffer_copyout_s8 :: "'b evbuffer_api \<Rightarrow> ('b, int) act" where
  "Buffer_copyout_s8 E = Buffer_copyout_T E 1 (\<lambda>d. sint (word_of_nat (le_val d) :: 8 word))"

definition Buffer_copyout_u16b :: "'b evbuffer_api \<Rightarrow> ('b, u16) act" where
  "Buffer_copyout_u16b E = Buffer_copyout_T E 2 (\<lambda>d. word_of_nat (be_val d))"

definition Buffer_copyout_s16b :: "'b evbuffer_api \<Rightarrow> ('b, int) act" where
  "Buffer_copyout_s16b E = Buffer_copyout_T E 2 (\<lambda>d. sint (word_of_nat (be_val d) :: 16 word))"

definition Buffer_copyout_u16l :: "'b evbuffer_api \<Rightarrow> ('b, u16) act" where
  "Buffer_copyout_u16l E = Buffer_copyout_T E 2 (\<lambda>d. word_of_nat (le_val d))"

definition Buffer_copyout_s16l :: "'b evbuffer_api \<Rightarrow> ('b, int) act" where
  "Buffer_copyout_s16l E = Buffer_copyout_T E 2 (\<lambda>d. sint (word_of_nat (le_val d) :: 16 word))"

definition Buffer_copyout_u32b :: "'b evbuffer_api \<Rightarrow> ('b, u32) act" where
  "Buffer_copyout_u32b E = Buffer_copyout_T E 4 (\<lambda>d. word_of_nat (be_val d))"

definition Buffer_copyout_s32b :: "'b evbuffer_api \<Rightarrow> ('b, int) act" where
  "Buffer_copyout_s32b E = Buffer_copyout_T E 4 (\<lambda>d. sint (word_of_nat (be_val d) :: 32 word))"

definition Buffer_copyout_u32l :: "'b evbuffer_api \<Rightarrow> ('b, u32) act" where
  "Buffer_copyout_u32l E = Buffer_copyout_T E 4 (\<lambda>d. word_of_nat (le_val d))"

definition Buffer_copyout_s32l :: "'b evbuffer_api \<Rightarrow> ('b, int) act" where
  "Buffer_copyout_s32l E = Buffer_copyout_T E 4 (\<lambda>d. sint (word_of_nat (le_val d) :: 32 word))"

definition Buffer_copyout_u64b :: "'b evbuffer_api \<Rightarrow> ('b, u64) act" where
  "Buffer_copyout_u64b E = Buffer_copyout_T E 8 (\<lambda>d. word_of_nat (be_val d))"

definition Buffer_copyout_s64b :: "'b evbuffer_api \<Rightarrow> ('b, int) act" where
  "Buffer_copyout_s64b E = Buffer_copyout_T E 8 (\<lambda>d. sint (word_of_nat (be_val d) :: 64 word))"

definition Buffer_copyout_u64l :: "'b evbuffer_api \<Rightarrow> ('b, u64) act" where
  "Buffer_copyout_u64l E = Buffer_copyout_T E 8 (\<lambda>d. word_of_nat (le_val d))"

definition Buffer_copyout_s64l :: "'b evbuffer_api \<Rightarrow> ('b, int) act" where
  "Buffer_copyout_s64l E = Buffer_copyout_T E 8 (\<lambda>d. sint (word_of_nat (le_val d) :: 64 word))"

lemmas Buffer_add_defs =
  Buffer_add_u8_def Buffer_add_s8_def Buffer_add_u16b_def Buffer_add_s16b_def
  Buffer_add_u16l_def Buffer_add_s16l_def Buffer_add_u32b_def Buffer_add_s32b_def
  Buffer_add_u32l_def Buffer_add_s32l_def Buffer_add_u64b_def Buffer_add_s64b_def
  Buffer_add_u64l_def Buffer_add_s64l_def

lemmas Buffer_remove_defs =
  Buffer_remove_u8_def Buffer_remove_s8_def Buffer_remove_u16b_def Buffer_remove_s16b_def
  Buffer_remove_u16l_def Buffer_remove_s16l_def Buffer_remove_u32b_def Buffer_remove_s32b_def
  Buffer_remove_u32l_def Buffer_remove_s32l_def Buffer_remove_u64b_def Buffer_remove_s64b_def
  Buffer_remove_u64l_def Buffer_remove_s64l_def

lemmas Buffer_copyout_defs =
  Buffer_copyout_u8_def Buffer_copyout_s8_def Buffer_copyout_u16b_def Buffer_copyout_s16b_def
  Buffer_copyout_u16l_def Buffer_copyout_s16l_def Buffer_copyout_u32b_def
  Buffer_copyout_s32b_def Buffer_copyout_u32l_def Buffer_copyout_s32l_def
  Buffer_copyout_u64b_def Buffer_copyout_s64b_def Buffer_copyout_u64l_def
  Buffer_copyout_s64l_def

section \<open>Simulation by the list implementation\<close>

lemma Buffer_sims [sim_intros]:
  assumes "evbuffer_spec E v"
  shows "simA v (Buffer_get_length E) (Buffer_get_length (evb_ref E))"
    and "simA v (Buffer_expand E n) (Buffer_expand (evb_ref E) n)"
    and "simA v (Buffer_add E d) (Buffer_add (evb_ref E) d)"
    and "simA v (Buffer_prepend E d) (Buffer_prepend (evb_ref E) d)"
    and "simA v (Buffer_drain E n) (Buffer_drain (evb_ref E) n)"
    and "simA v (Buffer_remove_atmost E n) (Buffer_remove_atmost (evb_ref E) n)"
    and "simA v (Buffer_remove E n) (Buffer_remove (evb_ref E) n)"
    and "simA v (Buffer_copyout_atmost E n) (Buffer_copyout_atmost (evb_ref E) n)"
    and "simA v (Buffer_copyout E n) (Buffer_copyout (evb_ref E) n)"
    and "simA v (Buffer_add_reference E d) (Buffer_add_reference (evb_ref E) d)"
    and "simA v (Buffer_add_moved E d) (Buffer_add_moved (evb_ref E) d)"
    and "simA v (Buffer_add_printf E fmt as) (Buffer_add_printf (evb_ref E) fmt as)"
  using assms
  by (simp_all add: simA_def evb_ref_def evb_laws case_prod_beta
      Buffer_get_length_def Buffer_expand_def Buffer_add_def Buffer_add_printf_def Buffer_prepend_def Buffer_drain_def
      Buffer_remove_atmost_def Buffer_remove_def Buffer_copyout_atmost_def Buffer_copyout_def
      Buffer_add_reference_def Buffer_add_moved_def)

lemma Buffer_readln_sim [sim_intros]:
  assumes "evbuffer_spec E v"
  shows "simA v (Buffer_readln E EOL_NUL) (Buffer_readln (evb_ref E) EOL_NUL)"
proof
  fix b
  show "map_prod id v (Buffer_readln E EOL_NUL b) = Buffer_readln (evb_ref E) EOL_NUL (v b)"
    using evb_readln_law [OF assms, of b]
    by (cases "evbuffer_readln E b EOL_NUL")
      (auto simp: Buffer_readln_def evb_ref_def split: option.splits)
qed

lemma Buffer_move_sims [sim_intros]:
  assumes "evbuffer_spec E v"
  shows "simA (map_prod v v) (Buffer_add_buffer E) (Buffer_add_buffer (evb_ref E))"
    and "simA (map_prod v v) (Buffer_prepend_buffer E) (Buffer_prepend_buffer (evb_ref E))"
    and "simA (map_prod v v) (Buffer_remove_buffer E n) (Buffer_remove_buffer (evb_ref E) n)"
  using assms
  by (simp_all add: simA_def evb_ref_def evb_move_laws case_prod_beta map_prod_def
      Buffer_add_buffer_def Buffer_prepend_buffer_def Buffer_remove_buffer_def)

lemma Buffer_T_sims [sim_intros]:
  assumes "evbuffer_spec E v"
  shows "simA v (Buffer_add_T E d) (Buffer_add_T (evb_ref E) d)"
    and "simA v (Buffer_remove_T E n f) (Buffer_remove_T (evb_ref E) n f)"
    and "simA v (Buffer_copyout_T E n f) (Buffer_copyout_T (evb_ref E) n f)"
    and "simA v (Buffer_add_string E d) (Buffer_add_string (evb_ref E) d)"
    and "simA v (Buffer_drain_all E) (Buffer_drain_all (evb_ref E))"
  unfolding Buffer_add_T_def Buffer_remove_T_def Buffer_copyout_T_def Buffer_add_string_def
    Buffer_drain_all_def
  by (intro sim_intros assms)+

section \<open>The methods on the list implementation\<close>

lemma Buffer_list_simps [simp]:
  "Buffer_get_length (evb_list z) b = (Ret (length b), b)"
  "Buffer_add (evb_list z) d b = (Ret (), b @ d)"
  "Buffer_add_string (evb_list z) d b = (Ret (), b @ d)"
  "Buffer_add_reference (evb_list z) d b = (Ret (), b @ d)"
  "Buffer_add_moved (evb_list z) d b = (Ret (), b @ d)"
  "Buffer_add_T (evb_list z) d b = (Ret (), b @ d)"
  "Buffer_prepend (evb_list z) d b = (Ret (), d @ b)"
  "Buffer_drain (evb_list z) n b = (Ret (), drop n b)"
  "Buffer_drain_all (evb_list z) b = (Ret (), [])"
  "Buffer_add_buffer (evb_list z) (b, c) = (Ret (), b @ c, [])"
  "Buffer_add_printf (evb_list z) fmt as b = (Ret (length (c_printf fmt as)), b @ ascii (c_printf fmt as))"
  "Buffer_add_vprintf (evb_list z) fmt as b = (Ret (length (c_printf fmt as)), b @ ascii (c_printf fmt as))"
  by (simp_all add: Buffer_get_length_def Buffer_add_def Buffer_add_string_def Buffer_add_printf_def Buffer_add_vprintf_def Buffer_add_T_def
      Buffer_add_reference_def Buffer_add_moved_def Buffer_prepend_def Buffer_drain_def
      Buffer_drain_all_def bindA_def Buffer_add_buffer_def)

lemma Buffer_remove_list:
  "Buffer_remove (evb_list z) n b = (if n \<le> length b then (Ret (take n b), drop n b)
     else (Throw (Runtime_error ''not enough data in buffer''), []))"
  by (simp add: Buffer_remove_def)

lemma Buffer_copyout_list:
  "Buffer_copyout (evb_list z) n b = (if n \<le> length b then (Ret (take n b), b)
     else (Throw (Runtime_error ''not enough data in buffer''), b))"
  by (simp add: Buffer_copyout_def)

lemma Buffer_remove_T_list:
  "Buffer_remove_T (evb_list z) n f b = (if n \<le> length b then (Ret (f (take n b)), drop n b)
     else (Throw (Runtime_error ''not enough data in buffer''), []))"
  by (simp add: Buffer_remove_T_def bindA_def Buffer_remove_list)

lemma Buffer_copyout_T_list:
  "Buffer_copyout_T (evb_list z) n f b = (if n \<le> length b then (Ret (f (take n b)), b)
     else (Throw (Runtime_error ''not enough data in buffer''), b))"
  by (simp add: Buffer_copyout_T_def bindA_def Buffer_copyout_list)

lemma Buffer_readln_list:
  "Buffer_readln (evb_list z) eol b = (case split_nul b of
     None \<Rightarrow> (Throw (Runtime_error ''end of stream''), b) | Some (l, r) \<Rightarrow> (Ret l, r))"
  by (simp add: Buffer_readln_def split: option.splits)

lemmas Buffer_list = Buffer_remove_list Buffer_copyout_list Buffer_remove_T_list
  Buffer_copyout_T_list Buffer_readln_list


section \<open>The contract of a byte queue\<close>

text \<open>
  A source of bytes: reading \<open>n\<close> bytes takes them from the front of the view, when there are
  that many.  The contract is stated for every library state \<open>e\<close> and view \<open>v\<close> that satisfy a
  condition \<open>ok\<close>, so that it can be discharged for definitions over a library parameter.
\<close>

locale byte_source =
  fixes ok :: "'e \<Rightarrow> ('s \<Rightarrow> bytes) \<Rightarrow> bool"
    and rd :: "'e \<Rightarrow> nat \<Rightarrow> ('s, bytes) act"
  assumes rd_outcome: "ok e v \<Longrightarrow> n \<le> length (v s) \<Longrightarrow> fst (rd e n s) = Ret (take n (v s))"
    and rd_view: "ok e v \<Longrightarrow> n \<le> length (v s) \<Longrightarrow> v (snd (rd e n s)) = drop n (v s)"
begin

lemma rd_prefix:
  assumes "ok e v" and "v s = xs @ ys"
  shows "fst (rd e (length xs) s) = Ret xs" and "v (snd (rd e (length xs) s)) = ys"
  using assms rd_outcome [of e v "length xs" s] rd_view [of e v "length xs" s] by simp_all

lemma rd_bind:
  assumes "ok e v" and "v s = xs @ ys"
  shows "\<exists>s'. bindA (rd e (length xs)) f s = f xs s' \<and> v s' = ys"
proof (intro exI conjI)
  show "bindA (rd e (length xs)) f s = f xs (snd (rd e (length xs) s))"
    using rd_prefix(1) [OF assms] by (simp add: bindA_def case_prod_beta)
  show "v (snd (rd e (length xs) s)) = ys"
    using rd_prefix(2) [OF assms] .
qed

lemma rd_rd:
  assumes "ok e v" and "v s = xs @ ys @ zs"
  shows "fst (bindA (rd e (length xs)) (\<lambda>a. bindA (rd e (length ys)) (\<lambda>b. retA (a, b))) s) = Ret (xs, ys)"
proof -
  obtain s' where 1: "bindA (rd e (length xs)) (\<lambda>a. bindA (rd e (length ys)) (\<lambda>b. retA (a, b))) s =
      bindA (rd e (length ys)) (\<lambda>b. retA (xs, b)) s'" and s': "v s' = ys @ zs"
    using rd_bind [OF assms, of "\<lambda>a. bindA (rd e (length ys)) (\<lambda>b. retA (a, b))"] by auto
  obtain s'' where "bindA (rd e (length ys)) (\<lambda>b. retA (xs, b)) s' = retA (xs, ys) s''"
    using rd_bind [OF assms(1) s', of "\<lambda>b. retA (xs, b)"] by auto
  with 1 show ?thesis by simp
qed

end

text \<open>A byte queue also takes bytes at its end, and refuses to give more than it holds.\<close>

locale byte_queue = byte_source ok rd
  for ok :: "'e \<Rightarrow> ('s \<Rightarrow> bytes) \<Rightarrow> bool"
    and rd :: "'e \<Rightarrow> nat \<Rightarrow> ('s, bytes) act" +
  fixes add :: "'e \<Rightarrow> bytes \<Rightarrow> ('s, unit) act"
  assumes add_outcome: "ok e v \<Longrightarrow> fst (add e d s) = Ret ()"
    and add_view: "ok e v \<Longrightarrow> v (snd (add e d s)) = v s @ d"
    and rd_short: "ok e v \<Longrightarrow> length (v s) < n \<Longrightarrow>
      fst (rd e n s) = Throw (Runtime_error ''not enough data in buffer'')"
begin

lemma add_add_view: "ok e v \<Longrightarrow> v (snd (seqA (add e c) (add e d) s)) = v s @ c @ d"
  by (simp add: seqA_def bindA_def case_prod_beta add_outcome add_view)

lemma add_then_rd:
  assumes "ok e v" and "v s = []"
  shows "fst (seqA (add e d) (rd e (length d)) s) = Ret d"
    and "v (snd (seqA (add e d) (rd e (length d)) s)) = []"
  using assms
  by (simp_all add: seqA_def bindA_def case_prod_beta add_outcome add_view rd_outcome rd_view)

text \<open>Whatever is added in pieces comes out in pieces of any sizes, in order.\<close>

lemma add_each:
  "ok e v \<Longrightarrow> fst (eachA (add e) ds s) = Ret () \<and> v (snd (eachA (add e) ds s)) = v s @ concat ds"
  by (induction ds arbitrary: s) (simp_all add: seqA_def bindA_def case_prod_beta add_outcome add_view)

lemma rd_each:
  "ok e v \<Longrightarrow> sum_list ns \<le> length (v s) \<Longrightarrow>
     \<exists>xs. fst (collectA (rd e) ns s) = Ret xs \<and> map length xs = ns \<and>
       concat xs = take (sum_list ns) (v s) \<and> v (snd (collectA (rd e) ns s)) = drop (sum_list ns) (v s)"
proof (induction ns arbitrary: s)
  case (Cons n ns)
  obtain s' where rd: "rd e n s = (Ret (take n (v s)), s')" and s': "v s' = drop n (v s)"
    using Cons.prems rd_outcome [of e v n s] rd_view [of e v n s] by (cases "rd e n s") simp
  have "sum_list ns \<le> length (v s')" using Cons.prems(2) s' by simp
  from Cons.IH [OF Cons.prems(1) this] s' obtain xs t where
    "collectA (rd e) ns s' = (Ret xs, t)" "map length xs = ns"
    "concat xs = take (sum_list ns) (drop n (v s))" "v t = drop (sum_list ns) (drop n (v s))"
    by (cases "collectA (rd e) ns s'") auto
  with rd Cons.prems show ?case
    by (intro exI [of _ "take n (v s) # xs"]) (simp add: bindA_def take_add add.commute)
qed simp

lemma fifo:
  assumes "ok e v" and "sum_list ns \<le> length (v s @ concat ds)"
  shows "\<exists>xs. fst (seqA (eachA (add e) ds) (collectA (rd e) ns) s) = Ret xs \<and> map length xs = ns \<and>
    concat xs = take (sum_list ns) (v s @ concat ds) \<and>
    v (snd (seqA (eachA (add e) ds) (collectA (rd e) ns) s)) = drop (sum_list ns) (v s @ concat ds)"
proof -
  obtain s' where "eachA (add e) ds s = (Ret (), s')" and "v s' = v s @ concat ds"
    using add_each [OF assms(1), of ds s] by (cases "eachA (add e) ds s") simp
  with rd_each [OF assms(1), of ns s'] assms(2) show ?thesis by (simp add: seqA_def bindA_def)
qed

lemma add_keeps_front:
  assumes "ok e v" and "length xs = n" and "v s = xs @ ys"
  shows "fst (seqA (add e d) (rd e n) s) = Ret xs"
    and "v (snd (seqA (add e d) (rd e n) s)) = ys @ d"
  using assms
  by (simp_all add: seqA_def bindA_def case_prod_beta add_outcome add_view rd_outcome rd_view)

end

lemma Buffer_remove_laws:
  assumes "evbuffer_spec E v"
  shows "fst (Buffer_remove E n b) = (if n \<le> length (v b) then Ret (take n (v b))
      else Throw (Runtime_error ''not enough data in buffer''))"
    and "v (snd (Buffer_remove E n b)) = drop n (v b)"
  using simA_fst [OF Buffer_sims(7) [OF assms], of n b]
    simA_snd [OF Buffer_sims(7) [OF assms], of n b]
  by (simp_all add: evb_ref_def Buffer_remove_list)

lemma Buffer_add_laws:
  assumes "evbuffer_spec E v"
  shows "fst (Buffer_add E d b) = Ret ()" and "v (snd (Buffer_add E d b)) = v b @ d"
  using simA_fst [OF Buffer_sims(3) [OF assms], of d b]
    simA_snd [OF Buffer_sims(3) [OF assms], of d b]
  by (simp_all add: evb_ref_def)

interpretation bufq: byte_queue evbuffer_spec Buffer_remove Buffer_add
  by unfold_locales (simp_all add: Buffer_remove_laws Buffer_add_laws)

section \<open>Properties\<close>

text \<open>a buffer is a first-in first-out byte queue.  After any pieces have been added, removing
  pieces of any sizes gives exactly the bytes that were there followed by those added, in order,
  and leaves the rest; neither method throws as long as there are enough bytes.\<close>

theorem Buffer_fifo:
  assumes "evbuffer_spec E v" and "sum_list ns \<le> length (v b @ concat ds)"
  shows "\<exists>xs. fst (seqA (eachA (Buffer_add E) ds) (collectA (Buffer_remove E) ns) b) = Ret xs \<and>
    map length xs = ns \<and> concat xs = take (sum_list ns) (v b @ concat ds) \<and>
    v (snd (seqA (eachA (Buffer_add E) ds) (collectA (Buffer_remove E) ns) b)) =
      drop (sum_list ns) (v b @ concat ds)"
  using assms by (rule bufq.fifo)

theorem Buffer_fifo_witness:
  "\<exists>xs. fst (seqA (eachA (Buffer_add (evb_list 0)) [[2, 3], [], [4]]) (collectA (Buffer_remove (evb_list 0)) [2, 0, 1]) [1])
      = Ret xs \<and> map length xs = [2, 0, 1] \<and> concat xs = [1, 2, 3]"
  using Buffer_fifo [of "evb_list 0" id "[2, 0, 1]" "[1]" "[[2, 3], [], [4]]"] evb_list_spec [of 0] by auto

text \<open>asking for more bytes than there are throws.  \<open>remove\<close> has by then discarded what the
  buffer held; \<open>copyout\<close> leaves it as it was.\<close>

theorem Buffer_short_read:
  assumes "evbuffer_spec E v" and "length (v b) < n"
  shows "fst (Buffer_remove E n b) = Throw (Runtime_error ''not enough data in buffer'') \<and>
    v (snd (Buffer_remove E n b)) = [] \<and>
    Buffer_copyout E n b = (Throw (Runtime_error ''not enough data in buffer''), b)"
  using assms by (simp add: Buffer_remove_laws Buffer_copyout_def evb_laws)

theorem Buffer_short_read_witness:
  "fst (Buffer_remove (evb_list 0) 3 [1, 2]) = Throw (Runtime_error ''not enough data in buffer'')"
  using Buffer_short_read [of "evb_list 0" id "[1, 2]" 3] evb_list_spec [of 0] by simp

definition add_peek_remove :: "('x \<Rightarrow> ('b, unit) act) \<Rightarrow> ('b, 'a) act \<Rightarrow> ('b, 'a) act \<Rightarrow> 'x
    \<Rightarrow> ('b, 'a \<times> 'a) act" where
  "add_peek_remove add cp rm x = seqA (add x) (bindA cp (\<lambda>y. bindA rm (\<lambda>z. retA (y, z))))"

lemma add_peek_remove_sim [sim_intros]:
  "(\<And>x. simA h (a x) (a' x)) \<Longrightarrow> simA h c c' \<Longrightarrow> simA h r r' \<Longrightarrow>
     simA h (add_peek_remove a c r x) (add_peek_remove a' c' r' x)"
  unfolding add_peek_remove_def by (intro sim_intros)

lemma add_peek_remove_codec:
  assumes spec: "evbuffer_spec E v" "v b = []" and n: "length (img x) = n" and f: "f (img x) = y"
  shows "map_prod id v (add_peek_remove (\<lambda>x. Buffer_add_T E (img x)) (Buffer_copyout_T E n f)
    (Buffer_remove_T E n f) x b) = (Ret (y, y), [])"
proof -
  have "simA v (add_peek_remove (\<lambda>x. Buffer_add_T E (img x)) (Buffer_copyout_T E n f) (Buffer_remove_T E n f) x)
      (add_peek_remove (\<lambda>x. Buffer_add_T (evb_ref E) (img x)) (Buffer_copyout_T (evb_ref E) n f)
        (Buffer_remove_T (evb_ref E) n f) x)"
    by (intro sim_intros spec)
  then have "map_prod id v (add_peek_remove (\<lambda>x. Buffer_add_T E (img x)) (Buffer_copyout_T E n f)
      (Buffer_remove_T E n f) x b) = add_peek_remove (\<lambda>x. Buffer_add_T (evb_ref E) (img x))
      (Buffer_copyout_T (evb_ref E) n f) (Buffer_remove_T (evb_ref E) n f) x []"
    using spec(2) by (simp add: simA_def)
  also have "\<dots> = (Ret (y, y), [])"
    using n f by (simp add: add_peek_remove_def seqA_def bindA_def evb_ref_def Buffer_list)
  finally show ?thesis .
qed

text \<open>every typed accessor round-trips.  An integer added to an empty buffer is what
  \<open>copyout_<type>\<close> and then \<open>remove_<type>\<close> return, for each of the fourteen widths, signs and byte
  orders, and the buffer is empty again.\<close>

theorem Buffer_integer_roundtrip:
  assumes "evbuffer_spec E v" and "v b = []"
  shows "map_prod id v (add_peek_remove (Buffer_add_u8 E) (Buffer_copyout_u8 E) (Buffer_remove_u8 E)
      x8 b) = (Ret (x8, x8), []) \<and>
    map_prod id v (add_peek_remove (Buffer_add_s8 E) (Buffer_copyout_s8 E) (Buffer_remove_s8 E)
      (sint x8) b) = (Ret (sint x8, sint x8), []) \<and>
    map_prod id v (add_peek_remove (Buffer_add_u16b E) (Buffer_copyout_u16b E) (Buffer_remove_u16b E)
      x16 b) = (Ret (x16, x16), []) \<and>
    map_prod id v (add_peek_remove (Buffer_add_s16b E) (Buffer_copyout_s16b E) (Buffer_remove_s16b E)
      (sint x16) b) = (Ret (sint x16, sint x16), []) \<and>
    map_prod id v (add_peek_remove (Buffer_add_u16l E) (Buffer_copyout_u16l E) (Buffer_remove_u16l E)
      x16 b) = (Ret (x16, x16), []) \<and>
    map_prod id v (add_peek_remove (Buffer_add_s16l E) (Buffer_copyout_s16l E) (Buffer_remove_s16l E)
      (sint x16) b) = (Ret (sint x16, sint x16), []) \<and>
    map_prod id v (add_peek_remove (Buffer_add_u32b E) (Buffer_copyout_u32b E) (Buffer_remove_u32b E)
      x32 b) = (Ret (x32, x32), []) \<and>
    map_prod id v (add_peek_remove (Buffer_add_s32b E) (Buffer_copyout_s32b E) (Buffer_remove_s32b E)
      (sint x32) b) = (Ret (sint x32, sint x32), []) \<and>
    map_prod id v (add_peek_remove (Buffer_add_u32l E) (Buffer_copyout_u32l E) (Buffer_remove_u32l E)
      x32 b) = (Ret (x32, x32), []) \<and>
    map_prod id v (add_peek_remove (Buffer_add_s32l E) (Buffer_copyout_s32l E) (Buffer_remove_s32l E)
      (sint x32) b) = (Ret (sint x32, sint x32), []) \<and>
    map_prod id v (add_peek_remove (Buffer_add_u64b E) (Buffer_copyout_u64b E) (Buffer_remove_u64b E)
      x64 b) = (Ret (x64, x64), []) \<and>
    map_prod id v (add_peek_remove (Buffer_add_s64b E) (Buffer_copyout_s64b E) (Buffer_remove_s64b E)
      (sint x64) b) = (Ret (sint x64, sint x64), []) \<and>
    map_prod id v (add_peek_remove (Buffer_add_u64l E) (Buffer_copyout_u64l E) (Buffer_remove_u64l E)
      x64 b) = (Ret (x64, x64), []) \<and>
    map_prod id v (add_peek_remove (Buffer_add_s64l E) (Buffer_copyout_s64l E) (Buffer_remove_s64l E)
      (sint x64) b) = (Ret (sint x64, sint x64), [])"
  unfolding Buffer_add_defs Buffer_remove_defs Buffer_copyout_defs
  by (intro conjI add_peek_remove_codec [OF assms(1,2)])
    (simp_all add: word_of_le_bytes word_of_be_bytes del: le_bytes.simps)

theorem Buffer_integer_roundtrip_witness:
  "add_peek_remove (Buffer_add_u16b (evb_list 0)) (Buffer_copyout_u16b (evb_list 0))
     (Buffer_remove_u16b (evb_list 0)) 513 [] = (Ret (513, 513), [])"
  using Buffer_integer_roundtrip [of "evb_list 0" id "[]" 0 513 0 0] evb_list_spec [of 0]
  by (simp add: map_prod_def case_prod_beta prod_eq_iff)

end
