(* ===== verification/Buffer_Async.thy ===== *)
theory Buffer_Async
  imports Buffer Awaiters
begin

text \<open>
  The asynchronous methods of EventAsync::Buffer (Buffer.cc, lines 382 to 527): read_atmost,
  read, read_to and write, with the awaiter classes behind them.  The state of a coroutine that
  uses a buffer on a connection is a record \<open>chan\<close>; the protocol clients extend it with their
  fields.  The lemmas show that \<open>read_to\<close> and \<open>write\<close> transfer exactly the bytes asked for,
  whatever the fragmentation, as long as the event loop keeps delivering events.
\<close>

section \<open>Connections\<close>

text \<open>
  \<open>ch_inp\<close>: the bytes the peer sends, in order, as far as not yet received; \<open>ch_sched\<close>: the
  readiness events the loop will deliver; \<open>ch_out\<close>: the bytes sent to the peer.
\<close>

record 'b chan =
  ch_buf :: 'b
  ch_inp :: bytes
  ch_sched :: "os_step list"
  ch_out :: bytes

definition on_buf :: "('b, 'a) act \<Rightarrow> (('b, 'z) chan_scheme, 'a) act" where
  "on_buf m = (\<lambda>s. case m (ch_buf s) of (r, b) \<Rightarrow> (r, s\<lparr>ch_buf := b\<rparr>))"

text \<open>The constructor \<open>Buffer(base)\<close>.\<close>

definition Buffer_new :: "'b evbuffer_api \<Rightarrow> (('b, 'z) chan_scheme, unit) act" where
  "Buffer_new E = (\<lambda>s. case evbuffer_new E of
     None \<Rightarrow> (Throw Bad_alloc, s) | Some b \<Rightarrow> (Ret (), s\<lparr>ch_buf := b\<rparr>))"

text \<open>
  A coroutine with a second, local buffer acts on the pair of that buffer and the connection:
  on the local buffer alone, on the connection alone, on both buffers, or on the connection
  with the local buffer in the place of the first.
\<close>

definition with_local :: "'b evbuffer_api \<Rightarrow> ('b \<times> ('b, 'z) chan_scheme, 'a) act \<Rightarrow> (('b, 'z) chan_scheme, 'a) act" where
  "with_local E m = (\<lambda>s. case evbuffer_new E of
     None \<Rightarrow> (Throw Bad_alloc, s)
   | Some b \<Rightarrow> (case m (b, s) of (r, b', s') \<Rightarrow> (r, s')))"

definition on_local :: "('b, 'a) act \<Rightarrow> ('b \<times> ('b, 'z) chan_scheme, 'a) act" where
  "on_local m = (\<lambda>(b, s). case m b of (r, b') \<Rightarrow> (r, b', s))"

definition on_chan :: "(('b, 'z) chan_scheme, 'a) act \<Rightarrow> ('b \<times> ('b, 'z) chan_scheme, 'a) act" where
  "on_chan m = (\<lambda>(b, s). case m s of (r, s') \<Rightarrow> (r, b, s'))"

definition on_both :: "('b \<times> 'b, 'a) act \<Rightarrow> ('b \<times> ('b, 'z) chan_scheme, 'a) act" where
  "on_both m = (\<lambda>(b, s). case m (b, ch_buf s) of (r, b', c) \<Rightarrow> (r, b', s\<lparr>ch_buf := c\<rparr>))"

definition local_chan :: "(('b, 'z) chan_scheme, 'a) act \<Rightarrow> ('b \<times> ('b, 'z) chan_scheme, 'a) act" where
  "local_chan m = (\<lambda>(b, s). case m (s\<lparr>ch_buf := b\<rparr>) of (r, s') \<Rightarrow> (r, ch_buf s', s'\<lparr>ch_buf := ch_buf s\<rparr>))"

text \<open>A \<open>size_t\<close> passed to a parameter of type \<open>int\<close> keeps its low 32 bits.\<close>

definition c_int :: "u64 \<Rightarrow> int" where
  "c_int w = sint (ucast w :: 32 word)"

definition await_chan :: "(os_step \<Rightarrow> 'w \<Rightarrow> ('b, 'z) chan_scheme \<Rightarrow> 'w \<times> ('b, 'z) chan_scheme \<times> wake)
    \<Rightarrow> ('w \<Rightarrow> 'a outcome) \<Rightarrow> 'w \<Rightarrow> (('b, 'z) chan_scheme, 'a) act" where
  "await_chan cb fin aw = (\<lambda>s. case drive cb fin (ch_sched s) aw s of
     (r, aw', s', rest) \<Rightarrow> (r, s'\<lparr>ch_sched := rest\<rparr>))"

section \<open>ReadAwaiter, ReadAtMostAwaiter, ReadExactlyAwaiter\<close>

record buf_read_awaiter =
  ra_limit :: u64
  ra_bytes_read :: u64
  ra_err :: bool
  ra_eof :: bool

definition BufReadAwaiter_new :: "int \<Rightarrow> buf_read_awaiter" where
  "BufReadAwaiter_new limit =
     \<lparr>ra_limit = word_of_int limit, ra_bytes_read = 0, ra_err = False, ra_eof = False\<rparr>"

definition BufReadAwaiter_await_ready :: "buf_read_awaiter \<Rightarrow> bool" where
  "BufReadAwaiter_await_ready aw \<longleftrightarrow> ra_limit aw \<le> ra_bytes_read aw"

definition ReadAtMostAwaiter_await_resume :: "buf_read_awaiter \<Rightarrow> u64 outcome" where
  "ReadAtMostAwaiter_await_resume aw =
     (if ra_err aw then Throw (Runtime_error ''failed to read from fd'') else Ret (ra_bytes_read aw))"

definition ReadAtMostAwaiter_on_read_ready :: "'b evbuffer_api \<Rightarrow> os_step \<Rightarrow> buf_read_awaiter
    \<Rightarrow> ('b, 'z) chan_scheme \<Rightarrow> buf_read_awaiter \<times> ('b, 'z) chan_scheme \<times> wake" where
  "ReadAtMostAwaiter_on_read_ready E st aw s =
     (case evbuffer_read E (ch_buf s) (c_int (ra_limit aw)) st (ch_inp s) of (n, b, p) \<Rightarrow>
        (aw\<lparr>ra_err := n < 0, ra_bytes_read := word_of_int n\<rparr>, s\<lparr>ch_buf := b, ch_inp := p\<rparr>, Resume))"

definition ReadExactlyAwaiter_await_resume :: "buf_read_awaiter \<Rightarrow> unit outcome" where
  "ReadExactlyAwaiter_await_resume aw =
     (if ra_err aw then Throw (Runtime_error ''failed to read from fd'')
      else if ra_eof aw then Throw (Runtime_error ''end of stream'')
      else Ret ())"

definition ReadExactlyAwaiter_on_read_ready :: "'b evbuffer_api \<Rightarrow> os_step \<Rightarrow> buf_read_awaiter
    \<Rightarrow> ('b, 'z) chan_scheme \<Rightarrow> buf_read_awaiter \<times> ('b, 'z) chan_scheme \<times> wake" where
  "ReadExactlyAwaiter_on_read_ready E st aw s =
     (case evbuffer_read E (ch_buf s) (c_int (ra_limit aw - ra_bytes_read aw)) st (ch_inp s) of
        (n, b, p) \<Rightarrow>
          (let s' = s\<lparr>ch_buf := b, ch_inp := p\<rparr> in
           if n < 0 then (aw\<lparr>ra_err := True\<rparr>, s', Resume)
           else (let aw' = aw\<lparr>ra_bytes_read := ra_bytes_read aw + word_of_int n\<rparr> in
                 if n = 0 then (aw'\<lparr>ra_eof := True\<rparr>, s', Resume)
                 else if ra_bytes_read aw' \<noteq> ra_limit aw' then (aw', s', Rearm)
                 else (aw', s', Resume))))"

definition await_read_exactly :: "'b evbuffer_api \<Rightarrow> buf_read_awaiter
    \<Rightarrow> (('b, 'z) chan_scheme, unit) act" where
  "await_read_exactly E aw =
     (if BufReadAwaiter_await_ready aw then (\<lambda>s. (ReadExactlyAwaiter_await_resume aw, s))
      else await_chan (ReadExactlyAwaiter_on_read_ready E) ReadExactlyAwaiter_await_resume aw)"

definition Buffer_read_atmost :: "'b evbuffer_api \<Rightarrow> int \<Rightarrow> (('b, 'z) chan_scheme, u64) act" where
  "Buffer_read_atmost E sz =
     (let aw = BufReadAwaiter_new sz in
      if BufReadAwaiter_await_ready aw then (\<lambda>s. (ReadAtMostAwaiter_await_resume aw, s))
      else await_chan (ReadAtMostAwaiter_on_read_ready E) ReadAtMostAwaiter_await_resume aw)"

definition Buffer_read :: "'b evbuffer_api \<Rightarrow> nat \<Rightarrow> (('b, 'z) chan_scheme, unit) act" where
  "Buffer_read E sz = await_read_exactly E (BufReadAwaiter_new (int sz))"

definition Buffer_read_to :: "'b evbuffer_api \<Rightarrow> nat \<Rightarrow> (('b, 'z) chan_scheme, unit) act" where
  "Buffer_read_to E sz = bindA (on_buf (Buffer_get_length E)) (\<lambda>len.
     if sz \<le> len then await_read_exactly E (BufReadAwaiter_new 0)
     else await_read_exactly E (BufReadAwaiter_new (int (sz - len))))"

section \<open>WriteAwaiter\<close>

record buf_write_awaiter =
  wa_limit :: int
  wa_bytes_written :: u64
  wa_err :: bool

definition BufWriteAwaiter_new :: "int \<Rightarrow> buf_write_awaiter" where
  "BufWriteAwaiter_new limit = \<lparr>wa_limit = limit, wa_bytes_written = 0, wa_err = False\<rparr>"

definition BufWriteAwaiter_await_resume :: "buf_write_awaiter \<Rightarrow> unit outcome" where
  "BufWriteAwaiter_await_resume aw =
     (if wa_err aw then Throw (Runtime_error ''failed to write to fd'') else Ret ())"

definition BufWriteAwaiter_on_write_ready :: "'b evbuffer_api \<Rightarrow> os_step \<Rightarrow> buf_write_awaiter
    \<Rightarrow> ('b, 'z) chan_scheme \<Rightarrow> buf_write_awaiter \<times> ('b, 'z) chan_scheme \<times> wake" where
  "BufWriteAwaiter_on_write_ready E st aw s =
     (let aw1 = (if wa_limit aw < 0 then aw\<lparr>wa_limit := int (evbuffer_get_length E (ch_buf s))\<rparr> else aw) in
      case evbuffer_write_atmost E (ch_buf s) (wa_limit aw1) st of (n, d, b) \<Rightarrow>
        (let s' = s\<lparr>ch_buf := b, ch_out := ch_out s @ d\<rparr> in
         if n < 0 then (aw1\<lparr>wa_err := True\<rparr>, s', Resume)
         else (let aw2 = aw1\<lparr>wa_bytes_written := wa_bytes_written aw1 + word_of_int n\<rparr> in
               if sint (wa_bytes_written aw2) \<noteq> wa_limit aw2 then (aw2, s', Rearm)
               else (aw2, s', Resume))))"

text \<open>\<open>co_await buf.write(fd, size)\<close>; the default size is -1.  \<open>await_ready\<close> is always false.\<close>

definition Buffer_write :: "'b evbuffer_api \<Rightarrow> int \<Rightarrow> (('b, 'z) chan_scheme, unit) act" where
  "Buffer_write E sz =
     await_chan (BufWriteAwaiter_on_write_ready E) BufWriteAwaiter_await_resume (BufWriteAwaiter_new sz)"

section \<open>Simulation\<close>

definition chan_abs :: "('b \<Rightarrow> bytes) \<Rightarrow> ('b, 'z) chan_scheme \<Rightarrow> (bytes, 'z) chan_scheme" where
  "chan_abs v s = \<lparr>ch_buf = v (ch_buf s), ch_inp = ch_inp s, ch_sched = ch_sched s,
     ch_out = ch_out s, \<dots> = chan.more s\<rparr>"

lemma chan_abs_simps [simp]:
  "ch_buf (chan_abs v s) = v (ch_buf s)" "ch_inp (chan_abs v s) = ch_inp s"
  "ch_sched (chan_abs v s) = ch_sched s" "ch_out (chan_abs v s) = ch_out s"
  "chan.more (chan_abs v s) = chan.more s"
  by (simp_all add: chan_abs_def)

lemma chan_abs_updates [simp]:
  "chan_abs v (s\<lparr>ch_buf := b\<rparr>) = (chan_abs v s)\<lparr>ch_buf := v b\<rparr>"
  "chan_abs v (s\<lparr>ch_inp := p\<rparr>) = (chan_abs v s)\<lparr>ch_inp := p\<rparr>"
  "chan_abs v (s\<lparr>ch_sched := l\<rparr>) = (chan_abs v s)\<lparr>ch_sched := l\<rparr>"
  "chan_abs v (s\<lparr>ch_out := w\<rparr>) = (chan_abs v s)\<lparr>ch_out := w\<rparr>"
  by (simp_all add: chan_abs_def)

lemma simA_on_buf [sim_intros]: "simA v m n \<Longrightarrow> simA (chan_abs v) (on_buf m) (on_buf n)"
  by (rule simAI) (simp add: on_buf_def case_prod_beta simA_fst simA_snd)

lemma Buffer_new_sim [sim_intros]:
  "evbuffer_spec E v \<Longrightarrow> simA (chan_abs v) (Buffer_new E) (Buffer_new (evb_ref E))"
  using evb_laws(1) [of E v]
  by (cases "evbuffer_new E") (auto simp: simA_def Buffer_new_def evb_ref_def)

lemma local_sims [sim_intros]:
  "simA v m1 n1 \<Longrightarrow> simA (map_prod v (chan_abs v)) (on_local m1) (on_local n1)"
  "simA (chan_abs v) m2 n2 \<Longrightarrow> simA (map_prod v (chan_abs v)) (on_chan m2) (on_chan n2)"
  "simA (map_prod v v) m3 n3 \<Longrightarrow> simA (map_prod v (chan_abs v)) (on_both m3) (on_both n3)"
  "simA (chan_abs v) m4 n4 \<Longrightarrow> simA (map_prod v (chan_abs v)) (local_chan m4) (local_chan n4)"
  unfolding simA_def on_local_def on_chan_def on_both_def local_chan_def
  by (simp_all add: case_prod_beta map_prod_def prod_eq_iff) (metis chan_abs_simps(1) chan_abs_updates(1))+

lemma with_local_sim [sim_intros]:
  assumes "evbuffer_spec E v" and "simA (map_prod v (chan_abs v)) m n"
  shows "simA (chan_abs v) (with_local E m) (with_local (evb_ref E) n)"
proof
  fix s
  obtain b where b: "evbuffer_new E = Some b" "v b = []" using evb_laws(1) [OF assms(1)] by auto
  have "n (v b, chan_abs v s) = map_prod id (map_prod v (chan_abs v)) (m (b, s))"
    using assms(2) by (simp add: simA_def)
  with b show "map_prod id (chan_abs v) (with_local E m s) = with_local (evb_ref E) n (chan_abs v s)"
    by (cases "m (b, s)") (simp add: with_local_def evb_ref_def)
qed

lemma drive_sim:
  assumes "\<And>i aw s. cb' i aw (h s) = map_prod id (map_prod h id) (cb i aw s)"
  shows "drive cb' fin evs aw (h s) = map_prod id (map_prod id (map_prod h id)) (drive cb fin evs aw s)"
proof (induction evs arbitrary: aw s)
  case (Cons i evs)
  obtain aw1 s1 w where "cb i aw s = (aw1, s1, w)" by (metis prod_cases3)
  with assms Cons show ?case by (cases w) simp_all
qed simp

lemma simA_await_chan:
  assumes "\<And>i aw s. cb' i aw (chan_abs v s) = map_prod id (map_prod (chan_abs v) id) (cb i aw s)"
  shows "simA (chan_abs v) (await_chan cb fin aw) (await_chan cb' fin aw)"
proof
  fix s
  show "map_prod id (chan_abs v) (await_chan cb fin aw s) = await_chan cb' fin aw (chan_abs v s)"
    using drive_sim [of cb' "chan_abs v" cb fin "ch_sched s" aw s] assms
    by (simp add: await_chan_def case_prod_beta)
qed

lemma ReadExactly_cb_sim:
  assumes "evbuffer_spec E v"
  shows "ReadExactlyAwaiter_on_read_ready (evb_ref E) i aw (chan_abs v s) =
    map_prod id (map_prod (chan_abs v) id) (ReadExactlyAwaiter_on_read_ready E i aw s)"
  using evb_io_laws(1) [OF assms, symmetric]
  by (cases "evbuffer_read E (ch_buf s) (c_int (ra_limit aw - ra_bytes_read aw)) i (ch_inp s)")
    (simp add: ReadExactlyAwaiter_on_read_ready_def Let_def)

lemma ReadAtMost_cb_sim:
  assumes "evbuffer_spec E v"
  shows "ReadAtMostAwaiter_on_read_ready (evb_ref E) i aw (chan_abs v s) =
    map_prod id (map_prod (chan_abs v) id) (ReadAtMostAwaiter_on_read_ready E i aw s)"
  using evb_io_laws(1) [OF assms, symmetric]
  by (cases "evbuffer_read E (ch_buf s) (c_int (ra_limit aw)) i (ch_inp s)")
    (simp add: ReadAtMostAwaiter_on_read_ready_def)

lemma BufWrite_cb_sim:
  assumes "evbuffer_spec E v"
  shows "BufWriteAwaiter_on_write_ready (evb_ref E) i aw (chan_abs v s) =
    map_prod id (map_prod (chan_abs v) id) (BufWriteAwaiter_on_write_ready E i aw s)"
proof -
  have len: "evbuffer_get_length (evb_ref E) (v (ch_buf s)) = evbuffer_get_length E (ch_buf s)"
    by (simp add: evb_laws [OF assms] evb_ref_def)
  show ?thesis
  proof (cases "wa_limit aw < 0")
    case True
    with evb_io_laws(2) [OF assms, of "ch_buf s" "int (evbuffer_get_length E (ch_buf s))" i, symmetric]
    show ?thesis
      by (cases "evbuffer_write_atmost E (ch_buf s) (int (evbuffer_get_length E (ch_buf s))) i")
        (simp add: BufWriteAwaiter_on_write_ready_def Let_def len)
  next
    case False
    with evb_io_laws(2) [OF assms, of "ch_buf s" "wa_limit aw" i, symmetric] show ?thesis
      by (cases "evbuffer_write_atmost E (ch_buf s) (wa_limit aw) i")
        (simp add: BufWriteAwaiter_on_write_ready_def Let_def)
  qed
qed

lemma Buffer_async_sims [sim_intros]:
  assumes "evbuffer_spec E v"
  shows "simA (chan_abs v) (await_read_exactly E ra) (await_read_exactly (evb_ref E) ra)"
    and "simA (chan_abs v) (Buffer_read_atmost E k) (Buffer_read_atmost (evb_ref E) k)"
    and "simA (chan_abs v) (Buffer_write E k) (Buffer_write (evb_ref E) k)"
proof -
  have const: "\<And>r. simA (chan_abs v) (\<lambda>s. (r, s)) (\<lambda>s. (r, s))" by (simp add: simA_def)
  show "simA (chan_abs v) (await_read_exactly E ra) (await_read_exactly (evb_ref E) ra)"
    unfolding await_read_exactly_def
    by (intro simA_if const simA_await_chan ReadExactly_cb_sim assms)
  show "simA (chan_abs v) (Buffer_read_atmost E k) (Buffer_read_atmost (evb_ref E) k)"
    unfolding Buffer_read_atmost_def Let_def
    by (intro simA_if const simA_await_chan ReadAtMost_cb_sim assms)
  show "simA (chan_abs v) (Buffer_write E k) (Buffer_write (evb_ref E) k)"
    unfolding Buffer_write_def by (intro simA_await_chan BufWrite_cb_sim assms)
qed

lemma Buffer_read_to_sim [sim_intros]:
  assumes "evbuffer_spec E v"
  shows "simA (chan_abs v) (Buffer_read_to E n) (Buffer_read_to (evb_ref E) n)"
    and "simA (chan_abs v) (Buffer_read E n) (Buffer_read (evb_ref E) n)"
  unfolding Buffer_read_to_def Buffer_read_def by (intro sim_intros assms)+

section \<open>Reading exactly\<close>

lemma c_int_of_nat: "m < 2 ^ 31 \<Longrightarrow> c_int (word_of_nat m) = int m"
proof -
  assume m: "m < 2 ^ 31"
  have "(ucast (word_of_nat m :: u64) :: 32 word) = word_of_nat m"
    by (simp add: unsigned_of_nat take_bit_nat_eq_self_iff word_of_nat_eq_iff)
  moreover have "sint (word_of_nat m :: 32 word) = int m"
    using m by (simp add: signed_of_nat signed_take_bit_int_eq_self)
  ultimately show ?thesis by (simp add: c_int_def)
qed

lemma u64_diff_of_nat: "k \<le> n \<Longrightarrow> (word_of_nat n - word_of_nat k :: u64) = word_of_nat (n - k)"
  by (simp add: of_nat_diff)

lemma u64_of_nat_eq:
  "n < 2 ^ 31 \<Longrightarrow> k \<le> n \<Longrightarrow> (word_of_nat k :: u64) = word_of_nat n \<longleftrightarrow> k = n"
  by (auto simp: word_of_nat_eq_iff take_bit_nat_eq_self)

text \<open>
  From here on the buffer is the list implementation; the simulation lemmas above carry the
  results over to every library that meets the specification.  Ghost value: what an empty
  write returns, the number of bytes asked for and the state in which the read began.
  \<open>rx_state k s0\<close>: exactly \<open>k\<close> bytes have arrived and nothing else has changed.
\<close>

type_synonym 'z rx_ghost = "int \<times> nat \<times> (bytes, 'z) chan_scheme"

definition rx_state :: "nat \<Rightarrow> (bytes, 'z) chan_scheme \<Rightarrow> (bytes, 'z) chan_scheme" where
  "rx_state k s = s\<lparr>ch_buf := ch_buf s @ take k (ch_inp s), ch_inp := drop k (ch_inp s)\<rparr>"

definition rx_aw :: "nat \<Rightarrow> nat \<Rightarrow> buf_read_awaiter" where
  "rx_aw n k = \<lparr>ra_limit = word_of_nat n, ra_bytes_read = word_of_nat k, ra_err = False, ra_eof = False\<rparr>"

fun rx_inv :: "'z rx_ghost \<Rightarrow> buf_read_awaiter \<Rightarrow> (bytes, 'z) chan_scheme \<Rightarrow> bool" where
  "rx_inv (z, n, s0) aw s \<longleftrightarrow> n < 2 ^ 31 \<and> n \<le> length (ch_inp s0) \<and>
     (\<exists>k < n. aw = rx_aw n k \<and> s = rx_state k s0)"

fun rx_post :: "'z rx_ghost \<Rightarrow> buf_read_awaiter \<Rightarrow> (bytes, 'z) chan_scheme \<Rightarrow> bool" where
  "rx_post (z, n, s0) aw s \<longleftrightarrow> aw = rx_aw n n \<and> s = rx_state n s0"

definition rx_todo :: "'z rx_ghost \<Rightarrow> buf_read_awaiter \<Rightarrow> (bytes, 'z) chan_scheme \<Rightarrow> nat" where
  "rx_todo g aw s = unat (ra_limit aw - ra_bytes_read aw)"

lemma rx_todo_at: "n < 2 ^ 31 \<Longrightarrow> k \<le> n \<Longrightarrow> rx_todo g (rx_aw n k) s = n - k"
proof -
  assume "n < 2 ^ 31" and "k \<le> n"
  then have "unat (word_of_nat (n - k) :: u64) = n - k"
    by (simp add: unat_of_nat del: of_nat_diff)
  with \<open>k \<le> n\<close> show ?thesis by (simp only: rx_todo_def rx_aw_def u64_diff_of_nat buf_read_awaiter.simps)
qed

lemma rx_state_add: "rx_state j (rx_state k s) = rx_state (k + j) s"
  by (simp add: rx_state_def take_add add.commute [of j k])

lemma rx_cb:
  assumes n: "n < 2 ^ 31" and k: "k < n"
    and j: "j = os_xfer i (int (n - k)) (length (ch_inp s0) - k)"
  shows "ReadExactlyAwaiter_on_read_ready (evb_list z) (Os_ok i) (rx_aw n k) (rx_state k s0) =
    (if j = 0 then ((rx_aw n k)\<lparr>ra_eof := True\<rparr>, rx_state k s0, Resume)
     else (rx_aw n (k + j), rx_state (k + j) s0, if k + j < n then Rearm else Resume))"
proof -
  have h: "c_int (ra_limit (rx_aw n k) - ra_bytes_read (rx_aw n k)) = int (n - k)"
    using k n by (simp only: rx_aw_def u64_diff_of_nat c_int_of_nat buf_read_awaiter.simps less_imp_le)
  have inp: "length (ch_inp (rx_state k s0)) = length (ch_inp s0) - k"
    by (simp add: rx_state_def)
  have upd: "(rx_state k s0)\<lparr>ch_buf := ch_buf (rx_state k s0) @ take j (ch_inp (rx_state k s0)),
      ch_inp := drop j (ch_inp (rx_state k s0))\<rparr> = rx_state (k + j) s0"
    by (simp add: rx_state_add flip: rx_state_def)
  have aw: "(rx_aw n k)\<lparr>ra_bytes_read := ra_bytes_read (rx_aw n k) + word_of_nat j\<rparr> = rx_aw n (k + j)"
    by (simp add: rx_aw_def)
  have le: "k + j \<le> n" using os_xfer_howmuch [of "int (n - k)" i "length (ch_inp s0) - k"] k j by simp
  then have "ra_bytes_read (rx_aw n (k + j)) = ra_limit (rx_aw n (k + j)) \<longleftrightarrow> k + j = n"
    using n by (simp add: rx_aw_def u64_of_nat_eq del: of_nat_add)
  with le upd aw show ?thesis
    unfolding ReadExactlyAwaiter_on_read_ready_def h evb_list_simps inp j [symmetric] Let_def by auto
qed

lemma rx_step:
  assumes n: "n < 2 ^ 31" "n \<le> length (ch_inp s0)" and k: "k < n" and i: "i \<noteq> Os_fail"
  obtains k' where "k < k'" and "k' \<le> n"
    and "ReadExactlyAwaiter_on_read_ready (evb_list z) i (rx_aw n k) (rx_state k s0) =
      (rx_aw n k', rx_state k' s0, if k' < n then Rearm else Resume)"
proof (cases i)
  case (Os_ok i')
  define j where "j = os_xfer i' (int (n - k)) (length (ch_inp s0) - k)"
  have j: "0 < j" "k + j \<le> n"
    using os_xfer_pos [of "int (n - k)" "length (ch_inp s0) - k" i'] k n
      os_xfer_howmuch [of "int (n - k)" i' "length (ch_inp s0) - k"]
    by (auto simp: j_def)
  with rx_cb [OF n(1) k j_def] show ?thesis by (intro that [of "k + j"]) (simp_all add: Os_ok)
qed (use i in simp)

interpretation rxloop: retry_loop
  "\<lambda>(z, n, s0). ReadExactlyAwaiter_on_read_ready (evb_list z)" rx_inv "\<lambda>i. i \<noteq> Os_fail"
  rx_todo rx_post
proof (rule retry_loop_intro)
  fix g :: "'a rx_ghost" and aw s i assume inv: "rx_inv g aw s" and i: "i \<noteq> Os_fail"
  obtain z n s0 where g: "g = (z, n, s0)" by (cases g)
  with inv obtain k where n: "n < 2 ^ 31" "n \<le> length (ch_inp s0)" and k: "k < n"
    and aw: "aw = rx_aw n k" and s: "s = rx_state k s0" by auto
  from rx_step [OF n k i, of z] obtain k' where k': "k < k'" "k' \<le> n"
    and cb: "ReadExactlyAwaiter_on_read_ready (evb_list z) i (rx_aw n k) (rx_state k s0) =
      (rx_aw n k', rx_state k' s0, if k' < n then Rearm else Resume)" .
  show "\<exists>aw' s' w. (case g of (z, n, s0) \<Rightarrow> ReadExactlyAwaiter_on_read_ready (evb_list z)) i aw s =
      (aw', s', w) \<and> (w = Rearm \<and> rx_inv g aw' s' \<and> rx_todo g aw' s' < rx_todo g aw s \<or>
        w = Resume \<and> rx_post g aw' s')"
    using k' k n by (cases "k' < n") (auto simp: g cb aw s rx_todo_at)
next
  fix g :: "'a rx_ghost" and aw s assume "rx_inv g aw s"
  then show "0 < rx_todo g aw s" by (cases g) (auto simp: rx_todo_at)
qed

text \<open>
  A connection is live for \<open>w\<close> more bytes of output when none of the events to come fails and
  there are as many of them as bytes to transfer.
\<close>

definition live :: "nat \<Rightarrow> ('b, 'z) chan_scheme \<Rightarrow> bool" where
  "live w s \<longleftrightarrow> Os_fail \<notin> set (ch_sched s) \<and> length (ch_inp s) + w \<le> length (ch_sched s)"

lemma await_read_exactly_list:
  assumes n: "n < 2 ^ 31" "n \<le> length (ch_inp s)" and live: "live w s"
  obtains k where "await_read_exactly (evb_list z) (BufReadAwaiter_new (int n)) s =
      (Ret (), (rx_state n s)\<lparr>ch_sched := drop k (ch_sched s)\<rparr>)" and "k \<le> n"
proof (cases "n = 0")
  case True
  then show ?thesis
    by (intro that [of 0])
      (simp_all add: await_read_exactly_def BufReadAwaiter_await_ready_def BufReadAwaiter_new_def
        ReadExactlyAwaiter_await_resume_def rx_state_def)
next
  case False
  let ?g = "(z, n, s)"
  have new: "BufReadAwaiter_new (int n) = rx_aw n 0" by (simp add: BufReadAwaiter_new_def rx_aw_def)
  have inv: "rx_inv ?g (rx_aw n 0) s"
    using n False by (auto simp: rx_state_def intro!: exI [of _ 0])
  have todo: "rx_todo ?g (rx_aw n 0) s = n" using n rx_todo_at [of n 0] by simp
  have "\<forall>i \<in> set (ch_sched s). i \<noteq> Os_fail" and "rx_todo ?g (rx_aw n 0) s \<le> length (ch_sched s)"
    using live n todo by (auto simp: live_def)
  from rxloop.drive_total [OF inv this, of ReadExactlyAwaiter_await_resume]
  obtain k where d: "drive (ReadExactlyAwaiter_on_read_ready (evb_list z))
      ReadExactlyAwaiter_await_resume (ch_sched s) (rx_aw n 0) s =
      (Ret (), rx_aw n n, rx_state n s, drop k (ch_sched s))" and k: "k \<le> n"
    using todo by (auto simp: ReadExactlyAwaiter_await_resume_def rx_aw_def)
  have "\<not> BufReadAwaiter_await_ready (rx_aw n 0)"
    using False n u64_of_nat_eq [of n 0] by (simp add: BufReadAwaiter_await_ready_def rx_aw_def)
  with d k show ?thesis by (intro that [of k]) (simp_all add: new await_read_exactly_def await_chan_def)
qed

lemma live_rx_state:
  "live w s \<Longrightarrow> k \<le> n \<Longrightarrow> n \<le> length (ch_inp s) \<Longrightarrow>
     live w ((rx_state n s)\<lparr>ch_sched := drop k (ch_sched s)\<rparr>)"
  by (auto simp: live_def rx_state_def dest: in_set_dropD)

text \<open>
  \<open>read_to\<close> on the list implementation: the state in which it ends, up to the number of events
  it used.
\<close>

lemma Buffer_read_to_list:
  assumes "n < 2 ^ 31" and "n \<le> length (ch_buf s) + length (ch_inp s)" and "live w s"
  obtains k where "k \<le> n - length (ch_buf s)"
    and "Buffer_read_to (evb_list z) n s =
      (Ret (), (rx_state (n - length (ch_buf s)) s)\<lparr>ch_sched := drop k (ch_sched s)\<rparr>)"
proof -
  let ?m = "n - length (ch_buf s)"
  have "on_buf (Buffer_get_length (evb_list z)) s = (Ret (length (ch_buf s)), s)"
    by (simp add: on_buf_def)
  then have "Buffer_read_to (evb_list z) n s =
      await_read_exactly (evb_list z) (BufReadAwaiter_new (int ?m)) s"
    by (simp add: Buffer_read_to_def bindA_def)
  moreover obtain k where "await_read_exactly (evb_list z) (BufReadAwaiter_new (int ?m)) s =
      (Ret (), (rx_state ?m s)\<lparr>ch_sched := drop k (ch_sched s)\<rparr>)" "k \<le> ?m"
    using assms(1,2) by (auto intro: await_read_exactly_list [OF _ _ assms(3), of ?m z])
  ultimately show ?thesis using that by simp
qed

section \<open>Writing everything\<close>

text \<open>
  \<open>co_await buf.write(fd)\<close> on a nonempty buffer.  \<open>tx_state k s0\<close>: \<open>k\<close> bytes of the buffer have
  been sent.  The limit is -1 before the first event and the length the buffer had then after it.
\<close>

definition tx_state :: "nat \<Rightarrow> (bytes, 'z) chan_scheme \<Rightarrow> (bytes, 'z) chan_scheme" where
  "tx_state k s = s\<lparr>ch_buf := drop k (ch_buf s), ch_out := ch_out s @ take k (ch_buf s)\<rparr>"

definition tx_aw :: "int \<Rightarrow> nat \<Rightarrow> buf_write_awaiter" where
  "tx_aw l k = \<lparr>wa_limit = l, wa_bytes_written = word_of_nat k, wa_err = False\<rparr>"

type_synonym 'z tx_ghost = "int \<times> (bytes, 'z) chan_scheme"

fun tx_inv :: "'z tx_ghost \<Rightarrow> buf_write_awaiter \<Rightarrow> (bytes, 'z) chan_scheme \<Rightarrow> bool" where
  "tx_inv (z, s0) aw s \<longleftrightarrow> length (ch_buf s0) < 2 ^ 63 \<and>
     (\<exists>l k. k < length (ch_buf s0) \<and> (l = int (length (ch_buf s0)) \<or> l = -1 \<and> k = 0) \<and>
        aw = tx_aw l k \<and> s = tx_state k s0)"

fun tx_post :: "'z tx_ghost \<Rightarrow> buf_write_awaiter \<Rightarrow> (bytes, 'z) chan_scheme \<Rightarrow> bool" where
  "tx_post (z, s0) aw s \<longleftrightarrow> \<not> wa_err aw \<and> s = tx_state (length (ch_buf s0)) s0"

definition tx_todo :: "'z tx_ghost \<Rightarrow> buf_write_awaiter \<Rightarrow> (bytes, 'z) chan_scheme \<Rightarrow> nat" where
  "tx_todo g aw s = length (ch_buf s)"

lemma tx_state_add: "tx_state j (tx_state k s) = tx_state (k + j) s"
  by (simp add: tx_state_def take_add add.commute [of j k])

lemma sint_u64_of_nat: "n < 2 ^ 63 \<Longrightarrow> sint (word_of_nat n :: u64) = int n"
  by (simp add: signed_of_nat signed_take_bit_int_eq_self)

lemma tx_cb:
  assumes l: "0 \<le> l" and d: "d = os_xfer i l (length (ch_buf s0) - k)" "0 < d" "k + d < 2 ^ 63"
  shows "BufWriteAwaiter_on_write_ready (evb_list z) (Os_ok i) (tx_aw l k) (tx_state k s0) =
    (tx_aw l (k + d), tx_state (k + d) s0, if int (k + d) = l then Resume else Rearm)"
proof -
  have len: "length (ch_buf (tx_state k s0)) = length (ch_buf s0) - k" by (simp add: tx_state_def)
  have lim: "wa_limit (tx_aw l m) = l" for m by (simp add: tx_aw_def)
  have upd: "(tx_state k s0)\<lparr>ch_buf := drop d (ch_buf (tx_state k s0)),
      ch_out := ch_out (tx_state k s0) @ take d (ch_buf (tx_state k s0))\<rparr> = tx_state (k + d) s0"
    by (simp add: tx_state_add flip: tx_state_def)
  have aw: "(tx_aw l k)\<lparr>wa_bytes_written := wa_bytes_written (tx_aw l k) + word_of_nat d\<rparr> =
      tx_aw l (k + d)" by (simp add: tx_aw_def)
  have sent: "sint (wa_bytes_written (tx_aw l k) + word_of_nat d) = int k + int d"
    using sint_u64_of_nat [OF d(3)] by (simp add: tx_aw_def)
  show ?thesis
    unfolding BufWriteAwaiter_on_write_ready_def evb_list_simps lim Let_def
    using l d(2) by (simp add: len lim flip: d(1)) (auto simp only: aw upd sent)
qed

lemma tx_first:
  "BufWriteAwaiter_on_write_ready (evb_list z) i (tx_aw (-1) 0) s =
     BufWriteAwaiter_on_write_ready (evb_list z) i (tx_aw (int (length (ch_buf s))) 0) s"
  by (simp add: BufWriteAwaiter_on_write_ready_def tx_aw_def)

lemma tx_step:
  fixes i :: nat
  assumes L: "L = length (ch_buf s0)" "L < 2 ^ 63" and k: "k < L" and l: "l = int L \<or> l = -1 \<and> k = 0"
  defines "j \<equiv> os_xfer i (int L) (L - k)"
  shows "0 < j" and "k + j \<le> L"
    and "BufWriteAwaiter_on_write_ready (evb_list z) (Os_ok i) (tx_aw l k) (tx_state k s0) =
      (tx_aw (int L) (k + j), tx_state (k + j) s0, if k + j < L then Rearm else Resume)"
proof -
  show j: "0 < j" "k + j \<le> L"
    using os_xfer_pos [of "int L" "L - k" i] k os_xfer_le [of i "int L" "L - k"] by (auto simp: j_def)
  have lim: "BufWriteAwaiter_on_write_ready (evb_list z) (Os_ok i) (tx_aw l k) (tx_state k s0) =
      BufWriteAwaiter_on_write_ready (evb_list z) (Os_ok i) (tx_aw (int L) k) (tx_state k s0)"
    using l L(1) tx_first [of z "Os_ok i" "tx_state k s0"] by (auto simp: tx_state_def)
  have "k + j < 2 ^ 63" using j(2) L(2) by simp
  from tx_cb [OF _ j_def [THEN meta_eq_to_obj_eq, unfolded L(1)] j(1) this, of z] lim j L(1)
  show "BufWriteAwaiter_on_write_ready (evb_list z) (Os_ok i) (tx_aw l k) (tx_state k s0) =
      (tx_aw (int L) (k + j), tx_state (k + j) s0, if k + j < L then Rearm else Resume)"
    by (auto simp del: of_nat_add)
qed

interpretation txloop: retry_loop
  "\<lambda>(z, s0). BufWriteAwaiter_on_write_ready (evb_list z)" tx_inv "\<lambda>i. i \<noteq> Os_fail" tx_todo tx_post
proof (rule retry_loop_intro)
  fix g :: "'a tx_ghost" and aw s i assume inv: "tx_inv g aw s" and "i \<noteq> Os_fail"
  then obtain i' where i: "i = Os_ok i'" by (cases i) auto
  obtain z s0 where g: "g = (z, s0)" by (cases g)
  define L where L: "L = length (ch_buf s0)"
  from inv g L obtain l k where L2: "L < 2 ^ 63" and k: "k < L" and l: "l = int L \<or> l = -1 \<and> k = 0"
    and aw: "aw = tx_aw l k" and s: "s = tx_state k s0" by auto
  define k' where "k' = k + os_xfer i' (int L) (L - k)"
  note step = tx_step [OF L L2 k l, where i = i', folded k'_def]
  have lt: "length (ch_buf (tx_state k' s0)) < length (ch_buf (tx_state k s0))"
    using step(1) k by (simp add: tx_state_def k'_def flip: L)
  show "\<exists>aw' s' w. (case g of (z, s0) \<Rightarrow> BufWriteAwaiter_on_write_ready (evb_list z)) i aw s =
      (aw', s', w) \<and> (w = Rearm \<and> tx_inv g aw' s' \<and> tx_todo g aw' s' < tx_todo g aw s \<or>
        w = Resume \<and> tx_post g aw' s')"
  proof (cases "k' < L")
    case True
    with L2 have "tx_inv (z, s0) (tx_aw (int L) k') (tx_state k' s0)" by (auto simp: L)
    with True lt show ?thesis by (simp add: g i aw s step(3) tx_todo_def del: tx_inv.simps)
  next
    case False
    with step(2) have "k' = L" by simp
    then show ?thesis by (simp add: g i aw s step(3)) (simp add: L tx_aw_def)
  qed
next
  fix g :: "'a tx_ghost" and aw s assume "tx_inv g aw s"
  then show "0 < tx_todo g aw s" by (cases g) (auto simp: tx_todo_def tx_state_def)
qed

lemma Buffer_write_list:
  assumes L: "ch_buf s \<noteq> []" "length (ch_buf s) < 2 ^ 63" and live: "live (length (ch_buf s) + w) s"
  obtains k where "k \<le> length (ch_buf s)" and "Buffer_write (evb_list z) (-1) s =
    (Ret (), s\<lparr>ch_buf := [], ch_out := ch_out s @ ch_buf s, ch_sched := drop k (ch_sched s)\<rparr>)"
proof -
  let ?g = "(z, s)" and ?aw = "BufWriteAwaiter_new (-1)"
  have "?aw = tx_aw (-1) 0" by (simp add: BufWriteAwaiter_new_def tx_aw_def)
  with L have inv: "tx_inv ?g ?aw s" by (simp add: tx_state_def, intro exI [of _ "-1"] exI [of _ 0]) simp
  have "\<forall>i \<in> set (ch_sched s). i \<noteq> Os_fail" and "tx_todo ?g ?aw s \<le> length (ch_sched s)"
    using live by (auto simp: live_def tx_todo_def)
  from txloop.drive_total [OF inv this, of BufWriteAwaiter_await_resume]
  obtain aw' k where "drive (BufWriteAwaiter_on_write_ready (evb_list z))
      BufWriteAwaiter_await_resume (ch_sched s) ?aw s =
      (Ret (), aw', tx_state (length (ch_buf s)) s, drop k (ch_sched s))" "k \<le> length (ch_buf s)"
    by (auto simp: BufWriteAwaiter_await_resume_def tx_todo_def)
  then show ?thesis
    by (intro that [of k]) (simp_all add: Buffer_write_def await_chan_def tx_state_def)
qed

lemma live_write:
  "live (length (ch_buf s) + w) s \<Longrightarrow> k \<le> length (ch_buf s) \<Longrightarrow>
     live w (s\<lparr>ch_buf := [], ch_out := o', ch_sched := drop k (ch_sched s)\<rparr>)"
  by (auto simp: live_def dest: in_set_dropD)

section \<open>Runs over a connection\<close>

text \<open>
  The state of a connection, with enough events to come for \<open>w\<close> bytes of output and all of the
  input.  The rules below run the operations of this theory from one such state to the next.
\<close>

definition chan_at :: "bytes \<Rightarrow> bytes \<Rightarrow> bytes \<Rightarrow> nat \<Rightarrow> 'z \<Rightarrow> (bytes, 'z) chan_scheme \<Rightarrow> bool" where
  "chan_at b inp out w x s \<longleftrightarrow>
     ch_buf s = b \<and> ch_inp s = inp \<and> ch_out s = out \<and> chan.more s = x \<and> live w s"

lemma reaches_on_buf:
  "chan_at b inp out w x s \<Longrightarrow> m b = (Ret r, b') \<Longrightarrow> reaches (on_buf m) s r (chan_at b' inp out w x)"
  by (auto simp: reaches_def chan_at_def on_buf_def live_def)

lemma reaches_read_to:
  assumes "chan_at b (d @ inp) out w x s" and "length d = n - length b" and "n < 2 ^ 31"
  shows "reaches (Buffer_read_to (evb_list z) n) s () (chan_at (b @ d) inp out w x)"
proof -
  have "n \<le> length (ch_buf s) + length (ch_inp s)" "live w s" using assms by (auto simp: chan_at_def)
  from Buffer_read_to_list [OF assms(3) this, of z] obtain k where k: "k \<le> n - length (ch_buf s)"
    and run: "Buffer_read_to (evb_list z) n s =
      (Ret (), (rx_state (n - length (ch_buf s)) s)\<lparr>ch_sched := drop k (ch_sched s)\<rparr>)" .
  have "live w ((rx_state (n - length (ch_buf s)) s)\<lparr>ch_sched := drop k (ch_sched s)\<rparr>)"
    using assms k by (intro live_rx_state) (auto simp: chan_at_def)
  with run assms show ?thesis by (auto simp: reaches_def chan_at_def rx_state_def)
qed

lemma reaches_write:
  assumes "chan_at b inp out (length b + w) x s" and "b \<noteq> []" and "length b < 2 ^ 63"
  shows "reaches (Buffer_write (evb_list z) (-1)) s () (chan_at [] inp (out @ b) w x)"
proof -
  have s: "ch_buf s = b" "live (length (ch_buf s) + w) s" using assms by (auto simp: chan_at_def)
  obtain k where k: "k \<le> length (ch_buf s)" and run: "Buffer_write (evb_list z) (-1) s =
      (Ret (), s\<lparr>ch_buf := [], ch_out := ch_out s @ ch_buf s, ch_sched := drop k (ch_sched s)\<rparr>)"
    by (rule Buffer_write_list [OF _ _ s(2), of z]) (use assms s in auto)
  from run assms(1) live_write [OF s(2) k, of "ch_out s @ ch_buf s"] show ?thesis
    by (auto simp: reaches_def chan_at_def)
qed

text \<open>The same for a coroutine with a local buffer.\<close>

definition pair_at :: "bytes \<Rightarrow> bytes \<Rightarrow> bytes \<Rightarrow> bytes \<Rightarrow> nat \<Rightarrow> 'z \<Rightarrow> bytes \<times> (bytes, 'z) chan_scheme \<Rightarrow> bool" where
  "pair_at l b inp out w x p \<longleftrightarrow> fst p = l \<and> chan_at b inp out w x (snd p)"

lemma reaches_local:
  "pair_at l b inp out w x p \<Longrightarrow> m l = (Ret r, l') \<Longrightarrow> reaches (on_local m) p r (pair_at l' b inp out w x)"
  by (cases p) (simp add: reaches_def pair_at_def on_local_def)

lemma reaches_both:
  "pair_at l b inp out w x p \<Longrightarrow> m (l, b) = (Ret r, l', b') \<Longrightarrow>
     reaches (on_both m) p r (pair_at l' b' inp out w x)"
  by (cases p) (auto simp: reaches_def pair_at_def on_both_def chan_at_def live_def)

lemma reaches_on_chan:
  "pair_at l b inp out w x p \<Longrightarrow> reaches m (snd p) r (chan_at b' inp' out' w' x') \<Longrightarrow>
     reaches (on_chan m) p r (pair_at l b' inp' out' w' x')"
  by (cases p) (auto simp: reaches_def pair_at_def on_chan_def)

lemma reaches_local_chan:
  assumes "pair_at l b inp out w x p"
    and "\<And>s. chan_at l inp out w x s \<Longrightarrow> reaches m s r (chan_at l' inp' out' w' x')"
  shows "reaches (local_chan m) p r (pair_at l' b inp' out' w' x')"
proof -
  obtain s where p: "p = (l, s)" "chan_at b inp out w x s" using assms(1) by (cases p) (auto simp: pair_at_def)
  then have "chan_at l inp out w x (s\<lparr>ch_buf := l\<rparr>)" by (auto simp: chan_at_def live_def)
  from assms(2) [OF this] p show ?thesis
    by (auto simp: reaches_def local_chan_def pair_at_def chan_at_def live_def)
qed

lemma reaches_with_local:
  "chan_at b inp out w x s \<Longrightarrow> (\<And>p. pair_at [] b inp out w x p \<Longrightarrow> reaches m p r (pair_at l b' inp' out' w' x')) \<Longrightarrow>
     reaches (with_local (evb_list z) m) s r (chan_at b' inp' out' w' x')"
  by (fastforce simp: reaches_def with_local_def pair_at_def)

section \<open>End of stream\<close>

text \<open>
  The same callback when the peer closes before the bytes asked for have been sent: the read
  that returns 0 ends the wait.
\<close>

fun eof_inv :: "'z rx_ghost \<Rightarrow> buf_read_awaiter \<Rightarrow> (bytes, 'z) chan_scheme \<Rightarrow> bool" where
  "eof_inv (z, n, s0) aw s \<longleftrightarrow> n < 2 ^ 31 \<and> length (ch_inp s0) < n \<and>
     (\<exists>k \<le> length (ch_inp s0). aw = rx_aw n k \<and> s = rx_state k s0)"

fun eof_post :: "'z rx_ghost \<Rightarrow> buf_read_awaiter \<Rightarrow> (bytes, 'z) chan_scheme \<Rightarrow> bool" where
  "eof_post (z, n, s0) aw s \<longleftrightarrow> \<not> ra_err aw \<and> ra_eof aw \<and> s = rx_state (length (ch_inp s0)) s0"

definition eof_todo :: "'z rx_ghost \<Rightarrow> buf_read_awaiter \<Rightarrow> (bytes, 'z) chan_scheme \<Rightarrow> nat" where
  "eof_todo g aw s = Suc (length (ch_inp s))"

interpretation eofloop: retry_loop
  "\<lambda>(z, n, s0). ReadExactlyAwaiter_on_read_ready (evb_list z)" eof_inv "\<lambda>i. i \<noteq> Os_fail"
  eof_todo eof_post
proof (rule retry_loop_intro)
  fix g :: "'a rx_ghost" and aw s i assume inv: "eof_inv g aw s" and "i \<noteq> Os_fail"
  then obtain i' where i: "i = Os_ok i'" by (cases i) auto
  obtain z n s0 where g: "g = (z, n, s0)" by (cases g)
  with inv obtain k where n: "n < 2 ^ 31" "length (ch_inp s0) < n" and k: "k \<le> length (ch_inp s0)"
    and aw: "aw = rx_aw n k" and s: "s = rx_state k s0" by auto
  define j where "j = os_xfer i' (int (n - k)) (length (ch_inp s0) - k)"
  have j: "k + j \<le> length (ch_inp s0)"
    using os_xfer_le [of i' "int (n - k)" "length (ch_inp s0) - k"] k by (simp add: j_def)
  have "k < n" and "k + j < n" using n k j by auto
  note step = rx_cb [OF n(1) \<open>k < n\<close> j_def]
  show "\<exists>aw' s' w. (case g of (z, n, s0) \<Rightarrow> ReadExactlyAwaiter_on_read_ready (evb_list z)) i aw s =
      (aw', s', w) \<and> (w = Rearm \<and> eof_inv g aw' s' \<and> eof_todo g aw' s' < eof_todo g aw s \<or>
        w = Resume \<and> eof_post g aw' s')"
  proof (cases "j = 0")
    case True
    then have "k = length (ch_inp s0)"
      using os_xfer_pos [of "int (n - k)" "length (ch_inp s0) - k" i'] n k by (force simp: j_def)
    then have "eof_post g ((rx_aw n k)\<lparr>ra_eof := True\<rparr>) (rx_state k s0)" by (simp add: g rx_aw_def)
    with True show ?thesis by (simp add: g i aw s step del: eof_post.simps)
  next
    case False
    with n j have "eof_inv g (rx_aw n (k + j)) (rx_state (k + j) s0)" by (auto simp: g)
    moreover have "eof_todo g (rx_aw n (k + j)) (rx_state (k + j) s0) < eof_todo g aw s"
      using False j by (simp add: eof_todo_def s rx_state_def)
    ultimately show ?thesis using False \<open>k + j < n\<close> by (simp add: i aw s step g del: eof_inv.simps)
  qed
next
  fix g :: "'a rx_ghost" and aw s assume "eof_inv g aw s"
  then show "0 < eof_todo g aw s" by (simp add: eof_todo_def)
qed

section \<open>Properties\<close>

lemma chan_abs_live [simp]: "live w (chan_abs v s) = live w s"
  by (simp add: live_def)

text \<open>What a run over the list implementation says of the run over the library.\<close>

lemma chan_simE:
  assumes "simA (chan_abs v) m n" and "n (chan_abs v s) = (r, t)"
  obtains s' where "m s = (r, s')" and "v (ch_buf s') = ch_buf t" and "ch_inp s' = ch_inp t"
    and "ch_sched s' = ch_sched t" and "ch_out s' = ch_out t" and "chan.more s' = chan.more t"
proof -
  obtain s' where "m s = (r, s')" "chan_abs v s' = t"
    using assms by (cases "m s") (simp add: simA_eq)
  with that show ?thesis by auto
qed

lemma reaches_chanE:
  assumes "simA (chan_abs v) m n" and "reaches n (chan_abs v s) r (chan_at b inp out w x)"
  obtains s' where "m s = (Ret r, s')" and "v (ch_buf s') = b" and "ch_inp s' = inp" and "ch_out s' = out"
    and "live w s'" and "chan.more s' = x"
proof -
  obtain t where "n (chan_abs v s) = (Ret r, t)" and t: "chan_at b inp out w x t"
    using assms(2) by (auto simp: reaches_def)
  from chan_simE [OF assms(1) this(1)] obtain s' where "m s = (Ret r, s')" "v (ch_buf s') = ch_buf t"
    "ch_inp s' = ch_inp t" "ch_sched s' = ch_sched t" "ch_out s' = ch_out t" "chan.more s' = chan.more t" .
  with t that show ?thesis by (auto simp: chan_at_def live_def)
qed

lemma fails_chanE:
  assumes "simA (chan_abs v) m n" and "fails n (chan_abs v s) e (chan_at b inp out w x)"
  obtains s' where "m s = (Throw e, s')" and "v (ch_buf s') = b" and "ch_inp s' = inp" and "ch_out s' = out"
    and "live w s'" and "chan.more s' = x"
proof -
  obtain t where "n (chan_abs v s) = (Throw e, t)" and t: "chan_at b inp out w x t"
    using assms(2) by (auto simp: fails_def)
  from chan_simE [OF assms(1) this(1)] obtain s' where "m s = (Throw e, s')" "v (ch_buf s') = ch_buf t"
    "ch_inp s' = ch_inp t" "ch_sched s' = ch_sched t" "ch_out s' = ch_out t" "chan.more s' = chan.more t" .
  with t that show ?thesis by (auto simp: chan_at_def live_def)
qed

text \<open>A connection on which the peer has sent five bytes, delivered in fragments.\<close>

definition sample_chan :: "bytes \<Rightarrow> bytes chan" where
  "sample_chan b = \<lparr>ch_buf = b, ch_inp = [1, 2, 3, 4, 5],
     ch_sched = [Os_ok 1, Os_ok 0, Os_ok 9, Os_ok 0, Os_ok 2, Os_ok 0, Os_ok 0, Os_ok 3], ch_out = [7]\<rparr>"

text \<open>C1: \<open>read_to(fd, n)\<close> appends to the buffer exactly the missing bytes of the peer's
  stream, in order and no more, however the stream is cut into reads, and it does resume, using
  no more events than bytes it waited for.  Nothing is read when the buffer is long enough.\<close>

theorem Buffer_read_to_exact:
  assumes "evbuffer_spec E v" and "n < 2 ^ 31"
    and "n \<le> length (v (ch_buf s)) + length (ch_inp s)"
    and "Os_fail \<notin> set (ch_sched s)" and "length (ch_inp s) \<le> length (ch_sched s)"
  shows "\<exists>s' k. Buffer_read_to E n s = (Ret (), s') \<and>
    (let m = n - length (v (ch_buf s)) in
     v (ch_buf s') = v (ch_buf s) @ take m (ch_inp s) \<and> ch_inp s' = drop m (ch_inp s) \<and>
     ch_out s' = ch_out s \<and> ch_sched s' = drop k (ch_sched s) \<and> k \<le> m)"
proof -
  have "live 0 (chan_abs v s)" using assms(4,5) by (simp add: live_def)
  from Buffer_read_to_list [OF assms(2) _ this] assms(3)
  obtain k where k: "k \<le> n - length (v (ch_buf s))" and ref: "Buffer_read_to (evb_ref E) n (chan_abs v s) =
      (Ret (), (rx_state (n - length (v (ch_buf s))) (chan_abs v s))\<lparr>ch_sched := drop k (ch_sched s)\<rparr>)"
    by (auto simp: evb_ref_def)
  from chan_simE [OF Buffer_read_to_sim(1) [OF assms(1)] ref] k show ?thesis
    by (simp add: rx_state_def Let_def) metis
qed

theorem Buffer_read_to_exact_witness:
  "\<exists>s' k. Buffer_read_to (evb_list 0) 4 (sample_chan [9]) = (Ret (), s') \<and>
    ch_buf s' = [9, 1, 2, 3] \<and> ch_inp s' = [4, 5] \<and> ch_out s' = [7] \<and>
    ch_sched s' = drop k (ch_sched (sample_chan [9])) \<and> k \<le> 3"
  using Buffer_read_to_exact [of "evb_list 0" id 4 "sample_chan [9]"] evb_list_spec [of 0]
  by (simp add: sample_chan_def Let_def)

text \<open>C36: when the peer closes the connection before \<open>n\<close> bytes have arrived, \<open>read_to(fd, n)\<close>
  throws "end of stream"; the bytes that did arrive are in the buffer.\<close>

theorem Buffer_read_to_eof:
  assumes "evbuffer_spec E v" and "n < 2 ^ 31"
    and "length (v (ch_buf s)) + length (ch_inp s) < n"
    and "Os_fail \<notin> set (ch_sched s)" and "length (ch_inp s) < length (ch_sched s)"
  shows "\<exists>s'. Buffer_read_to E n s = (Throw (Runtime_error ''end of stream''), s') \<and>
    v (ch_buf s') = v (ch_buf s) @ ch_inp s \<and> ch_inp s' = []"
proof -
  let ?s = "chan_abs v s" and ?m = "n - length (v (ch_buf s))"
  let ?g = "(evbuffer_write_none E, ?m, ?s)"
  have m: "?m < 2 ^ 31" "length (ch_inp ?s) < ?m" using assms(2,3) by auto
  then have inv: "eof_inv ?g (rx_aw ?m 0) ?s"
    by (auto simp: rx_state_def intro!: exI [of _ 0])
  have "\<forall>i \<in> set (ch_sched s). i \<noteq> Os_fail" "eof_todo ?g (rx_aw ?m 0) ?s \<le> length (ch_sched s)"
    using assms(4,5) by (auto simp: eof_todo_def)
  from eofloop.drive_total [OF inv this, of ReadExactlyAwaiter_await_resume]
  obtain aw' k where d: "drive (ReadExactlyAwaiter_on_read_ready (evb_ref E))
      ReadExactlyAwaiter_await_resume (ch_sched s) (rx_aw ?m 0) ?s =
      (Throw (Runtime_error ''end of stream''), aw', rx_state (length (ch_inp ?s)) ?s, drop k (ch_sched s))"
    by (auto simp: ReadExactlyAwaiter_await_resume_def evb_ref_def)
  have "\<not> BufReadAwaiter_await_ready (rx_aw ?m 0)"
    using m u64_of_nat_eq [of ?m 0] by (simp add: BufReadAwaiter_await_ready_def rx_aw_def)
  moreover have "BufReadAwaiter_new (int ?m) = rx_aw ?m 0"
    by (simp add: BufReadAwaiter_new_def rx_aw_def)
  moreover have "on_buf (Buffer_get_length (evb_ref E)) ?s = (Ret (length (v (ch_buf s))), ?s)"
    by (simp add: on_buf_def evb_ref_def)
  ultimately have ref: "Buffer_read_to (evb_ref E) n ?s = (Throw (Runtime_error ''end of stream''),
      (rx_state (length (ch_inp ?s)) ?s)\<lparr>ch_sched := drop k (ch_sched s)\<rparr>)"
    using m assms(3) d by (simp add: Buffer_read_to_def bindA_def await_read_exactly_def await_chan_def)
  from chan_simE [OF Buffer_read_to_sim(1) [OF assms(1)] ref] show ?thesis
    by (simp add: rx_state_def) metis
qed

theorem Buffer_read_to_eof_witness:
  "\<exists>s'. Buffer_read_to (evb_list 0) 7 (sample_chan [9]) = (Throw (Runtime_error ''end of stream''), s') \<and>
    ch_buf s' = [9, 1, 2, 3, 4, 5] \<and> ch_inp s' = []"
  using Buffer_read_to_eof [of "evb_list 0" id 7 "sample_chan [9]"] evb_list_spec [of 0]
  by (simp add: sample_chan_def)

text \<open>C18: \<open>write(fd)\<close> without a limit on a nonempty buffer puts exactly the buffer's bytes on the
  wire, once and in order, whatever the sizes of the partial writes, leaves the buffer empty, and
  does resume.\<close>

theorem Buffer_write_all:
  assumes "evbuffer_spec E v" and "v (ch_buf s) \<noteq> []" and "length (v (ch_buf s)) < 2 ^ 63"
    and "Os_fail \<notin> set (ch_sched s)"
    and "length (v (ch_buf s)) + length (ch_inp s) \<le> length (ch_sched s)"
  shows "\<exists>s' k. Buffer_write E (-1) s = (Ret (), s') \<and> v (ch_buf s') = [] \<and>
    ch_out s' = ch_out s @ v (ch_buf s) \<and> ch_inp s' = ch_inp s \<and>
    ch_sched s' = drop k (ch_sched s) \<and> k \<le> length (v (ch_buf s))"
proof -
  have "live (length (ch_buf (chan_abs v s)) + 0) (chan_abs v s)"
    using assms(4,5) by (simp add: live_def add.commute)
  from Buffer_write_list [OF _ _ this] assms(2,3)
  obtain k where k: "k \<le> length (v (ch_buf s))" and ref: "Buffer_write (evb_ref E) (-1) (chan_abs v s) =
      (Ret (), (chan_abs v s)\<lparr>ch_buf := [], ch_out := ch_out s @ v (ch_buf s),
         ch_sched := drop k (ch_sched s)\<rparr>)"
    by (auto simp: evb_ref_def)
  from chan_simE [OF Buffer_async_sims(3) [OF assms(1)] ref] k show ?thesis by simp metis
qed

theorem Buffer_write_all_witness:
  "\<exists>s' k. Buffer_write (evb_list 0) (-1) (sample_chan [8, 9]) = (Ret (), s') \<and> ch_buf s' = [] \<and>
    ch_out s' = [7, 8, 9] \<and> ch_inp s' = [1, 2, 3, 4, 5] \<and>
    ch_sched s' = drop k (ch_sched (sample_chan [8, 9])) \<and> k \<le> 2"
  using Buffer_write_all [of "evb_list 0" id "sample_chan [8, 9]"] evb_list_spec [of 0]
  by (simp add: sample_chan_def) (simp add: numeral_2_eq_2)

text \<open>\<open>write(fd, size)\<close> with an explicit size does not stop there: after a partial write the
  callback asks for up to \<open>size\<close> bytes again, so that more than \<open>size\<close> bytes of a longer buffer go
  out, and the coroutine is not resumed.\<close>

theorem Buffer_write_overshoots:
  assumes "evbuffer_spec E v" and "Suc i < L" and "Suc i + L \<le> length (v (ch_buf s))"
    and "L \<le> Suc j" and "L < 2 ^ 62" and "ch_sched s = [Os_ok i, Os_ok j]"
  shows "\<exists>s'. Buffer_write E (int L) s = (Blocked, s') \<and>
    ch_out s' = ch_out s @ take (Suc i + L) (v (ch_buf s))"
proof -
  let ?s = "chan_abs v s" and ?cb = "BufWriteAwaiter_on_write_ready (evb_list (evbuffer_write_none E))"
  have "?cb (Os_ok i) (tx_aw (int L) 0) (tx_state 0 ?s) = (tx_aw (int L) (Suc i), tx_state (Suc i) ?s, Rearm)"
    using tx_cb [of "int L" "Suc i" i ?s 0] assms(2-5) by (simp add: os_xfer_def)
  moreover have "?cb (Os_ok j) (tx_aw (int L) (Suc i)) (tx_state (Suc i) ?s) =
      (tx_aw (int L) (Suc i + L), tx_state (Suc i + L) ?s, Rearm)"
    using tx_cb [of "int L" L j ?s "Suc i"] assms(2-5) by (simp add: os_xfer_def)
  moreover have "BufWriteAwaiter_new (int L) = tx_aw (int L) 0" and "tx_state 0 ?s = ?s"
    by (simp_all add: BufWriteAwaiter_new_def tx_aw_def tx_state_def)
  ultimately have "Buffer_write (evb_ref E) (int L) ?s = (Blocked, (tx_state (Suc i + L) ?s)\<lparr>ch_sched := []\<rparr>)"
    by (simp add: Buffer_write_def await_chan_def assms(6) evb_ref_def)
  from chan_simE [OF Buffer_async_sims(3) [OF assms(1)] this] show ?thesis
    by (simp add: tx_state_def) metis
qed

theorem Buffer_write_overshoots_witness:
  "\<exists>s'. Buffer_write (evb_list 0) 3 \<lparr>ch_buf = [1, 2, 3, 4, 5, 6], ch_inp = [], ch_sched = [Os_ok 0, Os_ok 2],
      ch_out = []\<rparr> = (Blocked, s') \<and> ch_out s' = [1, 2, 3, 4]"
  using Buffer_write_overshoots [of "evb_list 0" id 0 3 "\<lparr>ch_buf = [1, 2, 3, 4, 5, 6], ch_inp = [],
    ch_sched = [Os_ok 0, Os_ok 2], ch_out = []\<rparr>" 2] evb_list_spec [of 0]
  by simp

end
