(* ===== verification/Decoders.thy ===== *)
theory Decoders
  imports Prelude
begin

text \<open>
  A contract for code that decodes a byte sequence step by step.  The protocol code reads
  integers and strings both from a Buffer and from a string reader; \<open>decodes\<close> states what one
  such read does, in the same words for both: given a state whose unread bytes start with \<open>xs\<close>,
  it returns \<open>x\<close> and leaves the rest.  Being closed under sequencing, it reduces the
  correctness of a parser to that of its steps.  The locale \<open>le_reader\<close> is the interface the
  length-encoded integers of the MySQL protocol need.
\<close>

section \<open>The contract\<close>

text \<open>
  \<open>v\<close> gives the unread bytes of a state and \<open>k\<close> what reading never changes (the size of the
  string being read, say).
\<close>

definition decodes :: "('s \<Rightarrow> bytes) \<Rightarrow> ('s \<Rightarrow> 'k) \<Rightarrow> ('s, 'a) act \<Rightarrow> bytes \<Rightarrow> 'a \<Rightarrow> bool" where
  "decodes v k m xs x \<longleftrightarrow> (\<forall>s ys. v s = xs @ ys \<longrightarrow>
     (\<exists>s'. m s = (Ret x, s') \<and> v s' = ys \<and> k s' = k s))"

named_theorems decode_intros \<open>decoding contracts of the reading operations\<close>

lemma decodesI:
  "(\<And>s ys. v s = xs @ ys \<Longrightarrow> fst (m s) = Ret x \<and> v (snd (m s)) = ys \<and> k (snd (m s)) = k s) \<Longrightarrow>
     decodes v k m xs x"
  unfolding decodes_def by (metis prod.collapse)

lemma decodesE:
  assumes "decodes v k m xs x" and "v s = xs @ ys"
  obtains s' where "m s = (Ret x, s')" and "v s' = ys" and "k s' = k s"
  using assms unfolding decodes_def by blast

lemma decodes_ret: "decodes v k (retA x) [] x"
  by (simp add: decodes_def)

lemma decodes_bind:
  assumes "decodes v k m xs x" and "decodes v k (f x) ys y"
  shows "decodes v k (bindA m f) (xs @ ys) y"
  unfolding decodes_def
proof (intro allI impI)
  fix s zs assume "v s = (xs @ ys) @ zs"
  then have "v s = xs @ (ys @ zs)" by simp
  from decodesE [OF assms(1) this] obtain s1 where 1: "m s = (Ret x, s1)" "v s1 = ys @ zs" "k s1 = k s" .
  from decodesE [OF assms(2) 1(2)] obtain s2 where "f x s1 = (Ret y, s2)" "v s2 = zs" "k s2 = k s1" .
  with 1 show "\<exists>s'. bindA m f s = (Ret y, s') \<and> v s' = zs \<and> k s' = k s" by (simp add: bindA_Ret)
qed

lemma decodes_seq:
  "decodes v k m xs x \<Longrightarrow> decodes v k n ys y \<Longrightarrow> decodes v k (seqA m n) (xs @ ys) y"
  unfolding seqA_def by (rule decodes_bind)

text \<open>The last step of a parser returns a value and reads nothing.\<close>

lemma decodes_map: "decodes v k m xs x \<Longrightarrow> g x = y \<Longrightarrow> decodes v k (bindA m (\<lambda>x. retA (g x))) xs y"
  using decodes_bind [of v k m xs x "\<lambda>x. retA (g x)" "[]" y] by (simp add: decodes_ret)

text \<open>A step that reads one field, followed by the rest of the parser.\<close>

lemma decodes_step:
  assumes "decodes v k m xs x" and "zs = xs @ ys" and "decodes v k (f x) ys y"
  shows "decodes v k (bindA m f) zs y"
  unfolding assms(2) by (rule decodes_bind [where f = f, OF assms(1,3)])

lemma decodes_collect:
  "(\<And>x. x \<in> set xs \<Longrightarrow> decodes v k (f x) (e x) (g x)) \<Longrightarrow>
     decodes v k (collectA f xs) (concat (map e xs)) (map g xs)"
proof (induction xs)
  case (Cons x xs)
  have 1: "decodes v k (f x) (e x) (g x)" using Cons.prems by simp
  have 2: "decodes v k (bindA (collectA f xs) (\<lambda>ys. retA (g x # ys))) (concat (map e xs)) (g x # map g xs)"
    by (rule decodes_map [OF Cons.IH refl]) (simp add: Cons.prems)
  from decodes_bind [OF 1, of "\<lambda>y. bindA (collectA f xs) (\<lambda>ys. retA (y # ys))", OF 2]
  show ?case by simp
qed (simp add: decodes_ret)

section \<open>Readers of little-endian integers\<close>

text \<open>
  What a length-encoded integer is built from.  The reader \<open>e\<close> is a parameter of the contract
  (the library the operations call), \<open>ok e v k\<close> its documented behaviour.
\<close>

locale le_reader =
  fixes ok :: "'e \<Rightarrow> ('s \<Rightarrow> bytes) \<Rightarrow> ('s \<Rightarrow> 'k) \<Rightarrow> bool"
    and rd8 :: "'e \<Rightarrow> ('s, u8) act"
    and rd16 :: "'e \<Rightarrow> ('s, u16) act"
    and rd24 :: "'e \<Rightarrow> ('s, u32) act"
    and rd64 :: "'e \<Rightarrow> ('s, u64) act"
  assumes rd8: "ok e v k \<Longrightarrow> decodes v k (rd8 e) [x] x"
    and rd16: "ok e v k \<Longrightarrow> decodes v k (rd16 e) (le_bytes 2 (unat y)) y"
    and rd24: "ok e v k \<Longrightarrow> n < 2 ^ 24 \<Longrightarrow> decodes v k (rd24 e) (le_bytes 3 n) (word_of_nat n)"
    and rd64: "ok e v k \<Longrightarrow> decodes v k (rd64 e) (le_bytes 8 (unat z)) z"

text \<open>The encoding of a length-encoded integer, as the protocol documentation gives it.\<close>

definition varint_bytes :: "u64 \<Rightarrow> bytes" where
  "varint_bytes n =
     (if n \<le> 0xFA then [ucast n]
      else if n \<le> 0xFFFF then 0xFC # le_bytes 2 (unat n)
      else if n \<le> 0xFFFFFF then 0xFD # le_bytes 3 (unat n)
      else 0xFE # le_bytes 8 (unat n))"

text \<open>A decoder that switches on the first byte the way both readers of the sources do.\<close>

definition varint_with :: "('s, u8) act \<Rightarrow> ('s, u16) act \<Rightarrow> ('s, u32) act \<Rightarrow> ('s, u64) act
    \<Rightarrow> ('s, u64) act" where
  "varint_with r8 r16 r24 r64 = bindA r8 (\<lambda>v.
     if v < 0xFB then retA (ucast v)
     else if v = 0xFB then throwA (Runtime_error ''length-encoded int is invalid (0xFB)'')
     else if v = 0xFC then bindA r16 (\<lambda>x. retA (ucast x))
     else if v = 0xFD then bindA r24 (\<lambda>x. retA (ucast x))
     else if v = 0xFE then r64
     else if v = 0xFF then throwA (Runtime_error ''length-encoded int is invalid (0xFF)'')
     else retA (ucast v))"

lemma unat_ucast_le:
  fixes n :: u64
  shows "unat n < 2 ^ LENGTH('a::len) \<Longrightarrow> unat (ucast n :: 'a word) = unat n"
  by (simp add: unsigned_ucast_eq unsigned_take_bit_eq take_bit_nat_eq_self)

lemma ucast_ucast_le:
  fixes n :: u64
  assumes "unat n < 2 ^ LENGTH('a::len)" and "LENGTH('a) \<le> 64"
  shows "ucast (ucast n :: 'a word) = n"
proof -
  have "unat (ucast (ucast n :: 'a word) :: u64) = unat (ucast n :: 'a word)"
    using assms(2) by (simp add: unsigned_ucast_eq unsigned_take_bit_eq take_bit_nat_eq_self_iff min_def)
  with unat_ucast_le [OF assms(1)] show ?thesis by (simp add: word_unat_eq_iff)
qed

context le_reader
begin

lemma varint_decodes:
  assumes "ok e v k"
  shows "decodes v k (varint_with (rd8 e) (rd16 e) (rd24 e) (rd64 e)) (varint_bytes n) n"
proof -
  have le: "n \<le> 0xFA \<longleftrightarrow> unat n \<le> 250" "n \<le> 0xFFFF \<longleftrightarrow> unat n \<le> 65535"
    "n \<le> 0xFFFFFF \<longleftrightarrow> unat n \<le> 16777215" by (simp_all add: word_le_nat_alt)
  consider "n \<le> 0xFA" | "\<not> n \<le> 0xFA" "n \<le> 0xFFFF" | "\<not> n \<le> 0xFA" "\<not> n \<le> 0xFFFF" "n \<le> 0xFFFFFF"
    | "\<not> n \<le> 0xFA" "\<not> n \<le> 0xFFFF" "\<not> n \<le> 0xFFFFFF" by blast
  then show ?thesis
  proof cases
    case 1
    then have b: "(ucast n :: u8) < 0xFB" "ucast (ucast n :: u8) = n"
      using unat_ucast_le [of n, where 'a = 8] ucast_ucast_le [of n, where 'a = 8]
      by (auto simp: le word_less_nat_alt)
    have "decodes v k (varint_with (rd8 e) (rd16 e) (rd24 e) (rd64 e)) [ucast n] n"
      unfolding varint_with_def
      by (rule decodes_step [OF rd8 [OF assms, of "ucast n"], where ys = "[]"]) (simp_all add: b decodes_ret)
    with 1 show ?thesis by (simp add: varint_bytes_def)
  next
    case 2
    then have n: "unat (ucast n :: u16) = unat n" "ucast (ucast n :: u16) = n"
      using unat_ucast_le [of n, where 'a = 16] ucast_ucast_le [of n, where 'a = 16] by (auto simp: le)
    have "decodes v k (bindA (rd16 e) (\<lambda>x. retA (ucast x))) (le_bytes 2 (unat n)) n"
      using decodes_map [OF rd16 [OF assms, of "ucast n"], of ucast n] n by simp
    with 2 show ?thesis unfolding varint_with_def varint_bytes_def
      by (auto intro!: decodes_step [OF rd8 [OF assms]])
  next
    case 3
    then have n: "unat n < 2 ^ 24" by (simp add: le)
    have "ucast (word_of_nat (unat n) :: u32) = n"
      using n ucast_ucast_le [of n, where 'a = 32] by simp
    then have "decodes v k (bindA (rd24 e) (\<lambda>x. retA (ucast x))) (le_bytes 3 (unat n)) n"
      using decodes_map [OF rd24 [OF assms n], of ucast n] by simp
    with 3 show ?thesis unfolding varint_with_def varint_bytes_def
      by (auto intro!: decodes_step [OF rd8 [OF assms]])
  next
    case 4
    with rd64 [OF assms, of n] show ?thesis unfolding varint_with_def varint_bytes_def
      by (auto intro!: decodes_step [OF rd8 [OF assms]])
  qed
qed

end

end
