(* ===== verification/String_Reader.thy ===== *)
theory String_Reader
  imports Decoders
begin

text \<open>
  The class StringReader of the phosg library, which the MySQL code reads binary log events
  with.  phosg is not part of the repository: its methods are a record over an opaque reader
  type, passed to every definition that uses them, and \<open>string_reader_spec\<close> states, as a
  hypothesis, what they do as long as the bytes asked for are there.  What they do beyond the
  end of the string is left open.  \<open>sr_list\<close> is a reader that meets the specification.
\<close>

section \<open>The interface\<close>

record 'r string_reader_api =
  sr_open :: "bytes \<Rightarrow> 'r"
  sr_read :: "nat \<Rightarrow> ('r, bytes) act"
  sr_get :: "nat \<Rightarrow> ('r, bytes) act"
  sr_get_u8 :: "('r, u8) act"
  sr_get_u16l :: "('r, u16) act"
  sr_get_u16b :: "('r, u16) act"
  sr_get_u24l :: "('r, u32) act"
  sr_get_u24b :: "('r, u32) act"
  sr_get_u32l :: "('r, u32) act"
  sr_get_u32b :: "('r, u32) act"
  sr_get_u48l :: "('r, u64) act"
  sr_get_u64l :: "('r, u64) act"
  sr_get_f32l :: "('r, u32) act"
  sr_get_f64l :: "('r, u64) act"
  sr_get_cstr :: "('r, bytes) act"
  sr_skip :: "nat \<Rightarrow> ('r, unit) act"
  sr_where :: "'r \<Rightarrow> nat"
  sr_size :: "'r \<Rightarrow> nat"
  sr_eof :: "'r \<Rightarrow> bool"

text \<open>
  \<open>sr_get n\<close> is the member template \<open>get<T>()\<close> for a packed structure of \<open>n\<close> bytes, and returns
  its memory image; the two floating-point getters return the bits of the number.
\<close>

text \<open>A getter of fixed width: it returns a function of the next \<open>n\<close> bytes and moves past them.\<close>

definition sr_takes :: "('r \<Rightarrow> bytes) \<Rightarrow> ('r \<Rightarrow> nat) \<Rightarrow> nat \<Rightarrow> (bytes \<Rightarrow> 'a) \<Rightarrow> ('r, 'a) act \<Rightarrow> bool" where
  "sr_takes v k n f m \<longleftrightarrow> (\<forall>xs. length xs = n \<longrightarrow> decodes v k m xs (f xs))"

text \<open>For a view \<open>v\<close> of a reader as the bytes it has not read yet, and its size \<open>k\<close>.\<close>

definition string_reader_spec :: "'r string_reader_api \<Rightarrow> ('r \<Rightarrow> bytes) \<Rightarrow> ('r \<Rightarrow> nat) \<Rightarrow> bool" where
  "string_reader_spec R v k \<longleftrightarrow>
     (\<forall>d. v (sr_open R d) = d \<and> k (sr_open R d) = length d) \<and>
     (\<forall>n. sr_takes v k n id (sr_read R n)) \<and>
     (\<forall>n. sr_takes v k n id (sr_get R n)) \<and>
     sr_takes v k 1 (\<lambda>d. word_of_nat (le_val d)) (sr_get_u8 R) \<and>
     sr_takes v k 2 (\<lambda>d. word_of_nat (le_val d)) (sr_get_u16l R) \<and>
     sr_takes v k 2 (\<lambda>d. word_of_nat (be_val d)) (sr_get_u16b R) \<and>
     sr_takes v k 3 (\<lambda>d. word_of_nat (le_val d)) (sr_get_u24l R) \<and>
     sr_takes v k 3 (\<lambda>d. word_of_nat (be_val d)) (sr_get_u24b R) \<and>
     sr_takes v k 4 (\<lambda>d. word_of_nat (le_val d)) (sr_get_u32l R) \<and>
     sr_takes v k 4 (\<lambda>d. word_of_nat (be_val d)) (sr_get_u32b R) \<and>
     sr_takes v k 6 (\<lambda>d. word_of_nat (le_val d)) (sr_get_u48l R) \<and>
     sr_takes v k 8 (\<lambda>d. word_of_nat (le_val d)) (sr_get_u64l R) \<and>
     sr_takes v k 4 (\<lambda>d. word_of_nat (le_val d)) (sr_get_f32l R) \<and>
     sr_takes v k 8 (\<lambda>d. word_of_nat (le_val d)) (sr_get_f64l R) \<and>
     (\<forall>xs. 0 \<notin> set xs \<longrightarrow> decodes v k (sr_get_cstr R) (xs @ [0]) xs) \<and>
     (\<forall>n. sr_takes v k n (\<lambda>_. ()) (sr_skip R n)) \<and>
     (\<forall>r. sr_size R r = k r) \<and>
     (\<forall>r. sr_where R r + length (v r) = k r) \<and>
     (\<forall>r. sr_eof R r \<longleftrightarrow> v r = [])"

lemma sr_takesD: "sr_takes v k n f m \<Longrightarrow> length xs = n \<Longrightarrow> f xs = y \<Longrightarrow> decodes v k m xs y"
  by (auto simp: sr_takes_def)

lemma string_reader_laws:
  assumes "string_reader_spec R v k"
  shows "v (sr_open R d) = d" and "k (sr_open R d) = length d"
    and "sr_size R r = k r" and "sr_where R r = k r - length (v r)" and "sr_eof R r \<longleftrightarrow> v r = []"
    and "length (v r) \<le> k r"
proof -
  from assms have w: "sr_where R r + length (v r) = k r" unfolding string_reader_spec_def by blast
  then show "sr_where R r = k r - length (v r)" and "length (v r) \<le> k r" by simp_all
  from assms show "v (sr_open R d) = d" and "k (sr_open R d) = length d"
    and "sr_size R r = k r" and "sr_eof R r \<longleftrightarrow> v r = []"
    unfolding string_reader_spec_def by blast+
qed

lemma sr_decodes [decode_intros]:
  assumes "string_reader_spec R v k"
  shows "length xs = n \<Longrightarrow> decodes v k (sr_read R n) xs xs"
    and "length xs = n \<Longrightarrow> decodes v k (sr_get R n) xs xs"
    and "decodes v k (sr_get_u8 R) [b] b"
    and "decodes v k (sr_get_u16l R) (le_bytes 2 (unat (w16 :: u16))) w16"
    and "decodes v k (sr_get_u16b R) (be_bytes 2 (unat w16)) w16"
    and "decodes v k (sr_get_u32l R) (le_bytes 4 (unat (w32 :: u32))) w32"
    and "decodes v k (sr_get_u32b R) (be_bytes 4 (unat w32)) w32"
    and "decodes v k (sr_get_u64l R) (le_bytes 8 (unat (w64 :: u64))) w64"
    and "decodes v k (sr_get_f32l R) (le_bytes 4 (unat w32)) w32"
    and "decodes v k (sr_get_f64l R) (le_bytes 8 (unat w64)) w64"
    and "0 \<notin> set cs \<Longrightarrow> decodes v k (sr_get_cstr R) (cs @ [0]) cs"
    and "length xs = n \<Longrightarrow> decodes v k (sr_skip R n) xs ()"
proof -
  have "sr_takes v k n id (sr_read R n)" and "sr_takes v k n id (sr_get R n)"
    and u8: "sr_takes v k 1 (\<lambda>d. word_of_nat (le_val d)) (sr_get_u8 R)"
    and "sr_takes v k n (\<lambda>_. ()) (sr_skip R n)"
    using assms unfolding string_reader_spec_def by blast+
  then show "length xs = n \<Longrightarrow> decodes v k (sr_read R n) xs xs"
    and "length xs = n \<Longrightarrow> decodes v k (sr_get R n) xs xs"
    and "length xs = n \<Longrightarrow> decodes v k (sr_skip R n) xs ()"
    by (auto intro: sr_takesD)
  show "decodes v k (sr_get_u8 R) [b] b" by (rule sr_takesD [OF u8]) simp_all
  show "0 \<notin> set cs \<Longrightarrow> decodes v k (sr_get_cstr R) (cs @ [0]) cs"
    using assms unfolding string_reader_spec_def by blast
  have t: "sr_takes v k 2 (\<lambda>d. word_of_nat (le_val d)) (sr_get_u16l R)"
    "sr_takes v k 2 (\<lambda>d. word_of_nat (be_val d)) (sr_get_u16b R)"
    "sr_takes v k 4 (\<lambda>d. word_of_nat (le_val d)) (sr_get_u32l R)"
    "sr_takes v k 4 (\<lambda>d. word_of_nat (be_val d)) (sr_get_u32b R)"
    "sr_takes v k 8 (\<lambda>d. word_of_nat (le_val d)) (sr_get_u64l R)"
    "sr_takes v k 4 (\<lambda>d. word_of_nat (le_val d)) (sr_get_f32l R)"
    "sr_takes v k 8 (\<lambda>d. word_of_nat (le_val d)) (sr_get_f64l R)"
    using assms unfolding string_reader_spec_def by blast+
  show "decodes v k (sr_get_u16l R) (le_bytes 2 (unat w16)) w16"
    and "decodes v k (sr_get_u16b R) (be_bytes 2 (unat w16)) w16"
    and "decodes v k (sr_get_u32l R) (le_bytes 4 (unat w32)) w32"
    and "decodes v k (sr_get_u32b R) (be_bytes 4 (unat w32)) w32"
    and "decodes v k (sr_get_u64l R) (le_bytes 8 (unat w64)) w64"
    and "decodes v k (sr_get_f32l R) (le_bytes 4 (unat w32)) w32"
    and "decodes v k (sr_get_f64l R) (le_bytes 8 (unat w64)) w64"
    by (rule t [THEN sr_takesD]; simp add: word_of_le_bytes word_of_be_bytes)+
qed

text \<open>The three- and six-byte getters return a wider word, and so are stated for numbers.\<close>

lemma sr_decodes_odd [decode_intros]:
  assumes "string_reader_spec R v k"
  shows "n < 2 ^ 24 \<Longrightarrow> decodes v k (sr_get_u24l R) (le_bytes 3 n) (word_of_nat n)"
    and "n < 2 ^ 24 \<Longrightarrow> decodes v k (sr_get_u24b R) (be_bytes 3 n) (word_of_nat n)"
    and "n < 2 ^ 48 \<Longrightarrow> decodes v k (sr_get_u48l R) (le_bytes 6 n) (word_of_nat n)"
proof -
  have t: "sr_takes v k 3 (\<lambda>d. word_of_nat (le_val d)) (sr_get_u24l R)"
    "sr_takes v k 3 (\<lambda>d. word_of_nat (be_val d)) (sr_get_u24b R)"
    "sr_takes v k 6 (\<lambda>d. word_of_nat (le_val d)) (sr_get_u48l R)"
    using assms unfolding string_reader_spec_def by blast+
  show "n < 2 ^ 24 \<Longrightarrow> decodes v k (sr_get_u24l R) (le_bytes 3 n) (word_of_nat n)"
    and "n < 2 ^ 24 \<Longrightarrow> decodes v k (sr_get_u24b R) (be_bytes 3 n) (word_of_nat n)"
    and "n < 2 ^ 48 \<Longrightarrow> decodes v k (sr_get_u48l R) (le_bytes 6 n) (word_of_nat n)"
    by (rule t [THEN sr_takesD]; simp add: le_val_le_bytes be_val_be_bytes)+
qed

section \<open>A list implementation\<close>

definition sr_list_take :: "nat \<Rightarrow> (bytes \<Rightarrow> 'a) \<Rightarrow> (bytes \<times> nat, 'a) act" where
  "sr_list_take n f = (\<lambda>(d, p). if n \<le> length d - p then (Ret (f (take n (drop p d))), (d, p + n))
     else (Throw (Out_of_range ''end of string''), (d, p)))"

definition sr_list_cstr :: "(bytes \<times> nat, bytes) act" where
  "sr_list_cstr = (\<lambda>(d, p). let s = takeWhile (\<lambda>b. b \<noteq> 0) (drop p d) in
     if 0 \<in> set (drop p d) then (Ret s, (d, p + length s + 1))
     else (Throw (Out_of_range ''end of string''), (d, p)))"

definition sr_list :: "(bytes \<times> nat) string_reader_api" where
  "sr_list = \<lparr>
     sr_open = (\<lambda>d. (d, 0)),
     sr_read = (\<lambda>n. sr_list_take n id),
     sr_get = (\<lambda>n. sr_list_take n id),
     sr_get_u8 = sr_list_take 1 (\<lambda>d. word_of_nat (le_val d)),
     sr_get_u16l = sr_list_take 2 (\<lambda>d. word_of_nat (le_val d)),
     sr_get_u16b = sr_list_take 2 (\<lambda>d. word_of_nat (be_val d)),
     sr_get_u24l = sr_list_take 3 (\<lambda>d. word_of_nat (le_val d)),
     sr_get_u24b = sr_list_take 3 (\<lambda>d. word_of_nat (be_val d)),
     sr_get_u32l = sr_list_take 4 (\<lambda>d. word_of_nat (le_val d)),
     sr_get_u32b = sr_list_take 4 (\<lambda>d. word_of_nat (be_val d)),
     sr_get_u48l = sr_list_take 6 (\<lambda>d. word_of_nat (le_val d)),
     sr_get_u64l = sr_list_take 8 (\<lambda>d. word_of_nat (le_val d)),
     sr_get_f32l = sr_list_take 4 (\<lambda>d. word_of_nat (le_val d)),
     sr_get_f64l = sr_list_take 8 (\<lambda>d. word_of_nat (le_val d)),
     sr_get_cstr = sr_list_cstr,
     sr_skip = (\<lambda>n. sr_list_take n (\<lambda>_. ())),
     sr_where = (\<lambda>(d, p). min p (length d)),
     sr_size = (\<lambda>(d, p). length d),
     sr_eof = (\<lambda>(d, p). length d \<le> p) \<rparr>"

definition sr_rest :: "bytes \<times> nat \<Rightarrow> bytes" where
  "sr_rest = (\<lambda>(d, p). drop p d)"

definition sr_len :: "bytes \<times> nat \<Rightarrow> nat" where
  "sr_len = (\<lambda>(d, p). length d)"

lemma sr_list_takes: "sr_takes sr_rest sr_len n f (sr_list_take n f)"
  unfolding sr_takes_def
proof (intro allI impI decodesI)
  fix xs :: bytes and s ys assume "length xs = n" and "sr_rest s = xs @ ys"
  moreover obtain d p where "s = (d, p)" by (cases s)
  ultimately have d: "s = (d, p)" "drop p d = xs @ ys" by (simp_all add: sr_rest_def)
  then have "length d - p = length xs + length ys" by (metis length_append length_drop)
  then have "n \<le> length d - p" using \<open>length xs = n\<close> by simp
  moreover have "drop (p + n) d = ys"
    using d(2) \<open>length xs = n\<close> by (metis add.commute append_eq_conv_conj drop_drop)
  ultimately show "fst (sr_list_take n f s) = Ret (f xs) \<and> sr_rest (snd (sr_list_take n f s)) = ys \<and>
      sr_len (snd (sr_list_take n f s)) = sr_len s"
    using d \<open>length xs = n\<close> by (auto simp: sr_list_take_def sr_rest_def sr_len_def)
qed

lemma sr_list_cstr_decodes:
  assumes "0 \<notin> set xs"
  shows "decodes sr_rest sr_len sr_list_cstr (xs @ [0]) xs"
proof (rule decodesI)
  fix s ys assume s: "sr_rest s = (xs @ [0]) @ ys"
  obtain d p where "s = (d, p)" by (cases s)
  with s have d: "drop p d = xs @ 0 # ys" by (simp add: sr_rest_def)
  then have "drop (p + length xs + 1) d = ys"
    by (metis add.commute add_Suc_right append_eq_conv_conj drop_Suc drop_drop list.sel(3) plus_1_eq_Suc tl_drop)
  moreover have "takeWhile (\<lambda>b. b \<noteq> 0) (xs @ 0 # ys) = xs" using assms by (induction xs) auto
  ultimately show "fst (sr_list_cstr s) = Ret xs \<and> sr_rest (snd (sr_list_cstr s)) = ys \<and>
      sr_len (snd (sr_list_cstr s)) = sr_len s"
    using d \<open>s = (d, p)\<close> by (simp add: sr_list_cstr_def sr_rest_def sr_len_def Let_def)
qed

lemma sr_list_spec: "string_reader_spec sr_list sr_rest sr_len"
  unfolding string_reader_spec_def sr_list_def string_reader_api.simps
  by (intro conjI allI impI sr_list_takes sr_list_cstr_decodes)
    (auto simp: sr_rest_def sr_len_def split: prod.splits)

end
