(* ===== verification/MySQL_ProtocolBuffer.thy ===== *)
theory MySQL_ProtocolBuffer
  imports Buffer_Async String_Reader
begin

text \<open>
  Protocols/MySQL/ProtocolBuffer.cc: the wire format of the MySQL protocol.  ProtocolBuffer adds
  three- and six-byte integers, length-encoded integers, two kinds of strings and command
  framing to Buffer; ProtocolStringReader reads the same items from a string.  The lemmas show
  that the writing operations produce the documented encodings, that both readers decode
  them (one proof, through the contract \<open>le_reader\<close>), and that a command written by one side is
  the command the other side reads.
\<close>

section \<open>ProtocolBuffer\<close>

text \<open>The integers are copied to and from memory as they are, on a little-endian machine.\<close>

definition ProtocolBuffer_remove_u24l :: "'b evbuffer_api \<Rightarrow> ('b, u32) act" where
  "ProtocolBuffer_remove_u24l E = bindA (Buffer_remove E 3) (\<lambda>d. retA (word_of_nat (le_val d)))"

definition ProtocolBuffer_remove_u48l :: "'b evbuffer_api \<Rightarrow> ('b, u64) act" where
  "ProtocolBuffer_remove_u48l E = bindA (Buffer_remove E 6) (\<lambda>d. retA (word_of_nat (le_val d)))"

definition ProtocolBuffer_remove_varint :: "'b evbuffer_api \<Rightarrow> ('b, u64) act" where
  "ProtocolBuffer_remove_varint E = bindA (Buffer_remove_u8 E) (\<lambda>v.
     if v < 0xFB then retA (ucast v)
     else if v = 0xFB then throwA (Runtime_error ''length-encoded int is invalid (0xFB)'')
     else if v = 0xFC then bindA (Buffer_remove_u16l E) (\<lambda>x. retA (ucast x))
     else if v = 0xFD then bindA (ProtocolBuffer_remove_u24l E) (\<lambda>x. retA (ucast x))
     else if v = 0xFE then Buffer_remove_u64l E
     else if v = 0xFF then throwA (Runtime_error ''length-encoded int is invalid (0xFF)'')
     else retA (ucast v))"

definition ProtocolBuffer_add_u24l :: "'b evbuffer_api \<Rightarrow> u32 \<Rightarrow> ('b, unit) act" where
  "ProtocolBuffer_add_u24l E v = Buffer_add E (take 3 (le_bytes 4 (unat v)))"

definition ProtocolBuffer_add_u48l :: "'b evbuffer_api \<Rightarrow> u64 \<Rightarrow> ('b, unit) act" where
  "ProtocolBuffer_add_u48l E v = Buffer_add E (take 6 (le_bytes 8 (unat v)))"

definition ProtocolBuffer_add_varint :: "'b evbuffer_api \<Rightarrow> u64 \<Rightarrow> ('b, unit) act" where
  "ProtocolBuffer_add_varint E v =
     (if v \<le> 0xFA then Buffer_add_u8 E (ucast v)
      else if v \<le> 0xFFFF then seqA (Buffer_add_u8 E 0xFC) (Buffer_add_u16l E (ucast v))
      else if v \<le> 0xFFFFFF then seqA (Buffer_add_u8 E 0xFD) (ProtocolBuffer_add_u24l E (ucast v))
      else seqA (Buffer_add_u8 E 0xFE) (Buffer_add_u64l E v))"

definition ProtocolBuffer_remove_string0 :: "'b evbuffer_api \<Rightarrow> ('b, bytes) act" where
  "ProtocolBuffer_remove_string0 E = Buffer_readln E EOL_NUL"

definition ProtocolBuffer_remove_var_string :: "'b evbuffer_api \<Rightarrow> ('b, bytes) act" where
  "ProtocolBuffer_remove_var_string E =
     bindA (ProtocolBuffer_remove_varint E) (\<lambda>n. Buffer_remove E (unat n))"

definition ProtocolBuffer_remove_string_eof :: "'b evbuffer_api \<Rightarrow> ('b, bytes) act" where
  "ProtocolBuffer_remove_string_eof E = bindA (Buffer_get_length E) (Buffer_remove E)"

definition ProtocolBuffer_add_string0 :: "'b evbuffer_api \<Rightarrow> bytes \<Rightarrow> ('b, unit) act" where
  "ProtocolBuffer_add_string0 E str = Buffer_add E (str @ [0])"

definition ProtocolBuffer_add_var_string :: "'b evbuffer_api \<Rightarrow> bytes \<Rightarrow> ('b, unit) act" where
  "ProtocolBuffer_add_var_string E str =
     seqA (ProtocolBuffer_add_varint E (word_of_nat (length str))) (Buffer_add_string E str)"

fun ProtocolBuffer_add_zeroes :: "'b evbuffer_api \<Rightarrow> nat \<Rightarrow> ('b, unit) act" where
  "ProtocolBuffer_add_zeroes E count =
     (if 8 \<le> count then seqA (Buffer_add_u64l E 0) (ProtocolBuffer_add_zeroes E (count - 8))
      else seqA (whenA (bit count 2) (Buffer_add_u32l E 0))
             (seqA (whenA (bit count 1) (Buffer_add_u16l E 0))
                (whenA (bit count 0) (Buffer_add_u8 E 0))))"

declare ProtocolBuffer_add_zeroes.simps [simp del]

text \<open>
  Command framing.  The sequence number is returned; the payload is in the buffer.  Writing
  goes through a second buffer, into which the payload is moved behind the header.
\<close>

definition ProtocolBuffer_read_command :: "'b evbuffer_api \<Rightarrow> (('b, 'z) chan_scheme, u8) act" where
  "ProtocolBuffer_read_command E = bindA (on_buf (Buffer_get_length E)) (\<lambda>len.
     if len \<noteq> 0 then throwA (Logic_error ''attempted to read command into non-empty buffer'')
     else seqA (Buffer_read_to E 4)
       (bindA (on_buf (ProtocolBuffer_remove_u24l E)) (\<lambda>command_length.
        bindA (on_buf (Buffer_remove_u8 E)) (\<lambda>command_seq.
        seqA (Buffer_read_to E (unat command_length)) (retA command_seq)))))"

definition ProtocolBuffer_write_command :: "'b evbuffer_api \<Rightarrow> u8 \<Rightarrow> (('b, 'z) chan_scheme, unit) act" where
  "ProtocolBuffer_write_command E seq = with_local E
     (bindA (on_chan (on_buf (Buffer_get_length E))) (\<lambda>len.
      seqA (on_local (ProtocolBuffer_add_u24l E (word_of_nat len)))
        (seqA (on_local (Buffer_add_u8 E seq))
          (seqA (on_both (Buffer_add_buffer E))
            (local_chan (Buffer_write E (-1)))))))"

section \<open>ProtocolStringReader\<close>

definition ProtocolStringReader_get_varint :: "'r string_reader_api \<Rightarrow> ('r, u64) act" where
  "ProtocolStringReader_get_varint R = bindA (sr_get_u8 R) (\<lambda>v.
     if v < 0xFB then retA (ucast v)
     else if v = 0xFB then throwA (Runtime_error ''length-encoded int is invalid (0xFB)'')
     else if v = 0xFC then bindA (sr_get_u16l R) (\<lambda>x. retA (ucast x))
     else if v = 0xFD then bindA (sr_get_u24l R) (\<lambda>x. retA (ucast x))
     else if v = 0xFE then sr_get_u64l R
     else if v = 0xFF then throwA (Runtime_error ''length-encoded int is invalid (0xFF)'')
     else retA (ucast v))"

definition ProtocolStringReader_get_string0 :: "'r string_reader_api \<Rightarrow> ('r, bytes) act" where
  "ProtocolStringReader_get_string0 R = sr_get_cstr R"

definition ProtocolStringReader_get_var_string :: "'r string_reader_api \<Rightarrow> ('r, bytes) act" where
  "ProtocolStringReader_get_var_string R =
     bindA (ProtocolStringReader_get_varint R) (\<lambda>n. sr_read R (unat n))"

definition ProtocolStringReader_get_string_eof :: "'r string_reader_api \<Rightarrow> ('r, bytes) act" where
  "ProtocolStringReader_get_string_eof R =
     bindA (getsA (\<lambda>r. sr_size R r - sr_where R r)) (sr_read R)"

text \<open>
  Bit \<open>x\<close> of a bit mask.  \<open>data[i]\<close> of a string is its terminating zero for \<open>i\<close> the length, and
  undefined beyond it.
\<close>

definition bitmask_bit :: "bytes \<Rightarrow> nat \<Rightarrow> bool option" where
  "bitmask_bit data x =
     (let i = drop_bit 3 x in
      if i < length data then Some (bit (data ! i) (x mod 8))
      else if i = length data then Some False
      else None)"

definition ProtocolStringReader_get_bitmask :: "'r string_reader_api \<Rightarrow> nat \<Rightarrow> ('r, bool list) act" where
  "ProtocolStringReader_get_bitmask R num_bits =
     bindA (sr_read R ((num_bits + 7) div 8)) (\<lambda>data.
       collectA (\<lambda>x. case bitmask_bit data x of
           Some b \<Rightarrow> retA b
         | None \<Rightarrow> throwA (Undefined_behaviour ''string index out of range''))
         [0..<num_bits])"

section \<open>Simulation\<close>

lemmas ProtocolBuffer_defs = ProtocolBuffer_remove_u24l_def ProtocolBuffer_remove_u48l_def
  ProtocolBuffer_remove_varint_def ProtocolBuffer_add_u24l_def ProtocolBuffer_add_u48l_def
  ProtocolBuffer_add_varint_def ProtocolBuffer_remove_string0_def ProtocolBuffer_remove_var_string_def
  ProtocolBuffer_remove_string_eof_def ProtocolBuffer_add_string0_def ProtocolBuffer_add_var_string_def

lemma ProtocolBuffer_sims [sim_intros]:
  assumes "evbuffer_spec E v"
  shows "simA v (ProtocolBuffer_remove_u24l E) (ProtocolBuffer_remove_u24l (evb_ref E))"
    and "simA v (ProtocolBuffer_remove_u48l E) (ProtocolBuffer_remove_u48l (evb_ref E))"
    and "simA v (ProtocolBuffer_remove_varint E) (ProtocolBuffer_remove_varint (evb_ref E))"
    and "simA v (ProtocolBuffer_remove_string0 E) (ProtocolBuffer_remove_string0 (evb_ref E))"
    and "simA v (ProtocolBuffer_remove_var_string E) (ProtocolBuffer_remove_var_string (evb_ref E))"
    and "simA v (ProtocolBuffer_remove_string_eof E) (ProtocolBuffer_remove_string_eof (evb_ref E))"
    and "simA v (ProtocolBuffer_add_u24l E w32) (ProtocolBuffer_add_u24l (evb_ref E) w32)"
    and "simA v (ProtocolBuffer_add_u48l E w64) (ProtocolBuffer_add_u48l (evb_ref E) w64)"
    and "simA v (ProtocolBuffer_add_varint E w64) (ProtocolBuffer_add_varint (evb_ref E) w64)"
    and "simA v (ProtocolBuffer_add_string0 E str) (ProtocolBuffer_add_string0 (evb_ref E) str)"
    and "simA v (ProtocolBuffer_add_var_string E str) (ProtocolBuffer_add_var_string (evb_ref E) str)"
  unfolding ProtocolBuffer_defs Buffer_add_defs Buffer_remove_defs by (intro sim_intros assms)+

lemma ProtocolBuffer_add_zeroes_sim [sim_intros]:
  assumes "evbuffer_spec E v"
  shows "simA v (ProtocolBuffer_add_zeroes E n) (ProtocolBuffer_add_zeroes (evb_ref E) n)"
proof (induction n rule: less_induct)
  case (less n)
  have "8 \<le> n \<Longrightarrow> simA v (ProtocolBuffer_add_zeroes E (n - 8)) (ProtocolBuffer_add_zeroes (evb_ref E) (n - 8))"
    by (rule less) simp
  then show ?case
    unfolding ProtocolBuffer_add_zeroes.simps [of _ n] Buffer_add_defs
    by (cases "8 \<le> n") (auto intro!: sim_intros assms)
qed

lemma ProtocolBuffer_command_sims [sim_intros]:
  assumes "evbuffer_spec E v"
  shows "simA (chan_abs v) (ProtocolBuffer_read_command E) (ProtocolBuffer_read_command (evb_ref E))"
    and "simA (chan_abs v) (ProtocolBuffer_write_command E q) (ProtocolBuffer_write_command (evb_ref E) q)"
  unfolding ProtocolBuffer_read_command_def ProtocolBuffer_write_command_def
    Buffer_remove_u8_def Buffer_add_u8_def
  by (intro sim_intros assms)+

section \<open>Writing\<close>

lemma le_bytes_1: "le_bytes (Suc 0) n = [word_of_nat n]"
  by simp

lemma take_le_bytes: "m \<le> n \<Longrightarrow> take m (le_bytes n x) = le_bytes m x"
proof (induction n x arbitrary: m rule: le_bytes.induct)
  case (2 n x)
  then show ?case by (cases m) auto
qed simp

lemma add_varint_list: "ProtocolBuffer_add_varint (evb_list z) n b = (Ret (), b @ varint_bytes n)"
proof -
  have le: "n \<le> 0xFA \<longleftrightarrow> unat n \<le> 250" "n \<le> 0xFFFF \<longleftrightarrow> unat n \<le> 65535"
    "n \<le> 0xFFFFFF \<longleftrightarrow> unat n \<le> 16777215" by (simp_all add: word_le_nat_alt)
  have "unat n \<le> 250 \<Longrightarrow> unat (ucast n :: u8) = unat n" "unat n \<le> 65535 \<Longrightarrow> unat (ucast n :: u16) = unat n"
    "unat n \<le> 16777215 \<Longrightarrow> unat (ucast n :: u32) = unat n"
    by (simp_all add: unat_ucast_le)
  moreover have "unat n \<le> 250 \<Longrightarrow> (word_of_nat (unat n) :: byte) = ucast n" by simp
  ultimately show ?thesis
    by (auto simp: ProtocolBuffer_add_varint_def varint_bytes_def Buffer_add_defs seqA_def bindA_def
        ProtocolBuffer_add_u24l_def take_le_bytes le le_bytes_1 simp del: le_bytes.simps)
qed

lemma add_strings_list:
  "ProtocolBuffer_add_string0 (evb_list z) str b = (Ret (), b @ str @ [0])"
  "ProtocolBuffer_add_var_string (evb_list z) str b =
     (Ret (), b @ varint_bytes (word_of_nat (length str)) @ str)"
  by (simp_all add: ProtocolBuffer_add_string0_def ProtocolBuffer_add_var_string_def seqA_def bindA_def
      add_varint_list)

lemma add_u24_u48_list:
  "ProtocolBuffer_add_u24l (evb_list z) x b = (Ret (), b @ le_bytes 3 (unat x))"
  "ProtocolBuffer_add_u48l (evb_list z) y b = (Ret (), b @ le_bytes 6 (unat y))"
  by (simp_all add: ProtocolBuffer_add_u24l_def ProtocolBuffer_add_u48l_def take_le_bytes)

lemma le_bytes_zero: "le_bytes n 0 = replicate n 0"
  by (induction n) simp_all

lemma add_zeroes_list: "ProtocolBuffer_add_zeroes (evb_list z) n b = (Ret (), b @ replicate n 0)"
proof (induction n arbitrary: b rule: less_induct)
  case (less n)
  show ?case
  proof (cases "8 \<le> n")
    case True
    have "ProtocolBuffer_add_zeroes (evb_list z) (n - 8) (b @ replicate 8 0) =
        (Ret (), (b @ replicate 8 0) @ replicate (n - 8) 0)" by (rule less) (use True in simp)
    then show ?thesis
      using True replicate_add [of 8 "n - 8" "0 :: byte"]
      by (subst ProtocolBuffer_add_zeroes.simps)
        (simp add: seqA_def bindA_def Buffer_add_u64l_def le_bytes_zero)
  next
    case False
    then have "n \<in> {0, 1, 2, 3, 4, 5, 6, 7}" by auto
    then have "replicate n (0 :: byte) = (if bit n 2 then replicate 4 0 else []) @
        (if bit n 1 then replicate 2 0 else []) @ (if bit n 0 then replicate 1 0 else [])"
      by (elim insertE) (simp_all add: bit_numeral_rec bit_0 bit_Suc, simp_all add: numeral_eq_Suc)
    with False show ?thesis
      by (subst ProtocolBuffer_add_zeroes.simps)
        (simp add: seqA_def bindA_def whenA_def Buffer_add_defs le_bytes_zero)
  qed
qed

section \<open>Reading\<close>

text \<open>
  A Buffer as a source of decoded items: reading changes nothing but the bytes, so the part
  that stays is trivial.
\<close>

definition buffer_reader :: "'b evbuffer_api \<Rightarrow> ('b \<Rightarrow> bytes) \<Rightarrow> ('b \<Rightarrow> unit) \<Rightarrow> bool" where
  "buffer_reader E v k \<longleftrightarrow> evbuffer_spec E v"

lemma Buffer_remove_decodes:
  "buffer_reader E v k \<Longrightarrow> length xs = n \<Longrightarrow> decodes v k (Buffer_remove E n) xs xs"
  by (rule decodesI) (simp add: buffer_reader_def Buffer_remove_laws)

lemma Buffer_remove_T_decodes:
  "buffer_reader E v k \<Longrightarrow> length xs = n \<Longrightarrow> f xs = y \<Longrightarrow> decodes v k (Buffer_remove_T E n f) xs y"
  unfolding Buffer_remove_T_def by (rule decodes_map [OF Buffer_remove_decodes])

lemma ProtocolBuffer_remove_u24l_decodes:
  "buffer_reader E v k \<Longrightarrow> n < 2 ^ 24 \<Longrightarrow>
     decodes v k (ProtocolBuffer_remove_u24l E) (le_bytes 3 n) (word_of_nat n)"
  unfolding ProtocolBuffer_remove_u24l_def
  by (rule decodes_map [OF Buffer_remove_decodes]) (simp_all add: le_val_le_bytes)

lemma ProtocolBuffer_remove_u48l_decodes:
  "buffer_reader E v k \<Longrightarrow> n < 2 ^ 48 \<Longrightarrow>
     decodes v k (ProtocolBuffer_remove_u48l E) (le_bytes 6 n) (word_of_nat n)"
  unfolding ProtocolBuffer_remove_u48l_def
  by (rule decodes_map [OF Buffer_remove_decodes]) (simp_all add: le_val_le_bytes)

interpretation bufrd: le_reader buffer_reader Buffer_remove_u8 Buffer_remove_u16l
  ProtocolBuffer_remove_u24l Buffer_remove_u64l
  by unfold_locales
    (auto simp: Buffer_remove_defs word_of_le_bytes le_bytes_1
      intro!: Buffer_remove_T_decodes ProtocolBuffer_remove_u24l_decodes)

interpretation strrd: le_reader string_reader_spec sr_get_u8 sr_get_u16l sr_get_u24l sr_get_u64l
  by unfold_locales (auto intro: sr_decodes sr_decodes_odd)

lemma ProtocolBuffer_remove_varint_decodes:
  "buffer_reader E v k \<Longrightarrow> decodes v k (ProtocolBuffer_remove_varint E) (varint_bytes n) n"
  using bufrd.varint_decodes unfolding varint_with_def ProtocolBuffer_remove_varint_def .

lemma get_varint_decodes [decode_intros]:
  "string_reader_spec R v k \<Longrightarrow> decodes v k (ProtocolStringReader_get_varint R) (varint_bytes n) n"
  using strrd.varint_decodes unfolding varint_with_def ProtocolStringReader_get_varint_def .

lemma unat_length: "length xs < 2 ^ 64 \<Longrightarrow> unat (word_of_nat (length xs) :: u64) = length xs"
  by (simp add: unat_of_nat)

lemma remove_var_string_decodes:
  assumes "buffer_reader E v k" and "length str < 2 ^ 64"
  shows "decodes v k (ProtocolBuffer_remove_var_string E)
    (varint_bytes (word_of_nat (length str)) @ str) str"
  unfolding ProtocolBuffer_remove_var_string_def
  by (rule decodes_bind [OF ProtocolBuffer_remove_varint_decodes [OF assms(1)]])
    (use assms(2) in \<open>simp add: Buffer_remove_decodes [OF assms(1)] unat_length\<close>)

lemma get_var_string_decodes [decode_intros]:
  assumes "string_reader_spec R v k" and "length str < 2 ^ 64"
  shows "decodes v k (ProtocolStringReader_get_var_string R)
    (varint_bytes (word_of_nat (length str)) @ str) str"
  unfolding ProtocolStringReader_get_var_string_def
  by (rule decodes_bind [OF get_varint_decodes [OF assms(1)]])
    (use assms(2) in \<open>simp add: sr_decodes(1) [OF assms(1)] unat_length\<close>)

lemma remove_string0_decodes:
  assumes "buffer_reader E v k" and "0 \<notin> set str"
  shows "decodes v k (ProtocolBuffer_remove_string0 E) (str @ [0]) str"
proof (rule decodesI)
  fix b ys assume "v b = (str @ [0]) @ ys"
  with split_nul_append [OF assms(2), of ys] have "split_nul (v b) = Some (str, ys)" by simp
  with assms(1) show "fst (ProtocolBuffer_remove_string0 E b) = Ret str \<and>
      v (snd (ProtocolBuffer_remove_string0 E b)) = ys \<and> k (snd (ProtocolBuffer_remove_string0 E b)) = k b"
    using evb_readln_law [of E v b]
    by (cases "evbuffer_readln E b EOL_NUL")
      (simp add: buffer_reader_def ProtocolBuffer_remove_string0_def Buffer_readln_def)
qed

text \<open>\<open>string_eof\<close> takes everything that is left.\<close>

lemma get_string_eof_run:
  assumes "string_reader_spec R v k" and "v r = str"
  shows "\<exists>r'. ProtocolStringReader_get_string_eof R r = (Ret str, r') \<and> v r' = [] \<and> k r' = k r"
proof -
  have n: "sr_size R r - sr_where R r = length str"
    using string_reader_laws(3,4) [OF assms(1), of r] string_reader_laws(6) [OF assms(1), of r] assms(2)
    by simp
  have d: "decodes v k (sr_read R (length str)) str str" by (rule sr_decodes [OF assms(1)]) simp
  obtain r' where "sr_read R (length str) r = (Ret str, r')" "v r' = []" "k r' = k r"
    by (rule decodesE [OF d, of r "[]"]) (simp add: assms(2))
  with n show ?thesis by (simp add: ProtocolStringReader_get_string_eof_def bindA_def)
qed

section \<open>Bit masks\<close>

fun byte_of_bits :: "bool list \<Rightarrow> byte" where
  "byte_of_bits [] = 0"
| "byte_of_bits (b # bs) = (if b then 1 else 0) + 2 * byte_of_bits bs"

lemma bit_byte_of_bits: "length bs \<le> 8 \<Longrightarrow> i < length bs \<Longrightarrow> bit (byte_of_bits bs) i = bs ! i"
proof (induction bs arbitrary: i)
  case (Cons b bs)
  have e: "byte_of_bits (b # bs) = (if b then 1 else 0) + 2 * byte_of_bits bs" by simp
  show ?case
  proof (cases i)
    case 0
    then show ?thesis by (simp add: bit_0)
  next
    case (Suc j)
    have "bit ((if b then 1 else 0) + 2 * byte_of_bits bs) (Suc j) = bit (byte_of_bits bs) j"
      using Suc Cons.prems bit_double_iff [of "byte_of_bits bs" "Suc j"]
      by (auto simp: even_bit_succ_iff)
    with Suc Cons show ?thesis by simp
  qed
qed simp

text \<open>The mask of a list of booleans: eight to a byte, the first in the lowest bit.\<close>

function bitmask_bytes :: "bool list \<Rightarrow> bytes" where
  "bitmask_bytes bs = (if bs = [] then [] else byte_of_bits (take 8 bs) # bitmask_bytes (drop 8 bs))"
  by auto
termination by (relation "measure length") auto

declare bitmask_bytes.simps [simp del]

lemma length_bitmask_bytes: "length (bitmask_bytes bs) = (length bs + 7) div 8"
proof (induction bs rule: bitmask_bytes.induct)
  case (1 bs)
  then show ?case
    by (subst bitmask_bytes.simps) (cases "length bs \<le> 8"; cases bs; auto)
qed

lemma bitmask_bit_bytes: "x < length bs \<Longrightarrow> bitmask_bit (bitmask_bytes bs) x = Some (bs ! x)"
proof (induction bs arbitrary: x rule: bitmask_bytes.induct)
  case (1 bs)
  then have ne: "bs \<noteq> []" by auto
  show ?case
  proof (cases "x < 8")
    case True
    with 1 ne show ?thesis
      using bit_byte_of_bits [of "take 8 bs" x]
      by (subst bitmask_bytes.simps) (simp add: bitmask_bit_def Let_def drop_bit_eq_div)
  next
    case False
    then have "x div 8 = Suc ((x - 8) div 8)" by (simp add: div_if)
    moreover have "bitmask_bit (bitmask_bytes (drop 8 bs)) (x - 8) = Some (drop 8 bs ! (x - 8))"
      by (rule 1) (use 1 ne False in auto)
    moreover have "x mod 8 = (x - 8) mod 8" using False by (simp add: mod_if)
    moreover have "bs ! x = drop 8 bs ! (x - 8)" using False 1(2) by simp
    ultimately show ?thesis using ne
      by (subst bitmask_bytes.simps) (auto simp: bitmask_bit_def Let_def drop_bit_eq_div split: if_splits)
  qed
qed

lemma collect_retA: "(\<And>x. x \<in> set xs \<Longrightarrow> f x = retA (g x)) \<Longrightarrow> collectA f xs = retA (map g xs)"
  by (induction xs) (simp_all del: retA_apply)

lemma get_bitmask_decodes [decode_intros]:
  fixes R :: "'r string_reader_api"
  assumes "string_reader_spec R v k" and "length bs = n"
  shows "decodes v k (ProtocolStringReader_get_bitmask R n) (bitmask_bytes bs) bs"
proof -
  let ?f = "\<lambda>x. case bitmask_bit (bitmask_bytes bs) x of Some b \<Rightarrow> retA b
      | None \<Rightarrow> throwA (Undefined_behaviour ''string index out of range'')"
  have "collectA ?f [0..<n] = (retA (map (\<lambda>x. bs ! x) [0..<n]) :: ('r, bool list) act)"
    by (rule collect_retA) (simp add: bitmask_bit_bytes assms(2))
  also have "map (\<lambda>x. bs ! x) [0..<n] = bs" using assms(2) map_nth [of bs] by simp
  finally have "decodes v k (collectA ?f [0..<n]) [] bs" by (simp only: decodes_ret)
  then show ?thesis unfolding ProtocolStringReader_get_bitmask_def
    by (rule decodes_step [OF sr_decodes(1) [OF assms(1)], where ys = "[]", rotated 2])
      (simp_all add: length_bitmask_bytes assms(2))
qed

section \<open>Command framing\<close>

text \<open>A command on the wire: three bytes of length, the sequence number, the payload.\<close>

definition command_frame :: "u8 \<Rightarrow> bytes \<Rightarrow> bytes" where
  "command_frame q b = le_bytes 3 (length b) @ q # b"

lemma length_command_frame [simp]: "length (command_frame q b) = length b + 4"
  by (simp add: command_frame_def)

lemma write_command_list:
  assumes "length (ch_buf s) < 2 ^ 24"
  shows "ProtocolBuffer_write_command (evb_list z) q s =
    (case Buffer_write (evb_list z) (-1) (s\<lparr>ch_buf := command_frame q (ch_buf s)\<rparr>) of
       (r, s') \<Rightarrow> (r, s'\<lparr>ch_buf := []\<rparr>))"
proof -
  have "unat (word_of_nat (length (ch_buf s)) :: u32) = length (ch_buf s)"
    using assms by (simp add: unat_of_nat)
  then show ?thesis
    by (simp add: ProtocolBuffer_write_command_def with_local_def bindA_def seqA_def on_chan_def on_buf_def
        on_local_def add_u24_u48_list Buffer_add_u8_def le_bytes_1 on_both_def local_chan_def
        command_frame_def case_prod_beta del: le_bytes.simps)
qed

lemma reaches_write_command:
  assumes at: "chan_at b inp out (length b + 4 + w) x s" and b: "length b < 2 ^ 24"
  shows "reaches (ProtocolBuffer_write_command (evb_list z) q) s ()
    (chan_at [] inp (out @ command_frame q b) w x)"
proof -
  have s: "ch_buf s = b" using at by (simp add: chan_at_def)
  have "chan_at (command_frame q b) inp out (length (command_frame q b) + w) x (s\<lparr>ch_buf := command_frame q b\<rparr>)"
    using at by (auto simp: chan_at_def live_def)
  then have "reaches (Buffer_write (evb_list z) (-1)) (s\<lparr>ch_buf := command_frame q b\<rparr>) ()
      (chan_at [] inp (out @ command_frame q b) w x)"
    by (rule reaches_write) (use b in \<open>auto simp: command_frame_def\<close>)
  then show ?thesis using b
    by (auto simp: reaches_def write_command_list s chan_at_def live_def)
qed

lemma reaches_read_command:
  assumes at: "chan_at [] (command_frame q b @ inp) out w x s" and b: "length b < 2 ^ 24"
  shows "reaches (ProtocolBuffer_read_command (evb_list z)) s q (chan_at b inp out w x)"
proof -
  let ?h = "le_bytes 3 (length b) @ [q]"
  have len: "unat (word_of_nat (length b) :: u32) = length b" using b by (simp add: unat_of_nat)
  have val: "(word_of_nat (le_val (le_bytes 3 (length b))) :: u32) = word_of_nat (length b)"
    using b by (simp add: le_val_le_bytes)
  have 0: "chan_at [] (?h @ b @ inp) out w x s" using at by (simp add: command_frame_def)
  show ?thesis unfolding ProtocolBuffer_read_command_def
    apply (rule reaches_bindA, rule reaches_on_buf [OF 0], simp, subst if_not_P, simp)
    apply (rule reaches_seqA, erule reaches_read_to, simp, simp, unfold append_Nil)
    apply (rule reaches_bindA, erule reaches_on_buf [where r = "word_of_nat (length b)" and b' = "[q]"])
     apply (simp add: ProtocolBuffer_remove_u24l_def Buffer_list bindA_def val)
    apply (rule reaches_bindA, erule reaches_on_buf [where r = q and b' = "[]"])
     apply (simp add: Buffer_remove_u8_def Buffer_list)
    apply (rule reaches_seqA, rule reaches_read_to [where d = b], assumption)
    using b by (auto simp: len intro: reaches_retA)
qed

section \<open>Properties\<close>

lemma evb_list_buffer_reader: "buffer_reader (evb_list 0) id k"
  using evb_list_spec [of 0] by (simp add: buffer_reader_def)

text \<open>length-encoded integers round-trip.  \<open>add_varint\<close> appends the documented encoding of any
  64-bit value, and both \<open>remove_varint\<close> on a buffer and \<open>get_varint\<close> on a string that starts with
  this encoding return the value and move just past it.\<close>

theorem varint_roundtrip:
  assumes "evbuffer_spec E v" and "string_reader_spec R w k"
  shows "map_prod id v (ProtocolBuffer_add_varint E n b) = (Ret (), v b @ varint_bytes n) \<and>
    decodes v (\<lambda>_. ()) (ProtocolBuffer_remove_varint E) (varint_bytes n) n \<and>
    decodes w k (ProtocolStringReader_get_varint R) (varint_bytes n) n"
proof (intro conjI)
  show "map_prod id v (ProtocolBuffer_add_varint E n b) = (Ret (), v b @ varint_bytes n)"
    using ProtocolBuffer_sims(9) [OF assms(1), of n] by (simp add: simA_def add_varint_list evb_ref_def)
  show "decodes v (\<lambda>_. ()) (ProtocolBuffer_remove_varint E) (varint_bytes n) n"
    using assms(1) by (intro ProtocolBuffer_remove_varint_decodes) (simp add: buffer_reader_def)
  show "decodes w k (ProtocolStringReader_get_varint R) (varint_bytes n) n"
    by (rule get_varint_decodes [OF assms(2)])
qed

theorem varint_roundtrip_witness:
  "ProtocolBuffer_add_varint (evb_list 0) 0x12345 [7] = (Ret (), [7, 0xFD, 0x45, 0x23, 0x01])"
  using varint_roundtrip [OF evb_list_spec [of 0] sr_list_spec, of "0x12345" "[7]"]
  by (simp add: varint_bytes_def numeral_3_eq_3 map_prod_def case_prod_beta prod_eq_iff)

text \<open>strings round-trip.  A length-prefixed string, and a zero-terminated one that holds no
  zero byte, are what \<open>remove_var_string\<close> and \<open>remove_string0\<close> (or their readers) return after
  \<open>add_var_string\<close> and \<open>add_string0\<close> have appended them.\<close>

theorem protocol_string_roundtrip:
  assumes "evbuffer_spec E v" and "string_reader_spec R w k" and "length str < 2 ^ 64" and "0 \<notin> set str"
  shows "\<exists>e0 e1. map_prod id v (ProtocolBuffer_add_string0 E str b) = (Ret (), v b @ e0) \<and>
    map_prod id v (ProtocolBuffer_add_var_string E str b) = (Ret (), v b @ e1) \<and>
    decodes v (\<lambda>_. ()) (ProtocolBuffer_remove_string0 E) e0 str \<and>
    decodes v (\<lambda>_. ()) (ProtocolBuffer_remove_var_string E) e1 str \<and>
    decodes w k (ProtocolStringReader_get_string0 R) e0 str \<and>
    decodes w k (ProtocolStringReader_get_var_string R) e1 str"
proof (intro exI conjI)
  have br: "buffer_reader E v (\<lambda>_. ())" using assms(1) by (simp add: buffer_reader_def)
  show "map_prod id v (ProtocolBuffer_add_string0 E str b) = (Ret (), v b @ (str @ [0]))"
    using ProtocolBuffer_sims(10) [OF assms(1), of str] by (simp add: simA_def add_strings_list evb_ref_def)
  show "map_prod id v (ProtocolBuffer_add_var_string E str b) =
      (Ret (), v b @ (varint_bytes (word_of_nat (length str)) @ str))"
    using ProtocolBuffer_sims(11) [OF assms(1), of str] by (simp add: simA_def add_strings_list evb_ref_def)
  show "decodes v (\<lambda>_. ()) (ProtocolBuffer_remove_string0 E) (str @ [0]) str"
    by (rule remove_string0_decodes [OF br assms(4)])
  show "decodes v (\<lambda>_. ()) (ProtocolBuffer_remove_var_string E)
      (varint_bytes (word_of_nat (length str)) @ str) str"
    by (rule remove_var_string_decodes [OF br assms(3)])
  show "decodes w k (ProtocolStringReader_get_string0 R) (str @ [0]) str"
    unfolding ProtocolStringReader_get_string0_def by (rule sr_decodes(11) [OF assms(2) assms(4)])
  show "decodes w k (ProtocolStringReader_get_var_string R)
      (varint_bytes (word_of_nat (length str)) @ str) str"
    by (rule get_var_string_decodes [OF assms(2,3)])
qed

theorem protocol_string_roundtrip_witness:
  "\<exists>e0. ProtocolBuffer_add_string0 (evb_list 0) [65, 66] [] = (Ret (), e0) \<and>
    decodes sr_rest sr_len (ProtocolStringReader_get_string0 sr_list) e0 [65, 66]"
  using protocol_string_roundtrip [OF evb_list_spec [of 0] sr_list_spec, of "[65, 66]" "[]"]
  by (auto simp: map_prod_def case_prod_beta prod_eq_iff)

text \<open>C3: a command that one side writes is the command the other side reads.  \<open>write_command\<close> with
  sequence number \<open>q\<close> sends the payload in its buffer as one frame and empties the buffer;
  \<open>read_command\<close> on a connection whose input starts with what was sent returns \<open>q\<close> with exactly
  the payload in its buffer, and leaves the rest of the input untouched.  Both resume, however
  the bytes are cut into reads and writes.\<close>

theorem command_roundtrip:
  assumes "evbuffer_spec E v" and "length (v (ch_buf s)) < 2 ^ 24"
    and "live (length (v (ch_buf s)) + 4) s"
    and "v (ch_buf t) = []" and "ch_inp t = command_frame q (v (ch_buf s)) @ rest" and "live 0 t"
  shows "(\<exists>s'. ProtocolBuffer_write_command E q s = (Ret (), s') \<and> v (ch_buf s') = [] \<and>
      ch_out s' = ch_out s @ command_frame q (v (ch_buf s)) \<and> ch_inp s' = ch_inp s) \<and>
    (\<exists>t'. ProtocolBuffer_read_command E t = (Ret q, t') \<and> v (ch_buf t') = v (ch_buf s) \<and>
      ch_inp t' = rest \<and> ch_out t' = ch_out t)"
proof -
  let ?d = "command_frame q (v (ch_buf s))"
  have "reaches (ProtocolBuffer_write_command (evb_ref E) q) (chan_abs v s) ()
      (chan_at [] (ch_inp s) (ch_out s @ ?d) 0 (chan.more s))"
    unfolding evb_ref_def by (rule reaches_write_command) (use assms(2,3) in \<open>simp_all add: chan_at_def\<close>)
  from reaches_chanE [OF ProtocolBuffer_command_sims(2) [OF assms(1)] this]
  obtain s' where w: "ProtocolBuffer_write_command E q s = (Ret (), s')" "v (ch_buf s') = []"
    "ch_inp s' = ch_inp s" "ch_out s' = ch_out s @ ?d" by metis
  have "reaches (ProtocolBuffer_read_command (evb_ref E)) (chan_abs v t) q
      (chan_at (v (ch_buf s)) rest (ch_out t) 0 (chan.more t))"
    unfolding evb_ref_def by (rule reaches_read_command) (use assms(2,4-6) in \<open>simp_all add: chan_at_def\<close>)
  from reaches_chanE [OF ProtocolBuffer_command_sims(1) [OF assms(1)] this]
  have "\<exists>t'. ProtocolBuffer_read_command E t = (Ret q, t') \<and> v (ch_buf t') = v (ch_buf s) \<and>
      ch_inp t' = rest \<and> ch_out t' = ch_out t" by metis
  with w show ?thesis by blast
qed

theorem command_roundtrip_witness:
  "\<exists>t'. ProtocolBuffer_read_command (evb_list 0) \<lparr>ch_buf = [], ch_inp = [2, 0, 0, 3, 8, 9, 77],
      ch_sched = replicate 7 (Os_ok 1), ch_out = []\<rparr> = (Ret 3, t') \<and> ch_buf t' = [8, 9] \<and> ch_inp t' = [77]"
  using command_roundtrip [of "evb_list 0" id "\<lparr>ch_buf = [8, 9], ch_inp = [],
      ch_sched = replicate 6 (Os_ok 0), ch_out = []\<rparr>" "\<lparr>ch_buf = [], ch_inp = [2, 0, 0, 3, 8, 9, 77],
      ch_sched = replicate 7 (Os_ok 1), ch_out = []\<rparr>" 3 "[77]"] evb_list_spec [of 0]
  by (simp add: live_def command_frame_def numeral_3_eq_3) blast

text \<open>\<open>add_zeroes(n)\<close> appends exactly \<open>n\<close> zero bytes, for every \<open>n\<close>.\<close>

theorem add_zeroes_exact:
  assumes "evbuffer_spec E v"
  shows "map_prod id v (ProtocolBuffer_add_zeroes E n b) = (Ret (), v b @ replicate n 0)"
  using ProtocolBuffer_add_zeroes_sim [OF assms, of n] by (simp add: simA_def add_zeroes_list evb_ref_def)

theorem add_zeroes_exact_witness:
  "ProtocolBuffer_add_zeroes (evb_list 0) 23 [1] = (Ret (), 1 # replicate 23 0)"
  using add_zeroes_exact [OF evb_list_spec [of 0], of 23 "[1]"]
  by (simp add: map_prod_def case_prod_beta prod_eq_iff)

text \<open>\<open>get_bitmask(n)\<close> reads \<open>(n + 7) / 8\<close> bytes and returns the \<open>n\<close> booleans that were packed
  into them, lowest bit first; it never indexes the string out of range.\<close>

theorem bitmask_roundtrip:
  assumes "string_reader_spec R v k"
  shows "decodes v k (ProtocolStringReader_get_bitmask R (length bs)) (bitmask_bytes bs) bs \<and>
    length (bitmask_bytes bs) = (length bs + 7) div 8"
  using get_bitmask_decodes [OF assms refl] length_bitmask_bytes by blast

theorem bitmask_roundtrip_witness:
  "decodes sr_rest sr_len (ProtocolStringReader_get_bitmask sr_list 9)
     (bitmask_bytes [True, False, True, True, False, False, False, True, True])
     [True, False, True, True, False, False, False, True, True]"
proof -
  have "length [True, False, True, True, False, False, False, True, True] = 9" by simp
  with bitmask_roundtrip [OF sr_list_spec, of "[True, False, True, True, False, False, False, True, True]"]
  show ?thesis by argo
qed

end
