(* ===== verification/Phosg.thy ===== *)
theory Phosg
  imports Printf
begin

text \<open>
  The free functions of the phosg library that the protocol code calls.  Like libevent, phosg is
  not part of the repository, so they are a record passed to the definitions that use them;
  \<open>bswap_spec\<close>, \<open>scoped_fd_spec\<close> and \<open>printf_spec\<close> state the documented behaviour the theorems rely on.
\<close>

record phosg_api =
  bswap16 :: "u16 \<Rightarrow> u16"
  bswap32 :: "u32 \<Rightarrow> u32"
  bswap64 :: "u64 \<Rightarrow> u64"
  fd_is_open :: "int \<Rightarrow> bool"
  net_connect :: "bytes \<Rightarrow> nat \<Rightarrow> int outcome"
  string_printf :: "string \<Rightarrow> printf_arg list \<Rightarrow> string"
  sha256 :: "bytes \<Rightarrow> bytes"
  escape_quotes :: "bytes \<Rightarrow> bytes"
  format_time :: "u64 \<Rightarrow> string"
  format_data :: "bytes \<Rightarrow> bytes"

definition bswap_spec :: "phosg_api \<Rightarrow> bool" where
  "bswap_spec P \<longleftrightarrow>
     (\<forall>x. le_bytes 2 (unat (bswap16 P x)) = be_bytes 2 (unat x)) \<and>
     (\<forall>x. le_bytes 4 (unat (bswap32 P x)) = be_bytes 4 (unat x)) \<and>
     (\<forall>x. le_bytes 8 (unat (bswap64 P x)) = be_bytes 8 (unat x))"

definition scoped_fd_spec :: "phosg_api \<Rightarrow> bool" where
  "scoped_fd_spec P \<longleftrightarrow> (\<forall>fd. fd_is_open P fd \<longleftrightarrow> 0 \<le> fd)"

text \<open>\<open>string_printf\<close> formats as the C library does.\<close>

definition printf_spec :: "phosg_api \<Rightarrow> bool" where
  "printf_spec P \<longleftrightarrow> string_printf P = c_printf"

lemma bswap_le_bytes:
  assumes "bswap_spec P"
  shows "le_bytes 2 (unat (bswap16 P x)) = be_bytes 2 (unat x)"
    and "le_bytes 4 (unat (bswap32 P y)) = be_bytes 4 (unat y)"
    and "le_bytes 8 (unat (bswap64 P z)) = be_bytes 8 (unat z)"
  using assms unfolding bswap_spec_def by blast+

lemma le_bytes_unat_inj: "LENGTH('a::len) \<le> 8 * n \<Longrightarrow> le_bytes n (unat (x :: 'a word)) = le_bytes n (unat y) \<Longrightarrow> x = y"
  by (metis word_of_le_bytes)

lemma bswap_bswap:
  assumes "bswap_spec P"
  shows "bswap16 P (bswap16 P x) = x" and "bswap32 P (bswap32 P y) = y" and "bswap64 P (bswap64 P z) = z"
proof -
  note l = bswap_le_bytes [OF assms]
  have "le_bytes 2 (unat (bswap16 P (bswap16 P x))) = le_bytes 2 (unat x)"
    unfolding l be_bytes_def by (simp add: l be_bytes_def del: le_bytes.simps)
  then show "bswap16 P (bswap16 P x) = x" by (rule le_bytes_unat_inj [rotated]) simp
  have "le_bytes 4 (unat (bswap32 P (bswap32 P y))) = le_bytes 4 (unat y)"
    unfolding l be_bytes_def by (simp add: l be_bytes_def del: le_bytes.simps)
  then show "bswap32 P (bswap32 P y) = y" by (rule le_bytes_unat_inj [rotated]) simp
  have "le_bytes 8 (unat (bswap64 P (bswap64 P z))) = le_bytes 8 (unat z)"
    unfolding l be_bytes_def by (simp add: l be_bytes_def del: le_bytes.simps)
  then show "bswap64 P (bswap64 P z) = z" by (rule le_bytes_unat_inj [rotated]) simp
qed

text \<open>Reading a big-endian field as the machine does, and swapping, gives its value.\<close>

lemma bswap_read:
  assumes "bswap_spec P"
  shows "bswap16 P (word_of_nat (le_val (be_bytes 2 (unat x)))) = x"
    and "bswap32 P (word_of_nat (le_val (be_bytes 4 (unat y)))) = y"
    and "bswap64 P (word_of_nat (le_val (be_bytes 8 (unat z)))) = z"
  using assms
  by (simp_all add: bswap_le_bytes [symmetric] word_of_le_bytes bswap_bswap del: le_bytes.simps)

text \<open>An implementation, to show that the specifications can be met.\<close>

definition phosg_model :: phosg_api where
  "phosg_model = \<lparr>
     bswap16 = (\<lambda>x. word_of_nat (be_val (le_bytes 2 (unat x)))),
     bswap32 = (\<lambda>x. word_of_nat (be_val (le_bytes 4 (unat x)))),
     bswap64 = (\<lambda>x. word_of_nat (be_val (le_bytes 8 (unat x)))),
     fd_is_open = (\<lambda>fd. 0 \<le> fd),
     net_connect = (\<lambda>addr port. Ret 5),
     string_printf = c_printf,
     sha256 = (\<lambda>d. take 32 (d @ replicate 32 0)),
     escape_quotes = id, format_time = (\<lambda>t. []), format_data = id \<rparr>"

lemma le_bytes_of_be_val:
  assumes "LENGTH('a::len) = 8 * n"
  shows "le_bytes n (unat (word_of_nat (be_val (le_bytes n x)) :: 'a word)) = be_bytes n x"
proof -
  have "be_val (le_bytes n x) < 256 ^ n" using be_val_bound [of "le_bytes n x"] by simp
  also have "(256 :: nat) ^ n = 2 ^ LENGTH('a)" by (simp add: assms power_mult)
  finally have "unat (word_of_nat (be_val (le_bytes n x)) :: 'a word) = be_val (le_bytes n x)"
    by (simp add: unat_of_nat)
  moreover have "le_bytes n (be_val (le_bytes n x)) = rev (be_bytes n (be_val (le_bytes n x)))"
    by (simp add: be_bytes_def)
  moreover have "be_bytes n (be_val (le_bytes n x)) = le_bytes n x"
    using be_bytes_be_val [of "le_bytes n x"] by simp
  ultimately show ?thesis by (simp only: be_bytes_def)
qed

lemma phosg_model_spec: "bswap_spec phosg_model" "scoped_fd_spec phosg_model" "printf_spec phosg_model"
  by (auto simp: bswap_spec_def scoped_fd_spec_def printf_spec_def phosg_model_def le_bytes_of_be_val)

end
