(* ===== verification/MySQL_Types.thy ===== *)
theory MySQL_Types
  imports Phosg
begin

text \<open>
  Protocols/MySQL/Types.hh and Types.cc: column types, cell values, date and time values and result
  sets, with the C library's scanning of decimal numbers, which the constructors of the date and
  time values use.  The lemmas show that the constructors read the text forms a server sends.
\<close>

section \<open>Enumerations\<close>

datatype column_type =
    T_DECIMAL | T_TINYINT | T_SMALLINT | T_INT | T_FLOAT | T_DOUBLE | T_NULL | T_TIMESTAMP | T_BIGINT | T_MEDIUMINT
  | T_DATE | T_TIME | T_DATETIME | T_YEAR | T_NEWDATE | T_VARCHAR | T_BIT | T_TIMESTAMP2 | T_DATETIME2 | T_TIME2
  | T_BOOL | T_JSON | T_NEWDECIMAL | T_ENUM | T_SET | T_TINYBLOB | T_MEDIUMBLOB | T_LONGBLOB | T_BLOB
  | T_VAR_STRING | T_STRING | T_GEOMETRY

fun column_type_code :: "column_type \<Rightarrow> u8" where
  "column_type_code T_DECIMAL = 0x00"
| "column_type_code T_TINYINT = 0x01"
| "column_type_code T_SMALLINT = 0x02"
| "column_type_code T_INT = 0x03"
| "column_type_code T_FLOAT = 0x04"
| "column_type_code T_DOUBLE = 0x05"
| "column_type_code T_NULL = 0x06"
| "column_type_code T_TIMESTAMP = 0x07"
| "column_type_code T_BIGINT = 0x08"
| "column_type_code T_MEDIUMINT = 0x09"
| "column_type_code T_DATE = 0x0A"
| "column_type_code T_TIME = 0x0B"
| "column_type_code T_DATETIME = 0x0C"
| "column_type_code T_YEAR = 0x0D"
| "column_type_code T_NEWDATE = 0x0E"
| "column_type_code T_VARCHAR = 0x0F"
| "column_type_code T_BIT = 0x10"
| "column_type_code T_TIMESTAMP2 = 0x11"
| "column_type_code T_DATETIME2 = 0x12"
| "column_type_code T_TIME2 = 0x13"
| "column_type_code T_BOOL = 0xF4"
| "column_type_code T_JSON = 0xF5"
| "column_type_code T_NEWDECIMAL = 0xF6"
| "column_type_code T_ENUM = 0xF7"
| "column_type_code T_SET = 0xF8"
| "column_type_code T_TINYBLOB = 0xF9"
| "column_type_code T_MEDIUMBLOB = 0xFA"
| "column_type_code T_LONGBLOB = 0xFB"
| "column_type_code T_BLOB = 0xFC"
| "column_type_code T_VAR_STRING = 0xFD"
| "column_type_code T_STRING = 0xFE"
| "column_type_code T_GEOMETRY = 0xFF"

definition column_types :: "column_type list" where
  "column_types = [T_DECIMAL, T_TINYINT, T_SMALLINT, T_INT, T_FLOAT, T_DOUBLE, T_NULL, T_TIMESTAMP, T_BIGINT, T_MEDIUMINT,
     T_DATE, T_TIME, T_DATETIME, T_YEAR, T_NEWDATE, T_VARCHAR, T_BIT, T_TIMESTAMP2, T_DATETIME2, T_TIME2,
     T_BOOL, T_JSON, T_NEWDECIMAL, T_ENUM, T_SET, T_TINYBLOB, T_MEDIUMBLOB, T_LONGBLOB, T_BLOB,
     T_VAR_STRING, T_STRING, T_GEOMETRY]"

text \<open>A byte cast to the enumeration: \<open>None\<close> for a value without a name.\<close>

definition column_type_of :: "u8 \<Rightarrow> column_type option" where
  "column_type_of b = find (\<lambda>t. column_type_code t = b) column_types"

lemma column_types_all: "t \<in> set column_types"
  by (cases t) (simp_all add: column_types_def)

lemma column_type_of_code [simp]: "column_type_of (column_type_code t) = Some t"
  by (cases t) (simp_all add: column_type_of_def column_types_def)

datatype mysql_command =
    SLEEP | QUIT | INIT_DB | QUERY | FIELD_LIST | CREATE_DB | DROP_DB | REFRESH | SHUTDOWN | STATISTICS
  | PROCESS_INFO | CONNECT | PROCESS_KILL | DEBUG | PING | TIME | DELAYED_INSERT | CHANGE_USER | BINLOG_DUMP
  | TABLE_DUMP | CONNECT_OUT | REGISTER_SLAVE | STMT_PREPARE | STMT_EXECUTE | STMT_SEND_LONG_DATA | STMT_CLOSE
  | STMT_RESET | SET_OPTION | STMT_FETCH | DAEMON | BINLOG_DUMP_GTID | RESET_CONNECTION

fun mysql_command_code :: "mysql_command \<Rightarrow> u8" where
  "mysql_command_code SLEEP = 0x00"
| "mysql_command_code QUIT = 0x01"
| "mysql_command_code INIT_DB = 0x02"
| "mysql_command_code QUERY = 0x03"
| "mysql_command_code FIELD_LIST = 0x04"
| "mysql_command_code CREATE_DB = 0x05"
| "mysql_command_code DROP_DB = 0x06"
| "mysql_command_code REFRESH = 0x07"
| "mysql_command_code SHUTDOWN = 0x08"
| "mysql_command_code STATISTICS = 0x09"
| "mysql_command_code PROCESS_INFO = 0x0A"
| "mysql_command_code CONNECT = 0x0B"
| "mysql_command_code PROCESS_KILL = 0x0C"
| "mysql_command_code DEBUG = 0x0D"
| "mysql_command_code PING = 0x0E"
| "mysql_command_code TIME = 0x0F"
| "mysql_command_code DELAYED_INSERT = 0x10"
| "mysql_command_code CHANGE_USER = 0x11"
| "mysql_command_code BINLOG_DUMP = 0x12"
| "mysql_command_code TABLE_DUMP = 0x13"
| "mysql_command_code CONNECT_OUT = 0x14"
| "mysql_command_code REGISTER_SLAVE = 0x15"
| "mysql_command_code STMT_PREPARE = 0x16"
| "mysql_command_code STMT_EXECUTE = 0x17"
| "mysql_command_code STMT_SEND_LONG_DATA = 0x18"
| "mysql_command_code STMT_CLOSE = 0x19"
| "mysql_command_code STMT_RESET = 0x1A"
| "mysql_command_code SET_OPTION = 0x1B"
| "mysql_command_code STMT_FETCH = 0x1C"
| "mysql_command_code DAEMON = 0x1D"
| "mysql_command_code BINLOG_DUMP_GTID = 0x1E"
| "mysql_command_code RESET_CONNECTION = 0x1F"

text \<open>Of the status flags the client tests one.\<close>

definition MORE_RESULTS_EXIST :: u16 where
  "MORE_RESULTS_EXIST = 0x0008"

definition low_types :: "string list" where
  "low_types = [''T_DECIMAL'', ''T_TINYINT'', ''T_SMALLINT'', ''T_INT'', ''T_FLOAT'', ''T_DOUBLE'', ''T_NULL'',
     ''T_TIMESTAMP'', ''T_BIGINT'', ''T_MEDIUMINT'', ''T_DATE'', ''T_TIME'', ''T_DATETIME'', ''T_YEAR'', ''T_NEWDATE'',
     ''T_VARCHAR'', ''T_BIT'', ''T_TIMESTAMP2'', ''T_DATETIME2'', ''T_TIME2'']"

definition high_types :: "string list" where
  "high_types = [''T_BOOL'', ''T_JSON'', ''T_NEWDECIMAL'', ''T_ENUM'', ''T_SET'', ''T_TINYBLOB'', ''T_MEDIUMBLOB'',
     ''T_LONGBLOB'', ''T_BLOB'', ''T_VAR_STRING'', ''T_STRING'', ''T_GEOMETRY'']"

definition name_for_column_type :: "phosg_api \<Rightarrow> u8 \<Rightarrow> string outcome" where
  "name_for_column_type P type =
     (let tab = (if 0xF4 \<le> type then high_types else low_types);
          i = (if 0xF4 \<le> type then unat (type - 0xF4) else unat type) in
      if i < length tab then Ret (tab ! i)
      else Throw (Runtime_error (string_printf P ''%02hhX'' [P_int (uint type)])))"

section \<open>Scanning of numbers\<close>

text \<open>
  The C library's conversions of decimal numbers: white space is skipped, then an optional sign, then
  at least one digit.  The result is the sign, the number and the rest of the text.
\<close>

definition is_space :: "byte \<Rightarrow> bool" where
  "is_space b \<longleftrightarrow> b = 32 \<or> (9 \<le> b \<and> b \<le> 13)"

definition scan_number :: "bytes \<Rightarrow> (bool \<times> nat \<times> bytes) option" where
  "scan_number s =
     (let s1 = dropWhile is_space s;
          neg = (s1 \<noteq> [] \<and> hd s1 = 45);
          s2 = (if s1 \<noteq> [] \<and> (hd s1 = 45 \<or> hd s1 = 43) then tl s1 else s1);
          ds = takeWhile is_digit s2 in
      if ds = [] then None else Some (neg, digits_val ds, dropWhile is_digit s2))"

text \<open>
  \<open>sscanf\<close> with unsigned conversions, literal characters and white space.  A number is read as an
  \<open>unsigned long\<close>, which saturates, and then cut to the width of its object; the list holds the
  numbers that were assigned before the scan stopped.
\<close>

datatype directive = D_num | D_lit byte | D_space

definition strtoul_val :: "bool \<Rightarrow> nat \<Rightarrow> u64" where
  "strtoul_val neg n = (if 2 ^ 64 \<le> n then -1 else if neg then - word_of_nat n else word_of_nat n)"

fun sscanf :: "directive list \<Rightarrow> bytes \<Rightarrow> u64 list" where
  "sscanf [] s = []"
| "sscanf (D_lit c # ds) s = (case s of [] \<Rightarrow> [] | b # s' \<Rightarrow> if b = c then sscanf ds s' else [])"
| "sscanf (D_space # ds) s = sscanf ds (dropWhile is_space s)"
| "sscanf (D_num # ds) s = (case scan_number s of None \<Rightarrow> []
     | Some (neg, n, s') \<Rightarrow> strtoul_val neg n # sscanf ds s')"

text \<open>A C string ends at the first zero byte.\<close>

definition c_chars :: "bytes \<Rightarrow> bytes" where
  "c_chars s = takeWhile (\<lambda>b. b \<noteq> 0) s"

text \<open>A field keeps its value when the scan stops before it.\<close>

definition assigned :: "u64 list \<Rightarrow> nat \<Rightarrow> 'a::len word \<Rightarrow> 'a word" where
  "assigned vs i old = (if i < length vs then ucast (vs ! i) else old)"

section \<open>Dates and times\<close>

record date_time_value =
  dt_years :: u16
  dt_months :: u8
  dt_days :: u8
  dt_hours :: u8
  dt_minutes :: u8
  dt_seconds :: u8
  dt_usecs :: u32

text \<open>The text \<open>"%hu-%hhu-%hhu %hhu:%hhu:%hhu.%u"\<close>.\<close>

definition date_time_format :: "directive list" where
  "date_time_format = [D_num, D_lit 45, D_num, D_lit 45, D_num, D_space, D_num, D_lit 58, D_num, D_lit 58, D_num, D_lit 46, D_num]"

definition times_ten :: "nat \<Rightarrow> u32 \<Rightarrow> u32" where
  "times_ten n x = ((\<lambda>u. u * 10) ^^ n) x"

definition DateTimeValue_new :: "bytes \<Rightarrow> date_time_value" where
  "DateTimeValue_new str = (let vs = sscanf date_time_format (c_chars str) in
     \<lparr>dt_years = assigned vs 0 0, dt_months = assigned vs 1 0, dt_days = assigned vs 2 0, dt_hours = assigned vs 3 0,
      dt_minutes = assigned vs 4 0, dt_seconds = assigned vs 5 0, dt_usecs = times_ten (26 - length str) (assigned vs 6 0)\<rparr>)"

definition DateTimeValue_str :: "phosg_api \<Rightarrow> date_time_value \<Rightarrow> string" where
  "DateTimeValue_str P t = string_printf P ''%04hu-%02hhu-%02hhu %02hhu:%02hhu:%02hhu.%06u''
     [P_int (uint (dt_years t)), P_int (uint (dt_months t)), P_int (uint (dt_days t)), P_int (uint (dt_hours t)),
      P_int (uint (dt_minutes t)), P_int (uint (dt_seconds t)), P_int (uint (dt_usecs t))]"

record time_value =
  tv_is_negative :: bool
  tv_hours :: u32
  tv_minutes :: u8
  tv_seconds :: u8
  tv_usecs :: u32

definition time_format :: "directive list" where
  "time_format = [D_num, D_lit 58, D_num, D_lit 58, D_num, D_lit 46, D_num]"

text \<open>The position of the dot, if there is one: the text after it, and that text's length as precision.\<close>

definition TimeValue_new :: "bytes \<Rightarrow> time_value" where
  "TimeValue_new str =
     (let neg = (str \<noteq> [] \<and> hd str = 45);
          vs = sscanf time_format (c_chars (if neg then tl str else str));
          usecs = assigned vs 3 0;
          frac = tl (dropWhile (\<lambda>b. b \<noteq> 46) str) in
      \<lparr>tv_is_negative = neg, tv_hours = assigned vs 0 0, tv_minutes = assigned vs 1 0, tv_seconds = assigned vs 2 0,
       tv_usecs = (if 46 \<in> set str then times_ten (6 - length frac) (assigned (sscanf [D_num] (c_chars frac)) 0 usecs) else usecs)\<rparr>)"

definition TimeValue_str :: "phosg_api \<Rightarrow> time_value \<Rightarrow> string" where
  "TimeValue_str P t = string_printf P ''%s%02u:%02hhu:%02hhu.%06u''
     [P_str (if tv_is_negative t then [45] else []), P_int (uint (tv_hours t)), P_int (uint (tv_minutes t)),
      P_int (uint (tv_seconds t)), P_int (uint (tv_usecs t))]"

section \<open>Values and result sets\<close>

text \<open>Floating-point numbers are kept as their bit patterns.\<close>

datatype mysql_value =
    V_uint u64
  | V_int "64 word"
  | V_float u32
  | V_double u64
  | V_null
  | V_datetime date_time_value
  | V_time time_value
  | V_string bytes

record column_definition =
  cd_catalog_name :: bytes
  cd_database_name :: bytes
  cd_table_name :: bytes
  cd_original_table_name :: bytes
  cd_column_name :: bytes
  cd_original_column_name :: bytes
  cd_charset :: u16
  cd_max_value_length :: u32
  cd_type :: u8
  cd_flags :: u16
  cd_decimals :: u8

datatype result_rows =
    Rows_vecs "mysql_value list list"
  | Rows_dicts "(bytes \<rightharpoonup> mysql_value) list"

record result_set =
  rs_columns :: "column_definition list"
  rs_rows :: result_rows
  rs_affected_rows :: u64
  rs_insert_id :: u64
  rs_status_flags :: u16
  rs_warning_count :: u16

text \<open>\<open>std::get\<close> of the alternative that is not there throws.\<close>

definition ResultSet_rows_vecs :: "result_set \<Rightarrow> mysql_value list list outcome" where
  "ResultSet_rows_vecs r = (case rs_rows r of Rows_vecs v \<Rightarrow> Ret v | Rows_dicts d \<Rightarrow> Throw Bad_variant_access)"

definition ResultSet_rows_dicts :: "result_set \<Rightarrow> (bytes \<rightharpoonup> mysql_value) list outcome" where
  "ResultSet_rows_dicts r = (case rs_rows r of Rows_dicts d \<Rightarrow> Ret d | Rows_vecs v \<Rightarrow> Throw Bad_variant_access)"


section \<open>Decimal text\<close>

text \<open>A number in exactly \<open>w\<close> decimal digits.\<close>

fun dec :: "nat \<Rightarrow> nat \<Rightarrow> bytes" where
  "dec 0 n = []"
| "dec (Suc w) n = dec w (n div 10) @ [48 + word_of_nat (n mod 10)]"

lemma length_dec [simp]: "length (dec w n) = w"
  by (induction w n rule: dec.induct) simp_all

lemma dec_digits: "b \<in> set (dec w n) \<Longrightarrow> 48 \<le> unat b \<and> unat b \<le> 57"
proof (induction w n rule: dec.induct)
  case (2 w n)
  then show ?case using unat_digit [of "n mod 10"] by auto
qed simp

lemma dec_is_digit: "b \<in> set (dec w n) \<Longrightarrow> is_digit b"
  using dec_digits [of b w n] by (simp add: is_digit_def word_le_nat_alt)

lemma is_digit_facts: "is_digit b \<Longrightarrow> \<not> is_space b \<and> b \<noteq> 45 \<and> b \<noteq> 43 \<and> b \<noteq> 0 \<and> b \<noteq> 46"
  by (auto simp: is_digit_def is_space_def word_le_nat_alt)

lemma digits_val_dec: "n < 10 ^ w \<Longrightarrow> digits_val (dec w n) = n"
proof (induction w n rule: dec.induct)
  case (2 w n)
  then have "n div 10 < 10 ^ w" by (simp add: less_mult_imp_div_less mult.commute)
  with 2 show ?case by (simp add: digits_val_snoc unat_of_nat)
qed (simp add: digits_val_def)

definition no_digit :: "bytes \<Rightarrow> bool" where
  "no_digit s \<longleftrightarrow> s = [] \<or> \<not> is_digit (hd s)"

lemma number_textE:
  assumes "number_text n ds"
  obtains b bs where "ds = b # bs" and "is_digit b"
  using assms by (cases ds) (auto simp: number_text_def)

lemma number_text_dec: "0 < w \<Longrightarrow> n < 10 ^ w \<Longrightarrow> number_text n (dec w n)"
  using dec_is_digit by (auto simp: number_text_def digits_val_dec simp flip: length_0_conv)

lemma scan_number_text:
  assumes "number_text n ds" "no_digit s"
  shows "scan_number (ds @ s) = Some (False, n, s)"
proof -
  have d: "\<forall>b\<in>set ds. is_digit b" and n: "digits_val ds = n" using assms(1) by (simp_all add: number_text_def)
  have t: "takeWhile is_digit (ds @ s) = ds" "dropWhile is_digit (ds @ s) = s"
    using assms(2) d by (cases s; auto simp: no_digit_def takeWhile_append2 dropWhile_append2)+
  obtain b bs where c: "ds = b # bs" "is_digit b" using assms(1) by (rule number_textE)
  have b: "\<not> is_space b" "b \<noteq> 45" "b \<noteq> 43" using is_digit_facts [OF c(2)] by auto
  then have "dropWhile is_space (ds @ s) = ds @ s" "hd (ds @ s) = b" by (simp_all add: c)
  with b t c n show ?thesis unfolding scan_number_def by (simp add: Let_def)
qed

lemma strtoul_small: "n < 2 ^ 64 \<Longrightarrow> strtoul_val False n = word_of_nat n"
  by (simp add: strtoul_val_def)

lemma sscanf_number: "number_text n xs \<Longrightarrow> n < 2 ^ 64 \<Longrightarrow> no_digit s \<Longrightarrow> sscanf (D_num # ds) (xs @ s) = word_of_nat n # sscanf ds s"
  by (simp add: scan_number_text strtoul_small)

lemma sscanf_dec:
  assumes "0 < w" "w \<le> 19" "n < 10 ^ w" "no_digit s"
  shows "sscanf (D_num # ds) (dec w n @ s) = word_of_nat n # sscanf ds s"
proof -
  have "(10::nat) ^ w \<le> 10 ^ 19" using assms(2) by (rule power_increasing) simp
  with assms(3) have "n < 2 ^ 64" by simp
  from sscanf_number [OF number_text_dec [OF assms(1,3)] this assms(4)] show ?thesis .
qed

lemma c_chars_id: "0 \<notin> set s \<Longrightarrow> c_chars s = s"
  by (auto simp: c_chars_def takeWhile_eq_all_conv)

lemma zero_notin_dec: "0 \<notin> set (dec w n)" "46 \<notin> set (dec w n)"
  using dec_digits [of 0 w n] dec_digits [of 46 w n] by auto

lemma dropWhile_dec: "dropWhile (\<lambda>b. b \<noteq> 46) (dec w n @ s) = dropWhile (\<lambda>b. b \<noteq> 46) s"
  by (rule dropWhile_append2) (metis zero_notin_dec(2))

lemma times_ten_eq: "times_ten n x = x * 10 ^ n"
  by (induction n) (simp_all add: times_ten_def mult.assoc mult.commute)

lemma no_digit_simps [simp]: "no_digit []" "no_digit (45 # s)" "no_digit (58 # s)" "no_digit (46 # s)" "no_digit (32 # s)"
  by (simp_all add: no_digit_def is_digit_def)

lemma ucast_word_of_nat: "LENGTH('a) \<le> 64 \<Longrightarrow> ucast (word_of_nat n :: u64) = (word_of_nat n :: 'a::len word)"
  by (rule bit_word_eqI) (simp add: bit_simps)

text \<open>The fraction of a second, written with \<open>k\<close> digits; none at all for \<open>k = 0\<close>.\<close>

definition frac_text :: "nat \<Rightarrow> nat \<Rightarrow> bytes" where
  "frac_text k f = (if k = 0 then [] else 46 # dec k f)"

definition date_text :: "nat \<Rightarrow> nat \<Rightarrow> nat \<Rightarrow> bytes" where
  "date_text y mo d = dec 4 y @ 45 # dec 2 mo @ 45 # dec 2 d"

definition clock_text :: "nat \<Rightarrow> nat \<Rightarrow> nat \<Rightarrow> bytes" where
  "clock_text h mi s = dec 2 h @ 58 # dec 2 mi @ 58 # dec 2 s"

lemma frac_text_facts: "no_digit (frac_text k f)" "0 \<notin> set (frac_text k f)"
  by (simp_all add: frac_text_def zero_notin_dec)

lemma dropWhile_space_dec: "0 < w \<Longrightarrow> dropWhile is_space (dec w n @ s) = dec w n @ s"
proof -
  assume "0 < w"
  then obtain b bs where d: "dec w n = b # bs" by (metis length_dec length_greater_0_conv list.exhaust)
  then have "\<not> is_space b" using is_digit_facts [OF dec_is_digit [of b w n]] by simp
  then show ?thesis by (simp add: d)
qed

lemma sscanf_frac:
  assumes "k \<le> 6" "f < 10 ^ k"
  shows "sscanf [D_lit 46, D_num] (frac_text k f) = (if k = 0 then [] else [word_of_nat f])"
  using sscanf_dec [of k f "[]" "[]"] assms by (simp add: frac_text_def del: sscanf.simps(4))


text \<open>The constructor of DateTimeValue, on the texts a server sends for dates and for
  timestamps with no or up to six digits of fraction, gives exactly the fields written: the
  fraction is scaled to microseconds whatever its precision.\<close>

theorem DateTimeValue_parses:
  assumes "y < 10000" "mo < 100" "d < 100" "h < 100" "mi < 100" "s < 100" "k \<le> 6" "f < 10 ^ k"
  shows "DateTimeValue_new (date_text y mo d @ 32 # clock_text h mi s @ frac_text k f) =
      \<lparr>dt_years = word_of_nat y, dt_months = word_of_nat mo, dt_days = word_of_nat d, dt_hours = word_of_nat h,
       dt_minutes = word_of_nat mi, dt_seconds = word_of_nat s, dt_usecs = word_of_nat (f * 10 ^ (6 - k))\<rparr> \<and>
    DateTimeValue_new (date_text y mo d) =
      \<lparr>dt_years = word_of_nat y, dt_months = word_of_nat mo, dt_days = word_of_nat d, dt_hours = 0,
       dt_minutes = 0, dt_seconds = 0, dt_usecs = 0\<rparr>"
proof (rule conjI)
  let ?t = "date_text y mo d @ 32 # clock_text h mi s @ frac_text k f"
  have c: "c_chars ?t = ?t" "c_chars (date_text y mo d) = date_text y mo d"
    by (rule c_chars_id, simp add: date_text_def clock_text_def zero_notin_dec frac_text_facts)+
  have sp: "is_space 32" by (simp add: is_space_def)
  note scan = sscanf_dec [OF _ _ _ no_digit_simps(1)] sscanf_dec [OF _ _ _ no_digit_simps(2)] sscanf_dec [OF _ _ _ no_digit_simps(3)]
    sscanf_dec [OF _ _ _ no_digit_simps(5)] sscanf_dec [OF _ _ _ frac_text_facts(1)]
  have v: "sscanf date_time_format ?t = map word_of_nat ([y, mo, d, h, mi, s] @ (if k = 0 then [] else [f]))"
    using assms sscanf_frac [OF assms(7,8)]
    by (simp add: date_time_format_def date_text_def clock_text_def scan sp dropWhile_space_dec del: sscanf.simps(4))
  have v2: "sscanf date_time_format (date_text y mo d) = map word_of_nat [y, mo, d]"
    using assms scan(1) [of 2 d "[D_space, D_num, D_lit 58, D_num, D_lit 58, D_num, D_lit 46, D_num]"]
    by (simp add: date_time_format_def date_text_def scan del: sscanf.simps(4)) (simp add: scan_number_def)
  have len: "length ?t = 19 + (if k = 0 then 0 else Suc k)" by (simp add: date_text_def clock_text_def frac_text_def)
  have f0: "k = 0 \<Longrightarrow> f = 0" using assms(8) by simp
  show "DateTimeValue_new ?t = \<lparr>dt_years = word_of_nat y, dt_months = word_of_nat mo, dt_days = word_of_nat d, dt_hours = word_of_nat h,
       dt_minutes = word_of_nat mi, dt_seconds = word_of_nat s, dt_usecs = word_of_nat (f * 10 ^ (6 - k))\<rparr>"
    unfolding DateTimeValue_new_def c v len Let_def using f0 by (simp add: assigned_def times_ten_eq nth_append ucast_word_of_nat)
  show "DateTimeValue_new (date_text y mo d) = \<lparr>dt_years = word_of_nat y, dt_months = word_of_nat mo, dt_days = word_of_nat d, dt_hours = 0,
       dt_minutes = 0, dt_seconds = 0, dt_usecs = 0\<rparr>"
    unfolding DateTimeValue_new_def c v2 Let_def by (simp add: assigned_def times_ten_eq ucast_word_of_nat)
qed


theorem DateTimeValue_parses_witness:
  "DateTimeValue_new (date_text 2023 4 15 @ 32 # clock_text 10 9 8 @ frac_text 3 250) =
     \<lparr>dt_years = 2023, dt_months = 4, dt_days = 15, dt_hours = 10, dt_minutes = 9, dt_seconds = 8, dt_usecs = 250000\<rparr>"
  using DateTimeValue_parses [of 2023 4 15 10 9 8 3 250] by simp

text \<open>The constructor of TimeValue, on the texts a server sends (a sign, hours of up to nine digits,
  no or up to six digits of fraction), gives exactly the fields written.\<close>

theorem TimeValue_parses:
  assumes "0 < w" "w \<le> 9" "h < 10 ^ w" "mi < 100" "s < 100" "k \<le> 6" "f < 10 ^ k"
  shows "TimeValue_new ((if neg then [45] else []) @ dec w h @ 58 # dec 2 mi @ 58 # dec 2 s @ frac_text k f) =
      \<lparr>tv_is_negative = neg, tv_hours = word_of_nat h, tv_minutes = word_of_nat mi, tv_seconds = word_of_nat s,
       tv_usecs = word_of_nat (f * 10 ^ (6 - k))\<rparr>"
proof -
  let ?u = "dec w h @ 58 # dec 2 mi @ 58 # dec 2 s @ frac_text k f"
  let ?t = "(if neg then [45] else []) @ ?u"
  have c: "c_chars ?u = ?u" by (rule c_chars_id) (simp add: zero_notin_dec frac_text_facts)
  note scan = sscanf_dec [OF _ _ _ no_digit_simps(3)] sscanf_dec [OF _ _ _ frac_text_facts(1)]
  have v: "sscanf time_format ?u = map word_of_nat ([h, mi, s] @ (if k = 0 then [] else [f]))"
    using assms sscanf_frac [OF assms(6,7)] by (simp add: time_format_def scan del: sscanf.simps(4))
  obtain b bs where d: "dec w h = b # bs" using assms(1) by (metis length_dec length_greater_0_conv list.exhaust)
  have "b \<noteq> 45" using is_digit_facts [OF dec_is_digit [of b w h]] d by simp
  then have neg: "(?t \<noteq> [] \<and> hd ?t = 45) = neg" "(if neg then tl ?t else ?t) = ?u" by (simp_all add: d)
  have fr: "46 \<in> set ?t \<longleftrightarrow> k \<noteq> 0" "k \<noteq> 0 \<Longrightarrow> dropWhile (\<lambda>b. b \<noteq> 46) ?t = 46 # dec k f"
    using zero_notin_dec(2) by (auto simp: frac_text_def dropWhile_dec)
  have sf: "k \<noteq> 0 \<Longrightarrow> sscanf [D_num] (c_chars (dec k f)) = [word_of_nat f]"
    using sscanf_dec [of k f "[]" "[]"] assms by (simp add: c_chars_id zero_notin_dec del: sscanf.simps(4))
  have f0: "k = 0 \<Longrightarrow> f = 0" using assms(7) by simp
  show ?thesis
  proof (cases "k = 0")
    case True
    then show ?thesis unfolding TimeValue_new_def neg c v Let_def fr(1) using f0
      by (simp add: assigned_def ucast_word_of_nat)
  next
    case False
    then show ?thesis unfolding TimeValue_new_def neg c v Let_def fr(1) fr(2) [OF False] list.sel sf [OF False]
      by (simp add: assigned_def ucast_word_of_nat times_ten_eq)
  qed
qed

theorem TimeValue_parses_witness:
  "TimeValue_new (45 # dec 3 838 @ 58 # dec 2 59 @ 58 # dec 2 7 @ frac_text 0 0) =
     \<lparr>tv_is_negative = True, tv_hours = 838, tv_minutes = 59, tv_seconds = 7, tv_usecs = 0\<rparr>"
  using TimeValue_parses [of 3 838 59 7 0 0 True] by (simp del: dec.simps)

text \<open>The printed name of a column type is the name of its enumerator; the other bytes throw.\<close>

lemma name_for_column_type_correct:
  "name_for_column_type P (column_type_code T_TIME2) = Ret ''T_TIME2''"
  "name_for_column_type P (column_type_code T_BOOL) = Ret ''T_BOOL''"
  "column_type_of b = None \<Longrightarrow> name_for_column_type P b = Throw (Runtime_error (string_printf P ''%02hhX'' [P_int (uint b)]))"
proof -
  show "name_for_column_type P (column_type_code T_TIME2) = Ret ''T_TIME2''" "name_for_column_type P (column_type_code T_BOOL) = Ret ''T_BOOL''"
    by (simp_all add: name_for_column_type_def low_types_def high_types_def word_le_nat_alt)
  assume "column_type_of b = None"
  then have n: "b \<noteq> column_type_code t" for t using column_types_all by (auto simp: column_type_of_def find_None_iff)
  have "20 \<le> unat b \<and> unat b < 244"
  proof (rule ccontr)
    assume "\<not> (20 \<le> unat b \<and> unat b < 244)"
    moreover have "unat b < 256" using unsigned_less [of b] by simp
    ultimately have "unat b \<in> set ([0..<20] @ [244..<256])" unfolding set_append set_upt by auto
    then have "b \<in> set (map word_of_nat ([0..<20] @ [244..<256]))" unfolding set_map by (rule image_eqI [rotated]) simp
    also have "set (map word_of_nat ([0..<20] @ [244..<256])) = set (map column_type_code column_types)"
      by (simp add: upt_rec column_types_def)
    finally show False using n by auto
  qed
  then show "name_for_column_type P b = Throw (Runtime_error (string_printf P ''%02hhX'' [P_int (uint b)]))"
    by (simp add: name_for_column_type_def low_types_def word_le_nat_alt)
qed

end
