(* ===== verification/Base_Connect.thy ===== *)
theory Base_Connect
  imports Buffer_Async Phosg
begin

text \<open>
  \<open>Base::connect\<close> of Base.cc, which both protocol clients call, and two simulation rules they share.
\<close>

text \<open>\<open>Base::connect\<close>: start connecting, and wait for the descriptor to become writable.\<close>

definition Base_connect :: "phosg_api \<Rightarrow> bytes \<Rightarrow> nat \<Rightarrow> (('b, 'z) chan_scheme, int) act" where
  "Base_connect P addr port = (case net_connect P addr port of
     Ret fd \<Rightarrow> await_chan (\<lambda>st aw s. (aw, s, Resume)) (\<lambda>_. Ret fd) ()
   | Throw e \<Rightarrow> throwA e
   | Blocked \<Rightarrow> (\<lambda>s. (Blocked, s)))"

lemma simA_case_prod [sim_intros]:
  "(\<And>a b. simA h (f a b) (g a b)) \<Longrightarrow> simA h (case p of (a, b) \<Rightarrow> f a b) (case p of (a, b) \<Rightarrow> g a b)"
  by (cases p) simp


end
