(* ===== verification/MySQL_Client.thy ===== *)
theory MySQL_Client
  imports MySQL_ProtocolBuffer MySQL_Types Base_Connect
begin

text \<open>
  Protocols/MySQL/Client.cc: the MySQL client.  Its state is a connection and the fields of the
  class; a ProtocolBuffer local to an operation is the connection's buffer.  The lemmas show what
  the client sends, how it decodes what the server answers, and how it tracks sequence numbers and
  the state of a binlog stream.
\<close>

section \<open>Conversions of the standard library\<close>

text \<open>
  \<open>stoll\<close> and \<open>stoull\<close> with base 10.  \<open>stof\<close> and \<open>stod\<close> round a decimal number to a floating-point
  number; they are parameters.
\<close>

record float_api =
  stof :: "bytes \<Rightarrow> u32 outcome"
  stod :: "bytes \<Rightarrow> u64 outcome"

definition stoll :: "bytes \<Rightarrow> 64 word outcome" where
  "stoll s = (case scan_number (c_chars s) of
     None \<Rightarrow> Throw (Invalid_argument ''stoll'')
   | Some (neg, n, _) \<Rightarrow> if (if neg then n \<le> 2 ^ 63 else n < 2 ^ 63)
       then Ret (if neg then - word_of_nat n else word_of_nat n) else Throw (Out_of_range ''stoll''))"

definition stoull :: "bytes \<Rightarrow> u64 outcome" where
  "stoull s = (case scan_number (c_chars s) of
     None \<Rightarrow> Throw (Invalid_argument ''stoull'')
   | Some (neg, n, _) \<Rightarrow> if n < 2 ^ 64 then Ret (if neg then - word_of_nat n else word_of_nat n)
       else Throw (Out_of_range ''stoull''))"

definition map_outcome :: "('a \<Rightarrow> 'b) \<Rightarrow> 'a outcome \<Rightarrow> 'b outcome" where
  "map_outcome f r = (case r of Ret x \<Rightarrow> Ret (f x) | Throw e \<Rightarrow> Throw e | Blocked \<Rightarrow> Blocked)"

definition parse_value :: "float_api \<Rightarrow> u8 \<Rightarrow> bytes \<Rightarrow> mysql_value outcome" where
  "parse_value F type val = (case column_type_of type of
     None \<Rightarrow> Throw (Runtime_error ''invalid value type'')
   | Some t \<Rightarrow>
     if t \<in> {T_TINYINT, T_SMALLINT, T_MEDIUMINT, T_INT, T_BIGINT, T_YEAR} then
       (if val = [] then Throw (Out_of_range ''basic_string::at'')
        else if hd val = 45 then map_outcome V_int (stoll val)
        else map_outcome V_uint (stoull val))
     else if t = T_FLOAT then map_outcome V_float (stof F val)
     else if t = T_DOUBLE then map_outcome V_double (stod F val)
     else if t = T_NULL then Ret V_null
     else if t \<in> {T_DATE, T_DATETIME, T_TIMESTAMP} then Ret (V_datetime (DateTimeValue_new val))
     else if t = T_TIME then Ret (V_time (TimeValue_new val))
     else if t \<in> {T_BIT, T_STRING, T_VAR_STRING, T_VARCHAR, T_TINYBLOB, T_BLOB, T_MEDIUMBLOB, T_LONGBLOB,
         T_DECIMAL, T_NEWDECIMAL, T_ENUM, T_SET, T_GEOMETRY} then Ret (V_string val)
     else Throw (Runtime_error ''invalid value type''))"

section \<open>The client\<close>

datatype binlog_read_state = NOT_READING | READING_FIRST_EVENT | READING_EVENT

record mysql_fields =
  my_hostname :: bytes
  my_port :: u16
  my_username :: bytes
  my_password :: bytes
  my_fd :: int
  my_next_seq :: u8
  my_server_version :: bytes
  my_connection_id :: u32
  my_server_cap_flags :: u32
  my_charset :: u8
  my_status_flags :: u16
  my_binlog_read_state :: binlog_read_state
  my_expected_binlog_seq :: u8

record 'b mysql_client = "'b chan" +
  my :: mysql_fields

definition gets_my :: "(mysql_fields \<Rightarrow> 'a) \<Rightarrow> ('b mysql_client, 'a) act" where
  "gets_my f = getsA (\<lambda>s. f (my s))"

definition modify_my :: "(mysql_fields \<Rightarrow> mysql_fields) \<Rightarrow> ('b mysql_client, unit) act" where
  "modify_my g = modifyA (\<lambda>s. s\<lparr>my := g (my s)\<rparr>)"

text \<open>The constructor: the fields it does not name are as they are in memory.\<close>

definition MySQL_Client_new :: "bytes \<Rightarrow> u16 \<Rightarrow> bytes \<Rightarrow> bytes \<Rightarrow> ('b mysql_client, unit) act" where
  "MySQL_Client_new hostname port username password = modify_my (\<lambda>c. c\<lparr>my_hostname := hostname, my_port := port,
     my_username := username, my_password := password, my_fd := -1, my_next_seq := 0, my_server_version := [],
     my_binlog_read_state := NOT_READING, my_expected_binlog_seq := 0\<rparr>)"

definition MySQL_read_command :: "'b evbuffer_api \<Rightarrow> ('b mysql_client, unit) act" where
  "MySQL_read_command E = bindA (ProtocolBuffer_read_command E) (\<lambda>seq.
     bindA (gets_my my_next_seq) (\<lambda>n.
       if seq \<noteq> n then throwA (Runtime_error ''server sent out-of-sequence commands'')
       else modify_my (\<lambda>c. c\<lparr>my_next_seq := my_next_seq c + 1\<rparr>)))"

definition MySQL_write_command :: "'b evbuffer_api \<Rightarrow> ('b mysql_client, unit) act" where
  "MySQL_write_command E = bindA (gets_my my_next_seq) (\<lambda>q.
     seqA (modify_my (\<lambda>c. c\<lparr>my_next_seq := my_next_seq c + 1\<rparr>)) (ProtocolBuffer_write_command E q))"

definition MySQL_reset_seq :: "('b mysql_client, unit) act" where
  "MySQL_reset_seq = modify_my (\<lambda>c. c\<lparr>my_next_seq := 0\<rparr>)"

definition MySQL_assert_conn_open :: "phosg_api \<Rightarrow> ('b mysql_client, unit) act" where
  "MySQL_assert_conn_open P = bindA (gets_my my_fd) (\<lambda>fd.
     if \<not> fd_is_open P fd then throwA (Runtime_error ''cannot execute command on non-open connection'') else retA ())"

definition xor_at :: "bytes \<Rightarrow> bytes \<Rightarrow> nat \<Rightarrow> byte option" where
  "xor_at a b x = (case (str_at a x, str_at b x) of (Some p, Some q) \<Rightarrow> Some (p XOR q) | _ \<Rightarrow> None)"

definition compute_auth_response :: "phosg_api \<Rightarrow> bytes \<Rightarrow> bytes \<Rightarrow> bytes \<Rightarrow> bytes outcome" where
  "compute_auth_response P auth_plugin_name auth_plugin_data password =
     (if auth_plugin_name = ascii ''caching_sha2_password'' then
        let password_sha256 = sha256 P password;
            password_sha256_sha256 = sha256 P password_sha256;
            hash_with_nonce = sha256 P (password_sha256_sha256 @ auth_plugin_data);
            cells = map (xor_at password_sha256 hash_with_nonce) [0..<0x20] in
        if None \<in> set cells then Throw (Undefined_behaviour ''string index out of range'')
        else Ret (map the cells)
      else Throw (Runtime_error (''unsupported auth plugin: '' @ text_of auth_plugin_name)))"

text \<open>The first packet of the server, as the fields of the client and the two parts of the challenge.\<close>

definition read_greeting :: "'b evbuffer_api \<Rightarrow> ('b mysql_client, bytes \<times> bytes) act" where
  "read_greeting E =
     bindA (on_buf (Buffer_remove_u8 E)) (\<lambda>ver.
     if ver \<noteq> 10 then throwA (Runtime_error ''unrecognized protocol version'') else
     bindA (on_buf (ProtocolBuffer_remove_string0 E)) (\<lambda>version.
     seqA (modify_my (\<lambda>c. c\<lparr>my_server_version := version\<rparr>))
     (bindA (on_buf (Buffer_remove_u32l E)) (\<lambda>cid.
     seqA (modify_my (\<lambda>c. c\<lparr>my_connection_id := cid\<rparr>))
     (bindA (on_buf (Buffer_remove E 8)) (\<lambda>challenge1.
     bindA (on_buf (Buffer_remove_u8 E)) (\<lambda>_.
     bindA (on_buf (Buffer_remove_u16l E)) (\<lambda>caps_lo.
     seqA (modify_my (\<lambda>c. c\<lparr>my_server_cap_flags := ucast caps_lo\<rparr>))
     (bindA (on_buf (Buffer_remove_u8 E)) (\<lambda>charset.
     seqA (modify_my (\<lambda>c. c\<lparr>my_charset := charset\<rparr>))
     (bindA (on_buf (Buffer_remove_u16l E)) (\<lambda>status.
     seqA (modify_my (\<lambda>c. c\<lparr>my_status_flags := status\<rparr>))
     (bindA (on_buf (Buffer_remove_u16l E)) (\<lambda>caps_hi.
     seqA (modify_my (\<lambda>c. c\<lparr>my_server_cap_flags := my_server_cap_flags c OR push_bit 16 (ucast caps_hi)\<rparr>))
     (bindA (on_buf (Buffer_remove_u8 E)) (\<lambda>auth_plugin_data_length.
     seqA (on_buf (Buffer_drain E 10))
     (let remaining0 = (ucast auth_plugin_data_length - 8 :: u64);
          remaining = (if remaining0 < 13 then 13 else remaining0) in
     bindA (on_buf (Buffer_remove E (unat remaining))) (\<lambda>challenge2.
     bindA (on_buf (ProtocolBuffer_remove_string0 E)) (\<lambda>auth_plugin_name.
     bindA (on_buf (Buffer_get_length E)) (\<lambda>len.
     if len \<noteq> 0 then throwA (Logic_error ''not all data in initial handshake was consumed'')
     else retA (auth_plugin_name, resize (unat auth_plugin_data_length) (challenge1 @ challenge2))))))))))))))))))))))"

text \<open>A trailing zero of the challenge is not passed to the plugin; \<open>back()\<close> of an empty string is undefined.\<close>

definition strip_challenge :: "bytes \<Rightarrow> bytes outcome" where
  "strip_challenge d = (if d = [] then Throw (Undefined_behaviour ''back() of an empty string'')
     else if last d = 0 then Ret (butlast d) else Ret d)"

definition send_login :: "'b evbuffer_api \<Rightarrow> bytes \<Rightarrow> bytes \<Rightarrow> ('b mysql_client, unit) act" where
  "send_login E auth_plugin_name auth_response_data =
     seqA (on_buf (Buffer_add_u32l E 0x012BA201))
     (seqA (on_buf (Buffer_add_u32l E 0xFFFFFFFF))
     (seqA (on_buf (Buffer_add_u8 E 0xFF))
     (seqA (on_buf (ProtocolBuffer_add_zeroes E 23))
     (bindA (gets_my my_username) (\<lambda>username.
     seqA (on_buf (ProtocolBuffer_add_string0 E username))
     (seqA (on_buf (ProtocolBuffer_add_var_string E auth_response_data))
     (seqA (on_buf (ProtocolBuffer_add_string0 E auth_plugin_name))
       (MySQL_write_command E))))))))"

text \<open>
  The loop that waits for the outcome of the authentication.  In the code, the branch for full
  authentication goes on behind its \<open>throw\<close>; that part is never reached.
\<close>

fun auth_loop :: "nat \<Rightarrow> 'b evbuffer_api \<Rightarrow> phosg_api \<Rightarrow> bytes \<Rightarrow> ('b mysql_client, unit) act" where
  "auth_loop 0 E P auth_plugin_name = throwA Out_of_fuel"
| "auth_loop (Suc n) E P auth_plugin_name = seqA (MySQL_read_command E)
     (bindA (on_buf (Buffer_remove_u8 E)) (\<lambda>response_command.
      if response_command = 0x00 then retA ()
      else if response_command = 0x01 then
        if auth_plugin_name = ascii ''caching_sha2_password'' then
          bindA (on_buf (Buffer_remove_u8 E)) (\<lambda>command.
            if command = 3 then auth_loop n E P auth_plugin_name
            else if command = 4 then bindA (on_buf (Buffer_get_length E)) (\<lambda>len.
              if len \<noteq> 0 then throwA (Runtime_error ''auth extra data not fully consumed'')
              else throwA (Runtime_error ''server requested plaintext password, but connection is not encrypted''))
            else throwA (Runtime_error ''unrecognized extra auth data command (caching_sha2_password)''))
        else throwA (Runtime_error (''extra auth data command unimplemented for plugin '' @ text_of auth_plugin_name))
      else if response_command = 0xFF then
        bindA (on_buf (Buffer_remove_u16l E)) (\<lambda>error_code.
        seqA (on_buf (Buffer_drain E 1))
        (bindA (on_buf (Buffer_remove E 5)) (\<lambda>sqlstate.
        bindA (on_buf (ProtocolBuffer_remove_string_eof E)) (\<lambda>message.
          throwA (Runtime_error (string_printf P ''authentication failed: (%hu) %s''
            [P_int (uint error_code), c_str message]))))))
      else throwA (Runtime_error ''unrecognized command during authentication phase'')))"

definition initial_handshake :: "nat \<Rightarrow> 'b evbuffer_api \<Rightarrow> phosg_api \<Rightarrow> ('b mysql_client, unit) act" where
  "initial_handshake fuel E P = seqA (Buffer_new E) (seqA MySQL_reset_seq
     (seqA (MySQL_read_command E)
     (bindA (read_greeting E) (\<lambda>(auth_plugin_name, challenge).
      bindA (liftO (strip_challenge challenge)) (\<lambda>auth_challenge_data.
      bindA (gets_my my_password) (\<lambda>password.
      bindA (liftO (compute_auth_response P auth_plugin_name auth_challenge_data password)) (\<lambda>auth_response_data.
      seqA (send_login E auth_plugin_name auth_response_data)
        (auth_loop fuel E P auth_plugin_name))))))))"

definition MySQL_connect :: "nat \<Rightarrow> 'b evbuffer_api \<Rightarrow> phosg_api \<Rightarrow> ('b mysql_client, unit) act" where
  "MySQL_connect fuel E P = bindA (gets_my my_fd) (\<lambda>fd.
     if fd_is_open P fd then retA ()
     else bindA (gets_my (\<lambda>c. (my_hostname c, my_port c))) (\<lambda>(host, port).
       bindA (Base_connect P host (unat port)) (\<lambda>fd.
         seqA (modify_my (\<lambda>c. c\<lparr>my_fd := fd\<rparr>)) (initial_handshake fuel E P))))"

definition MySQL_quit :: "'b evbuffer_api \<Rightarrow> phosg_api \<Rightarrow> ('b mysql_client, unit) act" where
  "MySQL_quit E P = seqA (MySQL_assert_conn_open P) (seqA MySQL_reset_seq (seqA (Buffer_new E)
     (seqA (on_buf (Buffer_add_u8 E (mysql_command_code QUIT)))
       (seqA (MySQL_write_command E) (modify_my (\<lambda>c. c\<lparr>my_fd := -1\<rparr>))))))"

text \<open>It always throws.\<close>

definition parse_error_body :: "'b evbuffer_api \<Rightarrow> phosg_api \<Rightarrow> ('b, unit) act" where
  "parse_error_body E P = bindA (Buffer_remove_u16l E) (\<lambda>error_code.
     bindA (Buffer_remove E 6) (\<lambda>sqlstate.
     bindA (ProtocolBuffer_remove_string_eof E) (\<lambda>message.
       throwA (Runtime_error (string_printf P ''(%hu; %s) %s'' [P_int (uint error_code), c_str sqlstate, c_str message])))))"

definition expect_ok :: "'b evbuffer_api \<Rightarrow> phosg_api \<Rightarrow> ('b mysql_client, unit) act" where
  "expect_ok E P = seqA (Buffer_new E) (seqA (MySQL_read_command E)
     (bindA (on_buf (Buffer_remove_u8 E)) (\<lambda>response_command.
       if response_command = 0x00 then retA ()
       else if response_command = 0xFF then on_buf (parse_error_body E P)
       else throwA (Runtime_error ''unrecognized response when OK or ERR expected''))))"

definition change_db :: "'b evbuffer_api \<Rightarrow> phosg_api \<Rightarrow> bytes \<Rightarrow> ('b mysql_client, unit) act" where
  "change_db E P db_name = seqA (MySQL_assert_conn_open P) (seqA MySQL_reset_seq (seqA (Buffer_new E)
     (seqA (on_buf (Buffer_add_u8 E (mysql_command_code INIT_DB)))
       (seqA (on_buf (Buffer_add_string E db_name))
         (seqA (MySQL_write_command E) (expect_ok E P))))))"

section \<open>Queries\<close>

definition read_column_definition :: "'b evbuffer_api \<Rightarrow> ('b, column_definition) act" where
  "read_column_definition E =
     bindA (ProtocolBuffer_remove_var_string E) (\<lambda>catalog_name.
     bindA (ProtocolBuffer_remove_var_string E) (\<lambda>database_name.
     bindA (ProtocolBuffer_remove_var_string E) (\<lambda>table_name.
     bindA (ProtocolBuffer_remove_var_string E) (\<lambda>original_table_name.
     bindA (ProtocolBuffer_remove_var_string E) (\<lambda>column_name.
     bindA (ProtocolBuffer_remove_var_string E) (\<lambda>original_column_name.
     bindA (ProtocolBuffer_remove_varint E) (\<lambda>n.
     if n \<noteq> 0x0C then throwA (Runtime_error ''column metadata has incorrect fixed-length header'') else
     bindA (Buffer_remove_u16l E) (\<lambda>charset.
     bindA (Buffer_remove_u32l E) (\<lambda>max_value_length.
     bindA (Buffer_remove_u8 E) (\<lambda>type.
     bindA (Buffer_remove_u16l E) (\<lambda>flags.
     bindA (Buffer_remove_u8 E) (\<lambda>decimals.
     bindA (Buffer_remove_u16l E) (\<lambda>_.
       retA \<lparr>cd_catalog_name = catalog_name, cd_database_name = database_name, cd_table_name = table_name,
         cd_original_table_name = original_table_name, cd_column_name = column_name,
         cd_original_column_name = original_column_name, cd_charset = charset, cd_max_value_length = max_value_length,
         cd_type = type, cd_flags = flags, cd_decimals = decimals\<rparr>)))))))))))))"

fun columns_loop :: "nat \<Rightarrow> 'b evbuffer_api \<Rightarrow> column_definition list \<Rightarrow> ('b mysql_client, column_definition list) act" where
  "columns_loop 0 E cols = retA cols"
| "columns_loop (Suc n) E cols = seqA (MySQL_read_command E)
     (bindA (on_buf (read_column_definition E)) (\<lambda>def. columns_loop n E (cols @ [def])))"

definition read_cell :: "'b evbuffer_api \<Rightarrow> float_api \<Rightarrow> column_definition \<Rightarrow> ('b, mysql_value) act" where
  "read_cell E F def = bindA (Buffer_copyout_u8 E) (\<lambda>b.
     if b = 0xFB then seqA (Buffer_remove_u8 E) (retA V_null)
     else bindA (ProtocolBuffer_remove_var_string E) (\<lambda>val. liftO (parse_value F (cd_type def) val)))"

text \<open>The cells of a row, in the order of the columns, as a vector or as a dictionary.\<close>

definition add_row :: "column_definition list \<Rightarrow> mysql_value list \<Rightarrow> result_rows \<Rightarrow> result_rows" where
  "add_row cols cells rows = (case rows of
     Rows_vecs rs \<Rightarrow> Rows_vecs (rs @ [cells])
   | Rows_dicts rs \<Rightarrow> Rows_dicts (rs @ [foldl (\<lambda>m (def, x). map_emplace m (cd_column_name def) x) Map.empty (zip cols cells)]))"

fun rows_loop :: "nat \<Rightarrow> 'b evbuffer_api \<Rightarrow> float_api \<Rightarrow> column_definition list \<Rightarrow> result_rows
    \<Rightarrow> ('b mysql_client, result_rows \<times> u16 \<times> u16) act" where
  "rows_loop 0 E F cols rows = throwA Out_of_fuel"
| "rows_loop (Suc n) E F cols rows = seqA (MySQL_read_command E)
     (bindA (on_buf (Buffer_copyout_u8 E)) (\<lambda>b.
      if b = 0xFE then
        bindA (on_buf (Buffer_remove_u8 E)) (\<lambda>_.
        bindA (on_buf (Buffer_remove_u16l E)) (\<lambda>warning_count.
        bindA (on_buf (Buffer_remove_u16l E)) (\<lambda>status_flags. retA (rows, warning_count, status_flags))))
      else bindA (on_buf (collectA (read_cell E F) cols)) (\<lambda>cells.
        rows_loop n E F cols (add_row cols cells rows))))"

fun results_loop :: "nat \<Rightarrow> nat \<Rightarrow> 'b evbuffer_api \<Rightarrow> phosg_api \<Rightarrow> float_api \<Rightarrow> bool \<Rightarrow> result_set list
    \<Rightarrow> ('b mysql_client, result_set list) act" where
  "results_loop 0 m E P F rows_as_dicts ret = throwA Out_of_fuel"
| "results_loop (Suc n) m E P F rows_as_dicts ret = seqA (MySQL_read_command E)
     (bindA (on_buf (Buffer_copyout_u8 E)) (\<lambda>response_command.
      if response_command = 0x00 then
        bindA (on_buf (Buffer_remove_u8 E)) (\<lambda>_.
        bindA (on_buf (ProtocolBuffer_remove_varint E)) (\<lambda>affected_rows.
        bindA (on_buf (ProtocolBuffer_remove_varint E)) (\<lambda>insert_id.
        bindA (on_buf (Buffer_remove_u16l E)) (\<lambda>status_flags.
        bindA (on_buf (Buffer_remove_u16l E)) (\<lambda>warning_count.
          let ret' = ret @ [\<lparr>rs_columns = [], rs_rows = Rows_vecs [], rs_affected_rows = affected_rows,
            rs_insert_id = insert_id, rs_status_flags = status_flags, rs_warning_count = warning_count\<rparr>] in
          if status_flags AND MORE_RESULTS_EXIST = 0 then retA ret'
          else results_loop n m E P F rows_as_dicts ret')))))
      else seqA (if response_command = 0xFF then on_buf (parse_error_body E P)
          else if response_command = 0xFB then throwA (Runtime_error ''LOCAL INFILE requests are not implemented'')
          else retA ())
        (bindA (on_buf (ProtocolBuffer_remove_varint E)) (\<lambda>column_count.
         bindA (columns_loop (unat column_count) E []) (\<lambda>cols.
         bindA (rows_loop m E F cols (if rows_as_dicts then Rows_dicts [] else Rows_vecs [])) (\<lambda>(rows, warning_count, status_flags).
           let ret' = ret @ [\<lparr>rs_columns = cols, rs_rows = rows, rs_affected_rows = 0, rs_insert_id = 0,
             rs_status_flags = status_flags, rs_warning_count = warning_count\<rparr>] in
           if status_flags AND MORE_RESULTS_EXIST = 0 then retA ret'
           else seqA (on_buf (Buffer_drain_all E)) (results_loop n m E P F rows_as_dicts ret')))))))"

definition query_multi :: "nat \<Rightarrow> 'b evbuffer_api \<Rightarrow> phosg_api \<Rightarrow> float_api \<Rightarrow> bytes \<Rightarrow> bool
    \<Rightarrow> ('b mysql_client, result_set list) act" where
  "query_multi fuel E P F sql rows_as_dicts = seqA (MySQL_assert_conn_open P) (seqA MySQL_reset_seq (seqA (Buffer_new E)
     (seqA (on_buf (Buffer_add_u8 E (mysql_command_code QUERY)))
       (seqA (on_buf (Buffer_add_string E sql))
         (seqA (MySQL_write_command E) (results_loop fuel fuel E P F rows_as_dicts []))))))"

definition MySQL_query :: "nat \<Rightarrow> 'b evbuffer_api \<Rightarrow> phosg_api \<Rightarrow> float_api \<Rightarrow> bytes \<Rightarrow> bool
    \<Rightarrow> ('b mysql_client, result_set) act" where
  "MySQL_query fuel E P F sql rows_as_dicts = bindA (query_multi fuel E P F sql rows_as_dicts) (\<lambda>ret.
     case ret of [r] \<Rightarrow> retA r
     | _ \<Rightarrow> throwA (Logic_error ''query returned multiple result sets; use query_multi instead''))"

section \<open>Binlogs\<close>

definition quoted :: "bytes \<Rightarrow> bytes" where
  "quoted t = [39] @ t @ [39]"

text \<open>\<open>rnd\<close> is what \<open>random_object\<close> returns.\<close>

definition read_binlogs :: "nat \<Rightarrow> 'b evbuffer_api \<Rightarrow> phosg_api \<Rightarrow> float_api \<Rightarrow> u32 \<Rightarrow> bytes \<Rightarrow> u64 \<Rightarrow> u32 \<Rightarrow> bool
    \<Rightarrow> ('b mysql_client, unit) act" where
  "read_binlogs fuel E P F rnd filename position server_id block = seqA (MySQL_assert_conn_open P)
     (bindA (MySQL_query fuel E P F
        (ascii ''SET @master_binlog_checksum = '' @ quoted (ascii ''ALL'') @ ascii '', @source_binlog_checksum = '' @ quoted (ascii ''ALL'')) True) (\<lambda>_.
      let server_id' = (if server_id = 0 then rnd else server_id) in
      seqA MySQL_reset_seq (seqA (Buffer_new E)
        (seqA (on_buf (Buffer_add_u8 E (mysql_command_code BINLOG_DUMP)))
        (seqA (on_buf (Buffer_add_u32l E (ucast position)))
        (seqA (on_buf (Buffer_add_u16l E (if block then 0x0000 else 0x0001)))
        (seqA (on_buf (Buffer_add_u32l E server_id'))
        (seqA (on_buf (Buffer_add_string E filename))
        (seqA (MySQL_write_command E)
          (modify_my (\<lambda>c. c\<lparr>my_binlog_read_state := READING_FIRST_EVENT, my_expected_binlog_seq := 1\<rparr>)))))))))))"

text \<open>\<open>resize(size() - 4)\<close> of a shorter string asks for almost \<open>2^64\<close> bytes, which throws.\<close>

definition drop_checksum :: "bytes \<Rightarrow> bytes outcome" where
  "drop_checksum d = (if length d < 4 then Throw (Logic_error ''basic_string::_M_replace_aux'') else Ret (take (length d - 4) d))"

definition get_binlog_event :: "'b evbuffer_api \<Rightarrow> phosg_api \<Rightarrow> ('b mysql_client, bytes) act" where
  "get_binlog_event E P = seqA (MySQL_assert_conn_open P) (bindA (gets_my my_binlog_read_state) (\<lambda>state.
     if state = NOT_READING then throwA (Logic_error ''get_binlog_event called before read_binlogs or after out_of_range'')
     else seqA (Buffer_new E) (seqA (MySQL_read_command E)
       (bindA (on_buf (Buffer_remove_u8 E)) (\<lambda>command.
        if command = 0xFE then
          seqA (modify_my (\<lambda>c. c\<lparr>my_binlog_read_state := NOT_READING\<rparr>)) (throwA (Out_of_range ''end of binlog stream''))
        else if command = 0 then
          bindA (on_buf (ProtocolBuffer_remove_string_eof E)) (\<lambda>ret.
          bindA (liftO (if state \<noteq> READING_FIRST_EVENT then drop_checksum ret else Ret ret)) (\<lambda>ret.
          seqA (modify_my (\<lambda>c. c\<lparr>my_binlog_read_state := READING_EVENT\<rparr>)) (retA ret)))
        else throwA (Runtime_error ''binlog event does not begin with OK byte''))))))"


section \<open>Simulation\<close>

lemma my_abs [simp]: "my (chan_abs v s) = my s"
  by (cases s) (simp add: chan_abs_def)

lemma my_update_abs [simp]: "chan_abs v (s\<lparr>my := x\<rparr>) = (chan_abs v s)\<lparr>my := x\<rparr>"
  by (cases s) (simp add: chan_abs_def)

lemma my_sims [sim_intros]:
  "simA (chan_abs v) (gets_my f) (gets_my f)"
  "simA (chan_abs v) (modify_my g) (modify_my g)"
  by (simp_all add: simA_def gets_my_def modify_my_def)

lemma simA_let [sim_intros]: "simA h (f x) (g x) \<Longrightarrow> simA h (let y = x in f y) (let y = x in g y)"
  by simp

lemma MySQL_seq_sims [sim_intros]:
  "simA (chan_abs v) MySQL_reset_seq MySQL_reset_seq"
  "simA (chan_abs v) (MySQL_assert_conn_open P) (MySQL_assert_conn_open P)"
  unfolding MySQL_reset_seq_def MySQL_assert_conn_open_def by (intro sim_intros)+

lemma MySQL_command_sims [sim_intros]:
  assumes "evbuffer_spec E v"
  shows "simA (chan_abs v) (MySQL_read_command E) (MySQL_read_command (evb_ref E))"
    and "simA (chan_abs v) (MySQL_write_command E) (MySQL_write_command (evb_ref E))"
  unfolding MySQL_read_command_def MySQL_write_command_def by (intro sim_intros assms)+

lemma payload_sims [sim_intros]:
  assumes "evbuffer_spec E v"
  shows "simA v (parse_error_body E P) (parse_error_body (evb_ref E) P)"
    and "simA v (read_column_definition E) (read_column_definition (evb_ref E))"
    and "simA v (read_cell E F def) (read_cell (evb_ref E) F def)"
  unfolding parse_error_body_def read_column_definition_def read_cell_def Buffer_remove_defs Buffer_copyout_defs
  by (intro sim_intros assms)+

lemma columns_loop_sim [sim_intros]:
  assumes "evbuffer_spec E v"
  shows "simA (chan_abs v) (columns_loop n E cols) (columns_loop n (evb_ref E) cols)"
  by (induction n arbitrary: cols) (auto intro!: sim_intros assms)

lemma rows_loop_sim [sim_intros]:
  assumes "evbuffer_spec E v"
  shows "simA (chan_abs v) (rows_loop n E F cols rows) (rows_loop n (evb_ref E) F cols rows)"
proof (induction n arbitrary: rows)
  case (Suc n)
  show ?case unfolding rows_loop.simps Buffer_remove_defs Buffer_copyout_defs by (intro sim_intros assms Suc)
qed (simp add: simA_def)

lemma results_loop_sim [sim_intros]:
  assumes "evbuffer_spec E v"
  shows "simA (chan_abs v) (results_loop n m E P F d ret) (results_loop n m (evb_ref E) P F d ret)"
proof (induction n arbitrary: ret)
  case (Suc n)
  show ?case unfolding results_loop.simps Buffer_remove_defs Buffer_copyout_defs by (intro sim_intros assms Suc)
qed (simp add: simA_def)

lemma query_sims [sim_intros]:
  assumes "evbuffer_spec E v"
  shows "simA (chan_abs v) (query_multi n E P F sql d) (query_multi n (evb_ref E) P F sql d)"
    and "simA (chan_abs v) (get_binlog_event E P) (get_binlog_event (evb_ref E) P)"
    and "simA (chan_abs v) (change_db E P sql) (change_db (evb_ref E) P sql)"
    and "simA (chan_abs v) (MySQL_quit E P) (MySQL_quit (evb_ref E) P)"
  unfolding query_multi_def get_binlog_event_def change_db_def expect_ok_def MySQL_quit_def Buffer_remove_defs Buffer_add_defs
  by (intro sim_intros assms)+

lemma auth_loop_sim [sim_intros]:
  assumes "evbuffer_spec E v"
  shows "simA (chan_abs v) (auth_loop n E P name) (auth_loop n (evb_ref E) P name)"
proof (induction n)
  case (Suc n)
  show ?case unfolding auth_loop.simps Buffer_remove_defs by (intro sim_intros assms Suc)
qed (simp add: simA_def)

lemma handshake_sim [sim_intros]:
  assumes "evbuffer_spec E v"
  shows "simA (chan_abs v) (initial_handshake n E P) (initial_handshake n (evb_ref E) P)"
  unfolding initial_handshake_def read_greeting_def send_login_def Buffer_remove_defs Buffer_add_defs
  by (intro sim_intros assms)

section \<open>Rules\<close>

text \<open>The part of the state behind the connection, as the connection's rules see it.\<close>

definition client_more :: "mysql_fields \<Rightarrow> unit mysql_client_ext" where
  "client_more c = chan.more (\<lparr>ch_buf = [], ch_inp = [], ch_sched = [], ch_out = [], my = c\<rparr> :: bytes mysql_client)"

lemma client_more_iff: "chan.more (s :: 'b mysql_client) = client_more c \<longleftrightarrow> my s = c"
  by (cases s) (simp add: client_more_def)

abbreviation client_at :: "bytes \<Rightarrow> bytes \<Rightarrow> bytes \<Rightarrow> nat \<Rightarrow> mysql_fields \<Rightarrow> bytes mysql_client \<Rightarrow> bool" where
  "client_at b inp out w c \<equiv> chan_at b inp out w (client_more c)"

lemma client_at_iff:
  "client_at b inp out w c s \<longleftrightarrow> ch_buf s = b \<and> ch_inp s = inp \<and> ch_out s = out \<and> live w s \<and> my s = c"
  by (auto simp: chan_at_def client_more_iff)

lemma reaches_gets_my: "client_at b inp out w c s \<Longrightarrow> reaches (gets_my f) s (f c) (client_at b inp out w c)"
  by (simp add: reaches_def gets_my_def client_at_iff)

lemma reaches_modify_my: "client_at b inp out w c s \<Longrightarrow> reaches (modify_my g) s () (client_at b inp out w (g c))"
  by (auto simp: reaches_def modify_my_def client_at_iff live_def)

lemma reaches_Buffer_new: "chan_at b inp out w x s \<Longrightarrow> reaches (Buffer_new (evb_list z)) s () (chan_at [] inp out w x)"
  by (auto simp: reaches_def Buffer_new_def chan_at_def live_def)

lemma reaches_assert_conn_open:
  "client_at b inp out w c s \<Longrightarrow> fd_is_open P (my_fd c) \<Longrightarrow> reaches (MySQL_assert_conn_open P) s () (client_at b inp out w c)"
  unfolding MySQL_assert_conn_open_def by (rule reaches_bindA [OF reaches_gets_my]) (auto intro: reaches_retA)

lemma reaches_reset_seq:
  "client_at b inp out w c s \<Longrightarrow> reaches MySQL_reset_seq s () (client_at b inp out w (c\<lparr>my_next_seq := 0\<rparr>))"
  unfolding MySQL_reset_seq_def by (rule reaches_modify_my)

text \<open>A packet with the expected sequence number is read; one with another number is refused.\<close>

lemma reaches_MySQL_read:
  assumes "client_at [] (command_frame (my_next_seq c) p @ inp) out w c s" "length p < 2 ^ 24"
  shows "reaches (MySQL_read_command (evb_list z)) s () (client_at p inp out w (c\<lparr>my_next_seq := my_next_seq c + 1\<rparr>))"
  unfolding MySQL_read_command_def
  by (rule reaches_bindA [OF reaches_read_command [OF assms]], rule reaches_bindA, erule reaches_gets_my)
    (auto intro: reaches_modify_my)

lemma fails_MySQL_read:
  assumes "client_at [] (command_frame q p @ inp) out w c s" "length p < 2 ^ 24" "q \<noteq> my_next_seq c"
  shows "fails (MySQL_read_command (evb_list z)) s (Runtime_error ''server sent out-of-sequence commands'') (client_at p inp out w c)"
  unfolding MySQL_read_command_def
  by (rule fails_bindA [OF reaches_read_command [OF assms(1,2)]], rule fails_bindA, erule reaches_gets_my)
    (use assms(3) in \<open>auto intro: fails_throwA\<close>)

lemma reaches_MySQL_write:
  assumes "client_at p inp out (length p + 4 + w) c s" "length p < 2 ^ 24"
  shows "reaches (MySQL_write_command (evb_list z)) s ()
    (client_at [] inp (out @ command_frame (my_next_seq c) p) w (c\<lparr>my_next_seq := my_next_seq c + 1\<rparr>))"
  unfolding MySQL_write_command_def
  by (rule reaches_bindA [OF reaches_gets_my [OF assms(1)]], rule reaches_seqA, erule reaches_modify_my,
      rule reaches_write_command [OF _ assms(2)]) simp

text \<open>Decoding contracts of the buffer, on the connection.\<close>

lemma list_reader: "buffer_reader (evb_list 0) id (\<lambda>_. ())"
  by (simp add: buffer_reader_def evb_list_spec)

lemma Buffer_remove_any_list: "Buffer_remove (evb_list z) n = Buffer_remove (evb_list 0) n"
  by (rule ext) (simp add: Buffer_remove_list)

lemma readln_any_list: "Buffer_readln (evb_list z) e = Buffer_readln (evb_list 0) e"
  by (rule ext) (simp add: Buffer_readln_def evb_list_def)

lemma remove_any_list:
  "Buffer_remove_u8 (evb_list z) = Buffer_remove_u8 (evb_list 0)"
  "Buffer_remove_u16l (evb_list z) = Buffer_remove_u16l (evb_list 0)"
  "Buffer_remove_u32l (evb_list z) = Buffer_remove_u32l (evb_list 0)"
  "ProtocolBuffer_remove_varint (evb_list z) = ProtocolBuffer_remove_varint (evb_list 0)"
  "ProtocolBuffer_remove_var_string (evb_list z) = ProtocolBuffer_remove_var_string (evb_list 0)"
  "ProtocolBuffer_remove_string0 (evb_list z) = ProtocolBuffer_remove_string0 (evb_list 0)"
  unfolding ProtocolBuffer_defs Buffer_remove_defs Buffer_remove_T_def Buffer_remove_any_list [of z] readln_any_list [of z]
  by (rule refl)+

lemma reaches_decodes:
  assumes "decodes id (\<lambda>_. ()) m xs x" "chan_at (xs @ b) inp out w y s"
  shows "reaches (on_buf m) s x (chan_at b inp out w y)"
proof -
  from decodesE [OF assms(1), of "xs @ b" b] have "m (xs @ b) = (Ret x, b)" by auto
  then show ?thesis by (rule reaches_on_buf [OF assms(2)])
qed

lemma list_decodes [decode_intros]:
  "decodes id (\<lambda>_. ()) (Buffer_remove_u8 (evb_list z)) [x8] x8"
  "decodes id (\<lambda>_. ()) (Buffer_remove_u16l (evb_list z)) (le_bytes 2 (unat x16)) x16"
  "decodes id (\<lambda>_. ()) (Buffer_remove_u32l (evb_list z)) (le_bytes 4 (unat x32)) x32"
  "decodes id (\<lambda>_. ()) (ProtocolBuffer_remove_varint (evb_list z)) (varint_bytes x64) x64"
  "length str < 2 ^ 64 \<Longrightarrow> decodes id (\<lambda>_. ()) (ProtocolBuffer_remove_var_string (evb_list z)) (varint_bytes (word_of_nat (length str)) @ str) str"
  "0 \<notin> set str \<Longrightarrow> decodes id (\<lambda>_. ()) (ProtocolBuffer_remove_string0 (evb_list z)) (str @ [0]) str"
  "length str = n \<Longrightarrow> decodes id (\<lambda>_. ()) (Buffer_remove (evb_list z) n) str str"
  unfolding remove_any_list [of z] Buffer_remove_any_list [of z]
  using bufrd.rd8 [OF list_reader] bufrd.rd16 [OF list_reader] ProtocolBuffer_remove_varint_decodes [OF list_reader]
    remove_var_string_decodes [OF list_reader] remove_string0_decodes [OF list_reader] Buffer_remove_decodes [OF list_reader]
  by (auto simp: Buffer_remove_u32l_def word_of_le_bytes intro!: Buffer_remove_T_decodes list_reader)


section \<open>What a server sends\<close>

text \<open>Packets with consecutive sequence numbers.\<close>

fun frames :: "u8 \<Rightarrow> bytes list \<Rightarrow> bytes" where
  "frames q [] = []"
| "frames q (p # ps) = command_frame q p @ frames (q + 1) ps"

lemma frames_append: "frames q (ps @ qs) = frames q ps @ frames (q + word_of_nat (length ps)) qs"
  by (induction ps arbitrary: q) (simp_all add: add.assoc)

definition advance :: "nat \<Rightarrow> mysql_fields \<Rightarrow> mysql_fields" where
  "advance n c = c\<lparr>my_next_seq := my_next_seq c + word_of_nat n\<rparr>"

lemma advance_simps [simp]:
  "advance 0 c = c" "my_next_seq (advance n c) = my_next_seq c + word_of_nat n"
  "advance m (advance n c) = advance (n + m) c" "c\<lparr>my_next_seq := my_next_seq c + 1\<rparr> = advance 1 c"
  by (simp_all add: advance_def add.assoc)

definition var_text :: "bytes \<Rightarrow> bytes" where
  "var_text str = varint_bytes (word_of_nat (length str)) @ str"

definition column_payload :: "column_definition \<times> u16 \<Rightarrow> bytes" where
  "column_payload = (\<lambda>(d, u). var_text (cd_catalog_name d) @ var_text (cd_database_name d) @ var_text (cd_table_name d) @
     var_text (cd_original_table_name d) @ var_text (cd_column_name d) @ var_text (cd_original_column_name d) @
     varint_bytes 0x0C @ le_bytes 2 (unat (cd_charset d)) @ le_bytes 4 (unat (cd_max_value_length d)) @ [cd_type d] @
     le_bytes 2 (unat (cd_flags d)) @ [cd_decimals d] @ le_bytes 2 (unat u))"

lemma read_column_decodes:
  assumes "length (column_payload (d, u)) < 2 ^ 24"
  shows "decodes id (\<lambda>_. ()) (read_column_definition (evb_list z)) (column_payload (d, u)) d"
proof -
  have n: "length (cd_catalog_name d) < 2 ^ 64" "length (cd_database_name d) < 2 ^ 64" "length (cd_table_name d) < 2 ^ 64"
    "length (cd_original_table_name d) < 2 ^ 64" "length (cd_column_name d) < 2 ^ 64" "length (cd_original_column_name d) < 2 ^ 64"
    using assms by (simp_all add: column_payload_def var_text_def)
  show ?thesis unfolding read_column_definition_def column_payload_def var_text_def prod.case
    by ((rule decodes_bind [OF list_decodes(5)], rule n)+, rule decodes_bind [OF list_decodes(4)], subst if_not_P, simp,
        (rule decodes_bind, rule list_decodes)+, rule decodes_map, rule list_decodes(2), simp)
qed

text \<open>A cell is NULL or the text of a value; with it, the value the client makes of it.\<close>

fun cell_bytes :: "bytes option \<times> mysql_value \<Rightarrow> bytes" where
  "cell_bytes (None, x) = [0xFB]"
| "cell_bytes (Some str, x) = var_text str"

fun cell_ok :: "float_api \<Rightarrow> column_definition \<Rightarrow> bytes option \<times> mysql_value \<Rightarrow> bool" where
  "cell_ok F d (None, x) = (x = V_null)"
| "cell_ok F d (Some str, x) = (length str < 2 ^ 24 \<and> parse_value F (cd_type d) str = Ret x)"

lemma small_byte: "unat (b :: u8) \<le> 250 \<Longrightarrow> b \<notin> {0xFB, 0xFE, 0xFF}"
  by auto

lemma varint_head:
  assumes "unat n < 2 ^ 24"
  obtains b bs where "varint_bytes n = b # bs" "b \<notin> {0xFB, 0xFE, 0xFF}" "n \<noteq> 0 \<Longrightarrow> b \<noteq> 0"
proof (cases "n \<le> 0xFA")
  case True
  then have u: "unat (ucast n :: u8) = unat n" "unat n \<le> 250"
    using unat_ucast_le [of n, where 'a = 8] by (auto simp: word_le_nat_alt)
  have "(ucast n :: u8) \<notin> {0xFB, 0xFE, 0xFF}" by (rule small_byte) (use u in linarith)
  moreover have "n \<noteq> 0 \<Longrightarrow> (ucast n :: u8) \<noteq> 0" using u(1) by (metis unsigned_0 unsigned_eq_0_iff)
  ultimately show ?thesis using True that by (simp add: varint_bytes_def)
next
  case False
  have "n \<le> 0xFFFFFF" using assms by (simp add: word_le_nat_alt)
  with False that show ?thesis by (cases "n \<le> 0xFFFF") (auto simp: varint_bytes_def)
qed

lemma cell_head: "cell_ok F d cell \<Longrightarrow> \<exists>b bs. cell_bytes cell = b # bs \<and> b \<noteq> 0xFE \<and> (b = 0xFB \<longleftrightarrow> fst cell = None)"
proof (cases cell)
  case (Pair v x)
  assume ok: "cell_ok F d cell"
  show ?thesis
  proof (cases v)
    case None
    with Pair show ?thesis by simp
  next
    case (Some str)
    with ok Pair have "unat (word_of_nat (length str) :: u64) < 2 ^ 24" by (simp add: unat_of_nat)
    from varint_head [OF this] obtain b bs where "varint_bytes (word_of_nat (length str)) = b # bs" "b \<notin> {0xFB, 0xFE, 0xFF}" by metis
    with Pair Some show ?thesis by (simp add: var_text_def)
  qed
qed

lemma copyout_u8_list: "Buffer_copyout_u8 (evb_list z) (b # bs) = (Ret b, b # bs)"
  by (simp add: Buffer_copyout_u8_def Buffer_copyout_T_def Buffer_copyout_list bindA_def)

lemma read_cell_decodes:
  assumes "cell_ok F d cell"
  shows "decodes id (\<lambda>_. ()) (read_cell (evb_list z) F d) (cell_bytes cell) (snd cell)"
proof (rule decodesI)
  fix s ys assume "id s = cell_bytes cell @ ys"
  then have s: "s = cell_bytes cell @ ys" by simp
  from cell_head [OF assms] obtain b bs where h: "cell_bytes cell = b # bs" "b = 0xFB \<longleftrightarrow> fst cell = None" by (elim exE conjE)
  have c: "Buffer_copyout_u8 (evb_list z) s = (Ret b, s)" by (simp add: s h copyout_u8_list)
  obtain v x where cell: "cell = (v, x)" by force
  have "read_cell (evb_list z) F d s = (Ret (snd cell), ys)"
  proof (cases v)
    case None
    from decodesE [OF list_decodes(1) [of z b], of s ys] None cell h s assms
    have "Buffer_remove_u8 (evb_list z) s = (Ret b, ys)" by auto
    with None cell c h assms show ?thesis by (simp add: read_cell_def bindA_def seqA_def)
  next
    case (Some str)
    with assms cell have "length str < 2 ^ 64" by simp
    from decodesE [OF list_decodes(5) [OF this, of z], of s ys] Some cell s
    have "ProtocolBuffer_remove_var_string (evb_list z) s = (Ret str, ys)" by (auto simp: var_text_def)
    with Some cell c h assms show ?thesis by (simp add: read_cell_def bindA_def)
  qed
  then show "fst (read_cell (evb_list z) F d s) = Ret (snd cell) \<and> id (snd (read_cell (evb_list z) F d s)) = ys \<and> () = ()" by simp
qed

lemma decodes_collect_all2:
  "list_all2 (\<lambda>x y. decodes v k (f x) (e y) (g y)) xs ys \<Longrightarrow> decodes v k (collectA f xs) (concat (map e ys)) (map g ys)"
proof (induction rule: list_all2_induct)
  case (Cons x xs y ys)
  have "decodes v k (bindA (collectA f xs) (\<lambda>zs. retA (g y # zs))) (concat (map e ys)) (g y # map g ys)"
    by (rule decodes_map [OF Cons(3) refl])
  from decodes_bind [OF Cons(1), of "\<lambda>z. bindA (collectA f xs) (\<lambda>zs. retA (z # zs))", OF this] show ?case by simp
qed (simp add: decodes_def)

definition row_payload :: "(bytes option \<times> mysql_value) list \<Rightarrow> bytes" where
  "row_payload row = concat (map cell_bytes row)"

definition row_ok :: "float_api \<Rightarrow> column_definition list \<Rightarrow> (bytes option \<times> mysql_value) list \<Rightarrow> bool" where
  "row_ok F cols row \<longleftrightarrow> list_all2 (cell_ok F) cols row \<and> length (row_payload row) < 2 ^ 24"

lemma read_row_decodes:
  "row_ok F cols row \<Longrightarrow> decodes id (\<lambda>_. ()) (collectA (read_cell (evb_list z) F) cols) (row_payload row) (map snd row)"
  unfolding row_payload_def row_ok_def by (rule decodes_collect_all2) (auto elim: list_all2_mono intro: read_cell_decodes)

lemma row_head:
  assumes "row_ok F cols row" "cols \<noteq> []"
  shows "\<exists>b bs. row_payload row = b # bs \<and> b \<noteq> 0xFE"
proof -
  from assms obtain d ds cell cells where "cols = d # ds" "row = cell # cells" "cell_ok F d cell"
    by (auto simp: row_ok_def neq_Nil_conv list_all2_Cons1)
  with cell_head [of F d cell] show ?thesis by (auto simp: row_payload_def)
qed


section \<open>Result sets\<close>

lemma reaches_copyout_u8:
  "chan_at (b # bs) inp out w x s \<Longrightarrow> reaches (on_buf (Buffer_copyout_u8 (evb_list z))) s b (chan_at (b # bs) inp out w x)"
  by (erule reaches_on_buf) (rule copyout_u8_list)

lemma reaches_remove_u8:
  "chan_at (b # bs) inp out w x s \<Longrightarrow> reaches (on_buf (Buffer_remove_u8 (evb_list z))) s b (chan_at bs inp out w x)"
  by (rule reaches_decodes [OF list_decodes(1)]) simp

lemma reaches_columns:
  assumes "client_at [] (frames (my_next_seq c) (map column_payload ds) @ inp) out w c s"
    and "\<forall>d\<in>set ds. length (column_payload d) < 2 ^ 24"
  shows "reaches (columns_loop (length ds) (evb_list z) cols) s (cols @ map fst ds) (client_at [] inp out w (advance (length ds) c))"
  using assms
proof (induction ds arbitrary: c s cols)
  case Nil
  then show ?case by (simp add: reaches_def)
next
  case (Cons d ds)
  let ?inp = "frames (my_next_seq c + 1) (map column_payload ds) @ inp"
  have r: "reaches (MySQL_read_command (evb_list z)) s () (client_at (column_payload d) ?inp out w (advance 1 c))"
    using reaches_MySQL_read [of c "column_payload d" ?inp out w s z] Cons.prems by simp
  have dec: "reaches (on_buf (read_column_definition (evb_list z))) s1 (fst d) (client_at [] ?inp out w (advance 1 c))"
    if "client_at (column_payload d) ?inp out w (advance 1 c) s1" for s1
    using reaches_decodes [OF read_column_decodes [of "fst d" "snd d" z], of "[]" ?inp out w _ s1] that Cons.prems(2) by simp
  have rest: "reaches (columns_loop (length ds) (evb_list z) (cols @ [fst d])) s2 ((cols @ [fst d]) @ map fst ds)
      (client_at [] inp out w (advance (length ds) (advance 1 c)))"
    if "client_at [] ?inp out w (advance 1 c) s2" for s2
    using Cons.IH [of "advance 1 c" s2 "cols @ [fst d]"] that Cons.prems(2) by simp
  have "reaches (columns_loop (Suc (length ds)) (evb_list z) cols) s ((cols @ [fst d]) @ map fst ds)
      (client_at [] inp out w (advance (length ds) (advance 1 c)))"
    unfolding columns_loop.simps by (rule reaches_seqA [OF r], rule reaches_bindA, erule dec, erule rest)
  then show ?case by simp
qed

definition eof_payload :: "u16 \<Rightarrow> u16 \<Rightarrow> bytes \<Rightarrow> bytes" where
  "eof_payload warn st extra = 0xFE # le_bytes 2 (unat warn) @ le_bytes 2 (unat st) @ extra"

definition collect_rows :: "column_definition list \<Rightarrow> result_rows \<Rightarrow> (bytes option \<times> mysql_value) list list \<Rightarrow> result_rows" where
  "collect_rows cols rows0 rows = foldl (\<lambda>acc row. add_row cols (map snd row) acc) rows0 rows"

lemma reaches_rows:
  assumes "client_at [] (frames (my_next_seq c) (map row_payload rows @ [eof_payload warn st extra]) @ inp) out w c s"
    and "\<forall>row\<in>set rows. row_ok F cols row" "cols \<noteq> []" "length extra < 2 ^ 20" "length rows < n"
  shows "reaches (rows_loop n (evb_list z) F cols rows0) s (collect_rows cols rows0 rows, warn, st)
    (client_at extra inp out w (advance (Suc (length rows)) c))"
  using assms
proof (induction rows arbitrary: c s rows0 n)
  case Nil
  then obtain m where n: "n = Suc m" by (cases n) auto
  have r: "reaches (MySQL_read_command (evb_list z)) s () (client_at (eof_payload warn st extra) inp out w (advance 1 c))"
    using reaches_MySQL_read [of c "eof_payload warn st extra" inp out w s z] Nil.prems by (simp add: eof_payload_def)
  have f: "(if (0xFE :: u8) = 0xFE then A else B) = A" for A B :: "(bytes mysql_client, result_rows \<times> u16 \<times> u16) act" by simp
  show ?case unfolding n rows_loop.simps
    apply (rule reaches_seqA [OF r])
    apply (unfold eof_payload_def)
    apply (rule reaches_bindA, erule reaches_copyout_u8)
    apply (subst f)
    apply (rule reaches_bindA, erule reaches_remove_u8)
    apply (rule reaches_bindA, erule reaches_decodes [OF list_decodes(2)])
    apply (rule reaches_bindA, erule reaches_decodes [OF list_decodes(2)])
    apply (simp add: collect_rows_def reaches_def)
    done
next
  case (Cons row rows)
  then obtain m where n: "n = Suc m" "length rows < m" by (cases n) auto
  let ?inp = "frames (my_next_seq c + 1) (map row_payload rows @ [eof_payload warn st extra]) @ inp"
  have ok: "row_ok F cols row" using Cons.prems(2) by simp
  then have r: "reaches (MySQL_read_command (evb_list z)) s () (client_at (row_payload row) ?inp out w (advance 1 c))"
    using reaches_MySQL_read [of c "row_payload row" ?inp out w s z] Cons.prems(1) by (simp add: row_ok_def)
  from row_head [OF ok Cons.prems(3)] obtain b bs where b: "row_payload row = b # bs" "b \<noteq> 0xFE" by (elim exE conjE)
  have co: "reaches (on_buf (Buffer_copyout_u8 (evb_list z))) s1 b (client_at (row_payload row) ?inp out w (advance 1 c))"
    if "client_at (row_payload row) ?inp out w (advance 1 c) s1" for s1
    using that unfolding b(1) by (rule reaches_copyout_u8)
  have dec: "reaches (on_buf (collectA (read_cell (evb_list z) F) cols)) s1 (map snd row) (client_at [] ?inp out w (advance 1 c))"
    if "client_at (row_payload row) ?inp out w (advance 1 c) s1" for s1
    using reaches_decodes [OF read_row_decodes [OF ok, of z], of "[]" ?inp out w _ s1] that by simp
  have rest: "reaches (rows_loop m (evb_list z) F cols (add_row cols (map snd row) rows0)) s2 (collect_rows cols rows0 (row # rows), warn, st)
      (client_at extra inp out w (advance (Suc (length (row # rows))) c))"
    if "client_at [] ?inp out w (advance 1 c) s2" for s2
    using Cons.IH [of "advance 1 c" s2 m "add_row cols (map snd row) rows0"] that Cons.prems(2-4) n(2) by (simp add: collect_rows_def)
  show ?case unfolding n(1) rows_loop.simps
    apply (rule reaches_seqA [OF r])
    apply (rule reaches_bindA, erule co)
    apply (subst if_not_P [OF b(2)])
    apply (rule reaches_bindA, erule dec)
    apply (erule rest)
    done
qed


text \<open>
  A server's answer to one statement: an OK packet, or a result set.  \<open>info\<close> and \<open>extra\<close> are what
  follows the fields the client reads in the last packet.
\<close>

datatype answer =
    A_ok u64 u64 u16 u16 bytes
  | A_rows "(column_definition \<times> u16) list" "(bytes option \<times> mysql_value) list list" u16 u16 bytes

definition ok_payload :: "u64 \<Rightarrow> u64 \<Rightarrow> u16 \<Rightarrow> u16 \<Rightarrow> bytes \<Rightarrow> bytes" where
  "ok_payload affected ins st warn info = 0x00 # varint_bytes affected @ varint_bytes ins @
     le_bytes 2 (unat st) @ le_bytes 2 (unat warn) @ info"

fun answer_payloads :: "answer \<Rightarrow> bytes list" where
  "answer_payloads (A_ok affected ins st warn info) = [ok_payload affected ins st warn info]"
| "answer_payloads (A_rows ds rows warn st extra) = varint_bytes (word_of_nat (length ds)) #
     map column_payload ds @ map row_payload rows @ [eof_payload warn st extra]"

fun answer_status :: "answer \<Rightarrow> u16" where
  "answer_status (A_ok affected ins st warn info) = st"
| "answer_status (A_rows ds rows warn st extra) = st"

fun answer_tail :: "answer \<Rightarrow> bytes" where
  "answer_tail (A_ok affected ins st warn info) = info"
| "answer_tail (A_rows ds rows warn st extra) = extra"

definition is_last :: "answer \<Rightarrow> bool" where
  "is_last a \<longleftrightarrow> answer_status a AND MORE_RESULTS_EXIST = 0"

text \<open>The result set the client returns for it.\<close>

fun answer_result :: "bool \<Rightarrow> answer \<Rightarrow> result_set" where
  "answer_result dicts (A_ok affected ins st warn info) = \<lparr>rs_columns = [], rs_rows = Rows_vecs [], rs_affected_rows = affected,
     rs_insert_id = ins, rs_status_flags = st, rs_warning_count = warn\<rparr>"
| "answer_result dicts (A_rows ds rows warn st extra) = \<lparr>rs_columns = map fst ds,
     rs_rows = collect_rows (map fst ds) (if dicts then Rows_dicts [] else Rows_vecs []) rows, rs_affected_rows = 0,
     rs_insert_id = 0, rs_status_flags = st, rs_warning_count = warn\<rparr>"

text \<open>
  Well-formed answers.  An OK packet that is not the last must have nothing behind the fields: the
  client does not drop it.
\<close>

fun answer_ok :: "float_api \<Rightarrow> nat \<Rightarrow> answer \<Rightarrow> bool" where
  "answer_ok F fuel (A_ok affected ins st warn info) = (length info < 2 ^ 20 \<and>
     (st AND MORE_RESULTS_EXIST \<noteq> 0 \<longrightarrow> info = []))"
| "answer_ok F fuel (A_rows ds rows warn st extra) = (ds \<noteq> [] \<and> length ds < 2 ^ 24 \<and> length extra < 2 ^ 20 \<and> length rows < fuel \<and>
     (\<forall>d\<in>set ds. length (column_payload d) < 2 ^ 24) \<and> (\<forall>row\<in>set rows. row_ok F (map fst ds) row))"

lemma length_varint: "length (varint_bytes n) \<le> 9"
  by (simp add: varint_bytes_def)

lemma reaches_answer:
  assumes ok: "answer_ok F m a" and at: "client_at [] (frames (my_next_seq c) (answer_payloads a) @ inp) out w c s"
    and last: "\<And>s'. is_last a \<Longrightarrow> client_at (answer_tail a) inp out w (advance (length (answer_payloads a)) c) s' \<Longrightarrow>
      reaches (retA (ret @ [answer_result d a])) s' r Q"
    and more: "\<And>s'. \<not> is_last a \<Longrightarrow> client_at [] inp out w (advance (length (answer_payloads a)) c) s' \<Longrightarrow>
      reaches (results_loop n m (evb_list z) P F d (ret @ [answer_result d a])) s' r Q"
  shows "reaches (results_loop (Suc n) m (evb_list z) P F d ret) s r Q"
proof (cases a)
  case (A_ok affected ins st warn info)
  let ?p = "ok_payload affected ins st warn info"
  have "length ?p < 2 ^ 24" using ok A_ok length_varint [of affected] length_varint [of ins] by (simp add: ok_payload_def)
  then have r: "reaches (MySQL_read_command (evb_list z)) s () (client_at ?p inp out w (advance 1 c))"
    using reaches_MySQL_read [of c ?p inp out w s z] at A_ok by simp
  show ?thesis unfolding results_loop.simps
    apply (rule reaches_seqA [OF r])
    apply (unfold ok_payload_def)
    apply (rule reaches_bindA, erule reaches_copyout_u8)
    apply (subst if_P [OF refl])
    apply (rule reaches_bindA, erule reaches_remove_u8)
    apply (rule reaches_bindA, erule reaches_decodes [OF list_decodes(4)])
    apply (rule reaches_bindA, erule reaches_decodes [OF list_decodes(4)])
    apply (rule reaches_bindA, erule reaches_decodes [OF list_decodes(2)])
    apply (rule reaches_bindA, erule reaches_decodes [OF list_decodes(2)])
    subgoal for s1 s2 s3 s4 s5 s6 s7
      using last [of s7] more [of s7] ok A_ok by (auto simp: is_last_def Let_def simp del: retA_apply)
    done
next
  case (A_rows ds rows warn st extra)
  let ?n = "word_of_nat (length ds) :: u64" and ?cols = "map fst ds"
  let ?rows = "frames (my_next_seq (advance (Suc (length ds)) c)) (map row_payload rows @ [eof_payload warn st extra]) @ inp"
  let ?inp = "frames (my_next_seq (advance 1 c)) (map column_payload ds) @ ?rows"
  let ?tail = "client_at extra inp out w (advance (length (answer_payloads a)) c)"
  have n: "unat ?n = length ds" "?n \<noteq> 0" using ok A_rows by (auto simp: unat_of_nat word_unat_eq_iff)
  obtain b bs where b: "varint_bytes ?n = b # bs" "b \<notin> {0xFB, 0xFE, 0xFF}" "b \<noteq> 0"
    using varint_head [of ?n] n ok A_rows by (metis answer_ok.simps(2))
  have fr: "frames (my_next_seq c) (answer_payloads a) @ inp = command_frame (my_next_seq c) (varint_bytes ?n) @ ?inp"
    by (simp add: A_rows frames_append ac_simps)
  have "length (varint_bytes ?n) < 2 ^ 24" using length_varint [of ?n] by simp
  then have r: "reaches (MySQL_read_command (evb_list z)) s () (client_at (varint_bytes ?n) ?inp out w (advance 1 c))"
    using reaches_MySQL_read [of c "varint_bytes ?n" ?inp out w s z] at unfolding fr by (simp only: append_assoc advance_simps)
  have co: "reaches (on_buf (Buffer_copyout_u8 (evb_list z))) s1 b (client_at (varint_bytes ?n) ?inp out w (advance 1 c))"
    if "client_at (varint_bytes ?n) ?inp out w (advance 1 c) s1" for s1
    using that unfolding b(1) by (rule reaches_copyout_u8)
  have vi: "reaches (on_buf (ProtocolBuffer_remove_varint (evb_list z))) s1 ?n (client_at [] ?inp out w (advance 1 c))"
    if "client_at (varint_bytes ?n) ?inp out w (advance 1 c) s1" for s1
    using reaches_decodes [OF list_decodes(4) [of z ?n], of "[]" ?inp out w _ s1] that by simp
  have cl: "reaches (columns_loop (unat ?n) (evb_list z) []) s1 ?cols (client_at [] ?rows out w (advance (Suc (length ds)) c))"
    if "client_at [] ?inp out w (advance 1 c) s1" for s1
    using reaches_columns [of "advance 1 c" ds ?rows out w s1 z "[]"] that ok A_rows n by simp
  have rl: "reaches (rows_loop m (evb_list z) F ?cols rows0) s1 (collect_rows ?cols rows0 rows, warn, st) ?tail"
    if "client_at [] ?rows out w (advance (Suc (length ds)) c) s1" for s1 rows0
    using reaches_rows [of "advance (Suc (length ds)) c" rows warn st extra inp out w s1 F ?cols m z rows0] that ok A_rows
    by (simp add: add.assoc add.commute)
  have drain: "reaches (on_buf (Buffer_drain_all (evb_list z))) s1 () (client_at [] inp out w (advance (length (answer_payloads a)) c))"
    if "?tail s1" for s1 using that by (rule reaches_on_buf) simp
  have skip: "reaches (if b = 0xFF then X else if b = 0xFB then Y else retA ()) s1 () (client_at (varint_bytes ?n) ?inp out w (advance 1 c))"
    if "client_at (varint_bytes ?n) ?inp out w (advance 1 c) s1" for s1 X Y
    using that b(2) by (simp add: reaches_def)
  show ?thesis unfolding results_loop.simps
    apply (rule reaches_seqA [OF r])
    apply (rule reaches_bindA, erule co)
    apply (subst if_not_P [OF b(3)])
    apply (rule reaches_seqA, erule skip)
    apply (rule reaches_bindA, erule vi)
    apply (rule reaches_bindA, erule cl)
    apply (rule reaches_bindA, erule rl)
    subgoal for s1 s2 s3 s4 s5 s6
      using last [of s6] more A_rows reaches_seqA [OF drain [of s6], of "results_loop n m (evb_list z) P F d (ret @ [answer_result d a])" r Q]
      by (auto simp: is_last_def Let_def simp del: retA_apply)
    done
qed


lemma reaches_answers:
  assumes "as \<noteq> []" "\<forall>a\<in>set as. answer_ok F m a" "\<forall>a\<in>set (butlast as). \<not> is_last a" "is_last (last as)" "length as \<le> n"
    and "client_at [] (frames (my_next_seq c) (concat (map answer_payloads as)) @ inp) out w c s"
  shows "reaches (results_loop n m (evb_list z) P F d ret) s (ret @ map (answer_result d) as)
    (client_at (answer_tail (last as)) inp out w (advance (length (concat (map answer_payloads as))) c))"
  using assms
proof (induction as arbitrary: n ret c s)
  case (Cons a as)
  then obtain k where n: "n = Suc k" "length as \<le> k" by (cases n) auto
  let ?inp = "frames (my_next_seq (advance (length (answer_payloads a)) c)) (concat (map answer_payloads as)) @ inp"
  have at: "client_at [] (frames (my_next_seq c) (answer_payloads a) @ ?inp) out w c s"
    using Cons.prems(6) by (simp add: frames_append)
  show ?case unfolding n(1)
  proof (rule reaches_answer [OF _ at])
    show "answer_ok F m a" using Cons.prems(2) by simp
  next
    fix s' assume l: "is_last a" and s': "client_at (answer_tail a) ?inp out w (advance (length (answer_payloads a)) c) s'"
    have "as = []" using Cons.prems(3) l by (cases as) auto
    with s' show "reaches (retA (ret @ [answer_result d a])) s' (ret @ map (answer_result d) (a # as))
      (client_at (answer_tail (last (a # as))) inp out w (advance (length (concat (map answer_payloads (a # as)))) c))"
      by (simp add: reaches_def)
  next
    fix s' assume l: "\<not> is_last a" and s': "client_at [] ?inp out w (advance (length (answer_payloads a)) c) s'"
    have ne: "as \<noteq> []" using Cons.prems(4) l by auto
    with Cons.IH [OF ne _ _ _ n(2) s', of "ret @ [answer_result d a]"] Cons.prems(2-4)
    show "reaches (results_loop k m (evb_list z) P F d (ret @ [answer_result d a])) s' (ret @ map (answer_result d) (a # as))
      (client_at (answer_tail (last (a # as))) inp out w (advance (length (concat (map answer_payloads (a # as)))) c))"
      by simp
  qed
qed simp

lemma seqA_assoc: "seqA (seqA m n) k = seqA m (seqA n k)"
  by (rule ext) (auto simp: seqA_def bindA_def split: prod.splits outcome.splits)

text \<open>Sending a command: the sequence number is reset and one packet is written.\<close>

lemma reaches_command_sent:
  assumes "client_at b inp out (length d + 5 + w) c s" "fd_is_open P (my_fd c)" "length d + 1 < 2 ^ 24"
  shows "reaches (seqA (MySQL_assert_conn_open P) (seqA MySQL_reset_seq (seqA (Buffer_new (evb_list z))
     (seqA (on_buf (Buffer_add_u8 (evb_list z) x)) (seqA (on_buf (Buffer_add_string (evb_list z) d)) (MySQL_write_command (evb_list z))))))) s ()
    (client_at [] inp (out @ command_frame 0 (x # d)) w (c\<lparr>my_next_seq := 1\<rparr>))"
proof -
  let ?c = "c\<lparr>my_next_seq := 0\<rparr>" and ?W = "length (x # d) + 4 + w"
  have at': "client_at b inp out ?W c s" using assms(1) by (simp add: ac_simps)
  have add1: "reaches (on_buf (Buffer_add_u8 (evb_list z) x)) s1 () (client_at [x] inp out ?W ?c)"
    if "client_at [] inp out ?W ?c s1" for s1
    using that by (rule reaches_on_buf) (simp add: Buffer_add_u8_def)
  have add2: "reaches (on_buf (Buffer_add_string (evb_list z) d)) s1 () (client_at (x # d) inp out ?W ?c)"
    if "client_at [x] inp out ?W ?c s1" for s1
    using that by (rule reaches_on_buf) simp
  have wr: "reaches (MySQL_write_command (evb_list z)) s1 () (client_at [] inp (out @ command_frame 0 (x # d)) w (c\<lparr>my_next_seq := 1\<rparr>))"
    if "client_at (x # d) inp out ?W ?c s1" for s1
    using reaches_MySQL_write [OF that] assms(3) by (simp add: advance_def)
  show ?thesis
    apply (rule reaches_seqA [OF reaches_assert_conn_open [OF at' assms(2)]])
    apply (rule reaches_seqA, erule reaches_reset_seq)
    apply (rule reaches_seqA, erule reaches_Buffer_new)
    apply (rule reaches_seqA, erule add1)
    apply (rule reaches_seqA, erule add2)
    apply (erule wr)
    done
qed

lemma query_multi_list:
  assumes at: "client_at b (frames 1 (concat (map answer_payloads as)) @ inp) out (length sql + 5 + w) c s"
    and opn: "fd_is_open P (my_fd c)" and len: "length sql + 1 < 2 ^ 24"
    and as: "as \<noteq> []" "\<forall>a\<in>set as. answer_ok F fuel a" "\<forall>a\<in>set (butlast as). \<not> is_last a" "is_last (last as)" "length as \<le> fuel"
  shows "reaches (query_multi fuel (evb_list z) P F sql d) s (map (answer_result d) as)
    (client_at (answer_tail (last as)) inp (out @ command_frame 0 (mysql_command_code QUERY # sql)) w
      (c\<lparr>my_next_seq := 1 + word_of_nat (length (concat (map answer_payloads as)))\<rparr>))"
proof -
  let ?inp = "frames 1 (concat (map answer_payloads as)) @ inp" and ?out = "out @ command_frame 0 (mysql_command_code QUERY # sql)"
  have loop: "reaches (results_loop fuel fuel (evb_list z) P F d []) s1 ([] @ map (answer_result d) as)
      (client_at (answer_tail (last as)) inp ?out w (advance (length (concat (map answer_payloads as))) (c\<lparr>my_next_seq := 1\<rparr>)))"
    if "client_at [] ?inp ?out w (c\<lparr>my_next_seq := 1\<rparr>) s1" for s1
    using reaches_answers [OF as, of "c\<lparr>my_next_seq := 1\<rparr>" inp ?out w s1 z P d "[]"] that by simp
  have c: "advance (length (concat (map answer_payloads as))) (c\<lparr>my_next_seq := 1\<rparr>) =
      c\<lparr>my_next_seq := 1 + word_of_nat (length (concat (map answer_payloads as)))\<rparr>"
    by (simp add: advance_def)
  show ?thesis unfolding query_multi_def
    using reaches_seqA [OF reaches_command_sent [OF at opn len, of z "mysql_command_code QUERY"] loop]
    unfolding c append_Nil seqA_assoc .
qed

section \<open>Errors\<close>

text \<open>An ERR packet: the code, a \<open>#\<close>, the five characters of the SQL state, the message.\<close>

definition err_payload :: "u16 \<Rightarrow> bytes \<Rightarrow> bytes \<Rightarrow> bytes" where
  "err_payload code sqlstate msg = 0xFF # le_bytes 2 (unat code) @ 35 # sqlstate @ msg"

definition error_text :: "phosg_api \<Rightarrow> u16 \<Rightarrow> bytes \<Rightarrow> bytes \<Rightarrow> exn" where
  "error_text P code sqlstate msg = Runtime_error (string_printf P ''(%hu; %s) %s'' [P_int (uint code), c_str sqlstate, c_str msg])"

lemma remove_string_eof_list: "ProtocolBuffer_remove_string_eof (evb_list z) b = (Ret b, [])"
  by (simp add: ProtocolBuffer_remove_string_eof_def bindA_def Buffer_remove_list)

lemma parse_error_body_list:
  assumes "length sqlstate = 6"
  shows "parse_error_body (evb_list z) P (le_bytes 2 (unat code) @ sqlstate @ msg) = (Throw (error_text P code sqlstate msg), [])"
proof -
  have "Buffer_remove_u16l (evb_list z) (le_bytes 2 (unat code) @ sqlstate @ msg) = (Ret code, sqlstate @ msg)"
    using decodesE [OF list_decodes(2) [of z code], of "le_bytes 2 (unat code) @ sqlstate @ msg" "sqlstate @ msg"] by auto
  then show ?thesis using assms
    by (simp add: parse_error_body_def bindA_def Buffer_remove_list remove_string_eof_list error_text_def)
qed

lemma fails_on_buf: "chan_at b inp out w x s \<Longrightarrow> m b = (Throw e, b') \<Longrightarrow> fails (on_buf m) s e (chan_at b' inp out w x)"
  by (auto simp: fails_def chan_at_def on_buf_def live_def)




lemma unat_u16: "n < 65536 \<Longrightarrow> unat (word_of_nat n :: u16) = n"
  by (simp add: unat_of_nat)

lemma query_error_list:
  assumes at: "client_at b (command_frame 1 (err_payload code sqlstate msg) @ inp) out (length sql + 5 + w) c s"
    and opn: "fd_is_open P (my_fd c)" and len: "length sql + 1 < 2 ^ 24" "length msg < 2 ^ 20"
    and st: "sqlstate = [q1, q2, q3, q4, q5]" and lh: "le_bytes 2 (unat code) = [lo, hi]"
  shows "fails (query_multi (Suc fuel) (evb_list z) P F sql d) s
    (error_text P (word_of_nat (255 + 256 * unat lo)) [hi, 35, q1, q2, q3, q4] (q5 # msg))
    (client_at [] inp (out @ command_frame 0 (mysql_command_code QUERY # sql)) w (c\<lparr>my_next_seq := 2\<rparr>))"
proof -
  let ?e = "err_payload code sqlstate msg" and ?out = "out @ command_frame 0 (mysql_command_code QUERY # sql)"
  have e: "?e = 0xFF # [lo, hi] @ 35 # sqlstate @ msg" by (simp add: err_payload_def lh)
  have elen: "length ?e < 2 ^ 24" using len(2) st by (simp add: err_payload_def)
  have le: "le_bytes 2 (unat (word_of_nat (255 + 256 * unat lo) :: u16)) = [0xFF, lo]"
  proof -
    have "unat lo < 256" using unsigned_less [of lo] by simp
    then have "255 + 256 * unat lo < 65536" by simp
    then have u: "unat (word_of_nat (255 + 256 * unat lo) :: u16) = 255 + 256 * unat lo" by (rule unat_u16)
    have ab: "(word_of_nat (255 + 256 * k) :: u8) = 0xFF" "(255 + 256 * k) div 256 = k" for k
      by (simp add: word_unat_eq_iff unat_of_nat del: of_nat_add of_nat_mult) simp
    show ?thesis unfolding u numeral_2_eq_2 le_bytes.simps ab by simp
  qed
  have pe: "parse_error_body (evb_list z) P ?e =
      (Throw (error_text P (word_of_nat (255 + 256 * unat lo)) [hi, 35, q1, q2, q3, q4] (q5 # msg)), [])"
    using parse_error_body_list [of "[hi, 35, q1, q2, q3, q4]" z P "word_of_nat (255 + 256 * unat lo)" "q5 # msg"]
    unfolding le e by (simp add: st)
  have rd: "reaches (MySQL_read_command (evb_list z)) s1 () (client_at ?e inp ?out w (c\<lparr>my_next_seq := 2\<rparr>))"
    if "client_at [] (command_frame 1 ?e @ inp) ?out w (c\<lparr>my_next_seq := 1\<rparr>) s1" for s1
    using reaches_MySQL_read [of "c\<lparr>my_next_seq := 1\<rparr>" ?e inp ?out w s1 z] that elen by simp
  have co: "reaches (on_buf (Buffer_copyout_u8 (evb_list z))) s1 0xFF (client_at ?e inp ?out w (c\<lparr>my_next_seq := 2\<rparr>))"
    if "client_at ?e inp ?out w (c\<lparr>my_next_seq := 2\<rparr>) s1" for s1
    using that unfolding e by (rule reaches_copyout_u8)
  have f: "fails (results_loop (Suc fuel) m (evb_list z) P F d []) s1
      (error_text P (word_of_nat (255 + 256 * unat lo)) [hi, 35, q1, q2, q3, q4] (q5 # msg)) (client_at [] inp ?out w (c\<lparr>my_next_seq := 2\<rparr>))"
    if "client_at [] (command_frame 1 ?e @ inp) ?out w (c\<lparr>my_next_seq := 1\<rparr>) s1" for s1 m
    unfolding results_loop.simps
    apply (rule fails_seqA [OF rd [OF that]])
    apply (rule fails_bindA, erule co)
    apply (subst if_not_P, simp, rule fails_seqA1, subst if_P, simp)
    apply (erule fails_on_buf [where m = "parse_error_body (evb_list z) P", OF _ pe])
    done
  show ?thesis unfolding query_multi_def
    using fails_seqA [OF reaches_command_sent [OF at opn len(1), of z "mysql_command_code QUERY"] f] unfolding seqA_assoc .
qed


lemma change_db_list:
  assumes at: "client_at b (command_frame 1 p @ inp) out (length db + 5 + w) c s"
    and opn: "fd_is_open P (my_fd c)" and len: "length db + 1 < 2 ^ 24" "length p < 2 ^ 24"
  defines "fin b' \<equiv> client_at b' inp (out @ command_frame 0 (mysql_command_code INIT_DB # db)) w (c\<lparr>my_next_seq := 2\<rparr>)"
  shows "p = 0x00 # info \<Longrightarrow> reaches (change_db (evb_list z) P db) s () (fin info)"
    and "p = err_payload code sqlstate msg \<Longrightarrow> length sqlstate = 5 \<Longrightarrow>
      fails (change_db (evb_list z) P db) s (error_text P code (35 # sqlstate) msg) (fin [])"
proof -
  let ?out = "out @ command_frame 0 (mysql_command_code INIT_DB # db)"
  note sent = reaches_command_sent [OF at opn len(1), of z "mysql_command_code INIT_DB"]
  have rd: "reaches (MySQL_read_command (evb_list z)) s1 () (fin p)"
    if "client_at [] (command_frame 1 p @ inp) ?out w (c\<lparr>my_next_seq := 1\<rparr>) s1" for s1
    using reaches_MySQL_read [of "c\<lparr>my_next_seq := 1\<rparr>" p inp ?out w s1 z] that len(2) by (simp add: fin_def advance_def)
  show "reaches (change_db (evb_list z) P db) s () (fin info)" if p: "p = 0x00 # info"
  proof -
    have "reaches (expect_ok (evb_list z) P) s1 () (fin info)"
      if "client_at [] (command_frame 1 p @ inp) ?out w (c\<lparr>my_next_seq := 1\<rparr>) s1" for s1
      unfolding expect_ok_def
      apply (rule reaches_seqA, rule reaches_Buffer_new [OF that])
      apply (rule reaches_seqA, erule rd, unfold p fin_def)
      apply (rule reaches_bindA, erule reaches_remove_u8)
      apply (simp add: reaches_def)
      done
    from reaches_seqA [OF sent this] show ?thesis unfolding change_db_def seqA_assoc .
  qed
  show "fails (change_db (evb_list z) P db) s (error_text P code (35 # sqlstate) msg) (fin [])"
    if p: "p = err_payload code sqlstate msg" and l: "length sqlstate = 5"
  proof -
    have pe: "parse_error_body (evb_list z) P (le_bytes 2 (unat code) @ 35 # sqlstate @ msg) = (Throw (error_text P code (35 # sqlstate) msg), [])"
      using parse_error_body_list [of "35 # sqlstate" z P code msg] l by simp
    have "fails (expect_ok (evb_list z) P) s1 (error_text P code (35 # sqlstate) msg) (fin [])"
      if "client_at [] (command_frame 1 p @ inp) ?out w (c\<lparr>my_next_seq := 1\<rparr>) s1" for s1
      unfolding expect_ok_def
      apply (rule fails_seqA, rule reaches_Buffer_new [OF that])
      apply (rule fails_seqA, erule rd, unfold p err_payload_def fin_def)
      apply (rule fails_bindA, erule reaches_remove_u8)
      apply (subst if_not_P, simp, subst if_P, simp)
      apply (erule fails_on_buf [where m = "parse_error_body (evb_list z) P", OF _ pe])
      done
    from fails_seqA [OF sent this] show ?thesis unfolding change_db_def seqA_assoc .
  qed
qed

section \<open>The binlog stream\<close>

lemma if_zero: "(if (0 :: u8) = 0xFE then A else if (0 :: u8) = 0 then B else C) = B"
  by simp

lemma get_binlog_event_list:
  assumes at: "client_at b (command_frame (my_next_seq c) p @ inp) out w c s"
    and opn: "fd_is_open P (my_fd c)" "my_binlog_read_state c \<noteq> NOT_READING" and len: "length p < 2 ^ 24"
  defines "fin st \<equiv> client_at [] inp out w ((advance 1 c)\<lparr>my_binlog_read_state := st\<rparr>)"
  shows "p = 0x00 # ev \<Longrightarrow> my_binlog_read_state c = READING_FIRST_EVENT \<Longrightarrow> reaches (get_binlog_event (evb_list z) P) s ev (fin READING_EVENT)"
    and "p = 0x00 # ev @ crc \<Longrightarrow> length crc = 4 \<Longrightarrow> my_binlog_read_state c = READING_EVENT \<Longrightarrow>
      reaches (get_binlog_event (evb_list z) P) s ev (fin READING_EVENT)"
    and "p = [0xFE] \<Longrightarrow> fails (get_binlog_event (evb_list z) P) s (Out_of_range ''end of binlog stream'') (fin NOT_READING)"
proof -
  have rd: "reaches (MySQL_read_command (evb_list z)) s1 () (client_at p inp out w (advance 1 c))"
    if "client_at [] (command_frame (my_next_seq c) p @ inp) out w c s1" for s1
    using reaches_MySQL_read [of c p inp out w s1 z] that len by simp
  have eof: "reaches (on_buf (ProtocolBuffer_remove_string_eof (evb_list z))) s1 q (client_at [] inp out w (advance 1 c))"
    if "client_at q inp out w (advance 1 c) s1" for s1 q
    using that by (rule reaches_on_buf) (rule remove_string_eof_list)
  have ok: "reaches (get_binlog_event (evb_list z) P) s ev (fin READING_EVENT)"
    if p: "p = 0x00 # q" and drop: "(if my_binlog_read_state c \<noteq> READING_FIRST_EVENT then drop_checksum q else Ret q) = Ret ev" for q ev
    unfolding get_binlog_event_def
    apply (rule reaches_seqA [OF reaches_assert_conn_open [OF at opn(1)]])
    apply (rule reaches_bindA, erule reaches_gets_my, subst if_not_P [OF opn(2)])
    apply (rule reaches_seqA, erule reaches_Buffer_new)
    apply (rule reaches_seqA, erule rd, unfold p)
    apply (rule reaches_bindA, erule reaches_remove_u8)
    apply (subst if_zero)
    apply (rule reaches_bindA, erule eof, unfold drop)
    apply (rule reaches_bindA [where x = ev and P = "client_at [] inp out w (advance 1 c)"], simp add: reaches_def)
    apply (rule reaches_seqA, erule reaches_modify_my)
    apply (simp add: reaches_def fin_def)
    done
  show "p = 0x00 # ev \<Longrightarrow> my_binlog_read_state c = READING_FIRST_EVENT \<Longrightarrow> reaches (get_binlog_event (evb_list z) P) s ev (fin READING_EVENT)"
    by (rule ok) simp_all
  show "p = 0x00 # ev @ crc \<Longrightarrow> length crc = 4 \<Longrightarrow> my_binlog_read_state c = READING_EVENT \<Longrightarrow>
      reaches (get_binlog_event (evb_list z) P) s ev (fin READING_EVENT)"
    by (rule ok [where q = "ev @ crc"]) (auto simp: drop_checksum_def)
  show "fails (get_binlog_event (evb_list z) P) s (Out_of_range ''end of binlog stream'') (fin NOT_READING)" if p: "p = [0xFE]"
    unfolding get_binlog_event_def
    apply (rule fails_seqA [OF reaches_assert_conn_open [OF at opn(1)]])
    apply (rule fails_bindA, erule reaches_gets_my, subst if_not_P [OF opn(2)])
    apply (rule fails_seqA, erule reaches_Buffer_new)
    apply (rule fails_seqA, erule rd, unfold p)
    apply (rule fails_bindA, erule reaches_remove_u8)
    apply (subst if_P [OF refl])
    apply (rule fails_seqA, erule reaches_modify_my)
    apply (simp add: fin_def fails_def)
    done
qed


section \<open>The handshake\<close>

text \<open>The server's greeting, with a challenge of 20 bytes and a final zero.\<close>

record greeting =
  g_version :: bytes
  g_conn_id :: u32
  g_challenge1 :: bytes
  g_filler :: u8
  g_caps_lo :: u16
  g_charset :: u8
  g_status :: u16
  g_caps_hi :: u16
  g_reserved :: bytes
  g_challenge2 :: bytes

definition greeting_ok :: "greeting \<Rightarrow> bool" where
  "greeting_ok g \<longleftrightarrow> 0 \<notin> set (g_version g) \<and> length (g_version g) < 2 ^ 20 \<and> length (g_challenge1 g) = 8 \<and>
     length (g_reserved g) = 10 \<and> length (g_challenge2 g) = 12"

definition greeting_payload :: "greeting \<Rightarrow> bytes \<Rightarrow> bytes" where
  "greeting_payload g plugin = 10 # (g_version g @ [0]) @ le_bytes 4 (unat (g_conn_id g)) @ g_challenge1 g @ [g_filler g] @
     le_bytes 2 (unat (g_caps_lo g)) @ [g_charset g] @ le_bytes 2 (unat (g_status g)) @ le_bytes 2 (unat (g_caps_hi g)) @
     [21] @ g_reserved g @ (g_challenge2 g @ [0]) @ (plugin @ [0])"

definition greeted :: "greeting \<Rightarrow> mysql_fields \<Rightarrow> mysql_fields" where
  "greeted g c = c\<lparr>my_server_version := g_version g, my_connection_id := g_conn_id g, my_charset := g_charset g,
     my_status_flags := g_status g, my_server_cap_flags := ucast (g_caps_lo g) OR push_bit 16 (ucast (g_caps_hi g))\<rparr>"

lemma reaches_step_bind:
  assumes "chan_at (xs @ b) inp out w y s" "decodes id (\<lambda>_. ()) m xs x"
    and "\<And>s'. chan_at b inp out w y s' \<Longrightarrow> reaches (f x) s' r Q"
  shows "reaches (bindA (on_buf m) f) s r Q"
  by (rule reaches_bindA [OF reaches_decodes [OF assms(2,1)]]) (rule assms(3))

lemma reaches_step_byte:
  assumes "chan_at (x # b) inp out w y s" "\<And>s'. chan_at b inp out w y s' \<Longrightarrow> reaches (f x) s' r Q"
  shows "reaches (bindA (on_buf (Buffer_remove_u8 (evb_list z))) f) s r Q"
  by (rule reaches_bindA [OF reaches_remove_u8 [OF assms(1)]]) (rule assms(2))

lemma reaches_step_my:
  assumes "client_at b inp out w c s" "\<And>s'. client_at b inp out w (g c) s' \<Longrightarrow> reaches m s' r Q"
  shows "reaches (seqA (modify_my g) m) s r Q"
  by (rule reaches_seqA [OF reaches_modify_my [OF assms(1)]]) (rule assms(2))

lemma reaches_drain:
  "chan_at (d @ b) inp out w y s \<Longrightarrow> length d = n \<Longrightarrow> (\<And>s'. chan_at b inp out w y s' \<Longrightarrow> reaches m s' r Q) \<Longrightarrow>
    reaches (seqA (on_buf (Buffer_drain (evb_list z) n)) m) s r Q"
  by (rule reaches_seqA, erule reaches_on_buf, simp, simp)

lemma reaches_greeting:
  assumes "client_at (greeting_payload g plugin) inp out w c s" "greeting_ok g" "0 \<notin> set plugin"
  shows "reaches (read_greeting (evb_list z)) s (plugin, g_challenge1 g @ g_challenge2 g @ [0]) (client_at [] inp out w (greeted g c))"
proof -
  note ok = assms(2) [unfolded greeting_ok_def]
  have len: "length (g_version g) < 2 ^ 64" using ok by simp
  have rem: "unat (if (ucast (21 :: u8) - 8 :: u64) < 13 then 13 else ucast (21 :: u8) - 8 :: u64) = 13" by simp
  have rs: "resize 21 (g_challenge1 g @ g_challenge2 g @ [0]) = g_challenge1 g @ g_challenge2 g @ [0]"
    using ok by (simp add: resize_def)
  have c12: "length (g_challenge2 g @ [0]) = 13" using ok by simp
  show ?thesis
    unfolding read_greeting_def Let_def
    apply (rule reaches_step_byte [OF assms(1) [unfolded greeting_payload_def]], subst if_not_P, simp)
    apply (erule reaches_step_bind, rule list_decodes(6), simp add: ok)
    apply (erule reaches_step_my, erule reaches_step_bind, rule list_decodes(3))
    apply (erule reaches_step_my, erule reaches_step_bind, rule list_decodes(7), simp add: ok)
    apply (erule reaches_step_bind, rule list_decodes(1))
    apply (erule reaches_step_bind, rule list_decodes(2))
    apply (erule reaches_step_my, erule reaches_step_bind, rule list_decodes(1))
    apply (erule reaches_step_my, erule reaches_step_bind, rule list_decodes(2))
    apply (erule reaches_step_my, erule reaches_step_bind, rule list_decodes(2))
    apply (erule reaches_step_my, erule reaches_step_bind, rule list_decodes(1))
    apply (erule reaches_drain, simp add: ok)
    apply (subst rem)
    apply (erule reaches_step_bind, rule list_decodes(7), rule c12)
    apply (rule reaches_bindA, rule reaches_decodes [where b = "[]" and xs = "plugin @ [0]"], rule list_decodes(6), rule assms(3), simp)
    apply (rule reaches_bindA, erule reaches_on_buf, simp)
    apply (simp add: rs reaches_def greeted_def)
    done
qed


definition login_payload :: "bytes \<Rightarrow> bytes \<Rightarrow> bytes \<Rightarrow> bytes" where
  "login_payload username response plugin = le_bytes 4 0x012BA201 @ le_bytes 4 0xFFFFFFFF @ [0xFF] @ replicate 23 0 @
     username @ [0] @ var_text response @ plugin @ [0]"

lemma reaches_add:
  assumes "chan_at b inp out w y s" "m b = (Ret (), b')" "\<And>s'. chan_at b' inp out w y s' \<Longrightarrow> reaches n s' r Q"
  shows "reaches (seqA (on_buf m) n) s r Q"
  by (rule reaches_seqA [OF reaches_on_buf [where m = m, OF assms(1,2)]]) (rule assms(3))

lemma reaches_login:
  assumes at: "client_at [] inp out (length (login_payload (my_username c) resp plugin) + 4 + w) c s"
    and len: "length (login_payload (my_username c) resp plugin) < 2 ^ 24"
  shows "reaches (send_login (evb_list z) plugin resp) s ()
    (client_at [] inp (out @ command_frame (my_next_seq c) (login_payload (my_username c) resp plugin)) w (advance 1 c))"
proof -
  let ?p = "login_payload (my_username c) resp plugin"
  have fin: "reaches (MySQL_write_command (evb_list z)) s1 () (client_at [] inp (out @ command_frame (my_next_seq c) ?p) w (advance 1 c))"
    if "client_at ?p inp out (length ?p + 4 + w) c s1" for s1
    using reaches_MySQL_write [OF that len] by simp
  have p: "((((((([] @ le_bytes 4 0x012BA201) @ le_bytes 4 0xFFFFFFFF) @ [0xFF]) @ replicate 23 0) @ my_username c @ [0]) @
      varint_bytes (word_of_nat (length resp)) @ resp) @ plugin @ [0]) = ?p"
    by (simp add: login_payload_def var_text_def)
  show ?thesis unfolding send_login_def
    apply (rule reaches_add [OF at], simp add: Buffer_add_u32l_def)
    apply (erule reaches_add, simp add: Buffer_add_u32l_def)
    apply (erule reaches_add, simp add: Buffer_add_u8_def)
    apply (erule reaches_add, simp add: add_zeroes_list)
    apply (rule reaches_bindA, erule reaches_gets_my)
    apply (erule reaches_add, simp add: add_strings_list)
    apply (erule reaches_add, simp add: add_strings_list)
    apply (erule reaches_add, simp add: add_strings_list)
    apply (rule fin)
    apply (simp add: login_payload_def var_text_def)
    done
qed

text \<open>\<open>k\<close> notes of fast authentication, then OK.\<close>

lemma reaches_auth:
  assumes "client_at [] (frames (my_next_seq c) (replicate k [0x01, 0x03] @ [0x00 # info]) @ inp) out w c s" "length info < 2 ^ 20" "k < n"
  shows "reaches (auth_loop n (evb_list z) P (ascii ''caching_sha2_password'')) s () (client_at info inp out w (advance (Suc k) c))"
  using assms
proof (induction k arbitrary: c s n)
  case 0
  then obtain m where n: "n = Suc m" by (cases n) auto
  have rd: "reaches (MySQL_read_command (evb_list z)) s () (client_at (0x00 # info) inp out w (advance 1 c))"
    using reaches_MySQL_read [of c "0x00 # info" inp out w s z] 0 by simp
  show ?case unfolding n auth_loop.simps
    by (rule reaches_seqA [OF rd], erule reaches_step_byte) (simp add: reaches_def)
next
  case (Suc k)
  then obtain m where n: "n = Suc m" "k < m" by (cases n) auto
  let ?inp = "frames (my_next_seq (advance 1 c)) (replicate k [0x01, 0x03] @ [0x00 # info]) @ inp"
  have rd: "reaches (MySQL_read_command (evb_list z)) s () (client_at [0x01, 0x03] ?inp out w (advance 1 c))"
    using reaches_MySQL_read [of c "[0x01, 0x03]" ?inp out w s z] Suc.prems(1) by simp
  have rest: "reaches (auth_loop m (evb_list z) P (ascii ''caching_sha2_password'')) s1 () (client_at info inp out w (advance (Suc (Suc k)) c))"
    if "client_at [] ?inp out w (advance 1 c) s1" for s1
    using Suc.IH [OF that Suc.prems(2) n(2)] by simp
  show ?case unfolding n(1) auth_loop.simps
    apply (rule reaches_seqA [OF rd], erule reaches_step_byte, subst if_not_P, simp, subst if_P, simp, subst if_P, rule refl)
    apply (erule reaches_step_byte, subst if_P, simp, erule rest)
    done
qed


text \<open>The answer to the challenge.\<close>

definition auth_answer :: "phosg_api \<Rightarrow> bytes \<Rightarrow> bytes \<Rightarrow> bytes" where
  "auth_answer P nonce password = map2 (XOR) (sha256 P password) (sha256 P (sha256 P (sha256 P password) @ nonce))"

lemma compute_auth_response_eq:
  assumes "\<And>x. length (sha256 P x) = 32"
  shows "compute_auth_response P (ascii ''caching_sha2_password'') nonce password = Ret (auth_answer P nonce password)"
proof -
  let ?a = "sha256 P password" and ?b = "sha256 P (sha256 P (sha256 P password) @ nonce)"
  have c: "map (xor_at ?a ?b) [0..<0x20] = map Some (map2 (XOR) ?a ?b)"
    by (rule nth_equalityI) (auto simp: xor_at_def str_at_def assms)
  have "map the (map Some (map2 (XOR) ?a ?b)) = map2 (XOR) ?a ?b" unfolding map_map by (simp add: comp_def)
  then show ?thesis unfolding compute_auth_response_def Let_def c auth_answer_def by (auto simp del: map_map)
qed

lemma handshake_list:
  fixes c :: mysql_fields
  defines "plugin \<equiv> ascii ''caching_sha2_password''"
  assumes at: "client_at b (command_frame 0 (greeting_payload g plugin) @ frames 2 (replicate k [0x01, 0x03] @ [0x00 # info]) @ inp) out
      (length (login_payload (my_username c) resp plugin) + 4 + w) c s"
    and g: "greeting_ok g" and sha: "\<And>x. length (sha256 P x) = 32"
    and resp: "resp = auth_answer P (g_challenge1 g @ g_challenge2 g) (my_password c)"
    and len: "length (my_username c) < 2 ^ 20" "length info < 2 ^ 20" "k < fuel"
  shows "reaches (initial_handshake fuel (evb_list z) P) s ()
    (client_at info inp (out @ command_frame 1 (login_payload (my_username c) resp plugin)) w
      (greeted g c\<lparr>my_next_seq := 2 + word_of_nat (Suc k)\<rparr>))"
proof -
  let ?rest = "frames 2 (replicate k [0x01, 0x03] @ [0x00 # info]) @ inp" and ?p = "greeting_payload g plugin"
  let ?l = "login_payload (my_username c) resp plugin" and ?c0 = "c\<lparr>my_next_seq := 0\<rparr>"
  let ?W = "length ?l + 4 + w" and ?c1 = "greeted g (advance 1 (c\<lparr>my_next_seq := 0\<rparr>))"
  have pl: "0 \<notin> set plugin" "length plugin = 21" by (simp_all add: plugin_def ascii_def)
  have r32: "length resp = 32" by (simp add: resp auth_answer_def sha)
  have "length ?p < 2 ^ 24" using g pl by (simp add: greeting_payload_def greeting_ok_def)
  then have rd: "reaches (MySQL_read_command (evb_list z)) s1 () (client_at ?p ?rest out ?W (advance 1 ?c0))"
    if "client_at [] (command_frame 0 ?p @ ?rest) out ?W ?c0 s1" for s1
    using reaches_MySQL_read [of ?c0 ?p ?rest out ?W s1 z] that by (simp add: advance_def)
  have ll: "length ?l < 2 ^ 24"
    using len(1) pl r32 length_varint [of "word_of_nat (length resp)"] by (simp add: login_payload_def var_text_def)
  have strip: "strip_challenge (g_challenge1 g @ g_challenge2 g @ [0]) = Ret (g_challenge1 g @ g_challenge2 g)"
    by (simp add: strip_challenge_def butlast_append)
  have f: "my_username ?c1 = my_username c" "my_password ?c1 = my_password c" "my_next_seq ?c1 = 1" by (simp_all add: greeted_def advance_def)
  have lift: "reaches (liftO (Ret x)) s1 x (client_at [] ?rest out ?W ?c1)" if "client_at [] ?rest out ?W ?c1 s1" for s1 and x :: bytes
    using that by (simp add: reaches_def)
  have login: "reaches (send_login (evb_list z) plugin resp) s1 () (client_at [] ?rest (out @ command_frame 1 ?l) w (advance 1 ?c1))"
    if "client_at [] ?rest out ?W ?c1 s1" for s1
    using reaches_login [of ?rest out ?c1 resp plugin w s1 z] that ll unfolding f by simp
  have q: "my_next_seq (advance 1 ?c1) = 2" by (simp add: greeted_def advance_def)
  have auth: "reaches (auth_loop fuel (evb_list z) P plugin) s1 () (client_at info inp (out @ command_frame 1 ?l) w (advance (Suc k) (advance 1 ?c1)))"
    if "client_at [] ?rest (out @ command_frame 1 ?l) w (advance 1 ?c1) s1" for s1
    using reaches_auth [where c = "advance 1 ?c1", unfolded q, OF that len(2,3), of z P] unfolding plugin_def .
  have fin: "advance (Suc k) (advance 1 ?c1) = greeted g c\<lparr>my_next_seq := 2 + word_of_nat (Suc k)\<rparr>"
    by (simp add: greeted_def advance_def)
  show ?thesis unfolding initial_handshake_def
    apply (rule reaches_seqA [OF reaches_Buffer_new [OF at]])
    apply (rule reaches_seqA, erule reaches_reset_seq)
    apply (rule reaches_seqA, erule rd)
    apply (rule reaches_bindA, erule reaches_greeting [OF _ g pl(1)], unfold prod.case strip)
    apply (rule reaches_bindA, erule lift)
    apply (rule reaches_bindA, erule reaches_gets_my, unfold f compute_auth_response_eq [OF sha, folded plugin_def] resp [symmetric])
    apply (rule reaches_bindA, erule lift)
    apply (rule reaches_seqA, erule login)
    apply (drule auth, unfold fin, assumption)
    done
qed

end
