(* ===== verification/MySQL_Client_Properties.thy ===== *)
theory MySQL_Client_Properties
  imports MySQL_Client
begin

text \<open>
  The properties of the MySQL client, for any evbuffer that meets its specification: MySQL_Client
  proves them for the list model, and the simulation carries them over.
\<close>

text \<open>The state of a client, given a server's bytes to come.\<close>

definition client_ready :: "phosg_api \<Rightarrow> nat \<Rightarrow> bytes \<Rightarrow> 'b mysql_client \<Rightarrow> bool" where
  "client_ready P w inp s \<longleftrightarrow> fd_is_open P (my_fd (my s)) \<and> ch_inp s = inp \<and> live w s"

lemma client_at_abs: "live w s \<Longrightarrow> client_at (v (ch_buf s)) (ch_inp s) (ch_out s) w (my s) (chan_abs v (s :: 'b mysql_client))"
  by (simp add: client_at_iff live_def)

lemma client_reachesE:
  assumes "simA (chan_abs v) m n" and "reaches n (chan_abs v (s :: 'b mysql_client)) r (client_at b inp out w c)"
  obtains s' where "m s = (Ret r, s')" and "v (ch_buf s') = b" and "ch_inp s' = inp" and "ch_out s' = out" and "my s' = c"
  by (rule reaches_chanE [OF assms]) (auto simp: client_more_iff)

lemma client_failsE:
  assumes "simA (chan_abs v) m n" and "fails n (chan_abs v (s :: 'b mysql_client)) e (client_at b inp out w c)"
  obtains s' where "m s = (Throw e, s')" and "v (ch_buf s') = b" and "ch_inp s' = inp" and "ch_out s' = out" and "my s' = c"
  by (rule fails_chanE [OF assms]) (auto simp: client_more_iff)

lemma query_multi_run:
  assumes "evbuffer_spec E v" and "client_ready P (length sql + 5) (frames 1 (concat (map answer_payloads as)) @ rest) s"
    and "length sql + 1 < 2 ^ 24" and "as \<noteq> []" and "\<forall>a\<in>set as. answer_ok F fuel a" and "\<forall>a\<in>set (butlast as). \<not> is_last a"
    and "is_last (last as)" and "length as \<le> fuel"
  shows "\<exists>s'. query_multi fuel E P F sql d s = (Ret (map (answer_result d) as), s') \<and> ch_inp s' = rest \<and>
    ch_out s' = ch_out s @ command_frame 0 (mysql_command_code QUERY # sql)"
proof -
  have "reaches (query_multi fuel (evb_ref E) P F sql d) (chan_abs v s) (map (answer_result d) as)
    (client_at (answer_tail (last as)) rest (ch_out s @ command_frame 0 (mysql_command_code QUERY # sql)) 0
      ((my s)\<lparr>my_next_seq := 1 + word_of_nat (length (concat (map answer_payloads as)))\<rparr>))"
    unfolding evb_ref_def
    by (rule query_multi_list [where b = "v (ch_buf s)"])
      (use assms client_at_abs [of "length sql + 5" s v] in \<open>auto simp: client_ready_def\<close>)
  from client_reachesE [OF query_sims(1) [OF assms(1)] this] show ?thesis by metis
qed


text \<open>A concrete client and server for the examples below.\<close>

definition example_fields :: mysql_fields where
  "example_fields = \<lparr>my_hostname = [], my_port = 3306, my_username = ascii ''u'', my_password = ascii ''p'', my_fd = 5, my_next_seq = 0,
     my_server_version = [], my_connection_id = 0, my_server_cap_flags = 0, my_charset = 0, my_status_flags = 0,
     my_binlog_read_state = NOT_READING, my_expected_binlog_seq = 0\<rparr>"

definition example_client :: "mysql_fields \<Rightarrow> bytes \<Rightarrow> bytes mysql_client" where
  "example_client c inp = \<lparr>ch_buf = [], ch_inp = inp, ch_sched = replicate 400 (Os_ok 7), ch_out = [], my = c\<rparr>"

definition example_floats :: float_api where
  "example_floats = \<lparr>stof = (\<lambda>_. Ret 0), stod = (\<lambda>_. Ret 0)\<rparr>"

definition example_column :: column_definition where
  "example_column = \<lparr>cd_catalog_name = ascii ''def'', cd_database_name = [], cd_table_name = [], cd_original_table_name = [],
     cd_column_name = ascii ''x'', cd_original_column_name = [], cd_charset = 63, cd_max_value_length = 11, cd_type = 3,
     cd_flags = 0, cd_decimals = 0\<rparr>"

definition example_answers :: "answer list" where
  "example_answers = [A_ok 2 0 0x000A 0 [], A_rows [(example_column, 0)] [[(Some (ascii ''42''), V_uint 42)], [(None, V_null)]] 0 0x0002 [9]]"

definition example_queried :: "bytes mysql_client" where
  "example_queried = example_client example_fields (frames 1 (concat (map answer_payloads example_answers)) @ [1, 2])"

lemma example_ready: "client_ready phosg_model (length (ascii ''SELECT x'') + 5) (frames 1 (concat (map answer_payloads example_answers)) @ [1, 2]) example_queried"
  by (simp add: example_queried_def client_ready_def live_def phosg_model_def example_client_def example_fields_def example_answers_def
      ok_payload_def column_payload_def example_column_def row_payload_def eof_payload_def var_text_def varint_bytes_def
      command_frame_def ascii_def)

lemma example_answers_ok: "\<forall>a\<in>set example_answers. answer_ok example_floats 3 a"
proof -
  have "column_type_of 3 = Some T_INT" using column_type_of_code [of T_INT] by simp
  then have pv: "parse_value example_floats 3 [52, 50] = Ret (V_uint 42)"
    by (simp add: parse_value_def stoull_def scan_number_def c_chars_def is_digit_def is_space_def digits_val_def map_outcome_def)
  have "ascii ''42'' = [52, 50]" by (simp add: ascii_def)
  then show ?thesis
    by (simp add: example_answers_def row_ok_def row_payload_def var_text_def varint_bytes_def column_payload_def example_column_def pv
        ascii_def)
qed

lemma example_last:
  "\<forall>a\<in>set (butlast example_answers). \<not> is_last a" "is_last (last example_answers)" "length example_answers \<le> 3"
  "example_answers \<noteq> []" "length (ascii ''SELECT x'') + 1 < 2 ^ 24"
  by (simp_all add: example_answers_def is_last_def MORE_RESULTS_EXIST_def ascii_def)



text \<open>C38: The same ERR packet, with its code, SQL state and message, in answer to \<open>change_db\<close> and to
  \<open>query_multi\<close>.  \<open>change_db\<close> throws the server's error.  \<open>query_multi\<close> does not take the marker byte
  0xFF off the buffer before it decodes the error, so it throws an error with every field shifted
  by one byte: its code is 255 plus 256 times the low byte of the server's code.\<close>

theorem error_packets:
  assumes "evbuffer_spec E v" and "client_ready P (length d + 5) (command_frame 1 (err_payload code [q1, q2, q3, q4, q5] msg) @ rest) s"
    and "length d + 1 < 2 ^ 24" and "length msg < 2 ^ 20"
  shows "(\<exists>s'. change_db E P d s = (Throw (error_text P code [35, q1, q2, q3, q4, q5] msg), s')) \<and>
    (\<exists>s'. query_multi (Suc fuel) E P F d dicts s =
      (Throw (error_text P (word_of_nat (255 + 256 * (unat code mod 256))) [word_of_nat (unat code div 256), 35, q1, q2, q3, q4] (q5 # msg)), s'))"
proof (rule conjI)
  let ?p = "err_payload code [q1, q2, q3, q4, q5] msg" and ?lo = "word_of_nat (unat code) :: byte" and ?hi = "word_of_nat (unat code div 256) :: byte"
  have lh: "le_bytes 2 (unat code) = [?lo, ?hi]" by (simp only: numeral_2_eq_2 le_bytes.simps)
  have lo: "unat ?lo = unat code mod 256" by (simp only: unat_of_nat) simp
  have len: "length ?p < 2 ^ 24" using assms(4) by (simp add: err_payload_def)
  have at: "client_at (v (ch_buf s)) (command_frame 1 ?p @ rest) (ch_out s) (length d + 5 + 0) (my s) (chan_abs v s)"
    using assms(2) client_at_abs [of "length d + 5" s v] by (simp add: client_ready_def)
  have opn: "fd_is_open P (my_fd (my s))" using assms(2) by (simp add: client_ready_def)
  have 1: "fails (change_db (evb_ref E) P d) (chan_abs v s) (error_text P code (35 # [q1, q2, q3, q4, q5]) msg)
      (client_at [] rest (ch_out s @ command_frame 0 (mysql_command_code INIT_DB # d)) 0 ((my s)\<lparr>my_next_seq := 2\<rparr>))"
    unfolding evb_ref_def by (rule change_db_list(2) [OF at opn assms(3) len refl]) simp
  from client_failsE [OF query_sims(3) [OF assms(1)] 1]
  show "\<exists>s'. change_db E P d s = (Throw (error_text P code [35, q1, q2, q3, q4, q5] msg), s')" by metis
  have 2: "fails (query_multi (Suc fuel) (evb_ref E) P F d dicts) (chan_abs v s)
      (error_text P (word_of_nat (255 + 256 * unat ?lo)) [?hi, 35, q1, q2, q3, q4] (q5 # msg))
      (client_at [] rest (ch_out s @ command_frame 0 (mysql_command_code QUERY # d)) 0 ((my s)\<lparr>my_next_seq := 2\<rparr>))"
    unfolding evb_ref_def by (rule query_error_list [OF at opn assms(3,4) refl lh])
  from client_failsE [OF query_sims(1) [OF assms(1)] 2]
  show "\<exists>s'. query_multi (Suc fuel) E P F d dicts s =
      (Throw (error_text P (word_of_nat (255 + 256 * (unat code mod 256))) [?hi, 35, q1, q2, q3, q4] (q5 # msg)), s')"
    unfolding lo by metis
qed

theorem error_packets_witness:
  "\<exists>s'. query_multi 1 (evb_list 0) phosg_model example_floats (ascii ''x'') True
      (example_client example_fields (command_frame 1 (err_payload 1064 (ascii ''42000'') (ascii ''bad'')) @ [])) =
    (Throw (error_text phosg_model 10495 [4, 35, 52, 50, 48, 48] (48 # ascii ''bad'')), s')"
proof -
  have st: "ascii ''42000'' = [52, 50, 48, 48, 48]" by (simp add: ascii_def)
  let ?p = "err_payload 1064 [52, 50, 48, 48, 48] (ascii ''bad'')"
  let ?s = "example_client example_fields (command_frame 1 ?p @ [])"
  have r: "client_ready phosg_model (length (ascii ''x'') + 5) (command_frame 1 ?p @ []) ?s"
    by (simp add: client_ready_def live_def phosg_model_def example_client_def example_fields_def err_payload_def command_frame_def ascii_def)
  from conjunct2 [OF error_packets [OF evb_list_spec [of 0, OF order_refl] r, of 0 example_floats True]] show ?thesis unfolding st
    by (simp add: ascii_def)
qed

text \<open>C22: The login.  The server's greeting is packet 0; the client takes its fields over, answers the
  challenge (without its final zero) with the XOR of the two hashes the plugin documents, in
  packet 1, which names the user and the plugin and never contains the password, and returns when
  the server accepts, after any number of notes that fast authentication succeeded.\<close>

theorem handshake_correct:
  assumes "evbuffer_spec E v" and "greeting_ok g" and "\<And>x. length (sha256 P x) = 32"
    and "resp = auth_answer P (g_challenge1 g @ g_challenge2 g) (my_password (my s))"
    and "login = login_payload (my_username (my s)) resp (ascii ''caching_sha2_password'')"
    and "ch_inp s = command_frame 0 (greeting_payload g (ascii ''caching_sha2_password'')) @
      frames 2 (replicate k [0x01, 0x03] @ [0x00 # info]) @ rest"
    and "live (length login + 4) s" and "length (my_username (my s)) < 2 ^ 20" and "length info < 2 ^ 20" and "k < fuel"
  shows "\<exists>s'. initial_handshake fuel E P s = (Ret (), s') \<and> ch_out s' = ch_out s @ command_frame 1 login \<and> ch_inp s' = rest \<and>
    my s' = greeted g (my s)\<lparr>my_next_seq := 2 + word_of_nat (Suc k)\<rparr>"
proof -
  have at: "client_at (v (ch_buf s)) (command_frame 0 (greeting_payload g (ascii ''caching_sha2_password'')) @
      frames 2 (replicate k [0x01, 0x03] @ [0x00 # info]) @ rest) (ch_out s)
      (length (login_payload (my_username (my s)) resp (ascii ''caching_sha2_password'')) + 4 + 0) (my s) (chan_abs v s)"
    using client_at_abs [OF assms(7), of v] unfolding assms(5,6) by simp
  have "reaches (initial_handshake fuel (evb_ref E) P) (chan_abs v s) () (client_at info rest (ch_out s @ command_frame 1 login) 0
      (greeted g (my s)\<lparr>my_next_seq := 2 + word_of_nat (Suc k)\<rparr>))"
    unfolding evb_ref_def assms(5) by (rule handshake_list [OF at assms(2,3,4,8,9,10)])
  from client_reachesE [OF handshake_sim [OF assms(1)] this] show ?thesis by metis
qed

definition example_greeting :: greeting where
  "example_greeting = \<lparr>g_version = ascii ''8.0'', g_conn_id = 7, g_challenge1 = replicate 8 1, g_filler = 0, g_caps_lo = 0xFFFF,
     g_charset = 255, g_status = 2, g_caps_hi = 0xDFFF, g_reserved = replicate 10 0, g_challenge2 = replicate 12 2\<rparr>"

theorem handshake_correct_witness:
  "\<exists>s'. initial_handshake 2 (evb_list 0) phosg_model (example_client example_fields
      (command_frame 0 (greeting_payload example_greeting (ascii ''caching_sha2_password'')) @
       frames 2 (replicate 1 [0x01, 0x03] @ [0x00 # []]) @ [])) = (Ret (), s') \<and> my_connection_id (my s') = 7 \<and> my_next_seq (my s') = 4"
proof -
  let ?inp = "command_frame 0 (greeting_payload example_greeting (ascii ''caching_sha2_password'')) @
       frames 2 (replicate 1 [0x01, 0x03] @ [0x00 # []]) @ []"
  let ?s = "example_client example_fields ?inp"
  let ?r = "auth_answer phosg_model (g_challenge1 example_greeting @ g_challenge2 example_greeting) (my_password (my ?s))"
  let ?l = "login_payload (my_username (my ?s)) ?r (ascii ''caching_sha2_password'')"
  have g: "greeting_ok example_greeting" by (simp add: greeting_ok_def example_greeting_def ascii_def)
  have sha: "length (sha256 phosg_model x) = 32" for x by (simp add: phosg_model_def)
  have "length ?r = 32" by (simp add: auth_answer_def sha)
  then have live: "live (length ?l + 4) ?s"
    by (simp add: live_def example_client_def example_fields_def login_payload_def var_text_def varint_bytes_def
        greeting_payload_def example_greeting_def command_frame_def ascii_def)
  have inp: "ch_inp ?s = ?inp" by (simp add: example_client_def)
  obtain s' where run: "initial_handshake 2 (evb_list 0) phosg_model ?s = (Ret (), s')"
    and my: "my s' = greeted example_greeting (my ?s)\<lparr>my_next_seq := 2 + word_of_nat (Suc 1)\<rparr>"
    using handshake_correct [OF evb_list_spec [of 0] g sha refl refl inp live, of 2] by (auto simp: example_client_def example_fields_def ascii_def)
  have "my_connection_id (my s') = 7" "my_next_seq (my s') = 4"
    by (simp_all add: my greeted_def example_greeting_def example_client_def example_fields_def)
  with run show ?thesis by blast
qed

section \<open>The binary log stream\<close>

text \<open>The packets of a stream: the first event bare, the others each with its four-byte checksum.\<close>

definition stream_payloads :: "bytes \<Rightarrow> (bytes \<times> bytes) list \<Rightarrow> bytes list" where
  "stream_payloads first evs = (0 # first) # map (\<lambda>(ev, crc). 0 # ev @ crc) evs"

text \<open>\<open>n\<close> calls of \<open>get_binlog_event\<close>, one after the other.\<close>

definition get_binlog_events :: "'b evbuffer_api \<Rightarrow> phosg_api \<Rightarrow> nat \<Rightarrow> ('b mysql_client, bytes list) act" where
  "get_binlog_events E P n = collectA (\<lambda>_. get_binlog_event E P) (replicate n ())"

lemma get_binlog_events_sim:
  "evbuffer_spec E v \<Longrightarrow> simA (chan_abs v) (get_binlog_events E P n) (get_binlog_events (evb_ref E) P n)"
  unfolding get_binlog_events_def by (intro sim_intros)

lemma advance_fields [simp]:
  "my_fd (advance n c) = my_fd c" "my_binlog_read_state (advance n c) = my_binlog_read_state c"
  "advance n (c\<lparr>my_binlog_read_state := st\<rparr>) = (advance n c)\<lparr>my_binlog_read_state := st\<rparr>"
  by (simp_all add: advance_def)

lemma read_state_same: "my_binlog_read_state c = st \<Longrightarrow> c\<lparr>my_binlog_read_state := st\<rparr> = c"
  by simp

lemma later_events_list:
  assumes "client_at [] (frames (my_next_seq c) (map (\<lambda>(ev, crc). 0 # ev @ crc) evs) @ inp) out w c s"
    and "fd_is_open P (my_fd c)" and "my_binlog_read_state c = READING_EVENT"
    and "\<forall>(ev, crc)\<in>set evs. length crc = 4 \<and> length ev + 5 < 2 ^ 24"
  shows "reaches (get_binlog_events (evb_list z) P (length evs)) s (map fst evs) (client_at [] inp out w (advance (length evs) c))"
  using assms
proof (induction evs arbitrary: c s)
  case (Cons e evs)
  obtain ev crc where e: "e = (ev, crc)" by (cases e)
  from Cons.prems(4) e have len: "length crc = 4" "length (0 # ev @ crc) < 2 ^ 24" by auto
  let ?rest = "frames (my_next_seq c + 1) (map (\<lambda>(ev, crc). 0 # ev @ crc) evs) @ inp"
  have at: "client_at [] (command_frame (my_next_seq c) (0 # ev @ crc) @ ?rest) out w c s" using Cons.prems(1) by (simp add: e)
  have same: "(advance 1 c)\<lparr>my_binlog_read_state := READING_EVENT\<rparr> = advance 1 c"
    using Cons.prems(3) by (intro read_state_same) simp
  have "my_binlog_read_state c \<noteq> NOT_READING" using Cons.prems(3) by simp
  from get_binlog_event_list(2) [OF at Cons.prems(2) this len(2) refl len(1) Cons.prems(3)]
  have one: "reaches (get_binlog_event (evb_list z) P) s ev (client_at [] ?rest out w (advance 1 c))" unfolding same .
  have "reaches (get_binlog_events (evb_list z) P (length evs)) s1 (map fst evs) (client_at [] inp out w (advance (length evs) (advance 1 c)))"
    if "client_at [] ?rest out w (advance 1 c) s1" for s1
    by (rule Cons.IH) (use that Cons.prems in \<open>auto simp del: One_nat_def\<close>)
  then have more: "reaches (get_binlog_events (evb_list z) P (length evs)) s1 (map fst evs) (client_at [] inp out w (advance (Suc (length evs)) c))"
    if "client_at [] ?rest out w (advance 1 c) s1" for s1
    using that by (simp only: advance_simps plus_1_eq_Suc)
  show ?case unfolding get_binlog_events_def length_Cons replicate_Suc collectA.simps
    by (rule reaches_bindA [OF one], rule reaches_bindA, erule more [unfolded get_binlog_events_def]) (simp add: reaches_def e)
qed (simp add: get_binlog_events_def reaches_def)

lemma stream_list:
  assumes at: "client_at b (frames (my_next_seq c) (stream_payloads first evs @ [[0xFE]]) @ inp) out w c s"
    and opn: "fd_is_open P (my_fd c)" and st: "my_binlog_read_state c = READING_FIRST_EVENT"
    and len: "length first + 1 < 2 ^ 24" "\<forall>(ev, crc)\<in>set evs. length crc = 4 \<and> length ev + 5 < 2 ^ 24"
  defines "k \<equiv> (advance (Suc (length evs)) c)\<lparr>my_binlog_read_state := READING_EVENT\<rparr>"
  shows "reaches (get_binlog_events (evb_list z) P (Suc (length evs))) s (first # map fst evs)
      (client_at [] (command_frame (my_next_seq k) [0xFE] @ inp) out w k)"
    and "fails (seqA (get_binlog_events (evb_list z) P (Suc (length evs))) (get_binlog_event (evb_list z) P)) s
      (Out_of_range ''end of binlog stream'') (client_at [] inp out w ((advance 1 k)\<lparr>my_binlog_read_state := NOT_READING\<rparr>))"
proof -
  let ?d = "(advance 1 c)\<lparr>my_binlog_read_state := READING_EVENT\<rparr>"
  let ?last = "command_frame (my_next_seq k) [0xFE] @ inp"
  let ?rest = "frames (my_next_seq ?d) (map (\<lambda>(ev, crc). 0 # ev @ crc) evs) @ ?last"
  have k: "advance (length evs) ?d = k" "my_next_seq k = my_next_seq c + 1 + word_of_nat (length evs)"
    by (simp_all add: k_def algebra_simps)
  have "frames (my_next_seq c) (stream_payloads first evs @ [[0xFE]]) @ inp = command_frame (my_next_seq c) (0 # first) @ ?rest"
    unfolding k(2) by (simp add: stream_payloads_def frames_append)
  with at have at': "client_at b (command_frame (my_next_seq c) (0 # first) @ ?rest) out w c s" by simp
  from len(1) have "length (0 # first) < 2 ^ 24" by simp
  from get_binlog_event_list(1) [OF at' opn _ this refl st] st
  have one: "reaches (get_binlog_event (evb_list z) P) s first (client_at [] ?rest out w ?d)" by simp
  have more: "reaches (get_binlog_events (evb_list z) P (length evs)) s1 (map fst evs) (client_at [] ?last out w k)"
    if "client_at [] ?rest out w ?d s1" for s1
    using later_events_list [OF that, of P z] opn len(2) by (simp only: k(1)) simp
  show all: "reaches (get_binlog_events (evb_list z) P (Suc (length evs))) s (first # map fst evs) (client_at [] ?last out w k)"
    unfolding get_binlog_events_def replicate_Suc collectA.simps
    by (rule reaches_bindA [OF one], rule reaches_bindA, erule more [unfolded get_binlog_events_def]) (simp add: reaches_def)
  have ko: "fd_is_open P (my_fd k)" "my_binlog_read_state k \<noteq> NOT_READING" using opn by (simp_all add: k_def)
  show "fails (seqA (get_binlog_events (evb_list z) P (Suc (length evs))) (get_binlog_event (evb_list z) P)) s
      (Out_of_range ''end of binlog stream'') (client_at [] inp out w ((advance 1 k)\<lparr>my_binlog_read_state := NOT_READING\<rparr>))"
    by (rule fails_seqA [OF all], erule get_binlog_event_list(3) [OF _ ko _ refl]) simp
qed

lemma stream_run:
  assumes "evbuffer_spec E v" and "client_ready P 0 (frames (my_next_seq (my s)) (stream_payloads first evs @ [[0xFE]]) @ rest) s"
    and "my_binlog_read_state (my s) = READING_FIRST_EVENT"
    and "length first + 1 < 2 ^ 24" and "\<forall>(ev, crc)\<in>set evs. length crc = 4 \<and> length ev + 5 < 2 ^ 24"
  obtains s' s'' where "get_binlog_events E P (Suc (length evs)) s = (Ret (first # map fst evs), s')"
    and "get_binlog_event E P s' = (Throw (Out_of_range ''end of binlog stream''), s'')"
    and "my_binlog_read_state (my s'') = NOT_READING" and "ch_inp s'' = rest" and "ch_out s'' = ch_out s"
proof -
  have at: "client_at (v (ch_buf s)) (frames (my_next_seq (my s)) (stream_payloads first evs @ [[0xFE]]) @ rest) (ch_out s) 0 (my s) (chan_abs v s)"
    using assms(2) client_at_abs [of 0 s v] by (simp add: client_ready_def)
  have opn: "fd_is_open P (my_fd (my s))" using assms(2) by (simp add: client_ready_def)
  note lst = stream_list [OF at opn assms(3,4,5), where z = "evbuffer_write_none E", folded evb_ref_def]
  obtain s' where 1: "get_binlog_events E P (Suc (length evs)) s = (Ret (first # map fst evs), s')"
    by (rule client_reachesE [OF get_binlog_events_sim [OF assms(1)] lst(1)])
  obtain s'' where 2: "seqA (get_binlog_events E P (Suc (length evs))) (get_binlog_event E P) s = (Throw (Out_of_range ''end of binlog stream''), s'')"
    and s'': "ch_inp s'' = rest" "ch_out s'' = ch_out s" "my_binlog_read_state (my s'') = NOT_READING"
    by (rule client_failsE [OF simA_seqA [OF get_binlog_events_sim [OF assms(1)] query_sims(2) [OF assms(1)]] lst(2)]) simp
  from 2 have "get_binlog_event E P s' = (Throw (Out_of_range ''end of binlog stream''), s'')"
    by (simp add: seqA_def bindA_def 1)
  with 1 s'' show ?thesis by (intro that)
qed

text \<open>Reading a binary log.  After \<open>read_binlogs\<close>, successive calls of \<open>get_binlog_event\<close> return the
  events of the stream, each once and in order: the first (which carries no checksum) as it is,
  each later one without the four bytes of its checksum.  The call at the end of the stream
  throws \<open>out_of_range\<close> and turns reading off, and what the server sends next is still unread.
  Every call returns or throws, however the bytes are cut into reads.\<close>

theorem binlog_stream_delivered:
  assumes "evbuffer_spec E v" and "client_ready P 0 (frames (my_next_seq (my s)) (stream_payloads first evs @ [[0xFE]]) @ rest) s"
    and "my_binlog_read_state (my s) = READING_FIRST_EVENT"
    and "length first + 1 < 2 ^ 24" and "\<forall>(ev, crc)\<in>set evs. length crc = 4 \<and> length ev + 5 < 2 ^ 24"
  shows "\<exists>s' s''. get_binlog_events E P (Suc (length evs)) s = (Ret (first # map fst evs), s') \<and>
    get_binlog_event E P s' = (Throw (Out_of_range ''end of binlog stream''), s'') \<and>
    my_binlog_read_state (my s'') = NOT_READING \<and> ch_inp s'' = rest \<and> ch_out s'' = ch_out s"
  by (rule stream_run [OF assms]) (intro exI conjI)

theorem binlog_stream_delivered_witness:
  "\<exists>s'. get_binlog_events (evb_list 0) phosg_model 2 (example_client (example_fields\<lparr>my_binlog_read_state := READING_FIRST_EVENT\<rparr>)
      (frames 0 (stream_payloads [1, 2] [([3], [9, 9, 9, 9])] @ [[0xFE]]))) = (Ret [[1, 2], [3]], s')"
proof -
  let ?s = "example_client (example_fields\<lparr>my_binlog_read_state := READING_FIRST_EVENT\<rparr>)
      (frames 0 (stream_payloads [1, 2] [([3], [9, 9, 9, 9])] @ [[0xFE]]))"
  have "client_ready phosg_model 0 (frames (my_next_seq (my ?s)) (stream_payloads [1, 2] [([3], [9, 9, 9, 9])] @ [[0xFE]]) @ []) ?s"
    and "my_binlog_read_state (my ?s) = READING_FIRST_EVENT"
    by (simp_all add: client_ready_def live_def phosg_model_def example_client_def example_fields_def stream_payloads_def command_frame_def)
  note ready = this
  let ?evs = "[([3], [9, 9, 9, 9 :: byte])] :: (bytes \<times> bytes) list"
  have len: "length [1, 2 :: byte] + 1 < 2 ^ 24" "\<forall>(ev, crc)\<in>set ?evs. length crc = 4 \<and> length ev + 5 < 2 ^ 24"
    by simp_all
  obtain s' where "get_binlog_events (evb_list 0) phosg_model (Suc (length ?evs)) ?s = (Ret ([1, 2] # map fst ?evs), s')"
    using binlog_stream_delivered [OF evb_list_spec [of 0] ready len] by blast
  then show ?thesis by (simp add: numeral_2_eq_2)
qed

end
