(* ===== verification/MySQL_Print.thy ===== *)
theory MySQL_Print
  imports MySQL_Types
begin

text \<open>
  The text forms of Protocols/MySQL/Types.cc: what the \<open>str\<close> methods of the date and time values, the
  function \<open>format_cell_value\<close> and the method \<open>ResultSet::print\<close> write.  The lemmas show that a printed
  date or time is parsed back to the same value, whatever its fields, and when \<open>print\<close> throws.
\<close>

section \<open>Values\<close>

text \<open>A variant of these alternatives always holds one of them, so the last branch of the source is not reached.\<close>

definition format_cell_value :: "phosg_api \<Rightarrow> mysql_value \<Rightarrow> string" where
  "format_cell_value P cell = (case cell of
     V_uint x \<Rightarrow> string_printf P ''(uint64) %lu'' [P_int (uint x)]
   | V_int x \<Rightarrow> string_printf P ''(int64) %ld'' [P_int (sint x)]
   | V_float x \<Rightarrow> string_printf P ''(float) %g'' [P_float x]
   | V_double x \<Rightarrow> string_printf P ''(double) %lg'' [P_double x]
   | V_null \<Rightarrow> string_printf P ''(null)'' []
   | V_datetime x \<Rightarrow> string_printf P ''(datetime) %s'' [c_str (ascii (DateTimeValue_str P x))]
   | V_time x \<Rightarrow> string_printf P ''(time) %s'' [c_str (ascii (TimeValue_str P x))]
   | V_string x \<Rightarrow> string_printf P ''(string) \"%s\"'' [c_str (escape_quotes P x)])"

section \<open>Result sets\<close>

text \<open>The state is what has been written to the stream; none of the formats converts a floating-point number.\<close>

definition fprintf :: "string \<Rightarrow> printf_arg list \<Rightarrow> (bytes, unit) act" where
  "fprintf fmt args = modifyA (\<lambda>out. out @ ascii (c_printf fmt args))"

definition print_metadata :: "result_set \<Rightarrow> (bytes, unit) act" where
  "print_metadata r = eachA (\<lambda>(fmt, args). fprintf (fmt @ ''\<newline>'') args)
     [(''ResultSet:'', []), (''  Metadata:'', []), (''    affected_rows: %lu'', [P_int (uint (rs_affected_rows r))]),
      (''    insert_id: %lu'', [P_int (uint (rs_insert_id r))]), (''    status_flags: 0x%04hX'', [P_int (uint (rs_status_flags r))]),
      (''    warning_count: %hu'', [P_int (uint (rs_warning_count r))]), (''  Columns:'', [])]"

definition full_column_name :: "column_definition \<Rightarrow> bytes" where
  "full_column_name c = (if cd_table_name c = [] then cd_column_name c
     else (if cd_database_name c = [] then [] else cd_database_name c @ ascii ''.'') @ cd_table_name c @ ascii ''.'' @ cd_column_name c)"

definition from_str :: "column_definition \<Rightarrow> bytes" where
  "from_str c = (if cd_original_column_name c \<noteq> [] \<and> cd_original_table_name c \<noteq> []
     then ascii ''from '' @ cd_original_table_name c @ ascii ''.'' @ cd_original_column_name c @ ascii ''; ''
     else if cd_original_table_name c \<noteq> []
     then ascii ''from '' @ cd_original_table_name c @ ascii ''.'' @ cd_column_name c @ ascii ''; ''
     else if cd_original_column_name c \<noteq> [] then ascii ''from '' @ cd_original_column_name c @ ascii ''; '' else [])"

definition print_column :: "column_definition \<Rightarrow> (bytes, unit) act" where
  "print_column c = fprintf ''    %s (%scharset 0x%04hX; type %02hhX; flags %04hX)\<newline>''
     [c_str (full_column_name c), c_str (from_str c), P_int (uint (cd_charset c)), P_int (uint (cd_type c)), P_int (uint (cd_flags c))]"

definition print_cell :: "phosg_api \<Rightarrow> bytes \<Rightarrow> mysql_value \<Rightarrow> (bytes, unit) act" where
  "print_cell P name cell = fprintf ''    %s = %s\<newline>'' [c_str name, c_str (ascii (format_cell_value P cell))]"

text \<open>\<open>row.at(column_index)\<close> throws when the row is too short.\<close>

definition print_row_vec :: "phosg_api \<Rightarrow> column_definition list \<Rightarrow> mysql_value list \<Rightarrow> (bytes, unit) act" where
  "print_row_vec P cs row = seqA (fprintf ''  Row (vector):\<newline>'' [])
     (eachA (\<lambda>i. if i < length row then print_cell P (cd_column_name (cs ! i)) (row ! i) else throwA (Out_of_range ''vector::at''))
        [0..<length cs])"

text \<open>\<open>it\<close> lists the entries of an unordered map in the order of its iterators.\<close>

definition print_row_dict :: "phosg_api \<Rightarrow> ((bytes \<rightharpoonup> mysql_value) \<Rightarrow> (bytes \<times> mysql_value) list) \<Rightarrow> (bytes \<rightharpoonup> mysql_value) \<Rightarrow> (bytes, unit) act" where
  "print_row_dict P it row = seqA (fprintf ''  Row (dict):\<newline>'' []) (eachA (\<lambda>(k, cell). print_cell P k cell) (it row))"

definition ResultSet_print :: "phosg_api \<Rightarrow> ((bytes \<rightharpoonup> mysql_value) \<Rightarrow> (bytes \<times> mysql_value) list) \<Rightarrow> result_set \<Rightarrow> (bytes, unit) act" where
  "ResultSet_print P it r = seqA (print_metadata r) (seqA (eachA print_column (rs_columns r))
     (case rs_rows r of Rows_dicts rows \<Rightarrow> eachA (print_row_dict P it) rows
      | Rows_vecs rows \<Rightarrow> eachA (print_row_vec P (rs_columns r)) rows))"

section \<open>Dates and times are parsed back\<close>

definition field :: "nat \<Rightarrow> nat \<Rightarrow> bytes" where
  "field w n = ascii (pad_number True w False (digits 10 n))"

lemma field_number: "number_text n (field w n)"
  by (simp add: field_def number_text_pad)

lemma field_length: "w \<le> length (field w n)"
  by (simp add: field_def length_pad)

lemma field_bytes: "b \<in> set (field w n) \<Longrightarrow> is_digit b"
  using field_number [of n w] by (auto simp: number_text_def)

lemma field_clean: "0 \<notin> set (field w n)" "46 \<notin> set (field w n)"
  using field_bytes is_digit_facts by blast+

lemma convert_unsigned: "l = LENGTH('a::len) \<Longrightarrow> ascii (convert True w l C_unsigned (P_int (uint (x :: 'a word)))) = field w (unat x)"
proof -
  assume "l = LENGTH('a)"
  moreover have "uint x < 2 ^ LENGTH('a)" by (rule unsigned_less)
  moreover have "0 \<le> uint x" by simp
  ultimately have "nat (uint x mod 2 ^ l) = unat x" by simp
  then show ?thesis by (simp add: convert_def field_def)
qed

lemma date_time_items: "parse_format None ''%04hu-%02hhu-%02hhu %02hhu:%02hhu:%02hhu.%06u'' =
   [Conv True 4 16 C_unsigned, Lit CHR ''-'', Conv True 2 8 C_unsigned, Lit CHR ''-'', Conv True 2 8 C_unsigned, Lit CHR '' '',
    Conv True 2 8 C_unsigned, Lit CHR '':'', Conv True 2 8 C_unsigned, Lit CHR '':'', Conv True 2 8 C_unsigned, Lit CHR ''.'', Conv True 6 32 C_unsigned]"
  by (simp add: conversion_of_def)

lemma time_items: "parse_format None ''%s%02u:%02hhu:%02hhu.%06u'' =
   [Conv False 0 32 C_string, Conv True 2 32 C_unsigned, Lit CHR '':'', Conv True 2 8 C_unsigned, Lit CHR '':'', Conv True 2 8 C_unsigned,
    Lit CHR ''.'', Conv True 6 32 C_unsigned]"
  by (simp add: conversion_of_def)

lemma DateTimeValue_str_text:
  assumes "printf_spec P"
  shows "ascii (DateTimeValue_str P t) = field 4 (unat (dt_years t)) @ 45 # field 2 (unat (dt_months t)) @ 45 # field 2 (unat (dt_days t)) @ 32 #
    field 2 (unat (dt_hours t)) @ 58 # field 2 (unat (dt_minutes t)) @ 58 # field 2 (unat (dt_seconds t)) @ 46 # field 6 (unat (dt_usecs t))"
proof -
  show ?thesis unfolding DateTimeValue_str_def assms [unfolded printf_spec_def] c_printf_def date_time_items by (simp add: ascii_Cons convert_unsigned)
qed

lemma TimeValue_str_text:
  assumes "printf_spec P"
  shows "ascii (TimeValue_str P t) = (if tv_is_negative t then [45] else []) @ field 2 (unat (tv_hours t)) @ 58 # field 2 (unat (tv_minutes t)) @ 58 #
    field 2 (unat (tv_seconds t)) @ 46 # field 6 (unat (tv_usecs t))"
proof -
  show ?thesis unfolding TimeValue_str_def assms [unfolded printf_spec_def] c_printf_def time_items by (simp add: ascii_Cons convert_unsigned) (simp add: convert_def pad_def)
qed

lemma sscanf_field: "no_digit s \<Longrightarrow> sscanf (D_num # ds) (field w (unat (x :: 'a::len word)) @ s) = (if LENGTH('a) \<le> 64 then word_of_nat (unat x) # sscanf ds s
    else sscanf (D_num # ds) (field w (unat x) @ s))"
proof -
  assume s: "no_digit s"
  have "unat x < 2 ^ 64" if "LENGTH('a) \<le> 64"
    using unsigned_less [of x] that by (meson less_le_trans one_le_numeral power_increasing)
  then show ?thesis using sscanf_number [OF field_number _ s, of "unat x" ds w] by simp
qed

lemma ucast_back: "LENGTH('a) \<le> 64 \<Longrightarrow> ucast (ucast x :: u64) = (x :: 'a::len word)"
  by (rule bit_word_eqI) (simp add: bit_simps)

lemma field_not_space: "dropWhile is_space (field w n @ s) = field w n @ s"
  using field_number [of n w] is_digit_facts by (auto elim!: number_textE)

lemma DateTimeValue_parses_str:
  assumes "printf_spec P"
  shows "DateTimeValue_new (ascii (DateTimeValue_str P t)) = t"
proof -
  let ?t = "ascii (DateTimeValue_str P t)"
  note tx = DateTimeValue_str_text [OF assms, of t]
  have c: "c_chars ?t = ?t" unfolding tx by (rule c_chars_id) (simp add: field_clean)
  have len: "26 \<le> length ?t" unfolding tx
    using field_length [of 4 "unat (dt_years t)"] field_length [of 2 "unat (dt_months t)"] field_length [of 2 "unat (dt_days t)"]
      field_length [of 2 "unat (dt_hours t)"] field_length [of 2 "unat (dt_minutes t)"] field_length [of 2 "unat (dt_seconds t)"]
      field_length [of 6 "unat (dt_usecs t)"] by simp
  have sp: "is_space 32" by (simp add: is_space_def)
  have v: "sscanf date_time_format ?t = [word_of_nat (unat (dt_years t)), word_of_nat (unat (dt_months t)), word_of_nat (unat (dt_days t)),
     word_of_nat (unat (dt_hours t)), word_of_nat (unat (dt_minutes t)), word_of_nat (unat (dt_seconds t)), word_of_nat (unat (dt_usecs t))]"
    unfolding tx date_time_format_def
    using sscanf_field [OF no_digit_simps(1), where ds = "[]" and w = 6 and x = "dt_usecs t"]
    by (simp add: sscanf_field sp field_not_space del: sscanf.simps(4))
  show ?thesis unfolding DateTimeValue_new_def c v Let_def using len
    by (intro date_time_value.equality) (simp_all add: assigned_def times_ten_def ucast_back)
qed

lemma TimeValue_parses_str:
  assumes "printf_spec P"
  shows "TimeValue_new (ascii (TimeValue_str P t)) = t"
proof -
  let ?u = "field 2 (unat (tv_hours t)) @ 58 # field 2 (unat (tv_minutes t)) @ 58 # field 2 (unat (tv_seconds t)) @ 46 # field 6 (unat (tv_usecs t))"
  let ?t = "ascii (TimeValue_str P t)"
  have tx: "?t = (if tv_is_negative t then [45] else []) @ ?u" by (rule TimeValue_str_text [OF assms])
  obtain b bs where b: "field 2 (unat (tv_hours t)) = b # bs" "is_digit b" by (rule number_textE [OF field_number])
  have neg: "(?t \<noteq> [] \<and> hd ?t = 45) = tv_is_negative t" "(if tv_is_negative t then tl ?t else ?t) = ?u"
    unfolding tx using is_digit_facts [OF b(2)] by (simp_all add: b(1))
  have c: "c_chars ?u = ?u" by (rule c_chars_id) (simp add: field_clean)
  have v: "sscanf time_format ?u = [word_of_nat (unat (tv_hours t)), word_of_nat (unat (tv_minutes t)), word_of_nat (unat (tv_seconds t)), word_of_nat (unat (tv_usecs t))]"
    unfolding time_format_def using sscanf_field [OF no_digit_simps(1), where ds = "[]" and w = 6 and x = "tv_usecs t"]
    by (simp add: sscanf_field del: sscanf.simps(4))
  have dw: "dropWhile (\<lambda>b. b \<noteq> 46) (field w n @ s) = dropWhile (\<lambda>b. b \<noteq> 46) s" for w n s
    by (rule dropWhile_append2) (metis field_clean(2))
  have fr: "46 \<in> set ?t" "tl (dropWhile (\<lambda>b. b \<noteq> 46) ?t) = field 6 (unat (tv_usecs t))" unfolding tx by (simp_all add: dw)
  have sf: "sscanf [D_num] (c_chars (field 6 (unat (tv_usecs t)))) = [word_of_nat (unat (tv_usecs t))]"
    using sscanf_field [OF no_digit_simps(1), where ds = "[]" and w = 6 and x = "tv_usecs t"] by (simp add: c_chars_id field_clean del: sscanf.simps(4))
  show ?thesis unfolding TimeValue_new_def neg c v Let_def fr(2) sf using fr(1) field_length [of 6 "unat (tv_usecs t)"]
    by (intro time_value.equality) (simp_all add: assigned_def times_ten_def ucast_back)
qed

text \<open>C33: Printing and parsing of dates and times are inverse: for every value of DateTimeValue and of TimeValue,
  whatever its fields (also hours beyond 99 and years beyond 9999), the constructor that takes a
  text gives back the value from what \<open>str\<close> writes.\<close>

theorem temporal_text_roundtrip:
  assumes "printf_spec P"
  shows "DateTimeValue_new (ascii (DateTimeValue_str P t)) = t \<and> TimeValue_new (ascii (TimeValue_str P u)) = u"
  using DateTimeValue_parses_str [OF assms] TimeValue_parses_str [OF assms] by simp

theorem temporal_text_roundtrip_witness:
  "TimeValue_new (ascii (TimeValue_str phosg_model \<lparr>tv_is_negative = True, tv_hours = 838, tv_minutes = 59, tv_seconds = 7, tv_usecs = 250\<rparr>)) =
     \<lparr>tv_is_negative = True, tv_hours = 838, tv_minutes = 59, tv_seconds = 7, tv_usecs = 250\<rparr>"
  using temporal_text_roundtrip [OF phosg_model_spec(3)] by blast

section \<open>Printing of result sets\<close>

lemma fprintf_Ret [simp]: "fprintf fmt args out = (Ret (), out @ ascii (c_printf fmt args))"
  by (simp add: fprintf_def)

text \<open>Actions that only append to the stream.\<close>

definition appends :: "(bytes, unit) act \<Rightarrow> bytes \<Rightarrow> bool" where
  "appends m d \<longleftrightarrow> (\<forall>out. m out = (Ret (), out @ d))"

definition printed :: "(bytes, unit) act \<Rightarrow> bytes" where
  "printed m = snd (m [])"

lemma appends_fprintf: "appends (fprintf fmt args) (ascii (c_printf fmt args))"
  by (simp add: appends_def)

lemma appends_seqA: "appends m d \<Longrightarrow> appends n e \<Longrightarrow> appends (seqA m n) (d @ e)"
  by (simp add: appends_def seqA_def bindA_def)

lemma appends_eachA: "(\<And>x. x \<in> set xs \<Longrightarrow> appends (f x) (g x)) \<Longrightarrow> appends (eachA f xs) (concat (map g xs))"
proof (induction xs)
  case (Cons x xs)
  have "appends (f x) (g x)" by (simp add: Cons.prems)
  moreover have "appends (eachA f xs) (concat (map g xs))" by (rule Cons.IH) (simp add: Cons.prems)
  ultimately have "appends (seqA (f x) (eachA f xs)) (g x @ concat (map g xs))" by (rule appends_seqA)
  then show ?case by simp
qed (simp add: appends_def)

lemma appends_printed: "appends m d \<Longrightarrow> appends m (printed m)"
  by (simp add: appends_def printed_def)

lemma appends_eachA_ex: "(\<And>x. x \<in> set xs \<Longrightarrow> \<exists>d. appends (f x) d) \<Longrightarrow> \<exists>d. appends (eachA f xs) d"
  using appends_eachA [of xs f "\<lambda>x. printed (f x)"] by (blast intro: appends_printed)

lemma appends_print_parts:
  "\<exists>d. appends (print_metadata r) d" "\<exists>d. appends (print_column c) d" "\<exists>d. appends (print_cell P k x) d" "\<exists>d. appends (print_row_dict P it row) d"
proof -
  show c: "\<exists>d. appends (print_cell P k x) d" for k x unfolding print_cell_def using appends_fprintf by blast
  show "\<exists>d. appends (print_column c) d" unfolding print_column_def using appends_fprintf by blast
  show "\<exists>d. appends (print_metadata r) d" by (simp add: print_metadata_def appends_def seqA_def bindA_def)
  have "\<exists>d. appends (eachA (\<lambda>(k, cell). print_cell P k cell) (it row)) d" using c by (intro appends_eachA_ex) auto
  then show "\<exists>d. appends (print_row_dict P it row) d" unfolding print_row_dict_def using appends_seqA [OF appends_fprintf] by blast
qed

lemma appends_print_row_vec: "length cs \<le> length row \<Longrightarrow> \<exists>d. appends (print_row_vec P cs row) d"
proof -
  let ?f = "\<lambda>i. if i < length row then print_cell P (cd_column_name (cs ! i)) (row ! i) else throwA (Out_of_range ''vector::at'')"
  assume "length cs \<le> length row"
  then have "\<exists>d. appends (eachA ?f [0..<length cs]) d" by (intro appends_eachA_ex) (simp add: appends_print_parts)
  then show ?thesis unfolding print_row_vec_def using appends_seqA [OF appends_fprintf] by blast
qed

lemma eachA_append_run: "eachA f (xs @ ys) s = seqA (eachA f xs) (eachA f ys) s"
  by (induction xs arbitrary: s) (auto simp: seqA_def bindA_def split: prod.splits outcome.splits)

lemma eachA_throws:
  assumes "appends (eachA f xs) d" and "\<And>out. fst (f x out) = Throw e"
  shows "fst (eachA f (xs @ x # ys) out) = Throw e"
  using assms(1) assms(2) [of "out @ d"] by (auto simp: eachA_append_run appends_def seqA_def bindA_def split: prod.splits outcome.splits)

lemma print_row_vec_short:
  assumes "length row < length cs"
  shows "fst (print_row_vec P cs row out) = Throw (Out_of_range ''vector::at'')"
proof -
  let ?f = "\<lambda>i. if i < length row then print_cell P (cd_column_name (cs ! i)) (row ! i) else throwA (Out_of_range ''vector::at'')"
  obtain d where d: "appends (eachA ?f [0..<length row]) d" using appends_eachA_ex [of "[0..<length row]" ?f] appends_print_parts by auto
  have "[0..<length cs] = [0..<length row] @ length row # [Suc (length row)..<length cs]"
    using assms by (metis le0 less_imp_le_nat upt_add_eq_append upt_conv_Cons le_add_diff_inverse)
  with eachA_throws [OF d] have "fst (eachA ?f [0..<length cs] out') = Throw (Out_of_range ''vector::at'')" for out' by simp
  then show ?thesis unfolding print_row_vec_def seqA_def bindA_def by simp
qed

text \<open>\<open>print\<close> returns, having only appended to the stream, unless there is a row vector with fewer cells than there
  are columns: then it throws.\<close>

lemma ResultSet_print_returns:
  assumes "\<forall>rows. rs_rows r = Rows_vecs rows \<longrightarrow> (\<forall>row\<in>set rows. length (rs_columns r) \<le> length row)"
  shows "\<exists>d. \<forall>out. ResultSet_print P it r out = (Ret (), out @ d)"
proof -
  have rows: "\<exists>d. appends (case rs_rows r of Rows_dicts rows \<Rightarrow> eachA (print_row_dict P it) rows
      | Rows_vecs rows \<Rightarrow> eachA (print_row_vec P (rs_columns r)) rows) d"
  proof (cases "rs_rows r")
    case (Rows_vecs rows)
    then have "\<exists>d. appends (eachA (print_row_vec P (rs_columns r)) rows) d"
      using assms by (intro appends_eachA_ex) (auto intro: appends_print_row_vec)
    with Rows_vecs show ?thesis by simp
  qed (simp add: appends_eachA_ex appends_print_parts)
  have "\<exists>d. appends (eachA print_column (rs_columns r)) d" by (intro appends_eachA_ex appends_print_parts)
  with rows appends_print_parts(1) [of r] have "\<exists>d. appends (ResultSet_print P it r) d"
    unfolding ResultSet_print_def by (meson appends_seqA)
  then show ?thesis by (simp add: appends_def)
qed

end
