(* ===== verification/Binlog_Processor.thy ===== *)
theory Binlog_Processor
  imports MySQL_Types MySQL_ProtocolBuffer "HOL-Library.Signed_Division"
begin

text \<open>
  Protocols/MySQL/BinlogProcessor.hh and .cc: the events of a binary log.  A processor keeps the
  file name and position it has reached and the tables the log has announced; each operation
  parses one event with a string reader and then updates the processor.  An exception leaves the
  processor as it was.  The theorems are in Binlog_Properties.
\<close>

section \<open>Data\<close>

datatype binlog_event_type =
    UNKNOWN_EVENT | START_EVENT_V3 | QUERY_EVENT | STOP_EVENT | ROTATE_EVENT | INTVAR_EVENT | LOAD_EVENT | SLAVE_EVENT
  | CREATE_FILE_EVENT | APPEND_BLOCK_EVENT | EXEC_LOAD_EVENT | DELETE_FILE_EVENT | NEW_LOAD_EVENT | RAND_EVENT
  | USER_VAR_EVENT | FORMAT_DESCRIPTION_EVENT | XID_EVENT | BEGIN_LOAD_QUERY_EVENT | EXECUTE_LOAD_QUERY_EVENT
  | TABLE_MAP_EVENT | WRITE_ROWS_EVENTv0 | UPDATE_ROWS_EVENTv0 | DELETE_ROWS_EVENTv0 | WRITE_ROWS_EVENTv1
  | UPDATE_ROWS_EVENTv1 | DELETE_ROWS_EVENTv1 | INCIDENT_EVENT | HEARTBEAT_EVENT | IGNORABLE_EVENT | ROWS_QUERY_EVENT
  | WRITE_ROWS_EVENTv2 | UPDATE_ROWS_EVENTv2 | DELETE_ROWS_EVENTv2 | GTID_EVENT | ANONYMOUS_GTID_EVENT
  | PREVIOUS_GTIDS_EVENT | TRANSACTION_CONTEXT_EVENT | VIEW_CHANGE_EVENT | XA_PREPARE_LOG_EVENT
  | PARTIAL_UPDATE_ROWS_EVENT | TRANSACTION_PAYLOAD_EVENT

text \<open>The enumerators, in the order of their numbers, which start from 0.\<close>

definition binlog_event_types :: "binlog_event_type list" where
  "binlog_event_types = [UNKNOWN_EVENT, START_EVENT_V3, QUERY_EVENT, STOP_EVENT, ROTATE_EVENT, INTVAR_EVENT, LOAD_EVENT,
     SLAVE_EVENT, CREATE_FILE_EVENT, APPEND_BLOCK_EVENT, EXEC_LOAD_EVENT, DELETE_FILE_EVENT, NEW_LOAD_EVENT, RAND_EVENT,
     USER_VAR_EVENT, FORMAT_DESCRIPTION_EVENT, XID_EVENT, BEGIN_LOAD_QUERY_EVENT, EXECUTE_LOAD_QUERY_EVENT,
     TABLE_MAP_EVENT, WRITE_ROWS_EVENTv0, UPDATE_ROWS_EVENTv0, DELETE_ROWS_EVENTv0, WRITE_ROWS_EVENTv1,
     UPDATE_ROWS_EVENTv1, DELETE_ROWS_EVENTv1, INCIDENT_EVENT, HEARTBEAT_EVENT, IGNORABLE_EVENT, ROWS_QUERY_EVENT,
     WRITE_ROWS_EVENTv2, UPDATE_ROWS_EVENTv2, DELETE_ROWS_EVENTv2, GTID_EVENT, ANONYMOUS_GTID_EVENT,
     PREVIOUS_GTIDS_EVENT, TRANSACTION_CONTEXT_EVENT, VIEW_CHANGE_EVENT, XA_PREPARE_LOG_EVENT,
     PARTIAL_UPDATE_ROWS_EVENT, TRANSACTION_PAYLOAD_EVENT]"

fun event_code :: "binlog_event_type \<Rightarrow> u8" where
  "event_code UNKNOWN_EVENT = 0"
| "event_code START_EVENT_V3 = 1"
| "event_code QUERY_EVENT = 2"
| "event_code STOP_EVENT = 3"
| "event_code ROTATE_EVENT = 4"
| "event_code INTVAR_EVENT = 5"
| "event_code LOAD_EVENT = 6"
| "event_code SLAVE_EVENT = 7"
| "event_code CREATE_FILE_EVENT = 8"
| "event_code APPEND_BLOCK_EVENT = 9"
| "event_code EXEC_LOAD_EVENT = 10"
| "event_code DELETE_FILE_EVENT = 11"
| "event_code NEW_LOAD_EVENT = 12"
| "event_code RAND_EVENT = 13"
| "event_code USER_VAR_EVENT = 14"
| "event_code FORMAT_DESCRIPTION_EVENT = 15"
| "event_code XID_EVENT = 16"
| "event_code BEGIN_LOAD_QUERY_EVENT = 17"
| "event_code EXECUTE_LOAD_QUERY_EVENT = 18"
| "event_code TABLE_MAP_EVENT = 19"
| "event_code WRITE_ROWS_EVENTv0 = 20"
| "event_code UPDATE_ROWS_EVENTv0 = 21"
| "event_code DELETE_ROWS_EVENTv0 = 22"
| "event_code WRITE_ROWS_EVENTv1 = 23"
| "event_code UPDATE_ROWS_EVENTv1 = 24"
| "event_code DELETE_ROWS_EVENTv1 = 25"
| "event_code INCIDENT_EVENT = 26"
| "event_code HEARTBEAT_EVENT = 27"
| "event_code IGNORABLE_EVENT = 28"
| "event_code ROWS_QUERY_EVENT = 29"
| "event_code WRITE_ROWS_EVENTv2 = 30"
| "event_code UPDATE_ROWS_EVENTv2 = 31"
| "event_code DELETE_ROWS_EVENTv2 = 32"
| "event_code GTID_EVENT = 33"
| "event_code ANONYMOUS_GTID_EVENT = 34"
| "event_code PREVIOUS_GTIDS_EVENT = 35"
| "event_code TRANSACTION_CONTEXT_EVENT = 36"
| "event_code VIEW_CHANGE_EVENT = 37"
| "event_code XA_PREPARE_LOG_EVENT = 38"
| "event_code PARTIAL_UPDATE_ROWS_EVENT = 39"
| "event_code TRANSACTION_PAYLOAD_EVENT = 40"

definition event_names :: "string list" where
  "event_names = [''UNKNOWN_EVENT'', ''START_EVENT_V3'', ''QUERY_EVENT'', ''STOP_EVENT'', ''ROTATE_EVENT'', ''INTVAR_EVENT'', ''LOAD_EVENT'',
     ''SLAVE_EVENT'', ''CREATE_FILE_EVENT'', ''APPEND_BLOCK_EVENT'', ''EXEC_LOAD_EVENT'', ''DELETE_FILE_EVENT'', ''NEW_LOAD_EVENT'', ''RAND_EVENT'',
     ''USER_VAR_EVENT'', ''FORMAT_DESCRIPTION_EVENT'', ''XID_EVENT'', ''BEGIN_LOAD_QUERY_EVENT'', ''EXECUTE_LOAD_QUERY_EVENT'',
     ''TABLE_MAP_EVENT'', ''WRITE_ROWS_EVENTv0'', ''UPDATE_ROWS_EVENTv0'', ''DELETE_ROWS_EVENTv0'', ''WRITE_ROWS_EVENTv1'',
     ''UPDATE_ROWS_EVENTv1'', ''DELETE_ROWS_EVENTv1'', ''INCIDENT_EVENT'', ''HEARTBEAT_EVENT'', ''IGNORABLE_EVENT'', ''ROWS_QUERY_EVENT'',
     ''WRITE_ROWS_EVENTv2'', ''UPDATE_ROWS_EVENTv2'', ''DELETE_ROWS_EVENTv2'', ''GTID_EVENT'', ''ANONYMOUS_GTID_EVENT'',
     ''PREVIOUS_GTIDS_EVENT'', ''TRANSACTION_CONTEXT_EVENT'', ''VIEW_CHANGE_EVENT'', ''XA_PREPARE_LOG_EVENT'',
     ''PARTIAL_UPDATE_ROWS_EVENT'', ''TRANSACTION_PAYLOAD_EVENT'']"

definition name_for_binlog_event_type :: "u8 \<Rightarrow> string" where
  "name_for_binlog_event_type type =
     (if unat type < length event_names then event_names ! unat type else ''<INVALID_EVENT_TYPE>'')"

record column_info =
  ci_type :: u8
  ci_type_meta :: bytes
  ci_nullable :: bool

record table_info =
  ti_database_name :: bytes
  ti_table_name :: bytes
  ti_columns :: "column_info list"

record event_header =
  eh_timestamp :: u32
  eh_type :: u8
  eh_server_id :: u32
  eh_length :: u32
  eh_end_position :: u32
  eh_flags :: u16

text \<open>\<open>ti\<close> of a table map event is a shared pointer, null as long as nothing is assigned to it.\<close>

record table_map_event =
  tm_header :: event_header
  tm_table_id :: u64
  tm_flags :: u16
  tm_ti :: "table_info option"

datatype write_type = W_INSERT | W_UPDATE | W_DELETE

record row_change =
  rc_pre_bytes :: nat
  rc_post_bytes :: nat
  rc_pre :: "mysql_value list"
  rc_post :: "mysql_value list"

record rows_event =
  re_header :: event_header
  re_write_type :: write_type
  re_table_id :: u64
  re_ti :: table_info
  re_flags :: u16
  re_extra_data :: bytes
  re_rows :: "row_change list"

record query_event =
  qe_header :: event_header
  qe_conn_id :: u32
  qe_exec_time_secs :: u32
  qe_database_name :: bytes
  qe_error_code :: u16
  qe_status_vars :: bytes
  qe_query :: bytes

record rotate_event =
  ro_header :: event_header
  ro_next_filename :: bytes
  ro_next_position :: u64

record xid_event =
  xe_header :: event_header
  xe_xid :: u64

record format_description_event =
  fd_header :: event_header
  fd_version :: u16
  fd_server_version :: bytes
  fd_timestamp :: u32
  fd_header_length :: u8
  fd_event_header_lengths :: bytes

record binlog_processor =
  bp_filename :: bytes
  bp_position :: u64
  bp_table_map :: "u64 \<rightharpoonup> table_info"

section \<open>Cells\<close>

text \<open>
  The header is a packed structure that is copied from memory: little-endian fields without
  padding, 19 bytes.
\<close>

definition header_of :: "bytes \<Rightarrow> event_header" where
  "header_of d = \<lparr>eh_timestamp = word_of_nat (le_val (take 4 d)), eh_type = d ! 4,
     eh_server_id = word_of_nat (le_val (take 4 (drop 5 d))), eh_length = word_of_nat (le_val (take 4 (drop 9 d))),
     eh_end_position = word_of_nat (le_val (take 4 (drop 13 d))), eh_flags = word_of_nat (le_val (take 2 (drop 17 d)))\<rparr>"

definition get_header :: "'r string_reader_api \<Rightarrow> ('r, event_header) act" where
  "get_header R = bindA (sr_get R 19) (\<lambda>d. retA (header_of d))"

definition read_datetime_fractional_part :: "'r string_reader_api \<Rightarrow> u8 \<Rightarrow> ('r, u32) act" where
  "read_datetime_fractional_part R precision =
     (if precision = 0 then retA 0
      else if precision = 1 then bindA (sr_get_u8 R) (\<lambda>x. retA (ucast x * 10000))
      else if precision = 2 then bindA (sr_get_u8 R) (\<lambda>x. retA (ucast x * 10000))
      else if precision = 3 then bindA (sr_get_u16b R) (\<lambda>x. retA (ucast x * 100))
      else if precision = 4 then bindA (sr_get_u16b R) (\<lambda>x. retA (ucast x * 100))
      else if precision = 5 then sr_get_u24b R
      else if precision = 6 then sr_get_u24b R
      else throwA (Runtime_error ''invalid time-like precision specifier''))"

text \<open>
  The elements of a string are plain \<open>char\<close>s, which are signed: converted to \<open>size_t\<close>, one above 127
  is almost \<open>2^64\<close>.
\<close>

definition char_size :: "byte \<Rightarrow> nat" where
  "char_size b = unat (scast b :: u64)"

definition half_rounded_up :: "byte \<Rightarrow> nat" where
  "half_rounded_up b = unat (word_of_int ((sint b + 1) sdiv 2) :: u64)"

definition read_sized :: "'r string_reader_api \<Rightarrow> nat \<Rightarrow> ('r, bytes) act" where
  "read_sized R width =
     (if width = 1 then bindA (sr_get_u8 R) (\<lambda>n. sr_read R (unat n))
      else if width = 2 then bindA (sr_get_u16l R) (\<lambda>n. sr_read R (unat n))
      else if width = 3 then bindA (sr_get_u24l R) (\<lambda>n. sr_read R (unat n))
      else if width = 4 then bindA (sr_get_u32l R) (\<lambda>n. sr_read R (unat n))
      else throwA (Runtime_error ''invalid blob-type meta-length''))"

definition max_display_width :: "byte \<Rightarrow> byte \<Rightarrow> u16" where
  "max_display_width m0 m1 = ((push_bit 4 (scast m0) AND 0x300) XOR 0x300) + ucast m1"

definition datetime2_fields :: "u64 \<Rightarrow> u32 \<Rightarrow> date_time_value" where
  "datetime2_fields z usecs = \<lparr>dt_years = ucast ((drop_bit 22 z - 131073) div 13), dt_months = ucast ((drop_bit 22 z + 7) mod 13),
     dt_days = ucast (drop_bit 17 z AND 0x1F), dt_hours = ucast (drop_bit 12 z AND 0x1F), dt_minutes = ucast (drop_bit 6 z AND 0x3F),
     dt_seconds = ucast (z AND 0x3F), dt_usecs = usecs\<rparr>"

definition time2_fields :: "u32 \<Rightarrow> u32 \<Rightarrow> time_value" where
  "time2_fields z usecs =
     (let neg = (z AND 0x800000 = 0); z = (if neg then NOT z + 1 else z) in
      \<lparr>tv_is_negative = neg, tv_hours = drop_bit 12 z AND 0x3FF, tv_minutes = ucast (drop_bit 6 z AND 0x3F),
       tv_seconds = ucast (z AND 0x3F), tv_usecs = usecs\<rparr>)"

definition read_cell_data :: "'r string_reader_api \<Rightarrow> column_info \<Rightarrow> ('r, mysql_value) act" where
  "read_cell_data R ci = (let meta = ci_type_meta ci in case column_type_of (ci_type ci) of
     None \<Rightarrow> throwA (Runtime_error ''unimplemented or invalid column type'')
   | Some t \<Rightarrow>
     if t = T_NULL then retA V_null
     else if t = T_TINYINT then bindA (sr_get_u8 R) (\<lambda>x. retA (V_uint (ucast x)))
     else if t = T_SMALLINT then bindA (sr_get_u16l R) (\<lambda>x. retA (V_uint (ucast x)))
     else if t = T_MEDIUMINT then bindA (sr_get_u24l R) (\<lambda>x. retA (V_uint (ucast x)))
     else if t = T_INT then bindA (sr_get_u32l R) (\<lambda>x. retA (V_uint (ucast x)))
     else if t = T_BIGINT then bindA (sr_get_u64l R) (\<lambda>x. retA (V_uint x))
     else if t = T_FLOAT then bindA (sr_get_f32l R) (\<lambda>x. retA (V_float x))
     else if t = T_DOUBLE then bindA (sr_get_f64l R) (\<lambda>x. retA (V_double x))
     else if t \<in> {T_TINYBLOB, T_MEDIUMBLOB, T_LONGBLOB, T_BLOB, T_GEOMETRY, T_JSON} then
       (if length meta \<noteq> 1 then throwA (Runtime_error ''invalid type options'')
        else bindA (read_sized R (unat (meta ! 0))) (\<lambda>d. retA (V_string d)))
     else if t = T_YEAR then bindA (sr_get_u8 R) (\<lambda>x. retA (V_uint (ucast x)))
     else if t \<in> {T_ENUM, T_SET, T_STRING} then
       (if length meta \<noteq> 2 then throwA (Runtime_error ''invalid type options'')
        else if meta ! 0 = column_type_code T_SET \<or> meta ! 0 = column_type_code T_ENUM then
          bindA (sr_read R (char_size (meta ! 1))) (\<lambda>d. retA (V_string d))
        else bindA (read_sized R (if 255 < max_display_width (meta ! 0) (meta ! 1) then 2 else 1)) (\<lambda>d. retA (V_string d)))
     else if t = T_VARCHAR then
       (if length meta \<noteq> 2 then throwA (Runtime_error ''invalid type options'')
        else bindA (read_sized R (if 255 < le_val meta then 2 else 1)) (\<lambda>d. retA (V_string d)))
     else if t = T_TIMESTAMP then bindA (sr_get_u32l R) (\<lambda>x. retA (V_uint (ucast x * 1000000)))
     else if t = T_TIMESTAMP2 then bindA (sr_get_u32l R) (\<lambda>x.
       if length meta \<noteq> 1 then throwA (Logic_error ''invalid type options'')
       else if meta ! 0 \<noteq> 0 then bindA (sr_read R (half_rounded_up (meta ! 0))) (\<lambda>_. retA (V_uint (ucast x)))
       else retA (V_uint (ucast x)))
     else if t = T_DATETIME2 then
       (if length meta \<noteq> 1 then throwA (Logic_error ''invalid type options'')
        else bindA (sr_get_u32b R) (\<lambda>hi. bindA (sr_get_u8 R) (\<lambda>lo.
          bindA (read_datetime_fractional_part R (meta ! 0)) (\<lambda>usecs.
          retA (V_datetime (datetime2_fields (push_bit 8 (ucast hi) OR ucast lo) usecs))))))
     else if t = T_TIME2 then
       (if length meta \<noteq> 1 then throwA (Logic_error ''invalid type options'')
        else bindA (sr_get_u24b R) (\<lambda>z. bindA (read_datetime_fractional_part R (meta ! 0)) (\<lambda>usecs.
          retA (V_time (time2_fields z usecs)))))
     else throwA (Runtime_error ''unimplemented or invalid column type''))"

definition metadata_bytes_for_column_type :: "u8 \<Rightarrow> nat outcome" where
  "metadata_bytes_for_column_type type = (case column_type_of type of
     None \<Rightarrow> Throw (Runtime_error ''unimplemented or invalid column type'')
   | Some t \<Rightarrow>
     if t = T_NULL then Throw (Logic_error ''T_NULL cannot be specified in a place where metadata is needed'')
     else if t \<in> {T_DATE, T_DATETIME, T_TIME, T_TIMESTAMP, T_TINYINT, T_SMALLINT, T_MEDIUMINT, T_INT, T_BIGINT, T_YEAR,
         T_BOOL, T_VAR_STRING, T_NEWDATE} then Ret 0
     else if t \<in> {T_TINYBLOB, T_BLOB, T_MEDIUMBLOB, T_LONGBLOB, T_FLOAT, T_DOUBLE, T_GEOMETRY, T_JSON, T_TIMESTAMP2,
         T_TIME2, T_DATETIME2} then Ret 1
     else if t \<in> {T_STRING, T_VARCHAR, T_DECIMAL, T_NEWDECIMAL, T_ENUM, T_SET, T_BIT} then Ret 2
     else Throw (Runtime_error ''unimplemented or invalid column type''))"

definition read_row_data :: "'r string_reader_api \<Rightarrow> table_info \<Rightarrow> ('r, mysql_value list) act" where
  "read_row_data R ti = bindA (ProtocolStringReader_get_bitmask R (length (ti_columns ti))) (\<lambda>columns_null.
     bindA (collectA (\<lambda>(ci, null).
         if null then (if \<not> ci_nullable ci then throwA (Runtime_error ''found null value in non-nullable column'') else retA V_null)
         else read_cell_data R ci) (zip (ti_columns ti) columns_null)) (\<lambda>row.
     if length row \<noteq> length (ti_columns ti) then throwA (Runtime_error ''row1 length does not match column count'')
     else retA row))"

section \<open>Events\<close>

definition BinlogProcessor_new :: binlog_processor where
  "BinlogProcessor_new = \<lparr>bp_filename = ascii ''<missing-filename>'', bp_position = 4, bp_table_map = Map.empty\<rparr>"

definition get_event_header :: "bytes \<Rightarrow> event_header outcome" where
  "get_event_header data = (if length data < 19 then Throw (Runtime_error ''binlog event too small for header'')
     else Ret (header_of data))"

text \<open>An operation parses the event with a reader of its own, and then updates the processor.\<close>

definition parse_with :: "'r string_reader_api \<Rightarrow> ('r, 'ev) act \<Rightarrow> bytes \<Rightarrow> 'ev outcome" where
  "parse_with R m data = fst (m (sr_open R data))"

definition set_position :: "u64 \<Rightarrow> (binlog_processor, unit) act" where
  "set_position p = modifyA (\<lambda>s. s\<lparr>bp_position := p\<rparr>)"

definition header_typed :: "'r string_reader_api \<Rightarrow> binlog_event_type \<Rightarrow> string \<Rightarrow> ('r, event_header) act" where
  "header_typed R t msg = bindA (get_header R) (\<lambda>h. if eh_type h \<noteq> event_code t then throwA (Logic_error msg) else retA h)"

definition read_columns :: "'r string_reader_api \<Rightarrow> bytes \<Rightarrow> bool list \<Rightarrow> ('r, column_info list) act" where
  "read_columns R types nullable =
     bindA (collectA (\<lambda>(t, n). bindA (liftO (metadata_bytes_for_column_type t)) (\<lambda>k. bindA (sr_read R k) (\<lambda>d.
         retA \<lparr>ci_type = t, ci_type_meta = d, ci_nullable = n\<rparr>))) (zip types nullable)) (\<lambda>cs.
     bindA (getsA (sr_eof R)) (\<lambda>e. if \<not> e then throwA (Runtime_error ''not all column type_meta was parsed'') else retA cs))"

definition table_map_body :: "'r string_reader_api \<Rightarrow> ('r, table_map_event \<times> table_info) act" where
  "table_map_body R = bindA (header_typed R TABLE_MAP_EVENT ''event is not a table map event'') (\<lambda>h.
     bindA (sr_get_u48l R) (\<lambda>table_id. bindA (sr_get_u16l R) (\<lambda>flags.
     bindA (bindA (sr_get_u8 R) (\<lambda>n. sr_read R (unat n))) (\<lambda>database_name. bindA (sr_skip R 1) (\<lambda>_.
     bindA (bindA (sr_get_u8 R) (\<lambda>n. sr_read R (unat n))) (\<lambda>table_name. bindA (sr_skip R 1) (\<lambda>_.
     bindA (ProtocolStringReader_get_varint R) (\<lambda>num_columns.
     bindA (collectA (\<lambda>_. sr_get_u8 R) [0..<unat num_columns]) (\<lambda>column_types.
     bindA (ProtocolStringReader_get_var_string R) (\<lambda>column_type_metas.
     bindA (ProtocolStringReader_get_bitmask R (unat num_columns)) (\<lambda>columns_nullable.
     bindA (liftO (parse_with R (read_columns R column_types columns_nullable) column_type_metas)) (\<lambda>cs.
     retA (\<lparr>tm_header = h, tm_table_id = table_id, tm_flags = flags, tm_ti = None\<rparr>,
           \<lparr>ti_database_name = database_name, ti_table_name = table_name, ti_columns = cs\<rparr>)))))))))))))"

definition parse_table_map_event :: "'r string_reader_api \<Rightarrow> bytes \<Rightarrow> (binlog_processor, table_map_event) act" where
  "parse_table_map_event R data = bindA (liftO (parse_with R (table_map_body R) data)) (\<lambda>(ev, ti).
     seqA (modifyA (\<lambda>s. s\<lparr>bp_table_map := (bp_table_map s)(tm_table_id ev \<mapsto> ti)\<rparr>))
     (seqA (set_position (ucast (eh_end_position (tm_header ev)))) (retA ev)))"

definition is_v2 :: "u8 \<Rightarrow> bool" where
  "is_v2 t \<longleftrightarrow> t = event_code WRITE_ROWS_EVENTv2 \<or> t = event_code UPDATE_ROWS_EVENTv2 \<or> t = event_code DELETE_ROWS_EVENTv2"

definition has_preimage :: "u8 \<Rightarrow> bool" where
  "has_preimage t \<longleftrightarrow> t = event_code UPDATE_ROWS_EVENTv1 \<or> t = event_code UPDATE_ROWS_EVENTv2"

definition write_type_of :: "u8 \<Rightarrow> write_type outcome" where
  "write_type_of t =
     (if t = event_code WRITE_ROWS_EVENTv0 \<or> t = event_code WRITE_ROWS_EVENTv1 \<or> t = event_code WRITE_ROWS_EVENTv2 then Ret W_INSERT
      else if t = event_code UPDATE_ROWS_EVENTv0 \<or> t = event_code UPDATE_ROWS_EVENTv1 \<or> t = event_code UPDATE_ROWS_EVENTv2 then Ret W_UPDATE
      else if t = event_code DELETE_ROWS_EVENTv0 \<or> t = event_code DELETE_ROWS_EVENTv1 \<or> t = event_code DELETE_ROWS_EVENTv2 then Ret W_DELETE
      else Throw (Logic_error ''event is not a rows event''))"

text \<open>\<open>table_map.at\<close> throws for a table that was not announced.\<close>

definition table_map_at :: "(u64 \<rightharpoonup> table_info) \<Rightarrow> u64 \<Rightarrow> table_info outcome" where
  "table_map_at tm i = (case tm i of None \<Rightarrow> Throw (Out_of_range ''unordered_map::at'') | Some ti \<Rightarrow> Ret ti)"

text \<open>One row image, with the number of bytes it takes.\<close>

definition read_image :: "'r string_reader_api \<Rightarrow> table_info \<Rightarrow> ('r, mysql_value list \<times> nat) act" where
  "read_image R ti = bindA (getsA (sr_where R)) (\<lambda>start_offset. bindA (read_row_data R ti) (\<lambda>row.
     bindA (getsA (sr_where R)) (\<lambda>e. retA (row, e - start_offset))))"

definition read_row_change :: "'r string_reader_api \<Rightarrow> table_info \<Rightarrow> write_type \<Rightarrow> bool \<Rightarrow> ('r, row_change) act" where
  "read_row_change R ti wt pre = (case wt of
     W_INSERT \<Rightarrow> bindA (read_image R ti) (\<lambda>(row, n). retA \<lparr>rc_pre_bytes = 0, rc_post_bytes = n, rc_pre = [], rc_post = row\<rparr>)
   | W_UPDATE \<Rightarrow> bindA (if pre then read_image R ti else retA ([], 0)) (\<lambda>(row, n).
       bindA (read_image R ti) (\<lambda>(row', n'). retA \<lparr>rc_pre_bytes = n, rc_post_bytes = n', rc_pre = row, rc_post = row'\<rparr>))
   | W_DELETE \<Rightarrow> bindA (read_image R ti) (\<lambda>(row, n). retA \<lparr>rc_pre_bytes = n, rc_post_bytes = 0, rc_pre = row, rc_post = []\<rparr>))"

text \<open>The loop over the rows, cut off after \<open>fuel\<close> of them.\<close>

fun rows_event_loop :: "nat \<Rightarrow> 'r string_reader_api \<Rightarrow> table_info \<Rightarrow> write_type \<Rightarrow> bool \<Rightarrow> row_change list
    \<Rightarrow> ('r, row_change list) act" where
  "rows_event_loop fuel R ti wt pre rows = bindA (getsA (sr_eof R)) (\<lambda>e. if e then retA rows
     else case fuel of 0 \<Rightarrow> throwA Out_of_fuel
       | Suc n \<Rightarrow> bindA (read_row_change R ti wt pre) (\<lambda>rc. rows_event_loop n R ti wt pre (rows @ [rc])))"

definition check_present :: "'r string_reader_api \<Rightarrow> nat \<Rightarrow> ('r, unit) act" where
  "check_present R n = bindA (ProtocolStringReader_get_bitmask R n) (\<lambda>ps.
     if False \<in> set ps then throwA (Runtime_error ''one or more columns not present in row event'') else retA ())"

definition rows_event_body :: "nat \<Rightarrow> 'r string_reader_api \<Rightarrow> (u64 \<rightharpoonup> table_info) \<Rightarrow> ('r, rows_event) act" where
  "rows_event_body fuel R tm = bindA (get_header R) (\<lambda>h. let t = eh_type h in
     bindA (liftO (write_type_of t)) (\<lambda>wt.
     bindA (sr_get_u48l R) (\<lambda>table_id.
     if table_id = 0x000000FFFFFF then throwA (Logic_error ''table map free during row events not supported'')
     else bindA (liftO (table_map_at tm table_id)) (\<lambda>ti.
     bindA (sr_get_u16l R) (\<lambda>flags.
     bindA (if is_v2 t then bindA (sr_get_u16l R) (\<lambda>n. sr_read R (unat (ucast n - 2 :: u64))) else retA []) (\<lambda>extra_data.
     bindA (ProtocolStringReader_get_varint R) (\<lambda>num_columns.
     if unat num_columns \<noteq> length (ti_columns ti) then
       throwA (Runtime_error ''row event column count does not match table info from table map'')
     else seqA (eachA (\<lambda>_. check_present R (unat num_columns)) [0..<1 + (if has_preimage t then 1 else 0)])
     (bindA (rows_event_loop fuel R ti wt (has_preimage t) []) (\<lambda>rows.
     retA \<lparr>re_header = h, re_write_type = wt, re_table_id = table_id, re_ti = ti, re_flags = flags, re_extra_data = extra_data,
        re_rows = rows\<rparr>)))))))))"

definition parse_rows_event :: "nat \<Rightarrow> 'r string_reader_api \<Rightarrow> bytes \<Rightarrow> (binlog_processor, rows_event) act" where
  "parse_rows_event fuel R data = bindA (getsA bp_table_map) (\<lambda>tm.
     bindA (liftO (parse_with R (rows_event_body fuel R tm) data)) (\<lambda>ev.
     seqA (set_position (ucast (eh_end_position (re_header ev)))) (retA ev)))"

definition query_event_body :: "'r string_reader_api \<Rightarrow> ('r, query_event) act" where
  "query_event_body R = bindA (header_typed R QUERY_EVENT ''event is not a query event'') (\<lambda>h.
     bindA (sr_get_u32l R) (\<lambda>conn_id. bindA (sr_get_u32l R) (\<lambda>exec_time_secs.
     bindA (sr_get_u8 R) (\<lambda>database_name_length. bindA (sr_get_u16l R) (\<lambda>error_code.
     bindA (bindA (sr_get_u16l R) (\<lambda>n. sr_read R (unat n))) (\<lambda>status_vars.
     bindA (sr_read R (unat database_name_length)) (\<lambda>database_name. bindA (sr_skip R 1) (\<lambda>_.
     bindA (ProtocolStringReader_get_string_eof R) (\<lambda>query.
     retA \<lparr>qe_header = h, qe_conn_id = conn_id, qe_exec_time_secs = exec_time_secs, qe_database_name = database_name,
        qe_error_code = error_code, qe_status_vars = status_vars, qe_query = query\<rparr>)))))))))"

definition parse_query_event :: "'r string_reader_api \<Rightarrow> bytes \<Rightarrow> (binlog_processor, query_event) act" where
  "parse_query_event R data = bindA (liftO (parse_with R (query_event_body R) data)) (\<lambda>ev.
     seqA (set_position (ucast (eh_end_position (qe_header ev)))) (retA ev))"

definition rotate_event_body :: "'r string_reader_api \<Rightarrow> ('r, rotate_event) act" where
  "rotate_event_body R = bindA (header_typed R ROTATE_EVENT ''event is not a rotate event'') (\<lambda>h.
     bindA (sr_get_u64l R) (\<lambda>next_position. bindA (ProtocolStringReader_get_string_eof R) (\<lambda>next_filename.
     retA \<lparr>ro_header = h, ro_next_filename = next_filename, ro_next_position = next_position\<rparr>)))"

definition parse_rotate_event :: "'r string_reader_api \<Rightarrow> bytes \<Rightarrow> (binlog_processor, rotate_event) act" where
  "parse_rotate_event R data = bindA (liftO (parse_with R (rotate_event_body R) data)) (\<lambda>ev.
     seqA (modifyA (\<lambda>s. s\<lparr>bp_filename := ro_next_filename ev\<rparr>)) (seqA (set_position (ro_next_position ev)) (retA ev)))"

definition xid_event_body :: "'r string_reader_api \<Rightarrow> ('r, xid_event) act" where
  "xid_event_body R = bindA (header_typed R XID_EVENT ''event is not an xid event'') (\<lambda>h.
     bindA (sr_get_u64l R) (\<lambda>xid. retA \<lparr>xe_header = h, xe_xid = xid\<rparr>))"

definition parse_xid_event :: "'r string_reader_api \<Rightarrow> bytes \<Rightarrow> (binlog_processor, xid_event) act" where
  "parse_xid_event R data = bindA (liftO (parse_with R (xid_event_body R) data)) (\<lambda>ev.
     seqA (set_position (ucast (eh_end_position (xe_header ev)))) (retA ev))"

definition expected_header_lengths :: bytes where
  "expected_header_lengths = [0x00, 0x0D, 0x00, 0x08, 0x00, 0x00, 0x00, 0x00, 0x04, 0x00, 0x04, 0x00, 0x00, 0x00, 0x61,
     0x00, 0x04, 0x1A, 0x08, 0x00, 0x00, 0x00, 0x08, 0x08, 0x08, 0x02, 0x00, 0x00, 0x00, 0x0A, 0x0A, 0x0A, 0x2A, 0x2A,
     0x00, 0x12, 0x34, 0x00, 0x0A, 0x28]"

definition header_lengths_match :: "bytes \<Rightarrow> bool" where
  "header_lengths_match d = (let n = (if length d < length expected_header_lengths then length d else length expected_header_lengths) in
     take n expected_header_lengths = take n d)"

definition format_description_body :: "'r string_reader_api \<Rightarrow> ('r, format_description_event) act" where
  "format_description_body R = bindA (get_header R) (\<lambda>h. bindA (sr_get_u16l R) (\<lambda>version.
     if version \<noteq> 4 then throwA (Runtime_error ''binlog version is not 4'')
     else bindA (sr_read R 50) (\<lambda>server_version. let server_version = takeWhile (\<lambda>b. b \<noteq> 0) server_version in
     bindA (sr_get_u32l R) (\<lambda>timestamp. bindA (sr_get_u8 R) (\<lambda>header_length.
     if header_length \<noteq> 0x13 then throwA (Runtime_error ''incorrect header length for FORMAT_DESCRIPTION_EVENT'')
     else bindA (ProtocolStringReader_get_string_eof R) (\<lambda>event_header_lengths.
     if \<not> header_lengths_match event_header_lengths then
       throwA (Runtime_error ''header lengths in FORMAT_DESCRIPTION_EVENT do not match expectations'')
     else retA \<lparr>fd_header = h, fd_version = version, fd_server_version = server_version, fd_timestamp = timestamp,
        fd_header_length = header_length, fd_event_header_lengths = event_header_lengths\<rparr>))))))"

definition parse_format_description_event :: "'r string_reader_api \<Rightarrow> bytes \<Rightarrow> (binlog_processor, format_description_event) act" where
  "parse_format_description_event R data = bindA (liftO (parse_with R (format_description_body R) data)) (\<lambda>ev.
     seqA (set_position (ucast (eh_end_position (fd_header ev)))) (retA ev))"

definition parse_unknown_event :: "bytes \<Rightarrow> (binlog_processor, event_header) act" where
  "parse_unknown_event data = bindA (liftO (get_event_header data)) (\<lambda>h.
     seqA (set_position (ucast (eh_end_position h))) (retA h))"

declare rows_event_loop.simps [simp del]

end
