(* ===== verification/Binlog_Properties.thy ===== *)
theory Binlog_Properties
  imports Binlog_Processor
begin

text \<open>
  What the parsers of Binlog_Processor do on the events a server sends, for any string reader that
  meets its specification: headers, cells of every supported type, rows, and whole events; the
  invariant of the processor; and the loop that does not end on a table without columns.
\<close>

section \<open>Parsing to the end of a string\<close>

definition parses :: "('r \<Rightarrow> bytes) \<Rightarrow> ('r, 'a) act \<Rightarrow> bytes \<Rightarrow> 'a outcome \<Rightarrow> bool" where
  "parses v m xs r \<longleftrightarrow> (\<forall>s. v s = xs \<longrightarrow> fst (m s) = r)"

lemma parses_step:
  assumes "decodes v k m xs x" and "zs = xs @ ys" and "parses v (f x) ys y"
  shows "parses v (bindA m f) zs y"
  unfolding parses_def
proof (intro allI impI)
  fix s assume "v s = zs"
  with assms(2) have "v s = xs @ ys" by simp
  from decodesE [OF assms(1) this] obtain s' where "m s = (Ret x, s')" "v s' = ys" .
  with assms(3) show "fst (bindA m f s) = y" by (simp add: parses_def bindA_def)
qed

lemma parses_retA: "parses v (retA x) xs (Ret x)"
  by (simp add: parses_def)

lemma parses_eof:
  assumes "string_reader_spec R v k" and "parses v (f xs) [] y"
  shows "parses v (bindA (ProtocolStringReader_get_string_eof R) f) xs y"
  unfolding parses_def
proof (intro allI impI)
  fix s assume "v s = xs"
  from get_string_eof_run [OF assms(1) this] obtain s' where "ProtocolStringReader_get_string_eof R s = (Ret xs, s')" "v s' = []"
    by blast
  with assms(2) show "fst (bindA (ProtocolStringReader_get_string_eof R) f s) = y" by (simp add: parses_def bindA_def)
qed

lemma parse_with_parses: "string_reader_spec R v k \<Longrightarrow> parses v m data r \<Longrightarrow> parse_with R m data = r"
  by (simp add: parses_def parse_with_def string_reader_laws)

lemma decodes_parses: "decodes v k m xs x \<Longrightarrow> parses v m (xs @ ys) (Ret x)"
  unfolding parses_def by (metis decodesE fst_conv)

lemma bindA_liftO [simp]: "bindA (liftO (Ret x)) f = f x" "bindA (liftO (Throw e)) f = throwA e"
  by (simp_all add: bindA_def liftO_def throwA_def)

text \<open>Results collected from the elements of a list, each with its own bytes.\<close>

lemma decodes_collect2:
  "list_all2 (\<lambda>x p. decodes v k (f x) (fst p) (snd p)) l ps \<Longrightarrow> decodes v k (collectA f l) (concat (map fst ps)) (map snd ps)"
proof (induction rule: list_all2_induct)
  case (Cons x l p ps)
  have "decodes v k (bindA (collectA f l) (\<lambda>ys. retA (snd p # ys))) (concat (map fst ps)) (snd p # map snd ps)"
    by (rule decodes_map [OF Cons.IH refl])
  from decodes_bind [where f = "\<lambda>y. bindA (collectA f l) (\<lambda>ys. retA (y # ys))", OF Cons.hyps(1) this] show ?case by simp
qed (simp only: collectA.simps list.map concat.simps decodes_ret)

section \<open>Headers, masks and strings\<close>

definition header_bytes :: "event_header \<Rightarrow> bytes" where
  "header_bytes h = le_bytes 4 (unat (eh_timestamp h)) @ [eh_type h] @ le_bytes 4 (unat (eh_server_id h)) @
     le_bytes 4 (unat (eh_length h)) @ le_bytes 4 (unat (eh_end_position h)) @ le_bytes 2 (unat (eh_flags h))"

lemma length_header_bytes [simp]: "length (header_bytes h) = 19"
  by (simp add: header_bytes_def)

lemma take_drop_append: "length xs = n \<Longrightarrow> drop (n + m) (xs @ ys) = drop m ys"
  by simp

lemma header_of_bytes [simp]: "header_of (header_bytes h @ ys) = h"
proof -
  let ?a = "le_bytes 4 (unat (eh_timestamp h))" and ?b = "le_bytes 4 (unat (eh_server_id h))"
    and ?c = "le_bytes 4 (unat (eh_length h))" and ?d = "le_bytes 4 (unat (eh_end_position h))"
    and ?e = "le_bytes 2 (unat (eh_flags h))"
  have d: "drop 5 (header_bytes h @ ys) = ?b @ ?c @ ?d @ ?e @ ys" "drop 9 (header_bytes h @ ys) = ?c @ ?d @ ?e @ ys"
    "drop 13 (header_bytes h @ ys) = ?d @ ?e @ ys" "drop 17 (header_bytes h @ ys) = ?e @ ys"
    "take 4 (header_bytes h @ ys) = ?a" "(header_bytes h @ ys) ! 4 = eh_type h"
    by (simp_all add: header_bytes_def nth_append drop_Cons')
  show ?thesis unfolding header_of_def d
    by (cases h) (simp add: word_of_le_bytes)
qed

lemma get_header_decodes: "string_reader_spec R v k \<Longrightarrow> decodes v k (get_header R) (header_bytes h) h"
  unfolding get_header_def
  by (rule decodes_map [OF sr_decodes(2) [of R v k "header_bytes h"]]) (use header_of_bytes [of h "[]"] in simp_all)

lemma header_typed_decodes:
  "string_reader_spec R v k \<Longrightarrow> eh_type h = event_code t \<Longrightarrow> decodes v k (header_typed R t msg) (header_bytes h) h"
  unfolding header_typed_def
  by (rule decodes_step [OF get_header_decodes append_Nil2 [symmetric]], assumption, subst if_not_P, simp, rule decodes_ret)

text \<open>The bits of a mask, whatever the padding bits of its last byte are.\<close>

definition mask_form :: "bool list \<Rightarrow> bytes \<Rightarrow> bool" where
  "mask_form bs d \<longleftrightarrow> length d = (length bs + 7) div 8 \<and> (\<forall>i<length bs. bit (d ! (i div 8)) (i mod 8) = bs ! i)"

lemma div8_less: "i < n \<Longrightarrow> i div 8 < (n + 7) div (8 :: nat)"
proof -
  assume "i < n"
  then obtain m where n: "n = Suc m" "i \<le> m" by (cases n) auto
  have "(n + 7) div 8 = (m + 8) div 8" by (simp add: n(1))
  also have "\<dots> = Suc (m div 8)" by (simp only: div_add_self2 numeral_eq_Suc)
  finally show ?thesis using div_le_mono [OF n(2), of 8] by simp
qed

lemma mask_decodes:
  fixes R :: "'r string_reader_api"
  assumes "string_reader_spec R v k" and "mask_form bs d" and "n = length bs"
  shows "decodes v k (ProtocolStringReader_get_bitmask R n) d bs"
proof -
  let ?f = "\<lambda>x. case bitmask_bit d x of Some b \<Rightarrow> retA b
      | None \<Rightarrow> throwA (Undefined_behaviour ''string index out of range'')"
  have len: "length d = (n + 7) div 8" and bits: "\<And>i. i < n \<Longrightarrow> bit (d ! (i div 8)) (i mod 8) = bs ! i"
    using assms(2,3) by (auto simp: mask_form_def)
  have "i div 8 < length d" if "i < n" for i unfolding len by (rule div8_less [OF that])
  then have "bitmask_bit d i = Some (bs ! i)" if "i < n" for i
    using that bits [OF that] by (simp add: bitmask_bit_def drop_bit_eq_div Let_def)
  then have "collectA ?f [0..<n] = (retA (map (\<lambda>x. bs ! x) [0..<n]) :: ('r, bool list) act)"
    by (intro collect_retA) simp
  also have "map (\<lambda>x. bs ! x) [0..<n] = bs" using assms(3) map_nth [of bs] by simp
  finally have "decodes v k (collectA ?f [0..<n]) [] bs" by (simp only: decodes_ret)
  then show ?thesis unfolding ProtocolStringReader_get_bitmask_def
    by (rule decodes_step [OF sr_decodes(1) [OF assms(1)], where ys = "[]", rotated 2]) (simp_all add: len)
qed

lemma mask_form_nonempty: "mask_form bs d \<Longrightarrow> bs \<noteq> [] \<Longrightarrow> d \<noteq> []"
  by (cases bs) (auto simp: mask_form_def)

lemma unat_of_length: "length d < 2 ^ LENGTH('a::len) \<Longrightarrow> unat (word_of_nat (length d) :: 'a word) = length d"
  by (simp add: unat_of_nat)

lemma prefixed_decodes:
  assumes "string_reader_spec R v k" and "decodes v k m xs (word_of_nat (length d) :: 'a::len word)" and "length d < 2 ^ LENGTH('a)"
  shows "decodes v k (bindA m (\<lambda>n. sr_read R (unat n))) (xs @ d) d"
  by (rule decodes_bind [where f = "\<lambda>n. sr_read R (unat n)", OF assms(2)])
    (rule sr_decodes(1) [OF assms(1)], simp add: unat_of_length [OF assms(3)])

lemma sized_decodes:
  assumes R: "string_reader_spec R v k"
  shows "length d < 2 ^ 8 \<Longrightarrow> decodes v k (bindA (sr_get_u8 R) (\<lambda>n. sr_read R (unat n))) ([word_of_nat (length d)] @ d) d"
    and "length d < 2 ^ 16 \<Longrightarrow> decodes v k (bindA (sr_get_u16l R) (\<lambda>n. sr_read R (unat n))) (le_bytes 2 (length d) @ d) d"
    and "length d < 2 ^ 24 \<Longrightarrow> decodes v k (bindA (sr_get_u24l R) (\<lambda>n. sr_read R (unat n))) (le_bytes 3 (length d) @ d) d"
    and "length d < 2 ^ 32 \<Longrightarrow> decodes v k (bindA (sr_get_u32l R) (\<lambda>n. sr_read R (unat n))) (le_bytes 4 (length d) @ d) d"
proof -
  have 2: "decodes v k (sr_get_u16l R) (le_bytes 2 (length d)) (word_of_nat (length d))" if "length d < 2 ^ 16"
    using sr_decodes(4) [OF R, of "word_of_nat (length d)"] unat_of_length [of d, where 'a = 16] that by simp
  have 4: "decodes v k (sr_get_u32l R) (le_bytes 4 (length d)) (word_of_nat (length d))" if "length d < 2 ^ 32"
    using sr_decodes(6) [OF R, of "word_of_nat (length d)"] unat_of_length [of d, where 'a = 32] that by simp
  show "length d < 2 ^ 8 \<Longrightarrow> decodes v k (bindA (sr_get_u8 R) (\<lambda>n. sr_read R (unat n))) ([word_of_nat (length d)] @ d) d"
    by (rule prefixed_decodes [OF R sr_decodes(3) [OF R]]) simp
  show "length d < 2 ^ 16 \<Longrightarrow> decodes v k (bindA (sr_get_u16l R) (\<lambda>n. sr_read R (unat n))) (le_bytes 2 (length d) @ d) d"
    by (rule prefixed_decodes [OF R 2]) simp_all
  show "length d < 2 ^ 24 \<Longrightarrow> decodes v k (bindA (sr_get_u24l R) (\<lambda>n. sr_read R (unat n))) (le_bytes 3 (length d) @ d) d"
    by (rule prefixed_decodes [OF R sr_decodes_odd(1) [OF R]]) simp_all
  show "length d < 2 ^ 32 \<Longrightarrow> decodes v k (bindA (sr_get_u32l R) (\<lambda>n. sr_read R (unat n))) (le_bytes 4 (length d) @ d) d"
    by (rule prefixed_decodes [OF R 4]) simp_all
qed

text \<open>\<open>w\<close> bytes of length, then the data.\<close>

definition sized :: "nat \<Rightarrow> bytes \<Rightarrow> bytes" where
  "sized w d = le_bytes w (length d) @ d"

lemma read_sized_decodes:
  assumes "string_reader_spec R v k" and "w \<in> {1, 2, 3, 4}" and "length d < 256 ^ w"
  shows "decodes v k (read_sized R w) (sized w d) d"
proof -
  have "(256 :: nat) ^ w = 2 ^ (8 * w)" by (simp add: power_mult)
  with assms(3) have len: "length d < 2 ^ (8 * w)" by simp
  consider "w = 1" | "w = 2" | "w = 3" | "w = 4" using assms(2) by blast
  then show ?thesis
  proof cases
    case 1 then show ?thesis using sized_decodes(1) [OF assms(1), of d] len by (simp add: read_sized_def sized_def)
  next
    case 2 then show ?thesis using sized_decodes(2) [OF assms(1), of d] len by (simp add: read_sized_def sized_def del: le_bytes.simps)
  next
    case 3 then show ?thesis using sized_decodes(3) [OF assms(1), of d] len by (simp add: read_sized_def sized_def del: le_bytes.simps)
  next
    case 4 then show ?thesis using sized_decodes(4) [OF assms(1), of d] len by (simp add: read_sized_def sized_def del: le_bytes.simps)
  qed
qed

section \<open>Packed dates and times\<close>

text \<open>Fields packed into a number, most significant first, and what the shifts and masks give back.\<close>

lemma field_split: "s < b \<Longrightarrow> (a * b + s) div b = a" "s < b \<Longrightarrow> (a * b + s) mod b = (s :: nat)"
  by simp_all

lemma word_of_unat: "unat w = n \<Longrightarrow> w = word_of_nat n"
  by auto

lemma word_shift_mask:
  fixes n :: nat
  assumes "n < 2 ^ LENGTH('a::len)"
  shows "drop_bit k (word_of_nat n :: 'a word) = word_of_nat (n div 2 ^ k)"
    and "(word_of_nat n :: 'a word) AND mask k = word_of_nat (n mod 2 ^ k)"
proof -
  have "unat (word_of_nat n :: 'a word) = n" using assms by (simp add: unat_of_nat)
  then have "unat (drop_bit k (word_of_nat n :: 'a word)) = n div 2 ^ k" by (simp only: unat_drop_bit_eq) (simp add: drop_bit_eq_div)
  then show "drop_bit k (word_of_nat n :: 'a word) = word_of_nat (n div 2 ^ k)" by (rule word_of_unat)
  show "(word_of_nat n :: 'a word) AND mask k = word_of_nat (n mod 2 ^ k)"
    by (simp add: take_bit_of_nat flip: take_bit_eq_mask take_bit_eq_mod)
qed

definition datetime2_code :: "nat \<Rightarrow> nat \<Rightarrow> nat \<Rightarrow> nat \<Rightarrow> nat \<Rightarrow> nat \<Rightarrow> nat" where
  "datetime2_code y mo d h mi s = (((((2 ^ 17 + y * 13 + mo) * 32 + d) * 32 + h) * 64 + mi) * 64 + s)"

lemma power_numeral_6: "(2 :: nat) ^ 6 = 64"
  by simp

lemma div_pow_add: "(n :: nat) div 2 ^ (i + j) = n div 2 ^ i div 2 ^ j"
  by (simp add: power_add div_mult2_eq)

lemma datetime2_code_fields:
  assumes "d < 32" "h < 32" "mi < 64" "s < 64"
  shows "datetime2_code y mo d h mi s div 2 ^ 22 = 2 ^ 17 + y * 13 + mo" "datetime2_code y mo d h mi s div 2 ^ 17 mod 32 = d"
    "datetime2_code y mo d h mi s div 2 ^ 12 mod 32 = h" "datetime2_code y mo d h mi s div 2 ^ 6 mod 64 = mi"
    "datetime2_code y mo d h mi s mod 64 = s"
proof -
  let ?c = "datetime2_code y mo d h mi s"
  have 1: "?c div 2 ^ 6 = ((((2 ^ 17 + y * 13 + mo) * 32 + d) * 32 + h) * 64 + mi)" "?c mod 64 = s"
    unfolding datetime2_code_def using field_split [OF assms(4)] by (simp_all only: power_numeral_6)
  have 2: "?c div 2 ^ 12 = (((2 ^ 17 + y * 13 + mo) * 32 + d) * 32 + h)"
    using div_pow_add [of ?c 6 6] field_split(1) [OF assms(3)] 1(1) by simp
  have 3: "?c div 2 ^ 17 = ((2 ^ 17 + y * 13 + mo) * 32 + d)"
    using div_pow_add [of ?c 12 5] field_split(1) [OF assms(2)] 2 by simp
  have 4: "?c div 2 ^ 22 = 2 ^ 17 + y * 13 + mo"
    using div_pow_add [of ?c 17 5] field_split(1) [OF assms(1)] 3 by simp
  show "?c div 2 ^ 22 = 2 ^ 17 + y * 13 + mo" "?c div 2 ^ 17 mod 32 = d" "?c div 2 ^ 12 mod 32 = h" "?c div 2 ^ 6 mod 64 = mi" "?c mod 64 = s"
    using 1(2) by (simp_all only: 1(1) 2 3 4 field_split assms)
qed

lemma datetime2_code_bound:
  assumes "y * 13 + mo < 2 ^ 17" "d < 32" "h < 32" "mi < 64" "s < 64"
  shows "datetime2_code y mo d h mi s < 2 ^ 40"
  using assms unfolding datetime2_code_def by simp

text \<open>A month of 1 to 12 comes back with its year; month 0 comes back with the year before.\<close>

lemma word_year_month:
  fixes n :: nat
  assumes "n < 2 ^ 17" "0 < n"
  shows "(word_of_nat (2 ^ 17 + n) - 131073 :: u64) div 13 = word_of_nat ((n - 1) div 13)"
    and "(word_of_nat (2 ^ 17 + n) + 7 :: u64) mod 13 = word_of_nat (n mod 13)"
proof -
  have "word_of_nat (2 ^ 17 + n) = (131073 + word_of_nat (n - 1) :: u64)" using assms(2) by (cases n) (simp_all add: add.assoc)
  then have "(word_of_nat (2 ^ 17 + n) - 131073 :: u64) = word_of_nat (n - 1)" by simp
  moreover have u: "unat (word_of_nat (n - 1) :: u64) = n - 1" using assms(1) by (simp add: unat_of_nat)
  ultimately have "unat ((word_of_nat (2 ^ 17 + n) - 131073 :: u64) div 13) = (n - 1) div 13" by (simp add: unat_div)
  then show "(word_of_nat (2 ^ 17 + n) - 131073 :: u64) div 13 = word_of_nat ((n - 1) div 13)" by (rule word_of_unat)
  have "word_of_nat (2 ^ 17 + n) + 7 = (word_of_nat (131079 + n) :: u64)" by simp
  moreover have "unat (word_of_nat (131079 + n) :: u64) = 131079 + n" using assms(1) by (simp only: unat_of_nat) simp
  ultimately have "unat ((word_of_nat (2 ^ 17 + n) + 7 :: u64) mod 13) = (131079 + n) mod 13" by (simp add: unat_mod)
  also have "(131079 + n) mod 13 = n mod 13" using mod_mult_self2 [of n 13 10083] by (simp add: add.commute)
  finally show "(word_of_nat (2 ^ 17 + n) + 7 :: u64) mod 13 = word_of_nat (n mod 13)" by (rule word_of_unat)
qed

definition datetime_of :: "nat \<Rightarrow> nat \<Rightarrow> nat \<Rightarrow> nat \<Rightarrow> nat \<Rightarrow> nat \<Rightarrow> u32 \<Rightarrow> date_time_value" where
  "datetime_of y mo d h mi s u = \<lparr>dt_years = word_of_nat y, dt_months = word_of_nat mo, dt_days = word_of_nat d, dt_hours = word_of_nat h,
     dt_minutes = word_of_nat mi, dt_seconds = word_of_nat s, dt_usecs = u\<rparr>"

lemma datetime2_fields_code:
  assumes "y * 13 + mo < 2 ^ 17" "0 < y * 13 + mo" "d < 32" "h < 32" "mi < 64" "s < 64"
  shows "datetime2_fields (word_of_nat (datetime2_code y mo d h mi s)) u =
    datetime_of ((y * 13 + mo - 1) div 13) ((y * 13 + mo) mod 13) d h mi s u"
proof -
  let ?c = "datetime2_code y mo d h mi s"
  have "?c < 2 ^ 40" by (rule datetime2_code_bound [OF assms(1,3-6)])
  then have c: "?c < 2 ^ 64" by simp
  have q: "?c div k < 2 ^ 64" for k using div_le_dividend [of ?c k] c by (rule le_less_trans)
  have m: "(0x1F :: u64) = mask 5" "(0x3F :: u64) = mask 6" by (simp_all add: mask_eq_exp_minus_1)
  have w: "x < 2 ^ LENGTH(64)" if "x < 2 ^ 64" for x :: nat using that by simp
  note shift = word_shift_mask [where 'a = 64, OF w]
  show ?thesis unfolding datetime2_fields_def datetime_of_def m shift(1) [OF c] shift(2) [OF c] shift(2) [OF q]
    using word_year_month [OF assms(1,2)]
    by (simp add: datetime2_code_fields [OF assms(3-6), simplified] ucast_word_of_nat add.assoc)
qed

text \<open>A time is 2^23 plus or minus its packed fields.\<close>

definition time2_magnitude :: "nat \<Rightarrow> nat \<Rightarrow> nat \<Rightarrow> nat" where
  "time2_magnitude h mi s = (h * 64 + mi) * 64 + s"

definition time2_code :: "bool \<Rightarrow> nat \<Rightarrow> nat \<Rightarrow> nat \<Rightarrow> nat" where
  "time2_code neg h mi s = (if neg then 2 ^ 23 - time2_magnitude h mi s else 2 ^ 23 + time2_magnitude h mi s)"

lemma time2_magnitude_bound: "h < 1024 \<Longrightarrow> mi < 64 \<Longrightarrow> s < 64 \<Longrightarrow> time2_magnitude h mi s < 2 ^ 22"
  by (simp add: time2_magnitude_def)

lemma time2_sign:
  assumes "m < 2 ^ 22"
  shows "(word_of_nat (2 ^ 23 + m) AND 0x800000 :: u32) \<noteq> 0"
    and "0 < m \<Longrightarrow> (word_of_nat (2 ^ 23 - m) AND 0x800000 :: u32) = 0"
proof -
  have bit: "(word_of_nat n AND 0x800000 :: u32) = 0 \<longleftrightarrow> even (n div 2 ^ 23)" for n
  proof -
    have "(word_of_nat n AND 0x800000 :: u32) = 0 \<longleftrightarrow> \<not> bit (word_of_nat n :: u32) 23"
      by (simp add: bit_iff_and_push_bit_not_eq_0 push_bit_eq_mult)
    also have "\<dots> \<longleftrightarrow> \<not> bit n 23" by (simp add: bit_simps)
    also have "\<dots> \<longleftrightarrow> even (n div 2 ^ 23)" by (simp only: bit_iff_odd not_not)
    finally show ?thesis .
  qed
  have "(2 ^ 23 + m) div 2 ^ 23 = 1" using assms by simp
  then show "(word_of_nat (2 ^ 23 + m) AND 0x800000 :: u32) \<noteq> 0" unfolding bit by simp
  have "(2 ^ 23 - m) div 2 ^ 23 = 0" if "0 < m" using that by simp
  then show "0 < m \<Longrightarrow> (word_of_nat (2 ^ 23 - m) AND 0x800000 :: u32) = 0" unfolding bit by simp
qed

text \<open>The fields, below any multiple of 2^22.\<close>

lemma time2_fields_split:
  assumes "h < 1024" "mi < 64" "s < 64"
  shows "(a * 2 ^ 22 + time2_magnitude h mi s) div 2 ^ 12 mod 2 ^ 10 = h" "(a * 2 ^ 22 + time2_magnitude h mi s) div 2 ^ 6 mod 2 ^ 6 = mi"
    "(a * 2 ^ 22 + time2_magnitude h mi s) mod 2 ^ 6 = s"
proof -
  let ?n = "a * 2 ^ 22 + time2_magnitude h mi s"
  have n: "?n = ((a * 1024 + h) * 64 + mi) * 64 + s" by (simp add: time2_magnitude_def)
  have 1: "?n div 2 ^ 6 = (a * 1024 + h) * 64 + mi" unfolding n using field_split(1) [OF assms(3)] by (simp only: power_numeral_6)
  have 2: "?n div 2 ^ 12 = a * 1024 + h"
    using div_pow_add [of ?n 6 6] field_split(1) [OF assms(2)] unfolding 1 by simp
  show "?n div 2 ^ 12 mod 2 ^ 10 = h" unfolding 2 using assms(1) by simp
  show "?n div 2 ^ 6 mod 2 ^ 6 = mi" unfolding 1 by (simp only: power_numeral_6 field_split [OF assms(2)])
  show "?n mod 2 ^ 6 = s" unfolding n by (simp only: power_numeral_6 field_split [OF assms(3)])
qed

lemma ucast_nat: "LENGTH('b) \<le> LENGTH('a) \<Longrightarrow> ucast (word_of_nat n :: 'a::len word) = (word_of_nat n :: 'b::len word)"
  by (rule bit_word_eqI) (simp add: bit_simps)

definition time_of :: "bool \<Rightarrow> nat \<Rightarrow> nat \<Rightarrow> nat \<Rightarrow> u32 \<Rightarrow> time_value" where
  "time_of neg h mi s u = \<lparr>tv_is_negative = neg, tv_hours = word_of_nat h, tv_minutes = word_of_nat mi, tv_seconds = word_of_nat s, tv_usecs = u\<rparr>"

lemma time2_word_fields:
  assumes "h < 1024" "mi < 64" "s < 64" "a < 2 ^ 10" and z: "z = (word_of_nat (a * 2 ^ 22 + time2_magnitude h mi s) :: u32)"
  shows "drop_bit 12 z AND 0x3FF = word_of_nat h" "(ucast (drop_bit 6 z AND 0x3F) :: u8) = word_of_nat mi" "(ucast (z AND 0x3F) :: u8) = word_of_nat s"
proof -
  let ?n = "a * 2 ^ 22 + time2_magnitude h mi s"
  have n: "?n < 2 ^ LENGTH(32)" using time2_magnitude_bound [OF assms(1-3)] assms(4) by simp
  have q: "?n div k < 2 ^ LENGTH(32)" for k using div_le_dividend [of ?n k] n by (rule le_less_trans)
  have m: "(0x3FF :: u32) = mask 10" "(0x3F :: u32) = mask 6" by (simp_all add: mask_eq_exp_minus_1)
  note shift = word_shift_mask [where 'a = 32]
  have u: "(ucast (word_of_nat x :: u32) :: u8) = word_of_nat x" for x by (rule ucast_nat) simp
  show "drop_bit 12 z AND 0x3FF = word_of_nat h" "(ucast (drop_bit 6 z AND 0x3F) :: u8) = word_of_nat mi" "(ucast (z AND 0x3F) :: u8) = word_of_nat s"
    unfolding z m shift(1) [OF n] shift(2) [OF n] shift(2) [OF q] time2_fields_split [OF assms(1-3)] by (simp_all only: u)
qed

lemma time2_fields_code:
  assumes "h < 1024" "mi < 64" "s < 64" and "neg \<Longrightarrow> 0 < time2_magnitude h mi s"
  shows "time2_fields (word_of_nat (time2_code neg h mi s)) u = time_of neg h mi s u"
proof -
  let ?m = "time2_magnitude h mi s"
  note b = time2_magnitude_bound [OF assms(1-3)]
  show ?thesis
  proof (cases neg)
    case True
    have "word_of_nat (2 ^ 23 - ?m) + word_of_nat (1022 * 2 ^ 22 + ?m) = (word_of_nat (2 ^ 23 - ?m + (1022 * 2 ^ 22 + ?m)) :: u32)"
      by (simp only: of_nat_add)
    also have "2 ^ 23 - ?m + (1022 * 2 ^ 22 + ?m) = 2 ^ 32" using b by simp
    also have "(word_of_nat (2 ^ 32) :: u32) = 0" by simp
    finally have "word_of_nat (2 ^ 23 - ?m) + word_of_nat (1022 * 2 ^ 22 + ?m) = (0 :: u32)" .
    then have "NOT (word_of_nat (2 ^ 23 - ?m)) + 1 = (word_of_nat (1022 * 2 ^ 22 + ?m) :: u32)"
      by (simp only: add_eq_0_iff minus_eq_not_plus_1)
    then show ?thesis
      using True assms time2_sign(2) [OF b assms(4)] time2_word_fields [OF assms(1-3), of 1022]
      by (simp add: time2_fields_def time2_code_def time_of_def Let_def)
  next
    case False
    have "(2 :: nat) ^ 23 + ?m = 2 * 2 ^ 22 + ?m" by simp
    then show ?thesis
      using False time2_sign(1) [OF b] time2_word_fields [OF assms(1-3), of 2]
      by (simp add: time2_fields_def time2_code_def time_of_def Let_def)
  qed
qed

section \<open>Cells\<close>

text \<open>The fraction of a second: hundredths, ten-thousandths or millionths, big-endian, by precision.\<close>

inductive frac_form :: "u8 \<Rightarrow> u32 \<Rightarrow> bytes \<Rightarrow> bool" where
  none: "frac_form 0 0 []"
| hundredths: "p \<in> {1, 2} \<Longrightarrow> frac_form p (ucast (x :: u8) * 10000) [x]"
| ten_thousandths: "p \<in> {3, 4} \<Longrightarrow> frac_form p (ucast (x :: u16) * 100) (be_bytes 2 (unat x))"
| millionths: "p \<in> {5, 6} \<Longrightarrow> n < 2 ^ 24 \<Longrightarrow> frac_form p (word_of_nat n) (be_bytes 3 n)"

lemma frac_decodes:
  assumes R: "string_reader_spec R v k" and "frac_form p u xs"
  shows "decodes v k (read_datetime_fractional_part R p) xs u"
  using assms(2)
proof cases
  case none
  then show ?thesis by (simp only: read_datetime_fractional_part_def simp_thms if_True decodes_ret)
next
  case (hundredths x)
  with decodes_map [OF sr_decodes(3) [OF R, of x], of "\<lambda>x. ucast x * 10000"] show ?thesis
    by (auto simp: read_datetime_fractional_part_def)
next
  case (ten_thousandths x)
  with decodes_map [OF sr_decodes(5) [OF R, of x], of "\<lambda>x. ucast x * 100"] show ?thesis
    by (auto simp: read_datetime_fractional_part_def)
next
  case (millionths n)
  with sr_decodes_odd(2) [OF R, of n] show ?thesis by (auto simp: read_datetime_fractional_part_def)
qed

text \<open>
  What a value of a column looks like in a row, for every column type the code supports.  Lengths
  are as wide as the column's metadata says.
\<close>

inductive cell_form :: "column_info \<Rightarrow> mysql_value \<Rightarrow> bytes \<Rightarrow> bool" where
  null: "column_type_of (ci_type ci) = Some T_NULL \<Longrightarrow> cell_form ci V_null []"
| one_byte: "column_type_of (ci_type ci) = Some t \<Longrightarrow> t \<in> {T_TINYINT, T_YEAR} \<Longrightarrow> cell_form ci (V_uint (ucast (x :: u8))) [x]"
| smallint: "column_type_of (ci_type ci) = Some T_SMALLINT \<Longrightarrow> cell_form ci (V_uint (ucast (x :: u16))) (le_bytes 2 (unat x))"
| mediumint: "column_type_of (ci_type ci) = Some T_MEDIUMINT \<Longrightarrow> n < 2 ^ 24 \<Longrightarrow> cell_form ci (V_uint (ucast (word_of_nat n :: u32))) (le_bytes 3 n)"
| int: "column_type_of (ci_type ci) = Some T_INT \<Longrightarrow> cell_form ci (V_uint (ucast (x :: u32))) (le_bytes 4 (unat x))"
| bigint: "column_type_of (ci_type ci) = Some T_BIGINT \<Longrightarrow> cell_form ci (V_uint x) (le_bytes 8 (unat x))"
| float: "column_type_of (ci_type ci) = Some T_FLOAT \<Longrightarrow> cell_form ci (V_float x) (le_bytes 4 (unat x))"
| double: "column_type_of (ci_type ci) = Some T_DOUBLE \<Longrightarrow> cell_form ci (V_double x) (le_bytes 8 (unat x))"
| blob: "column_type_of (ci_type ci) = Some t \<Longrightarrow> t \<in> {T_TINYBLOB, T_MEDIUMBLOB, T_LONGBLOB, T_BLOB, T_GEOMETRY, T_JSON} \<Longrightarrow>
    ci_type_meta ci = [w] \<Longrightarrow> unat w \<in> {1, 2, 3, 4} \<Longrightarrow> length d < 256 ^ unat w \<Longrightarrow> cell_form ci (V_string d) (sized (unat w) d)"
| enum: "column_type_of (ci_type ci) = Some t \<Longrightarrow> t \<in> {T_ENUM, T_SET, T_STRING} \<Longrightarrow>
    ci_type_meta ci = [m0, m1] \<Longrightarrow> m0 \<in> {column_type_code T_ENUM, column_type_code T_SET} \<Longrightarrow> length d = char_size m1 \<Longrightarrow>
    cell_form ci (V_string d) d"
| string: "column_type_of (ci_type ci) = Some t \<Longrightarrow> t \<in> {T_ENUM, T_SET, T_STRING} \<Longrightarrow>
    ci_type_meta ci = [m0, m1] \<Longrightarrow> m0 \<notin> {column_type_code T_ENUM, column_type_code T_SET} \<Longrightarrow>
    w = (if 255 < max_display_width m0 m1 then 2 else 1) \<Longrightarrow> length d < 256 ^ w \<Longrightarrow> cell_form ci (V_string d) (sized w d)"
| varchar: "column_type_of (ci_type ci) = Some T_VARCHAR \<Longrightarrow> length (ci_type_meta ci) = 2 \<Longrightarrow>
    w = (if 255 < le_val (ci_type_meta ci) then 2 else 1) \<Longrightarrow> length d < 256 ^ w \<Longrightarrow> cell_form ci (V_string d) (sized w d)"
| timestamp: "column_type_of (ci_type ci) = Some T_TIMESTAMP \<Longrightarrow> cell_form ci (V_uint (ucast (x :: u32) * 1000000)) (le_bytes 4 (unat x))"
| timestamp2: "column_type_of (ci_type ci) = Some T_TIMESTAMP2 \<Longrightarrow> ci_type_meta ci = [p] \<Longrightarrow> length f = half_rounded_up p \<Longrightarrow>
    cell_form ci (V_uint (ucast (x :: u32))) (le_bytes 4 (unat x) @ f)"
| datetime2: "column_type_of (ci_type ci) = Some T_DATETIME2 \<Longrightarrow> ci_type_meta ci = [p] \<Longrightarrow> frac_form p u f \<Longrightarrow>
    y * 13 + mo < 2 ^ 17 \<Longrightarrow> mo \<in> {1..12} \<Longrightarrow> d < 32 \<Longrightarrow> h < 32 \<Longrightarrow> mi < 64 \<Longrightarrow> s < 64 \<Longrightarrow>
    cell_form ci (V_datetime (datetime_of y mo d h mi s u)) (be_bytes 5 (datetime2_code y mo d h mi s) @ f)"
| time2: "column_type_of (ci_type ci) = Some T_TIME2 \<Longrightarrow> ci_type_meta ci = [p] \<Longrightarrow> frac_form p u f \<Longrightarrow>
    h < 1024 \<Longrightarrow> mi < 64 \<Longrightarrow> s < 64 \<Longrightarrow> (neg \<longrightarrow> 0 < time2_magnitude h mi s) \<Longrightarrow>
    cell_form ci (V_time (time_of neg h mi s u)) (be_bytes 3 (time2_code neg h mi s) @ f)"

lemma be_bytes_Suc: "be_bytes (Suc n) x = be_bytes n (x div 256) @ [word_of_nat x]"
  by (simp add: be_bytes_def)

text \<open>The five bytes of a date are read as four and one.\<close>

lemma join_bytes:
  assumes "n < 2 ^ 40"
  shows "push_bit 8 (ucast (word_of_nat (n div 256) :: u32)) OR ucast (word_of_nat n :: u8) = (word_of_nat n :: u64)"
proof (rule bit_word_eqI)
  fix i assume "i < LENGTH(64)"
  have "(256 :: nat) = 2 ^ 8" by simp
  then have q: "bit (n div 256) j = bit n (8 + j)" for j by (simp only: bit_iff_odd div_pow_add [symmetric] add.commute)
  have hi: "\<not> bit n i" if "40 \<le> i"
  proof -
    have "n < 2 ^ i" using assms that by (meson less_le_trans one_le_numeral power_increasing)
    then show ?thesis by (simp add: bit_iff_odd)
  qed
  show "bit (push_bit 8 (ucast (word_of_nat (n div 256) :: u32)) OR ucast (word_of_nat n :: u8) :: u64) i = bit (word_of_nat n :: u64) i"
    using \<open>i < LENGTH(64)\<close> hi by (cases "40 \<le> i") (auto simp: bit_simps q)
qed

lemma datetime2_cell_decodes:
  assumes R: "string_reader_spec R v k" and ci: "column_type_of (ci_type ci) = Some T_DATETIME2" "ci_type_meta ci = [p]" and f: "frac_form p u f"
    and "n < 2 ^ 40"
  shows "decodes v k (read_cell_data R ci) (be_bytes 5 n @ f) (V_datetime (datetime2_fields (word_of_nat n) u))"
proof -
  have "n div 256 < 2 ^ 32" using assms(5) by (simp add: less_mult_imp_div_less)
  then have u: "unat (word_of_nat (n div 256) :: u32) = n div 256" by (simp add: unat_of_nat)
  have "be_bytes 5 n = be_bytes 4 (unat (word_of_nat (n div 256) :: u32)) @ [word_of_nat n]"
    unfolding u using be_bytes_Suc [of 4 n] by simp
  then have e: "be_bytes 5 n @ f = be_bytes 4 (unat (word_of_nat (n div 256) :: u32)) @ [word_of_nat n] @ f" by simp
  have "decodes v k (bindA (sr_get_u32b R) (\<lambda>hi. bindA (sr_get_u8 R) (\<lambda>lo. bindA (read_datetime_fractional_part R p) (\<lambda>usecs.
      retA (V_datetime (datetime2_fields (push_bit 8 (ucast hi) OR ucast lo) usecs))))))
    (be_bytes 5 n @ f) (V_datetime (datetime2_fields (word_of_nat n) u))"
    unfolding e
    by (rule decodes_step [OF sr_decodes(7) [OF R] refl], rule decodes_step [OF sr_decodes(3) [OF R] refl],
        rule decodes_map [OF frac_decodes [OF R f]]) (simp only: join_bytes [OF assms(5)])
  then show ?thesis by (simp add: read_cell_data_def ci)
qed

lemma time2_cell_decodes:
  assumes R: "string_reader_spec R v k" and ci: "column_type_of (ci_type ci) = Some T_TIME2" "ci_type_meta ci = [p]" and f: "frac_form p u f"
    and "n < 2 ^ 24"
  shows "decodes v k (read_cell_data R ci) (be_bytes 3 n @ f) (V_time (time2_fields (word_of_nat n) u))"
proof -
  have "decodes v k (bindA (sr_get_u24b R) (\<lambda>z. bindA (read_datetime_fractional_part R p) (\<lambda>usecs. retA (V_time (time2_fields z usecs)))))
    (be_bytes 3 n @ f) (V_time (time2_fields (word_of_nat n) u))"
    by (rule decodes_step [OF sr_decodes_odd(2) [OF R assms(5)] refl], rule decodes_map [OF frac_decodes [OF R f] refl])
  then show ?thesis by (simp add: read_cell_data_def ci)
qed

lemma timestamp2_cell_decodes:
  assumes R: "string_reader_spec R v k" and ci: "column_type_of (ci_type ci) = Some T_TIMESTAMP2" "ci_type_meta ci = [p]"
    and f: "length f = half_rounded_up p"
  shows "decodes v k (read_cell_data R ci) (le_bytes 4 (unat x) @ f) (V_uint (ucast (x :: u32)))"
proof -
  have "decodes v k (bindA (sr_get_u32l R) (\<lambda>x. if p \<noteq> 0 then bindA (sr_read R (half_rounded_up p)) (\<lambda>_. retA (V_uint (ucast x)))
       else retA (V_uint (ucast x)))) (le_bytes 4 (unat x) @ f) (V_uint (ucast x))"
  proof (rule decodes_step [OF sr_decodes(6) [OF R] refl], cases "p = 0")
    case True
    with f have "f = []" by (simp add: half_rounded_up_def signed_divide_int_def)
    with True show "decodes v k (if p \<noteq> 0 then bindA (sr_read R (half_rounded_up p)) (\<lambda>_. retA (V_uint (ucast x)))
       else retA (V_uint (ucast x))) f (V_uint (ucast x))" by (simp only: simp_thms if_False decodes_ret)
  next
    case False
    with decodes_map [OF sr_decodes(1) [OF R f], of "\<lambda>_. V_uint (ucast x)" "V_uint (ucast x)"]
    show "decodes v k (if p \<noteq> 0 then bindA (sr_read R (half_rounded_up p)) (\<lambda>_. retA (V_uint (ucast x)))
       else retA (V_uint (ucast x))) f (V_uint (ucast x))" by simp
  qed
  then show ?thesis by (simp add: read_cell_data_def ci cong: if_cong)
qed

lemma number_cell_decodes:
  assumes R: "string_reader_spec R v k"
  shows "decodes v k (bindA (sr_get_u8 R) (\<lambda>x. retA (V_uint (ucast x)))) [x8] (V_uint (ucast x8))"
    and "decodes v k (bindA (sr_get_u16l R) (\<lambda>x. retA (V_uint (ucast x)))) (le_bytes 2 (unat x16)) (V_uint (ucast (x16 :: u16)))"
    and "n < 2 ^ 24 \<Longrightarrow> decodes v k (bindA (sr_get_u24l R) (\<lambda>x. retA (V_uint (ucast x)))) (le_bytes 3 n) (V_uint (ucast (word_of_nat n :: u32)))"
    and "decodes v k (bindA (sr_get_u32l R) (\<lambda>x. retA (V_uint (ucast x)))) (le_bytes 4 (unat x32)) (V_uint (ucast (x32 :: u32)))"
    and "decodes v k (bindA (sr_get_u64l R) (\<lambda>x. retA (V_uint x))) (le_bytes 8 (unat x64)) (V_uint x64)"
    and "decodes v k (bindA (sr_get_f32l R) (\<lambda>x. retA (V_float x))) (le_bytes 4 (unat x32)) (V_float x32)"
    and "decodes v k (bindA (sr_get_f64l R) (\<lambda>x. retA (V_double x))) (le_bytes 8 (unat x64)) (V_double x64)"
    and "decodes v k (bindA (sr_get_u32l R) (\<lambda>x. retA (V_uint (ucast x * 1000000)))) (le_bytes 4 (unat x32)) (V_uint (ucast x32 * 1000000))"
  by (rule decodes_map [OF sr_decodes(3) [OF R] refl] decodes_map [OF sr_decodes(4) [OF R] refl] decodes_map [OF sr_decodes_odd(1) [OF R] refl]
      decodes_map [OF sr_decodes(6) [OF R] refl] decodes_map [OF sr_decodes(8) [OF R] refl] decodes_map [OF sr_decodes(9) [OF R] refl]
      decodes_map [OF sr_decodes(10) [OF R] refl] | assumption)+

lemma cell_decodes:
  assumes R: "string_reader_spec R v k" and "cell_form ci x xs"
  shows "decodes v k (read_cell_data R ci) xs x"
  using assms(2)
proof cases
  case (blob t w d)
  with decodes_map [OF read_sized_decodes [OF R blob(6,7)], of V_string] show ?thesis by (auto simp: read_cell_data_def)
next
  case (enum t m0 m1)
  have "decodes v k (bindA (sr_read R (char_size m1)) (\<lambda>d. retA (V_string d))) xs x"
    using decodes_map [OF sr_decodes(1) [OF R], of xs "char_size m1" V_string] enum by simp
  with enum show ?thesis by (auto simp: read_cell_data_def)
next
  case (string t m0 m1 w d)
  then have "w \<in> {1, 2, 3, 4}" by simp
  from decodes_map [OF read_sized_decodes [OF R this string(8)], of V_string] string show ?thesis by (auto simp: read_cell_data_def)
next
  case (varchar w d)
  then have "w \<in> {1, 2, 3, 4}" by simp
  from decodes_map [OF read_sized_decodes [OF R this varchar(6)], of V_string] varchar show ?thesis by (auto simp: read_cell_data_def)
next
  case (timestamp2 p f y)
  with timestamp2_cell_decodes [OF R timestamp2(3,4,5)] show ?thesis by simp
next
  case (datetime2 p u f y mo d h mi s)
  have "y * 13 + mo - 1 = y * 13 + (mo - 1)" "mo - 1 < 13" "mo < 13" using datetime2(7) by auto
  then have "(y * 13 + mo - 1) div 13 = y" "(y * 13 + mo) mod 13 = mo" by (simp_all only: field_split)
  then have "datetime2_fields (word_of_nat (datetime2_code y mo d h mi s)) u = datetime_of y mo d h mi s u"
    using datetime2_fields_code [of y mo d h mi s u] datetime2 by simp
  moreover have "datetime2_code y mo d h mi s < 2 ^ 40" using datetime2 by (intro datetime2_code_bound)
  ultimately show ?thesis using datetime2_cell_decodes [OF R datetime2(3,4,5)] datetime2(1,2) by metis
next
  case (time2 p u f h mi s neg)
  have "time2_fields (word_of_nat (time2_code neg h mi s)) u = time_of neg h mi s u"
    using time2 by (intro time2_fields_code) auto
  moreover have "time2_code neg h mi s < 2 ^ 24" using time2_magnitude_bound [OF time2(6-8)] by (cases neg) (simp_all add: time2_code_def)
  ultimately show ?thesis using time2_cell_decodes [OF R time2(3,4,5)] time2(1,2) by metis
next
  case null
  then show ?thesis by (simp add: read_cell_data_def del: retA_apply) (rule decodes_ret)
qed (auto simp: read_cell_data_def intro!: number_cell_decodes [OF R])

section \<open>Rows\<close>

text \<open>A row: the bytes of its null mask, and for each column nothing (NULL) or a value with its bytes.\<close>

type_synonym row_image = "bytes \<times> (mysql_value \<times> bytes) option list"

definition cell_bytes_of :: "(mysql_value \<times> bytes) option \<Rightarrow> bytes" where
  "cell_bytes_of c = (case c of None \<Rightarrow> [] | Some (x, xs) \<Rightarrow> xs)"

definition cell_value_of :: "(mysql_value \<times> bytes) option \<Rightarrow> mysql_value" where
  "cell_value_of c = (case c of None \<Rightarrow> V_null | Some (x, xs) \<Rightarrow> x)"

definition row_bytes :: "row_image \<Rightarrow> bytes" where
  "row_bytes r = fst r @ concat (map cell_bytes_of (snd r))"

definition row_values :: "row_image \<Rightarrow> mysql_value list" where
  "row_values r = map cell_value_of (snd r)"

definition row_form :: "table_info \<Rightarrow> row_image \<Rightarrow> bool" where
  "row_form ti r \<longleftrightarrow> mask_form (map (\<lambda>c. c = None) (snd r)) (fst r) \<and>
     list_all2 (\<lambda>ci c. case c of None \<Rightarrow> ci_nullable ci | Some (x, xs) \<Rightarrow> cell_form ci x xs) (ti_columns ti) (snd r)"

lemma read_row_data_decodes:
  assumes R: "string_reader_spec R v k" and r: "row_form ti r"
  shows "decodes v k (read_row_data R ti) (row_bytes r) (row_values r)"
proof -
  obtain m cs where rm: "r = (m, cs)" by (cases r)
  with r have m: "mask_form (map (\<lambda>c. c = None) cs) m"
    and cs: "list_all2 (\<lambda>ci c. case c of None \<Rightarrow> ci_nullable ci | Some (x, xs) \<Rightarrow> cell_form ci x xs) (ti_columns ti) cs"
    by (simp_all add: row_form_def)
  let ?f = "\<lambda>(ci, null). if null then (if \<not> ci_nullable ci then throwA (Runtime_error ''found null value in non-nullable column'') else retA V_null)
         else read_cell_data R ci"
  let ?nulls = "map (\<lambda>c. c = None) cs"
  have len: "length cs = length (ti_columns ti)" using cs by (simp add: list_all2_lengthD)
  have "list_all2 (\<lambda>x p. decodes v k (?f x) (fst p) (snd p)) (zip (ti_columns ti) ?nulls) (map (\<lambda>c. (cell_bytes_of c, cell_value_of c)) cs)"
  proof (rule list_all2_all_nthI)
    fix i assume "i < length (zip (ti_columns ti) ?nulls)"
    then have i: "i < length cs" "i < length (ti_columns ti)" by simp_all
    let ?ci = "ti_columns ti ! i" and ?c = "cs ! i"
    have c: "case ?c of None \<Rightarrow> ci_nullable ?ci | Some (x, xs) \<Rightarrow> cell_form ?ci x xs" using cs i by (auto simp: list_all2_conv_all_nth)
    show "decodes v k (?f (zip (ti_columns ti) ?nulls ! i)) (fst (map (\<lambda>c. (cell_bytes_of c, cell_value_of c)) cs ! i))
        (snd (map (\<lambda>c. (cell_bytes_of c, cell_value_of c)) cs ! i))"
    proof (cases ?c)
      case None
      with c i show ?thesis by (simp add: cell_bytes_of_def cell_value_of_def del: retA_apply) (rule decodes_ret)
    next
      case (Some p)
      with c i cell_decodes [OF R, of ?ci "fst p" "snd p"] show ?thesis by (simp add: cell_bytes_of_def cell_value_of_def split_beta)
    qed
  qed (simp add: len)
  from decodes_collect2 [OF this]
  have all: "decodes v k (collectA ?f (zip (ti_columns ti) ?nulls)) (concat (map cell_bytes_of cs)) (map cell_value_of cs)" by (simp add: comp_def)
  show ?thesis unfolding read_row_data_def row_bytes_def row_values_def rm fst_conv snd_conv
    by (rule decodes_step [OF mask_decodes [OF R m] refl], simp add: len,
        rule decodes_step [OF all append_Nil2 [symmetric]], subst if_not_P, simp add: len, rule decodes_ret)
qed

lemma read_image_decodes:
  assumes R: "string_reader_spec R v k" and r: "row_form ti r"
  shows "decodes v k (read_image R ti) (row_bytes r) (row_values r, length (row_bytes r))"
proof (rule decodesI)
  fix s ys assume s: "v s = row_bytes r @ ys"
  from decodesE [OF read_row_data_decodes [OF R r] s] obtain s' where s': "read_row_data R ti s = (Ret (row_values r), s')" "v s' = ys" "k s' = k s" .
  have "sr_where R s' - sr_where R s = length (row_bytes r)"
    using string_reader_laws(4,6) [OF R, of s] string_reader_laws(4,6) [OF R, of s'] s s' by simp
  with s' show "fst (read_image R ti s) = Ret (row_values r, length (row_bytes r)) \<and> v (snd (read_image R ti s)) = ys \<and> k (snd (read_image R ti s)) = k s"
    by (simp add: read_image_def bindA_def)
qed

text \<open>A change of a row, with its images before and after, as far as the kind of event records them.\<close>

definition change_bytes :: "write_type \<Rightarrow> bool \<Rightarrow> row_image \<times> row_image \<Rightarrow> bytes" where
  "change_bytes wt pre = (\<lambda>(a, b). case wt of W_INSERT \<Rightarrow> row_bytes b | W_UPDATE \<Rightarrow> (if pre then row_bytes a else []) @ row_bytes b | W_DELETE \<Rightarrow> row_bytes a)"

definition change_of :: "write_type \<Rightarrow> bool \<Rightarrow> row_image \<times> row_image \<Rightarrow> row_change" where
  "change_of wt pre = (\<lambda>(a, b).
     let before = (wt = W_DELETE \<or> wt = W_UPDATE \<and> pre); after = (wt \<noteq> W_DELETE) in
     \<lparr>rc_pre_bytes = (if before then length (row_bytes a) else 0), rc_post_bytes = (if after then length (row_bytes b) else 0),
      rc_pre = (if before then row_values a else []), rc_post = (if after then row_values b else [])\<rparr>)"

lemma read_row_change_decodes:
  assumes R: "string_reader_spec R v k" and "row_form ti a" "row_form ti b"
  shows "decodes v k (read_row_change R ti wt pre) (change_bytes wt pre (a, b)) (change_of wt pre (a, b))"
proof -
  note d = read_image_decodes [OF R assms(2)] read_image_decodes [OF R assms(3)]
  have up: "decodes v k (bindA (if pre then read_image R ti else retA ([], 0)) (\<lambda>(row, n). bindA (read_image R ti) (\<lambda>(row', n').
      retA \<lparr>rc_pre_bytes = n, rc_post_bytes = n', rc_pre = row, rc_post = row'\<rparr>)))
    ((if pre then row_bytes a else []) @ row_bytes b) (change_of W_UPDATE pre (a, b))"
  proof (rule decodes_step [OF _ refl])
    show "decodes v k (if pre then read_image R ti else retA ([], 0)) (if pre then row_bytes a else [])
        (if pre then (row_values a, length (row_bytes a)) else ([], 0))"
      by (cases pre) (simp_all add: d(1) decodes_ret del: retA_apply)
    show "decodes v k (case if pre then (row_values a, length (row_bytes a)) else ([], 0) of (row, n) \<Rightarrow>
        bindA (read_image R ti) (\<lambda>(row', n'). retA \<lparr>rc_pre_bytes = n, rc_post_bytes = n', rc_pre = row, rc_post = row'\<rparr>))
        (row_bytes b) (change_of W_UPDATE pre (a, b))"
      unfolding case_prod_unfold by (rule decodes_map [OF d(2)]) (simp add: change_of_def)
  qed
  show ?thesis
  proof (cases wt)
    case W_INSERT
    then show ?thesis unfolding read_row_change_def W_INSERT write_type.case change_bytes_def case_prod_unfold snd_conv fst_conv
      by (intro decodes_map [OF d(2)]) (simp add: change_of_def)
  next
    case W_DELETE
    then show ?thesis unfolding read_row_change_def W_DELETE write_type.case change_bytes_def case_prod_unfold snd_conv fst_conv
      by (intro decodes_map [OF d(1)]) (simp add: change_of_def)
  next
    case W_UPDATE
    with up show ?thesis by (simp add: read_row_change_def change_bytes_def)
  qed
qed

text \<open>A row of a table with columns takes at least the byte of its null mask.\<close>

lemma change_bytes_nonempty:
  assumes "row_form ti a" "row_form ti b" "ti_columns ti \<noteq> []"
  shows "change_bytes wt pre (a, b) \<noteq> []"
proof -
  have "fst r \<noteq> []" if "row_form ti r" for r
    using that assms(3) list_all2_lengthD [of _ "ti_columns ti" "snd r"] mask_form_nonempty [of "map (\<lambda>c. c = None) (snd r)" "fst r"] by (fastforce simp: row_form_def)
  from this [OF assms(1)] this [OF assms(2)] show ?thesis
    by (cases wt) (auto simp: change_bytes_def row_bytes_def)
qed

lemma rows_event_loop_parses:
  assumes R: "string_reader_spec R v k" and cols: "ti_columns ti \<noteq> []"
    and "\<forall>(a, b)\<in>set cs. row_form ti a \<and> row_form ti b" and "length cs \<le> fuel"
  shows "\<exists>s'. v s = concat (map (change_bytes wt pre) cs) \<longrightarrow>
    rows_event_loop fuel R ti wt pre rows s = (Ret (rows @ map (change_of wt pre) cs), s')"
  using assms(3,4)
proof (induction cs arbitrary: fuel rows s)
  case Nil
  then show ?case by (auto simp: rows_event_loop.simps bindA_def string_reader_laws(5) [OF R])
next
  case (Cons c cs)
  obtain a b where c: "c = (a, b)" by (cases c)
  with Cons.prems have ab: "row_form ti a" "row_form ti b" by auto
  obtain n where n: "fuel = Suc n" "length cs \<le> n" using Cons.prems(2) by (cases fuel) auto
  show ?case
  proof (cases "v s = concat (map (change_bytes wt pre) (c # cs))")
    case True
    then have s: "v s = change_bytes wt pre (a, b) @ concat (map (change_bytes wt pre) cs)" by (simp add: c)
    from decodesE [OF read_row_change_decodes [OF R ab] this] obtain s1
      where s1: "read_row_change R ti wt pre s = (Ret (change_of wt pre (a, b)), s1)" "v s1 = concat (map (change_bytes wt pre) cs)" .
    have "\<not> sr_eof R s" using s change_bytes_nonempty [OF ab cols] by (simp add: string_reader_laws(5) [OF R])
    then have step: "rows_event_loop fuel R ti wt pre rows s = rows_event_loop n R ti wt pre (rows @ [change_of wt pre (a, b)]) s1"
      using s1(1) by (simp add: n(1) rows_event_loop.simps [of "Suc n"] bindA_def)
    from Cons.IH [of n s1 "rows @ [change_of wt pre (a, b)]"] Cons.prems(1) n(2) s1(2) show ?thesis by (auto simp: step c)
  qed simp
qed

definition rows_payload :: "event_header \<Rightarrow> nat \<Rightarrow> u16 \<Rightarrow> bytes \<Rightarrow> nat \<Rightarrow> bytes list \<Rightarrow> bytes \<Rightarrow> bytes" where
  "rows_payload h i flags extra ncols masks body = header_bytes h @ le_bytes 6 i @ le_bytes 2 (unat flags) @
     (if is_v2 (eh_type h) then le_bytes 2 (length extra + 2) @ extra else []) @ varint_bytes (word_of_nat ncols) @ concat masks @ body"

definition rows_result :: "event_header \<Rightarrow> write_type \<Rightarrow> nat \<Rightarrow> table_info \<Rightarrow> u16 \<Rightarrow> bytes \<Rightarrow> (row_image \<times> row_image) list \<Rightarrow> rows_event" where
  "rows_result h wt i ti flags extra cs = \<lparr>re_header = h, re_write_type = wt, re_table_id = word_of_nat i, re_ti = ti, re_flags = flags,
     re_extra_data = (if is_v2 (eh_type h) then extra else []), re_rows = map (change_of wt (has_preimage (eh_type h))) cs\<rparr>"

lemma check_present_decodes:
  assumes R: "string_reader_spec R v k" and "mask_form (replicate n True) m"
  shows "decodes v k (check_present R n) m ()"
  unfolding check_present_def
  by (rule decodes_step [OF mask_decodes [OF R assms(2)] append_Nil2 [symmetric]]) (simp_all add: decodes_ret del: retA_apply)

lemma each_present_decodes:
  assumes R: "string_reader_spec R v k" and "\<forall>m\<in>set ms. mask_form (replicate n True) m" and "length xs = length ms"
  shows "decodes v k (eachA (\<lambda>_. check_present R n) xs) (concat ms) ()"
  using assms(3,2)
proof (induction xs ms rule: list_induct2)
  case (Cons x xs m ms)
  then have "decodes v k (seqA (check_present R n) (eachA (\<lambda>_. check_present R n) xs)) (m @ concat ms) ()"
    by (intro decodes_seq [OF check_present_decodes [OF R]]) simp_all
  then show ?case by simp
qed (simp add: decodes_ret del: retA_apply)

lemma extra_data_decodes:
  assumes R: "string_reader_spec R v k" and "length extra + 2 < 2 ^ 16"
  shows "decodes v k (bindA (sr_get_u16l R) (\<lambda>n. sr_read R (unat (ucast n - 2 :: u64)))) (le_bytes 2 (length extra + 2) @ extra) extra"
proof -
  let ?n = "word_of_nat (length extra + 2) :: u16"
  have n: "unat ?n = length extra + 2" using assms(2) by (simp only: unat_of_nat) simp
  have "ucast ?n = (word_of_nat (take_bit LENGTH(16) (length extra + 2)) :: u64)" by (simp only: unsigned_of_nat)
  also have "take_bit LENGTH(16) (length extra + 2) = length extra + 2" using assms(2) by (simp add: take_bit_nat_eq_self)
  finally have "ucast ?n = (word_of_nat (length extra + 2) :: u64)" .
  then have "ucast ?n - 2 = (word_of_nat (length extra) :: u64)" by simp
  moreover have "unat (word_of_nat (length extra) :: u64) = length extra" using assms(2) by (intro unat_of_length) simp
  ultimately have m: "unat (ucast ?n - 2 :: u64) = length extra" by simp
  show ?thesis
    by (rule decodes_step [OF sr_decodes(4) [OF R, of ?n, unfolded n] refl], rule sr_decodes(1) [OF R], simp only: m)
qed

text \<open>The part of a rows event before the rows, for whatever the loop over the rows then gives.\<close>

lemma rows_event_prefix:
  assumes R: "string_reader_spec R v k" and wt: "write_type_of (eh_type h) = Ret wt"
    and i: "i < 2 ^ 48" "i \<noteq> 0xFFFFFF" "tm (word_of_nat i) = Some ti"
    and extra: "length extra + 2 < 2 ^ 16" and cols: "length (ti_columns ti) < 2 ^ 64"
    and ms: "length ms = (if has_preimage (eh_type h) then 2 else 1)" "\<forall>m\<in>set ms. mask_form (replicate (length (ti_columns ti)) True) m"
    and body: "parses v (bindA (rows_event_loop fuel R ti wt (has_preimage (eh_type h)) []) (\<lambda>rows.
        retA \<lparr>re_header = h, re_write_type = wt, re_table_id = word_of_nat i, re_ti = ti, re_flags = flags,
           re_extra_data = (if is_v2 (eh_type h) then extra else []), re_rows = rows\<rparr>)) body r"
  shows "parses v (rows_event_body fuel R tm) (rows_payload h i flags extra (length (ti_columns ti)) ms body) r"
proof -
  let ?t = "eh_type h" and ?n = "length (ti_columns ti)"
  have "i < 2 ^ 64" using i(1) by simp
  then have "unat (word_of_nat i :: u64) = i" by (simp add: unat_of_nat)
  with i(2) have wi: "(word_of_nat i :: u64) \<noteq> 0xFFFFFF" by auto
  have un: "unat (word_of_nat ?n :: u64) = ?n" using cols by (rule unat_length)
  have tab: "table_map_at tm (word_of_nat i) = Ret ti" by (simp add: table_map_at_def i(3))
  have ext: "decodes v k (if is_v2 ?t then bindA (sr_get_u16l R) (\<lambda>n. sr_read R (unat (ucast n - 2 :: u64))) else retA [])
      (if is_v2 ?t then le_bytes 2 (length extra + 2) @ extra else []) (if is_v2 ?t then extra else [])"
    using extra_data_decodes [OF R extra] by (simp add: decodes_ret del: retA_apply le_bytes.simps)
  have len: "length [0..<1 + (if has_preimage ?t then 1 else 0)] = length ms" by (simp add: ms(1))
  show ?thesis unfolding rows_event_body_def rows_payload_def Let_def
    apply (rule parses_step [OF get_header_decodes [OF R] refl], unfold wt bindA_liftO)
    apply (rule parses_step [OF sr_decodes_odd(3) [OF R i(1)] refl])
    apply (subst if_not_P [OF wi], unfold tab bindA_liftO)
    apply (rule parses_step [OF sr_decodes(4) [OF R] refl])
    apply (rule parses_step [OF ext refl])
    apply (rule parses_step [OF get_varint_decodes [OF R] refl], unfold un)
    apply (subst if_not_P [OF not_not [THEN iffD2, OF refl]], unfold seqA_def)
    apply (rule parses_step [OF each_present_decodes [OF R ms(2) len] refl])
    apply (rule body)
    done
qed

lemma rows_event_body_parses:
  assumes R: "string_reader_spec R v k" and "write_type_of (eh_type h) = Ret wt"
    and "i < 2 ^ 48" "i \<noteq> 0xFFFFFF" "tm (word_of_nat i) = Some ti"
    and "length extra + 2 < 2 ^ 16" and "length (ti_columns ti) < 2 ^ 64"
    and "length ms = (if has_preimage (eh_type h) then 2 else 1)" "\<forall>m\<in>set ms. mask_form (replicate (length (ti_columns ti)) True) m"
    and cols: "ti_columns ti \<noteq> []" and cs: "\<forall>(a, b)\<in>set cs. row_form ti a \<and> row_form ti b" "length cs \<le> fuel"
  shows "parses v (rows_event_body fuel R tm)
    (rows_payload h i flags extra (length (ti_columns ti)) ms (concat (map (change_bytes wt (has_preimage (eh_type h))) cs)))
    (Ret (rows_result h wt i ti flags extra cs))"
proof (rule rows_event_prefix [where tm = tm, OF assms(1-9)])
  let ?t = "eh_type h"
  show "parses v (bindA (rows_event_loop fuel R ti wt (has_preimage ?t) []) (\<lambda>rows.
        retA \<lparr>re_header = h, re_write_type = wt, re_table_id = word_of_nat i, re_ti = ti, re_flags = flags,
           re_extra_data = (if is_v2 ?t then extra else []), re_rows = rows\<rparr>)) (concat (map (change_bytes wt (has_preimage ?t)) cs))
      (Ret (rows_result h wt i ti flags extra cs))"
    unfolding parses_def
  proof (intro allI impI)
    fix s assume "v s = concat (map (change_bytes wt (has_preimage ?t)) cs)"
    with rows_event_loop_parses [OF R cols cs, of s wt "has_preimage ?t" "[]"]
    obtain s' where "rows_event_loop fuel R ti wt (has_preimage ?t) [] s = (Ret (map (change_of wt (has_preimage ?t)) cs), s')" by auto
    then show "fst (bindA (rows_event_loop fuel R ti wt (has_preimage ?t) []) (\<lambda>rows. retA \<lparr>re_header = h, re_write_type = wt,
        re_table_id = word_of_nat i, re_ti = ti, re_flags = flags, re_extra_data = (if is_v2 ?t then extra else []), re_rows = rows\<rparr>) s) =
        Ret (rows_result h wt i ti flags extra cs)" by (simp add: bindA_def rows_result_def)
  qed
qed

section \<open>Table map events\<close>

definition column_ok :: "column_info \<Rightarrow> bool" where
  "column_ok c \<longleftrightarrow> metadata_bytes_for_column_type (ci_type c) = Ret (length (ci_type_meta c))"

definition column_metas :: "table_info \<Rightarrow> bytes" where
  "column_metas ti = concat (map ci_type_meta (ti_columns ti))"

text \<open>The bytes \<open>z1\<close>, \<open>z2\<close> are skipped, and so is whatever follows the nullability mask.\<close>

definition table_map_payload :: "event_header \<Rightarrow> nat \<Rightarrow> u16 \<Rightarrow> table_info \<Rightarrow> byte \<Rightarrow> byte \<Rightarrow> bytes \<Rightarrow> bytes \<Rightarrow> bytes" where
  "table_map_payload h i flags ti z1 z2 nulls rest = header_bytes h @ le_bytes 6 i @ le_bytes 2 (unat flags) @
     ([word_of_nat (length (ti_database_name ti))] @ ti_database_name ti) @ [z1] @
     ([word_of_nat (length (ti_table_name ti))] @ ti_table_name ti) @ [z2] @
     varint_bytes (word_of_nat (length (ti_columns ti))) @ map ci_type (ti_columns ti) @
     (varint_bytes (word_of_nat (length (column_metas ti))) @ column_metas ti) @ nulls @ rest"

lemma read_columns_parses:
  assumes R: "string_reader_spec R v k" and "\<forall>c\<in>set cs. column_ok c"
  shows "parses v (read_columns R (map ci_type cs) (map ci_nullable cs)) (concat (map ci_type_meta cs)) (Ret cs)"
proof -
  let ?f = "\<lambda>(t, n). bindA (liftO (metadata_bytes_for_column_type t)) (\<lambda>k. bindA (sr_read R k) (\<lambda>d.
         retA \<lparr>ci_type = t, ci_type_meta = d, ci_nullable = n\<rparr>))"
  have "decodes v k (?f (ci_type c, ci_nullable c)) (ci_type_meta c) c" if "c \<in> set cs" for c
    unfolding split_conv using assms(2) that
    by (auto simp: column_ok_def intro!: decodes_map [OF sr_decodes(1) [OF R]])
  then have "list_all2 (\<lambda>x p. decodes v k (?f x) (fst p) (snd p)) (zip (map ci_type cs) (map ci_nullable cs)) (map (\<lambda>c. (ci_type_meta c, c)) cs)"
    by (simp add: list_all2_conv_all_nth)
  from decodes_collect2 [OF this]
  have all: "decodes v k (collectA ?f (zip (map ci_type cs) (map ci_nullable cs))) (concat (map ci_type_meta cs)) cs" by (simp add: comp_def)
  have "parses v (bindA (getsA (sr_eof R)) (\<lambda>e. if \<not> e then throwA (Runtime_error ''not all column type_meta was parsed'') else retA cs)) [] (Ret cs)"
    by (simp add: parses_def bindA_def string_reader_laws(5) [OF R])
  then show ?thesis unfolding read_columns_def by (rule parses_step [OF all append_Nil2 [symmetric]])
qed

lemma read_types_decodes:
  assumes R: "string_reader_spec R v k"
  shows "length ts = n \<Longrightarrow> decodes v k (collectA (\<lambda>_. sr_get_u8 R) [0..<n]) ts ts"
proof -
  assume n: "length ts = n"
  have "list_all2 (\<lambda>x p. decodes v k (sr_get_u8 R) (fst p) (snd p)) [0..<n] (map (\<lambda>t. ([t], t)) ts)"
    using sr_decodes(3) [OF R] by (simp add: list_all2_conv_all_nth n)
  from decodes_collect2 [OF this] show ?thesis by (simp add: comp_def)
qed

lemma table_map_body_parses:
  assumes R: "string_reader_spec R v k" and h: "eh_type h = event_code TABLE_MAP_EVENT" and i: "i < 2 ^ 48"
    and names: "length (ti_database_name ti) < 2 ^ 8" "length (ti_table_name ti) < 2 ^ 8"
    and cols: "length (ti_columns ti) < 2 ^ 64" "length (column_metas ti) < 2 ^ 64" "\<forall>c\<in>set (ti_columns ti). column_ok c"
    and nm: "mask_form (map ci_nullable (ti_columns ti)) nulls"
  shows "parses v (table_map_body R) (table_map_payload h i flags ti z1 z2 nulls rest)
    (Ret (\<lparr>tm_header = h, tm_table_id = word_of_nat i, tm_flags = flags, tm_ti = None\<rparr>, ti))"
proof -
  let ?cs = "ti_columns ti"
  have un: "unat (word_of_nat (length ?cs) :: u64) = length ?cs" using cols(1) by (rule unat_length)
  have metas: "parse_with R (read_columns R (map ci_type ?cs) (map ci_nullable ?cs)) (column_metas ti) = Ret ?cs"
    unfolding column_metas_def by (rule parse_with_parses [OF R read_columns_parses [OF R cols(3)]])
  have nulls': "decodes v k (ProtocolStringReader_get_bitmask R (length ?cs)) nulls (map ci_nullable ?cs)"
    by (rule mask_decodes [OF R nm]) simp
  have types: "decodes v k (collectA (\<lambda>_. sr_get_u8 R) [0..<length ?cs]) (map ci_type ?cs) (map ci_type ?cs)"
    by (rule read_types_decodes [OF R]) simp
  have skip: "decodes v k (sr_skip R 1) [z] ()" for z by (rule sr_decodes(12) [OF R]) simp
  have ret: "\<lparr>ti_database_name = ti_database_name ti, ti_table_name = ti_table_name ti, ti_columns = ?cs\<rparr> = ti" by simp
  show ?thesis unfolding table_map_body_def table_map_payload_def
    apply (rule parses_step [OF header_typed_decodes [OF R h] refl])
    apply (rule parses_step [OF sr_decodes_odd(3) [OF R i] refl])
    apply (rule parses_step [OF sr_decodes(4) [OF R] refl])
    apply (rule parses_step [OF sized_decodes(1) [OF R names(1)] refl], rule parses_step [OF skip refl])
    apply (rule parses_step [OF sized_decodes(1) [OF R names(2)] refl], rule parses_step [OF skip refl])
    apply (rule parses_step [OF get_varint_decodes [OF R] refl], unfold un)
    apply (rule parses_step [OF types refl])
    apply (rule parses_step [OF get_var_string_decodes [OF R cols(2)] refl])
    apply (rule parses_step [OF nulls' refl], unfold metas bindA_liftO ret)
    apply (rule parses_retA)
    done
qed

section \<open>Properties\<close>

text \<open>A TABLE_MAP event.  For any table whose column metadata has the sizes the types ask for, the
  parser returns the event with its table id and flags, records the table under that id, replacing
  what was there, and moves to the end position of the header; bytes after the nullability mask
  and the padding bits of the mask do not matter.  The pointer to the table in the returned event
  stays null.\<close>

theorem table_map_event_parsed:
  assumes "string_reader_spec R v k" and "eh_type h = event_code TABLE_MAP_EVENT" and "i < 2 ^ 48"
    and "length (ti_database_name ti) < 2 ^ 8" and "length (ti_table_name ti) < 2 ^ 8"
    and "length (ti_columns ti) < 2 ^ 64" and "length (column_metas ti) < 2 ^ 64" and "\<forall>c\<in>set (ti_columns ti). column_ok c"
    and "mask_form (map ci_nullable (ti_columns ti)) nulls"
  shows "parse_table_map_event R (table_map_payload h i flags ti z1 z2 nulls rest) s =
    (Ret \<lparr>tm_header = h, tm_table_id = word_of_nat i, tm_flags = flags, tm_ti = None\<rparr>,
     s\<lparr>bp_table_map := (bp_table_map s)(word_of_nat i \<mapsto> ti), bp_position := ucast (eh_end_position h)\<rparr>)"
  using parse_with_parses [OF assms(1) table_map_body_parses [OF assms]]
  by (simp add: parse_table_map_event_def set_position_def seqA_def bindA_def)

lemma rows_event_run:
  assumes "string_reader_spec R v k" and "write_type_of (eh_type h) = Ret wt"
    and "i < 2 ^ 48" and "i \<noteq> 0xFFFFFF" and "bp_table_map s (word_of_nat i) = Some ti"
    and "length extra + 2 < 2 ^ 16" and "length (ti_columns ti) < 2 ^ 64"
    and "length ms = (if has_preimage (eh_type h) then 2 else 1)" and "\<forall>m\<in>set ms. mask_form (replicate (length (ti_columns ti)) True) m"
    and "ti_columns ti \<noteq> []" and "\<forall>(a, b)\<in>set cs. row_form ti a \<and> row_form ti b" and "length cs \<le> fuel"
  shows "parse_rows_event fuel R (rows_payload h i flags extra (length (ti_columns ti)) ms
      (concat (map (change_bytes wt (has_preimage (eh_type h))) cs))) s =
    (Ret (rows_result h wt i ti flags extra cs), s\<lparr>bp_position := ucast (eh_end_position h)\<rparr>)"
  using parse_with_parses [OF assms(1) rows_event_body_parses [where tm = "bp_table_map s", OF assms]]
  by (simp add: parse_rows_event_def set_position_def seqA_def bindA_def rows_result_def)


definition example_header :: "binlog_event_type \<Rightarrow> event_header" where
  "example_header t = \<lparr>eh_timestamp = 1, eh_type = event_code t, eh_server_id = 2, eh_length = 0, eh_end_position = 700, eh_flags = 0\<rparr>"

definition example_table :: table_info where
  "example_table = \<lparr>ti_database_name = ascii ''d'', ti_table_name = ascii ''t'',
     ti_columns = [\<lparr>ci_type = column_type_code T_SMALLINT, ci_type_meta = [], ci_nullable = False\<rparr>,
                   \<lparr>ci_type = column_type_code T_VARCHAR, ci_type_meta = [20, 0], ci_nullable = True\<rparr>]\<rparr>"

text \<open>A row with both cells, whose null mask has its unused bits set, and a row with a NULL.\<close>

definition example_rows :: "(row_image \<times> row_image) list" where
  "example_rows = [(([0xFC], [Some (V_uint (ucast (7 :: u16)), le_bytes 2 (unat (7 :: u16))), Some (V_string [65], sized 1 [65])]),
                    ([0xFE], [Some (V_uint (ucast (8 :: u16)), le_bytes 2 (unat (8 :: u16))), None]))]"

lemma less_2_cases: "i < Suc (Suc 0) \<Longrightarrow> i = 0 \<or> i = Suc 0"
  by linarith

theorem table_map_event_parsed_witness:
  "parse_table_map_event sr_list (table_map_payload (example_header TABLE_MAP_EVENT) 9 1 example_table 0 0 [2] [5, 5]) BinlogProcessor_new =
    (Ret \<lparr>tm_header = example_header TABLE_MAP_EVENT, tm_table_id = word_of_nat 9, tm_flags = 1, tm_ti = None\<rparr>,
     BinlogProcessor_new\<lparr>bp_table_map := (bp_table_map BinlogProcessor_new)(word_of_nat 9 \<mapsto> example_table),
       bp_position := ucast (eh_end_position (example_header TABLE_MAP_EVENT))\<rparr>)"
proof (rule table_map_event_parsed [OF sr_list_spec])
  show "\<forall>c\<in>set (ti_columns example_table). column_ok c"
    by (simp add: example_table_def column_ok_def metadata_bytes_for_column_type_def del: column_type_code.simps)
  show "mask_form (map ci_nullable (ti_columns example_table)) [2]"
    by (auto simp: example_table_def mask_form_def bit_iff_odd dest!: less_2_cases)
qed (simp_all add: example_header_def example_table_def column_metas_def ascii_def)

lemma example_rows_ok: "\<forall>(a, b)\<in>set example_rows. row_form example_table a \<and> row_form example_table b"
proof -
  have c: "cell_form \<lparr>ci_type = column_type_code T_SMALLINT, ci_type_meta = [], ci_nullable = False\<rparr> (V_uint (ucast (x :: u16))) (le_bytes 2 (unat x))" for x
    by (rule cell_form.smallint) (simp del: column_type_code.simps)
  have s: "cell_form \<lparr>ci_type = column_type_code T_VARCHAR, ci_type_meta = [20, 0], ci_nullable = True\<rparr> (V_string [65]) (sized 1 [65])"
    by (rule cell_form.varchar [where w = 1]) (simp_all del: column_type_code.simps)
  show ?thesis
    unfolding example_rows_def row_form_def example_table_def using c [of 7] c [of 8] s
    by (auto simp: mask_form_def bit_iff_odd simp del: column_type_code.simps le_bytes.simps dest!: less_2_cases)
qed

lemma example_masks:
  "\<forall>m\<in>set [[0xFF], [3]]. mask_form (replicate (length (ti_columns example_table)) True) m"
  "mask_form (map ci_nullable (ti_columns example_table)) [2]"
  by (auto simp: example_table_def mask_form_def bit_iff_odd dest!: less_2_cases)

lemmas example_event_simps = example_header_def example_table_def example_rows_def write_type_of_def has_preimage_def

definition example_rows_event :: bytes where
  "example_rows_event = rows_payload (example_header UPDATE_ROWS_EVENTv2) 9 0 [] (length (ti_columns example_table)) [[0xFF], [3]]
     (concat (map (change_bytes W_UPDATE (has_preimage (eh_type (example_header UPDATE_ROWS_EVENTv2)))) example_rows))"

definition example_processor :: binlog_processor where
  "example_processor = BinlogProcessor_new\<lparr>bp_table_map := [word_of_nat 9 \<mapsto> example_table]\<rparr>"


text \<open>The bytes of the other events.\<close>

definition query_payload :: "query_event \<Rightarrow> byte \<Rightarrow> bytes" where
  "query_payload q z = header_bytes (qe_header q) @ le_bytes 4 (unat (qe_conn_id q)) @ le_bytes 4 (unat (qe_exec_time_secs q)) @
     [word_of_nat (length (qe_database_name q))] @ le_bytes 2 (unat (qe_error_code q)) @
     (le_bytes 2 (length (qe_status_vars q)) @ qe_status_vars q) @ qe_database_name q @ [z] @ qe_query q"

definition rotate_payload :: "rotate_event \<Rightarrow> bytes" where
  "rotate_payload r = header_bytes (ro_header r) @ le_bytes 8 (unat (ro_next_position r)) @ ro_next_filename r"

definition xid_payload :: "xid_event \<Rightarrow> bytes \<Rightarrow> bytes" where
  "xid_payload x rest = header_bytes (xe_header x) @ le_bytes 8 (unat (xe_xid x)) @ rest"

lemma query_event_body_parses:
  assumes R: "string_reader_spec R v k" and h: "eh_type (qe_header q) = event_code QUERY_EVENT"
    and len: "length (qe_database_name q) < 2 ^ 8" "length (qe_status_vars q) < 2 ^ 16"
  shows "parses v (query_event_body R) (query_payload q z) (Ret q)"
proof -
  have db: "decodes v k (sr_read R (unat (word_of_nat (length (qe_database_name q)) :: u8))) (qe_database_name q) (qe_database_name q)"
    by (rule sr_decodes(1) [OF R]) (use len(1) in \<open>simp add: unat_of_nat\<close>)
  have skip: "decodes v k (sr_skip R 1) [z] ()" by (rule sr_decodes(12) [OF R]) simp
  show ?thesis unfolding query_event_body_def query_payload_def
    apply (rule parses_step [OF header_typed_decodes [OF R h] refl])
    apply (rule parses_step [OF sr_decodes(6) [OF R] refl], rule parses_step [OF sr_decodes(6) [OF R] refl])
    apply (rule parses_step [OF sr_decodes(3) [OF R] refl], rule parses_step [OF sr_decodes(4) [OF R] refl])
    apply (rule parses_step [OF sized_decodes(2) [OF R len(2)] refl])
    apply (rule parses_step [OF db refl], rule parses_step [OF skip refl], rule parses_eof [OF R])
    apply (simp add: parses_def)
    done
qed

lemma rotate_event_body_parses:
  assumes R: "string_reader_spec R v k" and h: "eh_type (ro_header r) = event_code ROTATE_EVENT"
  shows "parses v (rotate_event_body R) (rotate_payload r) (Ret r)"
  unfolding rotate_event_body_def rotate_payload_def
  by (rule parses_step [OF header_typed_decodes [OF R h] refl], rule parses_step [OF sr_decodes(8) [OF R] refl], rule parses_eof [OF R])
    (simp add: parses_def)

lemma xid_event_body_parses:
  assumes R: "string_reader_spec R v k" and h: "eh_type (xe_header x) = event_code XID_EVENT"
  shows "parses v (xid_event_body R) (xid_payload x rest) (Ret x)"
  unfolding xid_event_body_def xid_payload_def
  by (rule parses_step [OF header_typed_decodes [OF R h] refl], rule parses_step [OF sr_decodes(8) [OF R] refl]) (simp add: parses_def)

lemma log_event_runs:
  assumes "string_reader_spec R v k"
  shows "eh_type (qe_header q) = event_code QUERY_EVENT \<Longrightarrow> length (qe_database_name q) < 2 ^ 8 \<Longrightarrow> length (qe_status_vars q) < 2 ^ 16 \<Longrightarrow>
      parse_query_event R (query_payload q z) s = (Ret q, s\<lparr>bp_position := ucast (eh_end_position (qe_header q))\<rparr>)"
    and "eh_type (ro_header r) = event_code ROTATE_EVENT \<Longrightarrow>
      parse_rotate_event R (rotate_payload r) s = (Ret r, s\<lparr>bp_filename := ro_next_filename r, bp_position := ro_next_position r\<rparr>)"
    and "eh_type (xe_header x) = event_code XID_EVENT \<Longrightarrow>
      parse_xid_event R (xid_payload x rest) s = (Ret x, s\<lparr>bp_position := ucast (eh_end_position (xe_header x))\<rparr>)"
  using parse_with_parses [OF assms query_event_body_parses [OF assms]] parse_with_parses [OF assms rotate_event_body_parses [OF assms]]
    parse_with_parses [OF assms xid_event_body_parses [OF assms]]
  by (simp_all add: parse_query_event_def parse_rotate_event_def parse_xid_event_def set_position_def seqA_def bindA_def)

text \<open>QUERY, ROTATE and XID events are read back exactly.  A QUERY event and an XID event move the
  processor to the end position of their header; a ROTATE event moves it to the file and position
  it names.\<close>

theorem log_events_parsed:
  assumes "string_reader_spec R v k"
    and "eh_type (qe_header q) = event_code QUERY_EVENT" and "length (qe_database_name q) < 2 ^ 8" and "length (qe_status_vars q) < 2 ^ 16"
    and "eh_type (ro_header r) = event_code ROTATE_EVENT" and "eh_type (xe_header x) = event_code XID_EVENT"
  shows "parse_query_event R (query_payload q z) s = (Ret q, s\<lparr>bp_position := ucast (eh_end_position (qe_header q))\<rparr>) \<and>
    parse_rotate_event R (rotate_payload r) s = (Ret r, s\<lparr>bp_filename := ro_next_filename r, bp_position := ro_next_position r\<rparr>) \<and>
    parse_xid_event R (xid_payload x rest) s = (Ret x, s\<lparr>bp_position := ucast (eh_end_position (xe_header x))\<rparr>)"
  using log_event_runs [OF assms(1)] assms(2-6) by blast

theorem log_events_parsed_witness:
  "parse_rotate_event sr_list (rotate_payload \<lparr>ro_header = example_header ROTATE_EVENT, ro_next_filename = [98], ro_next_position = 4\<rparr>) BinlogProcessor_new =
    (Ret \<lparr>ro_header = example_header ROTATE_EVENT, ro_next_filename = [98], ro_next_position = 4\<rparr>,
     BinlogProcessor_new\<lparr>bp_filename := [98], bp_position := 4\<rparr>)"
  using log_events_parsed [OF sr_list_spec, of
      "\<lparr>qe_header = example_header QUERY_EVENT, qe_conn_id = 0, qe_exec_time_secs = 0, qe_database_name = [], qe_error_code = 0,
        qe_status_vars = [], qe_query = []\<rparr>"
      "\<lparr>ro_header = example_header ROTATE_EVENT, ro_next_filename = [98], ro_next_position = 4\<rparr>"
      "\<lparr>xe_header = example_header XID_EVENT, xe_xid = 0\<rparr>" 0 BinlogProcessor_new]
  by (simp add: example_header_def)

text \<open>A FORMAT_DESCRIPTION event of version 4 with the expected header length is accepted exactly when
  its table of header lengths agrees with the expected one as far as both go; otherwise the
  processor is left as it was.  The type in the event's header plays no part: any event with these
  contents is accepted.\<close>

theorem format_description_checked:
  assumes "string_reader_spec R v k" and "length ver = 50"
  shows "parse_format_description_event R (header_bytes h @ le_bytes 2 4 @ ver @ le_bytes 4 (unat ts) @ [0x13] @ lens) s =
    (if header_lengths_match lens
     then (Ret \<lparr>fd_header = h, fd_version = 4, fd_server_version = takeWhile (\<lambda>b. b \<noteq> 0) ver, fd_timestamp = ts, fd_header_length = 0x13,
        fd_event_header_lengths = lens\<rparr>, s\<lparr>bp_position := ucast (eh_end_position h)\<rparr>)
     else (Throw (Runtime_error ''header lengths in FORMAT_DESCRIPTION_EVENT do not match expectations''), s))"
proof -
  let ?r = "if header_lengths_match lens
     then Ret \<lparr>fd_header = h, fd_version = 4, fd_server_version = takeWhile (\<lambda>b. b \<noteq> 0) ver, fd_timestamp = ts, fd_header_length = 0x13,
        fd_event_header_lengths = lens\<rparr>
     else Throw (Runtime_error ''header lengths in FORMAT_DESCRIPTION_EVENT do not match expectations'')"
  have four: "decodes v k (sr_get_u16l R) (le_bytes 2 4) 4" using sr_decodes(4) [OF assms(1), of 4] by simp
  have "parses v (format_description_body R) (header_bytes h @ le_bytes 2 4 @ ver @ le_bytes 4 (unat ts) @ [0x13] @ lens) ?r"
    unfolding format_description_body_def Let_def
    apply (rule parses_step [OF get_header_decodes [OF assms(1)] refl])
    apply (rule parses_step [OF four refl], subst if_not_P [OF not_not [THEN iffD2, OF refl]])
    apply (rule parses_step [OF sr_decodes(1) [OF assms(1,2)] refl])
    apply (rule parses_step [OF sr_decodes(6) [OF assms(1)] refl], rule parses_step [OF sr_decodes(3) [OF assms(1)] refl])
    apply (subst if_not_P [OF not_not [THEN iffD2, OF refl]], rule parses_eof [OF assms(1)])
    apply (simp add: parses_def)
    done
  from parse_with_parses [OF assms(1) this] show ?thesis
    by (simp add: parse_format_description_event_def set_position_def seqA_def bindA_def)
qed

theorem format_description_checked_witness:
  "fst (parse_format_description_event sr_list (header_bytes (example_header STOP_EVENT) @ le_bytes 2 4 @ replicate 50 0 @
      le_bytes 4 (unat (0 :: u32)) @ [0x13] @ [0, 13]) BinlogProcessor_new) =
    Ret \<lparr>fd_header = example_header STOP_EVENT, fd_version = 4, fd_server_version = [], fd_timestamp = 0, fd_header_length = 0x13,
      fd_event_header_lengths = [0, 13]\<rparr>"
proof -
  have "takeWhile (\<lambda>b. b \<noteq> 0) (replicate 50 (0 :: byte)) = []" by (simp add: takeWhile_eq_Nil_iff)
  moreover have "header_lengths_match [0, 13]" by (simp add: header_lengths_match_def expected_header_lengths_def)
  ultimately show ?thesis
    using format_description_checked [OF sr_list_spec, of "replicate 50 0" "example_header STOP_EVENT" 0 "[0, 13]" BinlogProcessor_new] by simp
qed

section \<open>Packed dates: what comes back\<close>

lemma unat_ucast_and: "unat (ucast (x AND mask n :: 'a::len word) :: 'b::len word) < 2 ^ n"
proof -
  have "unat (x AND mask n :: 'a word) < 2 ^ n" by (simp add: unsigned_take_bit_eq flip: take_bit_eq_mask)
  moreover have "unat (ucast y :: 'b word) \<le> unat y" for y :: "'a word"
    by (simp add: unsigned_ucast_eq unsigned_take_bit_eq)
  ultimately show ?thesis by (rule le_less_trans [rotated])
qed


text \<open>A DATETIME2 value with a month comes back exactly; a value with month 0, which the server allows,
  comes back with the year before.\<close>

theorem datetime2_month_zero:
  assumes "y * 13 + mo < 2 ^ 17" and "0 < y * 13 + mo" and "mo \<le> 12" and "d < 32" and "h < 32" and "mi < 64" and "s < 64"
  shows "datetime2_fields (word_of_nat (datetime2_code y mo d h mi s)) u = datetime_of (if mo = 0 then y - 1 else y) mo d h mi s u"
proof -
  have "(y * 13 + mo - 1) div 13 = (if mo = 0 then y - 1 else y)"
  proof (cases mo)
    case 0
    with assms(2) obtain y' where "y = Suc y'" by (cases y) auto
    then have "y * 13 + mo - 1 = y' * 13 + 12" using 0 by simp
    with 0 \<open>y = Suc y'\<close> show ?thesis using field_split(1) [of 12 13 y'] by simp
  next
    case (Suc m)
    then have "y * 13 + mo - 1 = y * 13 + m" by simp
    with Suc assms(3) show ?thesis using field_split(1) [of m 13 y] by simp
  qed
  moreover have "(y * 13 + mo) mod 13 = mo" using assms(3) field_split(2) [of mo 13 y] by simp
  ultimately show ?thesis using datetime2_fields_code [OF assms(1,2,4-7), of u] by simp
qed

theorem datetime2_month_zero_witness:
  "datetime2_fields (word_of_nat (datetime2_code 2023 0 0 0 0 0)) 0 = datetime_of 2022 0 0 0 0 0 0"
  using datetime2_month_zero [of 2023 0 0 0 0 0 0] by simp

section \<open>The loop over the rows of a table without columns\<close>

lemma no_columns_loop:
  assumes R: "string_reader_spec R v k" and "ti_columns ti = []" and "v s \<noteq> []"
  shows "fst (rows_event_loop fuel R ti wt pre rows s) = Throw Out_of_fuel"
  using assms(3)
proof (induction fuel arbitrary: rows s)
  case 0
  then show ?case by (simp add: rows_event_loop.simps bindA_def string_reader_laws(5) [OF R])
next
  case (Suc n)
  let ?e = "([], []) :: row_image"
  have e: "row_form ti ?e" by (simp add: row_form_def mask_form_def assms(2))
  have "change_bytes wt pre (?e, ?e) = []" by (cases wt) (simp_all add: change_bytes_def row_bytes_def)
  then have "v s = change_bytes wt pre (?e, ?e) @ v s" by simp
  from decodesE [OF read_row_change_decodes [OF R e e] this] obtain s1 rc where
    "read_row_change R ti wt pre s = (Ret rc, s1)" "v s1 = v s" by metis
  with Suc.IH [of s1 "rows @ [rc]"] Suc.prems show ?case
    by (simp add: rows_event_loop.simps [of "Suc n"] bindA_def string_reader_laws(5) [OF R])
qed

text \<open>A rows event for a table that was announced without columns and with any byte after its header
  fields keeps the parser busy for ever: each turn of the loop reads an empty row and no byte.\<close>

theorem no_columns_never_end:
  assumes "string_reader_spec R v k" and "write_type_of (eh_type h) = Ret wt"
    and "i < 2 ^ 48" and "i \<noteq> 0xFFFFFF" and "bp_table_map s (word_of_nat i) = Some ti" and "ti_columns ti = []"
    and "length extra + 2 < 2 ^ 16" and "body \<noteq> []"
  shows "\<forall>fuel. parse_rows_event fuel R (rows_payload h i flags extra 0 [] body) s = (Throw Out_of_fuel, s)"
proof
  fix fuel
  let ?ms = "if has_preimage (eh_type h) then [[], []] else [[]] :: bytes list"
  have "parses v (bindA (rows_event_loop fuel R ti wt (has_preimage (eh_type h)) []) f) body (Throw Out_of_fuel)"
    for f :: "row_change list \<Rightarrow> ('a, rows_event) act"
    unfolding parses_def
  proof (intro allI impI)
    fix r assume "v r = body"
    with no_columns_loop [OF assms(1,6), of r fuel wt "has_preimage (eh_type h)" "[]"] assms(8)
    show "fst (bindA (rows_event_loop fuel R ti wt (has_preimage (eh_type h)) []) f r) = Throw Out_of_fuel"
      by (auto simp: bindA_def split: prod.splits)
  qed
  then have "parses v (rows_event_body fuel R (bp_table_map s)) (rows_payload h i flags extra (length (ti_columns ti)) ?ms body) (Throw Out_of_fuel)"
    by (intro rows_event_prefix [where tm = "bp_table_map s" and ti = ti, OF assms(1-5,7)]) (simp_all add: assms(6) mask_form_def)
  moreover have "rows_payload h i flags extra (length (ti_columns ti)) ?ms body = rows_payload h i flags extra 0 [] body"
    by (simp add: rows_payload_def assms(6))
  ultimately have "parse_with R (rows_event_body fuel R (bp_table_map s)) (rows_payload h i flags extra 0 [] body) = Throw Out_of_fuel"
    using parse_with_parses [OF assms(1)] by metis
  then show "parse_rows_event fuel R (rows_payload h i flags extra 0 [] body) s = (Throw Out_of_fuel, s)"
    by (simp add: parse_rows_event_def bindA_def)
qed

theorem no_columns_never_end_witness:
  "parse_rows_event 1000 sr_list (rows_payload (example_header WRITE_ROWS_EVENTv1) 9 0 [] 0 [] [1])
      (BinlogProcessor_new\<lparr>bp_table_map := [word_of_nat 9 \<mapsto> \<lparr>ti_database_name = [], ti_table_name = [], ti_columns = []\<rparr>]\<rparr>) =
    (Throw Out_of_fuel,
      BinlogProcessor_new\<lparr>bp_table_map := [word_of_nat 9 \<mapsto> \<lparr>ti_database_name = [], ti_table_name = [], ti_columns = []\<rparr>]\<rparr>)"
  by (rule no_columns_never_end [OF sr_list_spec, where wt = W_INSERT and
      ti = "\<lparr>ti_database_name = [], ti_table_name = [], ti_columns = []\<rparr>", THEN spec])
    (simp_all add: example_header_def write_type_of_def)

section \<open>The invariant of a processor\<close>

text \<open>Tables whose columns all have a type with metadata of a known size.\<close>

definition table_ok :: "table_info \<Rightarrow> bool" where
  "table_ok ti \<longleftrightarrow> (\<forall>c\<in>set (ti_columns ti). \<exists>n. metadata_bytes_for_column_type (ci_type c) = Ret n)"

definition processor_ok :: "binlog_processor \<Rightarrow> bool" where
  "processor_ok s \<longleftrightarrow> (\<forall>ti\<in>ran (bp_table_map s). table_ok ti)"

text \<open>
  What every operation of the processor promises: an exception changes nothing, and a table map
  is at most extended by a table that is well formed.
\<close>

locale event_operation =
  fixes parse :: "bytes \<Rightarrow> (binlog_processor, 'ev) act"
  assumes throw_keeps: "(\<forall>x. fst (parse d s) \<noteq> Ret x) \<Longrightarrow> snd (parse d s) = s"
    and tables: "bp_table_map (snd (parse d s)) = bp_table_map s \<or>
      (\<exists>i ti. table_ok ti \<and> bp_table_map (snd (parse d s)) = (bp_table_map s)(i \<mapsto> ti))"
begin

lemma keeps_ok: "processor_ok s \<Longrightarrow> processor_ok (snd (parse d s))"
  using tables [of d s] by (auto simp: processor_ok_def ran_def split: if_splits) blast+

lemma keeps_tables: "bp_table_map s i \<noteq> None \<Longrightarrow> bp_table_map (snd (parse d s)) i \<noteq> None"
  using tables [of d s] by (auto split: if_splits)

end

lemma collectA_all:
  assumes "\<And>p s c s'. f p s = (Ret c, s') \<Longrightarrow> Q c" and "collectA f ps s = (Ret cs, s')"
  shows "\<forall>c\<in>set cs. Q c"
  using assms(2)
proof (induction ps arbitrary: s cs)
  case (Cons p ps)
  from Cons.prems obtain y s1 where 1: "f p s = (Ret y, s1)" "bindA (collectA f ps) (\<lambda>ys. retA (y # ys)) s1 = (Ret cs, s')"
    unfolding collectA.simps by (rule bindA_RetE)
  from 1(2) obtain ys s2 where 2: "collectA f ps s1 = (Ret ys, s2)" "retA (y # ys) s2 = (Ret cs, s')" by (rule bindA_RetE)
  then have "collectA f ps s1 = (Ret ys, s')" "cs = y # ys" by simp_all
  with Cons.IH assms(1) [OF 1(1)] show ?case by simp
qed simp

lemma table_map_body_table_ok:
  assumes "fst (table_map_body R r) = Ret (ev, ti)"
  shows "table_ok ti"
proof -
  have cols: "table_ok \<lparr>ti_database_name = a, ti_table_name = b, ti_columns = cs\<rparr>"
    if "parse_with R (read_columns R types nulls) d = Ret cs" for a b cs types nulls d
  proof -
    let ?f = "\<lambda>(t, n). bindA (liftO (metadata_bytes_for_column_type t)) (\<lambda>k. bindA (sr_read R k) (\<lambda>d.
         retA \<lparr>ci_type = t, ci_type_meta = d, ci_nullable = n\<rparr>))"
    have one: "\<exists>n. metadata_bytes_for_column_type (ci_type c) = Ret n" if "?f p s = (Ret c, s')" for p s c s'
      using that by (cases p) (auto elim!: bindA_RetE)
    have "\<forall>c\<in>set cs. \<exists>n. metadata_bytes_for_column_type (ci_type c) = Ret n" if "collectA ?f ps s = (Ret cs, s')" for ps s cs s'
      by (rule collectA_all [OF one that])
    moreover from that obtain r' where "read_columns R types nulls (sr_open R d) = (Ret cs, r')"
      by (cases "read_columns R types nulls (sr_open R d)") (simp add: parse_with_def)
    then obtain s' where "collectA ?f (zip types nulls) (sr_open R d) = (Ret cs, s')"
      unfolding read_columns_def by (elim bindA_RetE) (auto split: if_splits)
    ultimately show ?thesis by (simp add: table_ok_def)
  qed
  from assms obtain r' where "table_map_body R r = (Ret (ev, ti), r')" by (cases "table_map_body R r") simp
  then show ?thesis unfolding table_map_body_def by (elim bindA_RetE) (auto intro: cols)
qed

lemma after_parse:
  "bindA (liftO r) (\<lambda>ev. seqA (modifyA (u ev)) (retA ev)) s = (case r of Ret ev \<Rightarrow> (Ret ev, u ev s) | Throw e \<Rightarrow> (Throw e, s) | Blocked \<Rightarrow> (Blocked, s))"
  by (cases r) (simp_all add: bindA_def seqA_def)

lemma position_only:
  assumes "\<And>d s. parse d s = (case f d s of Ret ev \<Rightarrow> (Ret ev, u ev s) | Throw e \<Rightarrow> (Throw e, s) | Blocked \<Rightarrow> (Blocked, s))"
    and "\<And>ev s. bp_table_map (u ev s) = bp_table_map s"
  shows "event_operation (parse :: bytes \<Rightarrow> (binlog_processor, 'ev) act)"
  by unfold_locales (auto simp: assms split: outcome.splits)

interpretation table_map_op: event_operation "parse_table_map_event R" for R :: "'r string_reader_api"
proof
  fix d s
  have run: "parse_table_map_event R d s = (case parse_with R (table_map_body R) d of
      Ret (ev, ti) \<Rightarrow> (Ret ev, s\<lparr>bp_table_map := (bp_table_map s)(tm_table_id ev \<mapsto> ti), bp_position := ucast (eh_end_position (tm_header ev))\<rparr>)
    | Throw e \<Rightarrow> (Throw e, s) | Blocked \<Rightarrow> (Blocked, s))"
    by (simp add: parse_table_map_event_def set_position_def bindA_def seqA_def split: outcome.splits prod.splits)
  show "(\<forall>x. fst (parse_table_map_event R d s) \<noteq> Ret x) \<Longrightarrow> snd (parse_table_map_event R d s) = s"
    by (auto simp: run split: outcome.splits prod.splits)
  show "bp_table_map (snd (parse_table_map_event R d s)) = bp_table_map s \<or>
      (\<exists>i ti. table_ok ti \<and> bp_table_map (snd (parse_table_map_event R d s)) = (bp_table_map s)(i \<mapsto> ti))"
    using table_map_body_table_ok [of R "sr_open R d"]
    by (auto simp: run parse_with_def split: outcome.splits prod.splits)
qed

interpretation rows_op: event_operation "parse_rows_event fuel R" for fuel and R :: "'r string_reader_api"
  by (rule position_only [where f = "\<lambda>d s. parse_with R (rows_event_body fuel R (bp_table_map s)) d" and
      u = "\<lambda>ev s. s\<lparr>bp_position := ucast (eh_end_position (re_header ev))\<rparr>"])
    (simp_all add: parse_rows_event_def set_position_def after_parse bindA_def [of "getsA bp_table_map"])

interpretation query_op: event_operation "parse_query_event R" for R :: "'r string_reader_api"
  by (rule position_only [where f = "\<lambda>d s. parse_with R (query_event_body R) d" and
      u = "\<lambda>ev s. s\<lparr>bp_position := ucast (eh_end_position (qe_header ev))\<rparr>"])
    (simp_all add: parse_query_event_def set_position_def after_parse)

interpretation rotate_op: event_operation "parse_rotate_event R" for R :: "'r string_reader_api"
  by (rule position_only [where f = "\<lambda>d s. parse_with R (rotate_event_body R) d" and
      u = "\<lambda>ev s. s\<lparr>bp_filename := ro_next_filename ev, bp_position := ro_next_position ev\<rparr>"])
    (simp_all add: parse_rotate_event_def set_position_def seqA_def bindA_def split: outcome.splits)

interpretation xid_op: event_operation "parse_xid_event R" for R :: "'r string_reader_api"
  by (rule position_only [where f = "\<lambda>d s. parse_with R (xid_event_body R) d" and
      u = "\<lambda>ev s. s\<lparr>bp_position := ucast (eh_end_position (xe_header ev))\<rparr>"])
    (simp_all add: parse_xid_event_def set_position_def after_parse)

interpretation format_op: event_operation "parse_format_description_event R" for R :: "'r string_reader_api"
  by (rule position_only [where f = "\<lambda>d s. parse_with R (format_description_body R) d" and
      u = "\<lambda>ev s. s\<lparr>bp_position := ucast (eh_end_position (fd_header ev))\<rparr>"])
    (simp_all add: parse_format_description_event_def set_position_def after_parse)

interpretation unknown_op: event_operation parse_unknown_event
  by (rule position_only [where f = "\<lambda>d s. get_event_header d" and
      u = "\<lambda>ev s. s\<lparr>bp_position := ucast (eh_end_position ev)\<rparr>"])
    (simp_all add: parse_unknown_event_def set_position_def after_parse)

text \<open>The states a processor can reach from its construction, whatever data it is given.\<close>

inductive processor_reach :: "'r string_reader_api \<Rightarrow> binlog_processor \<Rightarrow> binlog_processor \<Rightarrow> bool" for R where
  start: "processor_reach R s s"
| table_map: "processor_reach R s t \<Longrightarrow> processor_reach R s (snd (parse_table_map_event R d t))"
| rows: "processor_reach R s t \<Longrightarrow> processor_reach R s (snd (parse_rows_event fuel R d t))"
| query: "processor_reach R s t \<Longrightarrow> processor_reach R s (snd (parse_query_event R d t))"
| rotate: "processor_reach R s t \<Longrightarrow> processor_reach R s (snd (parse_rotate_event R d t))"
| xid: "processor_reach R s t \<Longrightarrow> processor_reach R s (snd (parse_xid_event R d t))"
| format_description: "processor_reach R s t \<Longrightarrow> processor_reach R s (snd (parse_format_description_event R d t))"
| unknown: "processor_reach R s t \<Longrightarrow> processor_reach R s (snd (parse_unknown_event d t))"

lemmas operations_keep_ok = table_map_op.keeps_ok rows_op.keeps_ok query_op.keeps_ok rotate_op.keeps_ok xid_op.keeps_ok
  format_op.keeps_ok unknown_op.keeps_ok

lemmas operations_keep_tables = table_map_op.keeps_tables rows_op.keeps_tables query_op.keeps_tables rotate_op.keeps_tables
  xid_op.keeps_tables format_op.keeps_tables unknown_op.keeps_tables

lemma reach_keeps_ok: "processor_reach R s t \<Longrightarrow> processor_ok s \<Longrightarrow> processor_ok t"
  by (induction rule: processor_reach.induct) (auto intro: operations_keep_ok)

text \<open>C23: The invariant of a processor.  Whatever events, well formed or not, a new processor has been given,
  with whatever string reader, the columns of every table it knows have a type whose metadata
  size is defined: in particular none has type NULL, so that no cell is ever read as a constant
  NULL without bytes.  A table once known stays known.\<close>

theorem processor_invariant:
  assumes "processor_reach R BinlogProcessor_new s" and "processor_reach R s t" and "bp_table_map s i \<noteq> None"
  shows "bp_table_map t i \<noteq> None \<and>
    (\<forall>j ti c. bp_table_map t j = Some ti \<longrightarrow> c \<in> set (ti_columns ti) \<longrightarrow>
       (\<exists>n\<le>2. metadata_bytes_for_column_type (ci_type c) = Ret n) \<and> column_type_of (ci_type c) \<noteq> Some T_NULL)"
proof
  show "bp_table_map t i \<noteq> None"
    using assms(2,3) by (induction rule: processor_reach.induct) (simp_all only: not_False_eq_True operations_keep_tables)
  have "processor_ok BinlogProcessor_new" by (simp add: processor_ok_def BinlogProcessor_new_def)
  with assms(1,2) have "processor_ok t" by (blast intro: reach_keeps_ok)
  moreover have "n \<le> 2 \<and> column_type_of x \<noteq> Some T_NULL" if "metadata_bytes_for_column_type x = Ret n" for x n
    using that by (auto simp: metadata_bytes_for_column_type_def split: option.splits if_splits)
  ultimately show "\<forall>j ti c. bp_table_map t j = Some ti \<longrightarrow> c \<in> set (ti_columns ti) \<longrightarrow>
       (\<exists>n\<le>2. metadata_bytes_for_column_type (ci_type c) = Ret n) \<and> column_type_of (ci_type c) \<noteq> Some T_NULL"
    unfolding processor_ok_def table_ok_def ran_def by blast
qed

theorem processor_invariant_witness:
  "\<exists>s. processor_reach sr_list BinlogProcessor_new s \<and> bp_table_map s 9 = Some example_table \<and>
    (\<forall>c\<in>set (ti_columns example_table). column_type_of (ci_type c) \<noteq> Some T_NULL)"
proof -
  let ?h = "example_header TABLE_MAP_EVENT" and ?p = "table_map_payload (example_header TABLE_MAP_EVENT) 9 1 example_table 0 0 [2] []"
  let ?s = "snd (parse_table_map_event sr_list ?p BinlogProcessor_new)"
  have "parses sr_rest (table_map_body sr_list) ?p (Ret (\<lparr>tm_header = ?h, tm_table_id = word_of_nat 9, tm_flags = 1, tm_ti = None\<rparr>, example_table))"
  proof (rule table_map_body_parses [OF sr_list_spec])
    show "\<forall>c\<in>set (ti_columns example_table). column_ok c"
      by (simp add: example_table_def column_ok_def metadata_bytes_for_column_type_def del: column_type_code.simps)
    show "mask_form (map ci_nullable (ti_columns example_table)) [2]"
      by (auto simp: example_table_def mask_form_def bit_iff_odd dest!: less_2_cases)
  qed (simp_all add: example_header_def example_table_def column_metas_def ascii_def)
  from parse_with_parses [OF sr_list_spec this] have known: "bp_table_map ?s 9 = Some example_table"
    by (simp add: parse_table_map_event_def set_position_def seqA_def bindA_def)
  have r: "processor_reach sr_list BinlogProcessor_new ?s" by (intro processor_reach.table_map processor_reach.start)
  have "bp_table_map ?s 9 \<noteq> None" using known by simp
  from processor_invariant [OF r processor_reach.start this] known r show ?thesis by blast
qed

end
