(* ===== verification/MySQL_Typing.thy ===== *)
theory MySQL_Typing
  imports MySQL_Client_Properties MySQL_Print Binlog_Properties
begin

text \<open>
  The types of the values the MySQL code returns.  Types.hh documents which alternative of Value
  stands for a column of which type; here it is shown of everything a query and the parser of
  rows events can return, whatever bytes arrive and however the libraries behave.
\<close>

section \<open>Values of a column\<close>

text \<open>The comments of the declaration of Value.\<close>

definition documented_value :: "column_type \<Rightarrow> mysql_value \<Rightarrow> bool" where
  "documented_value t x = (case x of
     V_uint _ \<Rightarrow> t \<in> {T_TINYINT, T_SMALLINT, T_MEDIUMINT, T_INT, T_BIGINT, T_YEAR}
   | V_int _ \<Rightarrow> t \<in> {T_TINYINT, T_SMALLINT, T_MEDIUMINT, T_INT, T_BIGINT, T_YEAR}
   | V_float _ \<Rightarrow> t = T_FLOAT
   | V_double _ \<Rightarrow> t = T_DOUBLE
   | V_null \<Rightarrow> t = T_NULL
   | V_datetime _ \<Rightarrow> t \<in> {T_DATE, T_DATETIME, T_TIMESTAMP}
   | V_time _ \<Rightarrow> t = T_TIME
   | V_string _ \<Rightarrow> t \<in> {T_BIT, T_STRING, T_VAR_STRING, T_VARCHAR, T_TINYBLOB, T_BLOB, T_MEDIUMBLOB, T_LONGBLOB,
         T_DECIMAL, T_NEWDECIMAL, T_ENUM, T_SET, T_GEOMETRY})"

definition cell_typed :: "column_definition \<Rightarrow> mysql_value \<Rightarrow> bool" where
  "cell_typed c x = (x = V_null \<or> (case column_type_of (cd_type c) of None \<Rightarrow> False | Some t \<Rightarrow> documented_value t x))"

definition dict_typed :: "column_definition list \<Rightarrow> (bytes \<rightharpoonup> mysql_value) \<Rightarrow> bool" where
  "dict_typed cols row \<longleftrightarrow> dom row = set (map cd_column_name cols) \<and>
     (\<forall>k x. row k = Some x \<longrightarrow> (\<exists>c\<in>set cols. cd_column_name c = k \<and> cell_typed c x))"

text \<open>The rows of a result set; only an answer without columns has vectors when dictionaries were asked for.\<close>

definition rows_typed :: "bool \<Rightarrow> column_definition list \<Rightarrow> result_rows \<Rightarrow> bool" where
  "rows_typed dicts cols rows = (case rows of
     Rows_vecs rs \<Rightarrow> \<not> dicts \<and> (\<forall>row\<in>set rs. list_all2 cell_typed cols row)
   | Rows_dicts rs \<Rightarrow> dicts \<and> (\<forall>row\<in>set rs. dict_typed cols row))"

definition result_typed :: "bool \<Rightarrow> result_set \<Rightarrow> bool" where
  "result_typed dicts r \<longleftrightarrow> rs_columns r = [] \<and> rs_rows r = Rows_vecs [] \<or> rows_typed dicts (rs_columns r) (rs_rows r)"

section \<open>Results of queries\<close>

lemma gives_on_buf [gives_intros]: "gives m Q \<Longrightarrow> gives (on_buf m) Q"
  by (auto simp: gives_def on_buf_def split: prod.splits)

lemma map_outcome_Ret: "map_outcome f r = Ret y \<longleftrightarrow> (\<exists>x. r = Ret x \<and> y = f x)"
  by (cases r) (auto simp: map_outcome_def)

lemma parse_value_typed: "parse_value F ty val = Ret x \<Longrightarrow> column_type_of ty = Some t \<and> documented_value t x"
  if "column_type_of ty = Some t" for t
  using that by (auto simp: parse_value_def documented_value_def map_outcome_Ret split: if_splits)

lemma read_cell_typed: "gives (read_cell E F c) (cell_typed c)"
proof -
  have "gives (liftO (parse_value F (cd_type c) val)) (cell_typed c)" for val
  proof (rule gives_liftO)
    fix x assume p: "parse_value F (cd_type c) val = Ret x"
    then obtain t where t: "column_type_of (cd_type c) = Some t" by (cases "column_type_of (cd_type c)") (auto simp: parse_value_def)
    then show "cell_typed c x" using parse_value_typed [OF t p] by (simp add: cell_typed_def)
  qed
  then show ?thesis unfolding read_cell_def by (intro gives_intros) (simp add: cell_typed_def)
qed

lemma emplace_all:
  "dom (foldl (\<lambda>m (c, x). map_emplace m (f c) x) m ps) = dom m \<union> f ` fst ` set ps"
  "foldl (\<lambda>m (c, x). map_emplace m (f c) x) m ps k = Some v \<Longrightarrow> m k = Some v \<or> (\<exists>c. (c, v) \<in> set ps \<and> f c = k)"
proof (induction ps arbitrary: m)
  case (Cons p ps)
  {
    case 1
    show ?case using Cons.IH(1) by (cases p) (auto simp: map_emplace_def domIff)
  next
    case 2
    then show ?case using Cons.IH(2) [of "case p of (c, x) \<Rightarrow> map_emplace m (f c) x"]
      by (cases p) (auto simp: map_emplace_def split: if_splits)
  }
qed simp_all

lemma add_row_typed:
  assumes "list_all2 cell_typed cols cells" and "rows_typed dicts cols rows"
  shows "rows_typed dicts cols (add_row cols cells rows)"
proof (cases rows)
  case (Rows_dicts rs)
  let ?row = "foldl (\<lambda>m (def, x). map_emplace m (cd_column_name def) x) Map.empty (zip cols cells)"
  have "fst ` set (zip cols cells) = set cols" using list_all2_lengthD [OF assms(1)] by (metis list.set_map map_fst_zip)
  moreover have "\<exists>c\<in>set cols. cd_column_name c = k \<and> cell_typed c x" if "?row k = Some x" for k x
    using emplace_all(2) [OF that] assms(1) by (auto simp: list_all2_iff dest: set_zip_leftD)
  ultimately have "dict_typed cols ?row" by (auto simp: dict_typed_def emplace_all(1))
  then show ?thesis using assms(2) Rows_dicts by (auto simp: add_row_def rows_typed_def)
qed (use assms in \<open>auto simp: add_row_def rows_typed_def\<close>)

lemma rows_loop_typed: "rows_typed dicts cols rows \<Longrightarrow> gives (rows_loop n E F cols rows) (\<lambda>(rows', w, f). rows_typed dicts cols rows')"
proof (induction n arbitrary: rows)
  case (Suc n)
  have row: "gives (bindA (on_buf (collectA (read_cell E F) cols)) (\<lambda>cells. rows_loop n E F cols (add_row cols cells rows)))
      (\<lambda>(rows', w, f). rows_typed dicts cols rows')"
    by (rule gives_bindA [OF gives_on_buf [OF gives_collectA [OF read_cell_typed]]]) (intro Suc.IH add_row_typed Suc.prems)
  show ?case unfolding rows_loop.simps
    by (rule gives_seqA, rule gives_bindA_any, rule gives_if, intro gives_bindA_any gives_retA, simp add: Suc.prems, rule row)
qed (simp add: gives_throwA)

lemma results_loop_typed:
  "\<forall>r\<in>set ret. result_typed dicts r \<Longrightarrow> gives (results_loop n m E P F dicts ret) (\<lambda>rs. \<forall>r\<in>set rs. result_typed dicts r)"
proof (induction n arbitrary: ret)
  case (Suc n)
  have start: "rows_typed dicts cols (if dicts then Rows_dicts [] else Rows_vecs [])" for cols by (simp add: rows_typed_def)
  have ok: "result_typed dicts \<lparr>rs_columns = [], rs_rows = Rows_vecs [], rs_affected_rows = a, rs_insert_id = i, rs_status_flags = f, rs_warning_count = w\<rparr>"
    for a i f w by (simp add: result_typed_def)
  have one: "result_typed dicts \<lparr>rs_columns = cols, rs_rows = rows, rs_affected_rows = 0, rs_insert_id = 0, rs_status_flags = f, rs_warning_count = w\<rparr>"
    if "rows_typed dicts cols rows" for cols rows f w using that by (simp add: result_typed_def)
  have rows: "gives (bindA (rows_loop m E F cols (if dicts then Rows_dicts [] else Rows_vecs [])) (\<lambda>(rows, w, f).
        if f AND MORE_RESULTS_EXIST = 0 then retA (ret @ [\<lparr>rs_columns = cols, rs_rows = rows, rs_affected_rows = 0, rs_insert_id = 0,
             rs_status_flags = f, rs_warning_count = w\<rparr>])
        else seqA (on_buf (Buffer_drain_all E)) (results_loop n m E P F dicts (ret @ [\<lparr>rs_columns = cols, rs_rows = rows, rs_affected_rows = 0, rs_insert_id = 0,
             rs_status_flags = f, rs_warning_count = w\<rparr>]))))
      (\<lambda>rs. \<forall>r\<in>set rs. result_typed dicts r)" for cols
    by (rule gives_bindA [OF rows_loop_typed [OF start]], clarify, intro gives_intros Suc.IH) (use Suc.prems one in auto)
  have oks: "\<forall>r\<in>set (ret @ [\<lparr>rs_columns = [], rs_rows = Rows_vecs [], rs_affected_rows = a, rs_insert_id = i, rs_status_flags = f, rs_warning_count = w\<rparr>]).
      result_typed dicts r" for a i f w
    using Suc.prems ok by simp
  show ?case unfolding results_loop.simps Let_def
    by (rule gives_seqA, rule gives_bindA_any, rule gives_if, intro gives_intros Suc.IH oks, rule gives_seqA,
        rule gives_bindA_any, rule gives_bindA_any, rule rows)
qed (simp add: gives_throwA)

text \<open>C21: Whatever a server answers, and however libevent behaves: when \<open>query_multi\<close> returns, every result
  set has exactly one cell for each column in every row (or, as a dictionary, exactly the names
  of the columns), and every cell is NULL or the alternative of Value that Types.hh documents for
  the type of its column; and printing it does not run off the end of a row.\<close>

theorem query_results_typed:
  assumes "query_multi fuel E P F sql dicts s = (Ret rs, s')" and "r \<in> set rs"
  shows "result_typed dicts r \<and> (\<exists>d. \<forall>out. ResultSet_print Q it r out = (Ret (), out @ d))"
proof -
  have "gives (query_multi fuel E P F sql dicts) (\<lambda>rs. \<forall>r\<in>set rs. result_typed dicts r)"
    unfolding query_multi_def by (intro gives_seqA results_loop_typed) simp
  from givesD [OF this assms(1)] assms(2) have t: "result_typed dicts r" by simp
  then have "\<forall>rows. rs_rows r = Rows_vecs rows \<longrightarrow> (\<forall>row\<in>set rows. length (rs_columns r) \<le> length row)"
    by (auto simp: result_typed_def rows_typed_def list_all2_iff)
  with t ResultSet_print_returns show ?thesis by blast
qed

theorem query_results_typed_witness:
  "result_typed False (answer_result False (example_answers ! 1)) \<and>
   (\<exists>d. \<forall>out. ResultSet_print phosg_model (\<lambda>_. []) (answer_result False (example_answers ! 1)) out = (Ret (), out @ d))"
proof -
  obtain s' where q: "query_multi 3 (evb_list 0) phosg_model example_floats (ascii ''SELECT x'') False example_queried =
      (Ret (map (answer_result False) example_answers), s')"
    using query_multi_run [OF evb_list_spec [of 0, OF order_refl] example_ready example_last(5,4) example_answers_ok example_last(1,2,3)] by blast
  show ?thesis by (rule query_results_typed [OF q]) (simp add: example_answers_def)
qed

section \<open>Rows of the binary log\<close>

definition log_value :: "column_type \<Rightarrow> mysql_value \<Rightarrow> bool" where
  "log_value t x = (case x of
     V_uint _ \<Rightarrow> t \<in> {T_TINYINT, T_SMALLINT, T_MEDIUMINT, T_INT, T_BIGINT, T_YEAR, T_TIMESTAMP, T_TIMESTAMP2}
   | V_int _ \<Rightarrow> False
   | V_float _ \<Rightarrow> t = T_FLOAT
   | V_double _ \<Rightarrow> t = T_DOUBLE
   | V_null \<Rightarrow> t = T_NULL
   | V_datetime _ \<Rightarrow> t = T_DATETIME2
   | V_time _ \<Rightarrow> t = T_TIME2
   | V_string _ \<Rightarrow> t \<in> {T_TINYBLOB, T_MEDIUMBLOB, T_LONGBLOB, T_BLOB, T_GEOMETRY, T_JSON, T_ENUM, T_SET, T_STRING, T_VARCHAR})"

definition log_cell :: "column_info \<Rightarrow> mysql_value \<Rightarrow> bool" where
  "log_cell ci x = (x = V_null \<and> ci_nullable ci \<or> (case column_type_of (ci_type ci) of None \<Rightarrow> False | Some t \<Rightarrow> log_value t x))"

definition change_typed :: "table_info \<Rightarrow> write_type \<Rightarrow> row_change \<Rightarrow> bool" where
  "change_typed ti wt rc = (case wt of
     W_INSERT \<Rightarrow> rc_pre rc = [] \<and> list_all2 log_cell (ti_columns ti) (rc_post rc)
   | W_UPDATE \<Rightarrow> (rc_pre rc = [] \<or> list_all2 log_cell (ti_columns ti) (rc_pre rc)) \<and> list_all2 log_cell (ti_columns ti) (rc_post rc)
   | W_DELETE \<Rightarrow> list_all2 log_cell (ti_columns ti) (rc_pre rc) \<and> rc_post rc = [])"

lemma read_cell_data_typed: "gives (read_cell_data R ci) (log_cell ci)"
proof (cases "column_type_of (ci_type ci)")
  case (Some t)
  have v: "gives (read_cell_data R ci) (log_value t)"
    unfolding read_cell_data_def Let_def Some option.case by (intro gives_intros) (auto simp: log_value_def)
  show ?thesis by (rule gives_mono [OF v]) (simp add: log_cell_def Some)
qed (simp add: read_cell_data_def gives_throwA)

lemma read_row_data_typed: "gives (read_row_data R ti) (list_all2 log_cell (ti_columns ti))"
proof -
  let ?f = "\<lambda>(ci, null). if null then (if \<not> ci_nullable ci then throwA (Runtime_error ''found null value in non-nullable column'') else retA V_null)
         else read_cell_data R ci"
  have c: "gives (?f p) (log_cell (fst p))" for p
    using read_cell_data_typed by (cases p) (auto simp: log_cell_def intro!: gives_intros)
  have row: "gives (collectA ?f (zip (ti_columns ti) nulls)) (list_all2 (\<lambda>p. log_cell (fst p)) (zip (ti_columns ti) nulls))" for nulls
    by (rule gives_collectA) (rule c)
  have fin: "list_all2 log_cell (ti_columns ti) r" if "list_all2 (\<lambda>p. log_cell (fst p)) (zip (ti_columns ti) nulls) r" and "length r = length (ti_columns ti)" for nulls r
  proof -
    have "list_all2 log_cell (map fst (zip (ti_columns ti) nulls)) r" using that(1) by (simp add: list_all2_map1)
    moreover have "map fst (zip (ti_columns ti) nulls) = ti_columns ti"
      using list_all2_lengthD [OF that(1)] that(2) by (simp add: map_fst_zip_take min_def split: if_splits)
    ultimately show ?thesis by simp
  qed
  show ?thesis unfolding read_row_data_def
    by (intro gives_bindA_any gives_bindA [OF row] gives_intros) (auto intro: fin)
qed

lemma read_image_typed: "gives (read_image R ti) (\<lambda>p. list_all2 log_cell (ti_columns ti) (fst p))"
  unfolding read_image_def by (intro gives_bindA_any gives_bindA [OF read_row_data_typed] gives_retA) simp

lemma read_row_change_typed: "gives (read_row_change R ti wt pre) (change_typed ti wt)"
proof (cases wt)
  case W_INSERT
  show ?thesis unfolding read_row_change_def W_INSERT write_type.case
    by (rule gives_bindA [OF read_image_typed]) (auto simp: change_typed_def intro: gives_retA)
next
  case W_DELETE
  show ?thesis unfolding read_row_change_def W_DELETE write_type.case
    by (rule gives_bindA [OF read_image_typed]) (auto simp: change_typed_def intro: gives_retA)
next
  case W_UPDATE
  have p: "gives (if pre then read_image R ti else retA ([], 0)) (\<lambda>p. fst p = [] \<or> list_all2 log_cell (ti_columns ti) (fst p))"
    by (intro gives_if gives_retA gives_mono [OF read_image_typed]) simp_all
  show ?thesis unfolding read_row_change_def W_UPDATE write_type.case
    by (rule gives_bindA [OF p], clarify, rule gives_bindA [OF read_image_typed]) (auto simp: change_typed_def intro: gives_retA)
qed

lemma rows_event_loop_typed:
  "\<forall>rc\<in>set rows. change_typed ti wt rc \<Longrightarrow> gives (rows_event_loop fuel R ti wt pre rows) (\<lambda>rs. \<forall>rc\<in>set rs. change_typed ti wt rc)"
proof (induction fuel arbitrary: rows)
  case 0
  then show ?case unfolding rows_event_loop.simps [of 0] by (intro gives_intros) (simp_all add: gives_throwA)
next
  case (Suc n)
  have "gives (bindA (read_row_change R ti wt pre) (\<lambda>rc. rows_event_loop n R ti wt pre (rows @ [rc]))) (\<lambda>rs. \<forall>rc\<in>set rs. change_typed ti wt rc)"
    by (rule gives_bindA [OF read_row_change_typed], rule Suc.IH) (use Suc.prems in auto)
  then show ?case unfolding rows_event_loop.simps [of "Suc n"] using Suc.prems by (intro gives_bindA_any) (simp add: gives_retA)
qed

text \<open>What the parser of rows events returns refers to the table map and is typed by the table.\<close>

definition event_typed :: "(u64 \<rightharpoonup> table_info) \<Rightarrow> rows_event \<Rightarrow> bool" where
  "event_typed tm ev \<longleftrightarrow> tm (re_table_id ev) = Some (re_ti ev) \<and> write_type_of (eh_type (re_header ev)) = Ret (re_write_type ev) \<and>
     (\<forall>rc\<in>set (re_rows ev). change_typed (re_ti ev) (re_write_type ev) rc)"

lemma rows_event_body_typed: "gives (rows_event_body fuel R tm) (event_typed tm)"
proof -
  have wt: "gives (liftO (write_type_of t)) (\<lambda>wt. write_type_of t = Ret wt)" for t by (rule gives_liftO)
  have ti: "gives (liftO (table_map_at tm i)) (\<lambda>ti. tm i = Some ti)" for i
    by (rule gives_liftO) (simp add: table_map_at_def split: option.splits)
  show ?thesis unfolding rows_event_body_def Let_def
    by (rule gives_bindA_any, rule gives_bindA [OF wt], rule gives_bindA_any, rule gives_if, rule gives_throwA, rule gives_bindA [OF ti],
        (rule gives_bindA_any)+, rule gives_if, rule gives_throwA, rule gives_seqA, rule gives_bindA [OF rows_event_loop_typed], simp)
      (simp add: event_typed_def gives_retA)
qed



end
