(* ===== verification/Binlog_Reader.thy ===== *)
theory Binlog_Reader
  imports MySQL_Client_Properties Binlog_Properties MySQL_Print
begin

text \<open>
  Examples/MySQLBinlogReader.cc: the coroutine that follows a server's binary log and prints it, where
  the MySQL client and the binary log processor work together.  Each turn of its loop awaits an
  event from the client, looks at its header, has the processor parse it, and prints it.
\<close>

section \<open>Printing\<close>

text \<open>An event that the server makes up has neither a time nor a position.\<close>

definition print_pos_comment_start :: "phosg_api \<Rightarrow> event_header \<Rightarrow> bytes \<Rightarrow> (bytes, unit) act" where
  "print_pos_comment_start P h filename =
     (if eh_timestamp h = 0 \<and> eh_end_position h = 0 then fprintf ''/* (artificial event) server %u '' [P_int (uint (eh_server_id h))]
      else fprintf ''/* %s:%u @ %s server %u '' [c_str filename, P_int (uint (eh_end_position h - eh_length h)),
        c_str (ascii (format_time P (ucast (eh_timestamp h) * 1000000))), P_int (uint (eh_server_id h))])"

definition print_values :: "phosg_api \<Rightarrow> mysql_value list \<Rightarrow> (bytes, unit) act" where
  "print_values P row = eachA (\<lambda>x. fprintf ''%s%s'' [c_str (ascii (if 0 < x then '', '' else [])), c_str (ascii (format_cell_value P (row ! x)))])
     [0..<length row]"

definition print_assignments :: "phosg_api \<Rightarrow> string \<Rightarrow> mysql_value list \<Rightarrow> (bytes, unit) act" where
  "print_assignments P sep row = eachA (\<lambda>x. fprintf ''%s#%zu = %s''
       [c_str (ascii (if 0 < x then sep else [])), P_int (int x), c_str (ascii (format_cell_value P (row ! x)))])
     [0..<length row]"

definition print_row :: "phosg_api \<Rightarrow> bytes \<Rightarrow> rows_event \<Rightarrow> row_change \<Rightarrow> (bytes, unit) act" where
  "print_row P filename ev row = (let names = [c_str (ti_database_name (re_ti ev)), c_str (ti_table_name (re_ti ev))] in
     seqA (print_pos_comment_start P (re_header ev) filename)
     (seqA (case re_write_type ev of
         W_INSERT \<Rightarrow> seqA (fprintf ''*/ INSERT INTO `%s`.`%s` VALUES ('' names) (seqA (print_values P (rc_post row)) (fprintf '')'' []))
       | W_UPDATE \<Rightarrow> seqA (fprintf ''*/ UPDATE `%s`.`%s` SET '' names) (seqA (print_assignments P '', '' (rc_post row))
           (if rc_pre row \<noteq> [] then seqA (fprintf '' WHERE '' []) (print_assignments P '' AND '' (rc_pre row))
            else fprintf '' /* MISSING PRE-IMAGE */'' []))
       | W_DELETE \<Rightarrow> seqA (fprintf ''*/ DELETE FROM `%s`.`%s` WHERE '' names) (print_assignments P '' AND '' (rc_pre row)))
     (fprintf '';\<newline>'' [])))"

definition print_query :: "phosg_api \<Rightarrow> bytes \<Rightarrow> query_event \<Rightarrow> (bytes, unit) act" where
  "print_query P filename ev = seqA (print_pos_comment_start P (qe_header ev) filename)
     (if qe_database_name ev = [] then fprintf ''conn %u (%us) */ %s;\<newline>''
        [P_int (uint (qe_conn_id ev)), P_int (uint (qe_exec_time_secs ev)), c_str (qe_query ev)]
      else fprintf ''conn %u db %s (%us) */ %s;\<newline>''
        [P_int (uint (qe_conn_id ev)), c_str (qe_database_name ev), P_int (uint (qe_exec_time_secs ev)), c_str (qe_query ev)])"

definition print_rotate :: "phosg_api \<Rightarrow> bytes \<Rightarrow> rotate_event \<Rightarrow> (bytes, unit) act" where
  "print_rotate P filename ev = seqA (print_pos_comment_start P (ro_header ev) filename)
     (fprintf ''next log pos %s:%lu */\<newline>'' [c_str (ro_next_filename ev), P_int (uint (ro_next_position ev))])"

definition print_unknown :: "phosg_api \<Rightarrow> bytes \<Rightarrow> event_header \<Rightarrow> bytes \<Rightarrow> (bytes, unit) act" where
  "print_unknown P filename h data = seqA (print_pos_comment_start P h filename)
     (seqA (fprintf ''unknown event %s */\<newline>'' [c_str (ascii (name_for_binlog_event_type (eh_type h)))])
       (modifyA (\<lambda>out. out @ format_data P data)))"

section \<open>The loop\<close>

text \<open>\<open>rd_out\<close> is what has been written to the standard output.\<close>

record reader =
  rd_proc :: binlog_processor
  rd_filename :: bytes
  rd_out :: bytes

definition on_proc :: "(binlog_processor, 'a) act \<Rightarrow> (reader, 'a) act" where
  "on_proc m = (\<lambda>s. case m (rd_proc s) of (r, p) \<Rightarrow> (r, s\<lparr>rd_proc := p\<rparr>))"

definition on_stdout :: "(bytes \<Rightarrow> (bytes, unit) act) \<Rightarrow> (reader, unit) act" where
  "on_stdout m = (\<lambda>s. case m (rd_filename s) (rd_out s) of (r, d) \<Rightarrow> (r, s\<lparr>rd_out := d\<rparr>))"

definition rows_event_types :: "binlog_event_type list" where
  "rows_event_types = [WRITE_ROWS_EVENTv0, UPDATE_ROWS_EVENTv0, DELETE_ROWS_EVENTv0, WRITE_ROWS_EVENTv1, UPDATE_ROWS_EVENTv1,
     DELETE_ROWS_EVENTv1, WRITE_ROWS_EVENTv2, UPDATE_ROWS_EVENTv2, DELETE_ROWS_EVENTv2]"

text \<open>The switch on the type of an event.\<close>

definition handle_event :: "nat \<Rightarrow> phosg_api \<Rightarrow> 'r string_reader_api \<Rightarrow> bytes \<Rightarrow> (reader, unit) act" where
  "handle_event fuel P R data = bindA (liftO (get_event_header data)) (\<lambda>h.
     let t = eh_type h in
     if t = event_code PREVIOUS_GTIDS_EVENT \<or> t = event_code ANONYMOUS_GTID_EVENT then seqA (on_proc (parse_unknown_event data)) (retA ())
     else if t = event_code TABLE_MAP_EVENT then seqA (on_proc (parse_table_map_event R data)) (retA ())
     else if t \<in> set (map event_code rows_event_types) then
       bindA (on_proc (parse_rows_event fuel R data)) (\<lambda>ev. eachA (\<lambda>row. on_stdout (\<lambda>filename. print_row P filename ev row)) (re_rows ev))
     else if t = event_code QUERY_EVENT then
       bindA (on_proc (parse_query_event R data)) (\<lambda>ev.
         whenA (qe_query ev \<noteq> ascii ''BEGIN'' \<and> qe_query ev \<noteq> ascii ''COMMIT'') (on_stdout (\<lambda>filename. print_query P filename ev)))
     else if t = event_code STOP_EVENT then bindA (on_proc (parse_unknown_event data)) (\<lambda>h.
         on_stdout (\<lambda>filename. seqA (print_pos_comment_start P h filename) (fprintf ''*/ SHUTDOWN;\<newline>'' [])))
     else if t = event_code XID_EVENT then seqA (on_proc (parse_xid_event R data)) (retA ())
     else if t = event_code ROTATE_EVENT then
       bindA (on_proc (parse_rotate_event R data)) (\<lambda>ev.
         seqA (on_stdout (\<lambda>filename. print_rotate P filename ev)) (modifyA (\<lambda>s. s\<lparr>rd_filename := ro_next_filename ev\<rparr>)))
     else if t = event_code FORMAT_DESCRIPTION_EVENT then seqA (on_proc (parse_format_description_event R data)) (retA ())
     else bindA (on_proc (parse_unknown_event data)) (\<lambda>h. on_stdout (\<lambda>filename. print_unknown P filename h data)))"

text \<open>The loop over the client's events, cut off after the first argument's number of turns.\<close>

definition on_client :: "('b mysql_client, 'a) act \<Rightarrow> ('b mysql_client \<times> 'r, 'a) act" where
  "on_client m = (\<lambda>(c, r). case m c of (x, c') \<Rightarrow> (x, c', r))"

definition on_reader :: "('r, 'a) act \<Rightarrow> ('b mysql_client \<times> 'r, 'a) act" where
  "on_reader m = (\<lambda>(c, r). case m r of (x, r') \<Rightarrow> (x, c, r'))"

fun reader_loop :: "nat \<Rightarrow> nat \<Rightarrow> 'b evbuffer_api \<Rightarrow> phosg_api \<Rightarrow> 'r string_reader_api \<Rightarrow> ('b mysql_client \<times> reader, unit) act" where
  "reader_loop 0 fuel E P R = throwA Out_of_fuel"
| "reader_loop (Suc n) fuel E P R = bindA (on_client (get_binlog_event E P)) (\<lambda>data.
     seqA (on_reader (handle_event fuel P R data)) (reader_loop n fuel E P R))"

text \<open>Where to start: what is not given is taken from the one row that \<open>SHOW MASTER STATUS\<close> returns.\<close>

definition dict_at :: "(bytes \<rightharpoonup> mysql_value) \<Rightarrow> string \<Rightarrow> mysql_value outcome" where
  "dict_at row k = (case row (ascii k) of None \<Rightarrow> Throw (Out_of_range ''unordered_map::at'') | Some x \<Rightarrow> Ret x)"

definition get_string :: "mysql_value \<Rightarrow> bytes outcome" where
  "get_string x = (case x of V_string d \<Rightarrow> Ret d | _ \<Rightarrow> Throw Bad_variant_access)"

definition get_uint64 :: "mysql_value \<Rightarrow> u64 outcome" where
  "get_uint64 x = (case x of V_uint n \<Rightarrow> Ret n | _ \<Rightarrow> Throw Bad_variant_access)"

definition start_from :: "result_set \<Rightarrow> bytes \<Rightarrow> u64 \<Rightarrow> ('s, bytes \<times> u64) act" where
  "start_from result filename start_position = bindA (liftO (ResultSet_rows_dicts result)) (\<lambda>rows.
     case rows of [row] \<Rightarrow>
       bindA (if filename = [] then bindA (liftO (dict_at row ''File'')) (\<lambda>x. liftO (get_string x)) else retA filename) (\<lambda>f.
       bindA (if start_position = 0 then bindA (liftO (dict_at row ''Position'')) (\<lambda>x. liftO (get_uint64 x)) else retA start_position) (\<lambda>p.
       retA (f, p)))
     | _ \<Rightarrow> throwA (Runtime_error ''SHOW MASTER STATUS did not return one row''))"

definition master_start :: "nat \<Rightarrow> 'b evbuffer_api \<Rightarrow> phosg_api \<Rightarrow> float_api \<Rightarrow> bytes \<Rightarrow> u64 \<Rightarrow> ('b mysql_client \<times> 'r, bytes \<times> u64) act" where
  "master_start fuel E P F filename start_position = (if filename = [] \<or> start_position = 0
     then bindA (on_client (MySQL_query fuel E P F (ascii ''SHOW MASTER STATUS'') True)) (\<lambda>result. start_from result filename start_position)
     else retA (filename, start_position))"

text \<open>The coroutine \<open>read_binlogs\<close> of the example; \<open>start_filename\<close> is empty when none was given, \<open>rnd\<close> a random server id.\<close>

definition reader_run :: "nat \<Rightarrow> nat \<Rightarrow> 'b evbuffer_api \<Rightarrow> phosg_api \<Rightarrow> float_api \<Rightarrow> 'r string_reader_api \<Rightarrow> u32 \<Rightarrow> bytes \<Rightarrow> u16
    \<Rightarrow> bytes \<Rightarrow> bytes \<Rightarrow> bytes \<Rightarrow> u64 \<Rightarrow> ('b mysql_client \<times> reader, unit) act" where
  "reader_run n fuel E P F R rnd host port username password start_filename start_position =
     seqA (on_client (MySQL_Client_new host port username password)) (seqA (on_client (MySQL_connect fuel E P))
     (bindA (master_start fuel E P F start_filename start_position) (\<lambda>(filename, position).
      seqA (on_client (read_binlogs fuel E P F rnd filename position 0 True))
      (seqA (on_reader (modifyA (\<lambda>s. s\<lparr>rd_filename := filename, rd_proc := BinlogProcessor_new\<rparr>)))
      (seqA (on_reader (on_stdout (\<lambda>filename. fprintf ''-- starting at %s:%lu\<newline>\<newline>'' [c_str filename, P_int (uint position)])))
        (reader_loop n fuel E P R))))))"

section \<open>The loop as a run over the stream\<close>

definition handle_events :: "nat \<Rightarrow> phosg_api \<Rightarrow> 'r string_reader_api \<Rightarrow> bytes list \<Rightarrow> (reader, unit) act" where
  "handle_events fuel P R ds = eachA (handle_event fuel P R) ds"

lemma reader_loop_run:
  assumes "get_binlog_events E P n c = (Ret ds, c')" and "handle_events fuel P R ds r = (Ret (), r')"
  shows "reader_loop (n + m) fuel E P R (c, r) = reader_loop m fuel E P R (c', r')"
  using assms
proof (induction n arbitrary: c r ds)
  case 0
  then show ?case by (simp add: get_binlog_events_def handle_events_def)
next
  case (Suc n)
  from Suc.prems(1) obtain d c1 ds1 where g: "get_binlog_event E P c = (Ret d, c1)" "get_binlog_events E P n c1 = (Ret ds1, c')" "ds = d # ds1"
    by (auto simp: get_binlog_events_def elim!: bindA_RetE)
  from Suc.prems(2) g(3) obtain r1 where h: "handle_event fuel P R d r = (Ret (), r1)" "handle_events fuel P R ds1 r1 = (Ret (), r')"
    by (auto simp: handle_events_def elim!: seqA_RetE)
  from Suc.IH [OF g(2) h(2)] show ?case by (simp add: bindA_def seqA_def on_client_def on_reader_def g(1) h(1))
qed

lemma appends_seqA_ex: "\<exists>d. appends m d \<Longrightarrow> \<exists>d. appends n d \<Longrightarrow> \<exists>d. appends (seqA m n) d"
  using appends_seqA by blast

lemma appends_fprintf_ex: "\<exists>d. appends (fprintf fmt args) d"
  using appends_fprintf by blast

lemma appends_retA_ex: "\<exists>d. appends (retA ()) d"
  by (simp add: appends_def)

lemma print_position_appends: "\<exists>d. appends (print_pos_comment_start P h f) d"
  unfolding print_pos_comment_start_def using appends_fprintf by auto

lemma print_row_appends: "\<exists>d. appends (print_row P f ev row) d"
  unfolding print_row_def Let_def print_values_def print_assignments_def
  by (cases "re_write_type ev"; cases "rc_pre row = []")
    (auto intro!: appends_seqA_ex appends_eachA_ex print_position_appends appends_fprintf_ex appends_retA_ex)

lemma print_rotate_appends: "\<exists>d. appends (print_rotate P f ev) d"
  unfolding print_rotate_def by (intro appends_seqA_ex print_position_appends appends_fprintf_ex)

lemma on_stdout_appends: "\<exists>d. appends (m (rd_filename s)) d \<Longrightarrow> on_stdout m s = (Ret (), s\<lparr>rd_out := rd_out s @ printed (m (rd_filename s))\<rparr>)"
  by (auto simp: on_stdout_def appends_def printed_def)

lemma print_all_rows: "eachA (\<lambda>row. on_stdout (\<lambda>filename. print_row P filename ev row)) rows s =
    (Ret (), s\<lparr>rd_out := rd_out s @ concat (map (\<lambda>row. printed (print_row P (rd_filename s) ev row)) rows)\<rparr>)"
  by (induction rows arbitrary: s) (simp_all add: seqA_def bindA_def on_stdout_appends print_row_appends)

lemma get_event_header_bytes: "get_event_header (header_bytes h @ ys) = Ret h"
  by (simp add: get_event_header_def)

lemma handle_rotate:
  assumes "string_reader_spec R v k" and "eh_type (ro_header ro) = event_code ROTATE_EVENT"
  shows "handle_event fuel P R (rotate_payload ro) r = (Ret (), r\<lparr>rd_proc := (rd_proc r)\<lparr>bp_filename := ro_next_filename ro, bp_position := ro_next_position ro\<rparr>,
    rd_filename := ro_next_filename ro, rd_out := rd_out r @ printed (print_rotate P (rd_filename r) ro)\<rparr>)"
proof -
  have p: "parse_rotate_event R (rotate_payload ro) s = (Ret ro, s\<lparr>bp_filename := ro_next_filename ro, bp_position := ro_next_position ro\<rparr>)" for s
    using parse_with_parses [OF assms(1) rotate_event_body_parses [OF assms]] by (simp add: parse_rotate_event_def seqA_def bindA_def set_position_def)
  have h: "get_event_header (rotate_payload ro) = Ret (ro_header ro)" by (simp add: rotate_payload_def get_event_header_bytes)
  show ?thesis unfolding handle_event_def h bindA_liftO Let_def assms(2)
    by (simp add: rows_event_types_def on_proc_def p on_stdout_appends print_rotate_appends bindA_def seqA_def)
qed

lemma handle_table_map:
  assumes "string_reader_spec R v k" and "eh_type h = event_code TABLE_MAP_EVENT" and "i < 2 ^ 48"
    and "length (ti_database_name ti) < 2 ^ 8" and "length (ti_table_name ti) < 2 ^ 8"
    and "length (ti_columns ti) < 2 ^ 64" and "length (column_metas ti) < 2 ^ 64" and "\<forall>c\<in>set (ti_columns ti). column_ok c"
    and "mask_form (map ci_nullable (ti_columns ti)) nulls"
  shows "handle_event fuel P R (table_map_payload h i flags ti z1 z2 nulls rest) r =
    (Ret (), r\<lparr>rd_proc := (rd_proc r)\<lparr>bp_table_map := (bp_table_map (rd_proc r))(word_of_nat i \<mapsto> ti), bp_position := ucast (eh_end_position h)\<rparr>\<rparr>)"
proof -
  let ?d = "table_map_payload h i flags ti z1 z2 nulls rest"
  have p: "parse_table_map_event R ?d s = (Ret \<lparr>tm_header = h, tm_table_id = word_of_nat i, tm_flags = flags, tm_ti = None\<rparr>,
     s\<lparr>bp_table_map := (bp_table_map s)(word_of_nat i \<mapsto> ti), bp_position := ucast (eh_end_position h)\<rparr>)" for s
    using parse_with_parses [OF assms(1) table_map_body_parses [OF assms]] by (simp add: parse_table_map_event_def set_position_def seqA_def bindA_def)
  have h: "get_event_header ?d = Ret h" by (simp add: table_map_payload_def get_event_header_bytes)
  show ?thesis unfolding handle_event_def h bindA_liftO Let_def assms(2) by (simp add: on_proc_def p bindA_def seqA_def)
qed

lemma rows_types:
  assumes "write_type_of t = Ret wt"
  shows "t \<in> set (map event_code rows_event_types)" and "t \<noteq> event_code PREVIOUS_GTIDS_EVENT" and "t \<noteq> event_code ANONYMOUS_GTID_EVENT"
    and "t \<noteq> event_code TABLE_MAP_EVENT"
  using assms by (auto simp: write_type_of_def rows_event_types_def split: if_splits)

lemma handle_rows:
  assumes "string_reader_spec R v k" and "write_type_of (eh_type h) = Ret wt"
    and "i < 2 ^ 48" and "i \<noteq> 0xFFFFFF" and "bp_table_map (rd_proc r) (word_of_nat i) = Some ti"
    and "length extra + 2 < 2 ^ 16" and "length (ti_columns ti) < 2 ^ 64"
    and "length ms = (if has_preimage (eh_type h) then 2 else 1)" and "\<forall>m\<in>set ms. mask_form (replicate (length (ti_columns ti)) True) m"
    and "ti_columns ti \<noteq> []" and "\<forall>(a, b)\<in>set cs. row_form ti a \<and> row_form ti b" and "length cs \<le> fuel"
  shows "handle_event fuel P R (rows_payload h i flags extra (length (ti_columns ti)) ms (concat (map (change_bytes wt (has_preimage (eh_type h))) cs))) r =
    (Ret (), r\<lparr>rd_proc := (rd_proc r)\<lparr>bp_position := ucast (eh_end_position h)\<rparr>, rd_out := rd_out r @
      concat (map (\<lambda>row. printed (print_row P (rd_filename r) (rows_result h wt i ti flags extra cs) row)) (re_rows (rows_result h wt i ti flags extra cs)))\<rparr>)"
proof -
  let ?d = "rows_payload h i flags extra (length (ti_columns ti)) ms (concat (map (change_bytes wt (has_preimage (eh_type h))) cs))"
  have p: "parse_rows_event fuel R ?d (rd_proc r) = (Ret (rows_result h wt i ti flags extra cs), (rd_proc r)\<lparr>bp_position := ucast (eh_end_position h)\<rparr>)"
    using parse_with_parses [OF assms(1) rows_event_body_parses [where tm = "bp_table_map (rd_proc r)", OF assms]]
    by (simp add: parse_rows_event_def set_position_def seqA_def bindA_def rows_result_def)
  have h: "get_event_header ?d = Ret h" by (simp add: rows_payload_def get_event_header_bytes)
  note t = rows_types [OF assms(2)]
  have "handle_event fuel P R ?d r = bindA (on_proc (parse_rows_event fuel R ?d)) (\<lambda>ev.
       eachA (\<lambda>row. on_stdout (\<lambda>filename. print_row P filename ev row)) (re_rows ev)) r"
    unfolding handle_event_def h bindA_liftO Let_def using t by (simp only: simp_thms if_True if_False)
  then show ?thesis by (simp add: bindA_def on_proc_def p print_all_rows)
qed

text \<open>C29: From the server's bytes to the printed rows.  A server sends, after \<open>read_binlogs\<close>, a rotation to
  a log file, the description of a table and the changes of some of its rows, in packets with
  checksums, cut into pieces in any way, and ends the stream.  The reader prints the rotation and
  then exactly the changed rows, in order, as statements with the names of the table, the values of
  all cells and the new file name; the processor is at the end position of the last event and
  knows the table; and the loop ends with the exception for the end of the stream.\<close>

theorem reader_reports_rows:
  assumes "evbuffer_spec E v" and "string_reader_spec R u k"
    and "tmap = table_map_payload ht i tflags ti z1 z2 nulls tail"
    and "rows = rows_payload hr i rflags extra (length (ti_columns ti)) ms (concat (map (change_bytes wt (has_preimage (eh_type hr))) cs))"
    and "client_ready P 0 (frames (my_next_seq (my s)) (stream_payloads (rotate_payload ro) [(tmap, crc1), (rows, crc2)] @ [[0xFE]]) @ rest) s"
    and "my_binlog_read_state (my s) = READING_FIRST_EVENT"
    and "length (rotate_payload ro) + 1 < 2 ^ 24" and "\<forall>(ev, crc)\<in>set [(tmap, crc1), (rows, crc2)]. length crc = 4 \<and> length ev + 5 < 2 ^ 24"
    and "eh_type (ro_header ro) = event_code ROTATE_EVENT"
    and "eh_type ht = event_code TABLE_MAP_EVENT" and "i < 2 ^ 48" and "i \<noteq> 0xFFFFFF"
    and "length (ti_database_name ti) < 2 ^ 8" and "length (ti_table_name ti) < 2 ^ 8"
    and "length (ti_columns ti) < 2 ^ 64" and "length (column_metas ti) < 2 ^ 64" and "\<forall>c\<in>set (ti_columns ti). column_ok c"
    and "mask_form (map ci_nullable (ti_columns ti)) nulls" and "ti_columns ti \<noteq> []"
    and "write_type_of (eh_type hr) = Ret wt" and "length extra + 2 < 2 ^ 16"
    and "length ms = (if has_preimage (eh_type hr) then 2 else 1)" and "\<forall>m\<in>set ms. mask_form (replicate (length (ti_columns ti)) True) m"
    and "\<forall>(a, b)\<in>set cs. row_form ti a \<and> row_form ti b" and "length cs \<le> fuel"
  shows "\<exists>s' r'. reader_loop 4 fuel E P R (s, \<lparr>rd_proc = BinlogProcessor_new, rd_filename = fn, rd_out = out\<rparr>) =
      (Throw (Out_of_range ''end of binlog stream''), s', r') \<and>
    rd_out r' = out @ printed (print_rotate P fn ro) @ concat (map (\<lambda>c. printed (print_row P (ro_next_filename ro)
      (rows_result hr wt i ti rflags extra cs) (change_of wt (has_preimage (eh_type hr)) c))) cs) \<and>
    rd_filename r' = ro_next_filename ro \<and> bp_position (rd_proc r') = ucast (eh_end_position hr) \<and>
    bp_table_map (rd_proc r') (word_of_nat i) = Some ti \<and> ch_inp s' = rest"
proof -
  let ?r = "\<lparr>rd_proc = BinlogProcessor_new, rd_filename = fn, rd_out = out\<rparr>"
  let ?evs = "[(tmap, crc1), (rows, crc2)]"
  obtain s1 s2 where ev: "get_binlog_events E P (Suc (length ?evs)) s = (Ret (rotate_payload ro # map fst ?evs), s1)"
    and fin: "get_binlog_event E P s1 = (Throw (Out_of_range ''end of binlog stream''), s2)" and rest: "ch_inp s2 = rest"
    by (rule stream_run [OF assms(1,5,6,7,8)])
  define r1 where "r1 = snd (handle_event fuel P R (rotate_payload ro) ?r)"
  define r2 where "r2 = snd (handle_event fuel P R tmap r1)"
  define r3 where "r3 = snd (handle_event fuel P R rows r2)"
  have 1: "handle_event fuel P R (rotate_payload ro) ?r = (Ret (), r1)" unfolding r1_def handle_rotate [OF assms(2,9)] by simp
  have 2: "handle_event fuel P R tmap r1 = (Ret (), r2)" unfolding r2_def assms(3) handle_table_map [OF assms(2,10,11,13-18)] by simp
  have map: "bp_table_map (rd_proc r2) (word_of_nat i) = Some ti" unfolding r2_def assms(3) handle_table_map [OF assms(2,10,11,13-18)] by simp
  note rows_run = handle_rows [where flags = rflags, OF assms(2,20,11,12) map assms(21,15,22,23,19,24,25), folded assms(4)]
  have 3: "handle_event fuel P R rows r2 = (Ret (), r3)" unfolding r3_def rows_run by simp
  have "handle_events fuel P R (rotate_payload ro # map fst ?evs) ?r = (Ret (), r3)" by (simp add: handle_events_def seqA_def bindA_def 1 2 3)
  from reader_loop_run [OF ev this, of 1] have "reader_loop 4 fuel E P R (s, ?r) = reader_loop 1 fuel E P R (s1, r3)" by (simp add: numeral_eq_Suc)
  also have "\<dots> = (Throw (Out_of_range ''end of binlog stream''), s2, r3)" by (simp add: on_client_def bindA_def fin)
  finally have run: "reader_loop 4 fuel E P R (s, ?r) = (Throw (Out_of_range ''end of binlog stream''), s2, r3)" .
  have f1: "rd_filename r1 = ro_next_filename ro" "rd_out r1 = out @ printed (print_rotate P fn ro)" unfolding r1_def handle_rotate [OF assms(2,9)] by simp_all
  have f2: "rd_filename r2 = ro_next_filename ro" "rd_out r2 = out @ printed (print_rotate P fn ro)"
    unfolding r2_def assms(3) handle_table_map [OF assms(2,10,11,13-18)] using f1 by simp_all
  show ?thesis using run rest map f2 by (intro exI [of _ s2] exI [of _ r3]) (simp add: r3_def rows_run, simp add: rows_result_def comp_def)
qed

definition example_rotate :: rotate_event where
  "example_rotate = \<lparr>ro_header = example_header ROTATE_EVENT, ro_next_filename = [98], ro_next_position = 4\<rparr>"

definition example_stream :: "bytes \<times> bytes" where
  "example_stream = (table_map_payload (example_header TABLE_MAP_EVENT) 9 1 example_table 0 0 [2] [],
     example_rows_event)"

definition example_source :: "bytes mysql_client" where
  "example_source = example_client (example_fields\<lparr>my_binlog_read_state := READING_FIRST_EVENT\<rparr>)
     (frames 0 (stream_payloads (rotate_payload example_rotate) [(fst example_stream, [1, 2, 3, 4]), (snd example_stream, [5, 6, 7, 8])] @ [[0xFE]]))"

theorem reader_reports_rows_witness:
  "\<exists>s' r'. reader_loop 4 1 (evb_list 0) phosg_model sr_list (example_source, \<lparr>rd_proc = BinlogProcessor_new, rd_filename = [97], rd_out = []\<rparr>) =
      (Throw (Out_of_range ''end of binlog stream''), s', r') \<and> bp_position (rd_proc r') = 700"
proof -
  have cols: "\<forall>c\<in>set (ti_columns example_table). column_ok c"
    by (simp add: example_table_def column_ok_def metadata_bytes_for_column_type_def del: column_type_code.simps)
  have small: "length (rotate_payload example_rotate) < 60" "length (fst example_stream) < 60" "length (snd example_stream) < 60"
    by (simp_all add: example_rotate_def rotate_payload_def example_stream_def example_rows_event_def table_map_payload_def rows_payload_def example_table_def example_rows_def
        change_bytes_def row_bytes_def cell_bytes_of_def column_metas_def varint_bytes_def example_header_def is_v2_def has_preimage_def ascii_def sized_def)
  let ?evs = "[(fst example_stream, [1, 2, 3, 4]), (snd example_stream, [5, 6, 7, 8])] :: (bytes \<times> bytes) list"
  have ready: "client_ready phosg_model 0 (frames (my_next_seq (my example_source)) (stream_payloads (rotate_payload example_rotate) ?evs @ [[0xFE]]) @ []) example_source"
    and state: "my_binlog_read_state (my example_source) = READING_FIRST_EVENT"
    using small by (simp_all add: client_ready_def live_def phosg_model_def example_source_def example_client_def example_fields_def stream_payloads_def command_frame_def)
  have len: "length (rotate_payload example_rotate) + 1 < 2 ^ 24" "\<forall>(ev, crc)\<in>set ?evs. length crc = 4 \<and> length ev + 5 < 2 ^ 24"
    using small by simp_all
  have "\<exists>s' r'. reader_loop 4 1 (evb_list 0) phosg_model sr_list (example_source, \<lparr>rd_proc = BinlogProcessor_new, rd_filename = [97], rd_out = []\<rparr>) =
      (Throw (Out_of_range ''end of binlog stream''), s', r') \<and>
    rd_out r' = [] @ printed (print_rotate phosg_model [97] example_rotate) @ concat (map (\<lambda>c. printed (print_row phosg_model (ro_next_filename example_rotate)
      (rows_result (example_header UPDATE_ROWS_EVENTv2) W_UPDATE 9 example_table 0 [] example_rows)
      (change_of W_UPDATE (has_preimage (eh_type (example_header UPDATE_ROWS_EVENTv2))) c))) example_rows) \<and>
    rd_filename r' = ro_next_filename example_rotate \<and> bp_position (rd_proc r') = ucast (eh_end_position (example_header UPDATE_ROWS_EVENTv2)) \<and>
    bp_table_map (rd_proc r') (word_of_nat 9) = Some example_table \<and> ch_inp s' = []"
    by (rule reader_reports_rows [OF evb_list_spec [of 0, OF order_refl] sr_list_spec, where ht = "example_header TABLE_MAP_EVENT" and tmap = "fst example_stream" and rows = "snd example_stream"
        and rflags = 0 and tflags = 1 and ?z1.0 = 0 and ?z2.0 = 0 and nulls = "[2]" and tail = "[]" and extra = "[]" and ms = "[[0xFF], [3]]", OF _ _ ready state len _ _ _ _ _ _ _ _ cols example_masks(2) _ _ _ _ example_masks(1) example_rows_ok])
      (simp_all add: example_stream_def example_rows_event_def example_rotate_def example_header_def example_table_def example_rows_def write_type_of_def has_preimage_def column_metas_def ascii_def)
  then show ?thesis by (auto simp: example_header_def)
qed

end
