(* ===== verification/Binlog_Session.thy ===== *)
theory Binlog_Session
  imports Binlog_Reader
begin

text \<open>
  A whole session of Examples/MySQLBinlogReader.cc, from the constructor of the client to the end of
  the stream: connecting, the login, the query that turns checksums on, the request for the
  binary log, and the loop over its events.  The lemmas compose what is known of the parts.
\<close>

section \<open>Connecting\<close>

lemma simA_case_outcome [sim_intros]:
  "(\<And>x. simA h (f x) (f' x)) \<Longrightarrow> (\<And>e. simA h (g e) (g' e)) \<Longrightarrow> simA h k k' \<Longrightarrow>
     simA h (case r of Ret x \<Rightarrow> f x | Throw e \<Rightarrow> g e | Blocked \<Rightarrow> k) (case r of Ret x \<Rightarrow> f' x | Throw e \<Rightarrow> g' e | Blocked \<Rightarrow> k')"
  by (cases r) simp_all

lemma Base_connect_sim [sim_intros]: "simA (chan_abs v) (Base_connect P host port) (Base_connect P host port)"
proof -
  have "simA (chan_abs v) (\<lambda>s. (Blocked, s)) (\<lambda>s. (Blocked, s))" by (simp add: simA_def)
  then show ?thesis unfolding Base_connect_def by (intro simA_case_outcome simA_throwA simA_await_chan) simp_all
qed

text \<open>Waiting for the connection takes one event.\<close>

lemma reaches_Base_connect:
  assumes "net_connect P host port = Ret fd" and "chan_at b inp out (Suc w) x s"
  shows "reaches (Base_connect P host port) s fd (chan_at b inp out w x)"
proof -
  obtain i l where "ch_sched s = i # l" using assms(2) by (cases "ch_sched s") (auto simp: chan_at_def live_def)
  with assms show ?thesis by (auto simp: reaches_def Base_connect_def await_chan_def chan_at_def live_def)
qed

text \<open>The fields of a new client.\<close>

definition new_client :: "bytes \<Rightarrow> u16 \<Rightarrow> bytes \<Rightarrow> bytes \<Rightarrow> mysql_fields \<Rightarrow> mysql_fields" where
  "new_client host port username password c = c\<lparr>my_hostname := host, my_port := port, my_username := username,
     my_password := password, my_fd := -1, my_next_seq := 0, my_server_version := [], my_binlog_read_state := NOT_READING, my_expected_binlog_seq := 0\<rparr>"

lemma reaches_connect:
  fixes c :: mysql_fields
  defines "plugin \<equiv> ascii ''caching_sha2_password''"
  assumes at: "client_at b (command_frame 0 (greeting_payload g plugin) @ frames 2 (replicate k [0x01, 0x03] @ [0x00 # info]) @ inp) out
      (Suc (length (login_payload (my_username c) resp plugin) + 4 + w)) c s"
    and fd: "\<not> fd_is_open P (my_fd c)" "net_connect P (my_hostname c) (unat (my_port c)) = Ret fd"
    and g: "greeting_ok g" and sha: "\<And>x. length (sha256 P x) = 32"
    and resp: "resp = auth_answer P (g_challenge1 g @ g_challenge2 g) (my_password c)"
    and len: "length (my_username c) < 2 ^ 20" "length info < 2 ^ 20" "k < fuel"
  shows "reaches (MySQL_connect fuel (evb_list z) P) s ()
    (client_at info inp (out @ command_frame 1 (login_payload (my_username c) resp plugin)) w
      (greeted g (c\<lparr>my_fd := fd\<rparr>)\<lparr>my_next_seq := 2 + word_of_nat (Suc k)\<rparr>))"
proof -
  let ?c = "c\<lparr>my_fd := fd\<rparr>" and ?W = "length (login_payload (my_username c) resp plugin) + 4 + w"
  let ?inp = "command_frame 0 (greeting_payload g plugin) @ frames 2 (replicate k [0x01, 0x03] @ [0x00 # info]) @ inp"
  have hs: "reaches (initial_handshake fuel (evb_list z) P) s1 ()
      (client_at info inp (out @ command_frame 1 (login_payload (my_username c) resp plugin)) w
        (greeted g ?c\<lparr>my_next_seq := 2 + word_of_nat (Suc k)\<rparr>))" if "client_at b ?inp out ?W ?c s1" for s1
    using handshake_list [where c = ?c and s = s1 and w = w and out = out and inp = inp and resp = resp, folded plugin_def] that g sha resp len by simp
  show ?thesis unfolding MySQL_connect_def
    apply (rule reaches_bindA [OF reaches_gets_my [OF at]], subst if_not_P, rule fd(1))
    apply (rule reaches_bindA, erule reaches_gets_my, unfold prod.case)
    apply (rule reaches_bindA, erule reaches_Base_connect [OF fd(2)])
    apply (rule reaches_seqA, erule reaches_modify_my)
    apply (erule hs)
    done
qed

lemma connect_sim [sim_intros]:
  assumes "evbuffer_spec E v"
  shows "simA (chan_abs v) (MySQL_connect n E P) (MySQL_connect n (evb_ref E) P)"
  unfolding MySQL_connect_def by (intro sim_intros assms)

section \<open>The request for the log\<close>

definition checksum_sql :: bytes where
  "checksum_sql = ascii ''SET @master_binlog_checksum = '' @ quoted (ascii ''ALL'') @ ascii '', @source_binlog_checksum = '' @ quoted (ascii ''ALL'')"

definition dump_payload :: "bytes \<Rightarrow> u64 \<Rightarrow> u32 \<Rightarrow> bool \<Rightarrow> bytes" where
  "dump_payload filename position server_id block = [mysql_command_code BINLOG_DUMP] @ le_bytes 4 (unat (ucast position :: u32)) @
     le_bytes 2 (unat (if block then 0 else 1 :: u16)) @ le_bytes 4 (unat server_id) @ filename"

lemma MySQL_query_sim [sim_intros]:
  assumes "evbuffer_spec E v"
  shows "simA (chan_abs v) (MySQL_query n E P F sql d) (MySQL_query n (evb_ref E) P F sql d)"
proof -
  have "simA (chan_abs v) (case rs of [r] \<Rightarrow> retA r | _ \<Rightarrow> throwA e) (case rs of [r] \<Rightarrow> retA r | _ \<Rightarrow> throwA e)" for rs :: "result_set list" and e
    by (auto intro: sim_intros split: list.split)
  then show ?thesis unfolding MySQL_query_def by (intro simA_bindA query_sims assms)
qed

lemma read_binlogs_sim [sim_intros]:
  assumes "evbuffer_spec E v"
  shows "simA (chan_abs v) (read_binlogs n E P F rnd filename position sid block) (read_binlogs n (evb_ref E) P F rnd filename position sid block)"
  unfolding read_binlogs_def Let_def Buffer_add_defs by (intro sim_intros assms)

lemma reaches_query:
  assumes at: "client_at b (frames 1 (answer_payloads a) @ inp) out (length sql + 5 + w) c s"
    and opn: "fd_is_open P (my_fd c)" and len: "length sql + 1 < 2 ^ 24" and a: "answer_ok F fuel a" "is_last a" "0 < fuel"
  shows "reaches (MySQL_query fuel (evb_list z) P F sql d) s (answer_result d a)
    (client_at (answer_tail a) inp (out @ command_frame 0 (mysql_command_code QUERY # sql)) w
      (c\<lparr>my_next_seq := 1 + word_of_nat (length (answer_payloads a))\<rparr>))"
proof -
  have "reaches (query_multi fuel (evb_list z) P F sql d) s (map (answer_result d) [a])
    (client_at (answer_tail (last [a])) inp (out @ command_frame 0 (mysql_command_code QUERY # sql)) w
      (c\<lparr>my_next_seq := 1 + word_of_nat (length (concat (map answer_payloads [a])))\<rparr>))"
    by (rule query_multi_list [where as = "[a]"]) (use assms in auto)
  then show ?thesis unfolding MySQL_query_def by (rule reaches_bindA) (simp add: reaches_retA)
qed

lemma my_next_seq_twice: "c\<lparr>my_next_seq := q\<rparr>\<lparr>my_next_seq := q'\<rparr> = c\<lparr>my_next_seq := q'\<rparr>"
  by simp

lemma reaches_read_binlogs:
  fixes sid rnd :: u32 and filename :: bytes and position :: u64 and block :: bool
  defines "dump \<equiv> dump_payload filename position (if sid = 0 then rnd else sid) block"
  assumes at: "client_at b (frames 1 (answer_payloads a) @ inp) out (length checksum_sql + 5 + (length dump + 4 + w)) c s"
    and opn: "fd_is_open P (my_fd c)" and len: "length filename < 2 ^ 20" and a: "answer_ok F fuel a" "is_last a" "0 < fuel"
  shows "reaches (read_binlogs fuel (evb_list z) P F rnd filename position sid block) s ()
    (client_at [] inp (out @ command_frame 0 (mysql_command_code QUERY # checksum_sql) @ command_frame 0 dump) w
      (c\<lparr>my_next_seq := 1, my_binlog_read_state := READING_FIRST_EVENT, my_expected_binlog_seq := 1\<rparr>))"
proof -
  let ?out = "out @ command_frame 0 (mysql_command_code QUERY # checksum_sql)" and ?W = "length dump + 4 + w" and ?c = "c\<lparr>my_next_seq := 0\<rparr>"
  have l: "length checksum_sql + 1 < 2 ^ 24" by (simp add: checksum_sql_def quoted_def ascii_def)
  have d: "length dump < 2 ^ 24" using len by (simp add: dump_def dump_payload_def)
  have add: "client_at [] inp ?out ?W ?c s1 \<Longrightarrow> reaches (seqA (on_buf (Buffer_add_u8 (evb_list z) (mysql_command_code BINLOG_DUMP)))
        (seqA (on_buf (Buffer_add_u32l (evb_list z) (ucast position)))
        (seqA (on_buf (Buffer_add_u16l (evb_list z) (if block then 0x0000 else 0x0001)))
        (seqA (on_buf (Buffer_add_u32l (evb_list z) (if sid = 0 then rnd else sid)))
        (seqA (on_buf (Buffer_add_string (evb_list z) filename)) n))))) s1 r Q"
    if n: "\<And>s2. client_at dump inp ?out ?W ?c s2 \<Longrightarrow> reaches n s2 r Q" for s1 n and r :: unit and Q
    apply (erule reaches_add, simp add: Buffer_add_u8_def)
    apply (erule reaches_add, simp add: Buffer_add_u32l_def)
    apply (erule reaches_add, simp add: Buffer_add_u16l_def)
    apply (erule reaches_add, simp add: Buffer_add_u32l_def)
    apply (erule reaches_add, simp)
    apply (rule n, simp add: dump_def dump_payload_def split del: if_split)
    done
  show ?thesis unfolding read_binlogs_def Let_def unfolding checksum_sql_def [symmetric]
    apply (rule reaches_seqA [OF reaches_assert_conn_open [OF at opn]])
    apply (rule reaches_bindA, erule reaches_query [OF _ opn l a])
    apply (rule reaches_seqA, erule reaches_reset_seq)
    apply (rule reaches_seqA, erule reaches_Buffer_new)
    apply (rule add [rotated], simp only: my_next_seq_twice)
    apply (rule reaches_seqA, erule reaches_MySQL_write [OF _ d])
    apply (rule reaches_mono, erule reaches_modify_my)
    apply simp
    done
qed

section \<open>The session\<close>

text \<open>The three steps on the client before the loop.\<close>

definition open_session :: "nat \<Rightarrow> 'b evbuffer_api \<Rightarrow> phosg_api \<Rightarrow> float_api \<Rightarrow> u32 \<Rightarrow> bytes \<Rightarrow> u16 \<Rightarrow> bytes \<Rightarrow> bytes \<Rightarrow> bytes \<Rightarrow> u64
    \<Rightarrow> ('b mysql_client, unit) act" where
  "open_session fuel E P F rnd host port username password filename position = seqA (MySQL_Client_new host port username password)
     (seqA (MySQL_connect fuel E P) (read_binlogs fuel E P F rnd filename position 0 True))"

lemma open_session_sim:
  assumes "evbuffer_spec E v"
  shows "simA (chan_abs v) (open_session n E P F rnd host port u p filename position) (open_session n (evb_ref E) P F rnd host port u p filename position)"
  unfolding open_session_def MySQL_Client_new_def by (intro sim_intros assms)

text \<open>What a server sends until it is asked for the log, and what the client sends.\<close>

definition server_opening :: "greeting \<Rightarrow> nat \<Rightarrow> bytes \<Rightarrow> answer \<Rightarrow> bytes" where
  "server_opening g k info a = command_frame 0 (greeting_payload g (ascii ''caching_sha2_password'')) @
     frames 2 (replicate k [0x01, 0x03] @ [0x00 # info]) @ frames 1 (answer_payloads a)"

definition client_opening :: "phosg_api \<Rightarrow> greeting \<Rightarrow> bytes \<Rightarrow> bytes \<Rightarrow> u32 \<Rightarrow> bytes \<Rightarrow> u64 \<Rightarrow> bytes" where
  "client_opening P g username password rnd filename position =
     command_frame 1 (login_payload username (auth_answer P (g_challenge1 g @ g_challenge2 g) password) (ascii ''caching_sha2_password'')) @
     command_frame 0 (mysql_command_code QUERY # checksum_sql) @ command_frame 0 (dump_payload filename position rnd True)"

text \<open>A server that accepts the login and the query.\<close>

definition server_accepts :: "phosg_api \<Rightarrow> float_api \<Rightarrow> nat \<Rightarrow> bytes \<Rightarrow> u16 \<Rightarrow> greeting \<Rightarrow> nat \<Rightarrow> bytes \<Rightarrow> answer \<Rightarrow> bool" where
  "server_accepts P F fuel host port g k info a \<longleftrightarrow> (\<exists>fd \<ge> 0. net_connect P host (unat port) = Ret fd) \<and> greeting_ok g \<and>
     length info < 2 ^ 20 \<and> k < fuel \<and> answer_ok F fuel a \<and> is_last a"

lemma open_session_list:
  assumes at: "client_at b (server_opening g k info a @ inp) out (length (client_opening P g username password rnd filename position) + 1) c s"
    and ok: "server_accepts P F fuel host port g k info a" and P: "scoped_fd_spec P" "\<And>x. length (sha256 P x) = 32"
    and len: "length username < 2 ^ 20" "length filename < 2 ^ 20"
  obtains c' where "reaches (open_session fuel (evb_list z) P F rnd host port username password filename position) s ()
      (client_at [] inp (out @ client_opening P g username password rnd filename position) 0 c')"
    and "fd_is_open P (my_fd c')" and "my_next_seq c' = 1" and "my_binlog_read_state c' = READING_FIRST_EVENT"
proof -
  let ?c = "new_client host port username password c" and ?r = "auth_answer P (g_challenge1 g @ g_challenge2 g) password"
  let ?p = "ascii ''caching_sha2_password''"
  let ?l = "login_payload username ?r ?p" and ?d = "dump_payload filename position (if (0 :: u32) = 0 then rnd else 0) True"
  let ?W = "length checksum_sql + 5 + (length ?d + 4 + 0)" and ?inp = "frames 1 (answer_payloads a) @ inp"
  obtain fd where fd: "0 \<le> fd" "net_connect P host (unat port) = Ret fd" using ok by (auto simp: server_accepts_def)
  let ?c2 = "greeted g (?c\<lparr>my_fd := fd\<rparr>)\<lparr>my_next_seq := 2 + word_of_nat (Suc k)\<rparr>"
  have opn: "\<not> fd_is_open P (my_fd ?c)" "fd_is_open P (my_fd ?c2)" using P(1) fd(1) by (simp_all add: scoped_fd_spec_def new_client_def greeted_def)
  have w: "length (client_opening P g username password rnd filename position) + 1 = Suc (length ?l + 4 + ?W)"
    by (simp add: client_opening_def command_frame_def)
  have at': "client_at b (command_frame 0 (greeting_payload g ?p) @ frames 2 (replicate k [0x01, 0x03] @ [0x00 # info]) @ ?inp) out (Suc (length ?l + 4 + ?W)) c s"
    using at unfolding w by (simp add: server_opening_def)
  have f: "my_username ?c = username" "my_password ?c = password" "my_hostname ?c = host" "my_port ?c = port" by (simp_all add: new_client_def)
  have con: "reaches (MySQL_connect fuel (evb_list z) P) s1 () (client_at info ?inp (out @ command_frame 1 ?l) ?W ?c2)"
    if "client_at b (command_frame 0 (greeting_payload g ?p) @ frames 2 (replicate k [0x01, 0x03] @ [0x00 # info]) @ ?inp) out (Suc (length ?l + 4 + ?W)) ?c s1" for s1
    using reaches_connect [where c = ?c, unfolded f, OF that opn(1) fd(2)] ok P(2) len(1) by (simp add: server_accepts_def)
  have dump: "reaches (read_binlogs fuel (evb_list z) P F rnd filename position 0 True) s1 ()
      (client_at [] inp ((out @ command_frame 1 ?l) @ command_frame 0 (mysql_command_code QUERY # checksum_sql) @ command_frame 0 ?d) 0
        (?c2\<lparr>my_next_seq := 1, my_binlog_read_state := READING_FIRST_EVENT, my_expected_binlog_seq := 1\<rparr>))"
    if "client_at info ?inp (out @ command_frame 1 ?l) ?W ?c2 s1" for s1
    by (rule reaches_read_binlogs [OF that opn(2) len(2)]) (use ok in \<open>auto simp: server_accepts_def\<close>)
  have "reaches (open_session fuel (evb_list z) P F rnd host port username password filename position) s ()
      (client_at [] inp ((out @ command_frame 1 ?l) @ command_frame 0 (mysql_command_code QUERY # checksum_sql) @ command_frame 0 ?d) 0
        (?c2\<lparr>my_next_seq := 1, my_binlog_read_state := READING_FIRST_EVENT, my_expected_binlog_seq := 1\<rparr>))"
    unfolding open_session_def MySQL_Client_new_def
    by (rule reaches_seqA [OF reaches_modify_my [OF at']], rule reaches_seqA, rule con, simp add: new_client_def, erule dump)
  then show ?thesis using opn(2)
    by (intro that [of "?c2\<lparr>my_next_seq := 1, my_binlog_read_state := READING_FIRST_EVENT, my_expected_binlog_seq := 1\<rparr>"])
      (simp_all add: client_opening_def)
qed

lemma open_session_run:
  assumes E: "evbuffer_spec E v"
    and inp: "ch_inp s = server_opening g k info a @ inp" and live: "live (length (client_opening P g username password rnd filename position) + 1) s"
    and ok: "server_accepts P F fuel host port g k info a" and P: "scoped_fd_spec P" "\<And>x. length (sha256 P x) = 32"
    and len: "length username < 2 ^ 20" "length filename < 2 ^ 20"
  obtains s' where "open_session fuel E P F rnd host port username password filename position s = (Ret (), s')"
    and "client_ready P 0 inp s'" and "ch_out s' = ch_out s @ client_opening P g username password rnd filename position"
    and "my_next_seq (my s') = 1" and "my_binlog_read_state (my s') = READING_FIRST_EVENT"
proof -
  have at: "client_at (v (ch_buf s)) (server_opening g k info a @ inp) (ch_out s)
      (length (client_opening P g username password rnd filename position) + 1) (my s) (chan_abs v s)"
    using client_at_abs [OF live, of v] unfolding inp .
  obtain c' where r: "reaches (open_session fuel (evb_ref E) P F rnd host port username password filename position) (chan_abs v s) ()
      (client_at [] inp (ch_out s @ client_opening P g username password rnd filename position) 0 c')"
    and c': "fd_is_open P (my_fd c')" "my_next_seq c' = 1" "my_binlog_read_state c' = READING_FIRST_EVENT"
    unfolding evb_ref_def by (rule open_session_list [OF at ok P len])
  from reaches_chanE [OF open_session_sim [OF E] r] obtain s' where s': "open_session fuel E P F rnd host port username password filename position s = (Ret (), s')"
    "ch_inp s' = inp" "ch_out s' = ch_out s @ client_opening P g username password rnd filename position" "live 0 s'" "chan.more s' = client_more c'" .
  then have "my s' = c'" by (simp add: client_more_iff)
  with s' c' show ?thesis by (intro that [of s']) (simp_all add: client_ready_def)
qed

text \<open>The reader's state when its loop begins.\<close>

definition reader_begun :: "bytes \<Rightarrow> u64 \<Rightarrow> reader \<Rightarrow> reader" where
  "reader_begun filename position r = r\<lparr>rd_filename := filename, rd_proc := BinlogProcessor_new,
     rd_out := rd_out r @ printed (fprintf ''-- starting at %s:%lu\<newline>\<newline>'' [c_str filename, P_int (uint position)])\<rparr>"

lemma reader_run_begins:
  assumes "open_session fuel E P F rnd host port u p filename position s = (Ret (), s')" and "filename \<noteq> []" and "position \<noteq> 0"
  shows "reader_run n fuel E P F R rnd host port u p filename position (s, r) = reader_loop n fuel E P R (s', reader_begun filename position r)"
proof -
  from assms(1) obtain s1 s2 where st: "MySQL_Client_new host port u p s = (Ret (), s1)" "MySQL_connect fuel E P s1 = (Ret (), s2)"
    "read_binlogs fuel E P F rnd filename position 0 True s2 = (Ret (), s')"
    unfolding open_session_def by (auto elim!: seqA_RetE)
  have m: "master_start fuel E P F filename position = retA (filename, position)" using assms(2,3) by (simp add: master_start_def)
  have o: "on_stdout (\<lambda>f. fprintf fmt (args f)) q = (Ret (), q\<lparr>rd_out := rd_out q @ printed (fprintf fmt (args (rd_filename q)))\<rparr>)" for fmt args q
    by (rule on_stdout_appends) (rule appends_fprintf_ex)
  show ?thesis unfolding reader_run_def m by (simp add: seqA_def bindA_def on_client_def on_reader_def st o reader_begun_def)
qed

text \<open>C19: A whole session of the binary log reader.  The client connects, is greeted, logs in, turns checksums
  on and asks for the log from the given position; the server accepts, sends the events of the log,
  in packets cut into pieces in any way, and ends the stream.  Then the client has sent exactly
  the login, the query and the request; every event has been handled once, in order, by the
  processor and the printer; the loop has ended with the exception for the end of the stream; and
  what the server sends next is still unread.\<close>

theorem reader_session:
  assumes "evbuffer_spec E v" and "scoped_fd_spec P" and "\<forall>x. length (sha256 P x) = 32" and "server_accepts P F fuel host port g k info a"
    and "ch_inp s = server_opening g k info a @ frames 1 (stream_payloads first evs @ [[0xFE]]) @ rest"
    and "live (length (client_opening P g username password rnd filename position) + 1) s"
    and "length username < 2 ^ 20" and "length filename < 2 ^ 20" and "filename \<noteq> []" and "position \<noteq> 0"
    and "length first + 1 < 2 ^ 24" and "\<forall>(ev, crc)\<in>set evs. length crc = 4 \<and> length ev + 5 < 2 ^ 24"
    and "handle_events fuel P R (first # map fst evs) (reader_begun filename position r) = (Ret (), r')"
  shows "\<exists>s'. reader_run (length evs + 2) fuel E P F R rnd host port username password filename position (s, r) =
      (Throw (Out_of_range ''end of binlog stream''), s', r') \<and>
    ch_out s' = ch_out s @ client_opening P g username password rnd filename position \<and> ch_inp s' = rest \<and>
    my_binlog_read_state (my s') = NOT_READING"
proof -
  obtain s1 where o: "open_session fuel E P F rnd host port username password filename position s = (Ret (), s1)"
    and rdy: "client_ready P 0 (frames 1 (stream_payloads first evs @ [[0xFE]]) @ rest) s1"
    and s1: "ch_out s1 = ch_out s @ client_opening P g username password rnd filename position" "my_next_seq (my s1) = 1"
      "my_binlog_read_state (my s1) = READING_FIRST_EVENT"
    by (rule open_session_run [OF assms(1,5,6,4,2) _ assms(7,8)]) (use assms(3) in blast)
  obtain s2 s3 where ev: "get_binlog_events E P (Suc (length evs)) s1 = (Ret (first # map fst evs), s2)"
    and fin: "get_binlog_event E P s2 = (Throw (Out_of_range ''end of binlog stream''), s3)"
    and s3: "my_binlog_read_state (my s3) = NOT_READING" "ch_inp s3 = rest" "ch_out s3 = ch_out s1"
    by (rule stream_run [OF assms(1) rdy [folded s1(2)] s1(3) assms(11,12)])
  have n: "length evs + 2 = Suc (length evs) + 1" by simp
  have "reader_run (length evs + 2) fuel E P F R rnd host port username password filename position (s, r) =
      reader_loop (Suc (length evs) + 1) fuel E P R (s1, reader_begun filename position r)"
    unfolding n by (rule reader_run_begins [OF o assms(9,10)])
  also have "\<dots> = reader_loop 1 fuel E P R (s2, r')" by (rule reader_loop_run [OF ev assms(13)])
  also have "\<dots> = (Throw (Out_of_range ''end of binlog stream''), s3, r')" by (simp add: on_client_def bindA_def fin)
  finally show ?thesis using s1 s3 by auto
qed

definition session_client :: "bytes mysql_client" where
  "session_client = \<lparr>ch_buf = [], ch_inp = server_opening example_greeting 1 [] (A_ok 0 0 2 0 []) @
     frames 1 (stream_payloads (rotate_payload example_rotate) [] @ [[0xFE]]) @ [],
     ch_sched = replicate 600 (Os_ok 7), ch_out = [], my = example_fields\<rparr>"

definition session_reader :: reader where
  "session_reader = \<lparr>rd_proc = BinlogProcessor_new, rd_filename = [], rd_out = []\<rparr>"

theorem reader_session_witness:
  "\<exists>s' r'. reader_run 2 2 (evb_list 0) phosg_model example_floats sr_list 5 [] 3306 (ascii ''u'') (ascii ''p'') (ascii ''log'') 4 (session_client, session_reader) =
     (Throw (Out_of_range ''end of binlog stream''), s', r') \<and> rd_filename r' = [98]"
proof -
  let ?first = "rotate_payload example_rotate" and ?b = "reader_begun (ascii ''log'') 4 session_reader"
  have sha: "\<forall>x. length (sha256 phosg_model x) = 32" by (auto simp: phosg_model_def min_def)
  have acc: "server_accepts phosg_model example_floats 2 [] 3306 example_greeting 1 [] (A_ok 0 0 2 0 [])"
    by (simp add: server_accepts_def phosg_model_def greeting_ok_def example_greeting_def ascii_def is_last_def MORE_RESULTS_EXIST_def exI [of _ 5])
  have inp: "ch_inp session_client = server_opening example_greeting 1 [] (A_ok 0 0 2 0 []) @ frames 1 (stream_payloads ?first [] @ [[0xFE]]) @ []"
    by (simp add: session_client_def)
  have resp: "length (auth_answer phosg_model x y) = 32" for x y using sha by (simp add: auth_answer_def)
  have "length (client_opening phosg_model example_greeting (ascii ''u'') (ascii ''p'') 5 (ascii ''log'') 4) < 250"
    by (simp add: client_opening_def login_payload_def var_text_def varint_bytes_def command_frame_def checksum_sql_def quoted_def dump_payload_def ascii_def resp)
  moreover have "length (ch_inp session_client) < 250"
    by (simp add: session_client_def server_opening_def greeting_payload_def example_greeting_def command_frame_def ok_payload_def varint_bytes_def
        stream_payloads_def rotate_payload_def example_rotate_def ascii_def)
  ultimately have live: "live (length (client_opening phosg_model example_greeting (ascii ''u'') (ascii ''p'') 5 (ascii ''log'') 4) + 1) session_client"
    by (simp add: live_def) (simp add: session_client_def)
  have ty: "eh_type (ro_header example_rotate) = event_code ROTATE_EVENT" by (simp add: example_rotate_def example_header_def)
  define r' where "r' = snd (handle_event 2 phosg_model sr_list ?first ?b)"
  have h: "handle_events 2 phosg_model sr_list (?first # map fst ([] :: (bytes \<times> bytes) list)) ?b = (Ret (), r')"
    unfolding r'_def handle_events_def by (simp add: seqA_def bindA_def handle_rotate [OF sr_list_spec ty])
  have f: "rd_filename r' = [98]" unfolding r'_def handle_rotate [OF sr_list_spec ty] by (simp add: example_rotate_def)
  have n: "length (ascii ''u'') < 2 ^ 20" "length (ascii ''log'') < 2 ^ 20" "ascii ''log'' \<noteq> []" "(4 :: u64) \<noteq> 0" "length ?first + 1 < 2 ^ 24"
    "\<forall>(ev, crc)\<in>set ([] :: (bytes \<times> bytes) list). length crc = 4 \<and> length ev + 5 < 2 ^ 24"
    by (simp_all add: ascii_def rotate_payload_def example_rotate_def)
  from reader_session [OF evb_list_spec [of 0, OF order_refl] phosg_model_spec(2) sha acc inp live n h] f show ?thesis by (auto simp: numeral_2_eq_2)
qed

end
