(* ===== verification/Binlog_Stats.thy ===== *)
theory Binlog_Stats
  imports Binlog_Session
begin

text \<open>
  Examples/MySQLBinlogStats.cc: a program that follows a server's binary log and sends metrics about it
  to a StatsD server or to the standard output.  It uses the MySQL client and the binary log
  processor to read, and a Buffer of its own to write the lines.
\<close>

section \<open>StatsDClient\<close>

text \<open>
  The client of a StatsD server has a buffer and a descriptor.  The connection to the server is the part
  \<open>chan\<close> of the record; \<open>sd_closed\<close> has the descriptors that were closed.
\<close>

record 'b statsd = "'b chan" +
  sd_hostname :: bytes
  sd_port :: u16
  sd_fd :: int
  sd_stdout :: bool
  sd_closed :: "int list"

text \<open>
  What the system calls and phosg's functions return: the resolution of the address, the new
  socket, whether it can be made nonblocking, the result of \<open>connect\<close> with whether \<open>errno\<close> is \<open>EINPROGRESS\<close>,
  and the text of the error.
\<close>

record statsd_os =
  os_sockaddr :: "bytes \<Rightarrow> u16 \<Rightarrow> unit outcome"
  os_socket :: int
  os_nonblocking :: "int \<Rightarrow> unit outcome"
  os_connect :: "int \<times> bool"
  os_error :: string

text \<open>An unordered map, as the list of its entries in the order of iteration, which \<open>H\<close> chooses anew at every change.\<close>

type_synonym tags = "(bytes \<times> bytes) list"

definition tags_emplace :: "(tags \<Rightarrow> tags) \<Rightarrow> bytes \<Rightarrow> bytes \<Rightarrow> tags \<Rightarrow> tags" where
  "tags_emplace H k x tags = (if k \<in> fst ` set tags then tags else H ((k, x) # tags))"

definition tags_erase :: "bytes \<Rightarrow> tags \<Rightarrow> tags" where
  "tags_erase k tags = filter (\<lambda>t. fst t \<noteq> k) tags"

definition close_fd :: "('b statsd, unit) act" where
  "close_fd = modifyA (\<lambda>s. s\<lparr>sd_closed := sd_closed s @ [sd_fd s], sd_fd := -1\<rparr>)"

text \<open>The lines that the loop over the tags adds; \<open>is_first\<close> is set before the loop and not changed in it.\<close>

fun add_tags :: "'b evbuffer_api \<Rightarrow> bool \<Rightarrow> tags \<Rightarrow> ('b statsd, unit) act" where
  "add_tags E is_first [] = retA ()"
| "add_tags E is_first ((k, x) # tags) =
     seqA (if is_first then on_buf (Buffer_add E (ascii ''|#'')) else on_buf (Buffer_add E (ascii '','')))
     (seqA (if x = [] then on_buf (Buffer_add_string E (c_chars k))
            else seqA (on_buf (Buffer_add_printf E ''%s:%s'' [c_str k, c_str x])) (retA ()))
     (add_tags E is_first tags))"

text \<open>The bits of the \<open>double\<close> 1.0.\<close>

definition rate_one :: u64 where
  "rate_one = 0x3FF0000000000000"

definition StatsDClient_send :: "'b evbuffer_api \<Rightarrow> bytes \<Rightarrow> u64 \<Rightarrow> char \<Rightarrow> tags \<Rightarrow> u64 \<Rightarrow> ('b statsd, unit) act" where
  "StatsDClient_send E metric val type tags sample_rate = bindA (on_buf (Buffer_get_length E)) (\<lambda>n.
     if n \<noteq> 0 then throwA (Logic_error ''Buffer was not empty before statsd line generation'')
     else seqA (on_buf (Buffer_add_reference E metric))
       (seqA (on_buf (Buffer_add_printf E '':%lg|%c'' [P_double val, P_int (of_char type)]))
       (seqA (whenA (type = CHR ''m'') (on_buf (Buffer_add E (ascii ''s''))))
       (seqA (whenA (sample_rate \<noteq> rate_one) (seqA (on_buf (Buffer_add_printf E ''|@%lg'' [P_double sample_rate])) (retA ())))
       (seqA (add_tags E True tags)
       (bindA (getsA sd_stdout) (\<lambda>out. seqA (whenA out (on_buf (Buffer_add E (ascii ''\<newline>''))))
       (Buffer_write E (-1)))))))))"

section \<open>The program\<close>

text \<open>\<open>st_err\<close> is what has been written to the standard error.\<close>

record 'b stats =
  st_proc :: binlog_processor
  st_filename :: bytes
  st_position :: u64
  st_transaction :: u64
  st_statsd :: "'b statsd"
  st_err :: bytes

definition on_statsd :: "('b statsd, 'a) act \<Rightarrow> ('b stats, 'a) act" where
  "on_statsd m = (\<lambda>s. case m (st_statsd s) of (r, d) \<Rightarrow> (r, s\<lparr>st_statsd := d\<rparr>))"

definition on_stats_proc :: "(binlog_processor, 'a) act \<Rightarrow> ('b stats, 'a) act" where
  "on_stats_proc m = (\<lambda>s. case m (st_proc s) of (r, p) \<Rightarrow> (r, s\<lparr>st_proc := p\<rparr>))"

definition on_stderr :: "(bytes, 'a) act \<Rightarrow> ('b stats, 'a) act" where
  "on_stderr m = (\<lambda>s. case m (st_err s) of (r, d) \<Rightarrow> (r, s\<lparr>st_err := d\<rparr>))"

definition StatsDClient_new :: "'b evbuffer_api \<Rightarrow> statsd_os \<Rightarrow> bytes \<Rightarrow> u16 \<Rightarrow> ('b stats, unit) act" where
  "StatsDClient_new E N hostname port =
     seqA (on_statsd (modifyA (\<lambda>s. s\<lparr>sd_hostname := hostname, sd_port := port, sd_fd := -1, sd_stdout := False\<rparr>)))
     (seqA (on_statsd (Buffer_new E))
     (if hostname = [] then seqA (on_stderr (fprintf ''sending output to stdout\<newline>'' []))
        (on_statsd (modifyA (\<lambda>s. s\<lparr>sd_fd := 1, sd_stdout := True\<rparr>)))
      else seqA (on_stderr (fprintf ''sending output to %s:%hu\<newline>'' [c_str hostname, P_int (uint port)]))
        (seqA (liftO (os_sockaddr N hostname port))
        (seqA (on_statsd (modifyA (\<lambda>s. s\<lparr>sd_fd := os_socket N\<rparr>)))
        (if os_socket N = -1 then throwA (Runtime_error (''can'' @ [CHR 0x27] @ ''t create socket: '' @ os_error N))
         else seqA (liftO (os_nonblocking N (os_socket N)))
          (if fst (os_connect N) = -1 \<and> \<not> snd (os_connect N)
           then seqA (on_statsd close_fd) (throwA (Runtime_error (''can'' @ [CHR 0x27] @ ''t connect socket: '' @ os_error N)))
           else retA ()))))))"

definition StatsDClient_destroy :: "('b statsd, unit) act" where
  "StatsDClient_destroy = bindA (getsA (\<lambda>s. \<not> sd_stdout s \<and> 0 \<le> sd_fd s)) (\<lambda>c. whenA c close_fd)"

record options =
  op_host :: bytes
  op_port :: u16
  op_username :: bytes
  op_password :: bytes
  op_start_filename :: "bytes option"
  op_start_position :: u64
  op_stats_host :: bytes
  op_stats_port :: u16
  op_constant_tags :: tags

definition Options_new :: options where
  "Options_new = \<lparr>op_host = ascii ''127.0.0.1'', op_port = 3306, op_username = ascii ''root'', op_password = ascii ''root'',
     op_start_filename = None, op_start_position = 0, op_stats_host = [], op_stats_port = 8125, op_constant_tags = []\<rparr>"

text \<open>A call of \<open>send\<close> with an integer, which is converted, and the default sample rate.\<close>

definition send_metric :: "'b evbuffer_api \<Rightarrow> tags \<Rightarrow> string \<Rightarrow> u64 \<Rightarrow> char \<Rightarrow> ('b stats, unit) act" where
  "send_metric E tags name val type = on_statsd (StatsDClient_send E (ascii name) (double_of val) type tags rate_one)"

text \<open>The digits of a file name as a number; \<open>isdigit\<close> is defined for the values of an unsigned character and \<open>EOF\<close>, a \<open>char\<close> is signed.\<close>

fun filename_number :: "u64 \<Rightarrow> bytes \<Rightarrow> u64 outcome" where
  "filename_number n [] = Ret n"
| "filename_number n (ch # chs) =
     (if 128 \<le> ch \<and> ch \<noteq> 255 then Throw (Undefined_behaviour ''isdigit of a negative character'')
      else filename_number (if is_digit ch then n * 10 + (ucast ch - 48) else n) chs)"

definition sum_bytes :: "(row_change \<Rightarrow> nat) \<Rightarrow> rows_event \<Rightarrow> u64" where
  "sum_bytes f ev = foldl (\<lambda>n row. n + word_of_nat (f row)) 0 (re_rows ev)"

definition stats_rows :: "'b evbuffer_api \<Rightarrow> tags \<Rightarrow> rows_event \<Rightarrow> ('b stats, unit) act" where
  "stats_rows E tags ev = (let pre_bytes = sum_bytes rc_pre_bytes ev; post_bytes = sum_bytes rc_post_bytes ev;
       rows = word_of_nat (length (re_rows ev)) in
     case re_write_type ev of
       W_INSERT \<Rightarrow> seqA (send_metric E tags ''mysql.binlog.insert_events'' 1 CHR ''c'')
         (seqA (send_metric E tags ''mysql.binlog.insert_rows'' rows CHR ''d'')
         (send_metric E tags ''mysql.binlog.insert_bytes'' post_bytes CHR ''d''))
     | W_UPDATE \<Rightarrow> seqA (send_metric E tags ''mysql.binlog.update_events'' 1 CHR ''c'')
         (seqA (send_metric E tags ''mysql.binlog.update_rows'' rows CHR ''d'')
         (seqA (send_metric E tags ''mysql.binlog.update_pre_bytes'' pre_bytes CHR ''d'')
         (seqA (send_metric E tags ''mysql.binlog.update_post_bytes'' post_bytes CHR ''d'')
         (send_metric E tags ''mysql.binlog.update_delta_bytes'' (post_bytes - pre_bytes) CHR ''d''))))
     | W_DELETE \<Rightarrow> seqA (send_metric E tags ''mysql.binlog.delete_events'' 1 CHR ''c'')
         (seqA (send_metric E tags ''mysql.binlog.delete_rows'' rows CHR ''d'')
         (send_metric E tags ''mysql.binlog.delete_bytes'' pre_bytes CHR ''d'')))"

definition set_transaction :: "u64 \<Rightarrow> ('b stats, unit) act" where
  "set_transaction n = modifyA (\<lambda>s. s\<lparr>st_transaction := n\<rparr>)"

definition stats_query :: "'b evbuffer_api \<Rightarrow> (tags \<Rightarrow> tags) \<Rightarrow> tags \<Rightarrow> bytes \<Rightarrow> query_event \<Rightarrow> ('b stats, unit) act" where
  "stats_query E H tags data ev = (let tags = (if qe_database_name ev \<noteq> [] then tags_emplace H (ascii ''db_name'') (qe_database_name ev) tags else tags) in
     if qe_query ev = ascii ''BEGIN'' then
       seqA (set_transaction (word_of_nat (length data))) (send_metric E tags ''mysql.binlog.transaction_begin'' 1 CHR ''c'')
     else if qe_query ev = ascii ''COMMIT'' then
       seqA (send_metric E tags ''mysql.binlog.transaction_commit'' 1 CHR ''c'')
       (bindA (getsA st_transaction) (\<lambda>n. seqA (send_metric E tags ''mysql.binlog.transaction_event_bytes'' n CHR ''d'')
       (set_transaction 0)))
     else send_metric E tags ''mysql.binlog.query'' 1 CHR ''c'')"

definition stats_rotate :: "'b evbuffer_api \<Rightarrow> tags \<Rightarrow> rotate_event \<Rightarrow> ('b stats, unit) act" where
  "stats_rotate E tags ev = seqA (modifyA (\<lambda>s. s\<lparr>st_filename := ro_next_filename ev\<rparr>))
     (bindA (liftO (filename_number 0 (ro_next_filename ev))) (\<lambda>n.
     seqA (send_metric E tags ''mysql.binlog.rotate_binlog_file'' 1 CHR ''c'')
     (send_metric E tags ''mysql.binlog.parser_file_index'' n CHR ''g'')))"

definition stats_xid :: "'b evbuffer_api \<Rightarrow> tags \<Rightarrow> ('b stats, unit) act" where
  "stats_xid E tags = seqA (send_metric E tags ''mysql.binlog.transaction_commit_xid'' 1 CHR ''c'')
     (bindA (getsA st_transaction) (\<lambda>n. seqA (send_metric E tags ''mysql.binlog.transaction_event_bytes'' n CHR ''d'')
     (set_transaction 0)))"

text \<open>The switch on the type of an event.\<close>

definition stats_switch :: "nat \<Rightarrow> 'b evbuffer_api \<Rightarrow> 'r string_reader_api \<Rightarrow> (tags \<Rightarrow> tags) \<Rightarrow> tags \<Rightarrow> bytes \<Rightarrow> u8 \<Rightarrow> ('b stats, unit) act" where
  "stats_switch fuel E R H tags data t =
     (if t = event_code TABLE_MAP_EVENT then seqA (on_stats_proc (parse_table_map_event R data)) (retA ())
      else if t \<in> set (map event_code rows_event_types) then
        bindA (on_stats_proc (parse_rows_event fuel R data)) (\<lambda>ev.
          stats_rows E (tags_emplace H (ascii ''table_name'') (ti_table_name (re_ti ev)) (tags_emplace H (ascii ''db_name'') (ti_database_name (re_ti ev)) tags)) ev)
      else if t = event_code QUERY_EVENT then bindA (on_stats_proc (parse_query_event R data)) (stats_query E H tags data)
      else if t = event_code STOP_EVENT then seqA (on_stats_proc (parse_unknown_event data)) (retA ())
      else if t = event_code XID_EVENT then seqA (on_stats_proc (parse_xid_event R data)) (stats_xid E tags)
      else if t = event_code ROTATE_EVENT then bindA (on_stats_proc (parse_rotate_event R data)) (stats_rotate E tags)
      else if t = event_code FORMAT_DESCRIPTION_EVENT then seqA (on_stats_proc (parse_format_description_event R data)) (retA ())
      else if t = event_code PREVIOUS_GTIDS_EVENT \<or> t = event_code ANONYMOUS_GTID_EVENT then seqA (on_stats_proc (parse_unknown_event data)) (retA ())
      else seqA (on_stats_proc (parse_unknown_event data)) (send_metric E tags ''mysql.binlog.unknown_event'' 1 CHR ''c''))"

text \<open>One turn of the loop, with the event that was received.\<close>

definition stats_event :: "nat \<Rightarrow> 'b evbuffer_api \<Rightarrow> 'r string_reader_api \<Rightarrow> (tags \<Rightarrow> tags) \<Rightarrow> tags \<Rightarrow> bytes \<Rightarrow> ('b stats, unit) act" where
  "stats_event fuel E R H constant_tags data =
     seqA (modifyA (\<lambda>s. s\<lparr>st_transaction := st_transaction s + word_of_nat (length data)\<rparr>))
     (bindA (liftO (get_event_header data)) (\<lambda>h.
      seqA (whenA (eh_end_position h \<noteq> 0) (modifyA (\<lambda>s. s\<lparr>st_position := ucast (eh_end_position h) - word_of_nat (length data) - 4\<rparr>)))
      (let tags = tags_emplace H (ascii ''binlog_event_type'') (ascii (name_for_binlog_event_type (eh_type h))) (H constant_tags) in
       seqA (send_metric E tags ''mysql.binlog.event_bytes'' (word_of_nat (length data)) CHR ''d'')
       (let tags = tags_erase (ascii ''binlog_event_type'') tags in
        bindA (getsA st_position) (\<lambda>position. seqA (whenA (position \<noteq> 0) (send_metric E tags ''mysql.binlog.parser_position'' position CHR ''g''))
        (stats_switch fuel E R H tags data (eh_type h)))))))"

fun binlog_stats_loop :: "nat \<Rightarrow> nat \<Rightarrow> 'b evbuffer_api \<Rightarrow> phosg_api \<Rightarrow> 'r string_reader_api \<Rightarrow> (tags \<Rightarrow> tags) \<Rightarrow> tags \<Rightarrow> ('b mysql_client \<times> 'b stats, unit) act" where
  "binlog_stats_loop 0 fuel E P R H tags = throwA Out_of_fuel"
| "binlog_stats_loop (Suc n) fuel E P R H tags = bindA (on_client (get_binlog_event E P)) (\<lambda>data.
     seqA (on_reader (stats_event fuel E R H tags data)) (binlog_stats_loop n fuel E P R H tags))"

text \<open>The coroutine.  The conversion of a null pointer to a string has no meaning.\<close>

definition generate_binlog_stats :: "nat \<Rightarrow> nat \<Rightarrow> 'b evbuffer_api \<Rightarrow> phosg_api \<Rightarrow> float_api \<Rightarrow> 'r string_reader_api \<Rightarrow> (tags \<Rightarrow> tags) \<Rightarrow> statsd_os
    \<Rightarrow> u32 \<Rightarrow> options \<Rightarrow> ('b mysql_client \<times> 'b stats, unit) act" where
  "generate_binlog_stats n fuel E P F R H N rnd opts =
     seqA (on_client (MySQL_Client_new (op_host opts) (op_port opts) (op_username opts) (op_password opts)))
     (seqA (on_client (MySQL_connect fuel E P))
     (bindA (case op_start_filename opts of None \<Rightarrow> throwA (Undefined_behaviour ''string from a null pointer'') | Some f \<Rightarrow> retA f) (\<lambda>start_filename.
     seqA (whenA (start_filename = [] \<or> op_start_position opts = 0) (on_reader (on_stderr (fprintf ''reading master position from server\<newline>'' []))))
     (bindA (master_start fuel E P F start_filename (op_start_position opts)) (\<lambda>(current_filename, current_position).
     seqA (on_reader (StatsDClient_new E N (op_stats_host opts) (op_stats_port opts)))
     (seqA (on_client (read_binlogs fuel E P F rnd current_filename current_position 0 True))
     (seqA (on_reader (on_stderr (fprintf ''starting at %s:%lu\<newline>\<newline>'' [c_str current_filename, P_int (uint current_position)])))
     (seqA (on_reader (modifyA (\<lambda>s. s\<lparr>st_filename := current_filename, st_position := current_position, st_proc := BinlogProcessor_new, st_transaction := 0\<rparr>)))
       (binlog_stats_loop n fuel E P R H (op_constant_tags opts))))))))))"

section \<open>Lines\<close>

text \<open>A metric: its name, value, type and tags; and the line that is sent for it.\<close>

type_synonym metric = "string \<times> u64 \<times> char \<times> tags"

definition tag_text :: "bytes \<times> bytes \<Rightarrow> bytes" where
  "tag_text t = ascii ''|#'' @ c_chars (fst t) @ (if snd t = [] then [] else ascii '':'' @ c_chars (snd t))"

definition metric_line :: "bool \<Rightarrow> metric \<Rightarrow> bytes" where
  "metric_line out mt = (case mt of (name, val, type, tags) \<Rightarrow>
     ascii name @ ascii '':'' @ ascii (binary_text 52 11 (unat (double_of val))) @ ascii ''|'' @ [of_char type] @
     (if type = CHR ''m'' then ascii ''s'' else []) @ concat (map tag_text tags) @ (if out then ascii ''\<newline>'' else []))"

lemma value_format: "ascii (c_printf '':%lg|%c'' [P_double x, P_int (of_char ty)]) = ascii '':'' @ ascii (binary_text 52 11 (unat x)) @ ascii ''|'' @ [of_char ty]"
proof -
  have "(of_char ty :: int) mod 256 = of_char ty" by (metis mod_pos_pos_trivial of_char_mod_256)
  moreover have "char_of (nat (of_char ty)) = ty" by (metis char_of_char nat_int of_nat_of_char)
  ultimately show ?thesis by (simp add: c_printf_def conversion_of_def convert_def pad_def ascii_Cons)
qed

lemma tag_format: "ascii (c_printf ''%s:%s'' [c_str k, c_str x]) = c_chars k @ ascii '':'' @ c_chars x"
  by (simp add: c_printf_def conversion_of_def convert_def pad_def c_str_def c_chars_def ascii_Cons)

lemma sd_stdout_more: "chan.more (s :: 'b statsd) = chan.more (t :: 'c statsd) \<Longrightarrow> sd_stdout s = sd_stdout t"
  by (cases s; cases t) simp

lemma reaches_add_tags:
  "chan_at b inp out w x s \<Longrightarrow> reaches (add_tags (evb_list z) True tags) s () (chan_at (b @ concat (map tag_text tags)) inp out w x)"
proof (induction tags arbitrary: b s)
  case (Cons t tags)
  obtain k y where t: "t = (k, y)" by (cases t)
  have 1: "reaches (if y = [] then on_buf (Buffer_add_string (evb_list z) (c_chars k))
       else seqA (on_buf (Buffer_add_printf (evb_list z) ''%s:%s'' [c_str k, c_str y])) (retA ())) s1 ()
     (chan_at (b @ tag_text t) inp out w x)" if "chan_at (b @ ascii ''|#'') inp out w x s1" for s1
    by (cases "y = []") (use that in \<open>auto intro!: reaches_on_buf [THEN reaches_mono] reaches_seqA [OF reaches_on_buf] reaches_retA simp: t tag_text_def tag_format\<close>)
  show ?case unfolding t add_tags.simps if_True
    apply (rule reaches_seqA, rule reaches_on_buf [OF Cons.prems], simp)
    apply (rule reaches_seqA, erule 1)
    apply (rule reaches_mono, erule Cons.IH)
    apply (simp add: t)
    done
qed (simp add: reaches_retA)

lemma reaches_statsd_send:
  fixes s t :: "bytes statsd"
  assumes at: "chan_at [] inp out (length (metric_line (sd_stdout t) (name, val, type, tags)) + w) (chan.more t) s"
    and len: "length (metric_line (sd_stdout t) (name, val, type, tags)) < 2 ^ 63"
  shows "reaches (StatsDClient_send (evb_list z) (ascii name) (double_of val) type tags rate_one) s ()
    (chan_at [] inp (out @ metric_line (sd_stdout t) (name, val, type, tags)) w (chan.more t))"
proof -
  let ?l = "metric_line (sd_stdout t) (name, val, type, tags)" and ?W = "length (metric_line (sd_stdout t) (name, val, type, tags)) + w"
  have add: "reaches (whenA c (on_buf (Buffer_add (evb_list z) d))) s1 () (chan_at (b @ (if c then d else [])) inp out ?W (chan.more t))"
    if "chan_at b inp out ?W (chan.more t) s1" for c d b and s1 :: "bytes statsd"
    using that by (auto simp: whenA_def intro!: reaches_on_buf reaches_retA)
  have get: "reaches (getsA sd_stdout) s1 (sd_stdout t) (chan_at b inp out ?W (chan.more t))" if "chan_at b inp out ?W (chan.more t) s1" for b and s1 :: "bytes statsd"
    using that sd_stdout_more [of s1 t] by (auto simp: reaches_def chan_at_def)
  have wr: "reaches (Buffer_write (evb_list z) (-1)) s1 () (chan_at [] inp (out @ ?l) w (chan.more t))" if "chan_at ?l inp out ?W (chan.more t) s1" for s1 :: "bytes statsd"
    by (rule reaches_write [OF that _ len]) (simp add: metric_line_def ascii_def)
  have skip: "seqA (whenA False m) n = n" for m and n :: "(bytes statsd, unit) act" by (simp add: whenA_def seqA_def)
  show ?thesis unfolding StatsDClient_send_def
    apply (rule reaches_bindA, rule reaches_on_buf [OF at], simp, simp only: list.size simp_thms if_False)
    apply (rule reaches_seqA, erule reaches_on_buf, simp)
    apply (rule reaches_seqA, erule reaches_on_buf, simp)
    apply (rule reaches_seqA, erule add)
    apply (subst skip)
    apply (rule reaches_seqA, erule reaches_add_tags)
    apply (rule reaches_bindA, erule get)
    apply (rule reaches_seqA, erule add)
    apply (rule wr, simp add: metric_line_def value_format ascii_Cons)
    done
qed

lemma add_tags_sim [sim_intros]:
  assumes "evbuffer_spec E v"
  shows "simA (chan_abs v) (add_tags E c tags) (add_tags (evb_ref E) c tags)"
proof (induction tags)
  case (Cons t tags)
  then show ?case by (cases t; cases "snd t = []") (auto intro!: sim_intros assms)
qed (simp only: add_tags.simps, rule sim_intros)

lemma sd_stdout_abs [simp]: "sd_stdout (chan_abs v (s :: 'b statsd)) = sd_stdout s"
  by (rule sd_stdout_more) (simp add: chan_abs_def)

lemma send_sim:
  assumes "evbuffer_spec E v"
  shows "simA (chan_abs v) (StatsDClient_send E m x ty tags r) (StatsDClient_send (evb_ref E) m x ty tags r)"
  unfolding StatsDClient_send_def by (intro sim_intros assms) simp

text \<open>The client between two calls: its buffer is empty, and \<open>n\<close> bytes can still be written.\<close>

definition statsd_at :: "('b \<Rightarrow> bytes) \<Rightarrow> bool \<Rightarrow> bytes \<Rightarrow> nat \<Rightarrow> 'b statsd \<Rightarrow> bool" where
  "statsd_at v b out n d \<longleftrightarrow> v (ch_buf d) = [] \<and> ch_out d = out \<and> sd_stdout d = b \<and> live n d"

lemma send_run:
  assumes "evbuffer_spec E v" and "statsd_at v b out (length (metric_line b mt) + w) d" and "length (metric_line b mt) < 2 ^ 63"
    and "mt = (name, val, type, tags)"
  obtains d' where "StatsDClient_send E (ascii name) (double_of val) type tags rate_one d = (Ret (), d')" and "statsd_at v b (out @ metric_line b mt) w d'"
proof -
  have so: "sd_stdout (chan_abs v d) = b" using assms(2) by (simp add: statsd_at_def)
  have "chan_at [] (ch_inp d) out (length (metric_line (sd_stdout (chan_abs v d)) (name, val, type, tags)) + w) (chan.more (chan_abs v d)) (chan_abs v d)"
    using assms(2) unfolding so assms(4) [symmetric] by (simp add: chan_at_def statsd_at_def chan_abs_def live_def)
  from reaches_statsd_send [OF this] have "reaches (StatsDClient_send (evb_ref E) (ascii name) (double_of val) type tags rate_one) (chan_abs v d) ()
      (chan_at [] (ch_inp d) (out @ metric_line b mt) w (chan.more (chan_abs v d)))"
    using assms(3) unfolding so assms(4) [symmetric] evb_ref_def by simp
  from reaches_chanE [OF send_sim [OF assms(1)] this] obtain d' where d': "StatsDClient_send E (ascii name) (double_of val) type tags rate_one d = (Ret (), d')"
    "v (ch_buf d') = []" "ch_out d' = out @ metric_line b mt" "live w d'" "chan.more d' = chan.more (chan_abs v d)" by metis
  then have "sd_stdout d' = b" using sd_stdout_more [OF d'(5)] so by simp
  with d' show ?thesis by (intro that [of d']) (simp_all add: statsd_at_def)
qed

section \<open>What is sent for an event\<close>

text \<open>The state of the program between two events, but for the text on the standard error.\<close>

definition stats_at :: "('b \<Rightarrow> bytes) \<Rightarrow> bool \<Rightarrow> bytes \<Rightarrow> nat \<Rightarrow> binlog_processor \<times> bytes \<times> u64 \<times> u64 \<Rightarrow> 'b stats \<Rightarrow> bool" where
  "stats_at v b out n x s \<longleftrightarrow> statsd_at v b out n (st_statsd s) \<and> x = (st_proc s, st_filename s, st_position s, st_transaction s)"

definition lines :: "bool \<Rightarrow> metric list \<Rightarrow> bytes" where
  "lines b ms = concat (map (metric_line b) ms)"

lemma lines_simps [simp]: "lines b [] = []" "lines b (mt # ms) = metric_line b mt @ lines b ms" "lines b (ms @ ns) = lines b ms @ lines b ns"
  by (simp_all add: lines_def)

definition sending :: "('b \<Rightarrow> bytes) \<Rightarrow> ('b stats, unit) act \<Rightarrow> metric list \<Rightarrow> (binlog_processor \<times> bytes \<times> u64 \<times> u64) \<Rightarrow> (binlog_processor \<times> bytes \<times> u64 \<times> u64) \<Rightarrow> bool" where
  "sending v m ms x y \<longleftrightarrow> (\<forall>b out n s. stats_at v b out (length (lines b ms) + n) x s \<longrightarrow> (\<forall>mt\<in>set ms. length (metric_line b mt) < 2 ^ 63) \<longrightarrow>
     reaches m s () (stats_at v b (out @ lines b ms) n y))"

lemma sendingD: "sending v m ms x y \<Longrightarrow> stats_at v b out (length (lines b ms) + n) x s \<Longrightarrow> \<forall>mt\<in>set ms. length (metric_line b mt) < 2 ^ 63 \<Longrightarrow>
     reaches m s () (stats_at v b (out @ lines b ms) n y)"
  by (auto simp: sending_def)

lemma sending_seqA:
  assumes "sending v m ms x y" and "sending v m' ms' y z"
  shows "sending v (seqA m m') (ms @ ms') x z"
  unfolding sending_def
proof (intro allI impI)
  fix b out n and s :: "'a stats"
  assume "stats_at v b out (length (lines b (ms @ ms')) + n) x s" and small: "\<forall>mt\<in>set (ms @ ms'). length (metric_line b mt) < 2 ^ 63"
  then have "stats_at v b out (length (lines b ms) + (length (lines b ms') + n)) x s" by (simp add: add.assoc)
  from sendingD [OF assms(1) this] small have "reaches m s () (stats_at v b (out @ lines b ms) (length (lines b ms') + n) y)" by auto
  then show "reaches (seqA m m') s () (stats_at v b (out @ lines b (ms @ ms')) n z)"
    by (rule reaches_seqA) (use sendingD [OF assms(2)] small in fastforce)
qed

lemma sending_retA: "sending v (retA ()) [] x x"
  by (simp add: sending_def reaches_def)

lemma sending_metric:
  assumes "evbuffer_spec E v"
  shows "sending v (send_metric E tags name val type) [(name, val, type, tags)] x x"
  unfolding sending_def
proof (intro allI impI)
  fix b out n and s :: "'a stats"
  let ?mt = "(name, val, type, tags)"
  assume at: "stats_at v b out (length (lines b [?mt]) + n) x s" and "\<forall>mt\<in>set [?mt]. length (metric_line b mt) < 2 ^ 63"
  then have "statsd_at v b out (length (metric_line b ?mt) + n) (st_statsd s)" "length (metric_line b ?mt) < 2 ^ 63" by (simp_all add: stats_at_def)
  from send_run [OF assms this refl] obtain d' where "StatsDClient_send E (ascii name) (double_of val) type tags rate_one (st_statsd s) = (Ret (), d')"
    "statsd_at v b (out @ metric_line b ?mt) n d'" .
  with at show "reaches (send_metric E tags name val type) s () (stats_at v b (out @ lines b [?mt]) n x)"
    by (auto simp: reaches_def send_metric_def on_statsd_def stats_at_def)
qed

lemma sending_modify:
  "(\<And>s. st_statsd (f s) = st_statsd s) \<Longrightarrow> (\<And>s. x = (st_proc s, st_filename s, st_position s, st_transaction s) \<Longrightarrow> y = (st_proc (f s), st_filename (f s), st_position (f s), st_transaction (f s))) \<Longrightarrow>
    sending v (modifyA f) [] x y"
  by (simp add: sending_def reaches_def stats_at_def)

lemma sending_proc:
  fixes v :: "'b \<Rightarrow> bytes"
  assumes "m p = (Ret r, p')" and "sending v (f r) ms (p', x) y"
  shows "sending v (bindA (on_stats_proc m) f) ms (p, x) y"
  unfolding sending_def
proof (intro allI impI)
  fix b out n and s :: "'b stats"
  assume at: "stats_at v b out (length (lines b ms) + n) (p, x) s" and small: "\<forall>mt\<in>set ms. length (metric_line b mt) < 2 ^ 63"
  have "reaches (on_stats_proc m) s r (stats_at v b out (length (lines b ms) + n) (p', x))"
    using at assms(1) by (auto simp: reaches_def on_stats_proc_def stats_at_def)
  then show "reaches (bindA (on_stats_proc m) f) s () (stats_at v b (out @ lines b ms) n y)"
    by (rule reaches_bindA) (use sendingD [OF assms(2)] small in blast)
qed

lemma sending_gets:
  assumes "\<And>s. x = (st_proc s, st_filename s, st_position s, st_transaction s) \<Longrightarrow> g s = c" and "sending v (f c) ms x y"
  shows "sending v (bindA (getsA g) f) ms x y"
  using assms by (auto simp: sending_def reaches_def bindA_def stats_at_def)

text \<open>
  What an event means for the metrics, as the processor parses it, the metrics that it causes, and how it
  changes the file name, the position and the number of bytes of the current transaction.
\<close>

datatype parsed = Pe_quiet | Pe_rows rows_event | Pe_query query_event | Pe_xid | Pe_rotate rotate_event | Pe_unknown

definition parse_event :: "nat \<Rightarrow> 'r string_reader_api \<Rightarrow> bytes \<Rightarrow> (binlog_processor, parsed) act" where
  "parse_event fuel R data = (let t = eh_type (header_of data) in
     if t = event_code TABLE_MAP_EVENT then seqA (parse_table_map_event R data) (retA Pe_quiet)
     else if t \<in> set (map event_code rows_event_types) then bindA (parse_rows_event fuel R data) (\<lambda>ev. retA (Pe_rows ev))
     else if t = event_code QUERY_EVENT then bindA (parse_query_event R data) (\<lambda>ev. retA (Pe_query ev))
     else if t = event_code STOP_EVENT then seqA (parse_unknown_event data) (retA Pe_quiet)
     else if t = event_code XID_EVENT then seqA (parse_xid_event R data) (retA Pe_xid)
     else if t = event_code ROTATE_EVENT then bindA (parse_rotate_event R data) (\<lambda>ev. retA (Pe_rotate ev))
     else if t = event_code FORMAT_DESCRIPTION_EVENT then seqA (parse_format_description_event R data) (retA Pe_quiet)
     else if t = event_code PREVIOUS_GTIDS_EVENT \<or> t = event_code ANONYMOUS_GTID_EVENT then seqA (parse_unknown_event data) (retA Pe_quiet)
     else seqA (parse_unknown_event data) (retA Pe_unknown))"

definition rows_metrics :: "tags \<Rightarrow> rows_event \<Rightarrow> metric list" where
  "rows_metrics tags ev = (let n = word_of_nat (length (re_rows ev));
       pre = word_of_nat (sum_list (map rc_pre_bytes (re_rows ev))); post = word_of_nat (sum_list (map rc_post_bytes (re_rows ev))) in
     case re_write_type ev of
       W_INSERT \<Rightarrow> [(''mysql.binlog.insert_events'', 1, CHR ''c'', tags), (''mysql.binlog.insert_rows'', n, CHR ''d'', tags),
         (''mysql.binlog.insert_bytes'', post, CHR ''d'', tags)]
     | W_UPDATE \<Rightarrow> [(''mysql.binlog.update_events'', 1, CHR ''c'', tags), (''mysql.binlog.update_rows'', n, CHR ''d'', tags),
         (''mysql.binlog.update_pre_bytes'', pre, CHR ''d'', tags), (''mysql.binlog.update_post_bytes'', post, CHR ''d'', tags),
         (''mysql.binlog.update_delta_bytes'', post - pre, CHR ''d'', tags)]
     | W_DELETE \<Rightarrow> [(''mysql.binlog.delete_events'', 1, CHR ''c'', tags), (''mysql.binlog.delete_rows'', n, CHR ''d'', tags),
         (''mysql.binlog.delete_bytes'', pre, CHR ''d'', tags)])"

definition transaction_metric :: "tags \<Rightarrow> u64 \<Rightarrow> metric" where
  "transaction_metric tags n = (''mysql.binlog.transaction_event_bytes'', n, CHR ''d'', tags)"

definition query_tags :: "(tags \<Rightarrow> tags) \<Rightarrow> tags \<Rightarrow> query_event \<Rightarrow> tags" where
  "query_tags H tags ev = (if qe_database_name ev \<noteq> [] then tags_emplace H (ascii ''db_name'') (qe_database_name ev) tags else tags)"

definition file_index :: "bytes \<Rightarrow> u64" where
  "file_index f = foldl (\<lambda>n ch. n * 10 + (ucast ch - 48)) 0 (filter is_digit f)"

fun switch_metrics :: "(tags \<Rightarrow> tags) \<Rightarrow> tags \<Rightarrow> u64 \<Rightarrow> parsed \<Rightarrow> metric list" where
  "switch_metrics H tags n Pe_quiet = []"
| "switch_metrics H tags n (Pe_rows ev) =
     rows_metrics (tags_emplace H (ascii ''table_name'') (ti_table_name (re_ti ev)) (tags_emplace H (ascii ''db_name'') (ti_database_name (re_ti ev)) tags)) ev"
| "switch_metrics H tags n (Pe_query ev) =
     (if qe_query ev = ascii ''BEGIN'' then [(''mysql.binlog.transaction_begin'', 1, CHR ''c'', query_tags H tags ev)]
      else if qe_query ev = ascii ''COMMIT'' then [(''mysql.binlog.transaction_commit'', 1, CHR ''c'', query_tags H tags ev), transaction_metric (query_tags H tags ev) n]
      else [(''mysql.binlog.query'', 1, CHR ''c'', query_tags H tags ev)])"
| "switch_metrics H tags n Pe_xid = [(''mysql.binlog.transaction_commit_xid'', 1, CHR ''c'', tags), transaction_metric tags n]"
| "switch_metrics H tags n (Pe_rotate ev) = [(''mysql.binlog.rotate_binlog_file'', 1, CHR ''c'', tags),
     (''mysql.binlog.parser_file_index'', file_index (ro_next_filename ev), CHR ''g'', tags)]"
| "switch_metrics H tags n Pe_unknown = [(''mysql.binlog.unknown_event'', 1, CHR ''c'', tags)]"

fun next_transaction :: "parsed \<Rightarrow> bytes \<Rightarrow> u64 \<Rightarrow> u64" where
  "next_transaction (Pe_query ev) data n = (if qe_query ev = ascii ''BEGIN'' then word_of_nat (length data) else if qe_query ev = ascii ''COMMIT'' then 0 else n)"
| "next_transaction Pe_xid data n = 0"
| "next_transaction _ data n = n"

fun next_file :: "parsed \<Rightarrow> bytes \<Rightarrow> bytes" where
  "next_file (Pe_rotate ev) f = ro_next_filename ev"
| "next_file _ f = f"

text \<open>A file name with characters that \<open>isdigit\<close> accepts.\<close>

fun parsed_ok :: "parsed \<Rightarrow> bool" where
  "parsed_ok (Pe_rotate ev) \<longleftrightarrow> (\<forall>ch\<in>set (ro_next_filename ev). ch < 128)"
| "parsed_ok _ \<longleftrightarrow> True"

lemma filename_number_run: "\<forall>ch\<in>set f. ch < 128 \<Longrightarrow> filename_number n f = Ret (foldl (\<lambda>n ch. n * 10 + (ucast ch - 48)) n (filter is_digit f))"
  by (induction f arbitrary: n) auto

lemma sum_bytes_sum: "sum_bytes f ev = word_of_nat (sum_list (map f (re_rows ev)))"
proof -
  have "foldl (\<lambda>n row. n + word_of_nat (f row)) m rows = m + word_of_nat (sum_list (map f rows))" for m :: u64 and rows
    by (induction rows arbitrary: m) simp_all
  then show ?thesis by (simp add: sum_bytes_def)
qed

lemmas sending_metric_seqA = sending_seqA [OF sending_metric, simplified]

lemma stats_rows_sending:
  assumes "evbuffer_spec E v"
  shows "sending v (stats_rows E tags ev) (rows_metrics tags ev) x x"
  unfolding stats_rows_def rows_metrics_def sum_bytes_sum Let_def
  by (cases "re_write_type ev") (simp_all add: sending_metric_seqA sending_metric assms)

lemma transaction_sending:
  assumes "evbuffer_spec E v"
  shows "sending v (bindA (getsA st_transaction) (\<lambda>n. seqA (send_metric E tags ''mysql.binlog.transaction_event_bytes'' n CHR ''d'') (set_transaction 0)))
    [transaction_metric tags n] (p, f, q, n) (p, f, q, 0)"
  unfolding transaction_metric_def set_transaction_def
  by (rule sending_gets [where c = n], simp, rule sending_metric_seqA [OF assms], rule sending_modify) simp_all

lemma stats_query_sending:
  assumes "evbuffer_spec E v"
  shows "sending v (stats_query E H tags data ev) (switch_metrics H tags n (Pe_query ev)) (p, f, q, n) (p, f, q, next_transaction (Pe_query ev) data n)"
proof -
  have b: "sending v (set_transaction c) [] (p, f, q, n) (p, f, q, c)" for c unfolding set_transaction_def by (rule sending_modify) simp_all
  show ?thesis unfolding stats_query_def Let_def query_tags_def [symmetric]
    by (auto simp: sending_metric assms intro!: sending_metric_seqA transaction_sending sending_seqA [OF b sending_metric [OF assms], simplified])
qed

lemma stats_rotate_sending:
  assumes "evbuffer_spec E v" and "parsed_ok (Pe_rotate ev)"
  shows "sending v (stats_rotate E tags ev) (switch_metrics H tags m (Pe_rotate ev)) (p, f, q, n) (p, ro_next_filename ev, q, n)"
proof -
  have b: "sending v (modifyA (\<lambda>s. s\<lparr>st_filename := ro_next_filename ev\<rparr>)) [] (p, f, q, n) (p, ro_next_filename ev, q, n)" by (rule sending_modify) simp_all
  show ?thesis unfolding stats_rotate_def using filename_number_run [of "ro_next_filename ev" 0] assms
    by (auto simp: bindA_liftO file_index_def intro!: sending_seqA [OF b, of _ "_ # _", simplified] sending_metric_seqA sending_metric)
qed

lemma switch_sending:
  assumes E: "evbuffer_spec E v" and parse: "parse_event fuel R data p = (Ret pe, p')" and ok: "parsed_ok pe"
  shows "sending v (stats_switch fuel E R H tags data (eh_type (header_of data))) (switch_metrics H tags n pe) (p, f, q, n)
    (p', next_file pe f, q, next_transaction pe data n)"
proof -
  note intros = sending_proc stats_query_sending [OF E] stats_rows_sending [OF E] stats_rotate_sending [OF E] sending_metric_seqA [OF E] transaction_sending [OF E]
    sending_metric [OF E] sending_retA
  show ?thesis using parse ok unfolding stats_switch_def parse_event_def Let_def stats_xid_def seqA_def
    by (auto split: if_split_asm elim!: bindA_RetE intro!: intros [unfolded seqA_def] simp del: switch_metrics.simps(3,5) next_transaction.simps(1) parsed_ok.simps(1))
qed

text \<open>One turn of the loop.\<close>

definition event_tags :: "(tags \<Rightarrow> tags) \<Rightarrow> tags \<Rightarrow> bytes \<Rightarrow> tags" where
  "event_tags H constant_tags data = tags_emplace H (ascii ''binlog_event_type'') (ascii (name_for_binlog_event_type (eh_type (header_of data)))) (H constant_tags)"

definition plain_tags :: "(tags \<Rightarrow> tags) \<Rightarrow> tags \<Rightarrow> bytes \<Rightarrow> tags" where
  "plain_tags H constant_tags data = tags_erase (ascii ''binlog_event_type'') (event_tags H constant_tags data)"

definition next_position :: "bytes \<Rightarrow> u64 \<Rightarrow> u64" where
  "next_position data q = (if eh_end_position (header_of data) \<noteq> 0 then ucast (eh_end_position (header_of data)) - word_of_nat (length data) - 4 else q)"

definition turn_metrics :: "(tags \<Rightarrow> tags) \<Rightarrow> tags \<Rightarrow> bytes \<Rightarrow> u64 \<Rightarrow> u64 \<Rightarrow> parsed \<Rightarrow> metric list" where
  "turn_metrics H tags data q n pe = [(''mysql.binlog.event_bytes'', word_of_nat (length data), CHR ''d'', event_tags H tags data)] @
     (if q \<noteq> 0 then [(''mysql.binlog.parser_position'', q, CHR ''g'', plain_tags H tags data)] else []) @
     switch_metrics H (plain_tags H tags data) n pe"

lemma event_sending:
  assumes E: "evbuffer_spec E v" and parse: "parse_event fuel R data p = (Ret pe, p')" and ok: "parsed_ok pe" and len: "19 \<le> length data"
  shows "sending v (stats_event fuel E R H tags data) (turn_metrics H tags data (next_position data q) (n + word_of_nat (length data)) pe) (p, f, q, n)
    (p', next_file pe f, next_position data q, next_transaction pe data (n + word_of_nat (length data)))"
proof -
  let ?n = "n + word_of_nat (length data)" and ?q = "next_position data q" and ?h = "header_of data"
  have add: "sending v (modifyA (\<lambda>s. s\<lparr>st_transaction := st_transaction s + word_of_nat (length data)\<rparr>)) [] (p, f, q, n) (p, f, q, ?n)"
    by (rule sending_modify) simp_all
  have pos: "sending v (whenA (eh_end_position ?h \<noteq> 0) (modifyA (\<lambda>s. s\<lparr>st_position := ucast (eh_end_position ?h) - word_of_nat (length data) - 4\<rparr>))) [] (p, f, q, ?n) (p, f, ?q, ?n)"
    unfolding whenA_def next_position_def by (auto intro!: sending_modify sending_retA)
  have header: "get_event_header data = Ret ?h" using len by (simp add: get_event_header_def)
  have "sending v (whenA (?q \<noteq> 0) (send_metric E (plain_tags H tags data) ''mysql.binlog.parser_position'' ?q CHR ''g''))
      (if ?q \<noteq> 0 then [(''mysql.binlog.parser_position'', ?q, CHR ''g'', plain_tags H tags data)] else []) (p, f, ?q, ?n) (p, f, ?q, ?n)"
    by (simp add: whenA_def sending_metric [OF E] sending_retA)
  from sending_seqA [OF this switch_sending [OF E parse ok]]
  have "sending v (bindA (getsA st_position) (\<lambda>position. seqA (whenA (position \<noteq> 0) (send_metric E (plain_tags H tags data) ''mysql.binlog.parser_position'' position CHR ''g''))
        (stats_switch fuel E R H (plain_tags H tags data) data (eh_type ?h))))
      ((if ?q \<noteq> 0 then [(''mysql.binlog.parser_position'', ?q, CHR ''g'', plain_tags H tags data)] else []) @ switch_metrics H (plain_tags H tags data) ?n pe)
      (p, f, ?q, ?n) (p', next_file pe f, ?q, next_transaction pe data ?n)"
    by (intro sending_gets [where c = ?q]) simp_all
  from sending_seqA [OF add sending_seqA [OF pos sending_seqA [OF sending_metric [OF E] this]]] show ?thesis
    unfolding stats_event_def header bindA_liftO Let_def turn_metrics_def event_tags_def [symmetric] plain_tags_def by simp
qed

section \<open>What is sent for a log\<close>

fun stream_metrics :: "(tags \<Rightarrow> tags) \<Rightarrow> tags \<Rightarrow> u64 \<Rightarrow> u64 \<Rightarrow> (bytes \<times> parsed) list \<Rightarrow> metric list" where
  "stream_metrics H tags q n [] = []"
| "stream_metrics H tags q n ((data, pe) # evs) = (let q' = next_position data q; n' = n + word_of_nat (length data) in
     turn_metrics H tags data q' n' pe @ stream_metrics H tags q' (next_transaction pe data n') evs)"

fun stream_end :: "bytes \<times> u64 \<times> u64 \<Rightarrow> (bytes \<times> parsed) list \<Rightarrow> bytes \<times> u64 \<times> u64" where
  "stream_end x [] = x"
| "stream_end (f, q, n) ((data, pe) # evs) =
     stream_end (next_file pe f, next_position data q, next_transaction pe data (n + word_of_nat (length data))) evs"

definition parse_stream :: "nat \<Rightarrow> 'r string_reader_api \<Rightarrow> bytes list \<Rightarrow> (binlog_processor, parsed list) act" where
  "parse_stream fuel R ds = collectA (parse_event fuel R) ds"

lemma stream_sending:
  assumes "evbuffer_spec E v" and "parse_stream fuel R ds p = (Ret pes, p')" and "\<forall>pe\<in>set pes. parsed_ok pe" and "\<forall>data\<in>set ds. 19 \<le> length data"
  shows "length pes = length ds \<and> sending v (eachA (stats_event fuel E R H tags) ds) (stream_metrics H tags q n (zip ds pes)) (p, f, q, n) (p', stream_end (f, q, n) (zip ds pes))"
  using assms(2-4)
proof (induction ds arbitrary: p pes f q n)
  case Nil
  then have "pes = []" "p' = p" by (simp_all add: parse_stream_def)
  then show ?case by (simp only: eachA.simps zip_Nil stream_metrics.simps stream_end.simps sending_retA simp_thms list.size)
next
  case (Cons data ds)
  then obtain pe p1 pes1 where pe: "parse_event fuel R data p = (Ret pe, p1)" and pes: "parse_stream fuel R ds p1 = (Ret pes1, p')" "pes = pe # pes1"
    by (auto simp: parse_stream_def elim!: bindA_RetE)
  let ?n = "n + word_of_nat (length data)"
  have "sending v (stats_event fuel E R H tags data) (turn_metrics H tags data (next_position data q) ?n pe) (p, f, q, n)
    (p1, next_file pe f, next_position data q, next_transaction pe data ?n)"
    by (rule event_sending [OF assms(1) pe]) (use Cons.prems pes in auto)
  moreover have "length pes1 = length ds \<and> sending v (eachA (stats_event fuel E R H tags) ds)
      (stream_metrics H tags (next_position data q) (next_transaction pe data ?n) (zip ds pes1))
      (p1, next_file pe f, next_position data q, next_transaction pe data ?n)
      (p', stream_end (next_file pe f, next_position data q, next_transaction pe data ?n) (zip ds pes1))"
    by (rule Cons.IH [OF pes(1)]) (use Cons.prems pes in auto)
  ultimately show ?case using pes(2) by (simp add: Let_def sending_seqA)
qed

text \<open>The bytes of a transaction: from BEGIN, over events that neither begin nor end one.\<close>

fun within :: "parsed \<Rightarrow> bool" where
  "within (Pe_query ev) \<longleftrightarrow> qe_query ev \<noteq> ascii ''BEGIN'' \<and> qe_query ev \<noteq> ascii ''COMMIT''"
| "within Pe_xid \<longleftrightarrow> False"
| "within _ \<longleftrightarrow> True"

definition stream_bytes :: "(bytes \<times> parsed) list \<Rightarrow> nat" where
  "stream_bytes evs = sum_list (map (\<lambda>ev. length (fst ev)) evs)"

lemma stream_append: "stream_metrics H tags q n (xs @ ys) = stream_metrics H tags q n xs @
    (case stream_end (f, q, n) xs of (f', q', n') \<Rightarrow> stream_metrics H tags q' n' ys)"
proof (induction xs arbitrary: f q n)
  case (Cons x xs)
  obtain data pe where x: "x = (data, pe)" by (cases x)
  show ?case by (simp add: x Let_def Cons [of _ _ "next_file pe f"])
qed simp

lemma stream_end_append: "stream_end x (xs @ ys) = stream_end (stream_end x xs) ys"
  by (induction xs arbitrary: x) auto

lemma within_end: "\<forall>ev\<in>set xs. within (snd ev) \<Longrightarrow> \<exists>f' q'. stream_end (f, q, n) xs = (f', q', n + word_of_nat (stream_bytes xs))"
proof (induction xs arbitrary: f q n)
  case (Cons ev xs)
  then have "next_transaction (snd ev) (fst ev) (n + word_of_nat (length (fst ev))) = n + word_of_nat (length (fst ev))" by (cases "snd ev") auto
  moreover obtain data pe where "ev = (data, pe)" by (cases ev)
  ultimately show ?case using Cons.IH [of "next_file pe f" "next_position data q" "n + word_of_nat (length data)"] Cons.prems
    by (simp add: stream_bytes_def add.assoc)
qed (simp add: stream_bytes_def)

lemma transaction_last:
  fixes mid pre :: "(bytes \<times> parsed) list"
  assumes evs: "evs = pre @ (bd, Pe_query ev) # mid @ [(xd, Pe_xid)]" and bgn: "qe_query ev = ascii ''BEGIN''" and mid: "\<forall>ev\<in>set mid. within (snd ev)"
  shows "\<exists>ms. stream_metrics H tags q n evs = ms @ [transaction_metric (plain_tags H tags xd) (word_of_nat (length bd + stream_bytes mid + length xd))]"
    and "snd (snd (stream_end (f, q, n) evs)) = 0"
proof -
  obtain f1 q1 n1 where 1: "stream_end (f, q, n) pre = (f1, q1, n1)" by (metis prod_cases3)
  obtain f2 q2 where 2: "stream_end (f1, next_position bd q1, word_of_nat (length bd)) mid = (f2, q2, word_of_nat (length bd) + word_of_nat (stream_bytes mid))"
    using within_end [OF mid] by blast
  have e: "stream_end (f, q, n) (pre @ [(bd, Pe_query ev)]) = (f1, next_position bd q1, word_of_nat (length bd))"
    using bgn by (simp add: stream_end_append 1)
  have evs': "evs = (pre @ [(bd, Pe_query ev)]) @ mid @ [(xd, Pe_xid)]" using evs by simp
  have 3: "stream_metrics H tags q n evs = stream_metrics H tags q n (pre @ [(bd, Pe_query ev)]) @
      stream_metrics H tags (next_position bd q1) (word_of_nat (length bd)) (mid @ [(xd, Pe_xid)])"
    unfolding evs' by (subst stream_append [where f = f]) (simp only: e prod.case)
  have 4: "stream_metrics H tags (next_position bd q1) (word_of_nat (length bd)) (mid @ [(xd, Pe_xid)]) =
      stream_metrics H tags (next_position bd q1) (word_of_nat (length bd)) mid @
      turn_metrics H tags xd (next_position xd q2) (word_of_nat (length bd) + word_of_nat (stream_bytes mid) + word_of_nat (length xd)) Pe_xid"
    by (subst stream_append [where f = f1]) (simp add: 2 Let_def)
  show "snd (snd (stream_end (f, q, n) evs)) = 0" unfolding evs' by (simp only: stream_end_append [of _ _ "mid @ _"] e) (simp add: stream_end_append 2)
  show "\<exists>ms. stream_metrics H tags q n evs = ms @ [transaction_metric (plain_tags H tags xd) (word_of_nat (length bd + stream_bytes mid + length xd))]"
    unfolding 3 4 by (simp add: turn_metrics_def)
qed

section \<open>From the server's bytes to the lines\<close>

lemma binlog_stats_loop_run:
  assumes "get_binlog_events E P n c = (Ret ds, c')" and "eachA (stats_event fuel E R H tags) ds s = (Ret (), s')"
  shows "binlog_stats_loop (n + m) fuel E P R H tags (c, s) = binlog_stats_loop m fuel E P R H tags (c', s')"
  using assms
proof (induction n arbitrary: c s ds)
  case 0
  then show ?case by (simp add: get_binlog_events_def)
next
  case (Suc n)
  from Suc.prems(1) obtain d c1 ds1 where g: "get_binlog_event E P c = (Ret d, c1)" "get_binlog_events E P n c1 = (Ret ds1, c')" "ds = d # ds1"
    by (auto simp: get_binlog_events_def elim!: bindA_RetE)
  from Suc.prems(2) g(3) obtain s1 where h: "stats_event fuel E R H tags d s = (Ret (), s1)" "eachA (stats_event fuel E R H tags) ds1 s1 = (Ret (), s')"
    by (auto elim!: seqA_RetE)
  from Suc.IH [OF g(2) h(2)] show ?case by (simp add: bindA_def seqA_def on_client_def on_reader_def g(1) h(1))
qed

text \<open>C20: The statistics of a log.  The server sends the events of a log, cut into pieces in any way, and ends
  the stream; the processor accepts them; they end with a transaction, from a BEGIN over events that are
  no BEGIN, COMMIT or XID to an XID.  Then the program has sent exactly the lines of the metrics of every event,
  in order, each a complete line, whatever pieces the system wrote them in; the last line reports
  the transaction with the sum of the sizes of its events; and the loop has ended with the exception
  for the end of the stream.\<close>

theorem stats_report_transaction:
  assumes "evbuffer_spec E v"
    and "client_ready P 0 (frames (my_next_seq (my c)) (stream_payloads first evs @ [[0xFE]]) @ rest) c"
    and "my_binlog_read_state (my c) = READING_FIRST_EVENT"
    and "length first + 1 < 2 ^ 24" and "\<forall>(ev, crc)\<in>set evs. length crc = 4 \<and> length ev + 5 < 2 ^ 24"
    and "parse_stream fuel R (first # map fst evs) (st_proc s) = (Ret pes, p')"
    and "\<forall>pe\<in>set pes. parsed_ok pe" and "\<forall>data\<in>set (first # map fst evs). 19 \<le> length data"
    and "zip (first # map fst evs) pes = pre @ (bd, Pe_query ev) # mid @ [(xd, Pe_xid)]"
    and "qe_query ev = ascii ''BEGIN''" and "\<forall>e\<in>set mid. within (snd e)"
    and "ms = stream_metrics H tags (st_position s) (st_transaction s) (zip (first # map fst evs) pes)"
    and "v (ch_buf (st_statsd s)) = []" and "live (length (lines (sd_stdout (st_statsd s)) ms)) (st_statsd s)"
    and "length (lines (sd_stdout (st_statsd s)) ms) < 2 ^ 63"
  shows "\<exists>c' s'. binlog_stats_loop (length evs + 2) fuel E P R H tags (c, s) = (Throw (Out_of_range ''end of binlog stream''), c', s') \<and>
    ch_out (st_statsd s') = ch_out (st_statsd s) @ lines (sd_stdout (st_statsd s)) ms \<and> st_proc s' = p' \<and> st_transaction s' = 0 \<and>
    last ms = transaction_metric (plain_tags H tags xd) (word_of_nat (length bd + stream_bytes mid + length xd)) \<and> ch_inp c' = rest"
proof -
  let ?b = "sd_stdout (st_statsd s)" and ?ds = "first # map fst evs" and ?x = "(st_filename s, st_position s, st_transaction s)"
  have at: "stats_at v ?b (ch_out (st_statsd s)) (length (lines ?b ms) + 0) (st_proc s, ?x) s" using assms(13,14) by (simp add: stats_at_def statsd_at_def)
  have "length (metric_line ?b mt) \<le> length (lines ?b ms)" if "mt \<in> set ms" for mt using that unfolding lines_def by (induction ms) auto
  then have small: "\<forall>mt\<in>set ms. length (metric_line ?b mt) < 2 ^ 63" using assms(15) by (meson le_less_trans)
  have "sending v (eachA (stats_event fuel E R H tags) ?ds) ms (st_proc s, ?x) (p', stream_end ?x (zip ?ds pes))"
    unfolding assms(12) by (rule stream_sending [THEN conjunct2, OF assms(1,6-8)])
  from sendingD [OF this at small]
  obtain s' where run: "eachA (stats_event fuel E R H tags) ?ds s = (Ret (), s')"
    and s': "stats_at v ?b (ch_out (st_statsd s) @ lines ?b ms) 0 (p', stream_end ?x (zip ?ds pes)) s'" by (auto simp: reaches_def)
  obtain c1 c2 where ev: "get_binlog_events E P (Suc (length evs)) c = (Ret ?ds, c1)"
    and fin: "get_binlog_event E P c1 = (Throw (Out_of_range ''end of binlog stream''), c2)" and rest: "ch_inp c2 = rest"
    by (rule stream_run [OF assms(1-5)])
  have "binlog_stats_loop (length evs + 2) fuel E P R H tags (c, s) = binlog_stats_loop 1 fuel E P R H tags (c1, s')" using binlog_stats_loop_run [OF ev run, of 1] by simp
  also have "\<dots> = (Throw (Out_of_range ''end of binlog stream''), c2, s')" by (simp add: on_client_def bindA_def fin)
  finally have "binlog_stats_loop (length evs + 2) fuel E P R H tags (c, s) = (Throw (Out_of_range ''end of binlog stream''), c2, s')" .
  moreover note transaction_last(1) [OF assms(9-11), of H tags "st_position s" "st_transaction s", folded assms(12)]
    transaction_last(2) [OF assms(9-11), of "st_filename s" "st_position s" "st_transaction s"]
  ultimately show ?thesis using s' rest by (fastforce simp: stats_at_def statsd_at_def)
qed

definition example_begin :: query_event where
  "example_begin = \<lparr>qe_header = example_header QUERY_EVENT, qe_conn_id = 1, qe_exec_time_secs = 0, qe_database_name = [], qe_error_code = 0,
     qe_status_vars = [], qe_query = ascii ''BEGIN''\<rparr>"

definition example_xid :: xid_event where
  "example_xid = \<lparr>xe_header = example_header XID_EVENT, xe_xid = 5\<rparr>"

definition stats_source :: "bytes mysql_client" where
  "stats_source = example_client (example_fields\<lparr>my_binlog_read_state := READING_FIRST_EVENT\<rparr>)
     (frames 0 (stream_payloads (rotate_payload example_rotate) [(query_payload example_begin 0, [1, 2, 3, 4]), (xid_payload example_xid [], [5, 6, 7, 8])] @ [[0xFE]]))"

definition stats_sink :: "bytes statsd" where
  "stats_sink = \<lparr>ch_buf = [], ch_inp = [], ch_sched = replicate 2000 (Os_ok 7), ch_out = [], sd_hostname = [], sd_port = 0, sd_fd = 1, sd_stdout = True, sd_closed = []\<rparr>"

definition stats_start :: "bytes stats" where
  "stats_start = \<lparr>st_proc = BinlogProcessor_new, st_filename = [], st_position = 0, st_transaction = 0, st_statsd = stats_sink, st_err = []\<rparr>"

lemma length_general: "unat w < 10 ^ 6 \<Longrightarrow> length (binary_text 52 11 (unat (double_of w))) \<le> 6"
  using length_digits [of "unat w" 5] by (simp add: double_text general_text_exact)

lemma length_tag_text: "length (tag_text t) \<le> length (fst t) + length (snd t) + 3"
  using length_takeWhile_le [of "\<lambda>b. b \<noteq> 0" "fst t"] length_takeWhile_le [of "\<lambda>b. b \<noteq> 0" "snd t"] by (simp add: tag_text_def c_chars_def)

lemma length_metric_line:
  "unat x < 10 ^ 6 \<Longrightarrow> length (concat (map tag_text tags)) \<le> 60 \<Longrightarrow> length name \<le> 60 \<Longrightarrow> length (metric_line True (name, x, ty, tags)) \<le> 150"
  using length_general [of x] by (simp add: metric_line_def)

lemma length_lines: "\<forall>mt\<in>set ms. length (metric_line b mt) \<le> k \<Longrightarrow> length (lines b ms) \<le> k * length ms"
  by (induction ms) auto

theorem stats_report_transaction_witness:
  "\<exists>c' s'. binlog_stats_loop 4 1 (evb_list 0) phosg_model sr_list id [] (stats_source, stats_start) = (Throw (Out_of_range ''end of binlog stream''), c', s') \<and>
     st_transaction s' = 0"
proof -
  let ?evs = "[(query_payload example_begin 0, [1, 2, 3, 4]), (xid_payload example_xid [], [5, 6, 7, 8])] :: (bytes \<times> bytes) list"
  let ?first = "rotate_payload example_rotate" and ?pes = "[Pe_rotate example_rotate, Pe_query example_begin, Pe_xid]"
  let ?ms = "stream_metrics id [] (st_position stats_start) (st_transaction stats_start) (zip (?first # map fst ?evs) ?pes)"
  define p' where "p' = snd (parse_stream 1 sr_list (?first # map fst ?evs) BinlogProcessor_new)"
  have len: "length ?first = 28" "length (query_payload example_begin 0) = 38" "length (xid_payload example_xid []) = 27"
    by (simp_all add: rotate_payload_def example_rotate_def query_payload_def example_begin_def xid_payload_def ascii_def)
  have hd: "header_of ?first = example_header ROTATE_EVENT" "header_of (query_payload example_begin 0) = example_header QUERY_EVENT"
    "header_of (xid_payload example_xid []) = example_header XID_EVENT"
    by (simp_all add: rotate_payload_def example_rotate_def query_payload_def example_begin_def xid_payload_def example_xid_def)
  have fields: "ro_header example_rotate = example_header ROTATE_EVENT" "ro_next_filename example_rotate = [98]" "ro_next_position example_rotate = 4"
    "qe_header example_begin = example_header QUERY_EVENT" "qe_database_name example_begin = []" "qe_status_vars example_begin = []" "qe_query example_begin = ascii ''BEGIN''"
    "xe_header example_xid = example_header XID_EVENT" "eh_type (example_header t) = event_code t" "eh_end_position (example_header t) = 700" for t
    by (simp_all add: example_rotate_def example_begin_def example_xid_def example_header_def)
  note runs = log_event_runs [OF sr_list_spec]
  have "parse_event 1 sr_list ?first p = (Ret (Pe_rotate example_rotate), p\<lparr>bp_filename := [98], bp_position := 4\<rparr>)"
    "parse_event 1 sr_list (query_payload example_begin 0) p = (Ret (Pe_query example_begin), p\<lparr>bp_position := 700\<rparr>)"
    "parse_event 1 sr_list (xid_payload example_xid []) p = (Ret Pe_xid, p\<lparr>bp_position := 700\<rparr>)" for p
    using runs(2) [of example_rotate p] runs(1) [of example_begin 0 p] runs(3) [of example_xid "[]" p]
    by (simp_all add: parse_event_def Let_def hd rows_event_types_def fields bindA_def seqA_def)
  then have parse: "parse_stream 1 sr_list (?first # map fst ?evs) (st_proc stats_start) = (Ret ?pes, p')"
    by (simp add: p'_def parse_stream_def bindA_def stats_start_def)
  have ready: "client_ready phosg_model 0 (frames (my_next_seq (my stats_source)) (stream_payloads ?first ?evs @ [[0xFE]]) @ []) stats_source"
    "my_binlog_read_state (my stats_source) = READING_FIRST_EVENT"
    using len by (simp_all add: client_ready_def live_def phosg_model_def stats_source_def example_client_def example_fields_def stream_payloads_def command_frame_def)
  have "event_tags id [] d = [(ascii ''binlog_event_type'', ascii (name_for_binlog_event_type (eh_type (header_of d))))]" for d
    by (simp add: event_tags_def tags_emplace_def)
  then have tags: "plain_tags id [] d = []" "length (concat (map tag_text (event_tags id [] d))) \<le> 20 + length (name_for_binlog_event_type (eh_type (header_of d)))" for d
    using length_tag_text [of "(ascii ''binlog_event_type'', ascii (name_for_binlog_event_type (eh_type (header_of d))))"]
    by (simp_all add: plain_tags_def tags_erase_def)
  have "length (concat (map tag_text (event_tags id [] ?first))) \<le> 60" "length (concat (map tag_text (event_tags id [] (query_payload example_begin 0)))) \<le> 60"
    "length (concat (map tag_text (event_tags id [] (xid_payload example_xid [])))) \<le> 60"
    using tags(2) [of ?first] tags(2) [of "query_payload example_begin 0"] tags(2) [of "xid_payload example_xid []"]
    by (simp_all add: hd fields name_for_binlog_event_type_def event_names_def)
  moreover have "query_tags id [] example_begin = []" "file_index [98] = 0" by (simp_all add: query_tags_def fields file_index_def is_digit_def)
  ultimately have "\<forall>mt\<in>set ?ms. length (metric_line True mt) \<le> 150"
    by (auto simp: stats_start_def turn_metrics_def next_position_def hd len fields Let_def transaction_metric_def tags(1) intro!: length_metric_line)
  moreover have "length ?ms = 11" by (simp add: stats_start_def turn_metrics_def next_position_def hd len fields Let_def)
  ultimately have small: "length (lines True ?ms) < 2000" using length_lines [of ?ms True 150] by simp
  have out: "sd_stdout (st_statsd stats_start) = True" "v (ch_buf (st_statsd stats_start)) = v []" "live 2000 (st_statsd stats_start)" for v :: "bytes \<Rightarrow> bytes"
    by (simp_all add: stats_start_def stats_sink_def live_def)
  have live: "live (length (lines (sd_stdout (st_statsd stats_start)) ?ms)) (st_statsd stats_start)" using small out(3) unfolding out(1) by (auto simp: live_def)
  have max: "length (lines (sd_stdout (st_statsd stats_start)) ?ms) < 2 ^ 63" using small unfolding out(1) by simp
  have lens: "length ?first + 1 < 2 ^ 24" "\<forall>(ev, crc)\<in>set ?evs. length crc = 4 \<and> length ev + 5 < 2 ^ 24" "\<forall>data\<in>set (?first # map fst ?evs). 19 \<le> length data"
    using len by simp_all
  have oks: "\<forall>pe\<in>set ?pes. parsed_ok pe" by (simp add: fields)
  have zip: "zip (?first # map fst ?evs) ?pes = [(?first, Pe_rotate example_rotate)] @ (query_payload example_begin 0, Pe_query example_begin) # [] @ [(xid_payload example_xid [], Pe_xid)]"
    by simp
  have mid: "\<forall>e\<in>set ([] :: (bytes \<times> parsed) list). within (snd e)" by simp
  have "id (ch_buf (st_statsd stats_start)) = []" by (simp add: stats_start_def stats_sink_def)
  from stats_report_transaction [where v = id, OF evb_list_spec [of 0, OF order_refl] ready lens(1,2) parse oks lens(3) zip fields(7) mid refl this live max]
  show ?thesis by (auto simp: numeral_eq_Suc)
qed

section \<open>Reading a line\<close>

text \<open>What a StatsD server makes of a line: sections between bars, of which the first has the name and the value, the second the type, and those with a mark are tags.\<close>

fun split_on :: "'x \<Rightarrow> 'x list \<Rightarrow> 'x list list" where
  "split_on c [] = [[]]"
| "split_on c (x # xs) = (if x = c then [] # split_on c xs else case split_on c xs of [] \<Rightarrow> [[x]] | y # ys \<Rightarrow> (x # y) # ys)"

definition read_tag :: "bytes \<Rightarrow> (bytes \<times> bytes) option" where
  "read_tag s = (case s of [] \<Rightarrow> None | m # t \<Rightarrow> if m \<noteq> of_char CHR ''#'' then None else
     (case split_on (of_char CHR '':'') t of [k] \<Rightarrow> Some (k, []) | [k, x] \<Rightarrow> Some (k, x) | _ \<Rightarrow> None))"

definition read_line :: "bytes \<Rightarrow> (bytes \<times> nat \<times> bytes \<times> (bytes \<times> bytes) option list) option" where
  "read_line s = (case split_on (of_char CHR ''|'') s of
     a # ty # ts \<Rightarrow> (case split_on (of_char CHR '':'') a of
         [name, x] \<Rightarrow> if x \<noteq> [] \<and> (\<forall>b\<in>set x. is_digit b) then Some (name, digits_val x, ty, map read_tag ts) else None
       | _ \<Rightarrow> None)
   | _ \<Rightarrow> None)"

lemma split_on_none: "c \<notin> set a \<Longrightarrow> split_on c a = [a]"
  by (induction a) auto

lemma split_on_append: "c \<notin> set a \<Longrightarrow> split_on c (a @ c # b) = a # split_on c b"
  by (induction a) auto

definition clean :: "bytes \<Rightarrow> bool" where
  "clean s \<longleftrightarrow> (\<forall>b\<in>set s. b \<noteq> 0 \<and> b \<noteq> of_char CHR '':'' \<and> b \<noteq> of_char CHR ''|'')"

lemma clean_c_chars: "clean s \<Longrightarrow> c_chars s = s"
  by (simp add: clean_def c_chars_def takeWhile_eq_all_conv)

lemma read_tag_text:
  assumes "clean (fst t)" and "clean (snd t)"
  shows "\<exists>u. tag_text t = of_char CHR ''|'' # u \<and> of_char CHR ''|'' \<notin> set u \<and> read_tag u = Some t"
proof -
  let ?u = "of_char CHR ''#'' # fst t @ (if snd t = [] then [] else of_char CHR '':'' # snd t)"
  have "tag_text t = of_char CHR ''|'' # ?u" using assms by (simp add: tag_text_def clean_c_chars ascii_Cons)
  moreover have "of_char CHR ''|'' \<notin> set ?u" using assms by (auto simp: clean_def)
  moreover have "of_char CHR '':'' \<notin> set (fst t)" "of_char CHR '':'' \<notin> set (snd t)" using assms by (auto simp: clean_def)
  then have "read_tag ?u = Some t" by (cases t) (auto simp: read_tag_def split_on_append split_on_none)
  ultimately show ?thesis by blast
qed

lemma read_tags:
  "\<forall>t\<in>set tags. clean (fst t) \<and> clean (snd t) \<Longrightarrow> of_char CHR ''|'' \<notin> set a \<Longrightarrow>
    \<exists>us. split_on (of_char CHR ''|'') (a @ concat (map tag_text tags)) = a # us \<and> map read_tag us = map Some tags"
proof (induction tags arbitrary: a)
  case (Cons t tags)
  from read_tag_text [of t] Cons.prems(1) obtain u where u: "tag_text t = of_char CHR ''|'' # u" "of_char CHR ''|'' \<notin> set u" "read_tag u = Some t" by auto
  from Cons.IH [of u] Cons.prems(1) u(2) obtain us where "split_on (of_char CHR ''|'') (u @ concat (map tag_text tags)) = u # us" "map read_tag us = map Some tags" by auto
  with u Cons.prems(2) show ?case by (auto simp: split_on_append)
qed (simp add: split_on_none)

lemma metric_line_read:
  assumes "clean (ascii name)" and "unat x < 10 ^ 6" and "clean [of_char ty]" and "ty \<noteq> CHR ''m''" and "\<forall>t\<in>set tags. clean (fst t) \<and> clean (snd t)"
  shows "read_line (metric_line False (name, x, ty, tags)) = Some (ascii name, unat x, [of_char ty], map Some tags)"
proof -
  let ?d = "ascii (digits 10 (unat x))"
  have line: "metric_line False (name, x, ty, tags) = (ascii name @ of_char CHR '':'' # ?d) @ of_char CHR ''|'' # [of_char ty] @ concat (map tag_text tags)"
    using assms(2,4) by (simp add: metric_line_def double_text general_text_exact ascii_Cons)
  have n: "?d \<noteq> []" "\<forall>b\<in>set ?d. is_digit b" "digits_val ?d = unat x" using number_text_digits [of "unat x"] by (auto simp: number_text_def)
  then have sep: "of_char CHR '':'' \<notin> set ?d" "of_char CHR ''|'' \<notin> set ?d" by (auto simp: is_digit_def)
  have a: "of_char CHR ''|'' \<notin> set (ascii name @ of_char CHR '':'' # ?d)" using assms(1) sep by (auto simp: clean_def)
  obtain us where us: "split_on (of_char CHR ''|'') ([of_char ty] @ concat (map tag_text tags)) = [of_char ty] # us" "map read_tag us = map Some tags"
    using read_tags [OF assms(5), of "[of_char ty]"] assms(3) by (auto simp: clean_def)
  have "of_char CHR '':'' \<notin> set (ascii name)" using assms(1) by (auto simp: clean_def)
  then have "split_on (of_char CHR '':'') (ascii name @ of_char CHR '':'' # ?d) = [ascii name, ?d]" using split_on_append split_on_none [OF sep(1)] by metis
  then show ?thesis unfolding line read_line_def split_on_append [OF a] us(1) using n us(2) by simp
qed



section \<open>What goes wrong\<close>

text \<open>Every tag gets the mark that should introduce the first one, since \<open>is_first\<close> is never cleared: the list is not separated by commas.\<close>

lemma two_tags_line:
  "metric_line False (''n'', 1, CHR ''c'', [(ascii ''a'', ascii ''b''), (ascii ''d'', [])]) = ascii ''n:1|c|#a:b|#d''"
  by (simp add: metric_line_def tag_text_def double_text general_text_exact digits.simps digit_char_def char_of_def bit_0 ascii_def c_chars_def)

text \<open>The difference of two unsigned sums: an update that makes rows smaller is reported with a huge number.\<close>

lemma update_delta_wraps:
  assumes "re_write_type ev = W_UPDATE" and "sum_list (map rc_post_bytes (re_rows ev)) < sum_list (map rc_pre_bytes (re_rows ev))"
    and "sum_list (map rc_pre_bytes (re_rows ev)) < 2 ^ 63"
  shows "\<exists>x. last (rows_metrics tags ev) = (''mysql.binlog.update_delta_bytes'', x, CHR ''d'', tags) \<and> 2 ^ 63 < x"
proof -
  let ?a = "sum_list (map rc_post_bytes (re_rows ev))" and ?b = "sum_list (map rc_pre_bytes (re_rows ev))"
  define k where "k = ?b - ?a"
  have k: "0 < k" "k < 2 ^ 63" "k \<le> 2 ^ 64" using assms(2,3) by (auto simp: k_def)
  have "(word_of_nat ?a - word_of_nat ?b :: u64) = - word_of_nat k" using assms(2) by (simp add: k_def of_nat_diff)
  also have "\<dots> = word_of_nat (2 ^ 64 - k)" using k(3) by (simp add: of_nat_diff)
  finally have "(word_of_nat ?a - word_of_nat ?b :: u64) = word_of_nat (2 ^ 64 - k)" .
  moreover have "2 ^ 63 < (word_of_nat (2 ^ 64 - k) :: u64)" using k by (simp only: word_less_nat_alt unat_of_nat) simp
  ultimately show ?thesis using assms(1) by (simp add: rows_metrics_def Let_def)
qed

text \<open>\<open>%lg\<close> prints six significant digits: a position in a large file is rounded.\<close>

lemma position_rounded: "metric_line False (''p'', 123456789, CHR ''g'', []) = ascii ''p:1.23457e+08|g''"
  by (simp add: metric_line_def double_text general_text_def significant_def dec_exponent_def round_half_even_def fraction_def strip_zeros_def pad_def
      digits.simps digit_char_def char_of_def bit_0 ascii_def)

text \<open>Without a file name the program has no defined behaviour, although the option is described as optional.\<close>

lemma stats_without_filename:
  assumes "op_start_filename opts = None"
    and "seqA (MySQL_Client_new (op_host opts) (op_port opts) (op_username opts) (op_password opts)) (MySQL_connect fuel E P) c = (Ret (), c')"
  shows "generate_binlog_stats n fuel E P F R H N rnd opts (c, s) = (Throw (Undefined_behaviour ''string from a null pointer''), c', s)"
  using assms(2) by (auto simp: generate_binlog_stats_def assms(1) seqA_def bindA_def on_client_def elim!: bindA_RetE split: prod.splits outcome.splits)

end
