(* ===== verification/Program_Options.thy ===== *)
theory Program_Options
  imports Binlog_Stats
begin

text \<open>
  The arguments of Examples/MySQLBinlogStats.cc and Examples/MySQLBinlogReader.cc, and the C library's conversions
  that read them.  An argument is a C string, without its final zero.  The lemmas show that
  options written as arguments are read back, and which arguments are refused.
\<close>

section \<open>Conversions of the C library\<close>

text \<open>\<open>atoi\<close>: what is not a number is 0; a number that is not an \<open>int\<close> has no defined result.\<close>

definition atoi :: "bytes \<Rightarrow> int outcome" where
  "atoi s = (case scan_number s of None \<Rightarrow> Ret 0
     | Some (neg, n, _) \<Rightarrow> let i = (if neg then - int n else int n) in
         if - (2 ^ 31) \<le> i \<and> i < 2 ^ 31 then Ret i else Throw (Undefined_behaviour ''atoi of a number that is too large''))"

text \<open>\<open>strtoull\<close> with base 0: the prefix tells the base; a number that is too large becomes the largest one.\<close>

definition digit_value :: "byte \<Rightarrow> nat" where
  "digit_value b = (if 48 \<le> b \<and> b \<le> 57 then unat (b - 48) else if 97 \<le> b \<and> b \<le> 122 then unat (b - 87)
     else if 65 \<le> b \<and> b \<le> 90 then unat (b - 55) else 255)"

definition number_in_base :: "nat \<Rightarrow> bytes \<Rightarrow> nat" where
  "number_in_base base s = foldl (\<lambda>n b. base * n + digit_value b) 0 (takeWhile (\<lambda>b. digit_value b < base) s)"

definition strtoull :: "bytes \<Rightarrow> u64" where
  "strtoull s = (let s1 = dropWhile is_space s;
       neg = (s1 \<noteq> [] \<and> hd s1 = 45);
       s2 = (if s1 \<noteq> [] \<and> (hd s1 = 45 \<or> hd s1 = 43) then tl s1 else s1);
       n = (if 3 \<le> length s2 \<and> hd s2 = 48 \<and> (s2 ! 1 = 120 \<or> s2 ! 1 = 88) \<and> digit_value (s2 ! 2) < 16 then number_in_base 16 (drop 2 s2)
            else if s2 \<noteq> [] \<and> hd s2 = 48 then number_in_base 8 s2 else number_in_base 10 s2) in
     if n < 2 ^ 64 then (if neg then - word_of_nat n else word_of_nat n) else - 1)"

section \<open>MySQLBinlogStats\<close>

definition usage_text :: string where
  "usage_text = ''Usage: BinlogStats [options]\<newline>\<newline>Options:\<newline>'' @
     ''  --host=HOST, --port=PORT: Connect to this MySQL server.\<newline>'' @
     ''  --username=USER, --password=PWD: Authenticate with these credentials.\<newline>'' @
     ''  --password-env=VARNAME: Get the password from this environment variable\<newline>'' @
     ''      instead. (This is more secure than --password.)\<newline>'' @
     ''  --filename=FILENAME: Start reading from this binlog filename on the server.\<newline>'' @
     ''  --position=POSITION: Start reading from this binlog file offset on the\<newline>'' @
     ''      server. Undefined behavior may result if this position isn'' @ [CHR 0x27] @ ''t the start of\<newline>'' @
     ''      a valid binlog event.\<newline>'' @
     ''  --stats-host=HOST, --stats-port=PORT: Send generated metrics here. If these\<newline>'' @
     ''      are not given, metrics are written to stdout instead.\<newline>'' @
     ''  --tag=VALUE: Send this tag along with all generated metrics.\<newline>'' @
     ''  --tag=KEY=VALUE: Send this tag along with all generated metrics.\<newline>\<newline>''"

definition password_warning :: string where
  "password_warning = ''WARNING: The --password option will cause the password to appear in the system process list. Use --password-env for better security.\<newline>''"

text \<open>\<open>strncmp\<close> of an argument and a literal, over the length of the literal.\<close>

definition is_option :: "string \<Rightarrow> bytes \<Rightarrow> bool" where
  "is_option name arg \<longleftrightarrow> take (length name) arg = ascii name"

definition option_value :: "string \<Rightarrow> bytes \<Rightarrow> bytes" where
  "option_value name arg = drop (length name) arg"

definition add_tag :: "(tags \<Rightarrow> tags) \<Rightarrow> bytes \<Rightarrow> tags \<Rightarrow> tags" where
  "add_tag H tag tags = (if 61 \<in> set tag
     then tags_emplace H (takeWhile (\<lambda>b. b \<noteq> 61) tag) (tl (dropWhile (\<lambda>b. b \<noteq> 61) tag)) tags
     else tags_emplace H tag [] tags)"

text \<open>One turn of the loop over the arguments; \<open>env\<close> is the environment, the state the standard error.\<close>

definition parse_option :: "(bytes \<rightharpoonup> bytes) \<Rightarrow> (tags \<Rightarrow> tags) \<Rightarrow> options \<Rightarrow> bytes \<Rightarrow> (bytes, options) act" where
  "parse_option env H opts arg =
     (if is_option ''--host='' arg then retA (opts\<lparr>op_host := option_value ''--host='' arg\<rparr>)
      else if is_option ''--port='' arg then
        bindA (liftO (atoi (option_value ''--port='' arg))) (\<lambda>i. retA (opts\<lparr>op_port := word_of_int i\<rparr>))
      else if is_option ''--username='' arg then retA (opts\<lparr>op_username := option_value ''--username='' arg\<rparr>)
      else if is_option ''--password='' arg then
        seqA (fprintf password_warning []) (retA (opts\<lparr>op_password := option_value ''--password='' arg\<rparr>))
      else if is_option ''--password-env='' arg then
        (case env (option_value ''--password-env='' arg) of
           None \<Rightarrow> throwA (Invalid_argument ''environment variable specified by --password-env is not set'')
         | Some x \<Rightarrow> retA (opts\<lparr>op_password := x\<rparr>))
      else if is_option ''--filename='' arg then retA (opts\<lparr>op_start_filename := Some (option_value ''--filename='' arg)\<rparr>)
      else if is_option ''--position='' arg then retA (opts\<lparr>op_start_position := strtoull (option_value ''--position='' arg)\<rparr>)
      else if is_option ''--tag='' arg then retA (opts\<lparr>op_constant_tags := add_tag H (option_value ''--tag='' arg) (op_constant_tags opts)\<rparr>)
      else throwA (Invalid_argument ''unknown option''))"

fun parse_options :: "(bytes \<rightharpoonup> bytes) \<Rightarrow> (tags \<Rightarrow> tags) \<Rightarrow> options \<Rightarrow> bytes list \<Rightarrow> (bytes, options) act" where
  "parse_options env H opts [] = retA opts"
| "parse_options env H opts (arg # args) = bindA (parse_option env H opts arg) (\<lambda>opts. parse_options env H opts args)"

definition stats_options :: "(bytes \<rightharpoonup> bytes) \<Rightarrow> (tags \<Rightarrow> tags) \<Rightarrow> bytes list \<Rightarrow> (bytes, options) act" where
  "stats_options env H args = (if args = [] then seqA (fprintf usage_text []) (throwA (Invalid_argument ''no arguments given''))
     else parse_options env H Options_new args)"

definition stats_main :: "nat \<Rightarrow> nat \<Rightarrow> 'b evbuffer_api \<Rightarrow> phosg_api \<Rightarrow> float_api \<Rightarrow> 'r string_reader_api \<Rightarrow> (tags \<Rightarrow> tags) \<Rightarrow> statsd_os
    \<Rightarrow> u32 \<Rightarrow> (bytes \<rightharpoonup> bytes) \<Rightarrow> bytes list \<Rightarrow> ('b mysql_client \<times> 'b stats, unit) act" where
  "stats_main n fuel E P F R H N rnd env args = bindA (on_reader (on_stderr (stats_options env H args))) (\<lambda>opts.
     generate_binlog_stats n fuel E P F R H N rnd opts)"

section \<open>MySQLBinlogReader\<close>

definition reader_usage :: string where
  "reader_usage = ''Usage: BinlogReader hostname port username password [filename start_position]\<newline>''"

text \<open>The arguments do not count the name of the program.\<close>

definition reader_main :: "nat \<Rightarrow> nat \<Rightarrow> 'b evbuffer_api \<Rightarrow> phosg_api \<Rightarrow> float_api \<Rightarrow> 'r string_reader_api \<Rightarrow> u32 \<Rightarrow> bytes list
    \<Rightarrow> ('b mysql_client \<times> reader, unit) act" where
  "reader_main n fuel E P F R rnd args =
     (if length args < 4 \<or> 6 < length args then throwA (Invalid_argument reader_usage)
      else bindA (liftO (atoi (args ! 1))) (\<lambda>port.
        reader_run n fuel E P F R rnd (args ! 0) (word_of_int port) (args ! 2) (args ! 3)
          (if 4 < length args then args ! 4 else []) (if 5 < length args then strtoull (args ! 5) else 0)))"

section \<open>Reading numbers back\<close>

lemma digit_not_space: "is_digit d \<Longrightarrow> \<not> is_space d \<and> d \<noteq> 45 \<and> d \<noteq> 43"
  by (auto simp: is_digit_def is_space_def word_le_nat_alt)

lemma scan_digits: "number_text n ds \<Longrightarrow> scan_number ds = Some (False, n, [])"
proof -
  assume n: "number_text n ds"
  then obtain d ds' where ds: "ds = d # ds'" "is_digit d" by (cases ds) (auto simp: number_text_def)
  then have "\<not> is_space d" "d \<noteq> 45" "d \<noteq> 43" using digit_not_space by blast+
  then have "dropWhile is_space ds = ds" using ds by simp
  moreover have "takeWhile is_digit ds = ds" "dropWhile is_digit ds = []" using n by (simp_all add: number_text_def takeWhile_eq_all_conv)
  moreover have "hd ds \<noteq> 45" "hd ds \<noteq> 43" "ds \<noteq> []" using ds \<open>d \<noteq> 45\<close> \<open>d \<noteq> 43\<close> by simp_all
  ultimately show ?thesis using n unfolding scan_number_def Let_def by (simp add: number_text_def del: takeWhile_eq_all_conv dropWhile_eq_Nil_conv)
qed

lemma atoi_digits: "n < 2 ^ 31 \<Longrightarrow> atoi (ascii (digits 10 n)) = Ret (int n)"
  by (simp add: atoi_def scan_digits [OF number_text_digits])

lemma digits_leading: "0 < n \<Longrightarrow> hd (ascii (digits 10 n)) \<noteq> 48"
proof (induction "10 :: nat" n rule: digits.induct)
  case (1 n)
  show ?case
  proof (cases "n < 10")
    case True
    have "unat (of_char (digit_char n) - 48 :: byte) = n" using digit_char_is_digit [OF True] by simp
    with 1(2) have "of_char (digit_char n) \<noteq> (48 :: byte)" by auto
    then show ?thesis using True by (simp add: digits.simps [of 10 n] ascii_Cons)
  next
    case False
    then have "hd (ascii (digits 10 (n div 10))) \<noteq> 48" using 1 by simp
    then show ?thesis using False by (simp add: digits.simps [of 10 n] ascii_def hd_append)
  qed
qed

lemma digit_value_digit: "is_digit b \<Longrightarrow> digit_value b = unat (b - 48) \<and> digit_value b < 10"
  by (auto simp: digit_value_def is_digit_def word_le_nat_alt unat_sub)

lemma number_in_base_digits: "\<forall>b\<in>set ds. is_digit b \<Longrightarrow> number_in_base 10 ds = digits_val ds"
proof -
  assume d: "\<forall>b\<in>set ds. is_digit b"
  then have "takeWhile (\<lambda>b. digit_value b < 10) ds = ds" using digit_value_digit unfolding takeWhile_eq_all_conv by blast
  moreover have "foldl (\<lambda>n b. 10 * n + digit_value b) m ds = foldl (\<lambda>n b. 10 * n + unat (b - 48)) m ds" for m
    using d by (induction ds arbitrary: m) (simp_all add: digit_value_digit)
  ultimately show ?thesis by (simp add: number_in_base_def digits_val_def del: takeWhile_eq_all_conv)
qed

lemma strtoull_digits: "strtoull (ascii (digits 10 (unat w))) = w"
proof (cases "w = 0")
  case True
  then show ?thesis by (simp add: strtoull_def digits.simps digit_char_def char_of_def bit_0 ascii_def is_space_def number_in_base_def digit_value_def)
next
  case False
  let ?ds = "ascii (digits 10 (unat w))"
  have n: "\<forall>b\<in>set ?ds. is_digit b" "digits_val ?ds = unat w" "?ds \<noteq> []" using number_text_digits [of "unat w"] by (auto simp: number_text_def)
  then have h: "is_digit (hd ?ds)" using hd_in_set by blast
  then have "\<not> is_space (hd ?ds)" "hd ?ds \<noteq> 45" "hd ?ds \<noteq> 43" using digit_not_space by blast+
  moreover from this have "dropWhile is_space ?ds = ?ds" by (cases ?ds) auto
  moreover have "hd ?ds \<noteq> 48" using False by (intro digits_leading) (simp add: unat_gt_0)
  moreover have "number_in_base 10 ?ds = unat w" using number_in_base_digits [OF n(1)] n(2) by simp
  ultimately show ?thesis using n(3) unsigned_less [where ?'a = nat, of w] by (simp add: strtoull_def Let_def)
qed

section \<open>Reading options back\<close>

definition tag_arg :: "bytes \<times> bytes \<Rightarrow> bytes" where
  "tag_arg t = ascii ''--tag='' @ fst t @ (if snd t = [] then [] else 61 # snd t)"

definition option_args :: "options \<Rightarrow> bytes list" where
  "option_args opts = [ascii ''--host='' @ op_host opts, ascii ''--port='' @ ascii (digits 10 (unat (op_port opts))),
     ascii ''--username='' @ op_username opts, ascii ''--password='' @ op_password opts, ascii ''--position='' @ ascii (digits 10 (unat (op_start_position opts)))] @
     (case op_start_filename opts of None \<Rightarrow> [] | Some f \<Rightarrow> [ascii ''--filename='' @ f]) @ map tag_arg (op_constant_tags opts)"

lemma parse_option_runs:
  "parse_option env H opts (ascii ''--host='' @ x) = retA (opts\<lparr>op_host := x\<rparr>)"
  "parse_option env H opts (ascii ''--port='' @ x) = bindA (liftO (atoi x)) (\<lambda>i. retA (opts\<lparr>op_port := word_of_int i\<rparr>))"
  "parse_option env H opts (ascii ''--username='' @ x) = retA (opts\<lparr>op_username := x\<rparr>)"
  "parse_option env H opts (ascii ''--password='' @ x) = seqA (fprintf password_warning []) (retA (opts\<lparr>op_password := x\<rparr>))"
  "parse_option env H opts (ascii ''--filename='' @ x) = retA (opts\<lparr>op_start_filename := Some x\<rparr>)"
  "parse_option env H opts (ascii ''--position='' @ x) = retA (opts\<lparr>op_start_position := strtoull x\<rparr>)"
  "parse_option env H opts (ascii ''--tag='' @ x) = retA (opts\<lparr>op_constant_tags := add_tag H x (op_constant_tags opts)\<rparr>)"
  by (simp_all add: parse_option_def is_option_def option_value_def ascii_def)

lemma parse_options_append: "parse_options env H opts (as @ bs) = bindA (parse_options env H opts as) (\<lambda>opts. parse_options env H opts bs)"
  by (induction as arbitrary: opts) (simp_all add: bindA_assoc)

lemma parse_tags:
  "\<forall>t\<in>set tags. 61 \<notin> set (fst t) \<Longrightarrow> parse_options env H opts (map tag_arg tags) =
     retA (opts\<lparr>op_constant_tags := foldl (\<lambda>ts (k, x). tags_emplace H k x ts) (op_constant_tags opts) tags\<rparr>)"
proof (induction tags arbitrary: opts)
  case (Cons t tags)
  obtain k x where t: "t = (k, x)" by (cases t)
  have k: "61 \<notin> set k" using Cons.prems t by simp
  then have "takeWhile (\<lambda>b. b \<noteq> 61) (k @ 61 # x) = k" "dropWhile (\<lambda>b. b \<noteq> 61) (k @ 61 # x) = 61 # x" by (induction k) auto
  then have "add_tag H (k @ (if x = [] then [] else 61 # x)) ts = tags_emplace H k x ts" for ts using k by (simp add: add_tag_def)
  then have "parse_option env H opts (tag_arg t) = retA (opts\<lparr>op_constant_tags := tags_emplace H k x (op_constant_tags opts)\<rparr>)"
    unfolding t tag_arg_def fst_conv snd_conv parse_option_runs by (simp only:)
  then show ?case using Cons by (simp add: t)
qed simp



text \<open>The options for the StatsD server that the usage text describes are refused.\<close>

lemma stats_host_refused: "parse_option env H opts (ascii ''--stats-host='' @ x) = throwA (Invalid_argument ''unknown option'')"
  "parse_option env H opts (ascii ''--stats-port='' @ x) = throwA (Invalid_argument ''unknown option'')"
  by (simp_all add: parse_option_def is_option_def option_value_def ascii_def)

end
