(* ===== verification/Memcache.thy ===== *)
theory Memcache
  imports Base_Connect
begin

text \<open>
  Protocols/Memcache: the binary protocol's types (Types.hh, Types.cc) and the client (Client.hh,
  Client.cc).  The state of a client coroutine is the connection with the buffer of the running
  command, extended by the client's fields.  Every command sends one request and reads its
  response; the lemmas show that what is sent is the documented request, that a response is
  taken off the stream exactly, and what each command makes of it.
\<close>

section \<open>Types\<close>

datatype response_status =
    OK | KEY_NOT_FOUND | KEY_EXISTS | VALUE_TOO_LARGE | INVALID_ARGUMENTS | NOT_STORED |
    NON_NUMERIC_INCR_DECR | VIRTUAL_BUCKET_NOT_LOCAL | AUTHENTICATION_ERROR |
    AUTHENTICATION_CONTINUE | UNKNOWN_COMMAND | OUT_OF_MEMORY | NOT_SUPPORTED | INTERNAL_ERROR |
    BUSY | TEMPORARY_FAILURE

fun response_status_code :: "response_status \<Rightarrow> u16" where
  "response_status_code OK = 0x0000"
| "response_status_code KEY_NOT_FOUND = 0x0001"
| "response_status_code KEY_EXISTS = 0x0002"
| "response_status_code VALUE_TOO_LARGE = 0x0003"
| "response_status_code INVALID_ARGUMENTS = 0x0004"
| "response_status_code NOT_STORED = 0x0005"
| "response_status_code NON_NUMERIC_INCR_DECR = 0x0006"
| "response_status_code VIRTUAL_BUCKET_NOT_LOCAL = 0x0007"
| "response_status_code AUTHENTICATION_ERROR = 0x0008"
| "response_status_code AUTHENTICATION_CONTINUE = 0x0009"
| "response_status_code UNKNOWN_COMMAND = 0x0081"
| "response_status_code OUT_OF_MEMORY = 0x0082"
| "response_status_code NOT_SUPPORTED = 0x0083"
| "response_status_code INTERNAL_ERROR = 0x0084"
| "response_status_code BUSY = 0x0085"
| "response_status_code TEMPORARY_FAILURE = 0x0086"

datatype command =
    Get | Set | Add | Replace | Delete | Increment | Decrement | Quit | Flush | GetQ | NoOp |
    Version | GetK | GetKQ | Append | Prepend | Stat | SetQ | AddQ | ReplaceQ | DeleteQ |
    IncrementQ | DecrementQ | QuitQ | FlushQ | AppendQ | PrependQ | Verbosity | Touch |
    GetAndTouch | GetAndTouchQ | SASLListMechs | SASLAuth | SASLStep | RGet | RSet | RSetQ |
    RAppend | RAppendQ | RPrepend | RPrependQ | RDelete | RDeleteQ | RIncr | RIncrQ | RDecr |
    RDecrQ | SetVBucket | GetVBucket | DelVBucket | TAPConnect | TAPMutation | TAPDelete |
    TAPFlush | TAPOpaque | TAPVBucketSet | TAPCheckpointStart | TAPCheckpointEnd

fun command_code :: "command \<Rightarrow> u8" where
  "command_code Get = 0x00"
| "command_code Set = 0x01"
| "command_code Add = 0x02"
| "command_code Replace = 0x03"
| "command_code Delete = 0x04"
| "command_code Increment = 0x05"
| "command_code Decrement = 0x06"
| "command_code Quit = 0x07"
| "command_code Flush = 0x08"
| "command_code GetQ = 0x09"
| "command_code NoOp = 0x0A"
| "command_code Version = 0x0B"
| "command_code GetK = 0x0C"
| "command_code GetKQ = 0x0D"
| "command_code Append = 0x0E"
| "command_code Prepend = 0x0F"
| "command_code Stat = 0x10"
| "command_code SetQ = 0x11"
| "command_code AddQ = 0x12"
| "command_code ReplaceQ = 0x13"
| "command_code DeleteQ = 0x14"
| "command_code IncrementQ = 0x15"
| "command_code DecrementQ = 0x16"
| "command_code QuitQ = 0x17"
| "command_code FlushQ = 0x18"
| "command_code AppendQ = 0x19"
| "command_code PrependQ = 0x1A"
| "command_code Verbosity = 0x1B"
| "command_code Touch = 0x1C"
| "command_code GetAndTouch = 0x1D"
| "command_code GetAndTouchQ = 0x1E"
| "command_code SASLListMechs = 0x20"
| "command_code SASLAuth = 0x21"
| "command_code SASLStep = 0x22"
| "command_code RGet = 0x30"
| "command_code RSet = 0x31"
| "command_code RSetQ = 0x32"
| "command_code RAppend = 0x33"
| "command_code RAppendQ = 0x34"
| "command_code RPrepend = 0x35"
| "command_code RPrependQ = 0x36"
| "command_code RDelete = 0x37"
| "command_code RDeleteQ = 0x38"
| "command_code RIncr = 0x39"
| "command_code RIncrQ = 0x3A"
| "command_code RDecr = 0x3B"
| "command_code RDecrQ = 0x3C"
| "command_code SetVBucket = 0x3D"
| "command_code GetVBucket = 0x3E"
| "command_code DelVBucket = 0x3F"
| "command_code TAPConnect = 0x40"
| "command_code TAPMutation = 0x41"
| "command_code TAPDelete = 0x42"
| "command_code TAPFlush = 0x43"
| "command_code TAPOpaque = 0x44"
| "command_code TAPVBucketSet = 0x45"
| "command_code TAPCheckpointStart = 0x46"
| "command_code TAPCheckpointEnd = 0x47"

record command_header =
  magic :: u8
  opcode :: u8
  key_size :: u16
  extras_size :: u8
  data_type :: u8
  status :: u16
  body_size :: u32
  opaque :: u32
  cas :: u64

text \<open>
  The constructor leaves \<open>opcode\<close>, \<open>key_size\<close> and \<open>body_size\<close> as they are in memory: \<open>j\<close> is what
  the memory held before.  \<open>virtual_bucket_id\<close> and \<open>status\<close> share their place.
\<close>

definition CommandHeader_new :: "command_header \<Rightarrow> command_header" where
  "CommandHeader_new j = j\<lparr>magic := 0x80, extras_size := 0, data_type := 0, status := 0,
     opaque := 0, cas := 0\<rparr>"

definition CommandHeader_byteswap :: "phosg_api \<Rightarrow> command_header \<Rightarrow> command_header" where
  "CommandHeader_byteswap P h = h\<lparr>key_size := bswap16 P (key_size h), status := bswap16 P (status h),
     body_size := bswap32 P (body_size h), opaque := bswap32 P (opaque h), cas := bswap64 P (cas h)\<rparr>"

text \<open>The memory image of the packed structure, on a little-endian machine, and its inverse.\<close>

definition header_image :: "command_header \<Rightarrow> bytes" where
  "header_image h = [magic h, opcode h] @ le_bytes 2 (unat (key_size h)) @ [extras_size h, data_type h] @
     le_bytes 2 (unat (status h)) @ le_bytes 4 (unat (body_size h)) @ le_bytes 4 (unat (opaque h)) @
     le_bytes 8 (unat (cas h))"

definition header_of_image :: "bytes \<Rightarrow> command_header" where
  "header_of_image d = \<lparr>magic = d ! 0, opcode = d ! 1, key_size = word_of_nat (le_val (take 2 (drop 2 d))),
     extras_size = d ! 4, data_type = d ! 5, status = word_of_nat (le_val (take 2 (drop 6 d))),
     body_size = word_of_nat (le_val (take 4 (drop 8 d))), opaque = word_of_nat (le_val (take 4 (drop 12 d))),
     cas = word_of_nat (le_val (take 8 (drop 16 d)))\<rparr>"

section \<open>The client\<close>

record 'b memcache_client = "'b chan" +
  mc_hostname :: bytes
  mc_port :: u16
  mc_fd :: int

text \<open>The constructor.\<close>

definition Memcache_Client_new :: "bytes \<Rightarrow> u16 \<Rightarrow> ('b memcache_client, unit) act" where
  "Memcache_Client_new hostname port =
     modifyA (\<lambda>s. s\<lparr>mc_hostname := hostname, mc_port := port, mc_fd := -1\<rparr>)"

definition Memcache_connect :: "phosg_api \<Rightarrow> ('b memcache_client, unit) act" where
  "Memcache_connect P = bindA (getsA mc_fd) (\<lambda>fd.
     if fd_is_open P fd then retA ()
     else bindA (getsA (\<lambda>s. (mc_hostname s, mc_port s))) (\<lambda>(host, port).
       bindA (Base_connect P host (unat port)) (\<lambda>fd. modifyA (\<lambda>s. s\<lparr>mc_fd := fd\<rparr>))))"

definition assert_conn_open :: "phosg_api \<Rightarrow> ('b memcache_client, unit) act" where
  "assert_conn_open P = bindA (getsA mc_fd) (\<lambda>fd.
     if \<not> fd_is_open P fd then throwA (Runtime_error ''cannot execute command on non-open connection'')
     else retA ())"

text \<open>
  What every command does to send its request: a fresh buffer, a reference to each part, and a
  write.
\<close>

definition send_parts :: "'b evbuffer_api \<Rightarrow> bytes list \<Rightarrow> (('b, 'z) chan_scheme, unit) act" where
  "send_parts E parts = seqA (Buffer_new E)
     (seqA (eachA (\<lambda>d. on_buf (Buffer_add_reference E d)) parts) (Buffer_write E (-1)))"

definition read_response_header :: "'b evbuffer_api \<Rightarrow> phosg_api \<Rightarrow> u16 \<Rightarrow> u16
    \<Rightarrow> (('b, 'z) chan_scheme, command_header) act" where
  "read_response_header E P expected_error_code1 expected_error_code2 =
     seqA (Buffer_read_to E 24)
       (bindA (on_buf (Buffer_remove_T E 24 header_of_image)) (\<lambda>header0.
        if magic header0 \<noteq> 0x81
        then throwA (Runtime_error ''server responded to binary command with non-binary response'')
        else let header = CommandHeader_byteswap P header0 in
          seqA (Buffer_read_to E (unat (body_size header)))
            (if status header \<noteq> response_status_code OK then
               if status header \<noteq> expected_error_code1 \<and> status header \<noteq> expected_error_code2
               then bindA (on_buf (Buffer_remove E (unat (body_size header)))) (\<lambda>error_str.
                 throwA (Runtime_error (string_printf P ''server sent error %hu: %s''
                   [P_int (uint (status header)), c_str error_str])))
               else seqA (on_buf (Buffer_drain E (unat (body_size header)))) (retA header)
             else retA header)))"

definition Memcache_quit :: "'b evbuffer_api \<Rightarrow> phosg_api \<Rightarrow> command_header \<Rightarrow> ('b memcache_client, unit) act" where
  "Memcache_quit E P j = bindA (getsA mc_fd) (\<lambda>fd.
     if \<not> fd_is_open P fd then retA ()
     else let header = CommandHeader_byteswap P ((CommandHeader_new j)
         \<lparr>opcode := command_code Quit, key_size := 0, body_size := 0\<rparr>) in
       seqA (send_parts E [header_image header]) (modifyA (\<lambda>s. s\<lparr>mc_fd := -1\<rparr>)))"

record get_result =
  gr_value :: bytes
  gr_cas :: u64
  gr_flags :: u32
  gr_key_found :: bool

definition Memcache_get :: "'b evbuffer_api \<Rightarrow> phosg_api \<Rightarrow> command_header \<Rightarrow> bytes \<Rightarrow> u32
    \<Rightarrow> ('b memcache_client, get_result) act" where
  "Memcache_get E P j key expiration_secs = seqA (assert_conn_open P)
     (let extras = (if expiration_secs \<noteq> 0 then 4 else 0);
          header = CommandHeader_byteswap P ((CommandHeader_new j)
            \<lparr>opcode := command_code (if expiration_secs \<noteq> 0 then GetAndTouch else Get),
             extras_size := extras, key_size := word_of_nat (length key),
             body_size := word_of_nat (length key) + ucast extras\<rparr>) in
      seqA (send_parts E ([header_image header] @
          (if expiration_secs \<noteq> 0 then [le_bytes 4 (unat (bswap32 P expiration_secs))] else []) @ [key]))
        (bindA (read_response_header E P (response_status_code KEY_NOT_FOUND) 0) (\<lambda>header.
          if status header \<noteq> 0
          then retA \<lparr>gr_value = [], gr_cas = 0, gr_flags = 0, gr_key_found = False\<rparr>
          else if extras_size header \<noteq> 4
          then throwA (Runtime_error ''server responded to GET without flags'')
          else bindA (on_buf (Buffer_remove_u32b E)) (\<lambda>flags.
            bindA (on_buf (Buffer_remove E (unat (body_size header - ucast (extras_size header))))) (\<lambda>data.
              retA \<lparr>gr_value = data, gr_cas = cas header, gr_flags = flags, gr_key_found = True\<rparr>)))))"

definition write_key :: "'b evbuffer_api \<Rightarrow> phosg_api \<Rightarrow> command_header \<Rightarrow> command \<Rightarrow> u16 \<Rightarrow> u16 \<Rightarrow> bytes
    \<Rightarrow> bytes \<Rightarrow> u32 \<Rightarrow> u32 \<Rightarrow> u64 \<Rightarrow> ('b memcache_client, bool) act" where
  "write_key E P j cmd expected_error_code1 expected_error_code2 key val flags expiration_secs cas_val =
     seqA (assert_conn_open P)
     (let header = CommandHeader_byteswap P ((CommandHeader_new j)
            \<lparr>opcode := command_code cmd, extras_size := 8, key_size := word_of_nat (length key),
             body_size := word_of_nat (8 + length key + length val), cas := cas_val\<rparr>);
          extras = le_bytes 4 (unat (bswap32 P flags)) @ le_bytes 4 (unat (bswap32 P expiration_secs)) in
      seqA (send_parts E [header_image header, extras, key, val])
        (bindA (read_response_header E P expected_error_code1 expected_error_code2) (\<lambda>header.
          if status header \<noteq> 0 then retA False
          else if body_size header \<noteq> 0
          then throwA (Runtime_error ''write command returned response data after header'')
          else retA True)))"

definition Memcache_set :: "'b evbuffer_api \<Rightarrow> phosg_api \<Rightarrow> command_header \<Rightarrow> bytes \<Rightarrow> bytes \<Rightarrow> u32 \<Rightarrow> u32
    \<Rightarrow> u64 \<Rightarrow> ('b memcache_client, bool) act" where
  "Memcache_set E P j key val flags expiration_secs cas_val =
     write_key E P j Set (response_status_code KEY_EXISTS) 0 key val flags expiration_secs cas_val"

definition Memcache_add :: "'b evbuffer_api \<Rightarrow> phosg_api \<Rightarrow> command_header \<Rightarrow> bytes \<Rightarrow> bytes \<Rightarrow> u32 \<Rightarrow> u32
    \<Rightarrow> ('b memcache_client, bool) act" where
  "Memcache_add E P j key val flags expiration_secs =
     write_key E P j Add (response_status_code KEY_EXISTS) 0 key val flags expiration_secs 0"

definition Memcache_replace :: "'b evbuffer_api \<Rightarrow> phosg_api \<Rightarrow> command_header \<Rightarrow> bytes \<Rightarrow> bytes \<Rightarrow> u32 \<Rightarrow> u32
    \<Rightarrow> u64 \<Rightarrow> ('b memcache_client, bool) act" where
  "Memcache_replace E P j key val flags expiration_secs cas_val =
     write_key E P j Replace (response_status_code KEY_NOT_FOUND) (response_status_code KEY_EXISTS)
       key val flags expiration_secs cas_val"

definition Memcache_delete_key :: "'b evbuffer_api \<Rightarrow> phosg_api \<Rightarrow> command_header \<Rightarrow> bytes \<Rightarrow> u64
    \<Rightarrow> ('b memcache_client, bool) act" where
  "Memcache_delete_key E P j key cas_val = seqA (assert_conn_open P)
     (let header = CommandHeader_byteswap P ((CommandHeader_new j)
            \<lparr>opcode := command_code Delete, key_size := word_of_nat (length key),
             body_size := word_of_nat (length key), cas := cas_val\<rparr>) in
      seqA (send_parts E [header_image header, key])
        (bindA (read_response_header E P (response_status_code KEY_EXISTS) 0) (\<lambda>header.
          if status header \<noteq> 0 then retA False
          else if body_size header \<noteq> 0
          then throwA (Runtime_error ''delete command returned response data after header'')
          else retA True)))"

definition Memcache_increment :: "'b evbuffer_api \<Rightarrow> phosg_api \<Rightarrow> command_header \<Rightarrow> bytes \<Rightarrow> u64 \<Rightarrow> u64 \<Rightarrow> u32
    \<Rightarrow> bool \<Rightarrow> ('b memcache_client, u64) act" where
  "Memcache_increment E P j key delta initial_value expiration_secs decrement = seqA (assert_conn_open P)
     (let header = CommandHeader_byteswap P ((CommandHeader_new j)
            \<lparr>opcode := command_code (if decrement then Decrement else Increment), extras_size := 0x14,
             key_size := word_of_nat (length key), body_size := word_of_nat (0x14 + length key)\<rparr>);
          initial = (if initial_value = 0xFFFFFFFFFFFFFFFF then delta else initial_value);
          extras = le_bytes 8 (unat (bswap64 P delta)) @ le_bytes 8 (unat (bswap64 P initial)) @
            le_bytes 4 (unat (bswap32 P expiration_secs)) in
      seqA (send_parts E [header_image header, extras, key])
        (bindA (read_response_header E P (response_status_code KEY_NOT_FOUND) 0) (\<lambda>header.
          if status header \<noteq> 0 then throwA (Out_of_range ''key not found'')
          else if body_size header \<noteq> 8
          then throwA (Runtime_error ''incr/decr command returned response data after header'')
          else on_buf (Buffer_remove_u64b E))))"

definition Memcache_append :: "'b evbuffer_api \<Rightarrow> phosg_api \<Rightarrow> command_header \<Rightarrow> bytes \<Rightarrow> bytes \<Rightarrow> bool
    \<Rightarrow> ('b memcache_client, unit) act" where
  "Memcache_append E P j key val prepend = seqA (assert_conn_open P)
     (let header = CommandHeader_byteswap P ((CommandHeader_new j)
            \<lparr>opcode := command_code (if prepend then Prepend else Append),
             key_size := word_of_nat (length key), body_size := word_of_nat (length key + length val)\<rparr>) in
      seqA (send_parts E [header_image header, key, val])
        (bindA (read_response_header E P 0 0) (\<lambda>_. retA ())))"

definition Memcache_flush :: "'b evbuffer_api \<Rightarrow> phosg_api \<Rightarrow> command_header \<Rightarrow> u32
    \<Rightarrow> ('b memcache_client, unit) act" where
  "Memcache_flush E P j expiration_secs = seqA (assert_conn_open P)
     (let header = CommandHeader_byteswap P ((CommandHeader_new j)
            \<lparr>opcode := command_code Flush, extras_size := 4, key_size := 0, body_size := 4\<rparr>) in
      seqA (send_parts E [header_image header, le_bytes 4 (unat (bswap32 P expiration_secs))])
        (bindA (read_response_header E P 0 0) (\<lambda>_. retA ())))"

text \<open>\<open>start_usecs\<close> and \<open>end_usecs\<close> are what the two calls of \<open>now()\<close> return.\<close>

definition Memcache_noop :: "'b evbuffer_api \<Rightarrow> phosg_api \<Rightarrow> command_header \<Rightarrow> u64 \<Rightarrow> u64
    \<Rightarrow> ('b memcache_client, u64) act" where
  "Memcache_noop E P j start_usecs end_usecs = seqA (assert_conn_open P)
     (let header = CommandHeader_byteswap P ((CommandHeader_new j)
            \<lparr>opcode := command_code NoOp, extras_size := 0, key_size := 0, body_size := 0\<rparr>) in
      seqA (send_parts E [header_image header])
        (bindA (read_response_header E P 0 0) (\<lambda>_. retA (end_usecs - start_usecs))))"

definition Memcache_version :: "'b evbuffer_api \<Rightarrow> phosg_api \<Rightarrow> command_header \<Rightarrow> ('b memcache_client, bytes) act" where
  "Memcache_version E P j = seqA (assert_conn_open P)
     (let header = CommandHeader_byteswap P ((CommandHeader_new j)
            \<lparr>opcode := command_code Version, key_size := 0, body_size := 0\<rparr>) in
      seqA (send_parts E [header_image header])
        (bindA (read_response_header E P 0 0) (\<lambda>header. on_buf (Buffer_remove E (unat (body_size header))))))"

text \<open>
  The loop of \<open>stats\<close> ends with the response whose body is empty.  \<open>emplace\<close> does not replace a
  key that is already there.
\<close>

fun stats_loop :: "nat \<Rightarrow> 'b evbuffer_api \<Rightarrow> phosg_api \<Rightarrow> (bytes \<rightharpoonup> bytes)
    \<Rightarrow> (('b, 'z) chan_scheme, bytes \<rightharpoonup> bytes) act" where
  "stats_loop 0 E P ret = throwA Out_of_fuel"
| "stats_loop (Suc n) E P ret = bindA (read_response_header E P 0 0) (\<lambda>header.
     if extras_size header \<noteq> 0
     then throwA (Runtime_error ''stats response contained unhandled extra data'')
     else if body_size header = 0 then retA ret
     else bindA (on_buf (Buffer_remove E (unat (key_size header)))) (\<lambda>key.
       bindA (on_buf (Buffer_remove E (unat (body_size header - ucast (key_size header))))) (\<lambda>val.
         stats_loop n E P (map_emplace ret key val))))"

text \<open>A null key pointer is \<open>None\<close>.\<close>

definition Memcache_stats :: "nat \<Rightarrow> 'b evbuffer_api \<Rightarrow> phosg_api \<Rightarrow> command_header \<Rightarrow> bytes option
    \<Rightarrow> ('b memcache_client, bytes \<rightharpoonup> bytes) act" where
  "Memcache_stats fuel E P j key = seqA (assert_conn_open P)
     (let key_sz = (case key of None \<Rightarrow> 0 | Some k \<Rightarrow> length k);
          header = CommandHeader_byteswap P ((CommandHeader_new j)
            \<lparr>opcode := command_code Stat, key_size := word_of_nat key_sz, body_size := word_of_nat key_sz\<rparr>) in
      seqA (send_parts E (header_image header # (case key of None \<Rightarrow> [] | Some k \<Rightarrow> [k])))
        (stats_loop fuel E P Map.empty))"

definition Memcache_touch :: "'b evbuffer_api \<Rightarrow> phosg_api \<Rightarrow> command_header \<Rightarrow> bytes \<Rightarrow> u32
    \<Rightarrow> ('b memcache_client, unit) act" where
  "Memcache_touch E P j key expiration_secs = seqA (assert_conn_open P)
     (let header = CommandHeader_byteswap P ((CommandHeader_new j)
            \<lparr>opcode := command_code Touch, extras_size := 4, key_size := word_of_nat (length key),
             body_size := word_of_nat (length key + 4)\<rparr>) in
      seqA (send_parts E [header_image header, le_bytes 4 (unat (bswap32 P expiration_secs)), key])
        (bindA (read_response_header E P 0 0) (\<lambda>_. retA ())))"

section \<open>Simulation\<close>

lemma mc_fd_abs [simp]: "mc_fd (chan_abs v s) = mc_fd s"
  by (cases s) (simp add: chan_abs_def)

lemma mc_fd_update_abs [simp]: "chan_abs v (s\<lparr>mc_fd := x\<rparr>) = (chan_abs v s)\<lparr>mc_fd := x\<rparr>"
  by (cases s) (simp add: chan_abs_def)

lemma assert_conn_open_sim [sim_intros]: "simA (chan_abs v) (assert_conn_open P) (assert_conn_open P)"
  unfolding assert_conn_open_def by (intro sim_intros) simp

lemma send_sims [sim_intros]:
  assumes "evbuffer_spec E v"
  shows "simA (chan_abs v) (send_parts E parts) (send_parts (evb_ref E) parts)"
    and "simA (chan_abs v) (read_response_header E P e1 e2) (read_response_header (evb_ref E) P e1 e2)"
  unfolding send_parts_def read_response_header_def Let_def
  by (intro sim_intros assms)+

lemma stats_loop_sim [sim_intros]:
  assumes "evbuffer_spec E v"
  shows "simA (chan_abs v) (stats_loop n E P m) (stats_loop n (evb_ref E) P m)"
  by (induction n arbitrary: m) (auto intro!: sim_intros assms)

lemma Memcache_sims [sim_intros]:
  assumes "evbuffer_spec E v"
  shows "simA (chan_abs v) (Memcache_get E P j key w32) (Memcache_get (evb_ref E) P j key w32)"
    and "simA (chan_abs v) (write_key E P j cmd e1 e2 key val w32 x32 w64) (write_key (evb_ref E) P j cmd e1 e2 key val w32 x32 w64)"
    and "simA (chan_abs v) (Memcache_delete_key E P j key w64) (Memcache_delete_key (evb_ref E) P j key w64)"
    and "simA (chan_abs v) (Memcache_increment E P j key w64 x64 w32 dec) (Memcache_increment (evb_ref E) P j key w64 x64 w32 dec)"
    and "simA (chan_abs v) (Memcache_append E P j key val pre) (Memcache_append (evb_ref E) P j key val pre)"
    and "simA (chan_abs v) (Memcache_flush E P j w32) (Memcache_flush (evb_ref E) P j w32)"
    and "simA (chan_abs v) (Memcache_noop E P j w64 x64) (Memcache_noop (evb_ref E) P j w64 x64)"
    and "simA (chan_abs v) (Memcache_version E P j) (Memcache_version (evb_ref E) P j)"
    and "simA (chan_abs v) (Memcache_stats fuel E P j okey) (Memcache_stats fuel (evb_ref E) P j okey)"
    and "simA (chan_abs v) (Memcache_touch E P j key w32) (Memcache_touch (evb_ref E) P j key w32)"
    and "simA (chan_abs v) (Memcache_quit E P j) (Memcache_quit (evb_ref E) P j)"
  unfolding Memcache_get_def write_key_def Memcache_delete_key_def Memcache_increment_def Memcache_append_def
    Memcache_flush_def Memcache_noop_def Memcache_version_def Memcache_stats_def Memcache_touch_def
    Memcache_quit_def Let_def Buffer_remove_u32b_def Buffer_remove_u64b_def
  by (intro sim_intros assms; simp)+

section \<open>The wire format\<close>

definition wire_header :: "command_header \<Rightarrow> bytes" where
  "wire_header h = [magic h, opcode h] @ be_bytes 2 (unat (key_size h)) @ [extras_size h, data_type h] @
     be_bytes 2 (unat (status h)) @ be_bytes 4 (unat (body_size h)) @ be_bytes 4 (unat (opaque h)) @
     be_bytes 8 (unat (cas h))"

lemma length_wire_header [simp]: "length (wire_header h) = 24"
  by (simp add: wire_header_def)

lemma header_image_byteswap:
  "bswap_spec P \<Longrightarrow> header_image (CommandHeader_byteswap P h) = wire_header h"
  by (simp add: header_image_def CommandHeader_byteswap_def wire_header_def bswap_le_bytes del: le_bytes.simps)

lemma header_of_wire_magic: "magic (header_of_image (wire_header h)) = magic h"
  by (simp add: header_of_image_def wire_header_def)

lemma header_of_wire:
  assumes "bswap_spec P"
  shows "CommandHeader_byteswap P (header_of_image (wire_header h)) = (h :: command_header)"
  by (cases h) (simp add: header_of_image_def wire_header_def CommandHeader_byteswap_def nth_append
      bswap_read [OF assms])

lemma reaches_send:
  assumes "chan_at b inp out (length (concat parts) + w) x s" and "concat parts \<noteq> []"
    and "length (concat parts) < 2 ^ 63"
  shows "reaches (send_parts (evb_list z) parts) s () (chan_at [] inp (out @ concat parts) w x)"
proof -
  let ?W = "length (concat parts) + w"
  have new: "reaches (Buffer_new (evb_list z)) s () (chan_at [] inp out ?W x)"
    using assms(1) by (auto simp: reaches_def Buffer_new_def chan_at_def live_def)
  have add: "reaches (eachA (\<lambda>d. on_buf (Buffer_add_reference (evb_list z) d)) ps) s1 () (chan_at (b1 @ concat ps) inp out W x)"
    if "chan_at b1 inp out W x s1" for b1 W s1 ps
    using that
  proof (induction ps arbitrary: b1 s1)
    case (Cons p ps)
    have "reaches (on_buf (Buffer_add_reference (evb_list z) p)) s1 () (chan_at (b1 @ p) inp out W x)"
      using Cons.prems by (rule reaches_on_buf) simp
    from reaches_seqA [OF this Cons.IH, of "b1 @ p"] show ?case
      by (simp only: eachA.simps concat.simps append_assoc)
  qed (simp add: reaches_retA)
  show ?thesis unfolding send_parts_def
    by (rule reaches_seqA [OF new], rule reaches_seqA, erule add, rule reaches_write)
      (use assms in auto)
qed

text \<open>
  A response on the stream: its header and its body.  It is taken off the stream exactly; the
  body is left in the buffer when the status is OK and dropped when the error is expected.
\<close>

definition response_ok :: "command_header \<Rightarrow> bytes \<Rightarrow> bool" where
  "response_ok h body \<longleftrightarrow> magic h = 0x81 \<and> length body < 2 ^ 31 \<and> body_size h = word_of_nat (length body)"

lemma reaches_response_body:
  assumes P: "bswap_spec P" and ok: "response_ok h body" and at: "chan_at [] (wire_header h @ body @ inp) out w x s"
  shows "reaches (Buffer_read_to (evb_list z) 24) s () (chan_at (wire_header h) (body @ inp) out w x)"
    and "chan_at (wire_header h) (body @ inp) out w x s1 \<Longrightarrow>
      reaches (on_buf (Buffer_remove_T (evb_list z) 24 header_of_image)) s1 (header_of_image (wire_header h))
        (chan_at [] (body @ inp) out w x)"
    and "chan_at [] (body @ inp) out w x s2 \<Longrightarrow>
      reaches (Buffer_read_to (evb_list z) (unat (body_size h))) s2 () (chan_at body inp out w x)"
proof -
  have n: "unat (body_size h) = length body" using ok by (simp add: response_ok_def unat_of_nat)
  show "reaches (Buffer_read_to (evb_list z) 24) s () (chan_at (wire_header h) (body @ inp) out w x)"
    using reaches_read_to [OF at, of 24 z] by simp
  show "chan_at (wire_header h) (body @ inp) out w x s1 \<Longrightarrow>
      reaches (on_buf (Buffer_remove_T (evb_list z) 24 header_of_image)) s1 (header_of_image (wire_header h))
        (chan_at [] (body @ inp) out w x)"
    by (erule reaches_on_buf) (simp add: Buffer_list)
  show "chan_at [] (body @ inp) out w x s2 \<Longrightarrow>
      reaches (Buffer_read_to (evb_list z) (unat (body_size h))) s2 () (chan_at body inp out w x)"
    using reaches_read_to [of "[]" body inp out w x s2 "length body" z] ok by (simp add: n) (simp add: response_ok_def)
qed

lemma reaches_response:
  assumes P: "bswap_spec P" and ok: "response_ok h body" and at: "chan_at [] (wire_header h @ body @ inp) out w x s"
  shows "status h = 0 \<Longrightarrow>
      reaches (read_response_header (evb_list z) P e1 e2) s h (chan_at body inp out w x)"
    and "status h \<noteq> 0 \<Longrightarrow> status h \<in> {e1, e2} \<Longrightarrow>
      reaches (read_response_header (evb_list z) P e1 e2) s h (chan_at [] inp out w x)"
    and "status h \<noteq> 0 \<Longrightarrow> status h \<notin> {e1, e2} \<Longrightarrow>
      fails (read_response_header (evb_list z) P e1 e2) s
        (Runtime_error (string_printf P ''server sent error %hu: %s'' [P_int (uint (status h)), c_str body]))
        (chan_at [] inp out w x)"
proof -
  have m: "magic (header_of_image (wire_header h)) = 0x81"
    using ok by (simp add: header_of_wire_magic response_ok_def)
  have n: "unat (body_size h) = length body" using ok by (simp add: response_ok_def unat_of_nat)
  note steps = reaches_response_body [OF P ok at]
  show "reaches (read_response_header (evb_list z) P e1 e2) s h (chan_at body inp out w x)" if "status h = 0"
    unfolding read_response_header_def
    by (rule reaches_seqA [OF steps(1)], rule reaches_bindA, erule steps(2))
      (auto simp: m that header_of_wire [OF P] Let_def intro!: reaches_seqA [OF steps(3)] reaches_retA)
  have drain: "reaches (on_buf (Buffer_drain (evb_list z) (length body))) s1 () (chan_at [] inp out w x)"
    if "chan_at body inp out w x s1" for s1
    using that by (rule reaches_on_buf) simp
  show "reaches (read_response_header (evb_list z) P e1 e2) s h (chan_at [] inp out w x)"
    if "status h \<noteq> 0" "status h \<in> {e1, e2}"
    unfolding read_response_header_def
    by (rule reaches_seqA [OF steps(1)], rule reaches_bindA, erule steps(2))
      (use that in \<open>auto simp: m n header_of_wire [OF P] Let_def
        intro!: reaches_seqA [OF steps(3) [unfolded n]] reaches_seqA [OF drain] reaches_retA\<close>)
  have err: "reaches (on_buf (Buffer_remove (evb_list z) (length body))) s1 body (chan_at [] inp out w x)"
    if "chan_at body inp out w x s1" for s1
    using that by (rule reaches_on_buf) (simp add: Buffer_list)
  show "fails (read_response_header (evb_list z) P e1 e2) s
      (Runtime_error (string_printf P ''server sent error %hu: %s'' [P_int (uint (status h)), c_str body]))
      (chan_at [] inp out w x)" if "status h \<noteq> 0" "status h \<notin> {e1, e2}"
    unfolding read_response_header_def
    by (rule fails_seqA [OF steps(1)], rule fails_bindA, erule steps(2))
      (use that in \<open>auto simp: m n header_of_wire [OF P] Let_def
        intro!: fails_seqA [OF steps(3) [unfolded n]] fails_bindA [OF err] fails_throwA\<close>)
qed

section \<open>Commands\<close>

text \<open>The request a command sends, as the protocol documents it.\<close>

definition request :: "command \<Rightarrow> u64 \<Rightarrow> bytes \<Rightarrow> bytes \<Rightarrow> bytes \<Rightarrow> bytes" where
  "request cmd c extras key val = wire_header \<lparr>magic = 0x80, opcode = command_code cmd,
     key_size = word_of_nat (length key), extras_size = word_of_nat (length extras), data_type = 0, status = 0,
     body_size = word_of_nat (length extras + length key + length val), opaque = 0, cas = c\<rparr> @
     extras @ key @ val"

lemma length_request [simp]: "length (request cmd c ex key val) = 24 + length ex + length key + length val"
  by (simp add: request_def)

lemma request_parts:
  assumes "bswap_spec P"
    and "h = (CommandHeader_new j)\<lparr>opcode := command_code cmd, extras_size := word_of_nat (length ex),
      key_size := word_of_nat (length key), body_size := word_of_nat (length ex + length key + length val), cas := c\<rparr>"
  shows "header_image (CommandHeader_byteswap P h) @ ex @ key @ val = request cmd c ex key val"
proof -
  have "h = \<lparr>magic = 0x80, opcode = command_code cmd, key_size = word_of_nat (length key),
      extras_size = word_of_nat (length ex), data_type = 0, status = 0,
      body_size = word_of_nat (length ex + length key + length val), opaque = 0, cas = c\<rparr>"
    unfolding assms(2) CommandHeader_new_def by (cases j) simp
  then show ?thesis by (simp add: request_def header_image_byteswap [OF assms(1)])
qed

lemma reaches_assert_open: "fd_is_open P (mc_fd s) \<Longrightarrow> reaches (assert_conn_open P) s () (\<lambda>s'. s' = s)"
  by (simp add: reaches_def assert_conn_open_def bindA_def)

lemma reaches_command:
  assumes opn: "fd_is_open P (mc_fd s)" and parts: "concat parts = req" "req \<noteq> []" "length req < 2 ^ 63"
    and at: "chan_at b inp out (length req + w) x s"
    and cont: "\<And>s'. chan_at [] inp (out @ req) w x s' \<Longrightarrow> reaches k s' r Q"
  shows "reaches (seqA (assert_conn_open P) (seqA (send_parts (evb_list z) parts) k)) s r Q"
proof -
  have send: "reaches (send_parts (evb_list z) parts) s () (chan_at [] inp (out @ req) w x)"
    using reaches_send [of b inp out parts w x s z] parts at by simp
  show ?thesis
    by (rule reaches_seqA [OF reaches_assert_open [OF opn]]) (auto intro: reaches_seqA [OF send] cont)
qed

lemma fails_command:
  assumes opn: "fd_is_open P (mc_fd s)" and parts: "concat parts = req" "req \<noteq> []" "length req < 2 ^ 63"
    and at: "chan_at b inp out (length req + w) x s"
    and cont: "\<And>s'. chan_at [] inp (out @ req) w x s' \<Longrightarrow> fails k s' e Q"
  shows "fails (seqA (assert_conn_open P) (seqA (send_parts (evb_list z) parts) k)) s e Q"
proof -
  have send: "reaches (send_parts (evb_list z) parts) s () (chan_at [] inp (out @ req) w x)"
    using reaches_send [of b inp out parts w x s z] parts at by simp
  show ?thesis
    by (rule fails_seqA [OF reaches_assert_open [OF opn]]) (auto intro: fails_seqA [OF send] cont)
qed

text \<open>Reading the body of a successful get: four bytes of flags, then the value.\<close>

definition get_request :: "bytes \<Rightarrow> u32 \<Rightarrow> bytes" where
  "get_request key exp = (if exp \<noteq> 0 then request GetAndTouch 0 (be_bytes 4 (unat exp)) key []
     else request Get 0 [] key [])"

lemma get_parts:
  assumes "bswap_spec P"
  shows "concat ([header_image (CommandHeader_byteswap P ((CommandHeader_new j)
      \<lparr>opcode := command_code (if exp \<noteq> 0 then GetAndTouch else Get), extras_size := if exp \<noteq> 0 then 4 else 0,
       key_size := word_of_nat (length key),
       body_size := word_of_nat (length key) + ucast (if exp \<noteq> 0 then 4 else 0 :: u8)\<rparr>))] @
      (if exp \<noteq> 0 then [le_bytes 4 (unat (bswap32 P exp))] else []) @ [key]) = get_request key exp"
proof (cases "exp = 0")
  case True
  have "header_image (CommandHeader_byteswap P ((CommandHeader_new j)\<lparr>opcode := command_code Get,
      extras_size := 0, key_size := word_of_nat (length key), body_size := word_of_nat (length key)\<rparr>)) @ [] @ key @ [] =
      request Get 0 [] key []"
    by (rule request_parts [OF assms]) (simp add: CommandHeader_new_def)
  with True show ?thesis by (simp add: get_request_def)
next
  case False
  have "header_image (CommandHeader_byteswap P ((CommandHeader_new j)\<lparr>opcode := command_code GetAndTouch,
      extras_size := 4, key_size := word_of_nat (length key), body_size := word_of_nat (length key) + 4\<rparr>)) @
      be_bytes 4 (unat exp) @ key @ [] = request GetAndTouch 0 (be_bytes 4 (unat exp)) key []"
    by (rule request_parts [OF assms]) (simp add: CommandHeader_new_def add.commute)
  with False show ?thesis by (simp add: get_request_def bswap_le_bytes [OF assms] del: le_bytes.simps)
qed

lemma get_request_length: "24 \<le> length (get_request key exp)" "length (get_request key exp) \<le> 28 + length key"
  by (simp_all add: get_request_def)

lemma get_list:
  assumes P: "bswap_spec P" and opn: "fd_is_open P (mc_fd s)" and key: "length key < 2 ^ 62"
    and at: "chan_at b (wire_header h @ body @ inp) out (length (get_request key exp) + w) x s"
    and ok: "response_ok h body"
  shows "status h = 0 \<Longrightarrow> extras_size h = 4 \<Longrightarrow> body = be_bytes 4 (unat flags) @ val \<Longrightarrow>
      reaches (Memcache_get (evb_list z) P j key exp) s
        \<lparr>gr_value = val, gr_cas = cas h, gr_flags = flags, gr_key_found = True\<rparr>
        (chan_at [] inp (out @ get_request key exp) w x)"
    and "status h = response_status_code KEY_NOT_FOUND \<Longrightarrow>
      reaches (Memcache_get (evb_list z) P j key exp) s
        \<lparr>gr_value = [], gr_cas = 0, gr_flags = 0, gr_key_found = False\<rparr>
        (chan_at [] inp (out @ get_request key exp) w x)"
    and "status h \<noteq> 0 \<Longrightarrow> status h \<noteq> response_status_code KEY_NOT_FOUND \<Longrightarrow>
      fails (Memcache_get (evb_list z) P j key exp) s
        (Runtime_error (string_printf P ''server sent error %hu: %s'' [P_int (uint (status h)), c_str body]))
        (chan_at [] inp (out @ get_request key exp) w x)"
proof -
  have req: "get_request key exp \<noteq> []" "length (get_request key exp) < 2 ^ 63"
    using get_request_length [of key exp] key by auto
  note cmd = reaches_command [OF opn get_parts [OF P] req at]
  show "reaches (Memcache_get (evb_list z) P j key exp) s
      \<lparr>gr_value = val, gr_cas = cas h, gr_flags = flags, gr_key_found = True\<rparr>
      (chan_at [] inp (out @ get_request key exp) w x)"
    if st: "status h = 0" and ex: "extras_size h = 4" and body: "body = be_bytes 4 (unat flags) @ val"
    unfolding Memcache_get_def Let_def
  proof (rule cmd, rule reaches_bindA, erule reaches_response(1) [OF P ok _ st])
    fix s1 assume s1: "chan_at body inp (out @ get_request key exp) w x s1"
    have n: "unat (body_size h - ucast (extras_size h)) = length val"
      using ok by (simp add: response_ok_def ex body unat_of_nat)
    have 1: "reaches (on_buf (Buffer_remove_u32b (evb_list z))) s1 flags (chan_at val inp (out @ get_request key exp) w x)"
      by (rule reaches_on_buf [OF s1]) (simp add: Buffer_remove_u32b_def Buffer_list body word_of_be_bytes)
    have 2: "reaches (on_buf (Buffer_remove (evb_list z) (unat (body_size h - ucast (extras_size h))))) s2 val
        (chan_at [] inp (out @ get_request key exp) w x)"
      if "chan_at val inp (out @ get_request key exp) w x s2" for s2
      using that by (rule reaches_on_buf) (simp add: n Buffer_list)
    show "reaches (if status h \<noteq> 0 then retA \<lparr>gr_value = [], gr_cas = 0, gr_flags = 0, gr_key_found = False\<rparr>
        else if extras_size h \<noteq> 4 then throwA (Runtime_error ''server responded to GET without flags'')
        else bindA (on_buf (Buffer_remove_u32b (evb_list z))) (\<lambda>flags.
          bindA (on_buf (Buffer_remove (evb_list z) (unat (body_size h - ucast (extras_size h))))) (\<lambda>data.
            retA \<lparr>gr_value = data, gr_cas = cas h, gr_flags = flags, gr_key_found = True\<rparr>))) s1
      \<lparr>gr_value = val, gr_cas = cas h, gr_flags = flags, gr_key_found = True\<rparr>
      (chan_at [] inp (out @ get_request key exp) w x)"
      unfolding st ex
      by (subst if_not_P, simp, subst if_not_P, simp, rule reaches_bindA [OF 1], rule reaches_bindA)
        (erule 2 [unfolded ex], erule reaches_retA)
  qed
  show "reaches (Memcache_get (evb_list z) P j key exp) s
      \<lparr>gr_value = [], gr_cas = 0, gr_flags = 0, gr_key_found = False\<rparr>
      (chan_at [] inp (out @ get_request key exp) w x)"
    if st: "status h = response_status_code KEY_NOT_FOUND"
    unfolding Memcache_get_def Let_def
    by (rule cmd, rule reaches_bindA, erule reaches_response(2) [OF P ok])
      (use st in \<open>auto intro: reaches_retA\<close>)
  show "fails (Memcache_get (evb_list z) P j key exp) s
      (Runtime_error (string_printf P ''server sent error %hu: %s'' [P_int (uint (status h)), c_str body]))
      (chan_at [] inp (out @ get_request key exp) w x)"
    if st: "status h \<noteq> 0" "status h \<noteq> response_status_code KEY_NOT_FOUND"
    unfolding Memcache_get_def Let_def
    by (rule fails_command [OF opn get_parts [OF P] req at], rule fails_bindA1, erule reaches_response(3) [OF P ok])
      (use st in auto)
qed

text \<open>set, add and replace: the three outcomes of a response.\<close>

definition write_request :: "command \<Rightarrow> bytes \<Rightarrow> bytes \<Rightarrow> u32 \<Rightarrow> u32 \<Rightarrow> u64 \<Rightarrow> bytes" where
  "write_request cmd key val flags exp c =
     request cmd c (be_bytes 4 (unat flags) @ be_bytes 4 (unat exp)) key val"

lemma length_write_request [simp]:
  "length (write_request cmd key val flags exp c) = 32 + length key + length val"
  by (simp add: write_request_def)

lemma write_key_list:
  assumes P: "bswap_spec P" and opn: "fd_is_open P (mc_fd s)" and key: "length key + length val < 2 ^ 62"
    and at: "chan_at b (wire_header h @ body @ inp) out (length (write_request cmd key val flags exp c) + w) x s"
    and ok: "response_ok h body"
  defines "req \<equiv> write_request cmd key val flags exp c"
  shows "status h = 0 \<Longrightarrow> body = [] \<Longrightarrow>
      reaches (write_key (evb_list z) P j cmd e1 e2 key val flags exp c) s True (chan_at [] inp (out @ req) w x)"
    and "status h \<noteq> 0 \<Longrightarrow> status h \<in> {e1, e2} \<Longrightarrow>
      reaches (write_key (evb_list z) P j cmd e1 e2 key val flags exp c) s False (chan_at [] inp (out @ req) w x)"
    and "status h \<noteq> 0 \<Longrightarrow> status h \<notin> {e1, e2} \<Longrightarrow>
      fails (write_key (evb_list z) P j cmd e1 e2 key val flags exp c) s
        (Runtime_error (string_printf P ''server sent error %hu: %s'' [P_int (uint (status h)), c_str body]))
        (chan_at [] inp (out @ req) w x)"
proof -
  let ?ex = "be_bytes 4 (unat flags) @ be_bytes 4 (unat exp)"
  let ?parts = "[header_image (CommandHeader_byteswap P ((CommandHeader_new j)\<lparr>opcode := command_code cmd,
      extras_size := 8, key_size := word_of_nat (length key),
      body_size := word_of_nat (8 + length key + length val), cas := c\<rparr>)),
    le_bytes 4 (unat (bswap32 P flags)) @ le_bytes 4 (unat (bswap32 P exp)), key, val]"
  have parts: "concat ?parts = write_request cmd key val flags exp c"
    using request_parts [OF P refl, where j = j and cmd = cmd and ex = ?ex and key = key and val = val and c = c]
    by (simp add: write_request_def bswap_le_bytes [OF P] del: le_bytes.simps)
  have req: "write_request cmd key val flags exp c \<noteq> []" "length (write_request cmd key val flags exp c) < 2 ^ 63"
    using key length_write_request [of cmd key val flags exp c] by (auto simp del: length_write_request)
  show "reaches (write_key (evb_list z) P j cmd e1 e2 key val flags exp c) s True (chan_at [] inp (out @ req) w x)"
    if st: "status h = 0" "body = []"
    unfolding write_key_def Let_def req_def
    by (rule reaches_command [OF opn parts req at], rule reaches_bindA, erule reaches_response(1) [OF P ok _ st(1)])
      (use st ok in \<open>auto simp: response_ok_def intro: reaches_retA\<close>)
  show "reaches (write_key (evb_list z) P j cmd e1 e2 key val flags exp c) s False (chan_at [] inp (out @ req) w x)"
    if st: "status h \<noteq> 0" "status h \<in> {e1, e2}"
    unfolding write_key_def Let_def req_def
    by (rule reaches_command [OF opn parts req at], rule reaches_bindA, erule reaches_response(2) [OF P ok _ st])
      (use st in \<open>auto intro: reaches_retA\<close>)
  show "fails (write_key (evb_list z) P j cmd e1 e2 key val flags exp c) s
      (Runtime_error (string_printf P ''server sent error %hu: %s'' [P_int (uint (status h)), c_str body]))
      (chan_at [] inp (out @ req) w x)"
    if st: "status h \<noteq> 0" "status h \<notin> {e1, e2}"
    unfolding write_key_def Let_def req_def
    by (rule fails_command [OF opn parts req at], rule fails_bindA1, erule reaches_response(3) [OF P ok _ st])
qed

lemma delete_list:
  assumes P: "bswap_spec P" and opn: "fd_is_open P (mc_fd s)" and key: "length key < 2 ^ 62"
    and at: "chan_at b (wire_header h @ body @ inp) out (length (request Delete c [] key []) + w) x s"
    and ok: "response_ok h body"
  shows "status h = 0 \<Longrightarrow> body = [] \<Longrightarrow>
      reaches (Memcache_delete_key (evb_list z) P j key c) s True
        (chan_at [] inp (out @ request Delete c [] key []) w x)"
    and "status h \<noteq> 0 \<Longrightarrow> status h \<noteq> response_status_code KEY_EXISTS \<Longrightarrow>
      fails (Memcache_delete_key (evb_list z) P j key c) s
        (Runtime_error (string_printf P ''server sent error %hu: %s'' [P_int (uint (status h)), c_str body]))
        (chan_at [] inp (out @ request Delete c [] key []) w x)"
    and "status h = response_status_code KEY_EXISTS \<Longrightarrow>
      reaches (Memcache_delete_key (evb_list z) P j key c) s False
        (chan_at [] inp (out @ request Delete c [] key []) w x)"
proof -
  let ?parts = "[header_image (CommandHeader_byteswap P ((CommandHeader_new j)\<lparr>opcode := command_code Delete,
      key_size := word_of_nat (length key), body_size := word_of_nat (length key), cas := c\<rparr>)), key]"
  have parts: "concat ?parts = request Delete c [] key []"
    using request_parts [OF P refl, where j = j and cmd = Delete and ex = "[]" and key = key and val = "[]" and c = c]
    by (cases j) (simp add: CommandHeader_new_def)
  have req: "request Delete c [] key [] \<noteq> []" "length (request Delete c [] key []) < 2 ^ 63"
    using key length_request [of Delete c "[]" key "[]"] by (auto simp del: length_request)
  show "reaches (Memcache_delete_key (evb_list z) P j key c) s True
      (chan_at [] inp (out @ request Delete c [] key []) w x)" if st: "status h = 0" "body = []"
    unfolding Memcache_delete_key_def Let_def
    by (rule reaches_command [OF opn parts req at], rule reaches_bindA, erule reaches_response(1) [OF P ok _ st(1)])
      (use st ok in \<open>auto simp: response_ok_def intro: reaches_retA\<close>)
  show "fails (Memcache_delete_key (evb_list z) P j key c) s
      (Runtime_error (string_printf P ''server sent error %hu: %s'' [P_int (uint (status h)), c_str body]))
      (chan_at [] inp (out @ request Delete c [] key []) w x)"
    if st: "status h \<noteq> 0" "status h \<noteq> response_status_code KEY_EXISTS"
    unfolding Memcache_delete_key_def Let_def
    by (rule fails_command [OF opn parts req at], rule fails_bindA1, erule reaches_response(3) [OF P ok])
      (use st in auto)
  show "reaches (Memcache_delete_key (evb_list z) P j key c) s False (chan_at [] inp (out @ request Delete c [] key []) w x)"
    if st: "status h = response_status_code KEY_EXISTS"
    unfolding Memcache_delete_key_def Let_def
    by (rule reaches_command [OF opn parts req at], rule reaches_bindA, erule reaches_response(2) [OF P ok])
      (use st in \<open>auto intro: reaches_retA\<close>)
qed

definition increment_request :: "bool \<Rightarrow> bytes \<Rightarrow> u64 \<Rightarrow> u64 \<Rightarrow> u32 \<Rightarrow> bytes" where
  "increment_request decr key delta initial exp = request (if decr then Decrement else Increment) 0
     (be_bytes 8 (unat delta) @ be_bytes 8 (unat (if initial = 0xFFFFFFFFFFFFFFFF then delta else initial)) @
       be_bytes 4 (unat exp)) key []"

lemma increment_list:
  assumes P: "bswap_spec P" and opn: "fd_is_open P (mc_fd s)" and key: "length key < 2 ^ 62"
    and at: "chan_at b (wire_header h @ body @ inp) out (length (increment_request decr key delta initial exp) + w) x s"
    and ok: "response_ok h body"
  shows "status h = 0 \<Longrightarrow> body = be_bytes 8 (unat n) \<Longrightarrow>
      reaches (Memcache_increment (evb_list z) P j key delta initial exp decr) s n
        (chan_at [] inp (out @ increment_request decr key delta initial exp) w x)"
    and "status h = response_status_code KEY_NOT_FOUND \<Longrightarrow>
      fails (Memcache_increment (evb_list z) P j key delta initial exp decr) s (Out_of_range ''key not found'')
        (chan_at [] inp (out @ increment_request decr key delta initial exp) w x)"
    and "status h \<noteq> 0 \<Longrightarrow> status h \<noteq> response_status_code KEY_NOT_FOUND \<Longrightarrow>
      fails (Memcache_increment (evb_list z) P j key delta initial exp decr) s
        (Runtime_error (string_printf P ''server sent error %hu: %s'' [P_int (uint (status h)), c_str body]))
        (chan_at [] inp (out @ increment_request decr key delta initial exp) w x)"
proof -
  let ?init = "if initial = 0xFFFFFFFFFFFFFFFF then delta else initial"
  let ?cmd = "if decr then Decrement else Increment"
  let ?ex = "be_bytes 8 (unat delta) @ be_bytes 8 (unat ?init) @ be_bytes 4 (unat exp)"
  let ?parts = "[header_image (CommandHeader_byteswap P ((CommandHeader_new j)\<lparr>opcode := command_code ?cmd,
      extras_size := 0x14, key_size := word_of_nat (length key), body_size := word_of_nat (0x14 + length key)\<rparr>)),
    le_bytes 8 (unat (bswap64 P delta)) @ le_bytes 8 (unat (bswap64 P ?init)) @ le_bytes 4 (unat (bswap32 P exp)), key]"
  have parts: "concat ?parts = increment_request decr key delta initial exp"
    using request_parts [OF P refl, where j = j and cmd = ?cmd and ex = ?ex and key = key and val = "[]" and c = 0]
    by (cases j) (simp add: increment_request_def bswap_le_bytes [OF P] CommandHeader_new_def del: le_bytes.simps)
  have len: "length (increment_request decr key delta initial exp) = 44 + length key"
    by (simp add: increment_request_def)
  have req: "increment_request decr key delta initial exp \<noteq> []"
    "length (increment_request decr key delta initial exp) < 2 ^ 63"
    using key len by auto
  show "reaches (Memcache_increment (evb_list z) P j key delta initial exp decr) s n
      (chan_at [] inp (out @ increment_request decr key delta initial exp) w x)"
    if st: "status h = 0" "body = be_bytes 8 (unat n)"
    unfolding Memcache_increment_def Let_def
    by (rule reaches_command [OF opn parts req at], rule reaches_bindA, erule reaches_response(1) [OF P ok _ st(1)])
      (use st ok in \<open>auto simp: response_ok_def Buffer_remove_u64b_def Buffer_list word_of_be_bytes intro!: reaches_on_buf\<close>)
  show "fails (Memcache_increment (evb_list z) P j key delta initial exp decr) s (Out_of_range ''key not found'')
      (chan_at [] inp (out @ increment_request decr key delta initial exp) w x)"
    if st: "status h = response_status_code KEY_NOT_FOUND"
    unfolding Memcache_increment_def Let_def
    by (rule fails_command [OF opn parts req at], rule fails_bindA, erule reaches_response(2) [OF P ok])
      (use st in \<open>auto intro: fails_throwA\<close>)
  show "fails (Memcache_increment (evb_list z) P j key delta initial exp decr) s
      (Runtime_error (string_printf P ''server sent error %hu: %s'' [P_int (uint (status h)), c_str body]))
      (chan_at [] inp (out @ increment_request decr key delta initial exp) w x)"
    if st: "status h \<noteq> 0" "status h \<noteq> response_status_code KEY_NOT_FOUND"
    unfolding Memcache_increment_def Let_def
    by (rule fails_command [OF opn parts req at], rule fails_bindA1, erule reaches_response(3) [OF P ok])
      (use st in auto)
qed

text \<open>Commands that have nothing to return, and those that return what they are sent.\<close>

definition touch_request :: "bytes \<Rightarrow> u32 \<Rightarrow> bytes" where
  "touch_request key exp = request Touch 0 (be_bytes 4 (unat exp)) key []"

lemma simple_parts:
  assumes "bswap_spec P"
  shows "concat [header_image (CommandHeader_byteswap P ((CommandHeader_new j)\<lparr>opcode := command_code (if pre then Prepend else Append),
      key_size := word_of_nat (length key), body_size := word_of_nat (length key + length val)\<rparr>)), key, val] =
      request (if pre then Prepend else Append) 0 [] key val"
    and "concat [header_image (CommandHeader_byteswap P ((CommandHeader_new j)\<lparr>opcode := command_code Touch, extras_size := 4,
      key_size := word_of_nat (length key), body_size := word_of_nat (length key + 4)\<rparr>)), le_bytes 4 (unat (bswap32 P exp)), key] =
      touch_request key exp"
    and "concat [header_image (CommandHeader_byteswap P ((CommandHeader_new j)\<lparr>opcode := command_code Flush, extras_size := 4,
      key_size := 0, body_size := 4\<rparr>)), le_bytes 4 (unat (bswap32 P exp))] = request Flush 0 (be_bytes 4 (unat exp)) [] []"
    and "concat [header_image (CommandHeader_byteswap P ((CommandHeader_new j)\<lparr>opcode := command_code NoOp, extras_size := 0,
      key_size := 0, body_size := 0\<rparr>))] = request NoOp 0 [] [] []"
    and "concat [header_image (CommandHeader_byteswap P ((CommandHeader_new j)\<lparr>opcode := command_code Version,
      key_size := 0, body_size := 0\<rparr>))] = request Version 0 [] [] []"
    and "concat [header_image (CommandHeader_byteswap P ((CommandHeader_new j)\<lparr>opcode := command_code Stat,
      key_size := word_of_nat 0, body_size := word_of_nat 0\<rparr>))] = request Stat 0 [] [] []"
  subgoal using request_parts [OF assms refl, where j = j and c = 0 and key = key and ex = "[]" and val = val and cmd = "if pre then Prepend else Append"]
    by (cases j) (simp add: CommandHeader_new_def touch_request_def bswap_le_bytes [OF assms] add.commute del: le_bytes.simps)
  subgoal using request_parts [OF assms refl, where j = j and c = 0 and key = key and ex = "be_bytes 4 (unat exp)" and val = "[]" and cmd = Touch]
    by (cases j) (simp add: CommandHeader_new_def touch_request_def bswap_le_bytes [OF assms] add.commute del: le_bytes.simps)
  subgoal using request_parts [OF assms refl, where j = j and c = 0 and key = "[]" and ex = "be_bytes 4 (unat exp)" and val = "[]" and cmd = Flush]
    by (cases j) (simp add: CommandHeader_new_def touch_request_def bswap_le_bytes [OF assms] add.commute del: le_bytes.simps)
  subgoal using request_parts [OF assms refl, where j = j and c = 0 and key = "[]" and ex = "[]" and val = "[]" and cmd = NoOp]
    by (cases j) (simp add: CommandHeader_new_def touch_request_def bswap_le_bytes [OF assms] add.commute del: le_bytes.simps)
  subgoal using request_parts [OF assms refl, where j = j and c = 0 and key = "[]" and ex = "[]" and val = "[]" and cmd = Version]
    by (cases j) (simp add: CommandHeader_new_def touch_request_def bswap_le_bytes [OF assms] add.commute del: le_bytes.simps)
  subgoal using request_parts [OF assms refl, where j = j and c = 0 and key = "[]" and ex = "[]" and val = "[]" and cmd = Stat]
    by (cases j) (simp add: CommandHeader_new_def touch_request_def bswap_le_bytes [OF assms] add.commute del: le_bytes.simps)
  done

lemma simple_list:
  assumes P: "bswap_spec P" and opn: "fd_is_open P (mc_fd s)" and parts: "concat parts = req" "req \<noteq> []" "length req < 2 ^ 63"
    and at: "chan_at b (wire_header h @ body @ inp) out (length req + w) x s" and ok: "response_ok h body"
  shows "status h = 0 \<Longrightarrow> body = [] \<Longrightarrow>
      reaches (seqA (assert_conn_open P) (seqA (send_parts (evb_list z) parts) (bindA (read_response_header (evb_list z) P 0 0) (\<lambda>_. retA r)))) s r
        (chan_at [] inp (out @ req) w x)"
    and "status h = 0 \<Longrightarrow>
      reaches (seqA (assert_conn_open P) (seqA (send_parts (evb_list z) parts) (bindA (read_response_header (evb_list z) P 0 0)
        (\<lambda>header. on_buf (Buffer_remove (evb_list z) (unat (body_size header))))))) s body (chan_at [] inp (out @ req) w x)"
    and "status h \<noteq> 0 \<Longrightarrow>
      fails (seqA (assert_conn_open P) (seqA (send_parts (evb_list z) parts) (bindA (read_response_header (evb_list z) P 0 0) k))) s
        (Runtime_error (string_printf P ''server sent error %hu: %s'' [P_int (uint (status h)), c_str body])) (chan_at [] inp (out @ req) w x)"
proof -
  show "reaches (seqA (assert_conn_open P) (seqA (send_parts (evb_list z) parts) (bindA (read_response_header (evb_list z) P 0 0) (\<lambda>_. retA r)))) s r
      (chan_at [] inp (out @ req) w x)" if st: "status h = 0" "body = []"
    by (rule reaches_command [OF opn parts at], rule reaches_bindA, erule reaches_response(1) [OF P ok _ st(1)])
      (use st in \<open>auto intro: reaches_retA\<close>)
  have n: "unat (body_size h) = length body" using ok by (simp add: response_ok_def unat_of_nat)
  show "reaches (seqA (assert_conn_open P) (seqA (send_parts (evb_list z) parts) (bindA (read_response_header (evb_list z) P 0 0)
      (\<lambda>header. on_buf (Buffer_remove (evb_list z) (unat (body_size header))))))) s body (chan_at [] inp (out @ req) w x)" if st: "status h = 0"
    by (rule reaches_command [OF opn parts at], rule reaches_bindA, erule reaches_response(1) [OF P ok _ st], erule reaches_on_buf)
      (simp add: n Buffer_list)
  show "fails (seqA (assert_conn_open P) (seqA (send_parts (evb_list z) parts) (bindA (read_response_header (evb_list z) P 0 0) k))) s
      (Runtime_error (string_printf P ''server sent error %hu: %s'' [P_int (uint (status h)), c_str body])) (chan_at [] inp (out @ req) w x)"
    if st: "status h \<noteq> 0"
    by (rule fails_command [OF opn parts at], rule fails_bindA1, erule reaches_response(3) [OF P ok]) (use st in auto)
qed

text \<open>A series of statistics: one response for each, and one with an empty body.\<close>

definition stat_header :: "command_header \<Rightarrow> nat \<Rightarrow> nat \<Rightarrow> command_header" where
  "stat_header h k n = h\<lparr>magic := 0x81, status := 0, extras_size := 0, key_size := word_of_nat k, body_size := word_of_nat n\<rparr>"

definition stats_stream :: "command_header \<Rightarrow> (bytes \<times> bytes) list \<Rightarrow> bytes" where
  "stats_stream h kvs =
     concat (map (\<lambda>(k, x). wire_header (stat_header h (length k) (length k + length x)) @ k @ x) kvs) @
     wire_header (stat_header h 0 0)"

definition stats_pair_ok :: "bytes \<times> bytes \<Rightarrow> bool" where
  "stats_pair_ok p \<longleftrightarrow> length (fst p) < 2 ^ 16 \<and> length (fst p) + length (snd p) < 2 ^ 31 \<and>
     0 < length (fst p) + length (snd p)"

lemma stats_loop_list:
  assumes P: "bswap_spec P" and "\<forall>p \<in> set kvs. stats_pair_ok p" and "length kvs < fuel"
    and "chan_at [] (stats_stream h kvs @ inp) out w x s"
  shows "reaches (stats_loop fuel (evb_list z) P m) s (foldl (\<lambda>m (k, y). map_emplace m k y) m kvs)
    (chan_at [] inp out w x)"
  using assms(2-4)
proof (induction kvs arbitrary: fuel m s)
  case Nil
  then obtain n where fuel: "fuel = Suc n" by (cases fuel) auto
  have ok: "response_ok (stat_header h 0 0) []" by (simp add: response_ok_def stat_header_def)
  have "reaches (read_response_header (evb_list z) P 0 0) s (stat_header h 0 0) (chan_at [] inp out w x)"
    by (rule reaches_response(1) [OF P ok]) (use Nil in \<open>simp_all add: stats_stream_def stat_header_def\<close>)
  then show ?case unfolding fuel stats_loop.simps
    by (rule reaches_bindA) (simp add: stat_header_def reaches_retA del: retA_apply)
next
  case (Cons p kvs)
  obtain k y where p: "p = (k, y)" by (cases p)
  let ?h = "stat_header h (length k) (length k + length y)"
  from Cons.prems obtain n where fuel: "fuel = Suc n" "length kvs < n" by (cases fuel) auto
  have pr: "length k < 2 ^ 16" "length k + length y < 2 ^ 31" "0 < length k + length y"
    using Cons.prems p by (auto simp: stats_pair_ok_def)
  have ok: "response_ok ?h (k @ y)" using pr by (simp add: response_ok_def stat_header_def)
  have uc: "ucast (word_of_nat (length k) :: u16) = (word_of_nat (length k) :: u32)"
    using pr(1) by (simp add: unsigned_of_nat take_bit_nat_eq_self)
  have "unat (body_size ?h) = length k + length y" using pr(2) by (simp add: stat_header_def unat_of_nat del: of_nat_add)
  with pr(3) have "body_size ?h \<noteq> 0" by auto
  moreover have "unat (body_size ?h - ucast (key_size ?h)) = length y"
    using pr by (simp add: stat_header_def uc unat_of_nat)
  moreover have "extras_size ?h = 0" "unat (key_size ?h) = length k"
    using pr(1) by (simp_all add: stat_header_def unat_of_nat)
  ultimately have h: "extras_size ?h = 0" "body_size ?h \<noteq> 0" "unat (key_size ?h) = length k"
    "unat (body_size ?h - ucast (key_size ?h)) = length y" by blast+
  have 1: "reaches (read_response_header (evb_list z) P 0 0) s ?h (chan_at (k @ y) (stats_stream h kvs @ inp) out w x)"
    by (rule reaches_response(1) [OF P ok]) (use Cons.prems p in \<open>simp_all add: stats_stream_def stat_header_def\<close>)
  have 2: "reaches (on_buf (Buffer_remove (evb_list z) (unat (key_size ?h)))) s1 k (chan_at y (stats_stream h kvs @ inp) out w x)"
    if "chan_at (k @ y) (stats_stream h kvs @ inp) out w x s1" for s1
    by (rule reaches_on_buf [OF that]) (simp add: h Buffer_list)
  have 3: "reaches (on_buf (Buffer_remove (evb_list z) (unat (body_size ?h - ucast (key_size ?h))))) s1 y
      (chan_at [] (stats_stream h kvs @ inp) out w x)"
    if "chan_at y (stats_stream h kvs @ inp) out w x s1" for s1
    by (rule reaches_on_buf [OF that]) (simp add: h Buffer_list)
  have 4: "reaches (stats_loop n (evb_list z) P (map_emplace m k y)) s1
      (foldl (\<lambda>m (k, y). map_emplace m k y) (map_emplace m k y) kvs) (chan_at [] inp out w x)"
    if "chan_at [] (stats_stream h kvs @ inp) out w x s1" for s1
    by (rule Cons.IH) (use Cons.prems fuel that in auto)
  show ?case unfolding fuel(1) stats_loop.simps p foldl.simps prod.case
    by (rule reaches_bindA [OF 1], subst if_not_P, simp add: h, subst if_not_P, simp add: h,
        rule reaches_bindA, erule 2, rule reaches_bindA, erule 3, erule 4)
qed

lemma stats_list:
  assumes P: "bswap_spec P" and kvs: "\<forall>p \<in> set kvs. stats_pair_ok p" "length kvs < fuel"
    and opn: "fd_is_open P (mc_fd s)" and at: "chan_at b (stats_stream h kvs @ inp) out (length (request Stat 0 [] [] []) + w) x s"
  shows "reaches (Memcache_stats fuel (evb_list z) P j None) s (foldl (\<lambda>m (k, y). map_emplace m k y) Map.empty kvs)
    (chan_at [] inp (out @ request Stat 0 [] [] []) w x)"
proof -
  have req: "request Stat 0 [] [] [] \<noteq> []" "length (request Stat 0 [] [] []) < 2 ^ 63"
    using length_request [of Stat 0 "[]" "[]" "[]"] by (auto simp del: length_request)
  show ?thesis unfolding Memcache_stats_def Let_def option.case
    by (rule reaches_command [OF opn simple_parts(6) [OF P] req at], rule stats_loop_list [OF P kvs])
qed

section \<open>Properties\<close>

text \<open>
  One exchange with the server: the request has been sent, the response has been taken off the
  stream up to \<open>rest\<close>, the buffer is empty and the client's fields are as they were.
\<close>

definition exchanged :: "('b \<Rightarrow> bytes) \<Rightarrow> ('b, 'z) chan_scheme \<Rightarrow> bytes \<Rightarrow> bytes \<Rightarrow> ('b, 'z) chan_scheme \<Rightarrow> bool" where
  "exchanged v s req rest s' \<longleftrightarrow>
     ch_out s' = ch_out s @ req \<and> ch_inp s' = rest \<and> v (ch_buf s') = [] \<and> chan.more s' = chan.more s"

lemma exchangedI:
  assumes "simA (chan_abs v) m n"
  shows "reaches n (chan_abs v s) r (chan_at [] rest (ch_out s @ req) w (chan.more s)) \<Longrightarrow>
      \<exists>s'. m s = (Ret r, s') \<and> exchanged v s req rest s'"
    and "fails n (chan_abs v s) e (chan_at [] rest (ch_out s @ req) w (chan.more s)) \<Longrightarrow>
      \<exists>s'. m s = (Throw e, s') \<and> exchanged v s req rest s'"
  using reaches_chanE [OF assms, of s r "[]" rest "ch_out s @ req" w "chan.more s"]
    fails_chanE [OF assms, of s e "[]" rest "ch_out s @ req" w "chan.more s"]
  unfolding exchanged_def by metis+

lemma chan_abs_at:
  "ch_inp s = inp \<Longrightarrow> live w s \<Longrightarrow> chan_at (v (ch_buf s)) inp (ch_out s) (w + 0) (chan.more s) (chan_abs v s)"
  by (simp add: chan_at_def)

text \<open>Data for the examples: a client with an open connection, and a response header.\<close>

definition sample_client :: "bytes \<Rightarrow> bytes memcache_client" where
  "sample_client inp = \<lparr>ch_buf = [], ch_inp = inp, ch_sched = replicate 200 (Os_ok 3), ch_out = [],
     mc_hostname = [], mc_port = 11211, mc_fd = 3\<rparr>"

definition sample_header :: "u16 \<Rightarrow> u32 \<Rightarrow> command_header" where
  "sample_header st n = \<lparr>magic = 0x81, opcode = 0, key_size = 0, extras_size = 4, data_type = 0, status = st,
     body_size = n, opaque = 0, cas = 7\<rparr>"

lemma sample_client_simps [simp]:
  "ch_inp (sample_client inp) = inp" "ch_out (sample_client inp) = []" "ch_buf (sample_client inp) = []"
  "fd_is_open phosg_model (mc_fd (sample_client inp))"
  "live w (sample_client inp) \<longleftrightarrow> length inp + w \<le> 200"
  by (auto simp: sample_client_def phosg_model_def live_def)

lemma sample_header_simps [simp]:
  "status (sample_header st n) = st" "extras_size (sample_header st n) = 4" "cas (sample_header st n) = 7"
  "response_ok (sample_header st n) body \<longleftrightarrow> length body < 2 ^ 31 \<and> n = word_of_nat (length body)"
  by (auto simp: sample_header_def response_ok_def)

text \<open>the 24-byte header survives the wire.  Its memory image after \<open>byteswap\<close> is the
  big-endian layout of the protocol, and reading such an image back and swapping again gives the
  same header.\<close>

theorem header_roundtrip:
  assumes "bswap_spec P"
  shows "header_image (CommandHeader_byteswap P h) = wire_header h \<and>
    CommandHeader_byteswap P (header_of_image (wire_header h)) = h"
  using assms by (simp add: header_image_byteswap header_of_wire)

theorem header_roundtrip_witness:
  "CommandHeader_byteswap phosg_model (header_of_image (wire_header \<lparr>magic = 0x81, opcode = 1, key_size = 0x102,
      extras_size = 4, data_type = 0, status = 1, body_size = 0x10203, opaque = 7, cas = 9\<rparr>)) =
    \<lparr>magic = 0x81, opcode = 1, key_size = 0x102, extras_size = 4, data_type = 0, status = 1,
     body_size = 0x10203, opaque = 7, cas = 9\<rparr>"
  using header_roundtrip [OF phosg_model_spec(1)] by blast

text \<open>a \<open>get\<close> sends the documented request, whatever the uninitialised header fields held, and
  returns what the server says: value, flags and CAS of the key when the status is OK, and
  \<open>key_found = false\<close> when it is KEY_NOT_FOUND.  It takes exactly one response off the stream.\<close>

theorem Memcache_get_correct:
  assumes "evbuffer_spec E v" and "bswap_spec P" and "fd_is_open P (mc_fd s)" and "length key < 2 ^ 16"
    and "ch_inp s = wire_header h @ body @ rest" and "response_ok h body"
    and "live (length (get_request key exp)) s"
  shows "(status h = 0 \<and> extras_size h = 4 \<and> body = be_bytes 4 (unat flags) @ val \<longrightarrow>
      (\<exists>s'. Memcache_get E P j key exp s =
          (Ret \<lparr>gr_value = val, gr_cas = cas h, gr_flags = flags, gr_key_found = True\<rparr>, s') \<and>
        exchanged v s (get_request key exp) rest s')) \<and>
    (status h = response_status_code KEY_NOT_FOUND \<longrightarrow>
      (\<exists>s'. Memcache_get E P j key exp s =
          (Ret \<lparr>gr_value = [], gr_cas = 0, gr_flags = 0, gr_key_found = False\<rparr>, s') \<and>
        exchanged v s (get_request key exp) rest s'))"
proof -
  have opn: "fd_is_open P (mc_fd (chan_abs v s))" and key: "length key < 2 ^ 62" using assms(3,4) by simp_all
  note run = get_list [OF assms(2) opn key chan_abs_at [OF assms(5,7)] assms(6)]
  show ?thesis
    by (intro conjI impI; rule exchangedI(1) [OF Memcache_sims(1) [OF assms(1)]]; unfold evb_ref_def; rule run) auto
qed

theorem Memcache_get_correct_witness:
  "\<exists>s'. Memcache_get (evb_list 0) phosg_model (sample_header 9 9) [107] 0
      (sample_client (wire_header (sample_header 0 6) @ (be_bytes 4 5 @ [65, 66]) @ [1])) =
      (Ret \<lparr>gr_value = [65, 66], gr_cas = 7, gr_flags = 5, gr_key_found = True\<rparr>, s') \<and> ch_inp s' = [1]"
  using Memcache_get_correct [where E = "evb_list 0" and v = id and P = phosg_model and key = "[107]" and exp = 0
    and s = "sample_client (wire_header (sample_header 0 6) @ (be_bytes 4 5 @ [65, 66]) @ [1])"
    and h = "sample_header 0 6" and body = "be_bytes 4 5 @ [65, 66]" and rest = "[1]" and flags = 5
    and val = "[65, 66]" and j = "sample_header 9 9"] evb_list_spec [of 0]
  by (auto simp: phosg_model_spec get_request_def exchanged_def)

text \<open>\<open>set\<close>, \<open>add\<close> and \<open>replace\<close> return true when the server reports success, false when it
  reports an error that the command expects (the key exists, or is missing for a replace), and
  throw the server's error otherwise; each time the documented request has been sent and exactly
  one response taken off the stream.\<close>

theorem Memcache_write_outcomes:
  assumes "evbuffer_spec E v" and "bswap_spec P" and "fd_is_open P (mc_fd s)" and "length key < 2 ^ 16"
    and "length val < 2 ^ 31" and "ch_inp s = wire_header h @ body @ rest" and "response_ok h body"
    and "live (length key + length val + 32) s"
    and "(f, cmd, errs, c) \<in> {(Memcache_set E P j key val flags exp c, Set, {KEY_EXISTS}, c),
      (Memcache_add E P j key val flags exp, Add, {KEY_EXISTS}, 0),
      (Memcache_replace E P j key val flags exp c, Replace, {KEY_NOT_FOUND, KEY_EXISTS}, c)}"
  shows "(status h = 0 \<and> body = [] \<longrightarrow> (\<exists>s'. f s = (Ret True, s') \<and>
        exchanged v s (write_request cmd key val flags exp c) rest s')) \<and>
    (status h \<in> response_status_code ` errs \<longrightarrow> (\<exists>s'. f s = (Ret False, s') \<and>
        exchanged v s (write_request cmd key val flags exp c) rest s')) \<and>
    (status h \<noteq> 0 \<and> status h \<notin> response_status_code ` errs \<longrightarrow>
      (\<exists>s'. f s = (Throw (Runtime_error (string_printf P ''server sent error %hu: %s''
          [P_int (uint (status h)), c_str body])), s') \<and>
        exchanged v s (write_request cmd key val flags exp c) rest s'))"
proof -
  have opn: "fd_is_open P (mc_fd (chan_abs v s))" and key: "length key + length val < 2 ^ 62"
    using assms(3-5) by simp_all
  have at: "chan_at (v (ch_buf s)) (wire_header h @ body @ rest) (ch_out s)
      (length (write_request cmd key val flags exp c) + 0) (chan.more s) (chan_abs v s)"
    by (rule chan_abs_at) (use assms(6,8) in \<open>simp_all add: live_def\<close>)
  define e1 :: u16 where "e1 = (if cmd = Replace then 1 else 2)"
  define e2 :: u16 where "e2 = (if cmd = Replace then 2 else 0)"
  have f: "f = write_key E P j cmd e1 e2 key val flags exp c"
    and mem: "status h \<in> response_status_code ` errs \<longleftrightarrow> status h \<noteq> 0 \<and> status h \<in> {e1, e2}"
    using assms(9) unfolding Memcache_set_def Memcache_add_def Memcache_replace_def e1_def e2_def by auto
  note run = write_key_list [OF assms(2) opn key at assms(7)]
  note lift = exchangedI [OF Memcache_sims(2) [OF assms(1)]]
  show ?thesis unfolding f mem
    by (intro conjI impI; (rule lift(1) | rule lift(2)); unfold evb_ref_def; rule run) auto
qed

theorem Memcache_write_outcomes_witness:
  "\<exists>s'. Memcache_add (evb_list 0) phosg_model (sample_header 9 9) [107] [118] 0 0
      (sample_client (wire_header (sample_header 2 1) @ [33] @ [])) = (Ret False, s') \<and> ch_inp s' = []"
  using Memcache_write_outcomes [where E = "evb_list 0" and v = id and P = phosg_model and key = "[107]"
    and s = "sample_client (wire_header (sample_header 2 1) @ [33] @ [])" and val = "[118]" and cmd = Add
    and h = "sample_header 2 1" and body = "[33]" and rest = "[]" and flags = 0 and exp = 0 and c = 0
    and f = "Memcache_add (evb_list 0) phosg_model (sample_header 9 9) [107] [118] 0 0" and errs = "{KEY_EXISTS}" and j = "sample_header 9 9"]
    evb_list_spec [of 0]
  by (auto simp: phosg_model_spec exchanged_def)

text \<open>\<open>delete_key\<close> returns true when the server reports success, but throws when the server
  reports that the key does not exist: only KEY_EXISTS (a CAS mismatch) makes it return false.\<close>

theorem Memcache_delete_outcomes:
  assumes "evbuffer_spec E v" and "bswap_spec P" and "fd_is_open P (mc_fd s)" and "length key < 2 ^ 16"
    and "ch_inp s = wire_header h @ body @ rest" and "response_ok h body"
    and "live (length (request Delete c [] key [])) s"
  shows "(status h = 0 \<and> body = [] \<longrightarrow> (\<exists>s'. Memcache_delete_key E P j key c s = (Ret True, s') \<and>
        exchanged v s (request Delete c [] key []) rest s')) \<and>
    (status h = response_status_code KEY_NOT_FOUND \<longrightarrow>
      (\<exists>s'. Memcache_delete_key E P j key c s = (Throw (Runtime_error (string_printf P ''server sent error %hu: %s''
          [P_int (uint (status h)), c_str body])), s') \<and>
        exchanged v s (request Delete c [] key []) rest s'))"
proof -
  have opn: "fd_is_open P (mc_fd (chan_abs v s))" and key: "length key < 2 ^ 62" using assms(3,4) by simp_all
  note run = delete_list [OF assms(2) opn key chan_abs_at [OF assms(5,7)] assms(6)]
  note lift = exchangedI [OF Memcache_sims(3) [OF assms(1)]]
  show ?thesis
    by (intro conjI impI; (rule lift(1) | rule lift(2)); unfold evb_ref_def; rule run) auto
qed

lemma error_text_example: "c_printf ''server sent error %hu: %s'' [P_int 1, c_str [33]] = ''server sent error 1: !''"
  by (simp add: c_printf_def conversion_of_def convert_def pad_number_def pad_def digits.simps digit_char_def c_str_def text_of_def char_of_def bit_0)

theorem Memcache_delete_outcomes_witness:
  "\<exists>s'. Memcache_delete_key (evb_list 0) phosg_model (sample_header 9 9) [107] 0
      (sample_client (wire_header (sample_header 1 1) @ [33] @ [])) =
      (Throw (Runtime_error ''server sent error 1: !''), s') \<and> ch_inp s' = []"
  using Memcache_delete_outcomes [where E = "evb_list 0" and v = id and P = phosg_model and key = "[107]"
    and s = "sample_client (wire_header (sample_header 1 1) @ [33] @ [])"
    and h = "sample_header 1 1" and body = "[33]" and rest = "[]" and c = 0 and j = "sample_header 9 9"] evb_list_spec [of 0]
  by (auto simp: phosg_model_spec exchanged_def) (auto simp: phosg_model_def error_text_example)

text \<open>\<open>increment\<close> sends the delta, the initial value (the delta itself when none is given) and
  the expiration time; it returns the counter the server sends back, and throws \<open>out_of_range\<close>
  when the key does not exist.\<close>

theorem Memcache_increment_correct:
  assumes "evbuffer_spec E v" and "bswap_spec P" and "fd_is_open P (mc_fd s)" and "length key < 2 ^ 16"
    and "ch_inp s = wire_header h @ body @ rest" and "response_ok h body"
    and "live (length (increment_request decr key delta initial exp)) s"
  shows "(status h = 0 \<and> body = be_bytes 8 (unat n) \<longrightarrow>
      (\<exists>s'. Memcache_increment E P j key delta initial exp decr s = (Ret n, s') \<and>
        exchanged v s (increment_request decr key delta initial exp) rest s')) \<and>
    (status h = response_status_code KEY_NOT_FOUND \<longrightarrow>
      (\<exists>s'. Memcache_increment E P j key delta initial exp decr s = (Throw (Out_of_range ''key not found''), s') \<and>
        exchanged v s (increment_request decr key delta initial exp) rest s'))"
proof -
  have opn: "fd_is_open P (mc_fd (chan_abs v s))" and key: "length key < 2 ^ 62" using assms(3,4) by simp_all
  note run = increment_list [OF assms(2) opn key chan_abs_at [OF assms(5,7)] assms(6)]
  note lift = exchangedI [OF Memcache_sims(4) [OF assms(1)]]
  show ?thesis
    by (intro conjI impI; (rule lift(1) | rule lift(2)); unfold evb_ref_def; rule run) auto
qed

theorem Memcache_increment_correct_witness:
  "\<exists>s'. Memcache_increment (evb_list 0) phosg_model (sample_header 9 9) [107] 2 0 0 False
      (sample_client (wire_header (sample_header 0 8) @ be_bytes 8 44 @ [])) = (Ret 44, s') \<and> ch_inp s' = []"
  using Memcache_increment_correct [where E = "evb_list 0" and v = id and P = phosg_model and key = "[107]"
    and s = "sample_client (wire_header (sample_header 0 8) @ be_bytes 8 44 @ [])" and decr = False
    and h = "sample_header 0 8" and body = "be_bytes 8 44" and rest = "[]" and delta = 2 and initial = 0
    and exp = 0 and n = 44 and j = "sample_header 9 9"] evb_list_spec [of 0]
  by (auto simp: phosg_model_spec exchanged_def increment_request_def)

text \<open>the loop of \<open>stats\<close> ends at the response with an empty body and returns every statistic
  sent before it, the first value winning for a repeated name; one more step than there are
  statistics is enough fuel.\<close>

theorem Memcache_stats_complete:
  assumes "evbuffer_spec E v" and "bswap_spec P" and "fd_is_open P (mc_fd s)"
    and "\<forall>p \<in> set kvs. stats_pair_ok p" and "length kvs < fuel"
    and "ch_inp s = stats_stream h kvs @ rest" and "live 24 s"
  shows "\<exists>s'. Memcache_stats fuel E P j None s = (Ret (foldl (\<lambda>m (k, y). map_emplace m k y) Map.empty kvs), s') \<and>
    exchanged v s (request Stat 0 [] [] []) rest s'"
proof (rule exchangedI(1) [OF Memcache_sims(9) [OF assms(1)]], unfold evb_ref_def)
  have "fd_is_open P (mc_fd (chan_abs v s))" using assms(3) by simp
  moreover have "chan_at (v (ch_buf s)) (stats_stream h kvs @ rest) (ch_out s) (length (request Stat 0 [] [] []) + 0) (chan.more s) (chan_abs v s)"
    using chan_abs_at [OF assms(6,7)] by simp
  ultimately show "reaches (Memcache_stats fuel (evb_list (evbuffer_write_none E)) P j None) (chan_abs v s)
      (foldl (\<lambda>m (k, y). map_emplace m k y) Map.empty kvs) (chan_at [] rest (ch_out s @ request Stat 0 [] [] []) 0 (chan.more s))"
    by (rule stats_list [OF assms(2,4,5)])
qed

theorem Memcache_stats_complete_witness:
  "\<exists>s'. Memcache_stats 2 (evb_list 0) phosg_model (sample_header 9 9) None
      (sample_client (stats_stream (sample_header 0 0) [([97], [98])] @ [9])) = (Ret [[97] \<mapsto> [98]], s') \<and> ch_inp s' = [9]"
  using Memcache_stats_complete [where E = "evb_list 0" and v = id and P = phosg_model and kvs = "[([97], [98])]"
    and s = "sample_client (stats_stream (sample_header 0 0) [([97], [98])] @ [9])" and h = "sample_header 0 0"
    and rest = "[9]" and fuel = 2 and j = "sample_header 9 9"] evb_list_spec [of 0]
  by (auto simp: phosg_model_spec exchanged_def stats_pair_ok_def stats_stream_def map_emplace_def)

text \<open>every command except \<open>quit\<close> refuses to run on a connection that is not open, and then
  sends and changes nothing; \<open>quit\<close> does nothing in that case, as its documentation says.\<close>

theorem Memcache_closed:
  assumes "\<not> fd_is_open P (mc_fd s)"
  shows "Memcache_get E P j key exp s = (Throw (Runtime_error ''cannot execute command on non-open connection''), s) \<and>
    write_key E P j cmd e1 e2 key val flags exp c s =
      (Throw (Runtime_error ''cannot execute command on non-open connection''), s) \<and>
    Memcache_delete_key E P j key c s = (Throw (Runtime_error ''cannot execute command on non-open connection''), s) \<and>
    Memcache_increment E P j key c initial exp decr s =
      (Throw (Runtime_error ''cannot execute command on non-open connection''), s) \<and>
    Memcache_append E P j key val decr s = (Throw (Runtime_error ''cannot execute command on non-open connection''), s) \<and>
    Memcache_flush E P j exp s = (Throw (Runtime_error ''cannot execute command on non-open connection''), s) \<and>
    Memcache_noop E P j c initial s = (Throw (Runtime_error ''cannot execute command on non-open connection''), s) \<and>
    Memcache_version E P j s = (Throw (Runtime_error ''cannot execute command on non-open connection''), s) \<and>
    Memcache_stats fuel E P j okey s = (Throw (Runtime_error ''cannot execute command on non-open connection''), s) \<and>
    Memcache_touch E P j key exp s = (Throw (Runtime_error ''cannot execute command on non-open connection''), s) \<and>
    Memcache_quit E P j s = (Ret (), s)"
proof -
  have closed: "seqA (assert_conn_open P) m s =
      (Throw (Runtime_error ''cannot execute command on non-open connection''), s)" for m :: "('a memcache_client, 'x) act"
    using assms by (simp add: assert_conn_open_def seqA_def bindA_def)
  show ?thesis
    unfolding Memcache_get_def write_key_def Memcache_delete_key_def Memcache_increment_def Memcache_append_def
      Memcache_flush_def Memcache_noop_def Memcache_version_def Memcache_stats_def Memcache_touch_def closed
    using assms by (simp add: Memcache_quit_def bindA_def)
qed

theorem Memcache_closed_witness:
  "Memcache_get (evb_list 0) phosg_model (sample_header 9 9) [107] 0 ((sample_client [])\<lparr>mc_fd := -1\<rparr>) =
    (Throw (Runtime_error ''cannot execute command on non-open connection''), (sample_client [])\<lparr>mc_fd := -1\<rparr>)"
  by (rule Memcache_closed [THEN conjunct1]) (simp add: phosg_model_def)

end
