(* ===== verification/Memcache_Sessions.thy ===== *)
theory Memcache_Sessions
  imports Memcache
begin

text \<open>
  Programs that use the Memcache client, and a server they talk to.  A program calls the client's
  commands one after another and may choose each by the results of those before.  The server is a
  parameter; its documented behaviour is stated as a store of items.  The lemmas show that a program sees of
  the server exactly what the server does, and that the program of
  Examples/MemcacheFunctionalTest.cc passes on every server that behaves as documented.
\<close>

section \<open>Programs\<close>

datatype mc_op =
    Op_get bytes u32
  | Op_set bytes bytes u32 u32 u64
  | Op_add bytes bytes u32 u32
  | Op_replace bytes bytes u32 u32 u64
  | Op_delete bytes u64
  | Op_increment bytes u64 u64 u32 bool
  | Op_append bytes bytes bool
  | Op_touch bytes u32
  | Op_flush u32
  | Op_noop u64 u64
  | Op_version
  | Op_stats nat

datatype mc_value = V_get get_result | V_bool bool | V_num u64 | V_unit | V_text bytes | V_stats "bytes \<rightharpoonup> bytes"

definition as_value :: "('a \<Rightarrow> mc_value) \<Rightarrow> ('s, 'a) act \<Rightarrow> ('s, mc_value) act" where
  "as_value f m = bindA m (\<lambda>x. retA (f x))"

fun run_op :: "'b evbuffer_api \<Rightarrow> phosg_api \<Rightarrow> command_header \<Rightarrow> mc_op \<Rightarrow> ('b memcache_client, mc_value) act" where
  "run_op E P j (Op_get key exp) = as_value V_get (Memcache_get E P j key exp)"
| "run_op E P j (Op_set key val flags exp c) = as_value V_bool (Memcache_set E P j key val flags exp c)"
| "run_op E P j (Op_add key val flags exp) = as_value V_bool (Memcache_add E P j key val flags exp)"
| "run_op E P j (Op_replace key val flags exp c) = as_value V_bool (Memcache_replace E P j key val flags exp c)"
| "run_op E P j (Op_delete key c) = as_value V_bool (Memcache_delete_key E P j key c)"
| "run_op E P j (Op_increment key delta initial exp decr) = as_value V_num (Memcache_increment E P j key delta initial exp decr)"
| "run_op E P j (Op_append key val pre) = as_value (\<lambda>_. V_unit) (Memcache_append E P j key val pre)"
| "run_op E P j (Op_touch key exp) = as_value (\<lambda>_. V_unit) (Memcache_touch E P j key exp)"
| "run_op E P j (Op_flush exp) = as_value (\<lambda>_. V_unit) (Memcache_flush E P j exp)"
| "run_op E P j (Op_noop t0 t1) = as_value V_num (Memcache_noop E P j t0 t1)"
| "run_op E P j Op_version = as_value V_text (Memcache_version E P j)"
| "run_op E P j (Op_stats fuel) = as_value V_stats (Memcache_stats fuel E P j None)"

text \<open>A program goes on with the value of a command or with the exception it throws.\<close>

datatype 'a mc_prog =
    Return 'a
  | Raise exn
  | Call mc_op "exn + mc_value \<Rightarrow> 'a mc_prog"
  | Sleep u64 "'a mc_prog"

text \<open>Sleeping does nothing to the connection.\<close>

primrec run_prog :: "'b evbuffer_api \<Rightarrow> phosg_api \<Rightarrow> command_header \<Rightarrow> 'a mc_prog \<Rightarrow> ('b memcache_client, 'a) act" where
  "run_prog E P j (Return x) = retA x"
| "run_prog E P j (Raise e) = throwA e"
| "run_prog E P j (Call cmd k) = (\<lambda>s. case run_op E P j cmd s of
     (Ret x, s') \<Rightarrow> run_prog E P j (k (Inr x)) s'
   | (Throw e, s') \<Rightarrow> run_prog E P j (k (Inl e)) s'
   | (Blocked, s') \<Rightarrow> (Blocked, s'))"
| "run_prog E P j (Sleep n p) = run_prog E P j p"

section \<open>Servers\<close>

text \<open>What a server answers to a command: an item, a number, a text, a list of statistics, or the code of an error.\<close>

record mc_item =
  it_value :: bytes
  it_flags :: u32
  it_cas :: u64
  it_deadline :: "nat option"

datatype mc_answer = Found bytes u32 u64 | Stored u64 | Number u64 u64 | Text bytes | Statistics "(bytes \<times> bytes) list" | Refused u16

text \<open>The server: its answers, the passing of time, and the text it sends with an error.\<close>

record 't memcached_api =
  mc_serve :: "mc_op \<Rightarrow> 't \<Rightarrow> mc_answer \<times> 't"
  mc_wait :: "u64 \<Rightarrow> 't \<Rightarrow> 't"
  mc_error :: "u16 \<Rightarrow> bytes"

text \<open>An answer as a response: status, size of the extras, body and CAS value.  \<open>h\<close> has the fields the client does not look at.\<close>

definition answer_parts :: "(u16 \<Rightarrow> bytes) \<Rightarrow> mc_answer \<Rightarrow> u16 \<times> u8 \<times> bytes \<times> u64" where
  "answer_parts t a = (case a of
     Found val flags c \<Rightarrow> (0, 4, be_bytes 4 (unat flags) @ val, c)
   | Stored c \<Rightarrow> (0, 0, [], c)
   | Number n c \<Rightarrow> (0, 0, be_bytes 8 (unat n), c)
   | Text d \<Rightarrow> (0, 0, d, 0)
   | Statistics kvs \<Rightarrow> (0, 0, [], 0)
   | Refused code \<Rightarrow> (code, 0, t code, 0))"

definition answer_header :: "command_header \<Rightarrow> (u16 \<Rightarrow> bytes) \<Rightarrow> mc_answer \<Rightarrow> command_header" where
  "answer_header h t a = (case answer_parts t a of (code, ex, body, c) \<Rightarrow>
     h\<lparr>magic := 0x81, status := code, extras_size := ex, body_size := word_of_nat (length body), cas := c\<rparr>)"

definition answer_body :: "(u16 \<Rightarrow> bytes) \<Rightarrow> mc_answer \<Rightarrow> bytes" where
  "answer_body t a = fst (snd (snd (answer_parts t a)))"

definition response :: "command_header \<Rightarrow> (u16 \<Rightarrow> bytes) \<Rightarrow> mc_answer \<Rightarrow> bytes" where
  "response h t a = (case a of Statistics kvs \<Rightarrow> stats_stream h kvs | _ \<Rightarrow> wire_header (answer_header h t a) @ answer_body t a)"

text \<open>The request for a command.\<close>

fun op_request :: "mc_op \<Rightarrow> bytes" where
  "op_request (Op_get key exp) = get_request key exp"
| "op_request (Op_set key val flags exp c) = write_request Set key val flags exp c"
| "op_request (Op_add key val flags exp) = write_request Add key val flags exp 0"
| "op_request (Op_replace key val flags exp c) = write_request Replace key val flags exp c"
| "op_request (Op_delete key c) = request Delete c [] key []"
| "op_request (Op_increment key delta initial exp decr) = increment_request decr key delta initial exp"
| "op_request (Op_append key val pre) = request (if pre then Prepend else Append) 0 [] key val"
| "op_request (Op_touch key exp) = touch_request key exp"
| "op_request (Op_flush exp) = request Flush 0 (be_bytes 4 (unat exp)) [] []"
| "op_request (Op_noop t0 t1) = request NoOp 0 [] [] []"
| "op_request Op_version = request Version 0 [] [] []"
| "op_request (Op_stats fuel) = request Stat 0 [] [] []"

text \<open>What the client makes of an answer.  Which errors are results and which are exceptions depends on the command.\<close>

definition expected_errors :: "mc_op \<Rightarrow> u16 set" where
  "expected_errors cmd = (case cmd of
     Op_get _ _ \<Rightarrow> {response_status_code KEY_NOT_FOUND}
   | Op_set _ _ _ _ _ \<Rightarrow> {response_status_code KEY_EXISTS}
   | Op_add _ _ _ _ \<Rightarrow> {response_status_code KEY_EXISTS}
   | Op_replace _ _ _ _ _ \<Rightarrow> {response_status_code KEY_NOT_FOUND, response_status_code KEY_EXISTS}
   | Op_delete _ _ \<Rightarrow> {response_status_code KEY_EXISTS}
   | Op_increment _ _ _ _ _ \<Rightarrow> {response_status_code KEY_NOT_FOUND}
   | _ \<Rightarrow> {})"

definition observe :: "phosg_api \<Rightarrow> (u16 \<Rightarrow> bytes) \<Rightarrow> mc_op \<Rightarrow> mc_answer \<Rightarrow> exn + mc_value" where
  "observe P t cmd a = (case a of
     Found val flags c \<Rightarrow> Inr (V_get \<lparr>gr_value = val, gr_cas = c, gr_flags = flags, gr_key_found = True\<rparr>)
   | Stored c \<Rightarrow> Inr (case cmd of Op_append _ _ _ \<Rightarrow> V_unit | Op_touch _ _ \<Rightarrow> V_unit | Op_flush _ \<Rightarrow> V_unit
       | Op_noop t0 t1 \<Rightarrow> V_num (t1 - t0) | _ \<Rightarrow> V_bool True)
   | Number n c \<Rightarrow> Inr (V_num n)
   | Text d \<Rightarrow> Inr (V_text d)
   | Statistics kvs \<Rightarrow> Inr (V_stats (foldl (\<lambda>m (k, y). map_emplace m k y) Map.empty kvs))
   | Refused code \<Rightarrow>
       if code \<notin> expected_errors cmd
       then Inl (Runtime_error (string_printf P ''server sent error %hu: %s'' [P_int (uint code), c_str (t code)]))
       else (case cmd of
          Op_get _ _ \<Rightarrow> Inr (V_get \<lparr>gr_value = [], gr_cas = 0, gr_flags = 0, gr_key_found = False\<rparr>)
        | Op_increment _ _ _ _ _ \<Rightarrow> Inl (Out_of_range ''key not found'')
        | _ \<Rightarrow> Inr (V_bool False)))"

text \<open>The answers the protocol allows for a command, and the sizes it allows.\<close>

fun op_sizes :: "mc_op \<Rightarrow> bool" where
  "op_sizes (Op_get key exp) \<longleftrightarrow> length key < 2 ^ 16"
| "op_sizes (Op_set key val flags exp c) \<longleftrightarrow> length key < 2 ^ 16 \<and> length val < 2 ^ 31"
| "op_sizes (Op_add key val flags exp) \<longleftrightarrow> length key < 2 ^ 16 \<and> length val < 2 ^ 31"
| "op_sizes (Op_replace key val flags exp c) \<longleftrightarrow> length key < 2 ^ 16 \<and> length val < 2 ^ 31"
| "op_sizes (Op_delete key c) \<longleftrightarrow> length key < 2 ^ 16"
| "op_sizes (Op_increment key delta initial exp decr) \<longleftrightarrow> length key < 2 ^ 16"
| "op_sizes (Op_append key val pre) \<longleftrightarrow> length key < 2 ^ 16 \<and> length val < 2 ^ 31"
| "op_sizes (Op_touch key exp) \<longleftrightarrow> length key < 2 ^ 16"
| "op_sizes _ \<longleftrightarrow> True"

fun answers :: "mc_op \<Rightarrow> mc_answer \<Rightarrow> bool" where
  "answers (Op_stats fuel) (Statistics kvs) \<longleftrightarrow> length kvs < fuel \<and> (\<forall>p\<in>set kvs. stats_pair_ok p)"
| "answers (Op_stats fuel) _ \<longleftrightarrow> False"
| "answers cmd (Refused code) \<longleftrightarrow> code \<noteq> 0"
| "answers (Op_get _ _) (Found _ _ _) \<longleftrightarrow> True"
| "answers (Op_get _ _) _ \<longleftrightarrow> False"
| "answers (Op_increment _ _ _ _ _) (Number _ _) \<longleftrightarrow> True"
| "answers (Op_increment _ _ _ _ _) _ \<longleftrightarrow> False"
| "answers Op_version (Text _) \<longleftrightarrow> True"
| "answers Op_version _ \<longleftrightarrow> False"
| "answers _ (Stored _) \<longleftrightarrow> True"
| "answers _ _ \<longleftrightarrow> False"

definition fits :: "(u16 \<Rightarrow> bytes) \<Rightarrow> mc_op \<Rightarrow> mc_answer \<Rightarrow> bool" where
  "fits t cmd a \<longleftrightarrow> op_sizes cmd \<and> answers cmd a \<and> length (answer_body t a) < 2 ^ 31"

section \<open>One command\<close>

definition ends :: "('s, 'a) act \<Rightarrow> 's \<Rightarrow> exn + 'a \<Rightarrow> ('s \<Rightarrow> bool) \<Rightarrow> bool" where
  "ends m s r Q \<longleftrightarrow> (case r of Inr x \<Rightarrow> reaches m s x Q | Inl e \<Rightarrow> fails m s e Q)"

lemma ends_value:
  "reaches m s x Q \<Longrightarrow> ends (as_value f m) s (Inr (f x)) Q" "fails m s e Q \<Longrightarrow> ends (as_value f m) s (Inl e) Q"
  by (auto simp: ends_def as_value_def reaches_def fails_def bindA_def)

lemma answer_simps [simp]:
  "status (answer_header h t (Found val flags c)) = 0" "extras_size (answer_header h t (Found val flags c)) = 4"
  "cas (answer_header h t (Found val flags c)) = c" "answer_body t (Found val flags c) = be_bytes 4 (unat flags) @ val"
  "status (answer_header h t (Stored c)) = 0" "answer_body t (Stored c) = []"
  "status (answer_header h t (Number n c)) = 0" "answer_body t (Number n c) = be_bytes 8 (unat n)"
  "status (answer_header h t (Text d)) = 0" "answer_body t (Text d) = d"
  "status (answer_header h t (Refused code)) = code" "answer_body t (Refused code) = t code"
  "answer_body t (Statistics kvs) = []"
  by (simp_all add: answer_header_def answer_body_def answer_parts_def)

lemma answer_ok: "length (answer_body t a) < 2 ^ 31 \<Longrightarrow> response_ok (answer_header h t a) (answer_body t a)"
  by (cases "answer_parts t a") (simp add: response_ok_def answer_header_def answer_body_def)

lemma request_nonempty:
  shows "op_request cmd \<noteq> []" and "op_sizes cmd \<Longrightarrow> length (op_request cmd) < 2 ^ 63"
proof -
  have "24 \<le> length (op_request cmd)"
    by (cases cmd) (auto simp: get_request_def increment_request_def touch_request_def)
  then show "op_request cmd \<noteq> []" by auto
  show "op_sizes cmd \<Longrightarrow> length (op_request cmd) < 2 ^ 63"
    by (cases cmd) (auto simp: get_request_def increment_request_def touch_request_def)
qed

text \<open>The commands with a result of their own, and the others.\<close>

lemma get_ends:
  assumes P: "bswap_spec P" and opn: "fd_is_open P (mc_fd s)" and "length key < 2 ^ 16" and ans: "answers (Op_get key exp) a"
    and at: "chan_at b (wire_header (answer_header h t a) @ answer_body t a @ inp) out (length (get_request key exp) + w) x s"
    and ok: "response_ok (answer_header h t a) (answer_body t a)"
  shows "ends (as_value V_get (Memcache_get (evb_list z) P j key exp)) s (observe P t (Op_get key exp) a) (chan_at [] inp (out @ get_request key exp) w x)"
proof -
  have "length key < 2 ^ 62" using assms(3) by simp
  note run = get_list [OF P opn this at ok]
  consider val flags c where "a = Found val flags c" | "a = Refused 1" | code where "a = Refused code" "code \<noteq> 0" "code \<noteq> 1"
    using ans by (cases a) auto
  then show ?thesis
  proof cases
    case 1
    show ?thesis using ends_value(1) [OF run(1), where f = V_get] by (simp add: 1 observe_def)
  next
    case 2
    show ?thesis using ends_value(1) [OF run(2), where f = V_get] by (simp add: 2 observe_def expected_errors_def)
  next
    case 3
    show ?thesis using ends_value(2) [OF run(3), where f = V_get] 3 by (simp add: observe_def expected_errors_def)
  qed
qed

lemma write_ends:
  assumes P: "bswap_spec P" and opn: "fd_is_open P (mc_fd s)" and len: "length key < 2 ^ 16" "length val < 2 ^ 31"
    and ans: "(\<exists>c. a = Stored c) \<or> (\<exists>code. a = Refused code \<and> code \<noteq> 0)"
    and obs: "\<And>c. observe P t cmd (Stored c) = Inr (V_bool True)" "expected_errors cmd = {e1, e2} - {0}"
      "\<And>code. code \<in> expected_errors cmd \<Longrightarrow> observe P t cmd (Refused code) = Inr (V_bool False)"
    and at: "chan_at b (wire_header (answer_header h t a) @ answer_body t a @ inp) out (length (write_request wcmd key val flags exp c) + w) x s"
    and ok: "response_ok (answer_header h t a) (answer_body t a)"
  shows "ends (as_value V_bool (write_key (evb_list z) P j wcmd e1 e2 key val flags exp c)) s (observe P t cmd a)
    (chan_at [] inp (out @ write_request wcmd key val flags exp c) w x)"
proof -
  have "length key + length val < 2 ^ 62" using len by simp
  note run = write_key_list [OF P opn this at ok]
  consider c' where "a = Stored c'" | code where "a = Refused code" "code \<noteq> 0" "code \<in> {e1, e2}" | code where "a = Refused code" "code \<noteq> 0" "code \<notin> {e1, e2}"
    using ans by blast
  then show ?thesis
  proof cases
    case 1
    show ?thesis using ends_value(1) [OF run(1), where f = V_bool] obs(1) by (simp add: 1)
  next
    case 2
    then have "observe P t cmd a = Inr (V_bool False)" using obs(2,3) by auto
    then show ?thesis using ends_value(1) [OF run(2), where f = V_bool] 2 by simp
  next
    case 3
    then have "code \<notin> expected_errors cmd" using obs(2) by auto
    then show ?thesis using ends_value(2) [OF run(3), where f = V_bool] 3 by (simp add: observe_def)
  qed
qed

lemma delete_ends:
  assumes P: "bswap_spec P" and opn: "fd_is_open P (mc_fd s)" and "length key < 2 ^ 16" and ans: "answers (Op_delete key c) a"
    and at: "chan_at b (wire_header (answer_header h t a) @ answer_body t a @ inp) out (length (request Delete c [] key []) + w) x s"
    and ok: "response_ok (answer_header h t a) (answer_body t a)"
  shows "ends (as_value V_bool (Memcache_delete_key (evb_list z) P j key c)) s (observe P t (Op_delete key c) a)
    (chan_at [] inp (out @ request Delete c [] key []) w x)"
proof -
  have "length key < 2 ^ 62" using assms(3) by simp
  note run = delete_list [OF P opn this at ok]
  consider c' where "a = Stored c'" | "a = Refused 2" | code where "a = Refused code" "code \<noteq> 0" "code \<noteq> 2"
    using ans by (cases a) auto
  then show ?thesis
  proof cases
    case 1
    show ?thesis using ends_value(1) [OF run(1), where f = V_bool] by (simp add: 1 observe_def)
  next
    case 2
    show ?thesis using ends_value(1) [OF run(3), where f = V_bool] by (simp add: 2 observe_def expected_errors_def)
  next
    case 3
    show ?thesis using ends_value(2) [OF run(2), where f = V_bool] 3 by (simp add: observe_def expected_errors_def)
  qed
qed

lemma increment_ends:
  assumes P: "bswap_spec P" and opn: "fd_is_open P (mc_fd s)" and "length key < 2 ^ 16" and ans: "answers (Op_increment key delta initial exp decr) a"
    and at: "chan_at b (wire_header (answer_header h t a) @ answer_body t a @ inp) out (length (increment_request decr key delta initial exp) + w) x s"
    and ok: "response_ok (answer_header h t a) (answer_body t a)"
  shows "ends (as_value V_num (Memcache_increment (evb_list z) P j key delta initial exp decr)) s (observe P t (Op_increment key delta initial exp decr) a)
    (chan_at [] inp (out @ increment_request decr key delta initial exp) w x)"
proof -
  have "length key < 2 ^ 62" using assms(3) by simp
  note run = increment_list [OF P opn this at ok]
  consider n c where "a = Number n c" | "a = Refused 1" | code where "a = Refused code" "code \<noteq> 0" "code \<noteq> 1"
    using ans by (cases a) auto
  then show ?thesis
  proof cases
    case 1
    show ?thesis using ends_value(1) [OF run(1), where f = V_num] by (simp add: 1 observe_def)
  next
    case 2
    show ?thesis using ends_value(2) [OF run(2), where f = V_num] by (simp add: 2 observe_def expected_errors_def)
  next
    case 3
    show ?thesis using ends_value(2) [OF run(3), where f = V_num] 3 by (simp add: observe_def expected_errors_def)
  qed
qed

lemma simple_ends:
  assumes P: "bswap_spec P" and opn: "fd_is_open P (mc_fd s)" and parts: "concat parts = op_request cmd" and sizes: "op_sizes cmd"
    and ans: "(\<exists>c. a = Stored c) \<or> (\<exists>code. a = Refused code \<and> code \<noteq> 0)"
    and obs: "\<And>c. observe P t cmd (Stored c) = Inr (f r)" "expected_errors cmd = {}"
    and at: "chan_at b (wire_header (answer_header h t a) @ answer_body t a @ inp) out (length (op_request cmd) + w) x s"
    and ok: "response_ok (answer_header h t a) (answer_body t a)"
  shows "ends (as_value f (seqA (assert_conn_open P) (seqA (send_parts (evb_list z) parts)
      (bindA (read_response_header (evb_list z) P 0 0) (\<lambda>_. retA r))))) s (observe P t cmd a) (chan_at [] inp (out @ op_request cmd) w x)"
proof -
  note run = simple_list [OF P opn parts request_nonempty(1) request_nonempty(2) [OF sizes] at ok]
  from ans show ?thesis
  proof
    assume "\<exists>c. a = Stored c"
    then obtain c where a: "a = Stored c" by blast
    show ?thesis using ends_value(1) [OF run(1), where f = f] obs(1) by (simp add: a)
  next
    assume "\<exists>code. a = Refused code \<and> code \<noteq> 0"
    then obtain code where a: "a = Refused code" "code \<noteq> 0" by blast
    show ?thesis using ends_value(2) [OF run(3), where f = f] a obs(2) by (simp add: observe_def)
  qed
qed

lemma version_ends:
  assumes P: "bswap_spec P" and opn: "fd_is_open P (mc_fd s)" and ans: "answers Op_version a"
    and at: "chan_at b (wire_header (answer_header h t a) @ answer_body t a @ inp) out (length (request Version 0 [] [] []) + w) x s"
    and ok: "response_ok (answer_header h t a) (answer_body t a)"
  shows "ends (as_value V_text (Memcache_version (evb_list z) P j)) s (observe P t Op_version a) (chan_at [] inp (out @ request Version 0 [] [] []) w x)"
proof -
  have req: "request Version 0 [] [] [] \<noteq> []" "length (request Version 0 [] [] []) < 2 ^ 63"
    using request_nonempty [of Op_version] by (simp_all del: length_request)
  note run = simple_list [OF P opn simple_parts(5) [OF P] req at ok]
  consider d where "a = Text d" | code where "a = Refused code" "code \<noteq> 0" using ans by (cases a) auto
  then show ?thesis
  proof cases
    case 1
    show ?thesis unfolding Memcache_version_def Let_def using ends_value(1) [OF run(2), where f = V_text] by (simp add: 1 observe_def)
  next
    case 2
    then show ?thesis unfolding Memcache_version_def Let_def
      using ends_value(2) [OF run(3), where f = V_text] by (simp add: observe_def expected_errors_def)
  qed
qed

text \<open>Every command, for every answer that fits it.\<close>

lemma run_op_list:
  assumes P: "bswap_spec P" and opn: "fd_is_open P (mc_fd s)" and fits: "fits t cmd a"
    and at: "chan_at b (response h t a @ inp) out (length (op_request cmd) + w) x s"
  shows "ends (run_op (evb_list z) P j cmd) s (observe P t cmd a) (chan_at [] inp (out @ op_request cmd) w x)"
proof (cases "\<exists>kvs. a = Statistics kvs")
  case True
  then obtain kvs where a: "a = Statistics kvs" by blast
  with fits obtain fuel where cmd: "cmd = Op_stats fuel" "length kvs < fuel" "\<forall>p\<in>set kvs. stats_pair_ok p"
    by (cases cmd) (auto simp: fits_def)
  have "reaches (Memcache_stats fuel (evb_list z) P j None) s (foldl (\<lambda>m (k, y). map_emplace m k y) Map.empty kvs)
      (chan_at [] inp (out @ request Stat 0 [] [] []) w x)"
    by (rule stats_list [OF P cmd(3,2) opn]) (use at in \<open>simp add: a cmd response_def\<close>)
  from ends_value(1) [OF this, of V_stats] show ?thesis by (simp add: a cmd observe_def)
next
  case False
  have sizes: "op_sizes cmd" and ans: "answers cmd a" and ok: "response_ok (answer_header h t a) (answer_body t a)"
    using fits by (simp_all add: fits_def answer_ok)
  have "response h t a = wire_header (answer_header h t a) @ answer_body t a" using False by (cases a) (auto simp: response_def)
  with at have at: "chan_at b (wire_header (answer_header h t a) @ answer_body t a @ inp) out (length (op_request cmd) + w) x s" by simp
  have plain: "(\<exists>c. a = Stored c) \<or> (\<exists>code. a = Refused code \<and> code \<noteq> 0)"
    if "\<And>k e. cmd \<noteq> Op_get k e" "\<And>k d i e f. cmd \<noteq> Op_increment k d i e f" "cmd \<noteq> Op_version" "\<And>n. cmd \<noteq> Op_stats n"
    using ans that by (cases cmd; cases a) auto
  note defs = observe_def expected_errors_def
  show ?thesis
  proof (cases cmd)
    case (Op_get key exp)
    then show ?thesis using sizes ans at ok by (simp add: get_ends [OF P opn])
  next
    case (Op_set key val flags exp c)
    have e: "expected_errors cmd = {response_status_code KEY_EXISTS, 0} - {0}" by (auto simp: defs Op_set)
    show ?thesis using write_ends [OF P opn _ _ plain _ e _ _ ok] sizes at by (simp add: Op_set Memcache_set_def defs)
  next
    case (Op_add key val flags exp)
    have e: "expected_errors cmd = {response_status_code KEY_EXISTS, 0} - {0}" by (auto simp: defs Op_add)
    show ?thesis using write_ends [OF P opn _ _ plain _ e _ _ ok] sizes at by (simp add: Op_add Memcache_add_def defs)
  next
    case (Op_replace key val flags exp c)
    have e: "expected_errors cmd = {response_status_code KEY_NOT_FOUND, response_status_code KEY_EXISTS} - {0}" by (auto simp: defs Op_replace)
    show ?thesis using write_ends [OF P opn _ _ plain _ e _ _ ok] sizes at by (simp add: Op_replace Memcache_replace_def defs)
  next
    case (Op_delete key c)
    then show ?thesis using sizes ans at ok by (simp add: delete_ends [OF P opn])
  next
    case (Op_increment key delta initial exp decr)
    then show ?thesis using sizes ans at ok by (simp add: increment_ends [OF P opn])
  next
    case (Op_append key val pre)
    show ?thesis using simple_ends [OF P opn _ sizes plain _ _ at ok, where f = "\<lambda>_. V_unit" and r = "()"] simple_parts(1) [OF P]
      by (simp add: Op_append Memcache_append_def defs)
  next
    case (Op_touch key exp)
    show ?thesis using simple_ends [OF P opn _ sizes plain _ _ at ok, where f = "\<lambda>_. V_unit" and r = "()"] simple_parts(2) [OF P]
      by (simp add: Op_touch Memcache_touch_def defs)
  next
    case (Op_flush exp)
    show ?thesis using simple_ends [OF P opn _ sizes plain _ _ at ok, where f = "\<lambda>_. V_unit" and r = "()"] simple_parts(3) [OF P]
      by (simp add: Op_flush Memcache_flush_def defs)
  next
    case (Op_noop t0 t1)
    show ?thesis using simple_ends [OF P opn _ sizes plain _ _ at ok, where f = V_num and r = "t1 - t0"] simple_parts(4) [OF P]
      by (simp add: Op_noop Memcache_noop_def defs)
  next
    case Op_version
    then show ?thesis using sizes ans at ok by (simp add: version_ends [OF P opn])
  next
    case (Op_stats fuel)
    then show ?thesis using ans False by (cases a) auto
  qed
qed

section \<open>Sessions\<close>

text \<open>
  A program run on the server itself, without a client or a connection, and what this run says should
  be sent in either direction.
\<close>

primrec server_run :: "'t memcached_api \<Rightarrow> phosg_api \<Rightarrow> 'a mc_prog \<Rightarrow> 't \<Rightarrow> (exn + 'a) \<times> 't" where
  "server_run M P (Return x) t = (Inr x, t)"
| "server_run M P (Raise e) t = (Inl e, t)"
| "server_run M P (Call cmd k) t = server_run M P (k (observe P (mc_error M) cmd (fst (mc_serve M cmd t)))) (snd (mc_serve M cmd t))"
| "server_run M P (Sleep n p) t = server_run M P p (mc_wait M n t)"

primrec requests :: "'t memcached_api \<Rightarrow> phosg_api \<Rightarrow> 'a mc_prog \<Rightarrow> 't \<Rightarrow> bytes" where
  "requests M P (Return x) t = []"
| "requests M P (Raise e) t = []"
| "requests M P (Call cmd k) t = op_request cmd @
     requests M P (k (observe P (mc_error M) cmd (fst (mc_serve M cmd t)))) (snd (mc_serve M cmd t))"
| "requests M P (Sleep n p) t = requests M P p (mc_wait M n t)"

primrec responses :: "'t memcached_api \<Rightarrow> phosg_api \<Rightarrow> command_header \<Rightarrow> 'a mc_prog \<Rightarrow> 't \<Rightarrow> bytes" where
  "responses M P h (Return x) t = []"
| "responses M P h (Raise e) t = []"
| "responses M P h (Call cmd k) t = response h (mc_error M) (fst (mc_serve M cmd t)) @
     responses M P h (k (observe P (mc_error M) cmd (fst (mc_serve M cmd t)))) (snd (mc_serve M cmd t))"
| "responses M P h (Sleep n p) t = responses M P h p (mc_wait M n t)"

primrec session_ok :: "'t memcached_api \<Rightarrow> phosg_api \<Rightarrow> 'a mc_prog \<Rightarrow> 't \<Rightarrow> bool" where
  "session_ok M P (Return x) t = True"
| "session_ok M P (Raise e) t = True"
| "session_ok M P (Call cmd k) t \<longleftrightarrow> fits (mc_error M) cmd (fst (mc_serve M cmd t)) \<and>
     session_ok M P (k (observe P (mc_error M) cmd (fst (mc_serve M cmd t)))) (snd (mc_serve M cmd t))"
| "session_ok M P (Sleep n p) t = session_ok M P p (mc_wait M n t)"

lemma run_op_sim: "evbuffer_spec E v \<Longrightarrow> simA (chan_abs v) (run_op E P j cmd) (run_op (evb_ref E) P j cmd)"
  by (cases cmd) (auto simp: as_value_def Memcache_set_def Memcache_add_def Memcache_replace_def intro!: sim_intros simp del: retA_apply)

lemma run_prog_sim:
  assumes "evbuffer_spec E v"
  shows "simA (chan_abs v) (run_prog E P j p) (run_prog (evb_ref E) P j p)"
proof (induction p)
  case (Call cmd k)
  show ?case
  proof
    fix s
    note op = simA_eq [OF run_op_sim [OF assms], of P j cmd s]
    note IH = simA_eq [OF Call.IH [OF rangeI]]
    show "map_prod id (chan_abs v) (run_prog E P j (Call cmd k) s) = run_prog (evb_ref E) P j (Call cmd k) (chan_abs v s)"
      by (cases "run_op E P j cmd s"; cases "fst (run_op E P j cmd s)") (simp_all add: op IH map_prod_def split_beta)
  qed
qed (auto intro: sim_intros simp del: retA_apply throwA_apply)

lemma chan_at_open: "chan_at b inp out w (chan.more s0) s \<Longrightarrow> mc_fd s = mc_fd (s0 :: 'b memcache_client)"
  by (cases s; cases s0) (simp add: chan_at_def)

lemma run_prog_list:
  assumes P: "bswap_spec P" and opn: "fd_is_open P (mc_fd s0)" and "session_ok M P p t"
    and "chan_at b (responses M P h p t @ rest) out (length (requests M P p t) + w) (chan.more s0) s"
  shows "ends (run_prog (evb_list z) P j p) s (fst (server_run M P p t))
    (\<lambda>s'. \<exists>b'. chan_at b' rest (out @ requests M P p t) w (chan.more s0) s')"
  using assms(3,4)
proof (induction p arbitrary: t b out s)
  case (Call cmd k)
  let ?a = "fst (mc_serve M cmd t)" and ?t = "snd (mc_serve M cmd t)"
  let ?r = "observe P (mc_error M) cmd ?a"
  let ?Q = "\<lambda>s'. \<exists>b'. chan_at b' rest (out @ requests M P (Call cmd k) t) w (chan.more s0) s'"
  have "fd_is_open P (mc_fd s)" using chan_at_open [OF Call.prems(2)] opn by simp
  moreover have "chan_at b (response h (mc_error M) ?a @ responses M P h (k ?r) ?t @ rest) out
      (length (op_request cmd) + (length (requests M P (k ?r) ?t) + w)) (chan.more s0) s" using Call.prems(2) by (simp add: add.assoc)
  ultimately have one: "ends (run_op (evb_list z) P j cmd) s ?r
      (chan_at [] (responses M P h (k ?r) ?t @ rest) (out @ op_request cmd) (length (requests M P (k ?r) ?t) + w) (chan.more s0))"
    using Call.prems(1) by (intro run_op_list [OF P]) simp_all
  have IH: "ends (run_prog (evb_list z) P j (k ?r)) s' (fst (server_run M P (k ?r) ?t)) ?Q"
    if "chan_at [] (responses M P h (k ?r) ?t @ rest) (out @ op_request cmd) (length (requests M P (k ?r) ?t) + w) (chan.more s0) s'" for s'
    using Call.IH [OF rangeI _ that] Call.prems(1) by simp
  show ?case
  proof (cases ?r)
    case (Inl e)
    with one obtain s' where "run_op (evb_list z) P j cmd s = (Throw e, s')"
      "chan_at [] (responses M P h (k ?r) ?t @ rest) (out @ op_request cmd) (length (requests M P (k ?r) ?t) + w) (chan.more s0) s'"
      by (auto simp: ends_def fails_def)
    with IH [OF this(2)] Inl show ?thesis by (simp add: ends_def reaches_def fails_def split: sum.splits)
  next
    case (Inr y)
    with one obtain s' where "run_op (evb_list z) P j cmd s = (Ret y, s')"
      "chan_at [] (responses M P h (k ?r) ?t @ rest) (out @ op_request cmd) (length (requests M P (k ?r) ?t) + w) (chan.more s0) s'"
      by (auto simp: ends_def reaches_def)
    with IH [OF this(2)] Inr show ?thesis by (simp add: ends_def reaches_def fails_def split: sum.splits)
  qed
qed (auto simp: ends_def reaches_def fails_def)

lemma session_run:
  assumes "evbuffer_spec E v" and "bswap_spec P" and "fd_is_open P (mc_fd s)" and "session_ok M P p t"
    and "ch_inp s = responses M P h p t @ rest" and "live (length (requests M P p t)) s"
  shows "ends (run_prog E P j p) s (fst (server_run M P p t)) (\<lambda>s'. ch_out s' = ch_out s @ requests M P p t \<and> ch_inp s' = rest)"
proof -
  let ?Q = "\<lambda>s'. \<exists>b'. chan_at b' rest (ch_out s @ requests M P p t) 0 (chan.more s) s'"
  have "chan_at (v (ch_buf s)) (responses M P h p t @ rest) (ch_out s) (length (requests M P p t) + 0) (chan.more (chan_abs v s)) (chan_abs v s)"
    using assms(5,6) by (simp add: chan_at_def)
  moreover have "fd_is_open P (mc_fd (chan_abs v s))" using assms(3) by simp
  ultimately have run: "ends (run_prog (evb_ref E) P j p) (chan_abs v s) (fst (server_run M P p t)) ?Q"
    using run_prog_list [OF assms(2) _ assms(4), of "chan_abs v s"] unfolding evb_ref_def by simp
  note sim = chan_simE [OF run_prog_sim [OF assms(1)]]
  show ?thesis
  proof (cases "fst (server_run M P p t)")
    case (Inl e)
    with run obtain u where u: "run_prog (evb_ref E) P j p (chan_abs v s) = (Throw e, u)" "?Q u" by (auto simp: ends_def fails_def)
    from sim [OF u(1)] u(2) Inl show ?thesis by (auto simp: ends_def fails_def chan_at_def)
  next
    case (Inr y)
    with run obtain u where u: "run_prog (evb_ref E) P j p (chan_abs v s) = (Ret y, u)" "?Q u" by (auto simp: ends_def reaches_def)
    from sim [OF u(1)] u(2) Inr show ?thesis by (auto simp: ends_def reaches_def chan_at_def)
  qed
qed

text \<open>C5: The client is the server seen from far away.  For every program, which may choose its commands by the results
  of those before and catch exceptions, and every server whose answers have the documented form: when the server's responses
  arrive, however they are cut into pieces, the program ends with the value or exception it would get from the
  server itself; exactly the requests of this run have been sent, and exactly its responses have been taken off
  the stream.\<close>

theorem client_refines_server:
  assumes "evbuffer_spec E v" and "bswap_spec P" and "fd_is_open P (mc_fd s)" and "session_ok M P p t"
    and "ch_inp s = responses M P h p t @ rest" and "live (length (requests M P p t)) s"
  shows "\<exists>s'. run_prog E P j p s = (case fst (server_run M P p t) of Inr y \<Rightarrow> Ret y | Inl e \<Rightarrow> Throw e, s') \<and>
    ch_out s' = ch_out s @ requests M P p t \<and> ch_inp s' = rest"
  using session_run [OF assms, of j] by (auto simp: ends_def reaches_def fails_def split: sum.splits)

text \<open>A server that counts, and a program that writes with the CAS value it has read and handles an error.\<close>

definition counting_server :: "u64 memcached_api" where
  "counting_server = \<lparr>mc_serve = (\<lambda>cmd n. (case cmd of Op_get _ _ \<Rightarrow> Found [65] 0 n | Op_delete _ _ \<Rightarrow> Refused 1 | _ \<Rightarrow> Stored n, n + 1)),
     mc_wait = (\<lambda>_ n. n), mc_error = (\<lambda>_. [33])\<rparr>"

definition careful_program :: "bool mc_prog" where
  "careful_program = Call (Op_get [107] 0) (\<lambda>r. case r of Inr (V_get g) \<Rightarrow>
     Call (Op_set [107] (gr_value g @ [66]) 0 0 (gr_cas g)) (\<lambda>_. Call (Op_delete [108] 0) (\<lambda>r. case r of Inl e \<Rightarrow> Return True | _ \<Rightarrow> Return False))
     | _ \<Rightarrow> Return False)"

theorem client_refines_server_witness:
  "\<exists>s'. run_prog (evb_list 0) phosg_model (sample_header 9 9) careful_program
      (sample_client (responses counting_server phosg_model (sample_header 0 0) careful_program 4)) = (Ret True, s') \<and>
     ch_out s' = get_request [107] 0 @ write_request Set [107] [65, 66] 0 0 4 @ request Delete 0 [] [108] []"
proof -
  let ?M = counting_server and ?P = phosg_model and ?p = careful_program
  let ?s = "sample_client (responses ?M ?P (sample_header 0 0) ?p 4)"
  note defs = careful_program_def counting_server_def observe_def expected_errors_def fits_def
  have ok: "session_ok ?M ?P ?p 4" and res: "fst (server_run ?M ?P ?p 4) = Inr True"
    and req: "requests ?M ?P ?p 4 = get_request [107] 0 @ write_request Set [107] [65, 66] 0 0 4 @ request Delete 0 [] [108] []"
    by (simp_all add: defs)
  have opn: "fd_is_open ?P (mc_fd ?s)" and inp: "ch_inp ?s = responses ?M ?P (sample_header 0 0) ?p 4 @ []" by simp_all
  have l: "live (length (requests ?M ?P ?p 4)) ?s" by (simp add: req) (simp add: defs response_def get_request_def)
  from client_refines_server [OF evb_list_spec [of 0, OF order_refl] phosg_model_spec(1) opn ok inp l, of "sample_header 9 9"]
  show ?thesis unfolding res req by auto
qed

end
