(* ===== verification/Memcache_Test.thy ===== *)
theory Memcache_Test
  imports Memcache_Sessions
begin

text \<open>
  Examples/MemcacheFunctionalTest.cc: the test program as a session of the Memcache client, and the
  documented behaviour of the server it is meant for: a store of items with flags, CAS values and
  expiration times.  The theorem shows that the test passes on every server that behaves so.
\<close>

section \<open>The documented server\<close>

text \<open>Times are in microseconds.  \<open>st_next\<close> is the next CAS value, \<open>st_flush\<close> the time of a flush that is still to come.\<close>

record mc_store =
  st_items :: "bytes \<rightharpoonup> mc_item"
  st_next :: u64
  st_now :: nat
  st_flush :: "nat option"
  st_version :: bytes
  st_stats :: "(bytes \<times> bytes) list"

text \<open>Expiration times of up to thirty days are relative; zero is never.\<close>

definition deadline :: "mc_store \<Rightarrow> u32 \<Rightarrow> nat option" where
  "deadline st exp = (if exp = 0 then None
     else Some ((if unat exp \<le> 2592000 then st_now st else 0) + 1000000 * unat exp))"

definition look :: "mc_store \<Rightarrow> bytes \<Rightarrow> mc_item option" where
  "look st key = (case st_items st key of None \<Rightarrow> None
     | Some it \<Rightarrow> (case it_deadline it of None \<Rightarrow> Some it | Some d \<Rightarrow> if d \<le> st_now st then None else Some it))"

definition put :: "bytes \<Rightarrow> bytes \<Rightarrow> u32 \<Rightarrow> nat option \<Rightarrow> mc_store \<Rightarrow> mc_store" where
  "put key val flags d st = st\<lparr>st_items := (st_items st)(key \<mapsto> \<lparr>it_value = val, it_flags = flags, it_cas = st_next st, it_deadline = d\<rparr>),
     st_next := st_next st + 1\<rparr>"

definition stored :: "bytes \<Rightarrow> bytes \<Rightarrow> u32 \<Rightarrow> nat option \<Rightarrow> mc_store \<Rightarrow> mc_answer \<times> mc_store" where
  "stored key val flags d st = (Stored (st_next st), put key val flags d st)"

definition cas_matches :: "u64 \<Rightarrow> mc_item \<Rightarrow> bool" where
  "cas_matches c it \<longleftrightarrow> c = 0 \<or> c = it_cas it"

text \<open>A counter is stored as decimal digits; when it becomes shorter, spaces follow them.\<close>

definition number_of :: "bytes \<Rightarrow> u64 option" where
  "number_of val = (let ds = takeWhile is_digit val in
     if ds \<noteq> [] \<and> list_all (\<lambda>b. b = 32) (dropWhile is_digit val) \<and> digits_val ds < 2 ^ 64 then Some (word_of_nat (digits_val ds)) else None)"

definition text_of_number :: "u64 \<Rightarrow> nat \<Rightarrow> bytes" where
  "text_of_number n w = (let ds = ascii (digits 10 (unat n)) in ds @ replicate (w - length ds) 32)"

abbreviation "missing \<equiv> response_status_code KEY_NOT_FOUND"
abbreviation "exists \<equiv> response_status_code KEY_EXISTS"

fun store_serve :: "mc_op \<Rightarrow> mc_store \<Rightarrow> mc_answer \<times> mc_store" where
  "store_serve (Op_get key exp) st = (case look st key of None \<Rightarrow> (Refused missing, st)
     | Some it \<Rightarrow> (Found (it_value it) (it_flags it) (it_cas it),
         if exp = 0 then st else st\<lparr>st_items := (st_items st)(key \<mapsto> it\<lparr>it_deadline := deadline st exp\<rparr>)\<rparr>))"
| "store_serve (Op_set key val flags exp c) st = (if c = 0 then stored key val flags (deadline st exp) st
     else case look st key of None \<Rightarrow> (Refused missing, st)
     | Some it \<Rightarrow> if c = it_cas it then stored key val flags (deadline st exp) st else (Refused exists, st))"
| "store_serve (Op_add key val flags exp) st = (case look st key of None \<Rightarrow> stored key val flags (deadline st exp) st
     | Some it \<Rightarrow> (Refused exists, st))"
| "store_serve (Op_replace key val flags exp c) st = (case look st key of None \<Rightarrow> (Refused missing, st)
     | Some it \<Rightarrow> if cas_matches c it then stored key val flags (deadline st exp) st else (Refused exists, st))"
| "store_serve (Op_delete key c) st = (case look st key of None \<Rightarrow> (Refused missing, st)
     | Some it \<Rightarrow> if cas_matches c it then (Stored 0, st\<lparr>st_items := (st_items st)(key := None)\<rparr>) else (Refused exists, st))"
| "store_serve (Op_increment key delta initial exp decr) st = (case look st key of
       None \<Rightarrow> if exp = 0xFFFFFFFF then (Refused missing, st)
         else (let n = (if initial = 0xFFFFFFFFFFFFFFFF then delta else initial)
               in (Number n (st_next st), put key (text_of_number n 0) 0 (deadline st exp) st))
     | Some it \<Rightarrow> (case number_of (it_value it) of None \<Rightarrow> (Refused (response_status_code NON_NUMERIC_INCR_DECR), st)
         | Some n \<Rightarrow> (let n' = (if decr then if n < delta then 0 else n - delta else n + delta)
               in (Number n' (st_next st), put key (text_of_number n' (length (it_value it))) (it_flags it) (it_deadline it) st))))"
| "store_serve (Op_append key val pre) st = (case look st key of None \<Rightarrow> (Refused (response_status_code NOT_STORED), st)
     | Some it \<Rightarrow> stored key (if pre then val @ it_value it else it_value it @ val) (it_flags it) (it_deadline it) st)"
| "store_serve (Op_touch key exp) st = (case look st key of None \<Rightarrow> (Refused missing, st)
     | Some it \<Rightarrow> (Stored (it_cas it), st\<lparr>st_items := (st_items st)(key \<mapsto> it\<lparr>it_deadline := deadline st exp\<rparr>)\<rparr>))"
| "store_serve (Op_flush exp) st = (Stored 0, if exp = 0 then st\<lparr>st_items := Map.empty, st_flush := None\<rparr> else st\<lparr>st_flush := deadline st exp\<rparr>)"
| "store_serve (Op_noop t0 t1) st = (Stored 0, st)"
| "store_serve Op_version st = (Text (st_version st), st)"
| "store_serve (Op_stats fuel) st = (Statistics (st_stats st), st)"

definition store_wait :: "u64 \<Rightarrow> mc_store \<Rightarrow> mc_store" where
  "store_wait usecs st = (let st' = st\<lparr>st_now := st_now st + unat usecs\<rparr> in
     case st_flush st of None \<Rightarrow> st' | Some d \<Rightarrow> if d \<le> st_now st' then st'\<lparr>st_items := Map.empty, st_flush := None\<rparr> else st')"

text \<open>A server whose state is seen through \<open>v\<close> as such a store.\<close>

definition memcached_spec :: "'t memcached_api \<Rightarrow> ('t \<Rightarrow> mc_store) \<Rightarrow> bool" where
  "memcached_spec M v \<longleftrightarrow> (\<forall>cmd t. map_prod id v (mc_serve M cmd t) = store_serve cmd (v t)) \<and>
     (\<forall>n t. v (mc_wait M n t) = store_wait n (v t)) \<and> (\<forall>code. length (mc_error M code) < 2 ^ 31)"

section \<open>The test\<close>

text \<open>An exception of a command, and a failed expectation, end the program.\<close>

definition mc_call :: "mc_op \<Rightarrow> (mc_value \<Rightarrow> 'a mc_prog) \<Rightarrow> 'a mc_prog" where
  "mc_call cmd f = Call cmd (\<lambda>r. case r of Inl e \<Rightarrow> Raise e | Inr y \<Rightarrow> f y)"

definition expect :: "bool \<Rightarrow> 'a mc_prog \<Rightarrow> 'a mc_prog" where
  "expect b p = (if b then p else Raise (Logic_error ''expectation failed''))"

definition expect_eq :: "mc_value \<Rightarrow> mc_op \<Rightarrow> 'a mc_prog \<Rightarrow> 'a mc_prog" where
  "expect_eq y cmd p = mc_call cmd (\<lambda>r. expect (r = y) p)"

definition do_call :: "mc_op \<Rightarrow> 'a mc_prog \<Rightarrow> 'a mc_prog" where
  "do_call cmd p = mc_call cmd (\<lambda>_. p)"

definition get_of :: "mc_value \<Rightarrow> get_result" where
  "get_of y = (case y of V_get g \<Rightarrow> g | _ \<Rightarrow> \<lparr>gr_value = [], gr_cas = 0, gr_flags = 0, gr_key_found = False\<rparr>)"

text \<open>\<open>res = co_await client.get(...)\<close> and the expectations about it, which the rest of the program follows with the CAS value.\<close>

definition expect_found :: "mc_op \<Rightarrow> string \<Rightarrow> u32 \<Rightarrow> (u64 \<Rightarrow> 'a mc_prog) \<Rightarrow> 'a mc_prog" where
  "expect_found cmd val flags f = mc_call cmd (\<lambda>r. let res = get_of r in
     expect (gr_key_found res = True) (expect (gr_value res = ascii val) (expect (gr_cas res \<noteq> 0) (expect (gr_flags res = flags) (f (gr_cas res))))))"

definition expect_missing :: "string \<Rightarrow> 'a mc_prog \<Rightarrow> 'a mc_prog" where
  "expect_missing key p = mc_call (Op_get (ascii key) 0) (\<lambda>r. expect (gr_key_found (get_of r) = False) p)"

definition expect_value :: "string \<Rightarrow> string \<Rightarrow> 'a mc_prog \<Rightarrow> 'a mc_prog" where
  "expect_value key val p = mc_call (Op_get (ascii key) 0) (\<lambda>r. expect (gr_value (get_of r) = ascii val) p)"

abbreviation "t_get key \<equiv> Op_get (ascii key) 0"
abbreviation "t_set key val flags exp c \<equiv> Op_set (ascii key) (ascii val) flags exp c"
abbreviation "t_add key val flags exp \<equiv> Op_add (ascii key) (ascii val) flags exp"
abbreviation "t_replace key val flags exp c \<equiv> Op_replace (ascii key) (ascii val) flags exp c"
abbreviation "yes \<equiv> expect_eq (V_bool True)"
abbreviation "no \<equiv> expect_eq (V_bool False)"

definition test_smoke :: "u64 \<Rightarrow> u64 \<Rightarrow> 'a mc_prog \<Rightarrow> 'a mc_prog" where
  "test_smoke t0 t1 p = mc_call (Op_noop t0 t1) (\<lambda>r. expect (case r of V_num n \<Rightarrow> n < 1000000 | _ \<Rightarrow> False)
     (mc_call Op_version (\<lambda>r. expect (r \<noteq> V_text []) (do_call (Op_flush 0) p))))"

definition test_set_add_replace :: "'a mc_prog \<Rightarrow> 'a mc_prog" where
  "test_set_add_replace p =
     yes (t_set ''key1'' ''value0'' 0 0 0) (yes (t_set ''key1'' ''value1'' 1 0 0) (no (t_add ''key1'' ''value2'' 2 0)
     (yes (t_add ''key2'' ''value2'' 2 0) (no (t_replace ''key3'' ''value3'' 3 0 0) (yes (t_add ''key3'' ''value3'' 3 0) p)))))"

definition test_get_cas :: "'a mc_prog \<Rightarrow> 'a mc_prog" where
  "test_get_cas p = expect_missing ''missing-key''
     (expect_found (t_get ''key2'') ''value2'' 2 (\<lambda>cas. no (t_set ''key2'' ''value0'' 0 0 (cas + 1))
     (expect_found (t_get ''key2'') ''value2'' 2 (\<lambda>cas. yes (t_set ''key2'' ''value0'' 0 0 cas)
     (expect_found (t_get ''key2'') ''value0'' 0 (\<lambda>cas. p))))))"

definition test_cas_replace :: "'a mc_prog \<Rightarrow> 'a mc_prog" where
  "test_cas_replace p =
     expect_found (t_get ''key2'') ''value0'' 0 (\<lambda>cas. no (t_replace ''key2'' ''value2'' 0 0 (cas + 1))
     (expect_found (t_get ''key2'') ''value0'' 0 (\<lambda>cas. yes (t_replace ''key2'' ''value2'' 2 0 cas)
     (expect_found (t_get ''key2'') ''value2'' 2 (\<lambda>cas. p)))))"

definition test_delete :: "'a mc_prog \<Rightarrow> 'a mc_prog" where
  "test_delete p =
     expect_found (t_get ''key3'') ''value3'' 3 (\<lambda>cas. yes (Op_delete (ascii ''key3'') 0) (expect_missing ''key3'' p))"

definition test_delete_cas :: "'a mc_prog \<Rightarrow> 'a mc_prog" where
  "test_delete_cas p =
     expect_found (t_get ''key2'') ''value2'' 2 (\<lambda>cas. no (Op_delete (ascii ''key2'') (cas + 1))
     (expect_found (t_get ''key2'') ''value2'' 2 (\<lambda>cas. yes (Op_delete (ascii ''key2'') cas) (expect_missing ''key2'' p))))"

definition test_expire_set :: "'a mc_prog \<Rightarrow> 'a mc_prog" where
  "test_expire_set p = yes (t_set ''ek1'' ''value1'' 1 1 0) (expect_found (t_get ''ek1'') ''value1'' 1 (\<lambda>cas.
     Sleep 1000000 (expect_missing ''ek1'' p)))"

definition test_expire_touch :: "'a mc_prog \<Rightarrow> 'a mc_prog" where
  "test_expire_touch p = yes (t_set ''ek1'' ''value1'' 1 2 0) (expect_found (t_get ''ek1'') ''value1'' 1 (\<lambda>cas.
     Sleep 1000000 (do_call (Op_touch (ascii ''ek1'') 2)
     (Sleep 1000000 (expect_found (t_get ''ek1'') ''value1'' 1 (\<lambda>cas.
     Sleep 1000000 (expect_missing ''ek1'' p)))))))"

definition test_expire_get_touch :: "'a mc_prog \<Rightarrow> 'a mc_prog" where
  "test_expire_get_touch p = yes (t_set ''ek1'' ''value1'' 1 2 0) (expect_found (t_get ''ek1'') ''value1'' 1 (\<lambda>cas.
     Sleep 1000000 (expect_found (Op_get (ascii ''ek1'') 2) ''value1'' 1 (\<lambda>cas.
     Sleep 1000000 (expect_found (t_get ''ek1'') ''value1'' 1 (\<lambda>cas.
     Sleep 1000000 (expect_missing ''ek1'' p)))))))"

definition test_expire_add :: "'a mc_prog \<Rightarrow> 'a mc_prog" where
  "test_expire_add p = yes (t_set ''ek1'' ''value1'' 1 0 0) (no (t_add ''ek1'' ''value2'' 2 1)
     (Sleep 1000000 (expect_found (t_get ''ek1'') ''value1'' 1 (\<lambda>cas. p))))"

definition test_increment :: "'a mc_prog \<Rightarrow> 'a mc_prog" where
  "test_increment p = yes (t_set ''ik1'' ''123'' 0 0 0)
     (expect_eq (V_num 125) (Op_increment (ascii ''ik1'') 2 0xFFFFFFFFFFFFFFFF 0 False)
     (expect_eq (V_num 10) (Op_increment (ascii ''ik2'') 2 10 0 False)
     (expect_eq (V_num 2) (Op_increment (ascii ''ik3'') 2 0xFFFFFFFFFFFFFFFF 0 False)
     (expect_eq (V_num 100) (Op_increment (ascii ''ik1'') 25 0 0 True)
     (expect_eq (V_num 0) (Op_increment (ascii ''ik1'') 200 0 0 True) p)))))"

definition test_append :: "'a mc_prog \<Rightarrow> 'a mc_prog" where
  "test_append p = yes (t_set ''ak1'' ''456'' 0 0 0)
     (do_call (Op_append (ascii ''ak1'') (ascii ''789'') False) (expect_value ''ak1'' ''456789''
     (do_call (Op_append (ascii ''ak1'') (ascii ''123'') True) (expect_value ''ak1'' ''123456789'' p))))"

definition test_stats_flush :: "nat \<Rightarrow> unit mc_prog" where
  "test_stats_flush fuel = do_call (Op_stats fuel)
     (yes (t_set ''f1'' ''456'' 0 0 0) (do_call (Op_flush 2) (expect_value ''f1'' ''456'' (Sleep 2000000 (expect_missing ''f1'' (Return ()))))))"

definition functional_test :: "u64 \<Rightarrow> u64 \<Rightarrow> nat \<Rightarrow> unit mc_prog" where
  "functional_test t0 t1 fuel = test_smoke t0 t1 (test_set_add_replace (test_get_cas (test_cas_replace (test_delete (test_delete_cas
     (test_expire_set (test_expire_touch (test_expire_get_touch (test_expire_add (test_increment (test_append (test_stats_flush fuel))))))))))))"

section \<open>The test on the store\<close>

definition store_model :: "(u16 \<Rightarrow> bytes) \<Rightarrow> mc_store memcached_api" where
  "store_model t = \<lparr>mc_serve = store_serve, mc_wait = store_wait, mc_error = t\<rparr>"

lemma store_model_wait [simp]: "mc_wait (store_model t) = store_wait"
  by (simp add: store_model_def)

text \<open>The session fits the protocol, and the program returns.\<close>

definition passes :: "'t memcached_api \<Rightarrow> phosg_api \<Rightarrow> 'a mc_prog \<Rightarrow> 't \<Rightarrow> bool" where
  "passes M P p t \<longleftrightarrow> session_ok M P p t \<and> (\<exists>y. fst (server_run M P p t) = Inr y)"

lemma passes_simps:
  "passes M P (Return x) t"
  "passes M P (Sleep n p) t \<longleftrightarrow> passes M P p (mc_wait M n t)"
  "passes M P (expect b p) t \<longleftrightarrow> b \<and> passes M P p t"
  by (auto simp: passes_def expect_def)

lemma passes_call:
  "passes (store_model t) P (mc_call cmd f) st \<longleftrightarrow> (case store_serve cmd st of (a, st') \<Rightarrow> fits t cmd a \<and>
     (case observe P t cmd a of Inl e \<Rightarrow> False | Inr y \<Rightarrow> passes (store_model t) P (f y) st'))"
  by (auto simp: passes_def mc_call_def store_model_def split: sum.splits prod.splits)

lemma ascii_inject [simp]: "ascii a = ascii b \<longleftrightarrow> a = b"
proof -
  have "inj (of_char :: char \<Rightarrow> byte)"
  proof
    fix c d :: char assume "of_char c = (of_char d :: byte)"
    then have "(word_of_nat (of_char c) :: byte) = word_of_nat (of_char d)" by (simp only: of_nat_of_char)
    then have "(of_char c :: nat) mod 256 = of_char d mod 256" by (simp add: word_unat_eq_iff unat_of_nat del: of_nat_of_char)
    then show "c = d" by simp
  qed
  then show ?thesis by (simp add: ascii_def inj_map_eq_map)
qed

lemma counter_texts:
  "number_of (ascii ''123'') = Some 123" "number_of (ascii ''125'') = Some 125" "number_of (ascii ''100'') = Some 100"
  "text_of_number 125 (Suc (Suc (Suc 0))) = ascii ''125''" "text_of_number 10 0 = ascii ''10''" "text_of_number 2 0 = ascii ''2''" "text_of_number 100 (Suc (Suc (Suc 0))) = ascii ''100''"
  "ascii ''456'' @ ascii ''789'' = ascii ''456789''" "ascii ''123'' @ ascii ''456789'' = ascii ''123456789''"
  by (simp_all add: number_of_def text_of_number_def ascii_def is_digit_def digits_val_def digits.simps digit_char_def byte_of_char Let_def)

text \<open>
  What the parts of the test rely on: CAS values, of which up to \<open>n\<close> have been given away, do not wrap around,
  and no flush is pending.  A part changes only the items of its own keys.
\<close>

definition ready :: "(u16 \<Rightarrow> bytes) \<Rightarrow> nat \<Rightarrow> nat \<Rightarrow> mc_store \<Rightarrow> bool" where
  "ready t fuel n st \<longleftrightarrow> (\<forall>code. length (t code) < 2 ^ 31) \<and> n < 1000 \<and> st_next st \<noteq> 0 \<and> unat (st_next st) < 2 ^ 62 + n \<and> st_flush st = None \<and>
     (\<forall>p\<in>set (st_stats st). stats_pair_ok p) \<and> length (st_stats st) < fuel"

lemma cas_add:
  assumes "unat (c :: u64) < 2 ^ 62 + n" and "n < 1000" and "k < 1000"
  shows "unat (word_of_nat k + c) = k + unat c"
  using assms by (simp add: unat_word_ariths unat_of_nat)

lemma cas_simps:
  assumes "ready t fuel n st"
  shows "(numeral k :: nat) < 1000 \<Longrightarrow> numeral k + st_next st \<noteq> 0" and "st_next st + 1 \<noteq> 0"
    and "(numeral k :: nat) < 1000 \<Longrightarrow> unat (numeral k + st_next st) = numeral k + unat (st_next st)"
    and "unat (st_next st + 1) = unat (st_next st) + 1"
proof -
  have "unat (st_next st) < 2 ^ 62 + n" "n < 1000" using assms by (simp_all add: ready_def)
  note add = cas_add [OF this]
  show n: "(numeral k :: nat) < 1000 \<Longrightarrow> unat (numeral k + st_next st) = numeral k + unat (st_next st)" using add [of "numeral k"] by simp
  show one: "unat (st_next st + 1) = unat (st_next st) + 1" using add [of 1] by (simp add: add.commute)
  show "(numeral k :: nat) < 1000 \<Longrightarrow> numeral k + st_next st \<noteq> 0" using n by (auto simp: word_unat_eq_iff)
  show "st_next st + 1 \<noteq> 0" using one by (auto simp: word_unat_eq_iff)
qed

definition has_item :: "mc_store \<Rightarrow> string \<Rightarrow> string \<Rightarrow> u32 \<Rightarrow> bool" where
  "has_item st key val flags \<longleftrightarrow> (\<exists>c. c \<noteq> 0 \<and> c + 1 \<noteq> 0 \<and> st_items st (ascii key) = Some \<lparr>it_value = ascii val, it_flags = flags, it_cas = c, it_deadline = None\<rparr>)"

definition unchanged :: "string set \<Rightarrow> mc_store \<Rightarrow> mc_store \<Rightarrow> bool" where
  "unchanged keys st st' \<longleftrightarrow> (\<forall>key. key \<notin> keys \<longrightarrow> st_items st' (ascii key) = st_items st (ascii key))"

lemmas test_defs = expect_eq_def expect_missing_def expect_found_def expect_value_def do_call_def passes_call passes_simps stored_def fits_def
  observe_def expected_errors_def look_def put_def deadline_def get_of_def store_wait_def cas_matches_def counter_texts

lemma test_set_add_replace_passes:
  assumes "ready t fuel n st" and "n < 900" and "st_items st = Map.empty"
    and next_part: "\<And>st'. ready t fuel (n + 10) st' \<Longrightarrow> unchanged {''key1'', ''key2'', ''key3''} st st' \<Longrightarrow> has_item st' ''key2'' ''value2'' 2 \<Longrightarrow> has_item st' ''key3'' ''value3'' 3 \<Longrightarrow> passes (store_model t) P p st'"
  shows "passes (store_model t) P (test_set_add_replace p) st"
proof -
  note cas = cas_simps [OF assms(1)]
  show ?thesis using assms(1-3) unfolding test_set_add_replace_def
    by (auto simp: test_defs cas ready_def has_item_def intro!: next_part) (auto simp: cas ready_def has_item_def unchanged_def)
qed

lemma test_get_cas_passes:
  assumes "ready t fuel n st" and "n < 900" and "st_items st (ascii ''missing-key'') = None" and "has_item st ''key2'' ''value2'' 2"
    and next_part: "\<And>st'. ready t fuel (n + 10) st' \<Longrightarrow> unchanged {''key2''} st st' \<Longrightarrow> has_item st' ''key2'' ''value0'' 0 \<Longrightarrow> passes (store_model t) P p st'"
  shows "passes (store_model t) P (test_get_cas p) st"
proof -
  note cas = cas_simps [OF assms(1)]
  show ?thesis using assms(1-4) unfolding test_get_cas_def
    by (auto simp: test_defs cas ready_def has_item_def intro!: next_part) (auto simp: cas ready_def has_item_def unchanged_def)
qed

lemma test_cas_replace_passes:
  assumes "ready t fuel n st" and "n < 900" and "has_item st ''key2'' ''value0'' 0"
    and next_part: "\<And>st'. ready t fuel (n + 10) st' \<Longrightarrow> unchanged {''key2''} st st' \<Longrightarrow> has_item st' ''key2'' ''value2'' 2 \<Longrightarrow> passes (store_model t) P p st'"
  shows "passes (store_model t) P (test_cas_replace p) st"
proof -
  note cas = cas_simps [OF assms(1)]
  show ?thesis using assms(1-3) unfolding test_cas_replace_def
    by (auto simp: test_defs cas ready_def has_item_def intro!: next_part) (auto simp: cas ready_def has_item_def unchanged_def)
qed

lemma test_delete_passes:
  assumes "ready t fuel n st" and "n < 900" and "has_item st ''key3'' ''value3'' 3"
    and next_part: "\<And>st'. ready t fuel (n + 10) st' \<Longrightarrow> unchanged {''key3''} st st' \<Longrightarrow> passes (store_model t) P p st'"
  shows "passes (store_model t) P (test_delete p) st"
proof -
  note cas = cas_simps [OF assms(1)]
  show ?thesis using assms(1-3) unfolding test_delete_def
    by (auto simp: test_defs cas ready_def has_item_def intro!: next_part) (auto simp: cas ready_def has_item_def unchanged_def)
qed

lemma test_delete_cas_passes:
  assumes "ready t fuel n st" and "n < 900" and "has_item st ''key2'' ''value2'' 2"
    and next_part: "\<And>st'. ready t fuel (n + 10) st' \<Longrightarrow> unchanged {''key2''} st st' \<Longrightarrow> passes (store_model t) P p st'"
  shows "passes (store_model t) P (test_delete_cas p) st"
proof -
  note cas = cas_simps [OF assms(1)]
  show ?thesis using assms(1-3) unfolding test_delete_cas_def
    by (auto simp: test_defs cas ready_def has_item_def intro!: next_part) (auto simp: cas ready_def has_item_def unchanged_def)
qed

lemma test_expire_set_passes:
  assumes "ready t fuel n st" and "n < 900"
    and next_part: "\<And>st'. ready t fuel (n + 10) st' \<Longrightarrow> unchanged {''ek1''} st st' \<Longrightarrow> passes (store_model t) P p st'"
  shows "passes (store_model t) P (test_expire_set p) st"
proof -
  note cas = cas_simps [OF assms(1)]
  show ?thesis using assms(1-2) unfolding test_expire_set_def
    by (auto simp: test_defs cas ready_def has_item_def intro!: next_part) (auto simp: cas ready_def has_item_def unchanged_def)
qed

lemma test_expire_touch_passes:
  assumes "ready t fuel n st" and "n < 900"
    and next_part: "\<And>st'. ready t fuel (n + 10) st' \<Longrightarrow> unchanged {''ek1''} st st' \<Longrightarrow> passes (store_model t) P p st'"
  shows "passes (store_model t) P (test_expire_touch p) st"
proof -
  note cas = cas_simps [OF assms(1)]
  show ?thesis using assms(1-2) unfolding test_expire_touch_def
    by (auto simp: test_defs cas ready_def has_item_def intro!: next_part) (auto simp: cas ready_def has_item_def unchanged_def)
qed

lemma test_expire_get_touch_passes:
  assumes "ready t fuel n st" and "n < 900"
    and next_part: "\<And>st'. ready t fuel (n + 10) st' \<Longrightarrow> unchanged {''ek1''} st st' \<Longrightarrow> passes (store_model t) P p st'"
  shows "passes (store_model t) P (test_expire_get_touch p) st"
proof -
  note cas = cas_simps [OF assms(1)]
  show ?thesis using assms(1-2) unfolding test_expire_get_touch_def
    by (auto simp: test_defs cas ready_def has_item_def intro!: next_part) (auto simp: cas ready_def has_item_def unchanged_def)
qed

lemma test_expire_add_passes:
  assumes "ready t fuel n st" and "n < 900"
    and next_part: "\<And>st'. ready t fuel (n + 10) st' \<Longrightarrow> unchanged {''ek1''} st st' \<Longrightarrow> passes (store_model t) P p st'"
  shows "passes (store_model t) P (test_expire_add p) st"
proof -
  note cas = cas_simps [OF assms(1)]
  show ?thesis using assms(1-2) unfolding test_expire_add_def
    by (auto simp: test_defs cas ready_def has_item_def intro!: next_part) (auto simp: cas ready_def has_item_def unchanged_def)
qed

lemma test_increment_passes:
  assumes "ready t fuel n st" and "n < 900" and "st_items st (ascii ''ik2'') = None" and "st_items st (ascii ''ik3'') = None"
    and next_part: "\<And>st'. ready t fuel (n + 10) st' \<Longrightarrow> unchanged {''ik1'', ''ik2'', ''ik3''} st st' \<Longrightarrow> passes (store_model t) P p st'"
  shows "passes (store_model t) P (test_increment p) st"
proof -
  note cas = cas_simps [OF assms(1)]
  show ?thesis using assms(1-4) unfolding test_increment_def
    by (auto simp: test_defs cas ready_def has_item_def intro!: next_part) (auto simp: cas ready_def has_item_def unchanged_def)
qed

lemma test_append_passes:
  assumes "ready t fuel n st" and "n < 900"
    and next_part: "\<And>st'. ready t fuel (n + 10) st' \<Longrightarrow> unchanged {''ak1''} st st' \<Longrightarrow> passes (store_model t) P p st'"
  shows "passes (store_model t) P (test_append p) st"
proof -
  note cas = cas_simps [OF assms(1)]
  show ?thesis using assms(1-2) unfolding test_append_def
    by (auto simp: test_defs cas ready_def has_item_def intro!: next_part) (auto simp: cas ready_def has_item_def unchanged_def)
qed

lemma test_smoke_passes:
  assumes "ready t fuel n st" and "t1 - t0 < 1000000" and "st_version st \<noteq> []" and "length (st_version st) < 2 ^ 31"
    and next_part: "\<And>st'. ready t fuel n st' \<Longrightarrow> st_items st' = Map.empty \<Longrightarrow> passes (store_model t) P p st'"
  shows "passes (store_model t) P (test_smoke t0 t1 p) st"
  using assms(1-4) unfolding test_smoke_def by (auto simp: test_defs ready_def intro!: next_part)

lemma test_stats_flush_passes:
  assumes "ready t fuel n st"
  shows "passes (store_model t) P (test_stats_flush fuel) st"
  using assms unfolding test_stats_flush_def by (auto simp: test_defs ready_def)

lemma test_passes:
  assumes "ready t fuel 0 st" and "t1 - t0 < 1000000" and "st_version st \<noteq> []" and "length (st_version st) < 2 ^ 31"
  shows "passes (store_model t) P (functional_test t0 t1 fuel) st"
  unfolding functional_test_def
  apply (rule test_smoke_passes [OF assms])
  apply (rule test_set_add_replace_passes, assumption, simp, assumption)
  apply (rule test_get_cas_passes, assumption, simp, simp add: unchanged_def, assumption)
  apply (rule test_cas_replace_passes, assumption, simp, assumption)
  apply (rule test_delete_passes, assumption, simp, simp add: unchanged_def has_item_def)
  apply (rule test_delete_cas_passes, assumption, simp, simp add: unchanged_def has_item_def)
  apply (rule test_expire_set_passes, assumption, simp)
  apply (rule test_expire_touch_passes, assumption, simp)
  apply (rule test_expire_get_touch_passes, assumption, simp)
  apply (rule test_expire_add_passes, assumption, simp)
  apply (rule test_increment_passes, assumption, simp, simp add: unchanged_def, simp add: unchanged_def)
  apply (rule test_append_passes, assumption, simp)
  apply (rule test_stats_flush_passes, assumption)
  done

text \<open>A server that behaves as documented gives the same run as the store.\<close>

lemma memcached_run:
  assumes "memcached_spec M v"
  shows "passes M P p t \<longleftrightarrow> passes (store_model (mc_error M)) P p (v t)"
proof (induction p arbitrary: t)
  case (Call cmd k)
  have "map_prod id v (mc_serve M cmd t) = store_serve cmd (v t)" using assms by (simp add: memcached_spec_def)
  then have "fst (mc_serve M cmd t) = fst (store_serve cmd (v t))" "v (snd (mc_serve M cmd t)) = snd (store_serve cmd (v t))"
    by (metis fst_map_prod id_apply, metis snd_map_prod)
  with Call.IH [OF rangeI, of _ "snd (mc_serve M cmd t)"] show ?case by (simp add: passes_def store_model_def)
next
  case (Sleep n p)
  have "v (mc_wait M n t) = store_wait n (v t)" using assms by (simp add: memcached_spec_def)
  with Sleep [of "mc_wait M n t"] show ?case by (simp add: passes_def)
qed (simp_all add: passes_def)

section \<open>The program\<close>

text \<open>\<open>t0\<close> and \<open>t1\<close> are the times of the first command, \<open>fuel\<close> bounds the number of statistics.\<close>

definition main_async :: "'b evbuffer_api \<Rightarrow> phosg_api \<Rightarrow> command_header \<Rightarrow> u16 \<Rightarrow> u64 \<Rightarrow> u64 \<Rightarrow> nat \<Rightarrow> ('b memcache_client, unit) act" where
  "main_async E P j port t0 t1 fuel = seqA (Memcache_Client_new (ascii ''localhost'') port)
     (seqA (Memcache_connect P) (run_prog E P j (functional_test t0 t1 fuel)))"

lemma connect_run:
  assumes "scoped_fd_spec P" and "net_connect P (ascii ''localhost'') (unat port) = Ret fd" and "live (w + 1) s"
  obtains s' where "seqA (Memcache_Client_new (ascii ''localhost'') port) (Memcache_connect P) s = (Ret (), s')"
    and "mc_fd s' = fd" and "ch_inp s' = ch_inp s" and "ch_out s' = ch_out s" and "live w s'"
proof -
  obtain e evs where "ch_sched s = e # evs" using assms(3) by (cases "ch_sched s") (auto simp: live_def)
  with assms show ?thesis
    by (intro that [of "s\<lparr>mc_hostname := ascii ''localhost'', mc_port := port, mc_fd := fd, ch_sched := evs\<rparr>"])
      (auto simp: seqA_def bindA_def Memcache_Client_new_def Memcache_connect_def Base_connect_def scoped_fd_spec_def await_chan_def live_def)
qed

text \<open>C16: The functional test.  On every server that behaves as documented, whatever items it holds at first, and whatever way
  its responses are cut into pieces on the way, the test program connects, gets from every command what
  it expects (all expectations on values, flags, CAS values, expiration, counters and errors hold) and ends without an
  exception, having taken exactly the responses to its requests off the stream.\<close>

theorem functional_test_passes:
  assumes "evbuffer_spec E v" and "bswap_spec P" and "scoped_fd_spec P"
    and "net_connect P (ascii ''localhost'') (unat port) = Ret fd" and "0 \<le> fd"
    and "memcached_spec M w" and "0 < st_next (w t)" and "unat (st_next (w t)) < 2 ^ 62" and "st_flush (w t) = None"
    and "st_version (w t) \<noteq> []" and "length (st_version (w t)) < 2 ^ 31"
    and "\<forall>p\<in>set (st_stats (w t)). stats_pair_ok p" and "length (st_stats (w t)) < fuel" and "t1 - t0 < 1000000"
    and "ch_inp s = responses M P h (functional_test t0 t1 fuel) t @ rest"
    and "live (length (requests M P (functional_test t0 t1 fuel) t) + 1) s"
  shows "\<exists>s'. main_async E P j port t0 t1 fuel s = (Ret (), s') \<and> ch_inp s' = rest \<and>
    ch_out s' = ch_out s @ requests M P (functional_test t0 t1 fuel) t"
proof -
  let ?p = "functional_test t0 t1 fuel"
  have "ready (mc_error M) fuel 0 (w t)" using assms(6-9,12,13) by (auto simp: ready_def memcached_spec_def)
  from test_passes [OF this assms(14,10,11)] have "passes M P ?p t" unfolding memcached_run [OF assms(6)] .
  then obtain y where ok: "session_ok M P ?p t" "fst (server_run M P ?p t) = Inr y" by (auto simp: passes_def)
  obtain s1 where s1: "seqA (Memcache_Client_new (ascii ''localhost'') port) (Memcache_connect P) s = (Ret (), s1)"
    "mc_fd s1 = fd" "ch_inp s1 = ch_inp s" "ch_out s1 = ch_out s" "live (length (requests M P ?p t)) s1"
    by (rule connect_run [OF assms(3,4,16)])
  have "fd_is_open P (mc_fd s1)" using assms(3,5) s1(2) by (simp add: scoped_fd_spec_def)
  from session_run [OF assms(1,2) this ok(1) _ s1(5), of h rest j] s1(3,4) assms(15) ok(2)
  obtain s' where "run_prog E P j ?p s1 = (Ret y, s')" "ch_out s' = ch_out s @ requests M P ?p t" "ch_inp s' = rest"
    by (auto simp: ends_def reaches_def)
  moreover have "main_async E P j port t0 t1 fuel = seqA (seqA (Memcache_Client_new (ascii ''localhost'') port) (Memcache_connect P)) (run_prog E P j ?p)"
    by (simp add: main_async_def seqA_def bindA_assoc)
  ultimately show ?thesis using s1(1) by (simp add: seqA_def bindA_Ret)
qed

text \<open>A server with one item, and the connection to it.\<close>

definition example_store :: mc_store where
  "example_store = \<lparr>st_items = [ascii ''key1'' \<mapsto> \<lparr>it_value = [], it_flags = 0, it_cas = 1, it_deadline = None\<rparr>], st_next = 2, st_now = 0,
     st_flush = None, st_version = ascii ''1.6'', st_stats = [(ascii ''pid'', ascii ''1'')]\<rparr>"

definition example_connection :: "bytes memcache_client" where
  "example_connection = (let inp = responses (store_model (\<lambda>_. [])) phosg_model (sample_header 0 0) (functional_test 5 7 2) example_store;
     n = length inp + length (requests (store_model (\<lambda>_. [])) phosg_model (functional_test 5 7 2) example_store) + 1 in
     \<lparr>ch_buf = [], ch_inp = inp, ch_sched = replicate n (Os_ok 3), ch_out = [], mc_hostname = [], mc_port = 0, mc_fd = 0\<rparr>)"

theorem functional_test_passes_witness:
  "\<exists>s'. main_async (evb_list 0) phosg_model (sample_header 9 9) 11211 5 7 2 example_connection = (Ret (), s') \<and> ch_inp s' = []"
proof -
  let ?M = "store_model (\<lambda>_. [])" and ?P = phosg_model and ?p = "functional_test 5 7 2"
  have spec: "memcached_spec ?M id" by (simp add: memcached_spec_def store_model_def prod.map_id)
  have c: "net_connect ?P (ascii ''localhost'') (unat (11211 :: u16)) = Ret 5" by (simp add: phosg_model_def)
  have st: "0 < st_next (id example_store)" "unat (st_next (id example_store)) < 2 ^ 62" "st_flush (id example_store) = None"
    "st_version (id example_store) \<noteq> []" "length (st_version (id example_store)) < 2 ^ 31"
    "\<forall>p\<in>set (st_stats (id example_store)). stats_pair_ok p" "length (st_stats (id example_store)) < 2" "7 - 5 < (1000000 :: u64)"
    by (simp_all add: example_store_def stats_pair_ok_def ascii_def)
  have inp: "ch_inp example_connection = responses ?M ?P (sample_header 0 0) ?p example_store @ []"
    and l: "live (length (requests ?M ?P ?p example_store) + 1) example_connection"
    by (simp_all add: example_connection_def live_def Let_def)
  from functional_test_passes [OF evb_list_spec [of 0, OF order_refl] phosg_model_spec(1,2) c _ spec st inp l] show ?thesis by auto
qed

end
