(* ===== verification/Waiters.thy ===== *)
theory Waiters
  imports Prelude
begin

text \<open>
  The list of suspended coroutines that Channel and FutureBase keep: a \<open>std::forward_list\<close> of
  coroutine handles together with an iterator behind which the next waiter is inserted.  A node
  has an identity, so that an iterator whose node has been erased can be told from a valid one:
  inserting behind it has no defined behaviour.  The locale \<open>fifo_waiters\<close> is the contract the two
  classes need from such a list; it holds as long as the list has not been drained.
\<close>

section \<open>The list and its iterator\<close>

datatype fl_iterator = Before_begin | At_node nat

record 'c waiters =
  wl_nodes :: "(nat \<times> 'c) list"
  wl_insert_it :: fl_iterator
  wl_fresh :: nat

definition waiters_new :: "'c waiters" where
  "waiters_new = \<lparr>wl_nodes = [], wl_insert_it = Before_begin, wl_fresh = 0\<rparr>"

definition waiters_empty :: "'c waiters \<Rightarrow> bool" where
  "waiters_empty w \<longleftrightarrow> wl_nodes w = []"

text \<open>\<open>emplace_after\<close>: \<open>None\<close> when the iterator's node is not in the list.\<close>

fun insert_after :: "nat \<Rightarrow> (nat \<times> 'c) list \<Rightarrow> (nat \<times> 'c) \<Rightarrow> (nat \<times> 'c) list option" where
  "insert_after i [] y = None"
| "insert_after i (x # xs) y =
     (if fst x = i then Some (x # y # xs) else map_option ((#) x) (insert_after i xs y))"

definition emplace_after :: "fl_iterator \<Rightarrow> (nat \<times> 'c) list \<Rightarrow> (nat \<times> 'c) \<Rightarrow> (nat \<times> 'c) list option" where
  "emplace_after it xs y = (case it of Before_begin \<Rightarrow> Some (y # xs) | At_node i \<Rightarrow> insert_after i xs y)"

text \<open>\<open>awaiting_coros_insert_it = awaiting_coros.emplace_after(awaiting_coros_insert_it, coro)\<close>.\<close>

definition waiters_add :: "'c \<Rightarrow> ('c waiters, unit) act" where
  "waiters_add c = (\<lambda>w. case emplace_after (wl_insert_it w) (wl_nodes w) (wl_fresh w, c) of
     None \<Rightarrow> (Throw (Undefined_behaviour ''insert behind an erased node''), w)
   | Some xs \<Rightarrow> (Ret (), w\<lparr>wl_nodes := xs, wl_insert_it := At_node (wl_fresh w), wl_fresh := Suc (wl_fresh w)\<rparr>))"

text \<open>\<open>front\<close> followed by \<open>pop_front\<close>; the iterator is left alone.\<close>

definition waiters_pop :: "'c waiters \<Rightarrow> ('c \<times> 'c waiters) option" where
  "waiters_pop w = (case wl_nodes w of [] \<Rightarrow> None | x # xs \<Rightarrow> Some (snd x, w\<lparr>wl_nodes := xs\<rparr>))"

section \<open>The contract\<close>

text \<open>
  \<open>who\<close> lists the waiters in the order in which they will be woken, \<open>ok\<close> is the invariant and
  \<open>open\<close> the condition under which a waiter may be added.
\<close>

locale fifo_waiters =
  fixes who :: "'w \<Rightarrow> 'c list"
    and ok :: "'w \<Rightarrow> bool"
    and opn :: "'w \<Rightarrow> bool"
    and add :: "'c \<Rightarrow> ('w, unit) act"
    and pop :: "'w \<Rightarrow> ('c \<times> 'w) option"
    and new :: 'w
  assumes new_ok: "ok new" "opn new" "who new = []"
    and add_ok: "ok w \<Longrightarrow> opn w \<Longrightarrow> \<exists>w'. add c w = (Ret (), w') \<and> ok w' \<and> opn w' \<and> who w' = who w @ [c]"
    and pop_none: "ok w \<Longrightarrow> pop w = None \<longleftrightarrow> who w = []"
    and pop_some: "ok w \<Longrightarrow> pop w = Some (c, w') \<Longrightarrow> who w = c # who w' \<and> ok w' \<and> (opn w' \<longleftrightarrow> opn w \<and> who w' \<noteq> [])"
begin

lemma pop_cases:
  assumes "ok w"
  obtains (empty) "who w = []" "pop w = None"
  | (some) c w' where "pop w = Some (c, w')" "who w = c # who w'" "ok w'" "opn w' \<longleftrightarrow> opn w \<and> who w' \<noteq> []"
proof (cases "pop w")
  case None
  with pop_none [OF assms] empty show ?thesis by simp
next
  case (Some p)
  then show ?thesis using pop_some [OF assms] some by (cases p) simp
qed

text \<open>Adding several waiters to an open list.\<close>

lemma add_each:
  "ok w \<Longrightarrow> opn w \<Longrightarrow> \<exists>w'. eachA add cs w = (Ret (), w') \<and> ok w' \<and> opn w' \<and> who w' = who w @ cs"
proof (induction cs arbitrary: w)
  case (Cons c cs)
  from add_ok [OF Cons.prems] obtain w1 where 1: "add c w = (Ret (), w1)" "ok w1" "opn w1" "who w1 = who w @ [c]"
    by blast
  from Cons.IH [OF 1(2,3)] 1 show ?case by (auto simp: seqA_def bindA_def)
qed simp

end

section \<open>The list meets the contract\<close>

definition wl_who :: "'c waiters \<Rightarrow> 'c list" where
  "wl_who w = map snd (wl_nodes w)"

text \<open>
  Node identities are distinct and were handed out before; the iterator is at the last node
  when there is one.
\<close>

definition wl_ok :: "'c waiters \<Rightarrow> bool" where
  "wl_ok w \<longleftrightarrow> distinct (map fst (wl_nodes w)) \<and> (\<forall>x \<in> set (wl_nodes w). fst x < wl_fresh w) \<and>
     (wl_nodes w \<noteq> [] \<longrightarrow> wl_insert_it w = At_node (fst (last (wl_nodes w)))) \<and>
     (\<forall>i. wl_insert_it w = At_node i \<longrightarrow> i < wl_fresh w)"

text \<open>The iterator is usable: not left behind by the removal of the node it was at.\<close>

definition wl_open :: "'c waiters \<Rightarrow> bool" where
  "wl_open w \<longleftrightarrow> wl_nodes w \<noteq> [] \<or> wl_insert_it w = Before_begin"

lemma insert_after_last:
  "xs \<noteq> [] \<Longrightarrow> distinct (map fst xs) \<Longrightarrow> insert_after (fst (last xs)) xs y = Some (xs @ [y])"
proof (induction xs)
  case (Cons x xs)
  show ?case
  proof (cases "xs = []")
    case False
    then have "fst x \<noteq> fst (last xs)" using Cons.prems by (auto simp: image_iff)
    with Cons False show ?thesis by simp
  qed simp
qed simp

lemma wl_add_ok:
  assumes "wl_ok w" and "wl_open w"
  shows "\<exists>w'. waiters_add c w = (Ret (), w') \<and> wl_ok w' \<and> wl_open w' \<and> wl_who w' = wl_who w @ [c]"
proof -
  have ins: "emplace_after (wl_insert_it w) (wl_nodes w) y = Some (wl_nodes w @ [y])" for y
    using assms insert_after_last [of "wl_nodes w" y]
    by (cases "wl_nodes w = []") (auto simp: wl_ok_def wl_open_def emplace_after_def)
  show ?thesis
    using assms by (force simp: waiters_add_def ins wl_ok_def wl_open_def wl_who_def)
qed

interpretation wl: fifo_waiters wl_who wl_ok wl_open waiters_add waiters_pop waiters_new
proof
  fix w :: "'c waiters" and c assume "wl_ok w" "wl_open w"
  then show "\<exists>w'. waiters_add c w = (Ret (), w') \<and> wl_ok w' \<and> wl_open w' \<and> wl_who w' = wl_who w @ [c]"
    by (rule wl_add_ok)
next
  fix w :: "'c waiters" and c w' assume ok: "wl_ok w" and pop: "waiters_pop w = Some (c, w')"
  then obtain x xs where w: "wl_nodes w = x # xs" "c = snd x" "w' = w\<lparr>wl_nodes := xs\<rparr>"
    by (auto simp: waiters_pop_def split: list.splits)
  with ok show "wl_who w = c # wl_who w' \<and> wl_ok w' \<and> (wl_open w' \<longleftrightarrow> wl_open w \<and> wl_who w' \<noteq> [])"
    by (auto simp: wl_ok_def wl_open_def wl_who_def)
qed (auto simp: waiters_new_def wl_who_def wl_ok_def wl_open_def waiters_pop_def split: list.splits)

text \<open>When it is not usable, adding a waiter has no defined behaviour.\<close>

lemma wl_add_dangling:
  "\<not> wl_open w \<Longrightarrow> waiters_add c w = (Throw (Undefined_behaviour ''insert behind an erased node''), w)"
  by (cases "wl_insert_it w") (auto simp: wl_open_def waiters_add_def emplace_after_def)

end
