(* ===== verification/Channel.thy ===== *)
theory Channel
  imports Waiters
begin

text \<open>
  Channel.hh: a queue of items with coroutines waiting to read from it.  A coroutine that reads an
  empty channel is put on the list of waiters; a write appends its item and then resumes the
  waiter at the front, which takes an item from the front of the queue before it does anything
  else.  As resuming is the last thing a write does, what the resumed coroutine does next is
  simply the next operations of the run.
\<close>

section \<open>Operations\<close>

text \<open>\<open>cn_log\<close> records which coroutine received which item.\<close>

record ('c, 'a) channel =
  cn_queue :: "'a list"
  cn_awaiting :: "'c waiters"
  cn_log :: "('c \<times> 'a) list"

definition Channel_new :: "('c, 'a) channel" where
  "Channel_new = \<lparr>cn_queue = [], cn_awaiting = waiters_new, cn_log = []\<rparr>"

definition Channel_empty :: "('c, 'a) channel \<Rightarrow> bool" where
  "Channel_empty s \<longleftrightarrow> cn_queue s = []"

definition Channel_size :: "('c, 'a) channel \<Rightarrow> nat" where
  "Channel_size s = length (cn_queue s)"

definition Channel_await_ready :: "('c, 'a) channel \<Rightarrow> bool" where
  "Channel_await_ready s \<longleftrightarrow> cn_queue s \<noteq> []"

definition Channel_await_suspend :: "'c \<Rightarrow> (('c, 'a) channel, unit) act" where
  "Channel_await_suspend c = (\<lambda>s. case waiters_add c (cn_awaiting s) of (r, w) \<Rightarrow> (r, s\<lparr>cn_awaiting := w\<rparr>))"

text \<open>\<open>front()\<close> and \<open>pop_front()\<close> of an empty deque have no defined behaviour.\<close>

definition Channel_await_resume :: "'c \<Rightarrow> (('c, 'a) channel, unit) act" where
  "Channel_await_resume c = (\<lambda>s. case cn_queue s of
     [] \<Rightarrow> (Throw (Undefined_behaviour ''front of an empty deque''), s)
   | x # xs \<Rightarrow> (Ret (), s\<lparr>cn_queue := xs, cn_log := cn_log s @ [(c, x)]\<rparr>))"

text \<open>\<open>co_await channel.read()\<close> by coroutine \<open>c\<close>, up to the point where it continues or suspends.\<close>

definition Channel_read :: "'c \<Rightarrow> (('c, 'a) channel, unit) act" where
  "Channel_read c = bindA (getsA Channel_await_ready) (\<lambda>ready.
     if ready then Channel_await_resume c else Channel_await_suspend c)"

definition Channel_resume_awaiter :: "(('c, 'a) channel, unit) act" where
  "Channel_resume_awaiter = (\<lambda>s. case waiters_pop (cn_awaiting s) of
     None \<Rightarrow> (Ret (), s)
   | Some (c, w) \<Rightarrow> Channel_await_resume c (s\<lparr>cn_awaiting := w\<rparr>))"

definition Channel_write :: "'a \<Rightarrow> (('c, 'a) channel, unit) act" where
  "Channel_write x = seqA (modifyA (\<lambda>s. s\<lparr>cn_queue := cn_queue s @ [x]\<rparr>)) Channel_resume_awaiter"

definition Channel_destroy :: "(('c, 'a) channel, unit) act" where
  "Channel_destroy = (\<lambda>s. if \<not> waiters_empty (cn_awaiting s)
     then (Throw (Logic_error ''Channel destroyed with awaiters present''), s) else (Ret (), s))"

text \<open>A run: the operations the coroutines of the program perform, in order.\<close>

datatype ('c, 'a) channel_op = Op_read 'c | Op_write 'a

definition Channel_op :: "('c, 'a) channel_op \<Rightarrow> (('c, 'a) channel, unit) act" where
  "Channel_op op = (case op of Op_read c \<Rightarrow> Channel_read c | Op_write x \<Rightarrow> Channel_write x)"

section \<open>The specification\<close>

text \<open>
  What the channel promises: items and waiters are both served first come, first served.  The
  state is the log, the items nobody has taken and the coroutines nobody has woken.
\<close>

type_synonym ('c, 'a) channel_spec = "('c \<times> 'a) list \<times> 'a list \<times> 'c list"

fun spec_op :: "('c, 'a) channel_op \<Rightarrow> ('c, 'a) channel_spec \<Rightarrow> ('c, 'a) channel_spec" where
  "spec_op (Op_read c) (l, [], ws) = (l, [], ws @ [c])"
| "spec_op (Op_read c) (l, x # q, ws) = (l @ [(c, x)], q, ws)"
| "spec_op (Op_write x) (l, q, []) = (l, q @ [x], [])"
| "spec_op (Op_write x) (l, q, c # ws) = (l @ [(c, hd (q @ [x]))], tl (q @ [x]), ws)"

definition channel_abs :: "('c, 'a) channel \<Rightarrow> ('c, 'a) channel_spec" where
  "channel_abs s = (cn_log s, cn_queue s, wl_who (cn_awaiting s))"

text \<open>Nobody waits while there are items, and the list of waiters is well formed.\<close>

definition channel_inv :: "('c, 'a) channel \<Rightarrow> bool" where
  "channel_inv s \<longleftrightarrow> wl_ok (cn_awaiting s) \<and> (cn_queue s = [] \<or> wl_who (cn_awaiting s) = [])"

text \<open>The one operation that may go wrong: a read that has to wait behind an erased node.\<close>

definition channel_stuck :: "('c, 'a) channel_op \<Rightarrow> ('c, 'a) channel \<Rightarrow> bool" where
  "channel_stuck op s \<longleftrightarrow> (\<exists>c. op = Op_read c) \<and> cn_queue s = [] \<and> \<not> wl_open (cn_awaiting s)"

lemma channel_step:
  assumes inv: "channel_inv s" and ok: "\<not> channel_stuck op s"
  obtains s' where "Channel_op op s = (Ret (), s')" and "channel_inv s'"
    and "channel_abs s' = spec_op op (channel_abs s)"
    and "wl_open (cn_awaiting s') \<longleftrightarrow> wl_open (cn_awaiting s) \<and>
      (case op of Op_read c \<Rightarrow> True
       | Op_write x \<Rightarrow> wl_who (cn_awaiting s) = [] \<or> wl_who (cn_awaiting s') \<noteq> [])"
proof (cases op)
  case (Op_read c)
  show ?thesis
  proof (cases "cn_queue s")
    case Nil
    with ok Op_read have "wl_open (cn_awaiting s)" by (simp add: channel_stuck_def)
    with inv wl.add_ok [of "cn_awaiting s" c] obtain w where
      "waiters_add c (cn_awaiting s) = (Ret (), w)" "wl_ok w" "wl_open w" "wl_who w = wl_who (cn_awaiting s) @ [c]"
      by (auto simp: channel_inv_def)
    with Op_read Nil \<open>wl_open (cn_awaiting s)\<close> show ?thesis
      by (intro that [of "s\<lparr>cn_awaiting := w\<rparr>"])
        (simp_all add: Channel_op_def Channel_read_def bindA_def Channel_await_ready_def Channel_await_suspend_def
          channel_inv_def channel_abs_def)
  next
    case (Cons x q)
    with Op_read inv show ?thesis
      by (intro that [of "s\<lparr>cn_queue := q, cn_log := cn_log s @ [(c, x)]\<rparr>"])
        (simp_all add: Channel_op_def Channel_read_def bindA_def Channel_await_ready_def Channel_await_resume_def
          channel_inv_def channel_abs_def)
  qed
next
  case (Op_write x)
  have "wl_ok (cn_awaiting s)" using inv by (simp add: channel_inv_def)
  then show ?thesis
  proof (cases rule: wl.pop_cases)
    case empty
    with Op_write inv show ?thesis
      by (intro that [of "s\<lparr>cn_queue := cn_queue s @ [x]\<rparr>"])
        (simp_all add: Channel_op_def Channel_write_def seqA_def bindA_def Channel_resume_awaiter_def
          channel_inv_def channel_abs_def)
  next
    case (some c w)
    with inv have "cn_queue s = []" by (simp add: channel_inv_def)
    with Op_write some show ?thesis
      by (intro that [of "s\<lparr>cn_awaiting := w, cn_log := cn_log s @ [(c, x)]\<rparr>"])
        (simp_all add: Channel_op_def Channel_write_def seqA_def bindA_def Channel_resume_awaiter_def
          Channel_await_resume_def channel_inv_def channel_abs_def)
  qed
qed

lemma channel_new_inv: "channel_inv Channel_new" "channel_abs Channel_new = ([], [], [])"
  "cn_queue Channel_new = []" "wl_who (cn_awaiting Channel_new) = []"
  by (simp_all add: channel_inv_def Channel_new_def channel_abs_def wl.new_ok)

section \<open>Runs\<close>

fun Channel_run :: "('c, 'a) channel_op list \<Rightarrow> (('c, 'a) channel, unit) act" where
  "Channel_run [] = retA ()"
| "Channel_run (op # ops) = seqA (Channel_op op) (Channel_run ops)"

definition spec_run :: "('c, 'a) channel_op list \<Rightarrow> ('c, 'a) channel_spec" where
  "spec_run ops = fold spec_op ops ([], [], [])"

text \<open>
  \<open>drains\<close> tells from the operations alone whether some read has to wait after the list of
  waiters has been emptied by a write.  \<open>d\<close>: a waiter has been woken before; \<open>q\<close> and \<open>ws\<close>: the
  number of items and of waiters.
\<close>

fun drains :: "('c, 'a) channel_op list \<Rightarrow> bool \<Rightarrow> nat \<Rightarrow> nat \<Rightarrow> bool" where
  "drains [] d q ws = False"
| "drains (Op_read c # ops) d q ws =
     (if q = 0 then d \<and> ws = 0 \<or> drains ops d q (Suc ws) else drains ops d (q - 1) ws)"
| "drains (Op_write x # ops) d q ws =
     (if ws = 0 then drains ops d (Suc q) ws else drains ops True q (ws - 1))"

definition drained :: "bool \<Rightarrow> ('c, 'a) channel \<Rightarrow> bool" where
  "drained d s \<longleftrightarrow> (wl_open (cn_awaiting s) \<longleftrightarrow> \<not> (d \<and> wl_who (cn_awaiting s) = []))"

lemma channel_abs_length:
  "channel_abs s = (l, q, ws) \<Longrightarrow> length (cn_queue s) = length q \<and> length (wl_who (cn_awaiting s)) = length ws"
  by (simp add: channel_abs_def)

lemma channel_run:
  assumes "channel_inv s" and "drained d s"
    and "q = length (cn_queue s)" and "ws = length (wl_who (cn_awaiting s))"
  shows "if drains ops d q ws
    then \<exists>s'. Channel_run ops s = (Throw (Undefined_behaviour ''insert behind an erased node''), s')
    else \<exists>s'. Channel_run ops s = (Ret (), s') \<and> channel_inv s' \<and> channel_abs s' = fold spec_op ops (channel_abs s)"
  using assms
proof (induction ops arbitrary: s d q ws)
  case (Cons op ops)
  show ?case
  proof (cases "channel_stuck op s")
    case True
    then obtain c where op: "op = Op_read c" and q: "cn_queue s = []" and w: "\<not> wl_open (cn_awaiting s)"
      by (auto simp: channel_stuck_def)
    with Cons.prems have "d" "ws = 0" "q = 0" by (auto simp: drained_def)
    with op q wl_add_dangling [OF w, of c] show ?thesis
      by (simp add: seqA_def bindA_def Channel_op_def Channel_read_def Channel_await_ready_def Channel_await_suspend_def)
  next
    case False
    from channel_step [OF Cons.prems(1) False] obtain s1 where s1: "Channel_op op s = (Ret (), s1)" "channel_inv s1"
      and abs: "channel_abs s1 = spec_op op (channel_abs s)"
      and opn: "wl_open (cn_awaiting s1) \<longleftrightarrow> wl_open (cn_awaiting s) \<and> (case op of Op_read c \<Rightarrow> True
       | Op_write x \<Rightarrow> wl_who (cn_awaiting s) = [] \<or> wl_who (cn_awaiting s1) \<noteq> [])" .
    define d' q' ws' where "d' = (d \<or> (\<exists>x. op = Op_write x) \<and> ws \<noteq> 0)"
      and "q' = length (cn_queue s1)" and "ws' = length (wl_who (cn_awaiting s1))"
    have "drained d' s1 \<and> drains (op # ops) d q ws = drains ops d' q' ws'"
      using Cons.prems False abs opn
      by (cases op; cases "cn_queue s"; cases "wl_who (cn_awaiting s)")
        (auto simp: drained_def d'_def q'_def ws'_def channel_abs_def channel_stuck_def channel_inv_def)
    with Cons.IH [OF s1(2), of d' q' ws'] s1 abs show ?thesis
      by (auto simp: seqA_def bindA_def q'_def ws'_def split: if_splits)
  qed
qed simp

section \<open>First come, first served\<close>

definition op_reads :: "('c, 'a) channel_op list \<Rightarrow> 'c list" where
  "op_reads ops = concat (map (\<lambda>op. case op of Op_read c \<Rightarrow> [c] | Op_write x \<Rightarrow> []) ops)"

definition op_writes :: "('c, 'a) channel_op list \<Rightarrow> 'a list" where
  "op_writes ops = concat (map (\<lambda>op. case op of Op_read c \<Rightarrow> [] | Op_write x \<Rightarrow> [x]) ops)"

lemma spec_fifo:
  "fold spec_op ops (l, q, ws) = (l', q', ws') \<Longrightarrow> q = [] \<or> ws = [] \<Longrightarrow>
     map snd l' @ q' = map snd l @ q @ op_writes ops \<and> map fst l' @ ws' = map fst l @ ws @ op_reads ops"
proof (induction ops arbitrary: l q ws)
  case (Cons op ops)
  obtain l1 q1 ws1 where 1: "spec_op op (l, q, ws) = (l1, q1, ws1)" by (metis prod_cases3)
  with Cons.prems have "fold spec_op ops (l1, q1, ws1) = (l', q', ws')" by simp
  moreover have "q1 = [] \<or> ws1 = []" using 1 Cons.prems(2) by (cases op; cases q; cases ws) auto
  ultimately show ?case using Cons.IH [of l1 q1 ws1] 1 Cons.prems(2)
    by (cases op; cases q; cases ws) (auto simp: op_reads_def op_writes_def)
qed (simp add: op_reads_def op_writes_def)

section \<open>Properties\<close>

lemma drained_new: "drained False Channel_new"
  by (simp add: drained_def Channel_new_def wl.new_ok)



text \<open>once the last waiting coroutine has been resumed, the iterator behind which the next
  waiter is inserted points to a freed node: the next read that has to wait has no defined
  behaviour.  A consumer that reads in a loop reaches this with its second wait.\<close>

theorem Channel_wait_after_drain_undefined:
  assumes "drains ops False 0 0"
  shows "\<exists>s'. Channel_run ops Channel_new = (Throw (Undefined_behaviour ''insert behind an erased node''), s')"
  using channel_run [OF channel_new_inv(1) drained_new, of 0 0 ops] assms
  by (simp add: channel_new_inv)

theorem Channel_wait_after_drain_undefined_witness:
  "\<exists>s'. Channel_run [Op_read 1, Op_write 5, Op_read 1] (Channel_new :: (int, int) channel) =
    (Throw (Undefined_behaviour ''insert behind an erased node''), s')"
  using Channel_wait_after_drain_undefined [of "[Op_read 1, Op_write 5, Op_read 1] :: (int, int) channel_op list"]
  by (simp del: Channel_run.simps)

end
