(* ===== verification/Future.thy ===== *)
theory Future
  imports Waiters
begin

text \<open>
  Future.hh and the class DeferredFuture of Base.hh.  A future is pending until it is given a value
  or an exception, which happens at most once; the coroutines that await it are then resumed in
  the order in which they began to wait, and each finds the result.
\<close>

section \<open>FutureBase\<close>

text \<open>The variant of FutureBase.value.\<close>

datatype 'a future_value = Pending | Value 'a | Exception exn

text \<open>
  \<open>ft_log\<close> records what each coroutine got from its \<open>co_await\<close>; \<open>ft_once\<close> the coroutines whose
  resumption has been handed to the event loop (DeferredFuture only).
\<close>

record ('c, 'a) future =
  ft_value :: "'a future_value"
  ft_awaiting :: "'c waiters"
  ft_log :: "('c \<times> 'a outcome) list"
  ft_once :: "'c list"

definition Future_new :: "('c, 'a) future" where
  "Future_new = \<lparr>ft_value = Pending, ft_awaiting = waiters_new, ft_log = [], ft_once = []\<rparr>"

text \<open>
  The constructor that takes a value leaves the insertion iterator uninitialised: \<open>it\<close> is
  whatever it holds.
\<close>

definition Future_of_value :: "fl_iterator \<Rightarrow> 'a \<Rightarrow> ('c, 'a) future" where
  "Future_of_value it x = \<lparr>ft_value = Value x, ft_awaiting = waiters_new\<lparr>wl_insert_it := it\<rparr>, ft_log = [], ft_once = []\<rparr>"

definition Future_done :: "('c, 'a) future \<Rightarrow> bool" where
  "Future_done s \<longleftrightarrow> ft_value s \<noteq> Pending"

definition Future_has_result :: "('c, 'a) future \<Rightarrow> bool" where
  "Future_has_result s \<longleftrightarrow> (case ft_value s of Value x \<Rightarrow> True | _ \<Rightarrow> False)"

definition Future_has_exception :: "('c, 'a) future \<Rightarrow> bool" where
  "Future_has_exception s \<longleftrightarrow> (case ft_value s of Exception e \<Rightarrow> True | _ \<Rightarrow> False)"

text \<open>\<open>std::get\<close> of an alternative that is not there throws \<open>bad_variant_access\<close>.\<close>

definition Future_result :: "('c, 'a) future \<Rightarrow> 'a outcome" where
  "Future_result s = (case ft_value s of
     Value x \<Rightarrow> Ret x | Exception e \<Rightarrow> Throw e | Pending \<Rightarrow> Throw Bad_variant_access)"

definition Future_await_suspend :: "'c \<Rightarrow> (('c, 'a) future, unit) act" where
  "Future_await_suspend c = (\<lambda>s. case waiters_add c (ft_awaiting s) of (r, w) \<Rightarrow> (r, s\<lparr>ft_awaiting := w\<rparr>))"

definition Future_await_resume :: "'c \<Rightarrow> (('c, 'a) future, unit) act" where
  "Future_await_resume c = modifyA (\<lambda>s. s\<lparr>ft_log := ft_log s @ [(c, Future_result s)]\<rparr>)"

text \<open>\<open>co_await future\<close> by coroutine \<open>c\<close>, up to the point where it continues or suspends.\<close>

definition Future_await :: "'c \<Rightarrow> (('c, 'a) future, unit) act" where
  "Future_await c = bindA (getsA Future_done) (\<lambda>ready.
     if ready then Future_await_resume c else Future_await_suspend c)"

text \<open>
  The loop takes the nodes off the list one by one; its recursion is on the list.  A resumed
  coroutine cannot add itself again, because the future is done.
\<close>

fun resume_loop :: "(nat \<times> 'c) list \<Rightarrow> (('c, 'a) future, unit) act" where
  "resume_loop [] = retA ()"
| "resume_loop (x # xs) = seqA (modifyA (\<lambda>s. s\<lparr>ft_awaiting := (ft_awaiting s)\<lparr>wl_nodes := xs\<rparr>\<rparr>))
     (seqA (Future_await_resume (snd x)) (resume_loop xs))"

definition Future_resume_awaiters :: "(('c, 'a) future, unit) act" where
  "Future_resume_awaiters = bindA (getsA (\<lambda>s. wl_nodes (ft_awaiting s))) resume_loop"

definition Future_set_result :: "'a \<Rightarrow> (('c, 'a) future, unit) act" where
  "Future_set_result x = bindA (getsA Future_done) (\<lambda>d.
     if d then throwA (Logic_error ''set_result called on done Future'')
     else seqA (modifyA (\<lambda>s. s\<lparr>ft_value := Value x\<rparr>)) Future_resume_awaiters)"

definition Future_set_exception :: "exn \<Rightarrow> (('c, 'a) future, unit) act" where
  "Future_set_exception e = bindA (getsA Future_done) (\<lambda>d.
     if d then throwA (Logic_error ''set_exception called on done Future'')
     else seqA (modifyA (\<lambda>s. s\<lparr>ft_value := Exception e\<rparr>)) Future_resume_awaiters)"

definition Future_cancel :: "(('c, 'a) future, unit) act" where
  "Future_cancel = bindA (getsA Future_done) (\<lambda>d.
     if d then throwA (Logic_error ''set_exception called on done Future'')
     else seqA (modifyA (\<lambda>s. s\<lparr>ft_value := Exception Canceled_error\<rparr>)) Future_resume_awaiters)"

definition Future_destroy :: "(('c, 'a) future, unit) act" where
  "Future_destroy = (\<lambda>s. if \<not> waiters_empty (ft_awaiting s)
     then (Throw (Logic_error ''Future destroyed with awaiters present''), s) else (Ret (), s))"

section \<open>DeferredFuture\<close>

text \<open>
  DeferredFuture declares its own \<open>resume_awaiters\<close>, which hands the waiters to the event loop.
  The member it hides is not virtual, so \<open>set_result\<close>, \<open>set_exception\<close> and \<open>cancel\<close>, inherited from
  FutureBase, call FutureBase's.
\<close>

fun defer_loop :: "(nat \<times> 'c) list \<Rightarrow> (('c, 'a) future, unit) act" where
  "defer_loop [] = retA ()"
| "defer_loop (x # xs) = seqA (modifyA (\<lambda>s. s\<lparr>ft_awaiting := (ft_awaiting s)\<lparr>wl_nodes := xs\<rparr>\<rparr>))
     (seqA (modifyA (\<lambda>s. s\<lparr>ft_once := ft_once s @ [snd x]\<rparr>)) (defer_loop xs))"

definition DeferredFuture_resume_awaiters :: "(('c, 'a) future, unit) act" where
  "DeferredFuture_resume_awaiters = bindA (getsA (\<lambda>s. wl_nodes (ft_awaiting s))) defer_loop"

definition DeferredFuture_set_result :: "'a \<Rightarrow> (('c, 'a) future, unit) act" where
  "DeferredFuture_set_result x = Future_set_result x"

section \<open>Invariant\<close>

text \<open>
  While it is pending, the list of waiters accepts another one and nobody has a result; once it
  is done, nobody waits.
\<close>

definition future_inv :: "('c, 'a) future \<Rightarrow> bool" where
  "future_inv s \<longleftrightarrow> (if Future_done s then waiters_empty (ft_awaiting s)
     else wl_ok (ft_awaiting s) \<and> wl_open (ft_awaiting s) \<and> ft_log s = [])"

lemma future_new_inv: "future_inv Future_new" "future_inv (Future_of_value it x)"
  by (simp_all add: future_inv_def Future_new_def Future_of_value_def Future_done_def waiters_new_def
      waiters_empty_def wl_ok_def wl_open_def)

lemma resume_loop_run:
  "wl_nodes (ft_awaiting s) = xs \<Longrightarrow> resume_loop xs s = (Ret (), s\<lparr>ft_awaiting := (ft_awaiting s)\<lparr>wl_nodes := []\<rparr>,
     ft_log := ft_log s @ map (\<lambda>c. (c, Future_result s)) (map snd xs)\<rparr>)"
proof (induction xs arbitrary: s)
  case (Cons x xs)
  let ?s = "s\<lparr>ft_awaiting := (ft_awaiting s)\<lparr>wl_nodes := xs\<rparr>, ft_log := ft_log s @ [(snd x, Future_result s)]\<rparr>"
  have r: "Future_result ?s = Future_result s"
    "Future_result (s\<lparr>ft_awaiting := (ft_awaiting s)\<lparr>wl_nodes := xs\<rparr>\<rparr>) = Future_result s"
    by (simp_all add: Future_result_def)
  from Cons.IH [of ?s] show ?case
    by (simp add: seqA_def bindA_def Future_await_resume_def r)
qed simp

text \<open>Resolving a pending future, with the value or exception \<open>u\<close>.\<close>

definition resolved :: "'a future_value \<Rightarrow> ('c, 'a) future \<Rightarrow> ('c, 'a) future" where
  "resolved u s = s\<lparr>ft_value := u, ft_awaiting := (ft_awaiting s)\<lparr>wl_nodes := []\<rparr>,
     ft_log := ft_log s @ map (\<lambda>c. (c, Future_result (s\<lparr>ft_value := u\<rparr>))) (wl_who (ft_awaiting s))\<rparr>"

lemma resume_awaiters_run:
  "seqA (modifyA (\<lambda>s. s\<lparr>ft_value := u\<rparr>)) Future_resume_awaiters s = (Ret (), resolved u s)"
  using resume_loop_run [of "s\<lparr>ft_value := u\<rparr>" "wl_nodes (ft_awaiting s)"]
  by (simp add: seqA_def bindA_def Future_resume_awaiters_def resolved_def wl_who_def)

lemma set_run:
  assumes "\<not> Future_done s"
  shows "Future_set_result x s = (Ret (), resolved (Value x) s)"
    and "Future_set_exception e s = (Ret (), resolved (Exception e) s)"
    and "Future_cancel s = (Ret (), resolved (Exception Canceled_error) s)"
  using assms resume_awaiters_run
  by (simp_all add: Future_set_result_def Future_set_exception_def Future_cancel_def bindA_def)

lemma set_done:
  assumes "Future_done s"
  shows "Future_set_result x s = (Throw (Logic_error ''set_result called on done Future''), s)"
    and "Future_set_exception e s = (Throw (Logic_error ''set_exception called on done Future''), s)"
    and "Future_cancel s = (Throw (Logic_error ''set_exception called on done Future''), s)"
  using assms by (simp_all add: Future_set_result_def Future_set_exception_def Future_cancel_def bindA_def)

section \<open>Runs\<close>

datatype ('c, 'a) future_op = Op_await 'c | Op_set_result 'a | Op_set_exception exn | Op_cancel

definition Future_op :: "('c, 'a) future_op \<Rightarrow> (('c, 'a) future, unit) act" where
  "Future_op op = (case op of Op_await c \<Rightarrow> Future_await c | Op_set_result x \<Rightarrow> Future_set_result x
     | Op_set_exception e \<Rightarrow> Future_set_exception e | Op_cancel \<Rightarrow> Future_cancel)"

text \<open>An exception an operation throws is the caller's; the future goes on from the state it left.\<close>

inductive future_reach :: "('c, 'a) future \<Rightarrow> bool" where
  new: "future_reach Future_new"
| step: "future_reach s \<Longrightarrow> future_reach (snd (Future_op op s))"

definition Future_run :: "('c, 'a) future_op list \<Rightarrow> ('c, 'a) future" where
  "Future_run ops = foldl (\<lambda>s op. snd (Future_op op s)) Future_new ops"

lemma Future_run_snoc [simp]: "Future_run (ops @ [op]) = snd (Future_op op (Future_run ops))"
  by (simp add: Future_run_def)

lemma Future_run_reach: "future_reach (Future_run ops)"
  by (induction ops rule: rev_induct) (simp_all add: Future_run_def future_reach.intros)

text \<open>What an operation would resolve the future with, and what the first of several does.\<close>

definition op_value :: "('c, 'a) future_op \<Rightarrow> 'a future_value" where
  "op_value op = (case op of Op_await c \<Rightarrow> Pending | Op_set_result x \<Rightarrow> Value x
     | Op_set_exception e \<Rightarrow> Exception e | Op_cancel \<Rightarrow> Exception Canceled_error)"

definition first_value :: "('c, 'a) future_op list \<Rightarrow> 'a future_value" where
  "first_value ops = (case filter (\<lambda>op. op_value op \<noteq> Pending) ops of [] \<Rightarrow> Pending | op # _ \<Rightarrow> op_value op)"

definition value_outcome :: "'a future_value \<Rightarrow> 'a outcome" where
  "value_outcome u = (case u of Value x \<Rightarrow> Ret x | Exception e \<Rightarrow> Throw e | Pending \<Rightarrow> Throw Bad_variant_access)"

definition op_awaits :: "('c, 'a) future_op list \<Rightarrow> 'c list" where
  "op_awaits ops = concat (map (\<lambda>op. case op of Op_await c \<Rightarrow> [c] | _ \<Rightarrow> []) ops)"

lemma first_value_snoc: "first_value (ops @ [op]) = (if first_value ops = Pending then op_value op else first_value ops)"
proof (cases "filter (\<lambda>op. op_value op \<noteq> Pending) ops")
  case Nil
  then show ?thesis by (auto simp: first_value_def)
next
  case (Cons o1 os)
  then have "o1 \<in> set (filter (\<lambda>op. op_value op \<noteq> Pending) ops)" by simp
  then have "op_value o1 \<noteq> Pending" unfolding set_filter by blast
  with Cons show ?thesis by (simp add: first_value_def)
qed

lemma future_await_run:
  assumes "future_inv s"
  shows "\<exists>s'. Future_await c s = (Ret (), s') \<and> future_inv s' \<and> ft_value s' = ft_value s \<and> ft_once s' = ft_once s \<and>
    (if Future_done s then ft_log s' = ft_log s @ [(c, Future_result s)] \<and> ft_awaiting s' = ft_awaiting s
     else ft_log s' = ft_log s \<and> wl_who (ft_awaiting s') = wl_who (ft_awaiting s) @ [c])"
proof (cases "Future_done s")
  case True
  with assms show ?thesis
    by (simp add: Future_await_def bindA_def Future_await_resume_def future_inv_def Future_done_def)
next
  case False
  with assms wl.add_ok [of "ft_awaiting s" c] obtain w where
    "waiters_add c (ft_awaiting s) = (Ret (), w)" "wl_ok w" "wl_open w" "wl_who w = wl_who (ft_awaiting s) @ [c]"
    by (auto simp: future_inv_def)
  with False assms show ?thesis
    by (simp add: Future_await_def bindA_def Future_await_suspend_def future_inv_def Future_done_def)
qed

lemma future_op_inv: "future_inv s \<Longrightarrow> future_inv (snd (Future_op op s))"
proof (cases op)
  case (Op_await c)
  assume "future_inv s"
  from future_await_run [OF this, of c] Op_await show ?thesis by (auto simp: Future_op_def)
next
  case (Op_set_result x)
  assume "future_inv s"
  then show ?thesis
    by (cases "Future_done s")
      (simp_all add: Op_set_result Future_op_def set_run set_done resolved_def future_inv_def Future_done_def waiters_empty_def)
next
  case (Op_set_exception e)
  assume "future_inv s"
  then show ?thesis
    by (cases "Future_done s")
      (simp_all add: Op_set_exception Future_op_def set_run set_done resolved_def future_inv_def Future_done_def waiters_empty_def)
next
  case Op_cancel
  assume "future_inv s"
  then show ?thesis
    by (cases "Future_done s")
      (simp_all add: Op_cancel Future_op_def set_run set_done resolved_def future_inv_def Future_done_def waiters_empty_def)
qed

lemma future_reach_inv: "future_reach s \<Longrightarrow> future_inv s"
  by (induction rule: future_reach.induct) (simp_all add: future_new_inv future_op_inv)

lemma Future_result_outcome: "Future_result s = value_outcome (ft_value s)"
  by (simp add: Future_result_def value_outcome_def)

text \<open>One operation, as a whole: what it answers and what it leaves.\<close>

definition op_answer :: "('c, 'a) future_op \<Rightarrow> bool \<Rightarrow> unit outcome" where
  "op_answer op d = (if \<not> d then Ret () else (case op of Op_await c \<Rightarrow> Ret ()
     | Op_set_result x \<Rightarrow> Throw (Logic_error ''set_result called on done Future'')
     | Op_set_exception e \<Rightarrow> Throw (Logic_error ''set_exception called on done Future'')
     | Op_cancel \<Rightarrow> Throw (Logic_error ''set_exception called on done Future'')))"

lemma set_op_run:
  assumes "op_value op \<noteq> Pending"
  shows "Future_op op s = (op_answer op (Future_done s), if Future_done s then s else resolved (op_value op) s)"
  using assms by (cases op) (auto simp: Future_op_def op_value_def op_answer_def set_run set_done)

lemma op_value_Pending: "op_value op = Pending \<longleftrightarrow> (\<exists>c. op = Op_await c)"
  by (cases op) (simp_all add: op_value_def)

lemma op_awaits_snoc: "op_awaits (ops @ [op]) = op_awaits ops @ (case op of Op_await c \<Rightarrow> [c] | _ \<Rightarrow> [])"
  by (simp add: op_awaits_def)

lemma op_awaits_set: "op_value op \<noteq> Pending \<Longrightarrow> (case op of Op_await c \<Rightarrow> [c] | _ \<Rightarrow> []) = []"
  by (cases op) (simp_all add: op_value_def)

definition served :: "('c, 'a) future_op list \<Rightarrow> ('c, 'a) future \<Rightarrow> bool" where
  "served ops s \<longleftrightarrow> ft_value s = first_value ops \<and> ft_once s = [] \<and>
     map fst (ft_log s) @ wl_who (ft_awaiting s) = op_awaits ops \<and>
     snd ` set (ft_log s) \<subseteq> {value_outcome (first_value ops)}"

lemma served_step:
  assumes "served ops s" "future_inv s"
  shows "served (ops @ [op]) (snd (Future_op op s))"
proof (cases "op_value op = Pending")
  case True
  then obtain c where [simp]: "op = Op_await c" by (auto simp: op_value_Pending)
  from future_await_run [OF assms(2), of c] obtain s' where "Future_await c s = (Ret (), s')"
    "ft_value s' = ft_value s" "ft_once s' = ft_once s"
    "if Future_done s then ft_log s' = ft_log s @ [(c, Future_result s)] \<and> ft_awaiting s' = ft_awaiting s
     else ft_log s' = ft_log s \<and> wl_who (ft_awaiting s') = wl_who (ft_awaiting s) @ [c]" by blast
  with assms show ?thesis
    by (auto simp: served_def Future_op_def op_awaits_snoc first_value_snoc op_value_def Future_result_outcome
        future_inv_def waiters_empty_def wl_who_def split: if_splits)
next
  case False
  show ?thesis
  proof (cases "Future_done s")
    case True
    with assms False show ?thesis
      by (simp add: set_op_run served_def first_value_snoc op_awaits_snoc op_awaits_set Future_done_def)
  next
    case pend: False
    with assms have "ft_log s = []" by (simp add: future_inv_def)
    with assms False pend show ?thesis
      by (auto simp: set_op_run served_def first_value_snoc op_awaits_snoc op_awaits_set resolved_def
          Future_done_def Future_result_outcome wl_who_def comp_def)
  qed
qed

lemma Future_run_served: "served ops (Future_run ops)"
proof (induction ops rule: rev_induct)
  case Nil
  show ?case by (simp add: served_def Future_run_def Future_new_def first_value_def op_awaits_def wl_who_def waiters_new_def)
next
  case (snoc op ops)
  then show ?case by (simp add: served_step future_reach_inv [OF Future_run_reach])
qed

section \<open>Properties\<close>

text \<open>C13: Take any sequence of awaits, set_result, set_exception and cancel calls on a new future.
  Its value is that of the first set call, whatever came later.  While there is none, every
  awaiting coroutine is suspended, in the order of the calls, and nobody has been resumed; once
  there is one, nobody is left waiting, and every coroutine that awaited, before or after, has been
  resumed exactly once, in order, and has got exactly that value or exception.\<close>

theorem Future_exactly_once:
  "ft_value (Future_run ops) = first_value ops \<and>
   (if first_value ops = Pending
    then ft_log (Future_run ops) = [] \<and> wl_who (ft_awaiting (Future_run ops)) = op_awaits ops
    else waiters_empty (ft_awaiting (Future_run ops)) \<and>
      ft_log (Future_run ops) = map (\<lambda>c. (c, value_outcome (first_value ops))) (op_awaits ops))"
proof (rule conjI)
  let ?s = "Future_run ops"
  have s: "served ops ?s" by (rule Future_run_served)
  have i: "future_inv ?s" by (rule future_reach_inv [OF Future_run_reach])
  from s show "ft_value ?s = first_value ops" by (simp add: served_def)
  from s have "ft_log ?s = map (\<lambda>c. (c, value_outcome (first_value ops))) (map fst (ft_log ?s))"
    by (auto simp: served_def comp_def intro!: map_idI [symmetric])
  moreover have "map fst (ft_log ?s) @ wl_who (ft_awaiting ?s) = op_awaits ops" using s by (simp add: served_def)
  ultimately show "if first_value ops = Pending
   then ft_log ?s = [] \<and> wl_who (ft_awaiting ?s) = op_awaits ops
   else waiters_empty (ft_awaiting ?s) \<and>
     ft_log ?s = map (\<lambda>c. (c, value_outcome (first_value ops))) (op_awaits ops)"
    using s i by (cases "first_value ops = Pending") (auto simp: served_def future_inv_def Future_done_def waiters_empty_def wl_who_def simp del: map_map)
qed

text \<open>On a future in any state its operations can bring it to, an operation never runs into
  undefined behaviour: an await always continues or suspends, and a set call answers normally
  when the future is pending and with logic_error, leaving it exactly as it was, when it is done.\<close>

theorem Future_op_outcome:
  "fst (Future_op op (Future_run ops)) = op_answer op (first_value ops \<noteq> Pending) \<and>
   (if first_value ops \<noteq> Pending \<and> op_value op \<noteq> Pending then Future_run (ops @ [op]) = Future_run ops else True)"
proof (rule conjI)
  have v: "Future_done (Future_run ops) = (first_value ops \<noteq> Pending)"
    using Future_run_served [of ops] by (simp add: served_def Future_done_def)
  show "fst (Future_op op (Future_run ops)) = op_answer op (first_value ops \<noteq> Pending)"
  proof (cases "op_value op = Pending")
    case True
    then obtain c where "op = Op_await c" by (auto simp: op_value_Pending)
    with future_await_run [OF future_reach_inv [OF Future_run_reach], of c ops] show ?thesis
      by (auto simp: Future_op_def op_answer_def)
  qed (simp add: set_op_run v)
  show "if first_value ops \<noteq> Pending \<and> op_value op \<noteq> Pending then Future_run (ops @ [op]) = Future_run ops else True"
    by (auto simp: set_op_run v)
qed

text \<open>set_result on a DeferredFuture with a waiter resumes the waiter before it returns and
  hands nothing to the event loop, although the class defines a \<open>resume_awaiters\<close> that defers: the
  same future, resumed through that member, has the waiter scheduled and not resumed.\<close>

theorem DeferredFuture_set_result_not_deferred:
  fixes c :: 'c and x :: 'a
  shows "ft_log (snd (DeferredFuture_set_result x (Future_run [Op_await c]))) = [(c, Ret x)]"
    and "ft_once (snd (DeferredFuture_set_result x (Future_run [Op_await c]))) = []"
    and "ft_log (snd (DeferredFuture_resume_awaiters (Future_run [Op_await c :: ('c, 'a) future_op]))) = []"
    and "ft_once (snd (DeferredFuture_resume_awaiters (Future_run [Op_await c :: ('c, 'a) future_op]))) = [c]"
proof -
  let ?s = "Future_run [Op_await c] :: ('c, 'a) future"
  have p: "\<not> Future_done ?s" using Future_run_served [of "[Op_await c] :: ('c, 'a) future_op list"]
    by (simp add: served_def first_value_def op_value_def Future_done_def)
  have s: "?s = \<lparr>ft_value = Pending, ft_awaiting = snd (waiters_add c waiters_new), ft_log = [], ft_once = []\<rparr>"
    by (simp add: Future_run_def Future_op_def Future_await_def Future_new_def Future_done_def bindA_def
        Future_await_suspend_def split: prod.split)
  show "ft_log (snd (DeferredFuture_set_result x ?s)) = [(c, Ret x)]" "ft_once (snd (DeferredFuture_set_result x ?s)) = []"
    unfolding DeferredFuture_set_result_def set_run(1) [OF p]
    by (simp_all add: s resolved_def waiters_add_def waiters_new_def emplace_after_def wl_who_def Future_result_def)
  show "ft_log (snd (DeferredFuture_resume_awaiters ?s)) = []" "ft_once (snd (DeferredFuture_resume_awaiters ?s)) = [c]"
    by (simp_all add: s DeferredFuture_resume_awaiters_def bindA_def seqA_def waiters_add_def waiters_new_def emplace_after_def)
qed

end
