(* ===== verification/Task.thy ===== *)
theory Task
  imports Prelude
begin

text \<open>
  Task.hh and Task.cc: tasks, the awaiters on one task and on any of several, the combinators
  \<open>all\<close>, \<open>multi\<close>, \<open>any\<close> and \<open>all_limit\<close>, and detached tasks.  What a task's own code does is a
  parameter: \<open>body i\<close> says whether task \<open>i\<close> returns (or throws) before its first suspension,
  and the event loop ends a suspended task by \<open>finish\<close>, at any time and with any outcome.
\<close>

section \<open>Tasks\<close>

type_synonym coro = nat

text \<open>A value or an exception.\<close>

type_synonym 'a task_result = "exn + 'a"

text \<open>\<open>coro.done()\<close> holds from the moment the promise has its value or exception.\<close>

record 'a task =
  tk_started :: bool
  tk_value :: "'a task_result option"
  tk_awaiting :: "coro option"

type_synonym 'a body = "nat \<Rightarrow> 'a task_result option"

definition Task_new :: "'a task" where
  "Task_new = \<lparr>tk_started = False, tk_value = None, tk_awaiting = None\<rparr>"

definition TaskBase_done :: "'a task list \<Rightarrow> nat \<Rightarrow> bool" where
  "TaskBase_done ts i \<longleftrightarrow> tk_value (ts ! i) \<noteq> None"

definition TaskBase_link :: "nat \<Rightarrow> coro option \<Rightarrow> 'a task list \<Rightarrow> 'a task list" where
  "TaskBase_link i c ts = ts[i := (ts ! i)\<lparr>tk_awaiting := c\<rparr>]"

text \<open>The promise's \<open>result()\<close>; of a task that is not done it is a default-constructed value, \<open>dflt\<close>.\<close>

definition TaskPromise_result :: "'a \<Rightarrow> 'a task \<Rightarrow> 'a task_result" where
  "TaskPromise_result dflt t = (case tk_value t of None \<Rightarrow> Inr dflt | Some r \<Rightarrow> r)"

text \<open>
  The end of a task's body: \<open>return_value\<close> or \<open>unhandled_exception\<close>, then the final awaiter, which
  names the coroutine to be resumed.
\<close>

definition TaskPromise_final :: "nat \<Rightarrow> 'a task_result \<Rightarrow> 'a task list \<Rightarrow> 'a task list \<times> coro option" where
  "TaskPromise_final i r ts = (ts[i := (ts ! i)\<lparr>tk_value := Some r\<rparr>], tk_awaiting (ts ! i))"

definition first_resume :: "'a body \<Rightarrow> nat \<Rightarrow> 'a task list \<Rightarrow> 'a task list \<times> coro option" where
  "first_resume body i ts = (case body i of None \<Rightarrow> (ts, None) | Some r \<Rightarrow> TaskPromise_final i r ts)"

definition TaskBase_start :: "'a body \<Rightarrow> nat \<Rightarrow> 'a task list \<Rightarrow> 'a task list \<times> coro option" where
  "TaskBase_start body i ts = (if tk_started (ts ! i) then (ts, None)
     else first_resume body i (ts[i := (ts ! i)\<lparr>tk_started := True\<rparr>]))"

text \<open>
  \<open>await_suspend\<close> of the awaiter on one task: it links the awaiting coroutine, and transfers control
  to the task when nobody has started it.
\<close>

definition AwaiterBase_await_suspend :: "'a body \<Rightarrow> coro \<Rightarrow> nat \<Rightarrow> 'a task list \<Rightarrow> 'a task list \<times> coro option" where
  "AwaiterBase_await_suspend body c i ts = (let ts1 = TaskBase_link i (Some c) ts in
     if tk_started (ts1 ! i) then (ts1, None)
     else first_resume body i (ts1[i := (ts1 ! i)\<lparr>tk_started := True\<rparr>]))"

section \<open>AnyAwaiter\<close>

type_synonym order = "nat list \<Rightarrow> nat \<Rightarrow> nat"

text \<open>
  The set of tasks is an unordered set, kept as the list of its elements in the order in which the
  container iterates over them.  An insertion may reorder them in any way: \<open>order\<close>, a parameter, gives
  the ranks of the elements in the new order.
\<close>

definition AnyAwaiter_add_task :: "order \<Rightarrow> nat \<Rightarrow> nat list \<Rightarrow> nat list" where
  "AnyAwaiter_add_task order i aw = (if i \<in> set aw then aw else sort_key (order (i # aw)) (i # aw))"

definition AnyAwaiter_num_tasks :: "nat list \<Rightarrow> nat" where
  "AnyAwaiter_num_tasks aw = length aw"

fun AnyAwaiter_await_ready :: "'a task list \<Rightarrow> nat list \<Rightarrow> bool task_result" where
  "AnyAwaiter_await_ready ts [] = Inr False"
| "AnyAwaiter_await_ready ts (i # aw) = (if TaskBase_done ts i then Inr True
     else if \<not> tk_started (ts ! i) then Inl (Logic_error ''all tasks must be started before using AnyAwaiter'')
     else AnyAwaiter_await_ready ts aw)"

definition AnyAwaiter_await_suspend :: "coro \<Rightarrow> nat list \<Rightarrow> 'a task list \<Rightarrow> 'a task list" where
  "AnyAwaiter_await_suspend c aw ts = fold (\<lambda>i. TaskBase_link i (Some c)) aw ts"

text \<open>The loop erases the tasks that are done and unlinks the others; it returns the first done one.\<close>

fun any_resume_loop :: "nat list \<Rightarrow> nat option \<Rightarrow> nat list \<Rightarrow> 'a task list \<Rightarrow> nat option \<times> nat list \<times> 'a task list" where
  "any_resume_loop [] ret kept ts = (ret, kept, ts)"
| "any_resume_loop (i # aw) ret kept ts = (if TaskBase_done ts i
     then any_resume_loop aw (if ret = None then Some i else ret) kept ts
     else any_resume_loop aw ret (kept @ [i]) (TaskBase_link i None ts))"

definition AnyAwaiter_await_resume :: "nat list \<Rightarrow> 'a task list \<Rightarrow> nat task_result \<times> nat list \<times> 'a task list" where
  "AnyAwaiter_await_resume aw ts = (case any_resume_loop aw None [] ts of
     (None, aw', ts') \<Rightarrow> (Inl (Logic_error ''no task resumed during AnyAwaiter suspend''), aw', ts')
   | (Some i, aw', ts') \<Rightarrow> (Inr i, aw', ts'))"

section \<open>The combinators\<close>

text \<open>
  A combinator is a coroutine: it runs until it suspends, returns or throws.  \<open>self\<close> is its handle.
  Resuming a coroutine that is not suspended is undefined behaviour.
\<close>

datatype 'b pc = Suspended | Returned 'b | Threw exn

definition self :: coro where
  "self = 0"

definition bad_resume :: exn where
  "bad_resume = Undefined_behaviour ''resumed a running coroutine''"

fun start_all :: "'a body \<Rightarrow> nat list \<Rightarrow> 'a task list \<Rightarrow> 'a task list task_result" where
  "start_all body [] ts = Inr ts"
| "start_all body (i # is) ts = (case TaskBase_start body i ts of
     (ts', None) \<Rightarrow> start_all body is ts' | (ts', Some c) \<Rightarrow> Inl bad_resume)"

subsection \<open>all and multi\<close>

text \<open>\<open>ws_rest\<close>: the tasks still to be waited for; its head is the one waited for when suspended.\<close>

record 'a wait_state =
  ws_tasks :: "'a task list"
  ws_rest :: "nat list"
  ws_pc :: "unit pc"

fun wait_loop :: "'a body \<Rightarrow> nat list \<Rightarrow> 'a task list \<Rightarrow> 'a wait_state" where
  "wait_loop body [] ts = \<lparr>ws_tasks = ts, ws_rest = [], ws_pc = Returned ()\<rparr>"
| "wait_loop body (i # is) ts = (if TaskBase_done ts i then wait_loop body is ts
     else (case AwaiterBase_await_suspend body self i ts of
       (ts', None) \<Rightarrow> \<lparr>ws_tasks = ts', ws_rest = i # is, ws_pc = Suspended\<rparr>
     | (ts', Some c) \<Rightarrow> wait_loop body is ts'))"

definition start_wait :: "'a body \<Rightarrow> nat list \<Rightarrow> 'a task list \<Rightarrow> 'a wait_state" where
  "start_wait body is ts = (case start_all body [0..<length ts] ts of
     Inr ts' \<Rightarrow> wait_loop body is ts'
   | Inl e \<Rightarrow> \<lparr>ws_tasks = ts, ws_rest = is, ws_pc = Threw e\<rparr>)"

definition all_tasks :: "'a body \<Rightarrow> 'a task list \<Rightarrow> 'a wait_state" where
  "all_tasks body ts = start_wait body [0..<length ts] ts"

text \<open>
  \<open>multi(t, r...)\<close> starts \<open>t\<close>, awaits \<open>multi(r...)\<close>, which starts the rest the same way, and then
  waits for \<open>t\<close>: the tasks are waited for in the reverse order.
\<close>

definition multi_tasks :: "'a body \<Rightarrow> 'a task list \<Rightarrow> 'a wait_state" where
  "multi_tasks body ts = start_wait body (rev [0..<length ts]) ts"

definition wait_finish :: "'a body \<Rightarrow> nat \<Rightarrow> 'a task_result \<Rightarrow> 'a wait_state \<Rightarrow> 'a wait_state" where
  "wait_finish body i r s = (case TaskPromise_final i r (ws_tasks s) of
     (ts, None) \<Rightarrow> s\<lparr>ws_tasks := ts\<rparr>
   | (ts, Some c) \<Rightarrow> if ws_pc s = Suspended then wait_loop body (tl (ws_rest s)) ts
       else s\<lparr>ws_tasks := ts, ws_pc := Threw bad_resume\<rparr>)"

subsection \<open>any and all_limit\<close>

record ('a, 'b) limit_state =
  al_tasks :: "'a task list"
  al_start :: nat
  al_aw :: "nat list"
  al_pc :: "'b pc"

text \<open>\<open>co_await aw\<close>: suspends, or continues with the outcome of \<open>await_resume\<close>.\<close>

definition await_any :: "nat list \<Rightarrow> 'a task list \<Rightarrow> (nat task_result \<times> nat list \<times> 'a task list) option \<times> 'a task list" where
  "await_any aw ts = (case AnyAwaiter_await_ready ts aw of
     Inl e \<Rightarrow> (Some (Inl e, aw, ts), ts)
   | Inr True \<Rightarrow> (Some (AnyAwaiter_await_resume aw ts), ts)
   | Inr False \<Rightarrow> (None, AnyAwaiter_await_suspend self aw ts))"

fun any_start :: "order \<Rightarrow> 'a body \<Rightarrow> nat list \<Rightarrow> nat list \<Rightarrow> 'a task list \<Rightarrow> (nat list \<times> 'a task list) task_result" where
  "any_start order body [] aw ts = Inr (aw, ts)"
| "any_start order body (i # is) aw ts = (case TaskBase_start body i ts of
     (ts', None) \<Rightarrow> any_start order body is (AnyAwaiter_add_task order i aw) ts' | (ts', Some c) \<Rightarrow> Inl bad_resume)"

definition any_return :: "nat task_result \<times> nat list \<times> 'a task list \<Rightarrow> ('a, nat) limit_state" where
  "any_return x = (case x of (r, aw, ts) \<Rightarrow> \<lparr>al_tasks = ts, al_start = length ts, al_aw = aw,
     al_pc = (case r of Inr i \<Rightarrow> Returned i | Inl e \<Rightarrow> Threw e)\<rparr>)"

definition any_task :: "order \<Rightarrow> 'a body \<Rightarrow> 'a task list \<Rightarrow> ('a, nat) limit_state" where
  "any_task order body ts = (case any_start order body [0..<length ts] [] ts of
     Inl e \<Rightarrow> any_return (Inl e, [], ts)
   | Inr (aw, ts') \<Rightarrow> (case await_any aw ts' of
       (Some x, _) \<Rightarrow> any_return x
     | (None, ts'') \<Rightarrow> \<lparr>al_tasks = ts'', al_start = length ts, al_aw = aw, al_pc = Suspended\<rparr>))"

definition any_finish :: "nat \<Rightarrow> 'a task_result \<Rightarrow> ('a, nat) limit_state \<Rightarrow> ('a, nat) limit_state" where
  "any_finish i r s = (case TaskPromise_final i r (al_tasks s) of
     (ts, None) \<Rightarrow> s\<lparr>al_tasks := ts\<rparr>
   | (ts, Some c) \<Rightarrow> if al_pc s = Suspended then any_return (AnyAwaiter_await_resume (al_aw s) ts)
       else s\<lparr>al_tasks := ts, al_pc := Threw bad_resume\<rparr>)"

lemma nth_update_if: "xs[i := x] ! j = (if i = j \<and> i < length xs then x else xs ! j)"
  by (cases "i < length xs") (simp_all add: nth_list_update list_update_beyond)

lemma TaskBase_link_simps [simp]:
  "length (TaskBase_link i c ts) = length ts"
  "TaskBase_done (TaskBase_link i c ts) = TaskBase_done ts"
  "tk_started (TaskBase_link i c ts ! j) = tk_started (ts ! j)"
  "tk_value (TaskBase_link i c ts ! j) = tk_value (ts ! j)"
  "tk_awaiting (TaskBase_link i c ts ! j) = (if j = i \<and> i < length ts then c else tk_awaiting (ts ! j))"
  by (simp_all add: TaskBase_link_def TaskBase_done_def nth_update_if fun_eq_iff)

lemma fold_link_simps [simp]:
  "length (fold (\<lambda>i. TaskBase_link i c) is ts) = length ts"
  "TaskBase_done (fold (\<lambda>i. TaskBase_link i c) is ts) = TaskBase_done ts"
  "tk_started (fold (\<lambda>i. TaskBase_link i c) is ts ! j) = tk_started (ts ! j)"
  "tk_value (fold (\<lambda>i. TaskBase_link i c) is ts ! j) = tk_value (ts ! j)"
  "tk_awaiting (fold (\<lambda>i. TaskBase_link i c) is ts ! j) = (if j \<in> set is \<and> j < length ts then c else tk_awaiting (ts ! j))"
  by (induction "is" arbitrary: ts) auto

lemma TaskBase_start_length: "TaskBase_start body i ts = (ts', c) \<Longrightarrow> length ts' = length ts"
  by (auto simp: TaskBase_start_def first_resume_def TaskPromise_final_def split: if_splits option.splits)

lemma add_task_length: "length (AnyAwaiter_add_task order i aw) \<le> Suc (length aw)"
  by (simp add: AnyAwaiter_add_task_def)

lemma any_resume_loop_eq:
  "any_resume_loop aw ret kept ts =
    ((if ret = None then find (TaskBase_done ts) aw else ret), kept @ filter (\<lambda>i. \<not> TaskBase_done ts i) aw,
     fold (\<lambda>i. TaskBase_link i None) (filter (\<lambda>i. \<not> TaskBase_done ts i) aw) ts)"
  by (induction aw arbitrary: ret kept ts) auto

lemma any_resume_shrinks:
  assumes "AnyAwaiter_await_resume aw ts = (Inr i, aw', ts')"
  shows "length aw' < length aw" "length ts' = length ts"
proof -
  from assms have f: "find (TaskBase_done ts) aw = Some i" and aw': "aw' = filter (\<lambda>i. \<not> TaskBase_done ts i) aw"
    and "length ts' = length ts"
    by (auto simp: AnyAwaiter_await_resume_def any_resume_loop_eq split: prod.splits option.splits)
  from f have "\<exists>j\<in>set aw. TaskBase_done ts j" by (auto simp: find_Some_iff)
  then show "length aw' < length aw" unfolding aw' by (auto intro!: length_filter_less)
  show "length ts' = length ts" by fact
qed

lemma await_any_shrinks:
  "await_any aw ts = (Some (Inr i, aw', ts'), ts'') \<Longrightarrow> length aw' < length aw \<and> length ts' = length ts"
  by (auto simp: await_any_def any_resume_shrinks split: sum.splits bool.splits)

text \<open>\<open>all_limit\<close>: the arguments are the locals \<open>start_it\<close> and \<open>aw\<close>; the iterators are indices.\<close>

function all_limit_loop :: "order \<Rightarrow> 'a body \<Rightarrow> nat \<Rightarrow> nat \<Rightarrow> nat list \<Rightarrow> 'a task list \<Rightarrow> ('a, unit) limit_state" where
  "all_limit_loop order body parallelism start aw ts =
    (if start < length ts \<or> AnyAwaiter_num_tasks aw > 0 then
       if AnyAwaiter_num_tasks aw \<ge> parallelism \<or> \<not> start < length ts then
         (case await_any aw ts of
            (None, ts') \<Rightarrow> \<lparr>al_tasks = ts', al_start = start, al_aw = aw, al_pc = Suspended\<rparr>
          | (Some (Inl e, aw', ts'), _) \<Rightarrow> \<lparr>al_tasks = ts', al_start = start, al_aw = aw', al_pc = Threw e\<rparr>
          | (Some (Inr _, aw', ts'), _) \<Rightarrow> all_limit_loop order body parallelism start aw' ts')
       else
         (case TaskBase_start body start ts of
            (ts', None) \<Rightarrow> all_limit_loop order body parallelism (Suc start) (AnyAwaiter_add_task order start aw) ts'
          | (ts', Some c) \<Rightarrow> \<lparr>al_tasks = ts', al_start = start, al_aw = aw, al_pc = Threw bad_resume\<rparr>)
     else \<lparr>al_tasks = ts, al_start = start, al_aw = aw, al_pc = Returned ()\<rparr>)"
  by pat_completeness auto

termination
proof (relation "measure (\<lambda>(_, _, _, start, aw, ts). 2 * (length ts - start) + length aw)", goal_cases)
  case (3 order body parallelism start aw ts ts' c)
  then have "length ts' = length ts" by (metis TaskBase_start_length)
  with 3 add_task_length [of order start aw] show ?case by auto
qed (auto dest!: sym [THEN await_any_shrinks])

declare all_limit_loop.simps [simp del]

definition all_limit :: "order \<Rightarrow> 'a body \<Rightarrow> nat \<Rightarrow> 'a task list \<Rightarrow> ('a, unit) limit_state" where
  "all_limit order body parallelism ts = all_limit_loop order body parallelism 0 [] ts"

text \<open>The event loop ends task \<open>i\<close>; the final awaiter resumes the combinator if it is linked.\<close>

definition all_limit_finish :: "order \<Rightarrow> 'a body \<Rightarrow> nat \<Rightarrow> nat \<Rightarrow> 'a task_result \<Rightarrow> ('a, unit) limit_state \<Rightarrow> ('a, unit) limit_state" where
  "all_limit_finish order body parallelism i r s = (case TaskPromise_final i r (al_tasks s) of
     (ts, None) \<Rightarrow> s\<lparr>al_tasks := ts\<rparr>
   | (ts, Some c) \<Rightarrow> if al_pc s = Suspended then (case AnyAwaiter_await_resume (al_aw s) ts of
         (Inr _, aw', ts') \<Rightarrow> all_limit_loop order body parallelism (al_start s) aw' ts'
       | (Inl e, aw', ts') \<Rightarrow> s\<lparr>al_tasks := ts', al_aw := aw', al_pc := Threw e\<rparr>)
       else s\<lparr>al_tasks := ts, al_pc := Threw bad_resume\<rparr>)"

section \<open>Detached tasks\<close>

text \<open>
  \<open>dt_destroys\<close> counts the calls of \<open>coro.destroy()\<close>; the atomic flag starts false.
\<close>

record detached =
  dt_destroyed :: bool
  dt_destroys :: nat

definition DetachedTaskCoroutine_new :: detached where
  "DetachedTaskCoroutine_new = \<lparr>dt_destroyed = False, dt_destroys = 0\<rparr>"

definition DetachedTaskCoroutine_cancel :: "(detached, bool) act" where
  "DetachedTaskCoroutine_cancel = bindA (getsA (\<lambda>s. \<not> dt_destroyed s)) (\<lambda>should_destroy.
     seqA (modifyA (\<lambda>s. s\<lparr>dt_destroyed := True\<rparr>))
       (seqA (whenA should_destroy (modifyA (\<lambda>s. s\<lparr>dt_destroys := dt_destroys s + 1\<rparr>)))
         (retA should_destroy)))"

definition DetachedTask_cancel :: "(detached, bool) act" where
  "DetachedTask_cancel = DetachedTaskCoroutine_cancel"

definition DetachedTask_final_await_suspend :: "(detached, unit) act" where
  "DetachedTask_final_await_suspend = seqA DetachedTaskCoroutine_cancel (retA ())"


section \<open>Groups of tasks\<close>

definition running :: "'a task list \<Rightarrow> nat \<Rightarrow> bool" where
  "running ts i \<longleftrightarrow> i < length ts \<and> tk_started (ts ! i) \<and> \<not> TaskBase_done ts i"

definition undone :: "'a task list \<Rightarrow> nat" where
  "undone ts = length (filter (\<lambda>t. tk_value t = None) ts)"

text \<open>
  A sequence of ends of tasks that can happen: each task is running when it ends.  \<open>tasks\<close> selects
  the tasks of a combinator's state and \<open>finish\<close> is its step.
\<close>

fun possible :: "('s \<Rightarrow> 'a task list) \<Rightarrow> (nat \<Rightarrow> 'a task_result \<Rightarrow> 's \<Rightarrow> 's) \<Rightarrow> (nat \<times> 'a task_result) list \<Rightarrow> 's \<Rightarrow> bool" where
  "possible tasks finish [] s = True"
| "possible tasks finish ((i, r) # es) s = (running (tasks s) i \<and> possible tasks finish es (finish i r s))"

definition after :: "(nat \<Rightarrow> 'a task_result \<Rightarrow> 's \<Rightarrow> 's) \<Rightarrow> (nat \<times> 'a task_result) list \<Rightarrow> 's \<Rightarrow> 's" where
  "after finish es s = fold (\<lambda>(i, r). finish i r) es s"

lemma after_simps [simp]: "after finish [] s = s" "after finish ((i, r) # es) s = after finish es (finish i r s)"
  by (simp_all add: after_def)

text \<open>
  The contract of a combinator that joins its tasks: while it has not returned some task is
  running, the end of a task brings it closer to its return, what a task ended with is kept, and
  when it has returned all its tasks are done.
\<close>

locale task_group =
  fixes tasks :: "'s \<Rightarrow> 'a task list"
    and returned :: "'s \<Rightarrow> bool"
    and ginv :: "'s \<Rightarrow> bool"
    and finish :: "nat \<Rightarrow> 'a task_result \<Rightarrow> 's \<Rightarrow> 's"
  assumes finish_inv: "ginv s \<Longrightarrow> running (tasks s) i \<Longrightarrow> ginv (finish i r s)"
    and finish_undone: "ginv s \<Longrightarrow> running (tasks s) i \<Longrightarrow> undone (tasks (finish i r s)) < undone (tasks s)"
    and finish_value: "ginv s \<Longrightarrow> running (tasks s) i \<Longrightarrow> tk_value (tasks (finish i r s) ! i) = Some r"
    and finish_keeps: "ginv s \<Longrightarrow> running (tasks s) i \<Longrightarrow> TaskBase_done (tasks s) j \<Longrightarrow>
      tk_value (tasks (finish i r s) ! j) = tk_value (tasks s ! j)"
    and progress: "ginv s \<Longrightarrow> \<not> returned s \<Longrightarrow> \<exists>i. running (tasks s) i"
    and joined: "ginv s \<Longrightarrow> returned s \<Longrightarrow> undone (tasks s) = 0"
begin

lemma after_inv: "ginv s \<Longrightarrow> possible tasks finish es s \<Longrightarrow> ginv (after finish es s)"
  by (induction es arbitrary: s) (auto simp: finish_inv)

lemma run_bounded: "ginv s \<Longrightarrow> possible tasks finish es s \<Longrightarrow> length es + undone (tasks (after finish es s)) \<le> undone (tasks s)"
proof (induction es arbitrary: s)
  case (Cons e es)
  obtain i r where e: "e = (i, r)" by force
  with Cons.prems have "running (tasks s) i" "possible tasks finish es (finish i r s)" by simp_all
  with Cons e finish_undone [of s i r] finish_inv [of s i r] show ?case
    by (metis (no_types, lifting) Suc_leI add_Suc after_simps(2) le_trans length_Cons not_less_eq_eq)
qed simp

lemma keeps_value:
  "ginv s \<Longrightarrow> possible tasks finish es s \<Longrightarrow> TaskBase_done (tasks s) j \<Longrightarrow> tk_value (tasks (after finish es s) ! j) = tk_value (tasks s ! j)"
proof (induction es arbitrary: s)
  case (Cons e es)
  obtain i r where e: "e = (i, r)" by force
  with Cons.prems have run: "running (tasks s) i" "possible tasks finish es (finish i r s)" by simp_all
  have "tk_value (tasks (finish i r s) ! j) = tk_value (tasks s ! j)" using finish_keeps [OF Cons.prems(1) run(1) Cons.prems(3)] .
  with Cons.IH [OF finish_inv [OF Cons.prems(1) run(1)] run(2)] Cons.prems(3) e show ?case
    by (simp add: TaskBase_done_def)
qed simp

lemma value_of_end: "ginv s \<Longrightarrow> possible tasks finish es s \<Longrightarrow> (i, r) \<in> set es \<Longrightarrow> tk_value (tasks (after finish es s) ! i) = Some r"
proof (induction es arbitrary: s)
  case (Cons e es)
  obtain j q where e: "e = (j, q)" by force
  with Cons.prems have run: "running (tasks s) j" "possible tasks finish es (finish j q s)" by simp_all
  note i = finish_inv [OF Cons.prems(1) run(1), of q]
  from e Cons.prems(3) consider "i = j" "r = q" | "(i, r) \<in> set es" by auto
  then show ?case
  proof cases
    case 1
    with finish_value [OF Cons.prems(1) run(1), of q] keeps_value [OF i run(2), of i] e show ?thesis
      by (simp add: TaskBase_done_def)
  qed (use Cons.IH [OF i run(2)] e in simp)
qed simp

text \<open>
  However the tasks end, the group returns after at most as many ends as there are unfinished
  tasks; it has not returned while a task is unfinished, and it returns as soon as nothing runs.
\<close>

lemma joins:
  assumes "ginv s" "possible tasks finish es s"
  shows "length es \<le> undone (tasks s)"
    and "returned (after finish es s) \<longleftrightarrow> undone (tasks (after finish es s)) = 0"
    and "returned (after finish es s) \<or> (\<exists>i r. possible tasks finish (es @ [(i, r)]) s)"
proof -
  show "length es \<le> undone (tasks s)" using run_bounded [OF assms] by simp
  have i: "ginv (after finish es s)" by (rule after_inv [OF assms])
  have none: "undone ts = 0 \<Longrightarrow> \<not> running ts i" for ts :: "'a task list" and i
    by (auto simp: undone_def running_def TaskBase_done_def filter_empty_conv)
  show "returned (after finish es s) \<longleftrightarrow> undone (tasks (after finish es s)) = 0"
    using joined [OF i] progress [OF i] none by blast
  have app: "possible tasks finish (es @ [(j, q)]) s \<longleftrightarrow> possible tasks finish es s \<and> running (tasks (after finish es s)) j" for j q
    by (induction es arbitrary: s) auto
  show "returned (after finish es s) \<or> (\<exists>i r. possible tasks finish (es @ [(i, r)]) s)"
    using progress [OF i] assms(2) app by blast
qed

end


section \<open>all and multi join their tasks\<close>

lemma nth_final: "TaskPromise_final i r ts = (ts', c) \<Longrightarrow> length ts' = length ts \<and> c = tk_awaiting (ts ! i) \<and>
    (\<forall>j. tk_started (ts' ! j) = tk_started (ts ! j) \<and> tk_awaiting (ts' ! j) = tk_awaiting (ts ! j) \<and>
      tk_value (ts' ! j) = (if j = i \<and> i < length ts then Some r else tk_value (ts ! j)))"
  by (auto simp: TaskPromise_final_def nth_update_if)

lemma undone_card: "undone ts = card {j. j < length ts \<and> \<not> TaskBase_done ts j}"
  by (simp add: undone_def TaskBase_done_def length_filter_conv_card)

lemma undone_le_length: "undone ts \<le> length ts"
  by (simp add: undone_def)

lemma undone_less:
  assumes "length ts' = length ts" "\<And>j. TaskBase_done ts j \<Longrightarrow> TaskBase_done ts' j"
    and "running ts i" "TaskBase_done ts' i"
  shows "undone ts' < undone ts"
  unfolding undone_card by (rule psubset_card_mono) (use assms in \<open>auto simp: running_def\<close>)

lemma undone_0: "undone ts = 0 \<longleftrightarrow> (\<forall>i<length ts. TaskBase_done ts i)"
  by (auto simp: undone_def TaskBase_done_def filter_empty_conv all_set_conv_all_nth)

text \<open>What the combinators keep of the tasks when they run: nothing is lost, no result changes.\<close>

definition tasks_le :: "'a task list \<Rightarrow> 'a task list \<Rightarrow> bool" where
  "tasks_le ts ts' \<longleftrightarrow> length ts' = length ts \<and> (\<forall>j. TaskBase_done ts j \<longrightarrow> tk_value (ts' ! j) = tk_value (ts ! j))"

lemma tasks_le_refl [simp]: "tasks_le ts ts"
  by (simp add: tasks_le_def)

lemma tasks_le_trans: "tasks_le ts us \<Longrightarrow> tasks_le us vs \<Longrightarrow> tasks_le ts vs"
  by (auto simp: tasks_le_def TaskBase_done_def)

lemma tasks_le_done: "tasks_le ts ts' \<Longrightarrow> TaskBase_done ts j \<Longrightarrow> TaskBase_done ts' j"
  by (auto simp: tasks_le_def TaskBase_done_def)

lemma tasks_le_final: "TaskPromise_final i r ts = (ts', c) \<Longrightarrow> running ts i \<Longrightarrow> tasks_le ts ts'"
  by (auto simp: tasks_le_def TaskPromise_final_def nth_update_if running_def)

lemma tasks_le_final_value: "TaskPromise_final i r ts = (ts', c) \<Longrightarrow> running ts i \<Longrightarrow> tk_value (ts' ! i) = Some r"
  by (auto simp: TaskPromise_final_def nth_update_if running_def)

lemma tasks_le_undone:
  assumes "tasks_le ts ts'" "running ts i" "TaskBase_done ts' i"
  shows "undone ts' < undone ts"
  using assms by (intro undone_less [of ts' ts i]) (auto simp: tasks_le_done, simp add: tasks_le_def)

definition unlinked :: "'a task list \<Rightarrow> bool" where
  "unlinked ts \<longleftrightarrow> (\<forall>j<length ts. TaskBase_done ts j \<or> tk_awaiting (ts ! j) = None)"

definition all_started :: "'a task list \<Rightarrow> bool" where
  "all_started ts \<longleftrightarrow> (\<forall>j<length ts. tk_started (ts ! j))"

definition wait_inv :: "'a wait_state \<Rightarrow> bool" where
  "wait_inv s \<longleftrightarrow> all_started (ws_tasks s) \<and> (case ws_pc s of
     Returned _ \<Rightarrow> undone (ws_tasks s) = 0
   | Threw _ \<Rightarrow> False
   | Suspended \<Rightarrow> (\<exists>i is. ws_rest s = i # is \<and> running (ws_tasks s) i \<and> tk_awaiting (ws_tasks s ! i) = Some self \<and>
       (\<forall>j. running (ws_tasks s) j \<longrightarrow> j \<in> set (i # is) \<and> (j \<noteq> i \<longrightarrow> tk_awaiting (ws_tasks s ! j) = None)) \<and>
       set is \<subseteq> {..<length (ws_tasks s)}))"

lemma wait_loop_inv:
  assumes "all_started ts" "unlinked ts" "\<And>j. running ts j \<Longrightarrow> j \<in> set is" "set is \<subseteq> {..<length ts}"
  shows "wait_inv (wait_loop body is ts) \<and> tasks_le ts (ws_tasks (wait_loop body is ts))"
  using assms
proof (induction "is")
  case Nil
  then show ?case by (auto simp: wait_inv_def undone_0 running_def all_started_def)
next
  case (Cons i "is")
  show ?case
  proof (cases "TaskBase_done ts i")
    case True
    with Cons show ?thesis by (fastforce simp: running_def)
  next
    case False
    with Cons.prems have st: "tk_started (ts ! i)" "i < length ts" by (simp_all add: all_started_def)
    with False have "wait_loop body (i # is) ts = \<lparr>ws_tasks = TaskBase_link i (Some self) ts, ws_rest = i # is, ws_pc = Suspended\<rparr>"
      by (simp add: AwaiterBase_await_suspend_def Let_def)
    with Cons.prems False st show ?thesis
      by (auto simp: wait_inv_def all_started_def running_def unlinked_def tasks_le_def)
  qed
qed

lemma wait_finish_run:
  assumes inv: "wait_inv s" and run: "running (ws_tasks s) i"
  shows "wait_inv (wait_finish body i r s) \<and> tasks_le (ws_tasks s) (ws_tasks (wait_finish body i r s)) \<and>
    tk_value (ws_tasks (wait_finish body i r s) ! i) = Some r"
proof -
  obtain ts c where f: "TaskPromise_final i r (ws_tasks s) = (ts, c)" by force
  note n = nth_final [OF f] and le = tasks_le_final [OF f run] and v = tasks_le_final_value [OF f run]
  from inv run have "ws_pc s = Suspended" by (auto simp: wait_inv_def undone_0 running_def split: pc.splits)
  with inv obtain k ks where s: "ws_rest s = k # ks" "running (ws_tasks s) k" "tk_awaiting (ws_tasks s ! k) = Some self"
    "\<And>j. running (ws_tasks s) j \<Longrightarrow> j \<in> set (k # ks) \<and> (j \<noteq> k \<longrightarrow> tk_awaiting (ws_tasks s ! j) = None)"
    "set ks \<subseteq> {..<length (ws_tasks s)}" "all_started (ws_tasks s)" "ws_pc s = Suspended"
    by (auto simp: wait_inv_def)
  have st: "all_started ts" using s(6) n by (simp add: all_started_def)
  have run': "running ts j \<Longrightarrow> running (ws_tasks s) j \<and> j \<noteq> i" for j
    using n run by (auto simp: running_def TaskBase_done_def split: if_splits)
  show ?thesis
  proof (cases "i = k")
    case True
    have "unlinked ts" unfolding unlinked_def using n s(4) run' st True by (metis all_started_def running_def)
    moreover have "running ts j \<Longrightarrow> j \<in> set ks" for j using run' [of j] s(4) True by auto
    ultimately have "wait_inv (wait_loop body ks ts) \<and> tasks_le ts (ws_tasks (wait_loop body ks ts))"
      using wait_loop_inv [OF st] s(5) n by simp
    moreover from f s True n have "wait_finish body i r s = wait_loop body ks ts" by (simp add: wait_finish_def)
    ultimately show ?thesis using le v by (auto intro: tasks_le_trans simp: tasks_le_def TaskBase_done_def)
  next
    case False
    with s run n f have w: "wait_finish body i r s = s\<lparr>ws_tasks := ts\<rparr>" by (auto simp: wait_finish_def)
    have "running ts k" using s(2) n False by (auto simp: running_def TaskBase_done_def)
    with s n st run' have "wait_inv (s\<lparr>ws_tasks := ts\<rparr>)" by (auto simp: wait_inv_def)
    with w le v show ?thesis by simp
  qed
qed

definition ws_returned :: "'a wait_state \<Rightarrow> bool" where
  "ws_returned s \<longleftrightarrow> (ws_pc s = Returned ())"

interpretation waitg: task_group ws_tasks ws_returned wait_inv "wait_finish body" for body
proof
  fix s :: "'a wait_state" and i j r
  assume i: "wait_inv s"
  show "running (ws_tasks s) i \<Longrightarrow> wait_inv (wait_finish body i r s)"
    and "running (ws_tasks s) i \<Longrightarrow> tk_value (ws_tasks (wait_finish body i r s) ! i) = Some r"
    and "running (ws_tasks s) i \<Longrightarrow> TaskBase_done (ws_tasks s) j \<Longrightarrow>
      tk_value (ws_tasks (wait_finish body i r s) ! j) = tk_value (ws_tasks s ! j)"
    and "running (ws_tasks s) i \<Longrightarrow> undone (ws_tasks (wait_finish body i r s)) < undone (ws_tasks s)"
    using wait_finish_run [OF i, of i body r] by (auto simp: tasks_le_def TaskBase_done_def intro: tasks_le_undone)
  show "\<not> ws_returned s \<Longrightarrow> \<exists>i. running (ws_tasks s) i" "ws_returned s \<Longrightarrow> undone (ws_tasks s) = 0"
    using i by (auto simp: wait_inv_def ws_returned_def split: pc.splits)
qed


lemma TaskBase_start_run:
  assumes "i < length ts" "TaskBase_done ts i \<or> tk_awaiting (ts ! i) = None" "TaskBase_done ts i \<longrightarrow> tk_started (ts ! i)"
  obtains ts' where "TaskBase_start body i ts = (ts', None)" "tasks_le ts ts'" "length ts' = length ts"
    "\<And>j. tk_awaiting (ts' ! j) = tk_awaiting (ts ! j)"
    "\<And>j. tk_started (ts' ! j) = (tk_started (ts ! j) \<or> j = i)"
    "\<And>j. TaskBase_done ts' j \<Longrightarrow> TaskBase_done ts j \<or> j = i"
    "\<And>j. tk_value (ts' ! j) = (if j = i \<and> \<not> tk_started (ts ! i) then body i else tk_value (ts ! j))"
proof (cases "tk_started (ts ! i)")
  case True
  then show ?thesis by (intro that [of ts]) (auto simp: TaskBase_start_def)
next
  case False
  with assms have nd: "tk_value (ts ! i) = None" "tk_awaiting (ts ! i) = None" by (auto simp: TaskBase_done_def)
  define ts' where "ts' = ts[i := (ts ! i)\<lparr>tk_started := True, tk_value := body i\<rparr>]"
  have "TaskBase_start body i ts = (ts', None)"
    using False assms(1) nd
    by (cases "body i"; cases "ts ! i") (auto simp: TaskBase_start_def first_resume_def TaskPromise_final_def ts'_def)
  with False assms(1) nd show ?thesis
    by (intro that [of ts']) (auto simp: ts'_def tasks_le_def TaskBase_done_def nth_update_if)
qed

text \<open>Tasks as a combinator may be given them: nobody waits for them; some may have been started.\<close>

definition idle :: "'a task list \<Rightarrow> bool" where
  "idle ts \<longleftrightarrow> (\<forall>t\<in>set ts. tk_awaiting t = None \<and> (tk_value t \<noteq> None \<longrightarrow> tk_started t))"

lemma start_all_run:
  assumes "idle ts" "set is \<subseteq> {..<length ts}"
  obtains ts' where "start_all body is ts = Inr ts'" "idle ts'" "tasks_le ts ts'" "\<forall>i\<in>set is. tk_started (ts' ! i)"
    "\<forall>i. tk_started (ts ! i) \<longrightarrow> tk_started (ts' ! i)"
  using assms
proof (induction "is" arbitrary: ts thesis)
  case (Cons i "is")
  from Cons.prems have i: "i < length ts" "tk_awaiting (ts ! i) = None" "TaskBase_done ts i \<longrightarrow> tk_started (ts ! i)"
    by (auto simp: idle_def TaskBase_done_def)
  obtain us where us: "TaskBase_start body i ts = (us, None)" "tasks_le ts us" "length us = length ts"
    "\<And>j. tk_awaiting (us ! j) = tk_awaiting (ts ! j)"
    "\<And>j. tk_started (us ! j) = (tk_started (ts ! j) \<or> j = i)"
    "\<And>j. TaskBase_done us j \<Longrightarrow> TaskBase_done ts j \<or> j = i"
    by (rule TaskBase_start_run [of i ts body]) (use i in auto)
  from us Cons.prems(2) have "idle us"
    by (fastforce simp: idle_def all_set_conv_all_nth TaskBase_done_def)
  with Cons.IH [of us] Cons.prems(3) us(3) obtain vs where "start_all body is us = Inr vs" "idle vs" "tasks_le us vs"
    "\<forall>i\<in>set is. tk_started (vs ! i)" "\<forall>i. tk_started (us ! i) \<longrightarrow> tk_started (vs ! i)" by auto
  with us show ?case by (intro Cons.prems(1) [of vs]) (auto intro: tasks_le_trans)
qed auto

lemma start_wait_inv:
  assumes "idle ts" "set is = {..<length ts}"
  shows "wait_inv (start_wait body is ts) \<and> tasks_le ts (ws_tasks (start_wait body is ts))"
proof -
  obtain ts' where t: "start_all body [0..<length ts] ts = Inr ts'" "idle ts'" "tasks_le ts ts'" "\<forall>i\<in>set [0..<length ts]. tk_started (ts' ! i)"
    by (rule start_all_run [of ts "[0..<length ts]" body]) (use assms in auto)
  then have "all_started ts'" "unlinked ts'" by (simp_all add: all_started_def unlinked_def idle_def tasks_le_def)
  with wait_loop_inv [of ts' "is" body] t(1,3) assms(2) show ?thesis
    by (auto simp: start_wait_def running_def tasks_le_def TaskBase_done_def)
qed

lemma all_multi_inv:
  assumes "idle ts"
  shows "wait_inv (all_tasks body ts) \<and> tasks_le ts (ws_tasks (all_tasks body ts))"
    and "wait_inv (multi_tasks body ts) \<and> tasks_le ts (ws_tasks (multi_tasks body ts))"
  using start_wait_inv [OF assms] by (auto simp: all_tasks_def multi_tasks_def atLeast_upt)

section \<open>all_limit joins its tasks\<close>

text \<open>What holds at the head of the loop, for tasks none of which had been started.\<close>

definition limit_head :: "nat \<Rightarrow> nat \<Rightarrow> nat list \<Rightarrow> 'a task list \<Rightarrow> bool" where
  "limit_head p start aw ts \<longleftrightarrow> start \<le> length ts \<and> distinct aw \<and> set aw \<subseteq> {..<start} \<and> length aw \<le> p \<and>
     (\<forall>i<length ts. tk_started (ts ! i) \<longleftrightarrow> i < start) \<and> (\<forall>i<length ts. TaskBase_done ts i \<longrightarrow> i < start) \<and>
     (\<forall>i < start. i \<in> set aw \<or> TaskBase_done ts i) \<and> (\<forall>i<length ts. start \<le> i \<longrightarrow> tk_awaiting (ts ! i) = None)"

definition limit_inv :: "nat \<Rightarrow> ('a, unit) limit_state \<Rightarrow> bool" where
  "limit_inv p s \<longleftrightarrow> limit_head p (al_start s) (al_aw s) (al_tasks s) \<and> (case al_pc s of
     Threw _ \<Rightarrow> False
   | Returned _ \<Rightarrow> al_start s = length (al_tasks s) \<and> al_aw s = []
   | Suspended \<Rightarrow> al_aw s \<noteq> [] \<and> (\<forall>i\<in>set (al_aw s). \<not> TaskBase_done (al_tasks s) i \<and> tk_awaiting (al_tasks s ! i) = Some self))"

lemma await_ready_started:
  "(\<forall>i\<in>set aw. tk_started (ts ! i)) \<Longrightarrow> AnyAwaiter_await_ready ts aw = Inr (\<exists>i\<in>set aw. TaskBase_done ts i)"
  by (induction aw) auto

lemma await_resume_done:
  assumes "i \<in> set aw" "TaskBase_done ts i"
  shows "\<exists>k. k \<in> set aw \<and> TaskBase_done ts k \<and> AnyAwaiter_await_resume aw ts =
    (Inr k, filter (\<lambda>i. \<not> TaskBase_done ts i) aw, fold (\<lambda>i. TaskBase_link i None) (filter (\<lambda>i. \<not> TaskBase_done ts i) aw) ts)"
proof -
  from assms obtain k where "find (TaskBase_done ts) aw = Some k" by (cases "find (TaskBase_done ts) aw") (auto simp: find_None_iff)
  moreover from this have "k \<in> set aw" "TaskBase_done ts k" by (auto simp: find_Some_iff)
  ultimately show ?thesis by (simp add: AnyAwaiter_await_resume_def any_resume_loop_eq)
qed

lemma limit_head_resume:
  assumes "limit_head p start aw ts"
  shows "limit_head p start (filter (\<lambda>i. \<not> TaskBase_done ts i) aw) (fold (\<lambda>i. TaskBase_link i None) (filter (\<lambda>i. \<not> TaskBase_done ts i) aw) ts)"
  using assms by (auto simp: limit_head_def intro: le_trans [OF length_filter_le])

lemma limit_head_start:
  assumes h: "limit_head p start aw ts" "unlinked ts" and lt: "start < length ts" "length aw < p"
  obtains ts' where "TaskBase_start body start ts = (ts', None)" "limit_head p (Suc start) (AnyAwaiter_add_task order start aw) ts'"
    "unlinked ts'" "tasks_le ts ts'"
proof -
  from h lt have i: "\<not> tk_started (ts ! start)" "\<not> TaskBase_done ts start" "tk_awaiting (ts ! start) = None"
    by (auto simp: limit_head_def unlinked_def)
  obtain us where us: "TaskBase_start body start ts = (us, None)" "tasks_le ts us" "length us = length ts"
    "\<And>j. tk_awaiting (us ! j) = tk_awaiting (ts ! j)"
    "\<And>j. tk_started (us ! j) = (tk_started (ts ! j) \<or> j = start)"
    "\<And>j. TaskBase_done us j \<Longrightarrow> TaskBase_done ts j \<or> j = start"
    by (rule TaskBase_start_run [of start ts body]) (use i lt in auto)
  have nin: "start \<notin> set aw" using h by (auto simp: limit_head_def)
  then have aw: "set (AnyAwaiter_add_task order start aw) = insert start (set aw)" "distinct (AnyAwaiter_add_task order start aw) = distinct aw"
    "length (AnyAwaiter_add_task order start aw) = Suc (length aw)"
    by (simp_all add: AnyAwaiter_add_task_def set_insort_key distinct_insort)
  have "limit_head p (Suc start) (AnyAwaiter_add_task order start aw) us"
    using h(1) lt us(3,4,5) tasks_le_done [OF us(2)] unfolding limit_head_def aw by (auto simp: less_Suc_eq dest!: us(6))
  moreover have "unlinked us" using h(2) us(3,4) tasks_le_done [OF us(2)] by (auto simp: unlinked_def)
  ultimately show ?thesis using that us(1,2) by blast
qed

lemma all_limit_loop_inv:
  assumes "limit_head p start aw ts" "unlinked ts" "0 < p"
  shows "limit_inv p (all_limit_loop order body p start aw ts) \<and> tasks_le ts (al_tasks (all_limit_loop order body p start aw ts))"
  using assms
proof (induction order body p start aw ts rule: all_limit_loop.induct)
  case (1 order body p start aw ts)
  note h = 1(3,4,5)
  consider "\<not> start < length ts" "aw = []"
    | (start) "start < length ts" "length aw < p"
    | (wait) "length aw \<ge> p \<or> \<not> start < length ts" "start < length ts \<or> aw \<noteq> []" by fastforce
  then show ?case
  proof cases
    case 1
    then have "all_limit_loop order body p start aw ts = \<lparr>al_tasks = ts, al_start = start, al_aw = aw, al_pc = Returned ()\<rparr>"
      by (subst all_limit_loop.simps) (simp add: AnyAwaiter_num_tasks_def)
    with h 1 show ?thesis by (simp add: limit_inv_def) (simp add: limit_head_def)
  next
    case start
    obtain us where us: "TaskBase_start body start ts = (us, None)" "limit_head p (Suc start) (AnyAwaiter_add_task order start aw) us"
      "unlinked us" "tasks_le ts us"
      using limit_head_start [OF h(1,2) start] by metis
    moreover have "all_limit_loop order body p start aw ts = all_limit_loop order body p (Suc start) (AnyAwaiter_add_task order start aw) us"
      using start us(1) by (subst all_limit_loop.simps) (simp add: AnyAwaiter_num_tasks_def)
    ultimately show ?thesis using "1"(2) [OF _ _ us(1) [symmetric]] start h(3)
      by (auto simp: AnyAwaiter_num_tasks_def intro: tasks_le_trans)
  next
    case wait
    with h(3) have ne: "aw \<noteq> []" by auto
    have st: "\<forall>i\<in>set aw. tk_started (ts ! i)" "set aw \<subseteq> {..<length ts}" using h(1) by (auto simp: limit_head_def)
    show ?thesis
    proof (cases "\<exists>i\<in>set aw. TaskBase_done ts i")
      case True
      let ?aw = "filter (\<lambda>i. \<not> TaskBase_done ts i) aw" and ?ts = "fold (\<lambda>i. TaskBase_link i None) (filter (\<lambda>i. \<not> TaskBase_done ts i) aw) ts"
      from True await_resume_done obtain k where "AnyAwaiter_await_resume aw ts = (Inr k, ?aw, ?ts)" by metis
      with True have aa: "await_any aw ts = (Some (Inr k, ?aw, ?ts), ts)" by (simp add: await_any_def await_ready_started [OF st(1)])
      then have "all_limit_loop order body p start aw ts = all_limit_loop order body p start ?aw ?ts"
        using wait ne by (subst all_limit_loop.simps) (auto simp: AnyAwaiter_num_tasks_def)
      moreover have "unlinked ?ts" using h(2) by (auto simp: unlinked_def)
      moreover have "tasks_le ts ?ts" by (simp add: tasks_le_def)
      ultimately show ?thesis using "1"(1) [OF _ _ aa [symmetric] refl refl refl refl] limit_head_resume [OF h(1)] wait ne h(3)
        by (auto simp: AnyAwaiter_num_tasks_def intro: tasks_le_trans)
    next
      case False
      then have "await_any aw ts = (None, AnyAwaiter_await_suspend self aw ts)"
        by (simp add: await_any_def await_ready_started [OF st(1)])
      then have "all_limit_loop order body p start aw ts = \<lparr>al_tasks = AnyAwaiter_await_suspend self aw ts, al_start = start, al_aw = aw, al_pc = Suspended\<rparr>"
        using wait ne by (subst all_limit_loop.simps) (auto simp: AnyAwaiter_num_tasks_def)
      with h(1) False ne st(2) show ?thesis
        by (auto simp: limit_inv_def AnyAwaiter_await_suspend_def limit_head_def tasks_le_def)
    qed
  qed
qed


lemma limit_running: "limit_inv p s \<Longrightarrow> running (al_tasks s) i \<Longrightarrow> i \<in> set (al_aw s) \<and> al_pc s = Suspended"
  by (cases "al_pc s") (auto simp: limit_inv_def limit_head_def running_def)

lemma limit_finish_run:
  assumes inv: "limit_inv p s" and run: "running (al_tasks s) i" and p: "0 < p"
  shows "limit_inv p (all_limit_finish order body p i r s) \<and> tasks_le (al_tasks s) (al_tasks (all_limit_finish order body p i r s)) \<and>
    tk_value (al_tasks (all_limit_finish order body p i r s) ! i) = Some r"
proof -
  obtain ts c where f: "TaskPromise_final i r (al_tasks s) = (ts, c)" by force
  note n = nth_final [OF f] and le = tasks_le_final [OF f run] and v = tasks_le_final_value [OF f run]
  from limit_running [OF inv run] have i: "i \<in> set (al_aw s)" "al_pc s = Suspended" by simp_all
  with inv have h: "limit_head p (al_start s) (al_aw s) (al_tasks s)" and c: "c = Some self"
    and aw: "\<forall>j\<in>set (al_aw s). tk_awaiting (al_tasks s ! j) = Some self"
    using n by (simp_all add: limit_inv_def)
  have h': "limit_head p (al_start s) (al_aw s) ts"
    using h n run i(1) by (auto simp: limit_head_def TaskBase_done_def)
  let ?aw = "filter (\<lambda>i. \<not> TaskBase_done ts i) (al_aw s)"
  let ?ts = "fold (\<lambda>i. TaskBase_link i None) ?aw ts"
  have di: "TaskBase_done ts i" using v by (simp add: TaskBase_done_def)
  from await_resume_done [OF i(1) di] obtain k where "AnyAwaiter_await_resume (al_aw s) ts = (Inr k, ?aw, ?ts)" by metis
  with f c i have eq: "all_limit_finish order body p i r s = all_limit_loop order body p (al_start s) ?aw ?ts"
    by (simp add: all_limit_finish_def)
  have "unlinked ?ts" using h' by (fastforce simp: unlinked_def limit_head_def)
  have "limit_inv p (all_limit_loop order body p (al_start s) ?aw ?ts) \<and> tasks_le ?ts (al_tasks (all_limit_loop order body p (al_start s) ?aw ?ts))"
    by (rule all_limit_loop_inv [OF limit_head_resume [OF h'] _ p]) fact
  moreover have "tasks_le ts ?ts" by (simp add: tasks_le_def)
  ultimately show ?thesis unfolding eq using le v
    by (auto simp: tasks_le_def TaskBase_done_def)
qed


definition al_returned :: "('a, 'b) limit_state \<Rightarrow> bool" where
  "al_returned s \<longleftrightarrow> (\<exists>x. al_pc s = Returned x)"

interpretation limitg: task_group al_tasks al_returned "\<lambda>s. limit_inv p s \<and> 0 < p" "all_limit_finish order body p" for order body p
proof
  fix s :: "('a, unit) limit_state" and i j r
  assume i: "limit_inv p s \<and> 0 < p"
  show "running (al_tasks s) i \<Longrightarrow> limit_inv p (all_limit_finish order body p i r s) \<and> 0 < p"
    and "running (al_tasks s) i \<Longrightarrow> tk_value (al_tasks (all_limit_finish order body p i r s) ! i) = Some r"
    and "running (al_tasks s) i \<Longrightarrow> TaskBase_done (al_tasks s) j \<Longrightarrow>
      tk_value (al_tasks (all_limit_finish order body p i r s) ! j) = tk_value (al_tasks s ! j)"
    and "running (al_tasks s) i \<Longrightarrow> undone (al_tasks (all_limit_finish order body p i r s)) < undone (al_tasks s)"
    using limit_finish_run [of p s i order body r] i by (auto simp: tasks_le_def TaskBase_done_def intro: tasks_le_undone)
  show "\<not> al_returned s \<Longrightarrow> \<exists>i. running (al_tasks s) i"
  proof -
    assume "\<not> al_returned s"
    with i have s: "al_pc s = Suspended" "al_aw s \<noteq> []" "limit_head p (al_start s) (al_aw s) (al_tasks s)"
      "\<forall>i\<in>set (al_aw s). \<not> TaskBase_done (al_tasks s) i"
      by (auto simp: limit_inv_def al_returned_def split: pc.splits)
    then have "running (al_tasks s) (hd (al_aw s))"
      by (cases "al_aw s") (auto simp: running_def limit_head_def)
    then show ?thesis ..
  qed
  show "al_returned s \<Longrightarrow> undone (al_tasks s) = 0"
    using i by (auto simp: limit_inv_def limit_head_def al_returned_def undone_0)
qed

lemma all_limit_inv:
  assumes "0 < p"
  shows "limit_inv p (all_limit order body p (replicate n Task_new))" "length (al_tasks (all_limit order body p (replicate n Task_new))) = n"
proof -
  have "limit_head p 0 [] (replicate n Task_new)" "unlinked (replicate n Task_new)"
    by (simp_all add: limit_head_def unlinked_def Task_new_def TaskBase_done_def)
  from all_limit_loop_inv [OF this assms, of order body] show "limit_inv p (all_limit order body p (replicate n Task_new))"
    "length (al_tasks (all_limit order body p (replicate n Task_new))) = n"
    by (simp_all add: all_limit_def tasks_le_def)
qed

lemma limit_inv_bound:
  assumes "limit_inv p s"
  shows "card {i. running (al_tasks s) i} \<le> p"
proof -
  have "{i. running (al_tasks s) i} \<subseteq> set (al_aw s)" using limit_running [OF assms] by auto
  then have "card {i. running (al_tasks s) i} \<le> card (set (al_aw s))" by (intro card_mono) auto
  also have "\<dots> \<le> p" using assms card_length [of "al_aw s"] by (auto simp: limit_inv_def limit_head_def)
  finally show ?thesis .
qed


section \<open>any\<close>

lemma any_start_run:
  assumes "idle ts" "set is \<subseteq> {..<length ts}"
  obtains aw' ts' where "any_start order body is aw ts = Inr (aw', ts')" "idle ts'" "tasks_le ts ts'" "set aw' = set aw \<union> set is"
    "\<forall>i\<in>set is. tk_started (ts' ! i)" "\<forall>i. tk_started (ts ! i) \<longrightarrow> tk_started (ts' ! i)"
  using assms
proof (induction "is" arbitrary: ts aw thesis)
  case (Cons i "is")
  from Cons.prems have i: "i < length ts" "tk_awaiting (ts ! i) = None" "TaskBase_done ts i \<longrightarrow> tk_started (ts ! i)"
    by (auto simp: idle_def TaskBase_done_def)
  obtain us where us: "TaskBase_start body i ts = (us, None)" "tasks_le ts us" "length us = length ts"
    "\<And>j. tk_awaiting (us ! j) = tk_awaiting (ts ! j)"
    "\<And>j. tk_started (us ! j) = (tk_started (ts ! j) \<or> j = i)"
    "\<And>j. TaskBase_done us j \<Longrightarrow> TaskBase_done ts j \<or> j = i"
    by (rule TaskBase_start_run [of i ts body]) (use i in auto)
  from us Cons.prems(2) have "idle us"
    by (fastforce simp: idle_def all_set_conv_all_nth TaskBase_done_def)
  with Cons.IH [where ts = us and aw = "AnyAwaiter_add_task order i aw"] Cons.prems(3) us(3) obtain aw' vs where
    "any_start order body is (AnyAwaiter_add_task order i aw) us = Inr (aw', vs)" "idle vs" "tasks_le us vs"
    "set aw' = set (AnyAwaiter_add_task order i aw) \<union> set is"
    "\<forall>i\<in>set is. tk_started (vs ! i)" "\<forall>i. tk_started (us ! i) \<longrightarrow> tk_started (vs ! i)" by auto
  with us show ?case
    by (intro Cons.prems(1) [of aw' vs]) (auto intro: tasks_le_trans simp: AnyAwaiter_add_task_def set_insort_key)
qed auto

definition any_inv :: "('a, nat) limit_state \<Rightarrow> bool" where
  "any_inv s \<longleftrightarrow> all_started (al_tasks s) \<and> (case al_pc s of
     Threw _ \<Rightarrow> False
   | Returned i \<Rightarrow> i < length (al_tasks s) \<and> TaskBase_done (al_tasks s) i \<and> unlinked (al_tasks s)
   | Suspended \<Rightarrow> set (al_aw s) = {..<length (al_tasks s)} \<and>
       (\<forall>i<length (al_tasks s). \<not> TaskBase_done (al_tasks s) i \<and> tk_awaiting (al_tasks s ! i) = Some self))"

lemma any_task_inv:
  assumes "idle ts"
  shows "any_inv (any_task order body ts)" "length (al_tasks (any_task order body ts)) = length ts"
proof -
  obtain aw ts' where t: "any_start order body [0..<length ts] [] ts = Inr (aw, ts')" "idle ts'" "tasks_le ts ts'" "set aw = {..<length ts}"
    "\<forall>i\<in>set [0..<length ts]. tk_started (ts' ! i)"
    by (rule any_start_run [of ts "[0..<length ts]" order body "[]"]) (use assms in \<open>auto simp: atLeast_upt\<close>)
  have len: "length ts' = length ts" using t(3) by (simp add: tasks_le_def)
  have st: "\<forall>i\<in>set aw. tk_started (ts' ! i)" using t by auto
  have "any_inv (any_task order body ts) \<and> length (al_tasks (any_task order body ts)) = length ts"
  proof (cases "\<exists>i\<in>set aw. TaskBase_done ts' i")
    case True
    let ?aw = "filter (\<lambda>i. \<not> TaskBase_done ts' i) aw" and ?ts = "fold (\<lambda>i. TaskBase_link i None) (filter (\<lambda>i. \<not> TaskBase_done ts' i) aw) ts'"
    from True await_resume_done obtain k where k: "AnyAwaiter_await_resume aw ts' = (Inr k, ?aw, ?ts)" "k \<in> set aw" "TaskBase_done ts' k" by metis
    with True have "any_task order body ts = any_return (Inr k, ?aw, ?ts)"
      by (simp add: any_task_def t(1) await_any_def await_ready_started [OF st])
    with k t len st show ?thesis
      by (auto simp: any_return_def any_inv_def all_started_def unlinked_def idle_def)
  next
    case False
    then have "any_task order body ts = \<lparr>al_tasks = AnyAwaiter_await_suspend self aw ts', al_start = length ts, al_aw = aw, al_pc = Suspended\<rparr>"
      by (simp add: any_task_def t(1) await_any_def await_ready_started [OF st])
    with False t(4) len st show ?thesis
      by (auto simp: any_inv_def all_started_def AnyAwaiter_await_suspend_def)
  qed
  then show "any_inv (any_task order body ts)" "length (al_tasks (any_task order body ts)) = length ts" by simp_all
qed

lemma any_finish_run:
  assumes inv: "any_inv s" and run: "running (al_tasks s) i"
  shows "any_inv (any_finish i r s)" "length (al_tasks (any_finish i r s)) = length (al_tasks s)"
    "al_pc (any_finish i r s) = (if al_pc s = Suspended then Returned i else al_pc s)"
proof -
  obtain ts c where f: "TaskPromise_final i r (al_tasks s) = (ts, c)" by force
  note n = nth_final [OF f]
  have "any_inv (any_finish i r s) \<and> length (al_tasks (any_finish i r s)) = length (al_tasks s) \<and>
    al_pc (any_finish i r s) = (if al_pc s = Suspended then Returned i else al_pc s)"
  proof (cases "al_pc s")
    case Suspended
    with inv run n have s: "all_started (al_tasks s)" "set (al_aw s) = {..<length (al_tasks s)}" "c = Some self"
      "\<forall>j<length (al_tasks s). tk_value (al_tasks s ! j) = None"
      by (auto simp: any_inv_def running_def TaskBase_done_def)
    have d: "TaskBase_done ts j \<longleftrightarrow> j = i" if "j < length ts" for j
      using s(4) n run that by (auto simp: running_def TaskBase_done_def)
    have len: "length ts = length (al_tasks s)" and i: "i < length ts" using n run by (simp_all add: running_def)
    let ?aw = "filter (\<lambda>i. \<not> TaskBase_done ts i) (al_aw s)"
    let ?ts = "fold (\<lambda>i. TaskBase_link i None) ?aw ts"
    from await_resume_done [of i "al_aw s" ts] s(2) i d [OF i] len obtain k where
      k: "AnyAwaiter_await_resume (al_aw s) ts = (Inr k, ?aw, ?ts)" "k \<in> set (al_aw s)" "TaskBase_done ts k" by auto
    with s(2) d [of k] len have [simp]: "k = i" by simp
    from Suspended f s(3) k have "any_finish i r s = any_return (Inr i, ?aw, ?ts)" by (simp add: any_finish_def)
    with Suspended s(1,2) n len i d show ?thesis
      by (auto simp: any_return_def any_inv_def all_started_def unlinked_def)
  next
    case (Returned k)
    with inv run have "tk_awaiting (al_tasks s ! i) = None" by (auto simp: any_inv_def unlinked_def running_def)
    with n f have "any_finish i r s = s\<lparr>al_tasks := ts\<rparr>" by (simp add: any_finish_def)
    with Returned inv n show ?thesis by (auto simp: any_inv_def all_started_def unlinked_def TaskBase_done_def)
  next
    case (Threw e)
    with inv show ?thesis by (simp add: any_inv_def)
  qed
  then show "any_inv (any_finish i r s)" "length (al_tasks (any_finish i r s)) = length (al_tasks s)"
    "al_pc (any_finish i r s) = (if al_pc s = Suspended then Returned i else al_pc s)" by simp_all
qed

lemma any_run:
  "any_inv s \<Longrightarrow> possible al_tasks any_finish es s \<Longrightarrow> any_inv (after any_finish es s) \<and>
    length (al_tasks (after any_finish es s)) = length (al_tasks s) \<and>
    al_pc (after any_finish es s) = (if al_pc s = Suspended \<and> es \<noteq> [] then Returned (fst (hd es)) else al_pc s)"
proof (induction es arbitrary: s)
  case (Cons e es)
  obtain i r where e: "e = (i, r)" by force
  with Cons any_finish_run [of s i r] show ?case by simp
qed simp


section \<open>Properties\<close>

text \<open>C34: \<open>all\<close> and \<open>multi\<close>, given tasks nobody waits for yet, started or not.  However the tasks
  end, at once or later and in any order: there are at most as many ends to wait for as tasks; the
  combinator has returned exactly when every task is done, never before; until then some task is
  running, so it can always go on; and each task that ended keeps the result or exception it ended
  with.\<close>

theorem all_and_multi_join:
  assumes "idle ts" "s = all_tasks body ts \<or> s = multi_tasks body ts" "possible ws_tasks (wait_finish body) es s"
  shows "length es \<le> length ts \<and>
    (ws_returned (after (wait_finish body) es s) \<longleftrightarrow> (\<forall>i<length ts. TaskBase_done (ws_tasks (after (wait_finish body) es s)) i)) \<and>
    (ws_returned (after (wait_finish body) es s) \<or> (\<exists>i r. possible ws_tasks (wait_finish body) (es @ [(i, r)]) s)) \<and>
    (\<forall>i r. (i, r) \<in> set es \<longrightarrow> tk_value (ws_tasks (after (wait_finish body) es s) ! i) = Some r)"
proof (intro conjI allI impI)
  from all_multi_inv [OF assms(1), of body] assms(2) have i: "wait_inv s" and len: "length (ws_tasks s) = length ts"
    by (auto simp: tasks_le_def)
  have keep: "length (ws_tasks (after (wait_finish body) es s)) = length (ws_tasks s)" if "wait_inv s" "possible ws_tasks (wait_finish body) es s" for s
    using that
  proof (induction es arbitrary: s)
    case (Cons e es)
    then show ?case using wait_finish_run [of s "fst e" body "snd e"] by (cases e) (auto simp: tasks_le_def)
  qed simp
  show "length es \<le> length ts"
    using waitg.joins(1) [OF i assms(3)] undone_le_length [of "ws_tasks s"] len by simp
  show "ws_returned (after (wait_finish body) es s) \<longleftrightarrow> (\<forall>i<length ts. TaskBase_done (ws_tasks (after (wait_finish body) es s)) i)"
    using waitg.joins(2) [OF i assms(3)] keep [OF i assms(3)] len by (simp add: undone_0)
  show "ws_returned (after (wait_finish body) es s) \<or> (\<exists>i r. possible ws_tasks (wait_finish body) (es @ [(i, r)]) s)"
    by (rule waitg.joins(3) [OF i assms(3)])
  show "(i, r) \<in> set es \<Longrightarrow> tk_value (ws_tasks (after (wait_finish body) es s) ! i) = Some r" for i r
    by (rule waitg.value_of_end [OF i assms(3)])
qed

theorem all_and_multi_join_witness:
  "ws_returned (after (wait_finish (\<lambda>i. if i = 1 then Some (Inr 7) else None)) [(2, Inr 8), (0, Inl Canceled_error)]
     (all_tasks (\<lambda>i. if i = 1 then Some (Inr 7) else None) (replicate 3 (Task_new :: nat task)))) \<and>
   \<not> ws_returned (all_tasks (\<lambda>i. if i = 1 then Some (Inr 7) else None) (replicate 3 (Task_new :: nat task)))"
proof -
  let ?b = "\<lambda>i. if i = (1::nat) then Some (Inr (7::nat)) else None" and ?ts = "replicate 3 (Task_new :: nat task)"
  let ?es = "[(2, Inr 8), (0, Inl Canceled_error)]"
  have idle: "idle ?ts" by (simp add: idle_def Task_new_def)
  have p: "possible ws_tasks (wait_finish ?b) ?es (all_tasks ?b ?ts)" by code_simp
  have d: "\<forall>i<3. TaskBase_done (ws_tasks (after (wait_finish ?b) ?es (all_tasks ?b ?ts))) i" by code_simp
  have n: "\<not> (\<forall>i<3. TaskBase_done (ws_tasks (after (wait_finish ?b) [] (all_tasks ?b ?ts))) i)" by code_simp
  from all_and_multi_join [OF idle _ p] all_and_multi_join [OF idle, of "all_tasks ?b ?ts" ?b "[]"] d n show ?thesis by simp
qed

text \<open>C7: \<open>all_limit\<close> on new tasks with a positive parallelism.  However the tasks end: at most
  \<open>parallelism\<close> of them are ever running at once; it has returned exactly when every task is done;
  until then some task is running; and each task keeps what it ended with.  Its loop runs no
  longer than the tasks do: there are at most as many ends as tasks.\<close>

theorem all_limit_joins:
  assumes "0 < parallelism" "s = all_limit order body parallelism (replicate n Task_new)"
    and "possible al_tasks (all_limit_finish order body parallelism) es s"
    and "t = after (all_limit_finish order body parallelism) es s"
  shows "card {i. running (al_tasks t) i} \<le> parallelism \<and> length es \<le> n \<and>
    (al_pc t = Returned () \<longleftrightarrow> (\<forall>i<n. TaskBase_done (al_tasks t) i)) \<and>
    (al_pc t = Returned () \<or> (\<exists>i r. possible al_tasks (all_limit_finish order body parallelism) (es @ [(i, r)]) s)) \<and>
    (\<forall>i r. (i, r) \<in> set es \<longrightarrow> tk_value (al_tasks t ! i) = Some r)"
proof (intro conjI allI impI)
  from all_limit_inv [OF assms(1), of order body n] assms(1,2) have i: "limit_inv parallelism s \<and> 0 < parallelism"
    and len: "length (al_tasks s) = n" by simp_all
  have keep: "length (al_tasks (after (all_limit_finish order body parallelism) es s)) = length (al_tasks s)"
    if "limit_inv parallelism s" "possible al_tasks (all_limit_finish order body parallelism) es s" for s
    using that
  proof (induction es arbitrary: s)
    case (Cons e es)
    then show ?case using limit_finish_run [of parallelism s "fst e" order body "snd e"] assms(1)
      by (cases e) (auto simp: tasks_le_def)
  qed simp
  have lt: "length (al_tasks t) = n" using keep [of s] i assms(3,4) len by simp
  have ret: "al_returned t \<longleftrightarrow> al_pc t = Returned ()" by (auto simp: al_returned_def)
  show "card {i. running (al_tasks t) i} \<le> parallelism"
    using limitg.after_inv [OF i assms(3)] assms(4) limit_inv_bound by blast
  show "length es \<le> n"
    using limitg.joins(1) [OF i assms(3)] undone_le_length [of "al_tasks s"] len by simp
  show "al_pc t = Returned () \<longleftrightarrow> (\<forall>i<n. TaskBase_done (al_tasks t) i)"
    using limitg.joins(2) [OF i assms(3)] lt ret assms(4) by (simp add: undone_0)
  show "al_pc t = Returned () \<or> (\<exists>i r. possible al_tasks (all_limit_finish order body parallelism) (es @ [(i, r)]) s)"
    using limitg.joins(3) [OF i assms(3)] ret assms(4) by simp
  show "(i, r) \<in> set es \<Longrightarrow> tk_value (al_tasks t ! i) = Some r" for i r
    unfolding assms(4) by (rule limitg.value_of_end [OF i assms(3)])
qed

theorem all_limit_joins_witness:
  "al_pc (after (all_limit_finish (\<lambda>_ i. i) (\<lambda>i. if i = 1 then Some (Inr 7) else None) 2)
     [(2, Inr 8), (0, Inl Canceled_error), (3, Inr 9)]
     (all_limit (\<lambda>_ i. i) (\<lambda>i. if i = 1 then Some (Inr 7) else None) 2 (replicate 4 (Task_new :: nat task)))) = Returned () \<and>
   card {i. running (al_tasks (all_limit (\<lambda>_ i. i) (\<lambda>i. if i = 1 then Some (Inr 7) else None) 2 (replicate 4 (Task_new :: nat task)))) i} \<le> 2"
proof -
  let ?b = "\<lambda>i. if i = (1::nat) then Some (Inr (7::nat)) else None" and ?o = "\<lambda>(_::nat list) (i::nat). i"
  let ?s = "all_limit ?o ?b 2 (replicate 4 Task_new)" and ?es = "[(2, Inr 8), (0, Inl Canceled_error), (3, Inr 9)]"
  have p: "possible al_tasks (all_limit_finish ?o ?b 2) ?es ?s" by code_simp
  have d: "\<forall>i<4. TaskBase_done (al_tasks (after (all_limit_finish ?o ?b 2) ?es ?s)) i" by code_simp
  from all_limit_joins [of 2 ?s ?o ?b 4 ?es, OF _ refl p refl] all_limit_joins [of 2 ?s ?o ?b 4 "[]", OF _ refl _ refl] d
  show ?thesis by simp
qed

text \<open>\<open>any\<close> on tasks nobody waits for, at least one.  It throws nothing.  If a task is done when all
  have been started, it returns a done task at once; otherwise it waits, all tasks running, and
  returns exactly the first task to end.  Tasks that end later do not disturb it.\<close>

theorem any_returns_first:
  assumes "idle ts" "ts \<noteq> []" "s = any_task order body ts" "possible al_tasks any_finish es s"
  shows "case al_pc s of Threw e \<Rightarrow> False
    | Suspended \<Rightarrow> (\<forall>i<length ts. running (al_tasks s) i) \<and> al_pc (after any_finish es s) = (if es = [] then Suspended else Returned (fst (hd es)))
    | Returned i \<Rightarrow> i < length ts \<and> TaskBase_done (al_tasks s) i \<and> al_pc (after any_finish es s) = Returned i"
proof -
  note i = any_task_inv [OF assms(1), of order body, folded assms(3)]
  from any_run [OF i(1) assms(4)] i show ?thesis
    by (cases "al_pc s") (auto simp: any_inv_def running_def all_started_def)
qed

theorem any_returns_first_witness:
  "al_pc (after any_finish [(1, Inr 5), (0, Inr 6)] (any_task (\<lambda>_ i. i) (\<lambda>_. None) (replicate 2 (Task_new :: nat task)))) = Returned 1"
proof -
  let ?s = "any_task (\<lambda>_ i. i) (\<lambda>_. None) (replicate 2 (Task_new :: nat task))" and ?es = "[(1, Inr 5), (0, Inr 6)]"
  have p: "possible al_tasks any_finish ?es ?s" by code_simp
  have s: "al_pc ?s = Suspended" by code_simp
  have "idle (replicate 2 Task_new)" "replicate 2 Task_new \<noteq> []" by (simp_all add: idle_def Task_new_def)
  from any_returns_first [OF this refl p] s show ?thesis by simp
qed

text \<open>With a parallelism of 0, \<open>all_limit\<close> on at least one task starts none and suspends with
  nothing to resume it; \<open>any\<close> on an empty range does the same.\<close>

theorem combinators_stuck:
  assumes "0 < n"
  shows "al_pc (all_limit order body 0 (replicate n Task_new)) = Suspended"
    and "al_tasks (all_limit order body 0 (replicate n Task_new)) = replicate n Task_new"
    and "\<not> running (al_tasks (all_limit order body 0 (replicate n Task_new))) i"
    and "any_task order body [] = \<lparr>al_tasks = [], al_start = 0, al_aw = [], al_pc = Suspended\<rparr>"
proof -
  have l: "all_limit order body 0 (replicate n Task_new) = \<lparr>al_tasks = replicate n Task_new, al_start = 0, al_aw = [], al_pc = Suspended\<rparr>"
    using assms by (simp add: all_limit_def, subst all_limit_loop.simps) (simp add: await_any_def AnyAwaiter_await_suspend_def)
  show "al_pc (all_limit order body 0 (replicate n Task_new)) = Suspended"
    "al_tasks (all_limit order body 0 (replicate n Task_new)) = replicate n Task_new" by (simp_all add: l)
  show "\<not> running (al_tasks (all_limit order body 0 (replicate n Task_new))) i"
    unfolding l by (auto simp: running_def Task_new_def)
  show "any_task order body [] = \<lparr>al_tasks = [], al_start = 0, al_aw = [], al_pc = Suspended\<rparr>"
    by (simp add: any_task_def await_any_def AnyAwaiter_await_suspend_def)
qed


theorem combinators_stuck_witness:
  "al_pc (all_limit (\<lambda>_ i. i) (\<lambda>_. None) 0 (replicate 3 (Task_new :: nat task))) = Suspended \<and>
   \<not> running (al_tasks (all_limit (\<lambda>_ i. i) (\<lambda>_. None) 0 (replicate 3 (Task_new :: nat task)))) 0"
  using combinators_stuck(1,3) [of 3 "\<lambda>_ i. i" "\<lambda>_. None :: nat task_result option"] by simp

text \<open>A sequence of calls on a detached task: True is the final suspension, False a cancellation.\<close>

definition DetachedTask_calls :: "bool list \<Rightarrow> (detached, bool list) act" where
  "DetachedTask_calls fs = collectA (\<lambda>f. if f then seqA DetachedTask_final_await_suspend (retA False) else DetachedTask_cancel) fs"

lemma calls_destroyed:
  "DetachedTask_calls fs \<lparr>dt_destroyed = True, dt_destroys = n\<rparr> = (Ret (replicate (length fs) False), \<lparr>dt_destroyed = True, dt_destroys = n\<rparr>)"
  by (induction fs) (auto simp: DetachedTask_calls_def DetachedTask_cancel_def DetachedTask_final_await_suspend_def
      DetachedTaskCoroutine_cancel_def bindA_def seqA_def whenA_def)

text \<open>However many times a detached task is cancelled, before or after it returns, and in whatever
  order the cancellations and the final suspension come, its coroutine is destroyed exactly once, by
  the first of the calls, and no later cancellation reports that it destroyed it.\<close>

theorem DetachedTask_destroyed_once:
  "DetachedTask_calls (f # fs) DetachedTaskCoroutine_new =
     (Ret ((\<not> f) # replicate (length fs) False), \<lparr>dt_destroyed = True, dt_destroys = 1\<rparr>)"
  using calls_destroyed [of fs 1]
  by (simp add: DetachedTask_calls_def DetachedTask_cancel_def DetachedTask_final_await_suspend_def DetachedTaskCoroutine_new_def
      DetachedTaskCoroutine_cancel_def bindA_def seqA_def whenA_def)

end
