(* ===== verification/Coroutines.thy ===== *)
theory Coroutines
  imports Task
begin

text \<open>
  Coroutines that call coroutines: \<open>co_await f()\<close> of Task.hh, where control goes back and forth between
  frames by symmetric transfer.  The machine below has the frames with their promises, the coroutine
  that runs and the one an event will resume; each of its steps is what the compiler and the
  promise and awaiter classes do at one point of a coroutine.  It is shown to compute what a
  direct call would: the awaited task's value, or its exception at the point of the await.
\<close>

section \<open>What coroutines do\<close>

text \<open>
  The code of a coroutine, as far as tasks see it: it ends with a value or an exception, awaits an
  event of the event loop, or creates a task and awaits it, going on with what the await gives.
\<close>

datatype 'a coroutine =
    Co_return "'a task_result"
  | Co_event "'a coroutine"
  | Co_await "'a coroutine" "'a task_result \<Rightarrow> 'a coroutine"

text \<open>A call: what the code would compute, and for how many events it would wait.\<close>

primrec call :: "'a coroutine \<Rightarrow> 'a task_result" where
  "call (Co_return r) = r"
| "call (Co_event p) = call p"
| "call (Co_await p k) = (call \<circ> k) (call p)"

primrec call_events :: "'a coroutine \<Rightarrow> nat" where
  "call_events (Co_return r) = 0"
| "call_events (Co_event p) = Suc (call_events p)"
| "call_events (Co_await p k) = call_events p + (call_events \<circ> k) (call p)"

section \<open>Frames\<close>

text \<open>Where a coroutine is suspended or about to run.\<close>

datatype 'a resume_point =
    At "'a coroutine"
  | In_event "'a coroutine"
  | In_await nat "'a task_result \<Rightarrow> 'a coroutine"
  | At_final

text \<open>The promise, with the state of the frame it is in.\<close>

record 'a frame = "'a task" +
  fr_at :: "'a resume_point"

record 'a machine =
  mc_frames :: "nat \<rightharpoonup> 'a frame"
  mc_next :: nat
  mc_running :: "coro option"
  mc_event :: "coro option"
  mc_events :: nat
  mc_destroyed :: "nat list"

definition frame_of :: "nat \<Rightarrow> ('a machine, 'a frame) act" where
  "frame_of c = (\<lambda>s. case mc_frames s c of None \<Rightarrow> (Throw (Undefined_behaviour ''use of a destroyed frame''), s) | Some f \<Rightarrow> (Ret f, s))"

definition set_frame :: "nat \<Rightarrow> 'a frame \<Rightarrow> ('a machine, unit) act" where
  "set_frame c f = modifyA (\<lambda>s. s\<lparr>mc_frames := (mc_frames s)(c \<mapsto> f)\<rparr>)"

definition transfer :: "coro option \<Rightarrow> ('a machine, unit) act" where
  "transfer c = modifyA (\<lambda>s. s\<lparr>mc_running := c\<rparr>)"

text \<open>A call of a coroutine function: a frame, suspended at once, and the task that owns it.\<close>

definition TaskPromise_get_return_object :: "'a coroutine \<Rightarrow> ('a machine, nat) act" where
  "TaskPromise_get_return_object p = (\<lambda>s. (Ret (mc_next s), s\<lparr>mc_frames := (mc_frames s)(mc_next s \<mapsto>
     \<lparr>tk_started = False, tk_value = None, tk_awaiting = None, fr_at = At p\<rparr>), mc_next := Suc (mc_next s)\<rparr>))"

definition TaskPromise_set_awaiting_coro :: "nat \<Rightarrow> coro option \<Rightarrow> ('a machine, unit) act" where
  "TaskPromise_set_awaiting_coro t c = bindA (frame_of t) (\<lambda>f. set_frame t (f\<lparr>tk_awaiting := c\<rparr>))"

text \<open>\<open>return_value\<close> or \<open>unhandled_exception\<close>.\<close>

definition TaskPromise_return :: "nat \<Rightarrow> 'a task_result \<Rightarrow> ('a machine, unit) act" where
  "TaskPromise_return t r = bindA (frame_of t) (\<lambda>f. set_frame t (f\<lparr>tk_value := Some r\<rparr>))"

definition FinalAwaiter_await_suspend :: "nat \<Rightarrow> ('a machine, coro option) act" where
  "FinalAwaiter_await_suspend t = bindA (frame_of t) (\<lambda>f. retA (tk_awaiting f))"

section \<open>The awaiter\<close>

definition CoAwaiter_await_ready :: "nat \<Rightarrow> ('a machine, bool) act" where
  "CoAwaiter_await_ready t = bindA (frame_of t) (\<lambda>f. retA (tk_value f \<noteq> None))"

definition CoAwaiter_await_suspend :: "nat \<Rightarrow> coro \<Rightarrow> ('a machine, coro option) act" where
  "CoAwaiter_await_suspend t c = seqA (TaskPromise_set_awaiting_coro t (Some c)) (bindA (frame_of t) (\<lambda>f.
     if tk_started f then retA None else seqA (set_frame t (f\<lparr>tk_started := True\<rparr>)) (retA (Some t))))"

text \<open>\<open>result()\<close> of a task that has none would be a default-constructed value; it is marked as undefined here.\<close>

definition CoAwaiter_await_resume :: "nat \<Rightarrow> ('a machine, 'a task_result) act" where
  "CoAwaiter_await_resume t = bindA (frame_of t) (\<lambda>f. case tk_value f of
     None \<Rightarrow> throwA (Undefined_behaviour ''result of a task that is not done'') | Some r \<Rightarrow> retA r)"

text \<open>The destructor of the awaited task, at the end of the expression.\<close>

definition destroy_task :: "nat \<Rightarrow> ('a machine, unit) act" where
  "destroy_task t = bindA (frame_of t) (\<lambda>_. modifyA (\<lambda>s. s\<lparr>mc_frames := (mc_frames s)(t := None), mc_destroyed := mc_destroyed s @ [t]\<rparr>))"

section \<open>The machine\<close>

definition move_to :: "nat \<Rightarrow> 'a resume_point \<Rightarrow> ('a machine, unit) act" where
  "move_to c x = bindA (frame_of c) (\<lambda>f. set_frame c (f\<lparr>fr_at := x\<rparr>))"

text \<open>\<open>co_await\<close> of a task, up to the suspension or the result.\<close>

definition await_task :: "coro \<Rightarrow> nat \<Rightarrow> ('a task_result \<Rightarrow> 'a coroutine) \<Rightarrow> ('a machine, unit) act" where
  "await_task c t k = bindA (CoAwaiter_await_ready t) (\<lambda>ready. seqA (move_to c (In_await t k))
     (if ready then retA () else bindA (CoAwaiter_await_suspend t c) transfer))"

definition run_from :: "coro \<Rightarrow> 'a resume_point \<Rightarrow> ('a machine, unit) act" where
  "run_from c x = (case x of
     At (Co_return r) \<Rightarrow> seqA (TaskPromise_return c r) (seqA (move_to c At_final) (bindA (FinalAwaiter_await_suspend c) transfer))
   | At (Co_event p) \<Rightarrow> seqA (move_to c (In_event p)) (seqA (modifyA (\<lambda>s. s\<lparr>mc_event := Some c\<rparr>)) (transfer None))
   | At (Co_await p k) \<Rightarrow> bindA (TaskPromise_get_return_object p) (\<lambda>t. await_task c t k)
   | In_event p \<Rightarrow> move_to c (At p)
   | In_await t k \<Rightarrow> bindA (CoAwaiter_await_resume t) (\<lambda>r. seqA (destroy_task t) (move_to c (At (k r))))
   | At_final \<Rightarrow> throwA (Undefined_behaviour ''resume of a finished coroutine''))"

text \<open>When no coroutine runs, the event loop delivers the event one of them waits for.\<close>

definition deliver_event :: "('a machine, unit) act" where
  "deliver_event = bindA (getsA mc_event) (\<lambda>e. case e of
     None \<Rightarrow> retA ()
   | Some c \<Rightarrow> modifyA (\<lambda>s. s\<lparr>mc_event := None, mc_events := Suc (mc_events s), mc_running := Some c\<rparr>))"

definition machine_step :: "('a machine, unit) act" where
  "machine_step = bindA (getsA mc_running) (\<lambda>r. case r of
     None \<Rightarrow> deliver_event
   | Some c \<Rightarrow> bindA (frame_of c) (\<lambda>f. run_from c (fr_at f)))"

fun machine_run :: "nat \<Rightarrow> ('a machine, unit) act" where
  "machine_run 0 = retA ()"
| "machine_run (Suc n) = seqA machine_step (machine_run n)"

text \<open>A task that was started by code which is not a coroutine.\<close>

definition machine_start :: "'a coroutine \<Rightarrow> 'a machine" where
  "machine_start p = \<lparr>mc_frames = [0 \<mapsto> \<lparr>tk_started = True, tk_value = None, tk_awaiting = None, fr_at = At p\<rparr>], mc_next = 1,
     mc_running = Some 0, mc_event = None, mc_events = 0, mc_destroyed = []\<rparr>"

section \<open>A call\<close>

lemma machine_run_add: "machine_run (m + n) s = seqA (machine_run m) (machine_run n) s"
  by (induction m arbitrary: s) (auto simp: seqA_def bindA_def split: prod.splits outcome.splits)

lemma machine_run_trans:
  "machine_run m s = (Ret (), s1) \<Longrightarrow> machine_run n s1 = (Ret (), s2) \<Longrightarrow> machine_run (m + n) s = (Ret (), s2)"
  by (simp add: machine_run_add seqA_def bindA_def)

lemmas machine_defs = machine_step_def run_from_def await_task_def move_to_def frame_of_def set_frame_def transfer_def
  TaskPromise_get_return_object_def TaskPromise_set_awaiting_coro_def TaskPromise_return_def FinalAwaiter_await_suspend_def
  CoAwaiter_await_ready_def CoAwaiter_await_suspend_def CoAwaiter_await_resume_def destroy_task_def deliver_event_def seqA_def bindA_def

text \<open>The machine is about to run the frame \<open>c\<close>, whose code is at \<open>p\<close>.\<close>

definition about_to_run :: "coro \<Rightarrow> 'a frame \<Rightarrow> 'a coroutine \<Rightarrow> 'a machine \<Rightarrow> bool" where
  "about_to_run c f p s \<longleftrightarrow> mc_running s = Some c \<and> mc_event s = None \<and> mc_frames s c = Some f \<and> fr_at f = At p \<and> tk_value f = None \<and>
     (\<forall>i \<ge> mc_next s. mc_frames s i = None)"

definition after_run :: "coro \<Rightarrow> 'a frame \<Rightarrow> 'a coroutine \<Rightarrow> nat \<Rightarrow> nat list \<Rightarrow> 'a machine \<Rightarrow> 'a machine" where
  "after_run c f p m ds s = s\<lparr>mc_frames := (mc_frames s)(c \<mapsto> f\<lparr>tk_value := Some (call p), fr_at := At_final\<rparr>), mc_next := m,
     mc_running := tk_awaiting f, mc_events := mc_events s + call_events p, mc_destroyed := mc_destroyed s @ ds\<rparr>"

lemma coroutine_runs:
  assumes "about_to_run c f p s"
  shows "\<exists>n m ds. machine_run n s = (Ret (), after_run c f p m ds s) \<and> mc_next s \<le> m \<and> distinct ds \<and> set ds = {mc_next s..<m}"
  using assms
proof (induction p arbitrary: c f s)
  case (Co_return r)
  then have "machine_run 1 s = (Ret (), after_run c f (Co_return r) (mc_next s) [] s)"
    by (simp add: about_to_run_def after_run_def machine_defs)
  then show ?case by (intro exI [of _ 1] exI [of _ "mc_next s"] exI [of _ "[]"]) simp
next
  case (Co_event p)
  let ?s = "s\<lparr>mc_frames := (mc_frames s)(c \<mapsto> f\<lparr>fr_at := At p\<rparr>), mc_events := Suc (mc_events s)\<rparr>"
  have 1: "machine_run 3 s = (Ret (), ?s)" using Co_event.prems
    by (simp add: about_to_run_def machine_defs numeral_3_eq_3)
  have "c < mc_next s" using Co_event.prems by (auto simp: about_to_run_def not_le [symmetric])
  then have "about_to_run c (f\<lparr>fr_at := At p\<rparr>) p ?s" using Co_event.prems by (simp add: about_to_run_def)
  from Co_event.IH [OF this] obtain n m ds where 2: "machine_run n ?s = (Ret (), after_run c (f\<lparr>fr_at := At p\<rparr>) p m ds ?s)"
    and m: "mc_next s \<le> m" "distinct ds" "set ds = {mc_next s..<m}" by auto
  have "after_run c (f\<lparr>fr_at := At p\<rparr>) p m ds ?s = after_run c f (Co_event p) m ds s" by (simp add: after_run_def)
  with machine_run_trans [OF 1 2] m show ?case by metis
next
  case (Co_await p k)
  let ?t = "mc_next s" and ?f = "f\<lparr>fr_at := In_await (mc_next s) k\<rparr>"
  let ?g = "\<lparr>tk_started = True, tk_value = None, tk_awaiting = Some c, fr_at = At p\<rparr>"
  let ?s1 = "s\<lparr>mc_frames := (mc_frames s)(c \<mapsto> ?f, ?t \<mapsto> ?g), mc_next := Suc ?t, mc_running := Some ?t\<rparr>"
  have c: "c < ?t" using Co_await.prems by (auto simp: about_to_run_def not_le [symmetric])
  have 1: "machine_run 1 s = (Ret (), ?s1)" using Co_await.prems c
    by (simp add: about_to_run_def machine_defs fun_upd_twist)
  have "about_to_run ?t ?g p ?s1" using Co_await.prems c by (simp add: about_to_run_def)
  from Co_await.IH(1) [OF this] obtain n1 m1 ds1 where 2: "machine_run n1 ?s1 = (Ret (), after_run ?t ?g p m1 ds1 ?s1)"
    and m1: "Suc ?t \<le> m1" "distinct ds1" "set ds1 = {Suc ?t..<m1}" by auto
  let ?h = "f\<lparr>fr_at := At (k (call p))\<rparr>"
  let ?s2 = "s\<lparr>mc_frames := (mc_frames s)(c \<mapsto> ?h), mc_next := m1, mc_events := mc_events s + call_events p,
      mc_destroyed := mc_destroyed s @ ds1 @ [?t]\<rparr>"
  have fr: "((mc_frames s)(c \<mapsto> ?f, ?t \<mapsto> x))(?t := None, c \<mapsto> ?h) = (mc_frames s)(c \<mapsto> ?h)" for x
    using Co_await.prems c by (auto simp: about_to_run_def fun_eq_iff)
  have 3: "machine_run 1 (after_run ?t ?g p m1 ds1 ?s1) = (Ret (), ?s2)"
    using Co_await.prems c fr by (simp add: about_to_run_def after_run_def machine_defs)
  have "about_to_run c ?h (k (call p)) ?s2" using Co_await.prems c m1(1) by (simp add: about_to_run_def)
  from Co_await.IH(2) [OF _ this] obtain n2 m2 ds2 where 4: "machine_run n2 ?s2 = (Ret (), after_run c ?h (k (call p)) m2 ds2 ?s2)"
    and m2: "m1 \<le> m2" "distinct ds2" "set ds2 = {m1..<m2}" by auto
  have r: "after_run c ?h (k (call p)) m2 ds2 ?s2 = after_run c f (Co_await p k) m2 (ds1 @ [?t] @ ds2) s"
    by (simp add: after_run_def)
  have "machine_run (1 + (n1 + (1 + n2))) s = (Ret (), after_run c f (Co_await p k) m2 (ds1 @ [?t] @ ds2) s)"
    using machine_run_trans [OF 1 machine_run_trans [OF 2 machine_run_trans [OF 3 4]]] r by simp
  moreover have "distinct (ds1 @ [?t] @ ds2)" "set (ds1 @ [?t] @ ds2) = {?t..<m2}" "?t \<le> m2" using m1 m2 by auto
  ultimately show ?case by blast
qed

lemma machine_idle: "mc_running s = None \<Longrightarrow> mc_event s = None \<Longrightarrow> machine_run k s = (Ret (), s)"
  by (induction k) (simp_all add: machine_defs)

text \<open>C2: Awaiting a task is calling it.  However deeply coroutines await coroutines, whatever they return or
  throw and however often they wait for events in between: the machine comes to an end, the started
  task has the value or exception a direct call would have given, every event it waited for was
  needed, every frame created on the way was destroyed exactly once and only the started task's own
  frame is left, and at no time was a finished or destroyed coroutine resumed or a missing result read.\<close>

theorem co_await_is_call:
  "\<exists>n s'. machine_run n (machine_start p) = (Ret (), s') \<and> mc_running s' = None \<and> mc_event s' = None \<and>
     mc_frames s' = [0 \<mapsto> \<lparr>tk_started = True, tk_value = Some (call p), tk_awaiting = None, fr_at = At_final\<rparr>] \<and>
     mc_events s' = call_events p \<and> distinct (mc_destroyed s') \<and> set (mc_destroyed s') = {1..<mc_next s'} \<and>
     (\<forall>m. fst (machine_run m (machine_start p)) = Ret ())"
proof -
  let ?f = "\<lparr>tk_started = True, tk_value = None, tk_awaiting = None, fr_at = At p\<rparr>"
  have "about_to_run 0 ?f p (machine_start p)" by (simp add: about_to_run_def machine_start_def)
  from coroutine_runs [OF this] obtain n m ds where r: "machine_run n (machine_start p) = (Ret (), after_run 0 ?f p m ds (machine_start p))"
    and ds: "distinct ds" "set ds = {1..<m}" by (auto simp: machine_start_def)
  let ?s = "after_run 0 ?f p m ds (machine_start p)"
  have f: "mc_running ?s = None" "mc_event ?s = None" "mc_events ?s = call_events p" "mc_destroyed ?s = ds" "mc_next ?s = m"
    "mc_frames ?s = [0 \<mapsto> \<lparr>tk_started = True, tk_value = Some (call p), tk_awaiting = None, fr_at = At_final\<rparr>]"
    by (simp_all add: after_run_def machine_start_def)
  have "fst (machine_run j (machine_start p)) = Ret ()" for j
  proof (cases "j \<le> n")
    case True
    then have "machine_run (j + (n - j)) (machine_start p) = (Ret (), ?s)" using r by simp
    then show ?thesis unfolding machine_run_add by (elim seqA_RetE) simp
  next
    case False
    then have "machine_run (n + (j - n)) (machine_start p) = (Ret (), ?s)" by (intro machine_run_trans [OF r] machine_idle f)
    with False show ?thesis by simp
  qed
  with r ds f show ?thesis by (intro exI [of _ n] exI [of _ ?s]) simp
qed

end
