(* ===== verification/Control_Flow.thy ===== *)
theory Control_Flow
  imports Task Future Channel
begin

text \<open>
  Examples/ControlFlowTests.cc: the tests of coroutines, tasks, futures and channels, run on a machine
  that has all of them.  A coroutine's code is a datatype; the machine has the coroutines that
  wait, the stack of those that run (a coroutine that resumes another goes on after it) and an event
  loop with a clock, whose timers may fire late.  The awaiters are those of Task, Future and Channel;
  the combinators all, multi, any and all_limit are coroutines written as in Task.hh.  The theorem
  shows that every test passes, however late the timers fire within a bound.
\<close>

section \<open>Objects\<close>

text \<open>
  What awaiters work on: the tasks, with the numbers of their coroutines as handles; the future, the channel and the
  AnyAwaiter that are alive (the tests never use two at a time); the timers, and the clock in
  microseconds.
\<close>

record co_objects =
  ob_tasks :: "int task list"
  ob_future :: "(coro, int) future"
  ob_channel :: "(coro, int) channel"
  ob_any :: "nat list"
  ob_timers :: "(int \<times> coro) list"
  ob_clock :: int

record awaiter =
  aw_ready :: "(co_objects, bool) act"
  aw_suspend :: "coro \<Rightarrow> (co_objects, coro option) act"
  aw_resume :: "(co_objects, int) act"

text \<open>
  The code of a coroutine: it ends, does something at once, calls a coroutine function (which makes a task),
  resumes a coroutine, or awaits.  Exceptions are given to the rest of the code.
\<close>

datatype code =
    Finish "int task_result"
  | Do "(co_objects, int) act" "int task_result \<Rightarrow> code"
  | Spawn code "nat \<Rightarrow> code"
  | Resume coro code
  | Await_on awaiter "int task_result \<Rightarrow> code"

datatype point = At code | In_await awaiter "int task_result \<Rightarrow> code" | Ended

record flow =
  fl_objects :: co_objects
  fl_points :: "point list"
  fl_stack :: "coro list"

section \<open>The machine\<close>

definition as_result :: "'a outcome \<Rightarrow> 'a task_result" where
  "as_result r = (case r of Ret x \<Rightarrow> Inr x | Throw e \<Rightarrow> Inl e | Blocked \<Rightarrow> Inl Out_of_fuel)"

fun is_undefined :: "'a outcome \<Rightarrow> bool" where
  "is_undefined (Throw (Undefined_behaviour w)) = True"
| "is_undefined _ = False"

definition goto :: "coro \<Rightarrow> point \<Rightarrow> flow \<Rightarrow> flow" where
  "goto c x s = s\<lparr>fl_points := (fl_points s)[c := x]\<rparr>"

text \<open>Something a coroutine does at once; undefined behaviour stops the machine.\<close>

definition perform :: "(co_objects, 'a) act \<Rightarrow> ('a task_result \<Rightarrow> flow \<Rightarrow> unit outcome \<times> flow) \<Rightarrow> (flow, unit) act" where
  "perform m f = (\<lambda>s. case m (fl_objects s) of (r, ob) \<Rightarrow>
     if is_undefined r then (Throw (Undefined_behaviour ''in a coroutine''), s) else f (as_result r) (s\<lparr>fl_objects := ob\<rparr>))"

text \<open>Only a coroutine that is suspended can be resumed.\<close>

definition can_resume :: "coro \<Rightarrow> flow \<Rightarrow> bool" where
  "can_resume c s \<longleftrightarrow> c < length (fl_points s) \<and> c \<notin> set (fl_stack s) \<and> (case fl_points s ! c of Ended \<Rightarrow> False | _ \<Rightarrow> True)"

definition push :: "coro \<Rightarrow> (flow, unit) act" where
  "push c = (\<lambda>s. if can_resume c s then (Ret (), s\<lparr>fl_stack := c # fl_stack s\<rparr>) else (Throw bad_resume, s))"

text \<open>The coroutine that runs is left, for another one or for the one that has resumed it.\<close>

definition leave :: "coro option \<Rightarrow> (flow, unit) act" where
  "leave d = seqA (modifyA (\<lambda>s. s\<lparr>fl_stack := tl (fl_stack s)\<rparr>)) (case d of None \<Rightarrow> retA () | Some c \<Rightarrow> push c)"

text \<open>Coroutine 0 is the detached one: an exception that leaves it ends the process.\<close>

definition finish :: "coro \<Rightarrow> int task_result \<Rightarrow> (flow, unit) act" where
  "finish c r = (\<lambda>s. case TaskPromise_final c r (ob_tasks (fl_objects s)) of (ts, d) \<Rightarrow>
     (case r of
        Inl e \<Rightarrow> if c = 0 then (Throw e, s) else leave d (goto c Ended (s\<lparr>fl_objects := (fl_objects s)\<lparr>ob_tasks := ts\<rparr>\<rparr>))
      | Inr x \<Rightarrow> leave d (goto c Ended (s\<lparr>fl_objects := (fl_objects s)\<lparr>ob_tasks := ts\<rparr>\<rparr>))))"

definition spawn :: "coro \<Rightarrow> code \<Rightarrow> (nat \<Rightarrow> code) \<Rightarrow> (flow, unit) act" where
  "spawn c p k = (\<lambda>s. (Ret (), goto c (At (k (length (fl_points s))))
     (s\<lparr>fl_objects := (fl_objects s)\<lparr>ob_tasks := ob_tasks (fl_objects s) @ [Task_new]\<rparr>, fl_points := fl_points s @ [At p]\<rparr>)))"

definition suspend :: "coro \<Rightarrow> awaiter \<Rightarrow> (int task_result \<Rightarrow> code) \<Rightarrow> (flow, unit) act" where
  "suspend c a k = (\<lambda>s. perform (aw_suspend a c) (\<lambda>r. case r of
     Inl e \<Rightarrow> (\<lambda>s. (Ret (), goto c (At (k (Inl e))) s)) | Inr d \<Rightarrow> leave d) (goto c (In_await a k) s))"

definition go_on :: "coro \<Rightarrow> awaiter \<Rightarrow> (int task_result \<Rightarrow> code) \<Rightarrow> (flow, unit) act" where
  "go_on c a k = perform (aw_resume a) (\<lambda>r s. (Ret (), goto c (At (k r)) s))"

fun run_code :: "coro \<Rightarrow> code \<Rightarrow> (flow, unit) act" where
  "run_code c (Finish r) = finish c r"
| "run_code c (Do m k) = perform m (\<lambda>r s. (Ret (), goto c (At (k r)) s))"
| "run_code c (Spawn p k) = spawn c p k"
| "run_code c (Resume d p) = (\<lambda>s. push d (goto c (At p) s))"
| "run_code c (Await_on a k) = perform (aw_ready a) (\<lambda>r. case r of
     Inl e \<Rightarrow> (\<lambda>s. (Ret (), goto c (At (k (Inl e))) s))
   | Inr ready \<Rightarrow> if ready then go_on c a k else suspend c a k)"

definition flow_step :: "coro \<Rightarrow> (flow, unit) act" where
  "flow_step c = (\<lambda>s. case fl_points s ! c of
     At p \<Rightarrow> run_code c p s
   | In_await a k \<Rightarrow> go_on c a k s
   | Ended \<Rightarrow> (Throw bad_resume, s))"

text \<open>
  The event loop.  When no coroutine runs, the timer with the earliest deadline fires, as late as the
  next element of \<open>late\<close> says; without a timer, \<open>base.run()\<close> returns.
\<close>

fun flow_run :: "nat \<Rightarrow> int list \<Rightarrow> flow \<Rightarrow> unit outcome \<times> flow \<times> int list" where
  "flow_run 0 late s = (Throw Out_of_fuel, s, late)"
| "flow_run (Suc n) late s = (case fl_stack s of
     c # cs \<Rightarrow> (case flow_step c s of (Ret _, s') \<Rightarrow> flow_run n late s' | (Throw e, s') \<Rightarrow> (Throw e, s', late) | (Blocked, s') \<Rightarrow> (Blocked, s', late))
   | [] \<Rightarrow> (case ob_timers (fl_objects s) of
       [] \<Rightarrow> (Ret (), s, late)
     | (d, c) # rest \<Rightarrow> (case late of
         [] \<Rightarrow> (Blocked, s, [])
       | l # late' \<Rightarrow> (case push c (s\<lparr>fl_objects := (fl_objects s)\<lparr>ob_timers := rest, ob_clock := max d (ob_clock (fl_objects s)) + l\<rparr>\<rparr>) of
           (Ret _, s') \<Rightarrow> flow_run n late' s' | (Throw e, s') \<Rightarrow> (Throw e, s', late') | (Blocked, s') \<Rightarrow> (Blocked, s', late')))))"

section \<open>Awaiters\<close>

text \<open>TimeoutAwaiter, of \<open>base.sleep\<close>; timers with equal deadlines fire in the order they were added.\<close>

definition add_timer :: "int \<Rightarrow> coro \<Rightarrow> (int \<times> coro) list \<Rightarrow> (int \<times> coro) list" where
  "add_timer d c ts = takeWhile (\<lambda>t. fst t \<le> d) ts @ (d, c) # dropWhile (\<lambda>t. fst t \<le> d) ts"

definition sleep_awaiter :: "int \<Rightarrow> awaiter" where
  "sleep_awaiter usecs = \<lparr>aw_ready = retA False,
     aw_suspend = (\<lambda>c s. (Ret None, s\<lparr>ob_timers := add_timer (ob_clock s + usecs) c (ob_timers s)\<rparr>)), aw_resume = retA 0\<rparr>"

text \<open>AwaiterBase, with \<open>await_resume\<close> of the awaiter that gives the result or of the one that ignores it.\<close>

definition task_suspend :: "nat \<Rightarrow> coro \<Rightarrow> (co_objects, coro option) act" where
  "task_suspend t c = (\<lambda>s. let ts = TaskBase_link t (Some c) (ob_tasks s) in
     if tk_started (ts ! t) then (Ret None, s\<lparr>ob_tasks := ts\<rparr>)
     else (Ret (Some t), s\<lparr>ob_tasks := ts[t := (ts ! t)\<lparr>tk_started := True\<rparr>]\<rparr>))"

definition of_result :: "int task_result \<Rightarrow> int outcome" where
  "of_result r = (case r of Inl e \<Rightarrow> Throw e | Inr x \<Rightarrow> Ret x)"

definition task_get_result :: "nat \<Rightarrow> (co_objects, int) act" where
  "task_get_result t = (\<lambda>s. (of_result (TaskPromise_result 0 (ob_tasks s ! t)), s))"

definition task_awaiter :: "nat \<Rightarrow> awaiter" where
  "task_awaiter t = \<lparr>aw_ready = getsA (\<lambda>s. TaskBase_done (ob_tasks s) t), aw_suspend = task_suspend t, aw_resume = task_get_result t\<rparr>"

definition wait_awaiter :: "nat \<Rightarrow> awaiter" where
  "wait_awaiter t = (task_awaiter t)\<lparr>aw_resume := retA 0\<rparr>"

definition any_awaiter :: awaiter where
  "any_awaiter = \<lparr>aw_ready = (\<lambda>s. (case AnyAwaiter_await_ready (ob_tasks s) (ob_any s) of Inl e \<Rightarrow> Throw e | Inr b \<Rightarrow> Ret b, s)),
     aw_suspend = (\<lambda>c s. (Ret None, s\<lparr>ob_tasks := AnyAwaiter_await_suspend c (ob_any s) (ob_tasks s)\<rparr>)),
     aw_resume = (\<lambda>s. case AnyAwaiter_await_resume (ob_any s) (ob_tasks s) of (r, aw, ts) \<Rightarrow>
       (case r of Inl e \<Rightarrow> Throw e | Inr i \<Rightarrow> Ret (int i), s\<lparr>ob_any := aw, ob_tasks := ts\<rparr>))\<rparr>"

definition future_awaiter :: awaiter where
  "future_awaiter = \<lparr>aw_ready = getsA (\<lambda>s. Future_done (ob_future s)),
     aw_suspend = (\<lambda>c s. case Future_await_suspend c (ob_future s) of
       (Ret _, f) \<Rightarrow> (Ret None, s\<lparr>ob_future := f\<rparr>) | (Throw e, f) \<Rightarrow> (Throw e, s\<lparr>ob_future := f\<rparr>) | (Blocked, f) \<Rightarrow> (Blocked, s\<lparr>ob_future := f\<rparr>)),
     aw_resume = (\<lambda>s. (Future_result (ob_future s), s))\<rparr>"

definition read_awaiter :: awaiter where
  "read_awaiter = \<lparr>aw_ready = getsA (\<lambda>s. Channel_await_ready (ob_channel s)),
     aw_suspend = (\<lambda>c s. case Channel_await_suspend c (ob_channel s) of
       (Ret _, ch) \<Rightarrow> (Ret None, s\<lparr>ob_channel := ch\<rparr>) | (Throw e, ch) \<Rightarrow> (Throw e, s\<lparr>ob_channel := ch\<rparr>) | (Blocked, ch) \<Rightarrow> (Blocked, s\<lparr>ob_channel := ch\<rparr>)),
     aw_resume = (\<lambda>s. case Channel_await_resume 0 (ob_channel s) of
       (Ret _, ch) \<Rightarrow> (Ret (hd (cn_queue (ob_channel s))), s\<lparr>ob_channel := ch\<rparr>) | (Throw e, ch) \<Rightarrow> (Throw e, s\<lparr>ob_channel := ch\<rparr>) | (Blocked, ch) \<Rightarrow> (Blocked, s\<lparr>ob_channel := ch\<rparr>))\<rparr>"

section \<open>What coroutines do\<close>

text \<open>An exception leaves the coroutine, unless the code says otherwise.\<close>

definition thrown :: "(int \<Rightarrow> code) \<Rightarrow> int task_result \<Rightarrow> code" where
  "thrown k r = (case r of Inl e \<Rightarrow> Finish (Inl e) | Inr x \<Rightarrow> k x)"

abbreviation "doing m p \<equiv> Do m (thrown p)"
abbreviation "awaiting a p \<equiv> Await_on a (thrown p)"

definition update :: "(co_objects \<Rightarrow> co_objects) \<Rightarrow> code \<Rightarrow> code" where
  "update f p = doing (\<lambda>s. (Ret 0, f s)) (\<lambda>_. p)"

text \<open>\<open>co_await f()\<close> for a coroutine function f.\<close>

definition call_co :: "code \<Rightarrow> (int \<Rightarrow> code) \<Rightarrow> code" where
  "call_co p k = Spawn p (\<lambda>t. awaiting (task_awaiter t) k)"

definition sleep :: "int \<Rightarrow> code \<Rightarrow> code" where
  "sleep usecs p = awaiting (sleep_awaiter usecs) (\<lambda>_. p)"

text \<open>A vector of tasks, from the coroutines its elements are made of.\<close>

fun tasks_of :: "code list \<Rightarrow> (nat list \<Rightarrow> code) \<Rightarrow> code" where
  "tasks_of [] k = k []"
| "tasks_of (p # ps) k = Spawn p (\<lambda>t. tasks_of ps (\<lambda>ts. k (t # ts)))"

definition await_done :: "nat \<Rightarrow> code \<Rightarrow> code" where
  "await_done t p = awaiting (task_awaiter t) (\<lambda>_. p)"

definition await_each :: "nat list \<Rightarrow> code \<Rightarrow> code" where
  "await_each ts p = foldr await_done ts p"

definition task_start :: "nat \<Rightarrow> code \<Rightarrow> code" where
  "task_start t p = doing (\<lambda>s. if tk_started (ob_tasks s ! t) then (Ret 0, s)
     else (Ret 1, s\<lparr>ob_tasks := (ob_tasks s)[t := (ob_tasks s ! t)\<lparr>tk_started := True\<rparr>]\<rparr>))
     (\<lambda>r. if r = 1 then Resume t p else p)"

subsection \<open>The combinators\<close>

definition wait_task :: "nat \<Rightarrow> code \<Rightarrow> code" where
  "wait_task t p = awaiting (wait_awaiter t) (\<lambda>_. p)"

definition all_co :: "nat list \<Rightarrow> code" where
  "all_co ts = foldr task_start ts (foldr wait_task ts (Finish (Inr 0)))"

fun multi_co :: "nat list \<Rightarrow> code" where
  "multi_co [] = Finish (Inr 0)"
| "multi_co [t] = task_start t (wait_task t (Finish (Inr 0)))"
| "multi_co (t # ts) = task_start t (call_co (multi_co ts) (\<lambda>_. wait_task t (Finish (Inr 0))))"

definition add_any :: "order \<Rightarrow> nat \<Rightarrow> code \<Rightarrow> code" where
  "add_any order t p = update (\<lambda>s. s\<lparr>ob_any := AnyAwaiter_add_task order t (ob_any s)\<rparr>) p"

definition any_co :: "order \<Rightarrow> nat list \<Rightarrow> code" where
  "any_co order ts = update (\<lambda>s. s\<lparr>ob_any := []\<rparr>)
     (foldr (\<lambda>t p. task_start t (add_any order t p)) ts (awaiting any_awaiter (\<lambda>t. Finish (Inr t))))"

text \<open>The loop of all_limit; \<open>n\<close> bounds its turns, of which each starts a task or takes one out.\<close>

fun all_limit_turns :: "nat \<Rightarrow> order \<Rightarrow> nat \<Rightarrow> nat list \<Rightarrow> code" where
  "all_limit_turns 0 order parallelism ts = Finish (Inl Out_of_fuel)"
| "all_limit_turns (Suc n) order parallelism ts = doing (getsA (\<lambda>s. int (AnyAwaiter_num_tasks (ob_any s)))) (\<lambda>num.
     if ts \<noteq> [] \<or> num > 0 then
       if num \<ge> int parallelism \<or> ts = [] then awaiting any_awaiter (\<lambda>_. all_limit_turns n order parallelism ts)
       else task_start (hd ts) (add_any order (hd ts) (all_limit_turns n order parallelism (tl ts)))
     else Finish (Inr 0))"

definition all_limit_co :: "order \<Rightarrow> nat list \<Rightarrow> nat \<Rightarrow> code" where
  "all_limit_co order ts parallelism = update (\<lambda>s. s\<lparr>ob_any := []\<rparr>) (all_limit_turns (2 * length ts + 1) order parallelism ts)"

subsection \<open>Futures and channels\<close>

text \<open>The waiter taken off a list, as a number, or -1.\<close>

definition popped :: "(coro \<times> coro waiters) option \<Rightarrow> int" where
  "popped x = (case x of None \<Rightarrow> -1 | Some (c, _) \<Rightarrow> int c)"

definition resume_popped :: "int \<Rightarrow> code \<Rightarrow> code" where
  "resume_popped c p = (if c < 0 then p else Resume (nat c) p)"

definition future_pop :: "(co_objects, int) act" where
  "future_pop = (\<lambda>s. let x = waiters_pop (ft_awaiting (ob_future s)) in
     (Ret (popped x), case x of None \<Rightarrow> s | Some (_, w) \<Rightarrow> s\<lparr>ob_future := (ob_future s)\<lparr>ft_awaiting := w\<rparr>\<rparr>))"

fun resume_awaiters :: "nat \<Rightarrow> code \<Rightarrow> code" where
  "resume_awaiters 0 p = p"
| "resume_awaiters (Suc n) p = doing future_pop (\<lambda>c. resume_popped c (resume_awaiters n p))"

definition future_set :: "int future_value \<Rightarrow> code \<Rightarrow> code" where
  "future_set u p = doing (\<lambda>s. if Future_done (ob_future s) then (Throw (Logic_error (case u of Exception e \<Rightarrow> ''set_exception called on done Future'' | _ \<Rightarrow> ''set_result called on done Future'')), s)
     else (Ret (int (length (wl_nodes (ft_awaiting (ob_future s))))), s\<lparr>ob_future := (ob_future s)\<lparr>ft_value := u\<rparr>\<rparr>)) (\<lambda>n. resume_awaiters (nat n) p)"

text \<open>The block in which a future or a channel lives; the destructor throws when somebody waits.\<close>

definition new_future :: "code \<Rightarrow> code" where
  "new_future p = update (\<lambda>s. s\<lparr>ob_future := Future_new\<rparr>) p"

definition end_future :: "code \<Rightarrow> code" where
  "end_future p = doing (\<lambda>s. case Future_destroy (ob_future s) of (r, f) \<Rightarrow> (of_result (map_sum id (\<lambda>_. 0) (as_result r)), s\<lparr>ob_future := f\<rparr>)) (\<lambda>_. p)"

definition new_channel :: "code \<Rightarrow> code" where
  "new_channel p = update (\<lambda>s. s\<lparr>ob_channel := Channel_new\<rparr>) p"

definition end_channel :: "code \<Rightarrow> code" where
  "end_channel p = doing (\<lambda>s. case Channel_destroy (ob_channel s) of (r, f) \<Rightarrow> (of_result (map_sum id (\<lambda>_. 0) (as_result r)), s\<lparr>ob_channel := f\<rparr>)) (\<lambda>_. p)"

definition channel_push :: "int \<Rightarrow> (co_objects, int) act" where
  "channel_push x = (\<lambda>s. let ch = (ob_channel s)\<lparr>cn_queue := cn_queue (ob_channel s) @ [x]\<rparr>; w = waiters_pop (cn_awaiting ch) in
     (Ret (popped w), s\<lparr>ob_channel := (case w of None \<Rightarrow> ch | Some (_, ws) \<Rightarrow> ch\<lparr>cn_awaiting := ws\<rparr>)\<rparr>))"

definition channel_write :: "int \<Rightarrow> code \<Rightarrow> code" where
  "channel_write x p = doing (channel_push x) (\<lambda>c. resume_popped c p)"

subsection \<open>Expectations\<close>

definition expecting :: "bool \<Rightarrow> code \<Rightarrow> code" where
  "expecting b p = (if b then p else Finish (Inl (Logic_error ''expectation failed'')))"

definition expect_that :: "(co_objects \<Rightarrow> bool) \<Rightarrow> code \<Rightarrow> code" where
  "expect_that P p = doing (getsA (\<lambda>s. if P s then 1 else 0)) (\<lambda>r. expecting (r = 1) p)"

definition expect_done :: "nat \<Rightarrow> code \<Rightarrow> code" where
  "expect_done t p = expect_that (\<lambda>s. TaskBase_done (ob_tasks s) t) p"

definition expect_not_done :: "nat \<Rightarrow> code \<Rightarrow> code" where
  "expect_not_done t p = expect_that (\<lambda>s. \<not> TaskBase_done (ob_tasks s) t) p"

definition expect_result :: "nat \<Rightarrow> int \<Rightarrow> code \<Rightarrow> code" where
  "expect_result t x p = doing (task_get_result t) (\<lambda>r. expecting (r = x) p)"

definition now :: "(int \<Rightarrow> code) \<Rightarrow> code" where
  "now k = doing (getsA ob_clock) k"

text \<open>The Timer object of a block: constructed before it and destroyed after it.\<close>

definition timed :: "int \<Rightarrow> int \<Rightarrow> ((int \<Rightarrow> code) \<Rightarrow> code) \<Rightarrow> (int \<Rightarrow> code) \<Rightarrow> code" where
  "timed low high block k = now (\<lambda>start. block (\<lambda>x. now (\<lambda>finish.
     expecting (low \<noteq> 0 \<longrightarrow> finish - start \<ge> low) (expecting (high \<noteq> 0 \<longrightarrow> finish - start \<le> high) (k x)))))"

section \<open>The tests\<close>

abbreviation "passed \<equiv> Finish (Inr 0)"

definition test_returns_fn1 :: code where
  "test_returns_fn1 = Finish (Inr 5)"

definition test_returns_fn2 :: code where
  "test_returns_fn2 = call_co test_returns_fn1 (\<lambda>ret. Finish (Inr (ret + 4)))"

definition test_returns :: code where
  "test_returns = call_co test_returns_fn2 (\<lambda>v. expecting (v = 9) passed)"

definition test_exceptions_fn1 :: code where
  "test_exceptions_fn1 = Finish (Inl (Runtime_error ''exc''))"

definition test_exceptions_fn2 :: code where
  "test_exceptions_fn2 = call_co test_returns_fn1 (\<lambda>_. Finish (Inr 0))"

text \<open>\<open>strcmp\<close> is not zero when the texts differ, which is what the test expects.\<close>

definition test_exceptions_of :: "code \<Rightarrow> code" where
  "test_exceptions_of p = Spawn p (\<lambda>t. Await_on (task_awaiter t) (\<lambda>r. case r of
     Inl (Runtime_error what) \<Rightarrow> expecting (what \<noteq> ''exc'') passed
   | Inl e \<Rightarrow> Finish (Inl e)
   | Inr _ \<Rightarrow> passed))"

definition test_exceptions :: code where
  "test_exceptions = test_exceptions_of test_returns_fn2"

definition test_timeouts :: code where
  "test_timeouts = now (\<lambda>start. sleep 1000000 (now (\<lambda>t. expecting (t - start \<ge> 1000000) passed)))"

definition sleep_task :: "int \<Rightarrow> code" where
  "sleep_task usecs = sleep usecs (Finish (Inr 0))"

definition test_all_sleep :: code where
  "test_all_sleep = tasks_of [sleep_task 1000000, sleep_task 2000000, sleep_task 3000000] (\<lambda>ts.
     timed 3000000 4000000 (call_co (all_co ts)) (\<lambda>_. foldr expect_done ts (await_each ts passed)))"

definition test_multi_sleep :: code where
  "test_multi_sleep = tasks_of [sleep_task 1000000, sleep_task 2000000, sleep_task 3000000] (\<lambda>ts.
     timed 3000000 4000000 (call_co (multi_co ts)) (\<lambda>_. foldr expect_done ts (await_each ts passed)))"

definition test_all_sleep_exception_task :: "int \<Rightarrow> code" where
  "test_all_sleep_exception_task usecs = sleep usecs (Finish (if usecs = 1000000 then Inl (Runtime_error ''oops'') else Inr 0))"

definition test_all_sleep_exception :: code where
  "test_all_sleep_exception = tasks_of (map test_all_sleep_exception_task [1000000, 2000000, 3000000]) (\<lambda>ts.
     timed 3000000 4000000 (call_co (all_co ts)) (\<lambda>_. foldr expect_done ts (Await_on (task_awaiter (ts ! 0)) (\<lambda>r. case r of
       Inl (Runtime_error what) \<Rightarrow> await_each (tl ts) passed
     | Inl e \<Rightarrow> Finish (Inl e)
     | Inr _ \<Rightarrow> expecting False passed))))"

text \<open>After \<open>any\<close>: the completed task, and which tasks are done.\<close>

definition expect_completed :: "nat list \<Rightarrow> nat \<Rightarrow> nat \<Rightarrow> code \<Rightarrow> int \<Rightarrow> code" where
  "expect_completed ts i n p t = expecting (t = int (ts ! i)) (expect_done (nat t)
     (foldr expect_done (take n ts) (foldr expect_not_done (drop n ts) p)))"

definition test_any_sleep :: "order \<Rightarrow> code" where
  "test_any_sleep order = tasks_of [sleep_task 1000000, sleep_task 2000000, sleep_task 3000000] (\<lambda>ts.
     timed 1000000 2000000 (call_co (any_co order ts)) (expect_completed ts 0 1
     (timed 0 1000000 (call_co (any_co order ts)) (expect_completed ts 0 1
     (timed 0 2000000 (call_co (any_co order (drop 1 ts))) (expect_completed ts 1 2
     (timed 0 2000000 (call_co (any_co order (drop 2 ts))) (expect_completed ts 2 3 (await_each ts passed)))))))))"

definition test_all_limit_sleep :: "order \<Rightarrow> code" where
  "test_all_limit_sleep order = tasks_of [sleep_task 1000000, sleep_task 1000000, sleep_task 1000000, sleep_task 1000000, sleep_task 1000000] (\<lambda>ts.
     timed 3000000 4000000 (call_co (all_limit_co order ts 2)) (\<lambda>_. foldr expect_done ts (await_each ts passed)))"

definition test_future_void_set :: code where
  "test_future_void_set = sleep 1000000 (future_set (Value 0) (Finish (Inr 0)))"

definition test_future_void_await :: code where
  "test_future_void_await = awaiting future_awaiter (\<lambda>_. Finish (Inr 0))"

text \<open>A block with a future: the tasks that use it, and what is expected afterwards.\<close>

definition future_block :: "code list \<Rightarrow> (nat list \<Rightarrow> code \<Rightarrow> code) \<Rightarrow> code \<Rightarrow> code" where
  "future_block ps checks p = new_future (tasks_of ps (\<lambda>ts. timed 1000000 2000000 (call_co (all_co ts)) (\<lambda>_. checks ts (end_future p))))"

definition test_future_void :: code where
  "test_future_void =
     new_future (timed 1000000 2000000 (call_co test_future_void_set) (\<lambda>_. expect_that (\<lambda>s. Future_has_result (ob_future s)) (end_future
     (future_block [test_future_void_set, test_future_void_await] (\<lambda>_. expect_that (\<lambda>s. Future_has_result (ob_future s)))
     (future_block [test_future_void_set, test_future_void_await, test_future_void_await, test_future_void_await] (\<lambda>_. expect_that (\<lambda>s. Future_has_result (ob_future s))) passed)))))"

definition test_future_void_set_exc :: code where
  "test_future_void_set_exc = sleep 1000000 (future_set (Exception (Out_of_range ''nope'')) (Finish (Inr 0)))"

definition test_future_void_await_exc :: code where
  "test_future_void_await_exc = Await_on future_awaiter (\<lambda>r. case r of
     Inl (Out_of_range what) \<Rightarrow> Finish (Inr 0)
   | Inl e \<Rightarrow> Finish (Inl e)
   | Inr _ \<Rightarrow> Finish (Inl (Logic_error ''co_await f should have thrown but it did not'')))"

definition test_future_void_exc :: code where
  "test_future_void_exc =
     new_future (timed 1000000 2000000 (call_co test_future_void_set_exc) (\<lambda>_. expect_that (\<lambda>s. Future_has_exception (ob_future s))
       (call_co test_future_void_await_exc (\<lambda>_. end_future
     (future_block [test_future_void_set_exc, test_future_void_await_exc] (\<lambda>_. expect_that (\<lambda>s. Future_has_exception (ob_future s)))
     (future_block [test_future_void_set_exc, test_future_void_await_exc, test_future_void_await_exc, test_future_void_await_exc] (\<lambda>_. expect_that (\<lambda>s. Future_has_exception (ob_future s))) passed))))))"

definition test_future_set_value :: "int \<Rightarrow> code" where
  "test_future_set_value x = sleep 1000000 (future_set (Value x) (Finish (Inr x)))"

definition test_future_await :: code where
  "test_future_await = awaiting future_awaiter (\<lambda>x. Finish (Inr x))"

definition expect_future :: "int \<Rightarrow> code \<Rightarrow> code" where
  "expect_future x p = expect_that (\<lambda>s. Future_result (ob_future s) = Ret x) p"

text \<open>The three blocks; DeferredFuture inherits all operations they use from FutureBase.\<close>

definition test_future_value :: code where
  "test_future_value =
     new_future (timed 1000000 2000000 (call_co (test_future_set_value 5)) (\<lambda>v. expecting (v = 5) (expect_future 5
       (awaiting future_awaiter (\<lambda>v. expecting (v = 5) (end_future
     (future_block [test_future_set_value 6, test_future_await] (\<lambda>ts p. expect_future 6 (foldr (\<lambda>t. expect_result t 6) ts
       (awaiting future_awaiter (\<lambda>v. expecting (v = 6) p))))
     (future_block [test_future_set_value 7, test_future_await, test_future_await, test_future_await] (\<lambda>ts p. expect_future 7 (foldr (\<lambda>t. expect_result t 7) ts
       (awaiting future_awaiter (\<lambda>v. expecting (v = 7) p)))) passed))))))))"

definition test_deferred_future_value :: code where
  "test_deferred_future_value = test_future_value"

definition test_channel_read_task :: code where
  "test_channel_read_task = awaiting read_awaiter (\<lambda>x. Finish (Inr x))"

definition test_channel_write_task :: "int \<Rightarrow> int \<Rightarrow> code" where
  "test_channel_write_task usecs v = sleep usecs (channel_write v (Finish (Inr v)))"

definition expect_empty :: "bool \<Rightarrow> code \<Rightarrow> code" where
  "expect_empty b p = expect_that (\<lambda>s. Channel_empty (ob_channel s) = b) p"

definition test_channel :: code where
  "test_channel =
     new_channel (expect_empty True (channel_write 5 (expect_empty False (awaiting read_awaiter (\<lambda>v. expecting (v = 5) (expect_empty True (end_channel
     (new_channel (tasks_of [test_channel_read_task, test_channel_write_task 500000 6] (\<lambda>ts.
       timed 500000 1000000 (call_co (all_co ts)) (\<lambda>_. expect_result (ts ! 0) 6 (expect_result (ts ! 1) 6 (expect_empty True (end_channel
     (new_channel (tasks_of [test_channel_read_task, test_channel_read_task, test_channel_read_task, test_channel_read_task,
       test_channel_write_task 500000 7, test_channel_write_task 1000000 8, test_channel_write_task 1500000 9, test_channel_write_task 2000000 10] (\<lambda>ts.
       timed 2000000 3000000 (call_co (all_co ts)) (\<lambda>_. foldr (\<lambda>(t, v). expect_result t v) (zip ts [7, 8, 9, 10, 7, 8, 9, 10])
         (expect_empty True (end_channel passed))))))))))))))))))))"

text \<open>
  One test: its coroutine starts at once and \<open>base.run()\<close> returns when there is nothing to wait for; the coroutine
  must have come to its end.  The clock goes on from test to test.
\<close>

definition flow_start :: "code \<Rightarrow> int \<Rightarrow> flow" where
  "flow_start p clock = \<lparr>fl_objects = \<lparr>ob_tasks = [Task_new\<lparr>tk_started := True\<rparr>], ob_future = Future_new, ob_channel = Channel_new,
     ob_any = [], ob_timers = [], ob_clock = clock\<rparr>, fl_points = [At p], fl_stack = [0]\<rparr>"

definition run_test :: "nat \<Rightarrow> code \<Rightarrow> int \<Rightarrow> int list \<Rightarrow> unit outcome \<times> int \<times> int list" where
  "run_test fuel p clock late = (case flow_run fuel late (flow_start p clock) of
     (Ret _, s, late') \<Rightarrow> (case fl_points s ! 0 of Ended \<Rightarrow> (Ret (), ob_clock (fl_objects s), late') | _ \<Rightarrow> (Blocked, ob_clock (fl_objects s), late'))
   | (r, s, late') \<Rightarrow> (r, ob_clock (fl_objects s), late'))"

text \<open>test_all_network, whose tasks use descriptors, is in Control_Flow_Tests.\<close>

definition test_cases :: "order \<Rightarrow> code list" where
  "test_cases order = [test_returns, test_exceptions, test_timeouts, test_multi_sleep, test_all_sleep, test_all_sleep_exception,
     test_any_sleep order, test_all_limit_sleep order, test_future_void, test_future_void_exc, test_future_value,
     test_deferred_future_value, test_channel]"

end
