(* ===== verification/Control_Flow_Tests.thy ===== *)
theory Control_Flow_Tests
  imports Control_Flow Buffer_Async
begin

text \<open>
  The proof that the tests of Control_Flow pass, and the test of Examples/ControlFlowTests.cc that goes over the
  network.  A test is run symbolically: the time at which it starts, how late each timer fires and the
  order in which an unordered set of tasks is iterated are variables.
\<close>

section \<open>All tests\<close>

text \<open>The loop of \<open>main\<close>; a test takes fewer than 1000 steps.\<close>

fun run_tests :: "code list \<Rightarrow> int \<Rightarrow> int list \<Rightarrow> unit outcome \<times> int \<times> int list" where
  "run_tests [] clock late = (Ret (), clock, late)"
| "run_tests (p # ps) clock late = (case run_test 1000 p clock late of
     (Ret _, clock', late') \<Rightarrow> run_tests ps clock' late' | (r, clock', late') \<Rightarrow> (r, clock', late'))"

text \<open>The next \<open>n\<close> timers fire at most a tenth of a second late.\<close>

fun timely :: "nat \<Rightarrow> int list \<Rightarrow> bool" where
  "timely 0 ls = True"
| "timely (Suc n) [] = False"
| "timely (Suc n) (l # ls) = (0 \<le> l \<and> l \<le> 100000 \<and> timely n ls)"

lemma timely_Suc: "timely (Suc n) ls \<longleftrightarrow> (\<exists>l ls'. ls = l # ls' \<and> 0 \<le> l \<and> l \<le> 100000 \<and> timely n ls')"
  by (cases ls) simp_all

lemma timely_numeral: "timely (numeral k) ls \<longleftrightarrow> (\<exists>l ls'. ls = l # ls' \<and> 0 \<le> l \<and> l \<le> 100000 \<and> timely (pred_numeral k) ls')"
  by (simp add: numeral_eq_Suc timely_Suc)

definition passes_test :: "nat \<Rightarrow> code \<Rightarrow> bool" where
  "passes_test k p \<longleftrightarrow> (\<forall>c ls. timely k ls \<longrightarrow> (\<exists>c'. run_test 1000 p c ls = (Ret (), c', drop k ls)))"

lemma passes_testI:
  "(\<And>c l ls. 0 \<le> l \<Longrightarrow> l \<le> 100000 \<Longrightarrow> \<exists>c'. run_test 1000 p c (l # ls) = (Ret (), c', ls)) \<Longrightarrow> passes_test 1 p"
  "(\<And>c l1 l2 l3 ls. \<lbrakk>0 \<le> l1; l1 \<le> 100000; 0 \<le> l2; l2 \<le> 100000; 0 \<le> l3; l3 \<le> 100000\<rbrakk> \<Longrightarrow> \<exists>c'. run_test 1000 p c (l1 # l2 # l3 # ls) = (Ret (), c', ls)) \<Longrightarrow> passes_test 3 p"
  "(\<And>c l1 l2 l3 l4 l5 ls. \<lbrakk>0 \<le> l1; l1 \<le> 100000; 0 \<le> l2; l2 \<le> 100000; 0 \<le> l3; l3 \<le> 100000; 0 \<le> l4; l4 \<le> 100000; 0 \<le> l5; l5 \<le> 100000\<rbrakk> \<Longrightarrow> \<exists>c'. run_test 1000 p c (l1 # l2 # l3 # l4 # l5 # ls) = (Ret (), c', ls)) \<Longrightarrow> passes_test 5 p"
  by (auto simp: passes_test_def timely_Suc timely_numeral)

lemma timely_add: "timely (m + n) ls \<Longrightarrow> timely m ls \<and> timely n (drop m ls)"
  by (induction m ls rule: timely.induct) simp_all

lemma run_tests_pass:
  "list_all2 passes_test ks ps \<Longrightarrow> timely (sum_list ks) ls \<Longrightarrow> \<exists>c'. run_tests ps c ls = (Ret (), c', drop (sum_list ks) ls)"
proof (induction arbitrary: c ls rule: list_all2_induct)
  case (Cons k ks p ps)
  have t: "timely k ls" "timely (sum_list ks) (drop k ls)" using timely_add [of k "sum_list ks" ls] Cons.prems by simp_all
  then obtain c1 where "run_test 1000 p c ls = (Ret (), c1, drop k ls)" using Cons.hyps(1) by (auto simp: passes_test_def)
  with Cons.IH [OF t(2), of c1] show ?case by (simp add: add.commute)
qed simp

section \<open>Running the machine\<close>

text \<open>
  The code of a coroutine is unfolded only when it is run, and an awaiter only when it is asked.
\<close>

lemmas flow_run_numeral = flow_run.simps(2) [of "pred_numeral k" for k, folded numeral_eq_Suc]

lemma awaiter_rules:
  "aw_ready (task_awaiter t) = getsA (\<lambda>s. TaskBase_done (ob_tasks s) t)" "aw_suspend (task_awaiter t) = task_suspend t" "aw_resume (task_awaiter t) = task_get_result t"
  "aw_ready (wait_awaiter t) = getsA (\<lambda>s. TaskBase_done (ob_tasks s) t)" "aw_suspend (wait_awaiter t) = task_suspend t" "aw_resume (wait_awaiter t) = retA 0"
  "aw_ready (sleep_awaiter u) = retA False" "aw_resume (sleep_awaiter u) = retA 0"
  "aw_suspend (sleep_awaiter u) c s = (Ret None, s\<lparr>ob_timers := add_timer (ob_clock s + u) c (ob_timers s)\<rparr>)"
  by (simp_all add: task_awaiter_def wait_awaiter_def sleep_awaiter_def)

lemma future_awaiter_rules:
  "aw_ready future_awaiter = getsA (\<lambda>s. Future_done (ob_future s))" "aw_resume future_awaiter s = (Future_result (ob_future s), s)"
  "aw_suspend future_awaiter c s = (case Future_await_suspend c (ob_future s) of
       (Ret _, f) \<Rightarrow> (Ret None, s\<lparr>ob_future := f\<rparr>) | (Throw e, f) \<Rightarrow> (Throw e, s\<lparr>ob_future := f\<rparr>) | (Blocked, f) \<Rightarrow> (Blocked, s\<lparr>ob_future := f\<rparr>))"
  by (simp_all add: future_awaiter_def)

lemma read_awaiter_rules:
  "aw_ready read_awaiter = getsA (\<lambda>s. Channel_await_ready (ob_channel s))"
  "aw_suspend read_awaiter c s = (case Channel_await_suspend c (ob_channel s) of
       (Ret _, ch) \<Rightarrow> (Ret None, s\<lparr>ob_channel := ch\<rparr>) | (Throw e, ch) \<Rightarrow> (Throw e, s\<lparr>ob_channel := ch\<rparr>) | (Blocked, ch) \<Rightarrow> (Blocked, s\<lparr>ob_channel := ch\<rparr>))"
  "aw_resume read_awaiter s = (case Channel_await_resume 0 (ob_channel s) of
       (Ret _, ch) \<Rightarrow> (Ret (hd (cn_queue (ob_channel s))), s\<lparr>ob_channel := ch\<rparr>) | (Throw e, ch) \<Rightarrow> (Throw e, s\<lparr>ob_channel := ch\<rparr>) | (Blocked, ch) \<Rightarrow> (Blocked, s\<lparr>ob_channel := ch\<rparr>))"
  by (simp_all add: read_awaiter_def)

lemmas code_rules [THEN arg_cong, of "run_code c" for c] = call_co_def sleep_def await_done_def await_each_def task_start_def
  wait_task_def expecting_def expect_that_def expect_done_def expect_not_done_def expect_result_def now_def timed_def update_def sleep_task_def
  all_co_def multi_co.simps test_all_sleep_exception_task_def new_future_def end_future_def future_block_def future_set_def resume_awaiters.simps resume_awaiters.simps(2) [of "pred_numeral k" for k, folded numeral_eq_Suc] resume_popped_def
  test_future_void_set_def test_future_void_await_def test_future_void_set_exc_def test_future_void_await_exc_def test_future_set_value_def test_future_await_def expect_future_def
  new_channel_def end_channel_def channel_write_def add_any_def any_co_def all_limit_co_def all_limit_turns.simps all_limit_turns.simps(2) [of "pred_numeral k" for k, folded numeral_eq_Suc] expect_completed_def test_channel_read_task_def test_channel_write_task_def expect_empty_def

lemma run_thrown: "run_code c (thrown k r) = run_code c (case r of Inl e \<Rightarrow> Finish (Inl e) | Inr x \<Rightarrow> k x)"
  by (simp add: thrown_def)

lemmas machine_rules = flow_run_numeral perform_def goto_def finish_def leave_def push_def can_resume_def spawn_def suspend_def go_on_def flow_step_def
  as_result_def TaskPromise_final_def Task_new_def seqA_def bindA_def run_thrown awaiter_rules code_rules
  task_suspend_def task_get_result_def of_result_def TaskPromise_result_def TaskBase_link_def TaskBase_done_def add_timer_def

lemmas waiter_rules = future_awaiter_rules read_awaiter_rules Future_done_def Future_result_def Future_await_suspend_def Future_new_def Future_has_result_def Future_has_exception_def Future_destroy_def
  future_pop_def popped_def waiters_pop_def waiters_add_def waiters_new_def waiters_empty_def emplace_after_def channel_push_def Channel_new_def Channel_await_ready_def Channel_await_suspend_def
  Channel_await_resume_def Channel_empty_def Channel_destroy_def

text \<open>The order of the tasks in an AnyAwaiter does not matter when at most one of them is done.\<close>

lemma link_commute: "TaskBase_link i c (TaskBase_link j c ts) = TaskBase_link j c (TaskBase_link i c ts)"
  by (cases "i = j") (simp_all add: TaskBase_link_def list_update_swap)

lemma fold_link_insort: "fold (\<lambda>i. TaskBase_link i c) (insort_key f x xs) ts = fold (\<lambda>i. TaskBase_link i c) (x # xs) ts"
  by (induction xs arbitrary: ts) (simp_all add: link_commute)

lemma fold_link_sort: "fold (\<lambda>i. TaskBase_link i c) (sort_key f xs) ts = fold (\<lambda>i. TaskBase_link i c) xs ts"
  by (induction xs arbitrary: ts) (simp_all add: fold_link_insort)

lemma find_filter: "find P xs = (case filter P xs of [] \<Rightarrow> None | x # _ \<Rightarrow> Some x)"
  by (induction xs) simp_all

lemma any_resume_filter:
  "AnyAwaiter_await_resume aw ts = (case filter (TaskBase_done ts) aw of
     [] \<Rightarrow> Inl (Logic_error ''no task resumed during AnyAwaiter suspend'') | i # _ \<Rightarrow> Inr i,
     filter (\<lambda>i. \<not> TaskBase_done ts i) aw, fold (\<lambda>i. TaskBase_link i None) (filter (\<lambda>i. \<not> TaskBase_done ts i) aw) ts)"
  by (simp add: AnyAwaiter_await_resume_def any_resume_loop_eq find_filter split: list.splits)

lemma any_awaiter_rules:
  "aw_ready any_awaiter s = (case AnyAwaiter_await_ready (ob_tasks s) (ob_any s) of Inl e \<Rightarrow> Throw e | Inr b \<Rightarrow> Ret b, s)"
  "aw_suspend any_awaiter c s = (Ret None, s\<lparr>ob_tasks := AnyAwaiter_await_suspend c (ob_any s) (ob_tasks s)\<rparr>)"
  "aw_resume any_awaiter s = (case AnyAwaiter_await_resume (ob_any s) (ob_tasks s) of (r, aw, ts) \<Rightarrow>
       (case r of Inl e \<Rightarrow> Throw e | Inr i \<Rightarrow> Ret (int i), s\<lparr>ob_any := aw, ob_tasks := ts\<rparr>))"
  by (simp_all add: any_awaiter_def)

lemma sort_key_short: "sort_key f [] = []" "sort_key f [x] = [x]"
  by simp_all

lemmas any_rules = any_awaiter_rules any_resume_filter await_ready_started AnyAwaiter_await_suspend_def AnyAwaiter_add_task_def AnyAwaiter_num_tasks_def
  filter_sort fold_link_sort sort_key_short

lemmas test_rules = run_test_def flow_start_def machine_rules

section \<open>The tests\<close>

lemma test_returns_passes: "passes_test 0 test_returns"
  by (simp add: passes_test_def test_returns_def test_returns_fn2_def test_returns_fn1_def test_rules)

lemma test_exceptions_passes: "passes_test 0 test_exceptions"
  by (simp add: passes_test_def test_exceptions_def test_exceptions_of_def test_returns_fn2_def test_returns_fn1_def test_rules)

lemma test_timeouts_passes: "passes_test 1 test_timeouts"
  by (rule passes_testI) (simp add: test_timeouts_def test_rules)

lemma test_multi_sleep_passes: "passes_test 3 test_multi_sleep"
  by (rule passes_testI) (simp add: test_multi_sleep_def test_rules)

lemma test_all_sleep_passes: "passes_test 3 test_all_sleep"
  by (rule passes_testI) (simp add: test_all_sleep_def test_rules)

lemma test_all_sleep_exception_passes: "passes_test 3 test_all_sleep_exception"
  by (rule passes_testI) (simp add: test_all_sleep_exception_def test_rules)

lemma test_any_sleep_passes: "passes_test 3 (test_any_sleep order)"
  by (rule passes_testI) (simp add: test_any_sleep_def any_rules test_rules del: sort_key_simps AnyAwaiter_await_ready.simps)

lemma test_all_limit_sleep_passes: "passes_test 5 (test_all_limit_sleep order)"
  by (rule passes_testI) (simp add: test_all_limit_sleep_def any_rules test_rules del: sort_key_simps AnyAwaiter_await_ready.simps)

lemma test_future_void_passes: "passes_test 3 test_future_void"
  by (rule passes_testI) (simp add: test_future_void_def waiter_rules test_rules)

lemma test_future_void_exc_passes: "passes_test 3 test_future_void_exc"
  by (rule passes_testI) (simp add: test_future_void_exc_def waiter_rules test_rules)

lemma test_future_value_passes: "passes_test 3 test_future_value"
  by (rule passes_testI) (simp add: test_future_value_def waiter_rules test_rules)

lemma test_channel_passes: "passes_test 5 test_channel"
  by (rule passes_testI) (simp add: test_channel_def waiter_rules test_rules)

text \<open>The test of exceptions awaits \<open>test_returns_fn2\<close>, which does not throw; with the function that was meant, its expectation
  would fail, because \<open>strcmp\<close> of equal texts is zero.\<close>

theorem test_exceptions_wrong:
  "fst (run_test 1000 (test_exceptions_of test_exceptions_fn1) clock late) = Throw (Logic_error ''expectation failed'')"
  by (simp add: test_exceptions_of_def test_exceptions_fn1_def test_rules)

section \<open>The test over the network\<close>

definition chunk_data :: bytes where
  "chunk_data = replicate 1024 0"

text \<open>The loop; \<open>should_read\<close> does not change.\<close>

fun network_loop :: "'b evbuffer_api \<Rightarrow> bool \<Rightarrow> nat \<Rightarrow> (('b, 'z) chan_scheme, unit) act" where
  "network_loop E should_read 0 = retA ()"
| "network_loop E should_read (Suc n) = seqA
     (if should_read then seqA (Buffer_read E (length chunk_data)) (bindA (on_buf (Buffer_remove E (length chunk_data))) (\<lambda>d.
        seqA (if chunk_data = d then retA () else throwA (Logic_error ''expectation failed'')) (on_buf (Buffer_drain_all E))))
      else seqA (on_buf (Buffer_add_reference E chunk_data)) (seqA (Buffer_write E (-1)) (on_buf (Buffer_drain_all E))))
     (network_loop E should_read n)"

definition test_all_network_fn :: "'b evbuffer_api \<Rightarrow> nat \<Rightarrow> bool \<Rightarrow> (('b, 'z) chan_scheme, unit) act" where
  "test_all_network_fn E num_iterations read_first = seqA (Buffer_new E) (network_loop E read_first num_iterations)"

lemma network_loop_sim: "evbuffer_spec E v \<Longrightarrow> simA (chan_abs v) (network_loop E r n) (network_loop (evb_ref E) r n)"
proof (induction n)
  case (Suc n)
  note IH = Suc.IH [OF Suc.prems]
  show ?case unfolding network_loop.simps Buffer_drain_all_def Buffer_read_def by (intro sim_intros Suc.prems IH)
qed (simp add: simA_def)

lemma length_chunk: "length chunk_data = 1024" "chunk_data \<noteq> []"
  by (simp_all add: chunk_data_def)

lemma drain_empty: "Buffer_drain_all (evb_list z) [] = (Ret (), [])"
  by (simp add: Buffer_drain_all_def bindA_def Buffer_list)

lemma reaches_read:
  assumes "chan_at [] (d @ inp) out w x s" and "length d < 2 ^ 31" and "d \<noteq> []"
  shows "reaches (Buffer_read (evb_list z) (length d)) s () (chan_at d inp out w x)"
proof -
  have "Buffer_read (evb_list z) (length d) s = Buffer_read_to (evb_list z) (length d) s"
    using assms by (simp add: Buffer_read_def Buffer_read_to_def bindA_def on_buf_def Buffer_list chan_at_def)
  with reaches_read_to [OF assms(1), of "length d" z] assms(2) show ?thesis by (simp add: reaches_def)
qed

lemma network_write_list:
  "chan_at [] inp out (n * 1024 + w) x s \<Longrightarrow>
     reaches (network_loop (evb_list z) False n) s () (chan_at [] inp (out @ concat (replicate n chunk_data)) w x)"
proof (induction n arbitrary: out s)
  case (Suc n)
  have 0: "chan_at [] inp out (length chunk_data + (n * 1024 + w)) x s" using Suc.prems by (simp add: length_chunk add.assoc)
  have add: "Buffer_add_reference (evb_list z) chunk_data [] = (Ret (), chunk_data)" by (simp add: Buffer_list)
  have "reaches (seqA (on_buf (Buffer_add_reference (evb_list z) chunk_data)) (seqA (Buffer_write (evb_list z) (-1)) (on_buf (Buffer_drain_all (evb_list z))))) s ()
      (chan_at [] inp (out @ chunk_data) (n * 1024 + w) x)"
    by (rule reaches_seqA, rule reaches_on_buf [OF 0], rule add, rule reaches_seqA, erule reaches_write)
      (auto simp: length_chunk drain_empty intro: reaches_on_buf)
  from reaches_seqA [OF this Suc.IH [where out = "out @ chunk_data"]] show ?case by simp
qed (simp add: reaches_def)

lemma network_read_list:
  "chan_at [] (concat (replicate n chunk_data) @ inp) out w x s \<Longrightarrow> reaches (network_loop (evb_list z) True n) s () (chan_at [] inp out w x)"
proof (induction n arbitrary: s)
  case (Suc n)
  then have 0: "chan_at [] (chunk_data @ (concat (replicate n chunk_data) @ inp)) out w x s" by simp
  have rm: "Buffer_remove (evb_list z) (length chunk_data) chunk_data = (Ret chunk_data, [])" by (simp add: Buffer_remove_list)
  have "reaches (seqA (Buffer_read (evb_list z) (length chunk_data)) (bindA (on_buf (Buffer_remove (evb_list z) (length chunk_data))) (\<lambda>d.
        seqA (if chunk_data = d then retA () else throwA (Logic_error ''expectation failed'')) (on_buf (Buffer_drain_all (evb_list z)))))) s ()
      (chan_at [] (concat (replicate n chunk_data) @ inp) out w x)"
    by (rule reaches_seqA [OF reaches_read [OF 0]], (simp_all add: length_chunk)[2], rule reaches_bindA, erule reaches_on_buf, rule rm)
      (auto simp: seqA_def bindA_def reaches_def on_buf_def drain_empty chan_at_def live_def)
  from reaches_seqA [OF this Suc.IH] show ?case by simp
qed (simp add: reaches_def)

text \<open>The two tasks of test_all_network: what the one writes to its end of the socket pair, in whatever pieces, is what the
  other needs to read from its end, in whatever pieces, to see its expectations met and end.\<close>

lemma test_all_network_passes:
  fixes E :: "'b evbuffer_api"
  assumes "evbuffer_spec E v" and "live (n * 1024) sw"
  shows "\<exists>sw'. test_all_network_fn E n False sw = (Ret (), sw') \<and>
     (\<forall>sr :: ('b, 'y) chan_scheme. ch_out sw' = ch_out sw @ ch_inp sr \<and> live 0 sr \<longrightarrow> (\<exists>sr'. test_all_network_fn E n True sr = (Ret (), sr') \<and> ch_inp sr' = []))"
proof -
  obtain b where b: "evbuffer_new E = Some b" "v b = []" using evb_laws(1) [OF assms(1)] by auto
  let ?data = "concat (replicate n chunk_data)"
  have "chan_at [] (ch_inp sw) (ch_out sw) (n * 1024 + 0) (chan.more sw) (chan_abs v (sw\<lparr>ch_buf := b\<rparr>))"
    using assms(2) b(2) by (simp add: chan_at_def live_def chan_abs_def)
  from network_write_list [OF this, of "evbuffer_write_none E"]
  have "reaches (network_loop (evb_ref E) False n) (chan_abs v (sw\<lparr>ch_buf := b\<rparr>)) () (chan_at [] (ch_inp sw) (ch_out sw @ ?data) 0 (chan.more sw))" by (simp add: evb_ref_def)
  then obtain sw' where w: "network_loop E False n (sw\<lparr>ch_buf := b\<rparr>) = (Ret (), sw')" "ch_out sw' = ch_out sw @ ?data"
    by (rule reaches_chanE [OF network_loop_sim [OF assms(1)]]) auto
  have "\<exists>sr'. network_loop E True n (sr\<lparr>ch_buf := b\<rparr>) = (Ret (), sr') \<and> ch_inp sr' = []" if "ch_inp sr = ?data" "live 0 sr" for sr :: "('b, 'y) chan_scheme"
  proof -
    have "chan_at [] (?data @ []) (ch_out sr) 0 (chan.more sr) (chan_abs v (sr\<lparr>ch_buf := b\<rparr>))"
      using that b(2) by (simp add: chan_at_def live_def chan_abs_def)
    from network_read_list [OF this, of "evbuffer_write_none E"]
    have "reaches (network_loop (evb_ref E) True n) (chan_abs v (sr\<lparr>ch_buf := b\<rparr>)) () (chan_at [] [] (ch_out sr) 0 (chan.more sr))" by (simp add: evb_ref_def)
    then show ?thesis by (rule reaches_chanE [OF network_loop_sim [OF assms(1)]]) auto
  qed
  with w show ?thesis by (auto simp: test_all_network_fn_def seqA_def bindA_def Buffer_new_def b)
qed

section \<open>The program\<close>



end
