(* ===== verification/Ownership.thy ===== *)
theory Ownership
  imports Prelude
begin

text \<open>
  Objects that own a handle of a library: an event, a DNS base, a coroutine frame, a connection.
  Their classes can be moved and not copied; the handle is released by the destructor and, in some
  classes, by move assignment.  The locale \<open>owning_handle\<close> is the contract of such a class, with
  the invariant of every program that uses its objects: no handle is released twice, and an object
  never refers to a released handle or to the handle of another object.  \<open>releasing_handle\<close> adds
  that move assignment releases what the target held, and gives that no handle is ever lost.
  Every owning class of the library is an interpretation, in the theory of its component.
\<close>

section \<open>Programs that use owning objects\<close>

text \<open>
  \<open>made ob\<close>: a constructor can give \<open>ob\<close>; \<open>held ob\<close>: the handle it owns; \<open>move\<close> gives the new object
  and what is left of the old one; \<open>assign a b\<close> gives the new value of \<open>a\<close>, what is left of \<open>b\<close>, and
  the handles released; \<open>release\<close> is the destructor or an explicit close.
\<close>

record ('o, 'h) owner_ops =
  made :: "'o \<Rightarrow> bool"
  held :: "'o \<Rightarrow> 'h option"
  move_from :: "'o \<Rightarrow> 'o \<times> 'o"
  assign_from :: "'o \<Rightarrow> 'o \<Rightarrow> 'o \<times> 'o \<times> 'h list"
  release :: "'o \<Rightarrow> 'o \<times> 'h list"

text \<open>The objects a program holds, by the variable that holds them, the handles it was given and those it has released.\<close>

record ('o, 'h) owner_state =
  os_objects :: "nat \<rightharpoonup> 'o"
  os_acquired :: "'h list"
  os_released :: "'h list"

definition owner_start :: "('o, 'h) owner_state" where
  "owner_start = \<lparr>os_objects = Map.empty, os_acquired = [], os_released = []\<rparr>"

text \<open>
  A step: construction with a handle the library has not given before, move construction, move
  assignment to another object, an explicit release, the end of an object's life.
\<close>

inductive owner_step :: "('o, 'h) owner_ops \<Rightarrow> ('o, 'h) owner_state \<Rightarrow> ('o, 'h) owner_state \<Rightarrow> bool" for C where
  construct: "made C ob \<Longrightarrow> os_objects s i = None \<Longrightarrow> (\<And>h. held C ob = Some h \<Longrightarrow> h \<notin> set (os_acquired s)) \<Longrightarrow>
    owner_step C s (s\<lparr>os_objects := (os_objects s)(i \<mapsto> ob),
      os_acquired := os_acquired s @ (case held C ob of None \<Rightarrow> [] | Some h \<Rightarrow> [h])\<rparr>)"
| move: "os_objects s i = Some ob \<Longrightarrow> os_objects s j = None \<Longrightarrow> move_from C ob = (new, old) \<Longrightarrow>
    owner_step C s (s\<lparr>os_objects := (os_objects s)(i \<mapsto> old, j \<mapsto> new)\<rparr>)"
| assign: "os_objects s i = Some ob \<Longrightarrow> os_objects s j = Some ob2 \<Longrightarrow> i \<noteq> j \<Longrightarrow> assign_from C ob ob2 = (new, old, r) \<Longrightarrow>
    owner_step C s (s\<lparr>os_objects := (os_objects s)(i \<mapsto> new, j \<mapsto> old), os_released := os_released s @ r\<rparr>)"
| close: "os_objects s i = Some ob \<Longrightarrow> release C ob = (new, r) \<Longrightarrow>
    owner_step C s (s\<lparr>os_objects := (os_objects s)(i \<mapsto> new), os_released := os_released s @ r\<rparr>)"
| destroy: "os_objects s i = Some ob \<Longrightarrow> release C ob = (new, r) \<Longrightarrow>
    owner_step C s (s\<lparr>os_objects := (os_objects s)(i := None), os_released := os_released s @ r\<rparr>)"

definition holds :: "('o, 'h) owner_ops \<Rightarrow> (nat \<rightharpoonup> 'o) \<Rightarrow> nat \<Rightarrow> 'h \<Rightarrow> bool" where
  "holds C m i h \<longleftrightarrow> (case m i of None \<Rightarrow> False | Some ob \<Rightarrow> held C ob = Some h)"

text \<open>Every handle that is held was acquired, has not been released, and is held by one object; handles are released once.\<close>

definition handles_safe :: "('o, 'h) owner_ops \<Rightarrow> ('o, 'h) owner_state \<Rightarrow> bool" where
  "handles_safe C s \<longleftrightarrow> distinct (os_released s) \<and> set (os_released s) \<subseteq> set (os_acquired s) \<and>
     (\<forall>i h. holds C (os_objects s) i h \<longrightarrow> h \<in> set (os_acquired s) \<and> h \<notin> set (os_released s) \<and>
        (\<forall>j. holds C (os_objects s) j h \<longrightarrow> j = i))"

text \<open>Every handle that was acquired is held by an object or has been released.\<close>

definition handles_kept :: "('o, 'h) owner_ops \<Rightarrow> ('o, 'h) owner_state \<Rightarrow> bool" where
  "handles_kept C s \<longleftrightarrow> (\<forall>h\<in>set (os_acquired s). h \<in> set (os_released s) \<or> (\<exists>i. holds C (os_objects s) i h))"

lemma holds_simps [simp]:
  "holds C (m(i \<mapsto> ob)) k h \<longleftrightarrow> (if k = i then held C ob = Some h else holds C m k h)"
  "holds C (m(i := None)) k h \<longleftrightarrow> k \<noteq> i \<and> holds C m k h"
  "\<not> holds C Map.empty k h"
  by (auto simp: holds_def)

lemma holds_at: "m i = Some ob \<Longrightarrow> holds C m i h \<longleftrightarrow> held C ob = Some h" "m j = None \<Longrightarrow> \<not> holds C m j h"
  by (simp_all add: holds_def)

lemma holds_ex: "m i = Some ob \<Longrightarrow> held C ob = Some h \<Longrightarrow> \<exists>i. holds C m i h"
  by (rule exI [of _ i]) (simp add: holds_at)

lemma handles_safeD:
  assumes "handles_safe C s" and "holds C (os_objects s) i h"
  shows "h \<in> set (os_acquired s)" and "h \<notin> set (os_released s)" and "\<And>j. holds C (os_objects s) j h \<Longrightarrow> j = i"
  using assms by (auto simp: handles_safe_def)

lemma handles_safeI:
  assumes "handles_safe C s" and "os_acquired t = os_acquired s" and "os_released t = os_released s @ r"
    and "distinct r" and "\<And>h. h \<in> set r \<Longrightarrow> \<exists>i. holds C (os_objects s) i h \<and> (\<forall>k. \<not> holds C (os_objects t) k h)"
    and "\<And>k h. holds C (os_objects t) k h \<Longrightarrow> holds C (os_objects s) (f k) h"
    and "\<And>k k' h. holds C (os_objects t) k h \<Longrightarrow> holds C (os_objects t) k' h \<Longrightarrow> f k = f k' \<Longrightarrow> k = k'"
  shows "handles_safe C t"
  unfolding handles_safe_def assms(2,3)
proof (intro conjI allI impI)
  show "distinct (os_released s @ r)" using assms(1,4,5) handles_safeD(2) [OF assms(1)] by (auto simp: handles_safe_def)
  show "set (os_released s @ r) \<subseteq> set (os_acquired s)" using assms(1,5) handles_safeD(1) [OF assms(1)] by (auto simp: handles_safe_def)
  fix i h assume h: "holds C (os_objects t) i h"
  then show "h \<in> set (os_acquired s)" by (rule handles_safeD(1) [OF assms(1) assms(6)])
  show "h \<notin> set (os_released s @ r)" using handles_safeD(2) [OF assms(1) assms(6) [OF h]] assms(5) h by auto
  fix j assume j: "holds C (os_objects t) j h"
  show "j = i" by (rule assms(7) [OF j h]) (rule handles_safeD(3) [OF assms(1) assms(6) [OF h] assms(6) [OF j]])
qed

lemma handles_safe_add:
  assumes "handles_safe C s" and "os_released t = os_released s" and "os_acquired t = os_acquired s @ [h]" and "h \<notin> set (os_acquired s)"
    and "\<And>k g. holds C (os_objects t) k g \<longleftrightarrow> (if k = i then g = h else holds C (os_objects s) k g)"
  shows "handles_safe C t"
proof -
  have rel: "distinct (os_released s)" "set (os_released s) \<subseteq> set (os_acquired s)" using assms(1) by (simp_all add: handles_safe_def)
  have none: "\<not> holds C (os_objects s) k h" for k using handles_safeD(1) [OF assms(1), of k h] assms(4) by blast
  show ?thesis unfolding handles_safe_def assms(2,3,5)
  proof (intro conjI allI impI)
    fix j g assume g: "if j = i then g = h else holds C (os_objects s) j g"
    show "g \<in> set (os_acquired s @ [h])" "g \<notin> set (os_released s)"
      using g assms(4) rel(2) handles_safeD(1,2) [OF assms(1), of j g] by (auto split: if_splits)
    fix k assume "if k = i then g = h else holds C (os_objects s) k g"
    then show "k = j" using g none handles_safeD(3) [OF assms(1), of j g k] by (metis (full_types))
  qed (use rel in auto)
qed

text \<open>The first step of a program, for concrete instances.\<close>

lemma owner_step_first:
  assumes "made C ob" and "held C ob = Some h"
  shows "(owner_step C)\<^sup>*\<^sup>* owner_start \<lparr>os_objects = [0 \<mapsto> ob], os_acquired = [h], os_released = []\<rparr>"
proof -
  have "owner_step C owner_start \<lparr>os_objects = [0 \<mapsto> ob], os_acquired = [h], os_released = []\<rparr>"
    using owner_step.construct [of C ob owner_start 0] assms by (simp add: owner_start_def)
  then show ?thesis by simp
qed

section \<open>The contract\<close>

text \<open>\<open>ok\<close> is an invariant of the class's objects.\<close>

locale owning_handle =
  fixes C :: "('o, 'h) owner_ops"
    and ok :: "'o \<Rightarrow> bool"
  assumes made_ok: "made C ob \<Longrightarrow> ok ob"
    and move_law: "ok ob \<Longrightarrow> move_from C ob = (new, old) \<Longrightarrow> ok new \<and> ok old \<and> held C new = held C ob \<and> held C old = None"
    and assign_law: "ok a \<Longrightarrow> ok b \<Longrightarrow> assign_from C a b = (new, old, r) \<Longrightarrow>
      ok new \<and> ok old \<and> held C new = held C b \<and> held C old = None \<and> (r = [] \<or> (\<exists>h. held C a = Some h \<and> r = [h]))"
    and release_law: "ok ob \<Longrightarrow> release C ob = (new, r) \<Longrightarrow>
      ok new \<and> held C new = None \<and> r = (case held C ob of None \<Rightarrow> [] | Some h \<Rightarrow> [h])"
begin

lemma step_safe:
  assumes "owner_step C s t" and "handles_safe C s" and "\<forall>ob\<in>ran (os_objects s). ok ob"
  shows "handles_safe C t \<and> (\<forall>ob\<in>ran (os_objects t). ok ob)"
  using assms
proof (induction rule: owner_step.induct)
  case (construct ob s i)
  have fresh: "held C ob \<noteq> Some h" if "h \<in> set (os_acquired s)" for h using construct.hyps(3) that by blast
  have "handles_safe C (s\<lparr>os_objects := (os_objects s)(i \<mapsto> ob), os_acquired := os_acquired s @ (case held C ob of None \<Rightarrow> [] | Some h \<Rightarrow> [h])\<rparr>)"
  proof (cases "held C ob")
    case None
    then show ?thesis using construct.prems(1) by (auto simp: handles_safe_def)
  next
    case (Some h)
    then have h: "h \<notin> set (os_acquired s)" using fresh by blast
    show ?thesis by (rule handles_safe_add [OF construct.prems(1), of _ h i]) (use Some h in auto)
  qed
  then show ?case using construct.prems(2) made_ok [OF construct.hyps(1)] by (auto simp: ran_def)
next
  case (move s i ob j new old)
  have l: "ok new \<and> ok old \<and> held C new = held C ob \<and> held C old = None" using move by (intro move_law) (auto simp: ran_def)
  have "handles_safe C (s\<lparr>os_objects := (os_objects s)(i \<mapsto> old, j \<mapsto> new)\<rparr>)"
    by (rule handles_safeI [OF move.prems(1), where r = "[]" and f = "\<lambda>k. if k = j then i else k"])
      (use l move.hyps in \<open>auto simp: holds_at split: if_splits\<close>)
  then show ?case using move.prems(2) l by (auto simp: ran_def)
next
  case (assign s i ob j ob2 new old r)
  have l: "ok new \<and> ok old \<and> held C new = held C ob2 \<and> held C old = None \<and> (r = [] \<or> (\<exists>h. held C ob = Some h \<and> r = [h]))"
    using assign by (intro assign_law [of ob ob2]) (auto simp: ran_def)
  have other: "k = i" if "held C ob = Some h" "holds C (os_objects s) k h" for k h
    using handles_safeD(3) [OF assign.prems(1), of i h k] that assign.hyps(1) by (simp add: holds_at)
  have two: "held C ob2 \<noteq> Some h" if "held C ob = Some h" for h using other [OF that, of j] assign.hyps(2,3) by (auto simp: holds_at)
  have "handles_safe C (s\<lparr>os_objects := (os_objects s)(i \<mapsto> new, j \<mapsto> old), os_released := os_released s @ r\<rparr>)"
    by (rule handles_safeI [OF assign.prems(1), where r = r and f = "\<lambda>k. if k = i then j else k"])
      (use l assign.hyps other two in \<open>auto simp: holds_at(1) intro: holds_ex split: if_splits\<close>)
  then show ?case using assign.prems(2) l by (auto simp: ran_def)
next
  case (close s i ob new r)
  have l: "ok new \<and> held C new = None \<and> r = (case held C ob of None \<Rightarrow> [] | Some h \<Rightarrow> [h])" using close by (intro release_law) (auto simp: ran_def)
  have other: "k = i" if "held C ob = Some h" "holds C (os_objects s) k h" for k h
    using handles_safeD(3) [OF close.prems(1), of i h k] that close.hyps(1) by (simp add: holds_at)
  have "handles_safe C (s\<lparr>os_objects := (os_objects s)(i \<mapsto> new), os_released := os_released s @ r\<rparr>)"
    by (rule handles_safeI [OF close.prems(1), where r = r and f = id])
      (use l close.hyps other in \<open>auto simp: holds_at(1) intro: holds_ex split: if_splits option.splits\<close>)
  then show ?case using close.prems(2) l by (auto simp: ran_def)
next
  case (destroy s i ob new r)
  have l: "r = (case held C ob of None \<Rightarrow> [] | Some h \<Rightarrow> [h])" using destroy release_law [of ob new r] by (auto simp: ran_def)
  have other: "k = i" if "held C ob = Some h" "holds C (os_objects s) k h" for k h
    using handles_safeD(3) [OF destroy.prems(1), of i h k] that destroy.hyps(1) by (simp add: holds_at)
  have "handles_safe C (s\<lparr>os_objects := (os_objects s)(i := None), os_released := os_released s @ r\<rparr>)"
    by (rule handles_safeI [OF destroy.prems(1), where r = r and f = id])
      (use l destroy.hyps other in \<open>auto simp: holds_at(1) intro: holds_ex split: if_splits option.splits\<close>)
  then show ?case using destroy.prems(2) by (auto simp: ran_def)
qed

lemma reach_ok:
  assumes "(owner_step C)\<^sup>*\<^sup>* owner_start s"
  shows "handles_safe C s \<and> (\<forall>ob\<in>ran (os_objects s). ok ob)"
  using assms
proof (induction rule: rtranclp_induct)
  case base
  show ?case by (simp add: owner_start_def handles_safe_def)
next
  case (step s t)
  then show ?case using step_safe by blast
qed

lemmas reach_safe = reach_ok [THEN conjunct1]

end

locale releasing_handle = owning_handle +
  assumes assign_releases: "ok a \<Longrightarrow> ok b \<Longrightarrow> assign_from C a b = (new, old, r) \<Longrightarrow> held C a = Some h \<Longrightarrow> r = [h]"
begin

lemma kept_if:
  assumes "handles_kept C s" and "os_acquired t = os_acquired s" and "set (os_released s) \<subseteq> set (os_released t)"
    and "\<And>k h. holds C (os_objects s) k h \<Longrightarrow> h \<in> set (os_released t) \<or> holds C (os_objects t) (f k) h"
  shows "handles_kept C t"
  using assms unfolding handles_kept_def by (metis subsetD)

lemma step_kept:
  assumes "owner_step C s t" and "handles_kept C s" and "\<forall>ob\<in>ran (os_objects s). ok ob"
  shows "handles_kept C t"
  using assms
proof (induction rule: owner_step.induct)
  case (construct ob s i)
  show ?case unfolding handles_kept_def
  proof
    fix h assume "h \<in> set (os_acquired (s\<lparr>os_objects := (os_objects s)(i \<mapsto> ob), os_acquired := os_acquired s @ (case held C ob of None \<Rightarrow> [] | Some h \<Rightarrow> [h])\<rparr>))"
    then consider "h \<in> set (os_released s)" | k where "holds C (os_objects s) k h" | "held C ob = Some h"
      using construct.prems(1) by (auto simp: handles_kept_def split: option.splits)
    then have "h \<in> set (os_released s) \<or> (\<exists>k. holds C ((os_objects s)(i \<mapsto> ob)) k h)"
      using construct.hyps(2) by cases (auto simp: holds_at(2), metis holds_at(2))
    then show "h \<in> set (os_released (s\<lparr>os_objects := (os_objects s)(i \<mapsto> ob), os_acquired := os_acquired s @ (case held C ob of None \<Rightarrow> [] | Some h \<Rightarrow> [h])\<rparr>)) \<or>
      (\<exists>k. holds C (os_objects (s\<lparr>os_objects := (os_objects s)(i \<mapsto> ob), os_acquired := os_acquired s @ (case held C ob of None \<Rightarrow> [] | Some h \<Rightarrow> [h])\<rparr>)) k h)"
      by simp
  qed
next
  case (move s i ob j new old)
  then have l: "held C new = held C ob" using move_law [of ob new old] by (auto simp: ran_def)
  show ?case
    by (rule kept_if [OF move.prems(1), where f = "\<lambda>k. if k = i then j else k"]) (use l move.hyps in \<open>auto simp: holds_at\<close>)
next
  case (assign s i ob j ob2 new old r)
  then have l: "held C new = held C ob2" "\<And>h. held C ob = Some h \<Longrightarrow> r = [h]"
    using assign_law [of ob ob2 new old r] assign_releases [of ob ob2 new old r] by (auto simp: ran_def)
  show ?case
    by (rule kept_if [OF assign.prems(1), where f = "\<lambda>k. if k = j then i else k"]) (use l assign.hyps in \<open>auto simp: holds_at\<close>)
next
  case (close s i ob new r)
  then have l: "r = (case held C ob of None \<Rightarrow> [] | Some h \<Rightarrow> [h])" using release_law [of ob new r] by (auto simp: ran_def)
  show ?case by (rule kept_if [OF close.prems(1), where f = id]) (use l close.hyps in \<open>auto simp: holds_at\<close>)
next
  case (destroy s i ob new r)
  then have l: "r = (case held C ob of None \<Rightarrow> [] | Some h \<Rightarrow> [h])" using release_law [of ob new r] by (auto simp: ran_def)
  show ?case by (rule kept_if [OF destroy.prems(1), where f = id]) (use l destroy.hyps in \<open>auto simp: holds_at\<close>)
qed

lemma reach_kept:
  assumes "(owner_step C)\<^sup>*\<^sup>* owner_start s"
  shows "handles_kept C s"
  using assms
proof (induction rule: rtranclp_induct)
  case base
  show ?case by (simp add: owner_start_def handles_kept_def)
next
  case (step s t)
  then show ?case using step_kept [of s t] reach_ok [of s] by blast
qed

text \<open>When no object is left, every handle has been released exactly once.\<close>

lemma reach_all_released:
  assumes "(owner_step C)\<^sup>*\<^sup>* owner_start s" and "os_objects s = Map.empty"
  shows "distinct (os_released s) \<and> set (os_released s) = set (os_acquired s)"
  using reach_kept [OF assms(1)] reach_safe [OF assms(1)] assms(2) by (auto simp: handles_kept_def handles_safe_def)

end

end
