(* ===== verification/Event_Loop.thy ===== *)
theory Event_Loop
  imports Ownership
begin

text \<open>
  Event.cc: the classes that own a libevent event, and the awaiters of a descriptor's readiness and of
  a timeout; and \<open>Base::once\<close> and \<open>Base::sleep\<close> of Base.cc.  libevent itself is represented by the table
  of events it knows and by what its documentation says of firing: the callback of a pending event
  is called, and unless it is persistent the event is no longer pending.  The results of the calls
  that can fail are arguments.  The lemmas show that every wait ends in exactly one resumption, that
  the function given to \<open>once\<close> is called once and freed once, and how event handles are owned.
\<close>

section \<open>Events\<close>

record event_flags =
  EV_TIMEOUT :: u16
  EV_SIGNAL :: u16
  EV_PERSIST :: u16

record ('cb, 'tv) event_info =
  ei_fd :: int
  ei_what :: u16
  ei_cb :: 'cb
  ei_pending :: bool
  ei_timeout :: "'tv option"

record ('cb, 'tv) event_table =
  et_events :: "nat \<rightharpoonup> ('cb, 'tv) event_info"
  et_freed :: "nat list"

record event_obj =
  ev :: "nat option"

definition Event_default :: event_obj where
  "Event_default = \<lparr>ev = None\<rparr>"

text \<open>The first argument is what \<open>event_new\<close> returns: the handle of a new event or a null pointer.\<close>

definition Event_new :: "nat option \<Rightarrow> int \<Rightarrow> u16 \<Rightarrow> 'cb \<Rightarrow> (('cb, 'tv) event_table, event_obj) act" where
  "Event_new h fd what cb = (case h of
     None \<Rightarrow> throwA Bad_alloc
   | Some e \<Rightarrow> seqA (modifyA (\<lambda>t. t\<lparr>et_events := (et_events t)(e \<mapsto>
         \<lparr>ei_fd = fd, ei_what = what, ei_cb = cb, ei_pending = False, ei_timeout = None\<rparr>)\<rparr>))
       (retA \<lparr>ev = Some e\<rparr>))"

definition Event_move :: "event_obj \<Rightarrow> event_obj \<times> event_obj" where
  "Event_move other = (\<lparr>ev = ev other\<rparr>, other\<lparr>ev := None\<rparr>)"

definition Event_assign :: "event_obj \<Rightarrow> event_obj \<Rightarrow> event_obj \<times> event_obj" where
  "Event_assign this other = (this\<lparr>ev := ev other\<rparr>, other\<lparr>ev := None\<rparr>)"

definition Event_destroy :: "event_obj \<Rightarrow> (('cb, 'tv) event_table, unit) act" where
  "Event_destroy ob = (case ev ob of
     None \<Rightarrow> retA ()
   | Some e \<Rightarrow> modifyA (\<lambda>t. t\<lparr>et_events := (et_events t)(e := None), et_freed := et_freed t @ [e]\<rparr>))"

text \<open>libevent reads the event through the handle; a null or freed one has no meaning.\<close>

definition event_of :: "event_obj \<Rightarrow> (('cb, 'tv) event_table, nat \<times> ('cb, 'tv) event_info) act" where
  "event_of ob = (\<lambda>t. case ev ob of
     None \<Rightarrow> (Throw (Undefined_behaviour ''null event''), t)
   | Some e \<Rightarrow> (case et_events t e of
       None \<Rightarrow> (Throw (Undefined_behaviour ''freed event''), t) | Some i \<Rightarrow> (Ret (e, i), t)))"

definition Event_get_fd :: "event_obj \<Rightarrow> (('cb, 'tv) event_table, int) act" where
  "Event_get_fd ob = bindA (event_of ob) (\<lambda>(e, i). retA (ei_fd i))"

definition Event_get_what :: "event_obj \<Rightarrow> (('cb, 'tv) event_table, u16) act" where
  "Event_get_what ob = bindA (event_of ob) (\<lambda>(e, i). retA (ei_what i))"

definition set_event :: "nat \<Rightarrow> ('cb, 'tv) event_info \<Rightarrow> (('cb, 'tv) event_table, unit) act" where
  "set_event e i = modifyA (\<lambda>t. t\<lparr>et_events := (et_events t)(e \<mapsto> i)\<rparr>)"

text \<open>\<open>rc\<close>: whether libevent's call fails.\<close>

definition event_add :: "bool \<Rightarrow> event_obj \<Rightarrow> 'tv option \<Rightarrow> (('cb, 'tv) event_table, unit) act" where
  "event_add rc ob tv = bindA (event_of ob) (\<lambda>(e, i).
     if rc then throwA (Runtime_error ''event_add failed'') else set_event e (i\<lparr>ei_pending := True, ei_timeout := tv\<rparr>))"

definition Event_add :: "bool \<Rightarrow> event_obj \<Rightarrow> (('cb, 'tv) event_table, unit) act" where
  "Event_add rc ob = event_add rc ob None"

definition Event_del :: "bool \<Rightarrow> event_obj \<Rightarrow> (('cb, 'tv) event_table, unit) act" where
  "Event_del rc ob = bindA (event_of ob) (\<lambda>(e, i).
     if rc then throwA (Runtime_error ''event_del failed'') else set_event e (i\<lparr>ei_pending := False\<rparr>))"

record timeout_event = event_obj +
  te_timeout :: u64

definition TimeoutEvent_new :: "event_flags \<Rightarrow> nat option \<Rightarrow> u64 \<Rightarrow> 'cb \<Rightarrow> (('cb, 'tv) event_table, timeout_event) act" where
  "TimeoutEvent_new F h usecs cb = bindA (Event_new h (-1) (EV_TIMEOUT F) cb) (\<lambda>ob. retA \<lparr>ev = ev ob, te_timeout = usecs\<rparr>)"

text \<open>\<open>conv\<close> is phosg's \<open>usecs_to_timeval\<close>.\<close>

definition TimeoutEvent_add :: "(u64 \<Rightarrow> 'tv) \<Rightarrow> bool \<Rightarrow> timeout_event \<Rightarrow> (('cb, 'tv) event_table, unit) act" where
  "TimeoutEvent_add conv rc ob = event_add rc \<lparr>ev = ev ob\<rparr> (Some (conv (te_timeout ob)))"

definition SignalEvent_new :: "event_flags \<Rightarrow> nat option \<Rightarrow> int \<Rightarrow> 'cb \<Rightarrow> (('cb, 'tv) event_table, event_obj) act" where
  "SignalEvent_new F h signum cb = Event_new h signum (EV_SIGNAL F OR EV_PERSIST F) cb"

text \<open>What libevent does when the condition of event \<open>e\<close> occurs: the callback to be called, if the event is pending.\<close>

definition event_fire :: "event_flags \<Rightarrow> nat \<Rightarrow> ('cb, 'tv) event_table \<Rightarrow> ('cb \<times> ('cb, 'tv) event_table) option" where
  "event_fire F e t = (case et_events t e of
     None \<Rightarrow> None
   | Some i \<Rightarrow> if ei_pending i then Some (ei_cb i, t\<lparr>et_events := (et_events t)(e \<mapsto> i\<lparr>ei_pending := (ei_what i AND EV_PERSIST F \<noteq> 0)\<rparr>)\<rparr>) else None)"

section \<open>EventAwaiter and TimeoutAwaiter\<close>

text \<open>
  An awaiter's address is the context of its callback.  \<open>ea_timeout\<close> is the member of a
  \<open>TimeoutAwaiter\<close>'s event; an \<open>EventAwaiter\<close> has none.
\<close>

record event_awaiter =
  ea_event :: event_obj
  ea_timeout :: "u64 option"
  ea_coro :: "nat option"

record 'tv loop_state =
  lp_table :: "(nat, 'tv) event_table"
  lp_awaiters :: "nat \<rightharpoonup> event_awaiter"
  lp_waited :: "nat list"
  lp_resumed :: "nat list"

definition on_table :: "((nat, 'tv) event_table, 'a) act \<Rightarrow> ('tv loop_state, 'a) act" where
  "on_table m = (\<lambda>s. case m (lp_table s) of (r, t) \<Rightarrow> (r, s\<lparr>lp_table := t\<rparr>))"

text \<open>The constructors, of an awaiter at address \<open>a\<close>.\<close>

definition EventAwaiter_new :: "nat \<Rightarrow> nat option \<Rightarrow> int \<Rightarrow> u16 \<Rightarrow> ('tv loop_state, unit) act" where
  "EventAwaiter_new a h fd what = bindA (on_table (Event_new h fd what a)) (\<lambda>ob.
     modifyA (\<lambda>s. s\<lparr>lp_awaiters := (lp_awaiters s)(a \<mapsto> \<lparr>ea_event = ob, ea_timeout = None, ea_coro = None\<rparr>)\<rparr>))"

definition TimeoutAwaiter_new :: "event_flags \<Rightarrow> nat \<Rightarrow> nat option \<Rightarrow> u64 \<Rightarrow> ('tv loop_state, unit) act" where
  "TimeoutAwaiter_new F a h usecs = bindA (on_table (TimeoutEvent_new F h usecs a)) (\<lambda>ob.
     modifyA (\<lambda>s. s\<lparr>lp_awaiters := (lp_awaiters s)(a \<mapsto> \<lparr>ea_event = \<lparr>ev = ev ob\<rparr>, ea_timeout = Some (te_timeout ob), ea_coro = None\<rparr>)\<rparr>))"

definition EventAwaiter_await_ready :: "event_awaiter \<Rightarrow> bool" where
  "EventAwaiter_await_ready aw = False"

definition awaiter_at :: "nat \<Rightarrow> ('tv loop_state, event_awaiter) act" where
  "awaiter_at a = (\<lambda>s. case lp_awaiters s a of
     None \<Rightarrow> (Throw (Undefined_behaviour ''destroyed awaiter''), s) | Some aw \<Rightarrow> (Ret aw, s))"

definition set_coro :: "nat \<Rightarrow> event_awaiter \<Rightarrow> nat option \<Rightarrow> ('tv loop_state, unit) act" where
  "set_coro a aw c = modifyA (\<lambda>s. s\<lparr>lp_awaiters := (lp_awaiters s)(a \<mapsto> aw\<lparr>ea_coro := c\<rparr>)\<rparr>)"

text \<open>\<open>add\<close> is virtual: a timeout awaiter's event is added with its timeout.\<close>

definition EventAwaiter_await_suspend :: "(u64 \<Rightarrow> 'tv) \<Rightarrow> bool \<Rightarrow> nat \<Rightarrow> nat \<Rightarrow> ('tv loop_state, unit) act" where
  "EventAwaiter_await_suspend conv rc a coro = bindA (awaiter_at a) (\<lambda>aw. seqA (set_coro a aw (Some coro))
     (on_table (case ea_timeout aw of None \<Rightarrow> Event_add rc (ea_event aw)
        | Some u \<Rightarrow> TimeoutEvent_add conv rc \<lparr>ev = ev (ea_event aw), te_timeout = u\<rparr>)))"

definition EventAwaiter_await_resume :: "nat \<Rightarrow> ('tv loop_state, unit) act" where
  "EventAwaiter_await_resume a = bindA (awaiter_at a) (\<lambda>aw. set_coro a aw None)"

definition EventAwaiter_on_trigger :: "nat \<Rightarrow> ('tv loop_state, unit) act" where
  "EventAwaiter_on_trigger a = bindA (awaiter_at a) (\<lambda>aw. case ea_coro aw of
     None \<Rightarrow> throwA (Undefined_behaviour ''resume of a null coroutine'')
   | Some c \<Rightarrow> modifyA (\<lambda>s. s\<lparr>lp_resumed := lp_resumed s @ [c]\<rparr>))"

text \<open>The destructor of an awaiter destroys its event.\<close>

definition EventAwaiter_destroy :: "nat \<Rightarrow> ('tv loop_state, unit) act" where
  "EventAwaiter_destroy a = bindA (awaiter_at a) (\<lambda>aw. seqA (on_table (Event_destroy (ea_event aw)))
     (modifyA (\<lambda>s. s\<lparr>lp_awaiters := (lp_awaiters s)(a := None)\<rparr>)))"

text \<open>\<open>Base::sleep\<close> only constructs the awaiter.\<close>

definition Base_sleep :: "event_flags \<Rightarrow> nat \<Rightarrow> nat option \<Rightarrow> u64 \<Rightarrow> ('tv loop_state, unit) act" where
  "Base_sleep F a h usecs = TimeoutAwaiter_new F a h usecs"

text \<open>
  \<open>co_await\<close> of a temporary awaiter in coroutine \<open>c\<close>, up to the suspension, and what happens when
  its event fires: the coroutine is resumed, takes the result, and the temporary dies.
\<close>

definition wait_for :: "(u64 \<Rightarrow> 'tv) \<Rightarrow> event_flags \<Rightarrow> nat \<Rightarrow> nat \<Rightarrow> (int \<times> u16) + u64 \<Rightarrow> nat \<Rightarrow> ('tv loop_state, unit) act" where
  "wait_for conv F a e what c = seqA (case what of
       Inl (fd, w) \<Rightarrow> EventAwaiter_new a (Some e) fd w
     | Inr usecs \<Rightarrow> Base_sleep F a (Some e) usecs)
     (seqA (modifyA (\<lambda>s. s\<lparr>lp_waited := lp_waited s @ [c]\<rparr>)) (EventAwaiter_await_suspend conv False a c))"

definition wake_up :: "event_flags \<Rightarrow> nat \<Rightarrow> ('tv loop_state, unit) act" where
  "wake_up F e = (\<lambda>s. case event_fire F e (lp_table s) of
     None \<Rightarrow> (Ret (), s)
   | Some (a, t) \<Rightarrow> seqA (EventAwaiter_on_trigger a) (seqA (EventAwaiter_await_resume a) (EventAwaiter_destroy a)) (s\<lparr>lp_table := t\<rparr>))"

definition loop_start :: "'tv loop_state" where
  "loop_start = \<lparr>lp_table = \<lparr>et_events = Map.empty, et_freed = []\<rparr>, lp_awaiters = Map.empty, lp_waited = [], lp_resumed = []\<rparr>"

text \<open>
  The steps of a program whose coroutines wait: a coroutine that is not waiting begins a wait, with an
  awaiter and an event that do not exist yet, or the condition of some event occurs.  A wait has its
  own number, so that a coroutine that waits again has another one.
\<close>

inductive loop_step :: "(u64 \<Rightarrow> 'tv) \<Rightarrow> event_flags \<Rightarrow> 'tv loop_state \<Rightarrow> 'tv loop_state \<Rightarrow> bool" for conv F where
  wait: "c \<notin> set (lp_waited s) \<Longrightarrow> lp_awaiters s a = None \<Longrightarrow> et_events (lp_table s) e = None \<Longrightarrow>
    wait_for conv F a e what c s = (r, t) \<Longrightarrow> loop_step conv F s t"
| occur: "wake_up F e s = (r, t) \<Longrightarrow> loop_step conv F s t"

section \<open>Base::once\<close>

text \<open>
  The function objects are numbered; \<open>on_heap\<close> are those allocated and not yet deleted.  A pending
  registration is a function object, or a plain callback with its argument.
\<close>

datatype once_cb = Once_fn nat | Once_raw nat

record once_state =
  on_allocated :: "nat list"
  on_heap :: "nat list"
  on_pending :: "once_cb list"
  on_called :: "once_cb list"

definition delete_fn :: "nat \<Rightarrow> (once_state, unit) act" where
  "delete_fn fn = (\<lambda>s. if fn \<in> set (on_heap s) then (Ret (), s\<lparr>on_heap := remove1 fn (on_heap s)\<rparr>)
     else (Throw (Undefined_behaviour ''double delete''), s))"

definition Base_once :: "bool \<Rightarrow> nat \<Rightarrow> (once_state, unit) act" where
  "Base_once rc fn = seqA (modifyA (\<lambda>s. s\<lparr>on_allocated := on_allocated s @ [fn], on_heap := on_heap s @ [fn]\<rparr>))
     (if rc then seqA (delete_fn fn) (throwA (Runtime_error ''event_base_once failed''))
      else modifyA (\<lambda>s. s\<lparr>on_pending := on_pending s @ [Once_fn fn]\<rparr>))"

definition Base_once_raw :: "bool \<Rightarrow> nat \<Rightarrow> (once_state, unit) act" where
  "Base_once_raw rc cb = (if rc then throwA (Runtime_error ''event_base_once failed'')
     else modifyA (\<lambda>s. s\<lparr>on_pending := on_pending s @ [Once_raw cb]\<rparr>))"

definition dispatch_once_cb :: "nat \<Rightarrow> (once_state, unit) act" where
  "dispatch_once_cb fn = seqA (\<lambda>s. if fn \<in> set (on_heap s) then (Ret (), s\<lparr>on_called := on_called s @ [Once_fn fn]\<rparr>)
     else (Throw (Undefined_behaviour ''use after free''), s)) (delete_fn fn)"

text \<open>libevent calls the \<open>k\<close>-th pending callback and forgets the registration.\<close>

definition once_fire :: "nat \<Rightarrow> (once_state, unit) act" where
  "once_fire k = (\<lambda>s. if k < length (on_pending s) then
       (case on_pending s ! k of
          Once_fn fn \<Rightarrow> dispatch_once_cb fn (s\<lparr>on_pending := take k (on_pending s) @ drop (Suc k) (on_pending s)\<rparr>)
        | Once_raw cb \<Rightarrow> (Ret (), s\<lparr>on_pending := take k (on_pending s) @ drop (Suc k) (on_pending s), on_called := on_called s @ [Once_raw cb]\<rparr>))
     else (Ret (), s))"

definition once_start :: once_state where
  "once_start = \<lparr>on_allocated = [], on_heap = [], on_pending = [], on_called = []\<rparr>"

inductive once_step :: "once_state \<Rightarrow> once_state \<Rightarrow> bool" where
  once: "fn \<notin> set (on_allocated s) \<Longrightarrow> Base_once rc fn s = (r, t) \<Longrightarrow> once_step s t"
| raw: "Base_once_raw rc cb s = (r, t) \<Longrightarrow> once_step s t"
| fire: "once_fire k s = (r, t) \<Longrightarrow> once_step s t"

section \<open>Waiting\<close>

text \<open>The wait with number \<open>c\<close> is in awaiter \<open>a\<close>, whose event is \<open>e\<close>.\<close>

definition waiting :: "'tv loop_state \<Rightarrow> nat \<Rightarrow> nat \<Rightarrow> nat \<Rightarrow> bool" where
  "waiting s a e c \<longleftrightarrow> (\<exists>aw i. lp_awaiters s a = Some aw \<and> ev (ea_event aw) = Some e \<and> ea_coro aw = Some c \<and>
     et_events (lp_table s) e = Some i \<and> ei_pending i \<and> ei_cb i = a)"

definition loop_inv :: "'tv loop_state \<Rightarrow> bool" where
  "loop_inv s \<longleftrightarrow> distinct (lp_waited s) \<and> distinct (lp_resumed s) \<and> set (lp_resumed s) \<subseteq> set (lp_waited s) \<and>
     (\<forall>a aw. lp_awaiters s a = Some aw \<longrightarrow> (\<exists>e c. waiting s a e c)) \<and>
     (\<forall>e i. et_events (lp_table s) e = Some i \<longrightarrow> (\<exists>c. waiting s (ei_cb i) e c)) \<and>
     (\<forall>a e c. waiting s a e c \<longrightarrow> c \<in> set (lp_waited s) - set (lp_resumed s)) \<and>
     (\<forall>c\<in>set (lp_waited s) - set (lp_resumed s). \<exists>a e. waiting s a e c) \<and>
     (\<forall>a e c a' e'. waiting s a e c \<longrightarrow> waiting s a' e' c \<longrightarrow> a' = a)"

lemmas awaiter_defs = EventAwaiter_new_def TimeoutAwaiter_new_def Base_sleep_def EventAwaiter_await_suspend_def EventAwaiter_await_resume_def
  EventAwaiter_on_trigger_def EventAwaiter_destroy_def awaiter_at_def set_coro_def on_table_def Event_new_def TimeoutEvent_new_def
  Event_add_def TimeoutEvent_add_def event_add_def event_of_def set_event_def Event_destroy_def bindA_def seqA_def

lemma wait_for_run:
  obtains aw i where "wait_for conv F a e what c s = (Ret (), s\<lparr>lp_table := (lp_table s)\<lparr>et_events := (et_events (lp_table s))(e \<mapsto> i)\<rparr>,
      lp_awaiters := (lp_awaiters s)(a \<mapsto> aw), lp_waited := lp_waited s @ [c]\<rparr>)"
    and "ev (ea_event aw) = Some e" and "ea_coro aw = Some c" and "ei_pending i" and "ei_cb i = a"
proof (cases what)
  case (Inl p)
  then show ?thesis
    by (intro that [of "\<lparr>ea_event = \<lparr>ev = Some e\<rparr>, ea_timeout = None, ea_coro = Some c\<rparr>"
          "\<lparr>ei_fd = fst p, ei_what = snd p, ei_cb = a, ei_pending = True, ei_timeout = None\<rparr>"]) (auto simp: wait_for_def awaiter_defs split: prod.split)
next
  case (Inr u)
  then show ?thesis
    by (intro that [of "\<lparr>ea_event = \<lparr>ev = Some e\<rparr>, ea_timeout = Some u, ea_coro = Some c\<rparr>"
          "\<lparr>ei_fd = -1, ei_what = EV_TIMEOUT F, ei_cb = a, ei_pending = True, ei_timeout = Some (conv u)\<rparr>"]) (auto simp: wait_for_def awaiter_defs)
qed

lemma wake_up_run:
  assumes "waiting s a e c"
  shows "wake_up F e s = (Ret (), s\<lparr>lp_table := (lp_table s)\<lparr>et_events := (et_events (lp_table s))(e := None), et_freed := et_freed (lp_table s) @ [e]\<rparr>,
      lp_awaiters := (lp_awaiters s)(a := None), lp_resumed := lp_resumed s @ [c]\<rparr>)"
  using assms by (auto simp: waiting_def wake_up_def event_fire_def awaiter_defs)

lemma loop_invD:
  assumes "loop_inv s"
  shows "distinct (lp_waited s)" "distinct (lp_resumed s)" "set (lp_resumed s) \<subseteq> set (lp_waited s)"
    and "\<And>a aw. lp_awaiters s a = Some aw \<Longrightarrow> \<exists>e c. waiting s a e c"
    and "\<And>e i. et_events (lp_table s) e = Some i \<Longrightarrow> \<exists>c. waiting s (ei_cb i) e c"
    and "\<And>a e c. waiting s a e c \<Longrightarrow> c \<in> set (lp_waited s) - set (lp_resumed s)"
    and "\<And>c. c \<in> set (lp_waited s) - set (lp_resumed s) \<Longrightarrow> \<exists>a e. waiting s a e c"
    and "\<And>a e c a' e'. waiting s a e c \<Longrightarrow> waiting s a' e' c \<Longrightarrow> a' = a"
  using assms unfolding loop_inv_def by blast+

lemma loop_invI:
  assumes "distinct (lp_waited s)" "distinct (lp_resumed s)" "set (lp_resumed s) \<subseteq> set (lp_waited s)"
    and "\<And>a aw. lp_awaiters s a = Some aw \<Longrightarrow> \<exists>e c. waiting s a e c"
    and "\<And>e i. et_events (lp_table s) e = Some i \<Longrightarrow> \<exists>c. waiting s (ei_cb i) e c"
    and "\<And>a e c. waiting s a e c \<Longrightarrow> c \<in> set (lp_waited s) - set (lp_resumed s)"
    and "\<And>c. c \<in> set (lp_waited s) - set (lp_resumed s) \<Longrightarrow> \<exists>a e. waiting s a e c"
    and "\<And>a e c a' e'. waiting s a e c \<Longrightarrow> waiting s a' e' c \<Longrightarrow> a' = a"
  shows "loop_inv s"
  unfolding loop_inv_def using assms by blast

text \<open>Beginning a wait adds to those waiting, an event that occurs takes one away, and nothing else changes.\<close>

lemma waiting_added:
  assumes "lp_awaiters s a = None" and "et_events (lp_table s) e = None" and "loop_inv s"
    and "ev (ea_event aw) = Some e" and "ea_coro aw = Some c" and "ei_pending i" and "ei_cb i = a"
    and "t = s\<lparr>lp_table := (lp_table s)\<lparr>et_events := (et_events (lp_table s))(e \<mapsto> i)\<rparr>, lp_awaiters := (lp_awaiters s)(a \<mapsto> aw), lp_waited := lp_waited s @ [c]\<rparr>"
  shows "waiting t a' e' c' \<longleftrightarrow> waiting s a' e' c' \<or> (a' = a \<and> e' = e \<and> c' = c)"
  using assms by (auto simp: waiting_def split: if_splits)

lemma waiting_unique:
  "waiting s a e c \<Longrightarrow> waiting s a e' c' \<Longrightarrow> e' = e \<and> c' = c" "waiting s a e c \<Longrightarrow> waiting s a' e c' \<Longrightarrow> a' = a"
  by (auto simp: waiting_def)

lemma waiting_removed:
  assumes "waiting s a e c" and "loop_inv s"
    and "t = s\<lparr>lp_table := (lp_table s)\<lparr>et_events := (et_events (lp_table s))(e := None), et_freed := f\<rparr>, lp_awaiters := (lp_awaiters s)(a := None), lp_resumed := r\<rparr>"
  shows "waiting t a' e' c' \<longleftrightarrow> waiting s a' e' c' \<and> c' \<noteq> c"
proof -
  have one: "a' = a" if "waiting s a' e' c" by (rule loop_invD(8) [OF assms(2,1) that])
  have "waiting t a' e' c' \<longleftrightarrow> waiting s a' e' c' \<and> a' \<noteq> a \<and> e' \<noteq> e"
    using assms(1,3) by (auto simp: waiting_def)
  then show ?thesis using one waiting_unique [OF assms(1)] by blast
qed

lemma loop_inv_wait:
  assumes "loop_inv s" and "c \<notin> set (lp_waited s)" and "lp_awaiters s a = None" and "et_events (lp_table s) e = None"
    and "wait_for conv F a e what c s = (r, t)"
  shows "loop_inv t"
proof -
  obtain aw i where t: "t = s\<lparr>lp_table := (lp_table s)\<lparr>et_events := (et_events (lp_table s))(e \<mapsto> i)\<rparr>,
      lp_awaiters := (lp_awaiters s)(a \<mapsto> aw), lp_waited := lp_waited s @ [c]\<rparr>"
    and new: "ev (ea_event aw) = Some e" "ea_coro aw = Some c" "ei_pending i" "ei_cb i = a"
    using wait_for_run [of conv F a e what c s] assms(5) by (metis prod.inject)
  note w = waiting_added [OF assms(3,4,1) new t]
  show ?thesis
  proof (rule loop_invI)
    show "distinct (lp_waited t)" "distinct (lp_resumed t)" "set (lp_resumed t) \<subseteq> set (lp_waited t)"
      using loop_invD(1-3) [OF assms(1)] assms(2) by (auto simp: t)
    show "\<exists>e' c'. waiting t a' e' c'" if "lp_awaiters t a' = Some aw'" for a' aw'
      using loop_invD(4) [OF assms(1)] that unfolding w by (cases "a' = a") (auto simp: t)
    show "\<exists>c'. waiting t (ei_cb j) e' c'" if "et_events (lp_table t) e' = Some j" for e' j
      using loop_invD(5) [OF assms(1)] that new(4) unfolding w by (cases "e' = e") (auto simp: t)
    show "c' \<in> set (lp_waited t) - set (lp_resumed t)" if "waiting t a' e' c'" for a' e' c'
      using loop_invD(3) [OF assms(1)] loop_invD(6) [OF assms(1)] that assms(2) unfolding w by (auto simp: t)
    show "\<exists>a' e'. waiting t a' e' c'" if "c' \<in> set (lp_waited t) - set (lp_resumed t)" for c'
      using loop_invD(7) [OF assms(1), of c'] that unfolding w by (auto simp: t)
    show "a'' = a'" if "waiting t a' e' c'" "waiting t a'' e'' c'" for a' e' c' a'' e''
      using loop_invD(6,8) [OF assms(1)] that assms(2) unfolding w by blast
  qed
qed

lemma loop_inv_occur:
  assumes "loop_inv s" and "wake_up F e s = (r, t)"
  shows "loop_inv t"
proof (cases "\<exists>a c. waiting s a e c")
  case True
  then obtain a c where h: "waiting s a e c" by blast
  have t: "t = s\<lparr>lp_table := (lp_table s)\<lparr>et_events := (et_events (lp_table s))(e := None), et_freed := et_freed (lp_table s) @ [e]\<rparr>,
      lp_awaiters := (lp_awaiters s)(a := None), lp_resumed := lp_resumed s @ [c]\<rparr>"
    using wake_up_run [OF h, of F] assms(2) by simp
  note w = waiting_removed [OF h assms(1) t]
  have c: "c \<in> set (lp_waited s)" "c \<notin> set (lp_resumed s)" using loop_invD(6) [OF assms(1) h] by simp_all
  have diff: "c' \<noteq> c" if "waiting s a' e' c'" "a' \<noteq> a \<or> e' \<noteq> e" for a' e' c'
    using loop_invD(8) [OF assms(1) h, of a' e'] that h by (auto simp: waiting_def)
  show ?thesis
  proof (rule loop_invI)
    show "distinct (lp_waited t)" "distinct (lp_resumed t)" "set (lp_resumed t) \<subseteq> set (lp_waited t)"
      using loop_invD(1-3) [OF assms(1)] c by (auto simp: t)
    show "\<exists>e' c'. waiting t a' e' c'" if "lp_awaiters t a' = Some aw'" for a' aw'
    proof -
      from that have "a' \<noteq> a" "lp_awaiters s a' = Some aw'" by (auto simp: t split: if_splits)
      with loop_invD(4) [OF assms(1)] diff show ?thesis unfolding w by metis
    qed
    show "\<exists>c'. waiting t (ei_cb j) e' c'" if "et_events (lp_table t) e' = Some j" for e' j
    proof -
      from that have "e' \<noteq> e" "et_events (lp_table s) e' = Some j" by (auto simp: t split: if_splits)
      with loop_invD(5) [OF assms(1)] diff show ?thesis unfolding w by metis
    qed
    show "c' \<in> set (lp_waited t) - set (lp_resumed t)" if "waiting t a' e' c'" for a' e' c'
      using loop_invD(6) [OF assms(1)] that unfolding w by (auto simp: t)
    show "\<exists>a' e'. waiting t a' e' c'" if "c' \<in> set (lp_waited t) - set (lp_resumed t)" for c'
      using loop_invD(7) [OF assms(1), of c'] that unfolding w by (auto simp: t)
    show "a'' = a'" if "waiting t a' e' c'" "waiting t a'' e'' c'" for a' e' c' a'' e''
      using loop_invD(8) [OF assms(1)] that unfolding w by blast
  qed
next
  case False
  have "\<not> (\<exists>i. et_events (lp_table s) e = Some i)" using False loop_invD(5) [OF assms(1)] by blast
  then show ?thesis using assms by (simp add: wake_up_def event_fire_def)
qed

lemma loop_inv_reach: "(loop_step conv F)\<^sup>*\<^sup>* loop_start s \<Longrightarrow> loop_inv s"
proof (induction rule: rtranclp_induct)
  case base
  show ?case by (simp add: loop_inv_def loop_start_def waiting_def)
next
  case (step s t)
  from step(2) show ?case
  proof cases
    case (wait c a e what r)
    with loop_inv_wait step.IH show ?thesis by metis
  next
    case (occur e r)
    with loop_inv_occur step.IH show ?thesis by metis
  qed
qed

lemma wake_up_idle: "loop_inv s \<Longrightarrow> (\<And>a c. \<not> waiting s a e c) \<Longrightarrow> wake_up F e s = (Ret (), s)"
  using loop_invD(5) [of s e] by (cases "et_events (lp_table s) e") (auto simp: wake_up_def event_fire_def)

text \<open>C11: Waiting for descriptors and timeouts.  Whatever waits are begun and whatever events occur, in any
  order: no callback runs into a destroyed awaiter, a freed event or a null coroutine; no wait is
  resumed twice; every wait that has not been resumed has an event, and when this event occurs
  exactly this wait is resumed.\<close>

theorem waits_resumed_once:
  assumes "(loop_step conv F)\<^sup>*\<^sup>* loop_start s"
  shows "distinct (lp_resumed s) \<and> set (lp_resumed s) \<subseteq> set (lp_waited s) \<and>
    (\<forall>e. fst (wake_up F e s) = Ret ()) \<and>
    (\<forall>e. lp_resumed (snd (wake_up F e s)) = lp_resumed s \<or>
      (\<exists>c\<in>set (lp_waited s) - set (lp_resumed s). lp_resumed (snd (wake_up F e s)) = lp_resumed s @ [c])) \<and>
    (\<forall>c\<in>set (lp_waited s) - set (lp_resumed s). \<exists>e. lp_resumed (snd (wake_up F e s)) = lp_resumed s @ [c])"
proof -
  have i: "loop_inv s" by (rule loop_inv_reach [OF assms])
  have "fst (wake_up F e s) = Ret () \<and> (lp_resumed (snd (wake_up F e s)) = lp_resumed s \<or>
      (\<exists>c\<in>set (lp_waited s) - set (lp_resumed s). lp_resumed (snd (wake_up F e s)) = lp_resumed s @ [c]))" for e
  proof (cases "\<exists>a c. waiting s a e c")
    case True
    then obtain a c where w: "waiting s a e c" by blast
    show ?thesis unfolding wake_up_run [OF w] using loop_invD(6) [OF i w] by auto
  next
    case False
    then show ?thesis using wake_up_idle [OF i, of e F] by auto
  qed
  moreover have "\<exists>e. lp_resumed (snd (wake_up F e s)) = lp_resumed s @ [c]" if "c \<in> set (lp_waited s) - set (lp_resumed s)" for c
  proof -
    from loop_invD(7) [OF i that] obtain a e where w: "waiting s a e c" by blast
    show ?thesis by (rule exI [of _ e]) (simp add: wake_up_run [OF w])
  qed
  ultimately show ?thesis using loop_invD(2,3) [OF i] by blast
qed

theorem waits_resumed_once_witness:
  "\<exists>s :: nat loop_state. (loop_step unat \<lparr>EV_TIMEOUT = 1, EV_SIGNAL = 8, EV_PERSIST = 16\<rparr>)\<^sup>*\<^sup>* loop_start s \<and> lp_waited s = [5] \<and>
    (\<exists>e. lp_resumed (snd (wake_up \<lparr>EV_TIMEOUT = 1, EV_SIGNAL = 8, EV_PERSIST = 16\<rparr> e s)) = [5])"
proof -
  let ?F = "\<lparr>EV_TIMEOUT = 1, EV_SIGNAL = 8, EV_PERSIST = 16\<rparr>"
  define s where "s = snd (wait_for unat ?F 0 1 (Inr 1000) 5 (loop_start :: nat loop_state))"
  have "loop_step unat ?F loop_start s" unfolding s_def
    by (rule loop_step.wait [where c = 5 and a = 0 and e = 1 and what = "Inr 1000", OF _ _ _ prod.collapse [symmetric]]) (simp_all add: loop_start_def)
  then have r: "(loop_step unat ?F)\<^sup>*\<^sup>* loop_start s" by simp
  have w: "lp_waited s = [5]" "lp_resumed s = []" by (simp_all add: s_def wait_for_def awaiter_defs loop_start_def)
  from waits_resumed_once [OF r] have "\<exists>e. lp_resumed (snd (wake_up ?F e s)) = [5]" unfolding w by simp
  with r w(1) show ?thesis by blast
qed

section \<open>Functions given to once\<close>

definition pending_fns :: "once_state \<Rightarrow> nat list" where
  "pending_fns s = List.map_filter (\<lambda>x. case x of Once_fn fn \<Rightarrow> Some fn | Once_raw _ \<Rightarrow> None) (on_pending s)"

definition called_fns :: "once_state \<Rightarrow> nat list" where
  "called_fns s = List.map_filter (\<lambda>x. case x of Once_fn fn \<Rightarrow> Some fn | Once_raw _ \<Rightarrow> None) (on_called s)"

definition once_inv :: "once_state \<Rightarrow> bool" where
  "once_inv s \<longleftrightarrow> distinct (on_allocated s) \<and> distinct (pending_fns s) \<and> distinct (called_fns s) \<and> distinct (on_heap s) \<and>
     set (on_heap s) = set (pending_fns s) \<and> set (pending_fns s) \<subseteq> set (on_allocated s) \<and> set (called_fns s) \<subseteq> set (on_allocated s) \<and>
     set (called_fns s) \<inter> set (pending_fns s) = {}"

lemma fns_append [simp]:
  "List.map_filter f (xs @ ys) = List.map_filter f xs @ List.map_filter f ys"
  by (induction xs) (auto simp: map_filter_simps split: option.splits)

lemma fns_simps [simp]:
  "pending_fns (s\<lparr>on_allocated := x\<rparr>) = pending_fns s" "called_fns (s\<lparr>on_allocated := x\<rparr>) = called_fns s"
  "pending_fns (s\<lparr>on_heap := x\<rparr>) = pending_fns s" "called_fns (s\<lparr>on_heap := x\<rparr>) = called_fns s"
  "pending_fns (s\<lparr>on_called := z\<rparr>) = pending_fns s" "called_fns (s\<lparr>on_pending := y\<rparr>) = called_fns s"
  "pending_fns (u\<lparr>on_pending := on_pending s @ [Once_fn fn]\<rparr>) = pending_fns s @ [fn]"
  by (simp_all add: pending_fns_def called_fns_def List.map_filter_simps)

lemma fire_split: "k < length xs \<Longrightarrow> xs = take k xs @ xs ! k # drop (Suc k) xs"
  by (simp add: id_take_nth_drop)

lemma once_inv_once:
  assumes "once_inv s" and "fn \<notin> set (on_allocated s)" and "Base_once rc fn s = (r, t)"
  shows "once_inv t" and "r = (if rc then Throw (Runtime_error ''event_base_once failed'') else Ret ())"
    and "rc \<Longrightarrow> on_heap t = on_heap s \<and> on_pending t = on_pending s"
proof -
  have n: "fn \<notin> set (on_heap s)" using assms(1,2) by (auto simp: once_inv_def)
  have t: "t = (if rc then s\<lparr>on_allocated := on_allocated s @ [fn], on_heap := on_heap s\<rparr>
      else s\<lparr>on_allocated := on_allocated s @ [fn], on_heap := on_heap s @ [fn], on_pending := on_pending s @ [Once_fn fn]\<rparr>)"
    and r: "r = (if rc then Throw (Runtime_error ''event_base_once failed'') else Ret ())"
    using assms(3) n by (auto simp: Base_once_def delete_fn_def seqA_def bindA_def remove1_append split: if_splits)
  show "once_inv t" using assms(1,2) by (cases rc) (auto simp: t once_inv_def)
  show "r = (if rc then Throw (Runtime_error ''event_base_once failed'') else Ret ())" by (rule r)
  show "rc \<Longrightarrow> on_heap t = on_heap s \<and> on_pending t = on_pending s" by (simp add: t)
qed

lemma once_inv_fire:
  assumes "once_inv s" and "once_fire k s = (r, t)"
  shows "once_inv t" and "r = Ret ()"
proof -
  have "once_inv t \<and> r = Ret ()"
  proof (cases "k < length (on_pending s)")
    case True
    let ?a = "take k (on_pending s)" and ?b = "drop (Suc k) (on_pending s)"
    show ?thesis
    proof (cases "on_pending s ! k")
      case (Once_fn fn)
      have p: "pending_fns s = List.map_filter (\<lambda>x. case x of Once_fn fn \<Rightarrow> Some fn | Once_raw _ \<Rightarrow> None) ?a @ fn #
          List.map_filter (\<lambda>x. case x of Once_fn fn \<Rightarrow> Some fn | Once_raw _ \<Rightarrow> None) ?b"
        unfolding pending_fns_def by (subst fire_split [OF True]) (simp add: Once_fn List.map_filter_simps)
      then have h: "fn \<in> set (on_heap s)" using assms(1) by (simp add: once_inv_def)
      have r: "r = Ret ()" and t: "t = s\<lparr>on_pending := ?a @ ?b, on_called := on_called s @ [Once_fn fn], on_heap := remove1 fn (on_heap s)\<rparr>"
        using assms(2) True Once_fn h by (auto simp: once_fire_def dispatch_once_cb_def delete_fn_def seqA_def bindA_def)
      have c: "called_fns t = called_fns s @ [fn]" by (simp add: t called_fns_def List.map_filter_simps)
      have p': "pending_fns t = List.map_filter (\<lambda>x. case x of Once_fn fn \<Rightarrow> Some fn | Once_raw _ \<Rightarrow> None) ?a @
          List.map_filter (\<lambda>x. case x of Once_fn fn \<Rightarrow> Some fn | Once_raw _ \<Rightarrow> None) ?b" by (simp add: t pending_fns_def)
      have d: "distinct (on_heap s)" "set (on_heap t) = set (on_heap s) - {fn}" "distinct (on_heap t)"
        using assms(1) by (simp_all add: once_inv_def t)
      have al: "on_allocated t = on_allocated s" by (simp add: t)
      show ?thesis using assms(1) r unfolding once_inv_def c p' d(2) al unfolding p by (auto simp: d(3))
    next
      case (Once_raw cb)
      have p: "pending_fns s = List.map_filter (\<lambda>x. case x of Once_fn fn \<Rightarrow> Some fn | Once_raw _ \<Rightarrow> None) (?a @ ?b)"
        unfolding pending_fns_def by (subst fire_split [OF True]) (simp add: Once_raw List.map_filter_simps)
      have r: "r = Ret ()" and t: "t = s\<lparr>on_pending := ?a @ ?b, on_called := on_called s @ [Once_raw cb]\<rparr>"
        using assms(2) True Once_raw by (auto simp: once_fire_def)
      have "pending_fns t = pending_fns s" "called_fns t = called_fns s" unfolding p by (simp_all add: t pending_fns_def called_fns_def List.map_filter_simps)
      then show ?thesis using assms(1) r by (simp add: once_inv_def) (simp add: t)
    qed
  qed (use assms in \<open>auto simp: once_fire_def\<close>)
  then show "once_inv t" "r = Ret ()" by simp_all
qed

lemma once_inv_raw:
  assumes "once_inv s" and "Base_once_raw rc cb s = (r, t)"
  shows "once_inv t"
proof -
  have "pending_fns t = pending_fns s \<and> called_fns t = called_fns s \<and> on_heap t = on_heap s \<and> on_allocated t = on_allocated s"
    using assms(2) by (auto simp: Base_once_raw_def pending_fns_def called_fns_def List.map_filter_simps split: if_splits)
  with assms(1) show ?thesis by (simp add: once_inv_def)
qed

lemma once_inv_reach: "once_step\<^sup>*\<^sup>* once_start s \<Longrightarrow> once_inv s"
proof (induction rule: rtranclp_induct)
  case base
  show ?case by (simp add: once_inv_def once_start_def pending_fns_def called_fns_def List.map_filter_simps)
next
  case (step s t)
  from step(2) show ?case
    by cases (metis once_inv_once(1) step.IH, metis once_inv_raw step.IH, metis once_inv_fire(1) step.IH)
qed

text \<open>A function given to \<open>Base::once\<close>.  Whatever is registered and whichever registration fires next: a
  function object is called at most once, never after it was deleted, and deleted exactly when it
  is no longer registered, so that none is deleted twice and none is left behind; \<open>once\<close> that fails
  throws and leaves nothing allocated.\<close>

theorem once_called_and_freed:
  assumes "once_step\<^sup>*\<^sup>* once_start s"
  shows "distinct (called_fns s) \<and> distinct (on_heap s) \<and> set (on_heap s) = set (pending_fns s) \<and> set (called_fns s) \<inter> set (on_heap s) = {} \<and>
    (\<forall>k. fst (once_fire k s) = Ret ()) \<and>
    (\<forall>fn. fn \<notin> set (on_allocated s) \<longrightarrow> fst (Base_once True fn s) = Throw (Runtime_error ''event_base_once failed'') \<and>
      on_heap (snd (Base_once True fn s)) = on_heap s \<and> on_pending (snd (Base_once True fn s)) = on_pending s)"
proof -
  have i: "once_inv s" by (rule once_inv_reach [OF assms])
  have "fst (once_fire k s) = Ret ()" for k using once_inv_fire(2) [OF i, of k] by (metis prod.collapse)
  moreover have "fst (Base_once True fn s) = Throw (Runtime_error ''event_base_once failed'') \<and>
      on_heap (snd (Base_once True fn s)) = on_heap s \<and> on_pending (snd (Base_once True fn s)) = on_pending s" if "fn \<notin> set (on_allocated s)" for fn
    using once_inv_once(2,3) [OF i that prod.collapse [symmetric]] by auto
  ultimately show ?thesis using i unfolding once_inv_def by blast
qed

theorem once_called_and_freed_witness:
  "\<exists>s. once_step\<^sup>*\<^sup>* once_start s \<and> on_heap s = [3] \<and> distinct (on_heap s)"
proof -
  let ?s = "snd (Base_once False 3 once_start)"
  have "once_step once_start ?s" by (rule once_step.once [where fn = 3, OF _ prod.collapse [symmetric]]) (simp add: once_start_def)
  then have r: "once_step\<^sup>*\<^sup>* once_start ?s" by simp
  have "on_heap ?s = [3]" by (simp add: Base_once_def once_start_def seqA_def bindA_def)
  with once_called_and_freed [OF r] r show ?thesis by blast
qed

section \<open>Ownership of event handles\<close>

definition event_owner :: "(event_obj, nat) owner_ops" where
  "event_owner = \<lparr>made = (\<lambda>ob. True), held = ev, move_from = Event_move,
     assign_from = (\<lambda>a b. case Event_assign a b of (x, y) \<Rightarrow> (x, y, [])),
     release = (\<lambda>ob. (Event_default, et_freed (snd (Event_destroy ob \<lparr>et_events = Map.empty :: nat \<rightharpoonup> (unit, unit) event_info, et_freed = []\<rparr>))))\<rparr>"

interpretation event_handles: owning_handle event_owner "\<lambda>_. True"
  by unfold_locales (auto simp: event_owner_def Event_move_def Event_assign_def Event_destroy_def Event_default_def split: option.splits)

text \<open>However events are constructed, moved, assigned and destroyed, no event is freed twice, and no object refers
  to a freed event or to the event of another object.\<close>

theorem event_handles_freed_once:
  assumes "(owner_step event_owner)\<^sup>*\<^sup>* owner_start s"
  shows "handles_safe event_owner s"
  by (rule event_handles.reach_safe [OF assms])

theorem event_handles_freed_once_witness:
  "\<exists>s. (owner_step event_owner)\<^sup>*\<^sup>* owner_start s \<and> os_acquired s = [4] \<and> handles_safe event_owner s"
proof -
  have r: "(owner_step event_owner)\<^sup>*\<^sup>* owner_start \<lparr>os_objects = [0 \<mapsto> \<lparr>ev = Some 4\<rparr>], os_acquired = [4], os_released = []\<rparr>"
    by (rule owner_step_first) (simp_all add: event_owner_def)
  with event_handles_freed_once [OF r] show ?thesis by (metis owner_state.select_convs(2))
qed

text \<open>Move assignment does not free the event the target had: afterwards neither object refers to it.\<close>

lemma event_assign_leaks:
  "ev ob = Some e \<Longrightarrow> ev ob2 \<noteq> Some e \<Longrightarrow> assign_from event_owner ob ob2 = (new, old, r) \<Longrightarrow>
    ev new \<noteq> Some e \<and> ev old \<noteq> Some e \<and> e \<notin> set r"
  by (auto simp: event_owner_def Event_assign_def)

end
