(* ===== verification/Owners.thy ===== *)
theory Owners
  imports Ownership
begin

text \<open>
  Which object frees what: the constructors, move operations and destructors of TaskBase (Task.hh),
  DNSBase (DNSBase.cc), the HTTP Connection (Connection.cc) and Buffer (Buffer.cc), as instances of
  the contracts of Ownership where the class meets one.  A task's coroutine frame is destroyed
  exactly once; a DNS base is freed at most once, and lost by move assignment; a moved connection is
  freed twice; a moved buffer's destructor reads an indeterminate flag.  Event handles are treated in
  Event_Loop, the connections of websocket clients in HTTP_Server.
\<close>

section \<open>TaskBase\<close>

text \<open>\<open>started\<close> is not initialised by the default constructor: \<open>None\<close> is an indeterminate value.\<close>

record task_obj =
  to_coro :: "nat option"
  to_started :: "bool option"

definition TaskBase_default :: task_obj where
  "TaskBase_default = \<lparr>to_coro = None, to_started = None\<rparr>"

definition TaskBase_new :: "nat \<Rightarrow> task_obj" where
  "TaskBase_new coro = \<lparr>to_coro = Some coro, to_started = Some False\<rparr>"

definition TaskBase_move :: "task_obj \<Rightarrow> task_obj \<times> task_obj" where
  "TaskBase_move other = (\<lparr>to_coro = to_coro other, to_started = to_started other\<rparr>, other\<lparr>to_coro := None\<rparr>)"

definition destroy_calls :: "task_obj \<Rightarrow> nat list" where
  "destroy_calls t = (case to_coro t of None \<Rightarrow> [] | Some c \<Rightarrow> [c])"

definition TaskBase_destroy :: "task_obj \<Rightarrow> nat list" where
  "TaskBase_destroy t = destroy_calls t"

definition TaskBase_assign :: "task_obj \<Rightarrow> task_obj \<Rightarrow> task_obj \<times> task_obj \<times> nat list" where
  "TaskBase_assign this other = (this\<lparr>to_coro := to_coro other, to_started := to_started other\<rparr>, other\<lparr>to_coro := None\<rparr>, destroy_calls this)"

definition task_owner :: "(task_obj, nat) owner_ops" where
  "task_owner = \<lparr>made = (\<lambda>ob. ob = TaskBase_default \<or> (\<exists>c. ob = TaskBase_new c)), held = to_coro, move_from = TaskBase_move,
     assign_from = TaskBase_assign, release = (\<lambda>ob. (TaskBase_default, TaskBase_destroy ob))\<rparr>"

lemmas task_owner_defs = task_owner_def TaskBase_default_def TaskBase_move_def TaskBase_assign_def TaskBase_destroy_def destroy_calls_def

interpretation task_frames: releasing_handle task_owner "\<lambda>_. True"
  by unfold_locales (auto simp: task_owner_defs split: option.splits)

text \<open>C12: Coroutine frames of tasks.  However tasks are constructed, moved, assigned and destroyed: no frame is
  destroyed twice, no task refers to a destroyed frame or to another's, none is lost, and when no
  task is left every frame has been destroyed exactly once.\<close>

theorem task_frames_destroyed_once:
  assumes "(owner_step task_owner)\<^sup>*\<^sup>* owner_start s"
  shows "handles_safe task_owner s \<and> handles_kept task_owner s \<and>
    (os_objects s = Map.empty \<longrightarrow> distinct (os_released s) \<and> set (os_released s) = set (os_acquired s))"
  using task_frames.reach_safe [OF assms] task_frames.reach_kept [OF assms] task_frames.reach_all_released [OF assms] by blast

theorem task_frames_destroyed_once_witness:
  "\<exists>s. (owner_step task_owner)\<^sup>*\<^sup>* owner_start s \<and> os_objects s = Map.empty \<and> os_acquired s = [7] \<and> set (os_released s) = {7}"
proof -
  let ?s = "\<lparr>os_objects = [0 \<mapsto> TaskBase_new 7], os_acquired = [7], os_released = []\<rparr> :: (task_obj, nat) owner_state"
  let ?t = "\<lparr>os_objects = Map.empty, os_acquired = [7], os_released = [7]\<rparr> :: (task_obj, nat) owner_state"
  have 1: "(owner_step task_owner)\<^sup>*\<^sup>* owner_start ?s" by (rule owner_step_first) (simp_all add: task_owner_defs TaskBase_new_def)
  have 2: "owner_step task_owner ?s ?t"
    using owner_step.destroy [of ?s 0 "TaskBase_new 7" task_owner TaskBase_default "[7]"] by (simp add: task_owner_defs TaskBase_new_def)
  from 1 2 have r: "(owner_step task_owner)\<^sup>*\<^sup>* owner_start ?t" by (rule rtranclp.rtrancl_into_rtrancl)
  have e: "os_objects ?t = Map.empty" "os_acquired ?t = [7]" by simp_all
  from task_frames_destroyed_once [OF r] e r show ?thesis by (metis list.set(1) list.simps(15))
qed

section \<open>DNSBase\<close>

text \<open>The constructor keeps what \<open>evdns_base_new\<close> returns, a null pointer too.\<close>

record dns_obj =
  dns_base :: "nat option"

definition DNSBase_new :: "nat option \<Rightarrow> dns_obj" where
  "DNSBase_new h = \<lparr>dns_base = h\<rparr>"

definition DNSBase_move :: "dns_obj \<Rightarrow> dns_obj \<times> dns_obj" where
  "DNSBase_move other = (\<lparr>dns_base = dns_base other\<rparr>, other\<lparr>dns_base := None\<rparr>)"

definition DNSBase_assign :: "dns_obj \<Rightarrow> dns_obj \<Rightarrow> dns_obj \<times> dns_obj" where
  "DNSBase_assign this other = (this\<lparr>dns_base := dns_base other\<rparr>, other\<lparr>dns_base := None\<rparr>)"

definition DNSBase_destroy :: "dns_obj \<Rightarrow> nat list" where
  "DNSBase_destroy ob = (case dns_base ob of None \<Rightarrow> [] | Some h \<Rightarrow> [h])"

definition dns_owner :: "(dns_obj, nat) owner_ops" where
  "dns_owner = \<lparr>made = (\<lambda>ob. \<exists>h. ob = DNSBase_new h), held = dns_base, move_from = DNSBase_move,
     assign_from = (\<lambda>a b. case DNSBase_assign a b of (x, y) \<Rightarrow> (x, y, [])), release = (\<lambda>ob. (DNSBase_new None, DNSBase_destroy ob))\<rparr>"

lemmas dns_owner_defs = dns_owner_def DNSBase_new_def DNSBase_move_def DNSBase_assign_def DNSBase_destroy_def

interpretation dns_handles: owning_handle dns_owner "\<lambda>_. True"
  by unfold_locales (auto simp: dns_owner_defs split: option.splits)

lemma dns_freed_once: "(owner_step dns_owner)\<^sup>*\<^sup>* owner_start s \<Longrightarrow> handles_safe dns_owner s"
  by (rule dns_handles.reach_safe)

text \<open>Move assignment loses the base the target had.\<close>

lemma dns_assign_leaks:
  "dns_base a = Some h \<Longrightarrow> dns_base b \<noteq> Some h \<Longrightarrow> assign_from dns_owner a b = (x, y, r) \<Longrightarrow> dns_base x \<noteq> Some h \<and> dns_base y \<noteq> Some h \<and> h \<notin> set r"
  by (auto simp: dns_owner_defs)

section \<open>HTTP::Connection\<close>

record connection_obj =
  co_conn :: "nat option"

text \<open>The constructor, after libevent has been asked for a connection.\<close>

definition Connection_of :: "nat option \<Rightarrow> connection_obj outcome" where
  "Connection_of h = (case h of None \<Rightarrow> Throw (Runtime_error ''failed to create http connection'') | Some c \<Rightarrow> Ret \<lparr>co_conn = Some c\<rparr>)"

definition Connection_move :: "connection_obj \<Rightarrow> connection_obj \<times> connection_obj" where
  "Connection_move other = (\<lparr>co_conn = co_conn other\<rparr>, other)"

definition Connection_destroy :: "connection_obj \<Rightarrow> nat list" where
  "Connection_destroy ob = (case co_conn ob of None \<Rightarrow> [] | Some c \<Rightarrow> [c])"

text \<open>A connection that is moved is freed by both objects' destructors.\<close>

lemma connection_freed_twice:
  "Connection_of (Some c) = Ret ob \<Longrightarrow> Connection_move ob = (new, old) \<Longrightarrow> Connection_destroy new @ Connection_destroy old = [c, c]"
  by (auto simp: Connection_of_def Connection_move_def Connection_destroy_def)

section \<open>Buffer\<close>

record buffer_obj =
  bo_buf :: "nat option"
  bo_owned :: "bool option"

definition Buffer_obj_new :: "nat option \<Rightarrow> buffer_obj outcome" where
  "Buffer_obj_new h = (case h of None \<Rightarrow> Throw Bad_alloc | Some b \<Rightarrow> Ret \<lparr>bo_buf = Some b, bo_owned = Some True\<rparr>)"

definition Buffer_obj_wrap :: "nat \<Rightarrow> buffer_obj" where
  "Buffer_obj_wrap b = \<lparr>bo_buf = Some b, bo_owned = Some False\<rparr>"

definition Buffer_obj_move :: "buffer_obj \<Rightarrow> buffer_obj \<times> buffer_obj" where
  "Buffer_obj_move other = (\<lparr>bo_buf = bo_buf other, bo_owned = None\<rparr>, other\<lparr>bo_buf := None, bo_owned := Some False\<rparr>)"

definition Buffer_obj_destroy :: "buffer_obj \<Rightarrow> nat list outcome" where
  "Buffer_obj_destroy ob = (case bo_owned ob of
     None \<Rightarrow> Throw (Undefined_behaviour ''indeterminate owned'')
   | Some False \<Rightarrow> Ret []
   | Some True \<Rightarrow> (case bo_buf ob of None \<Rightarrow> Throw (Undefined_behaviour ''null buffer'') | Some b \<Rightarrow> Ret [b]))"

text \<open>A buffer that is never moved is freed once if it was made with the buffer, and not if it wraps another's; the destructor
  of one made by moving has no defined meaning.\<close>

lemma buffer_obj_lifetime:
  "Buffer_obj_new (Some b) = Ret ob \<Longrightarrow> Buffer_obj_destroy ob = Ret [b]"
  "Buffer_obj_destroy (Buffer_obj_wrap b) = Ret []"
  "Buffer_obj_move ob = (new, old) \<Longrightarrow> Buffer_obj_destroy new = Throw (Undefined_behaviour ''indeterminate owned'') \<and> Buffer_obj_destroy old = Ret []"
  by (auto simp: Buffer_obj_new_def Buffer_obj_wrap_def Buffer_obj_move_def Buffer_obj_destroy_def)

end
