(* ===== verification/DNS_Lookup.thy ===== *)
theory DNS_Lookup
  imports Owners
begin

text \<open>
  The lookup awaiters of DNSBase.cc: a coroutine that awaits a lookup starts the request when it
  suspends; libevent calls back with a result code, a record type, a time to live and an array of
  addresses, which the callback copies into the result before it resumes the coroutine.  The four
  awaiter classes differ in the request they start and in the record type they expect.
\<close>

section \<open>Awaiters\<close>

text \<open>libevent's constants.\<close>

record evdns_constants =
  DNS_ERR_NONE :: int
  DNS_IPv4_A :: int
  DNS_IPv6_AAAA :: int
  DNS_PTR :: int

datatype lookup_kind = IPv4 | IPv6 | Reverse_IPv4 | Reverse_IPv6

text \<open>\<open>result_code\<close> and \<open>ttl\<close> are not initialised: \<open>None\<close> is an indeterminate value.\<close>

record 'a lookup_result =
  lr_result_code :: "int option"
  lr_ttl :: "int option"
  lr_results :: "'a list"

record ('t, 'a) lookup_awaiter =
  la_complete :: bool
  la_target :: 't
  la_flags :: int
  la_coro :: "nat option"
  la_result :: "'a lookup_result"

definition LookupAwaiterBase_new :: "'t \<Rightarrow> int \<Rightarrow> ('t, 'a) lookup_awaiter" where
  "LookupAwaiterBase_new target flags = \<lparr>la_complete = False, la_target = target, la_flags = flags, la_coro = None,
     la_result = \<lparr>lr_result_code = None, lr_ttl = None, lr_results = []\<rparr>\<rparr>"

text \<open>The awaiter, the coroutines resumed, and the requests started: which, for what, with which flags.\<close>

record ('t, 'a) dns_state =
  ds_awaiter :: "('t, 'a) lookup_awaiter"
  ds_resumed :: "nat list"
  ds_requests :: "(lookup_kind \<times> 't \<times> int) list"

definition LookupAwaiter_await_ready :: "('t, 'a) lookup_awaiter \<Rightarrow> bool" where
  "LookupAwaiter_await_ready aw = la_complete aw"

definition request_failed :: "lookup_kind \<Rightarrow> exn" where
  "request_failed k = Runtime_error (case k of
     IPv4 \<Rightarrow> ''evdns_base_resolve_ipv4 failed'' | IPv6 \<Rightarrow> ''evdns_base_resolve_ipv6 failed''
   | Reverse_IPv4 \<Rightarrow> ''evdns_base_resolve_reverse failed'' | Reverse_IPv6 \<Rightarrow> ''evdns_base_resolve_reverse_ipv6 failed'')"

text \<open>\<open>rc\<close>: whether libevent refuses the request.\<close>

definition start_request :: "lookup_kind \<Rightarrow> bool \<Rightarrow> (('t, 'a) dns_state, unit) act" where
  "start_request k rc = (if rc then throwA (request_failed k)
     else modifyA (\<lambda>s. s\<lparr>ds_requests := ds_requests s @ [(k, la_target (ds_awaiter s), la_flags (ds_awaiter s))]\<rparr>))"

definition LookupAwaiter_await_suspend :: "lookup_kind \<Rightarrow> bool \<Rightarrow> nat \<Rightarrow> (('t, 'a) dns_state, unit) act" where
  "LookupAwaiter_await_suspend k rc coro = seqA (modifyA (\<lambda>s. s\<lparr>ds_awaiter := (ds_awaiter s)\<lparr>la_coro := Some coro\<rparr>\<rparr>)) (start_request k rc)"

definition expected_type :: "evdns_constants \<Rightarrow> lookup_kind \<Rightarrow> int" where
  "expected_type D k = (case k of IPv4 \<Rightarrow> DNS_IPv4_A D | IPv6 \<Rightarrow> DNS_IPv6_AAAA D | _ \<Rightarrow> DNS_PTR D)"

definition wrong_type :: "lookup_kind \<Rightarrow> exn" where
  "wrong_type k = Logic_error (case k of IPv4 \<Rightarrow> ''IPv4 lookup did not result in A record''
     | IPv6 \<Rightarrow> ''IPv6 lookup did not result in AAAA record'' | _ \<Rightarrow> ''reverse lookup did not result in PTR record'')"

definition on_result :: "('a lookup_result \<Rightarrow> 'a lookup_result) \<Rightarrow> (('t, 'a) dns_state, unit) act" where
  "on_result f = modifyA (\<lambda>s. s\<lparr>ds_awaiter := (ds_awaiter s)\<lparr>la_result := f (la_result (ds_awaiter s))\<rparr>\<rparr>)"

text \<open>The loop that copies \<open>addrs[x]\<close> up to \<open>addrs[count - 1]\<close>.\<close>

fun copy_addresses :: "nat \<Rightarrow> nat \<Rightarrow> 'a list \<Rightarrow> (('t, 'a) dns_state, unit) act" where
  "copy_addresses 0 x addrs = retA ()"
| "copy_addresses (Suc left) x addrs = (if x < length addrs
     then seqA (on_result (\<lambda>r. r\<lparr>lr_results := lr_results r @ [addrs ! x]\<rparr>)) (copy_addresses left (Suc x) addrs)
     else throwA (Undefined_behaviour ''read past the addresses''))"

text \<open>A negative count, converted to \<open>size_t\<close>, is more than a vector can reserve.\<close>

definition on_request_complete :: "evdns_constants \<Rightarrow> lookup_kind \<Rightarrow> int \<Rightarrow> int \<Rightarrow> int \<Rightarrow> int \<Rightarrow> 'a list \<Rightarrow> (('t, 'a) dns_state, unit) act" where
  "on_request_complete D k result type count ttl addrs =
     seqA (on_result (\<lambda>r. r\<lparr>lr_result_code := Some result\<rparr>))
       (whenA (result = DNS_ERR_NONE D)
         (if type \<noteq> expected_type D k then throwA (wrong_type k)
          else seqA (on_result (\<lambda>r. r\<lparr>lr_ttl := Some ttl\<rparr>))
            (if count < 0 then throwA (Logic_error ''vector::reserve'') else copy_addresses (nat count) 0 addrs)))"

definition dispatch_on_request_complete :: "evdns_constants \<Rightarrow> lookup_kind \<Rightarrow> int \<Rightarrow> int \<Rightarrow> int \<Rightarrow> int \<Rightarrow> 'a list \<Rightarrow> (('t, 'a) dns_state, unit) act" where
  "dispatch_on_request_complete D k result type count ttl addrs = seqA (on_request_complete D k result type count ttl addrs)
     (seqA (modifyA (\<lambda>s. s\<lparr>ds_awaiter := (ds_awaiter s)\<lparr>la_complete := True\<rparr>\<rparr>))
     (bindA (getsA (\<lambda>s. la_coro (ds_awaiter s))) (\<lambda>c. case c of
        None \<Rightarrow> throwA (Undefined_behaviour ''resume of a null coroutine'')
      | Some coro \<Rightarrow> modifyA (\<lambda>s. s\<lparr>ds_resumed := ds_resumed s @ [coro]\<rparr>))))"

definition LookupAwaiter_await_resume :: "('t, 'a) lookup_awaiter \<Rightarrow> 'a lookup_result" where
  "LookupAwaiter_await_resume aw = la_result aw"

section \<open>A lookup from its start to its end\<close>

definition lookup_start :: "'t \<Rightarrow> int \<Rightarrow> ('t, 'a) dns_state" where
  "lookup_start target flags = \<lparr>ds_awaiter = LookupAwaiterBase_new target flags, ds_resumed = [], ds_requests = []\<rparr>"

text \<open>\<open>co_await\<close> of a lookup in coroutine \<open>coro\<close>, and libevent's answer.\<close>

definition lookup :: "evdns_constants \<Rightarrow> lookup_kind \<Rightarrow> nat \<Rightarrow> int \<Rightarrow> int \<Rightarrow> int \<Rightarrow> int \<Rightarrow> 'a list \<Rightarrow> (('t, 'a) dns_state, unit) act" where
  "lookup D k coro result type count ttl addrs = seqA (LookupAwaiter_await_suspend k False coro)
     (dispatch_on_request_complete D k result type count ttl addrs)"

lemma copy_addresses_run:
  "x + left \<le> length addrs \<Longrightarrow> copy_addresses left x addrs s =
    (Ret (), s\<lparr>ds_awaiter := (ds_awaiter s)\<lparr>la_result := (la_result (ds_awaiter s))\<lparr>lr_results := lr_results (la_result (ds_awaiter s)) @ take left (drop x addrs)\<rparr>\<rparr>\<rparr>)"
proof (induction left arbitrary: x s)
  case (Suc left)
  then have "take (Suc left) (drop x addrs) = addrs ! x # take left (drop (Suc x) addrs)"
    by (simp add: Cons_nth_drop_Suc [symmetric])
  with Suc show ?case by (simp add: seqA_def bindA_def on_result_def)
qed simp

lemmas lookup_defs = lookup_def LookupAwaiter_await_suspend_def start_request_def dispatch_on_request_complete_def on_request_complete_def
  lookup_start_def LookupAwaiterBase_new_def on_result_def seqA_def bindA_def whenA_def

text \<open>A lookup.  When the answer is an error, or addresses of the expected type, the coroutine is resumed
  exactly once, with the result code, and with the time to live and exactly the addresses of the
  answer, in order, when there are any; one request was started, for the target with its flags.  When
  the record type is another one, the callback throws out of libevent, the coroutine is never resumed
  and the lookup not complete.\<close>

theorem lookup_delivers:
  assumes "lookup D k coro result type (int count) ttl addrs (lookup_start target flags) = (r, s)" and "count \<le> length addrs"
  shows "ds_requests s = [(k, target, flags)] \<and>
    (if result \<noteq> DNS_ERR_NONE D then r = Ret () \<and> ds_resumed s = [coro] \<and>
       LookupAwaiter_await_resume (ds_awaiter s) = \<lparr>lr_result_code = Some result, lr_ttl = None, lr_results = []\<rparr>
     else if type = expected_type D k then r = Ret () \<and> ds_resumed s = [coro] \<and>
       LookupAwaiter_await_resume (ds_awaiter s) = \<lparr>lr_result_code = Some result, lr_ttl = Some ttl, lr_results = take count addrs\<rparr>
     else r = Throw (wrong_type k) \<and> ds_resumed s = [] \<and> \<not> LookupAwaiter_await_ready (ds_awaiter s))"
  using assms
  by (auto simp: lookup_defs copy_addresses_run LookupAwaiter_await_resume_def LookupAwaiter_await_ready_def split: if_splits)

theorem lookup_delivers_witness:
  "\<exists>s. lookup \<lparr>DNS_ERR_NONE = 0, DNS_IPv4_A = 1, DNS_IPv6_AAAA = 3, DNS_PTR = 2\<rparr> IPv4 9 0 1 (int 2) 60 [11, 12 :: u32]
      (lookup_start ''host'' 0) = (Ret (), s) \<and> lr_results (LookupAwaiter_await_resume (ds_awaiter s)) = [11, 12]"
proof -
  let ?m = "lookup \<lparr>DNS_ERR_NONE = 0, DNS_IPv4_A = 1, DNS_IPv6_AAAA = 3, DNS_PTR = 2\<rparr> IPv4 9 0 1 (int 2) 60 [11, 12 :: u32] (lookup_start ''host'' 0)"
  obtain r s where m: "?m = (r, s)" by (cases ?m)
  from lookup_delivers [OF m] m show ?thesis by (simp add: expected_type_def)
qed

end
