(* ===== verification/Echo_Server.thy ===== *)
theory Echo_Server
  imports Buffer_Async
begin

text \<open>
  Examples/EchoServer.cc: the coroutine that serves one connection of the echo server, as a
  composition of the buffer's asynchronous operations.  It reads what has arrived, sends it back,
  and closes the connection at the end of the stream.
\<close>

section \<open>The coroutine\<close>

text \<open>The connection with a flag for \<open>close(fd)\<close>.\<close>

record 'b echo_chan = "'b chan" +
  ec_closed :: bool

text \<open>The loop, cut off after \<open>fuel\<close> turns.\<close>

fun echo_loop :: "nat \<Rightarrow> 'b evbuffer_api \<Rightarrow> (('b, 'z) chan_scheme, unit) act" where
  "echo_loop 0 E = throwA Out_of_fuel"
| "echo_loop (Suc n) E = seqA (Buffer_read_atmost E 0x400) (bindA (on_buf (Buffer_get_length E)) (\<lambda>len.
     if len = 0 then retA ()
     else seqA (Buffer_write E (-1)) (seqA (on_buf (Buffer_drain_all E)) (echo_loop n E))))"

definition handle_server_connection :: "nat \<Rightarrow> 'b evbuffer_api \<Rightarrow> ('b echo_chan, unit) act" where
  "handle_server_connection fuel E = seqA (Buffer_new E) (seqA (echo_loop fuel E) (modifyA (\<lambda>s. s\<lparr>ec_closed := True\<rparr>)))"

section \<open>What is sent back\<close>

lemma echo_loop_sim: "evbuffer_spec E v \<Longrightarrow> simA (chan_abs v) (echo_loop n E) (echo_loop n (evb_ref E))"
proof (induction n)
  case (Suc n)
  note IH = Suc.IH [OF Suc.prems]
  show ?case unfolding echo_loop.simps Buffer_drain_all_def by (intro sim_intros Suc.prems IH)
qed (simp add: simA_def)

text \<open>One read: some of the input arrives, at least a byte if there is one.\<close>

lemma read_atmost_list:
  assumes "chan_at [] inp out (length inp + 1) x s"
  obtains j where "j \<le> length inp" and "inp = [] \<or> 0 < j" and "j \<le> 0x400"
    and "reaches (Buffer_read_atmost (evb_list z) 0x400) s (word_of_nat j) (chan_at (take j inp) (drop j inp) out (j + (length (drop j inp) + (if inp = [] then 0 else 1))) x)"
proof -
  from assms have len: "2 * length inp + 1 \<le> length (ch_sched s)" and ok: "Os_fail \<notin> set (ch_sched s)" by (auto simp: chan_at_def live_def)
  then obtain k evs where sched: "ch_sched s = Os_ok k # evs" by (cases "ch_sched s") (auto, metis os_step.exhaust)
  define j where "j = os_xfer k 0x400 (length inp)"
  have j: "j \<le> length inp" "j \<le> 0x400" "inp = [] \<or> 0 < j" by (auto simp: j_def os_xfer_def)
  have lim: "c_int 0x400 = 0x400" by (simp add: c_int_def)
  have "(word_of_int (int j) :: u64) = word_of_nat j" by simp
  then have run: "Buffer_read_atmost (evb_list z) 0x400 s = (Ret (word_of_nat j), s\<lparr>ch_buf := take j inp, ch_inp := drop j inp, ch_sched := evs\<rparr>)"
    using assms by (simp add: Buffer_read_atmost_def BufReadAwaiter_new_def BufReadAwaiter_await_ready_def await_chan_def sched
        ReadAtMostAwaiter_on_read_ready_def ReadAtMostAwaiter_await_resume_def lim chan_at_def Let_def flip: j_def)
  have "length (drop j inp) + (j + (length (drop j inp) + (if inp = [] then 0 else 1))) \<le> length evs"
    using len j sched by (cases "inp = []") auto
  then show ?thesis using assms ok sched run j
    by (intro that [of j]) (auto simp: reaches_def chan_at_def live_def)
qed

lemma echo_loop_list:
  assumes "chan_at [] inp out (length inp + 1) x s" and "length inp < fuel"
  shows "reaches (echo_loop fuel (evb_list z)) s () (chan_at [] [] (out @ inp) 0 x)"
  using assms
proof (induction fuel arbitrary: inp out s)
  case (Suc n)
  obtain j where j: "j \<le> length inp" "inp = [] \<or> 0 < j" "j \<le> 0x400"
    and rd: "reaches (Buffer_read_atmost (evb_list z) 0x400) s (word_of_nat j)
      (chan_at (take j inp) (drop j inp) out (j + (length (drop j inp) + (if inp = [] then 0 else 1))) x)"
    by (rule read_atmost_list [OF Suc.prems(1), of z])
  show ?case unfolding echo_loop.simps
  proof (rule reaches_seqA [OF rd], rule reaches_bindA, erule reaches_on_buf)
    show "Buffer_get_length (evb_list z) (take j inp) = (Ret j, take j inp)" using j(1) by (simp add: Buffer_list)
    fix s1 assume s1: "chan_at (take j inp) (drop j inp) out (j + (length (drop j inp) + (if inp = [] then 0 else 1))) x s1"
    show "reaches (if j = 0 then retA () else seqA (Buffer_write (evb_list z) (-1)) (seqA (on_buf (Buffer_drain_all (evb_list z))) (echo_loop n (evb_list z))))
        s1 () (chan_at [] [] (out @ inp) 0 x)"
    proof (cases "j = 0")
      case True
      with j(2) s1 show ?thesis by (simp add: reaches_def)
    next
      case False
      then have ne: "inp \<noteq> []" "take j inp \<noteq> []" "length (take j inp) < 2 ^ 63" "length (drop j inp) < n" using j Suc.prems(2) by auto
      have "chan_at (take j inp) (drop j inp) out (length (take j inp) + (length (drop j inp) + 1)) x s1" using s1 ne(1) j(1) by (simp add: min_absorb2)
      note wr = reaches_write [OF this ne(2,3), of z]
      have dr: "Buffer_drain_all (evb_list z) [] = (Ret (), [])" by (simp add: Buffer_drain_all_def bindA_def Buffer_list)
      have rest: "reaches (echo_loop n (evb_list z)) s2 () (chan_at [] [] (out @ inp) 0 x)"
        if "chan_at [] (drop j inp) (out @ take j inp) (length (drop j inp) + 1) x s2" for s2
        using Suc.IH [OF that ne(4)] by simp
      have "reaches (seqA (Buffer_write (evb_list z) (-1)) (seqA (on_buf (Buffer_drain_all (evb_list z))) (echo_loop n (evb_list z)))) s1 ()
          (chan_at [] [] (out @ inp) 0 x)"
        by (rule reaches_seqA [OF wr], rule reaches_seqA, erule reaches_on_buf, rule dr, erule rest)
      with False show ?thesis by simp
    qed
  qed
qed simp

text \<open>C24: The echo server.  On a connection whose peer sends any bytes and then ends the stream, and on which
  no system call fails, the server's coroutine sends back exactly these bytes, in order, however they
  are cut into pieces on the way in and out, and then closes the connection; it takes at most one
  turn of its loop per byte and one for the end.\<close>

theorem echo_server_echoes:
  assumes "evbuffer_spec E v" and "live (length (ch_inp s) + 1) s" and "length (ch_inp s) < fuel"
  shows "\<exists>s'. handle_server_connection fuel E s = (Ret (), s') \<and> ch_out s' = ch_out s @ ch_inp s \<and> ch_inp s' = [] \<and> ec_closed s'"
proof -
  obtain b where b: "evbuffer_new E = Some b" "v b = []" using evb_laws(1) [OF assms(1)] by auto
  let ?s = "s\<lparr>ch_buf := b\<rparr>"
  have "chan_at [] (ch_inp s) (ch_out s) (length (ch_inp s) + 1) (chan.more s) (chan_abs v ?s)"
    using assms(2) b(2) by (simp add: chan_at_def live_def chan_abs_def)
  from echo_loop_list [OF this assms(3), of "evbuffer_write_none E"]
  have "reaches (echo_loop fuel (evb_ref E)) (chan_abs v ?s) () (chan_at [] [] (ch_out s @ ch_inp s) 0 (chan.more s))" by (simp add: evb_ref_def)
  then obtain s' where "echo_loop fuel E ?s = (Ret (), s')" "ch_out s' = ch_out s @ ch_inp s" "ch_inp s' = []"
    by (rule reaches_chanE [OF echo_loop_sim [OF assms(1)]]) auto
  then show ?thesis by (simp add: handle_server_connection_def seqA_def bindA_def Buffer_new_def b)
qed

theorem echo_server_echoes_witness:
  "\<exists>s'. handle_server_connection 4 (evb_list 0) \<lparr>ch_buf = [], ch_inp = [1, 2, 3], ch_sched = replicate 9 (Os_ok 1), ch_out = [], ec_closed = False\<rparr> =
    (Ret (), s') \<and> ch_out s' = [1, 2, 3] \<and> ec_closed s'"
proof -
  let ?s = "\<lparr>ch_buf = [], ch_inp = [1, 2, 3], ch_sched = replicate 9 (Os_ok 1), ch_out = [], ec_closed = False\<rparr> :: bytes echo_chan"
  have l: "live (length (ch_inp ?s) + 1) ?s" and f: "length (ch_inp ?s) < 4" by (simp_all add: live_def)
  from echo_server_echoes [OF evb_list_spec [of 0, OF order_refl] l f] show ?thesis by auto
qed

end
