(* ===== verification/UDP_Echo.thy ===== *)
theory UDP_Echo
  imports Base_IO
begin

text \<open>
  Examples/UDPEchoServer.cc: the coroutine that sends every datagram back to where it came from.  The
  socket is a list of events, as in Base_IO; the datagrams sent are collected.
\<close>

section \<open>The coroutine\<close>

text \<open>The loop, cut off after \<open>fuel\<close> turns: how it ends, and the data and addresses given to \<open>sendto\<close>.\<close>

fun udp_echo_loop :: "nat \<Rightarrow> recv_step list \<Rightarrow> (bytes \<times> nat) list \<Rightarrow> unit outcome \<times> (bytes \<times> nat) list" where
  "udp_echo_loop 0 evs sent = (Throw Out_of_fuel, sent)"
| "udp_echo_loop (Suc n) evs sent = (case Base_recvfrom_rest 0x1000 evs of
     (Ret res, rest) \<Rightarrow> udp_echo_loop n rest (sent @ [(rr_data res, rr_addr res)])
   | (Throw e, rest) \<Rightarrow> (Throw e, sent)
   | (Blocked, rest) \<Rightarrow> (Blocked, sent))"

definition udp_run :: "nat \<Rightarrow> recv_step list \<Rightarrow> unit outcome \<times> (bytes \<times> nat) list" where
  "udp_run fuel evs = udp_echo_loop fuel evs []"

section \<open>What is sent back\<close>

fun datagrams :: "recv_step list \<Rightarrow> (bytes \<times> nat) list" where
  "datagrams [] = []"
| "datagrams (Rf_msg d a # evs) = (d, a) # datagrams evs"
| "datagrams (_ # evs) = datagrams evs"

definition proper :: "recv_step \<Rightarrow> bool" where
  "proper e \<longleftrightarrow> (case e of Rf_msg d a \<Rightarrow> d \<noteq> [] | Rf_again \<Rightarrow> True | Rf_error \<Rightarrow> False)"

lemma drive_agains:
  "\<forall>e\<in>set evs. e = Rf_again \<Longrightarrow>
     fst (drive RecvFromAwaiter_on_read_ready RecvFromAwaiter_await_resume evs aw ()) = Blocked"
  by (induction evs) (simp_all add: RecvFromAwaiter_on_read_ready_def sys_recvfrom_def)

lemma recvfrom_idle: "\<forall>e\<in>set evs. e = Rf_again \<Longrightarrow> fst (Base_recvfrom_rest n evs) = Blocked"
  using drive_agains
  by (cases evs) (auto simp: RecvFromAwaiter_await_ready_def RecvFromAwaiter_new_def sys_recvfrom_def split: prod.splits, metis fst_conv)

text \<open>Either only failed attempts are left, or there is a next datagram.\<close>

lemma next_datagram:
  "\<forall>e\<in>set evs. proper e \<Longrightarrow> (\<forall>e\<in>set evs. e = Rf_again) \<and> datagrams evs = [] \<or>
     (\<exists>before d a rest. evs = before @ Rf_msg d a # rest \<and> (\<forall>e\<in>set before. e = Rf_again) \<and> d \<noteq> [] \<and> datagrams evs = (d, a) # datagrams rest)"
proof (induction evs)
  case (Cons e evs)
  show ?case
  proof (cases e)
    case (Rf_msg d a)
    with Cons.prems show ?thesis by (intro disjI2 exI [of _ "[]"] exI [of _ d] exI [of _ a] exI [of _ evs]) (simp add: proper_def)
  next
    case Rf_again
    from Cons.IH Cons.prems consider "\<forall>e\<in>set evs. e = Rf_again" "datagrams evs = []"
      | before d a rest where "evs = before @ Rf_msg d a # rest" "\<forall>e\<in>set before. e = Rf_again" "d \<noteq> []" "datagrams evs = (d, a) # datagrams rest" by auto
    then show ?thesis
    proof cases
      case 2
      with Rf_again show ?thesis by (intro disjI2 exI [of _ "Rf_again # before"] exI [of _ d] exI [of _ a] exI [of _ rest]) simp
    qed (simp add: Rf_again)
  qed (use Cons.prems in \<open>simp add: proper_def\<close>)
qed simp

lemma udp_echo_loop_run:
  "\<forall>e\<in>set evs. proper e \<Longrightarrow> length evs < fuel \<Longrightarrow>
     udp_echo_loop fuel evs sent = (Blocked, sent @ map (\<lambda>(d, a). (take 0x1000 d, a)) (datagrams evs))"
proof (induction fuel arbitrary: evs sent)
  case (Suc n)
  from next_datagram [OF Suc.prems(1)] show ?case
  proof (elim disjE exE conjE)
    assume "\<forall>e\<in>set evs. e = Rf_again" "datagrams evs = []"
    with recvfrom_idle [of evs "0x1000"] show ?thesis by (cases "Base_recvfrom_rest 0x1000 evs") simp
  next
    fix before d a rest
    assume e: "evs = before @ Rf_msg d a # rest" "\<forall>e\<in>set before. e = Rf_again" "d \<noteq> []" "datagrams evs = (d, a) # datagrams rest"
    have "udp_echo_loop n rest (sent @ [(take 0x1000 d, a)]) =
        (Blocked, (sent @ [(take 0x1000 d, a)]) @ map (\<lambda>(d, a). (take 0x1000 d, a)) (datagrams rest))"
      by (rule Suc.IH) (use Suc.prems e(1) in auto)
    with e recvfrom_rest_message [of "0x1000" d before a rest] show ?thesis by simp
  qed
qed simp



text \<open>An empty datagram stops the server: it throws out of the coroutine when it arrives before the attempt to
  receive, and the coroutine is never resumed when it arrives after it; whatever comes later is not answered.\<close>

theorem udp_echo_stopped:
  "udp_run (Suc n) (Rf_msg [] a # evs) = (Throw (Runtime_error ''zero-length message''), []) \<and>
   udp_run (Suc n) (Rf_again # Rf_msg [] a # evs) = (Blocked, [])"
  by (simp add: udp_run_def RecvFromAwaiter_await_ready_def RecvFromAwaiter_on_read_ready_def RecvFromAwaiter_new_def sys_recvfrom_def)

end
