(* ===== verification/Reverse_DNS.thy ===== *)
theory Reverse_DNS
  imports DNS_Lookup Task Printf
begin

text \<open>
  Examples/RangeReverseDNS.cc: reverse lookups of all addresses of a network, a limited number of them at
  a time.  The tasks are those of \<open>all_limit\<close>; when one ends, it has printed a line.
\<close>

section \<open>The addresses\<close>

text \<open>\<open>1 << (32 - scope_bits)\<close>, a signed integer of 32 bits; only shifts by less than 32 have a meaning.\<close>

definition range_shift :: "u8 \<Rightarrow> int outcome" where
  "range_shift scope_bits = (let n = 32 - uint scope_bits in
     if 0 \<le> n \<and> n < 32 then Ret (sint (push_bit (nat n) 1 :: u32)) else Throw (Undefined_behaviour ''shift''))"

text \<open>The base address without the bits in which the addresses of the network differ.\<close>

definition range_base :: "u32 \<Rightarrow> u8 \<Rightarrow> u32 outcome" where
  "range_base s_addr_base scope_bits = (case range_shift scope_bits of
     Ret n \<Rightarrow> if n = - (2 ^ 31) then Throw (Undefined_behaviour ''signed overflow'')
       else Ret (s_addr_base AND NOT (word_of_int (n - 1)))
   | Throw e \<Rightarrow> Throw e | Blocked \<Rightarrow> Blocked)"

text \<open>The loop makes one task per address; \<open>s_addr_base | x\<close> has 64 bits and is passed as 32.\<close>

definition range_address :: "u32 \<Rightarrow> nat \<Rightarrow> u32" where
  "range_address base x = ucast (ucast base OR (word_of_nat x :: u64))"

definition range_addresses :: "u32 \<Rightarrow> u8 \<Rightarrow> u32 list outcome" where
  "range_addresses s_addr_base scope_bits = (case range_base s_addr_base scope_bits of
     Ret base \<Rightarrow> (case range_shift scope_bits of
         Ret n \<Rightarrow> Ret (map (range_address base) [0..<unat (word_of_int n :: u64)]) | Throw e \<Rightarrow> Throw e | Blocked \<Rightarrow> Blocked)
   | Throw e \<Rightarrow> Throw e | Blocked \<Rightarrow> Blocked)"

section \<open>What is printed\<close>

text \<open>The rest of print_reverse_lookup_result after the lookup.\<close>

fun names_text :: "bool \<Rightarrow> bytes list \<Rightarrow> bytes" where
  "names_text is_first [] = []"
| "names_text is_first (name # names) = (if is_first then [] else ascii '','') @ name @ names_text False names"

definition print_reverse_lookup_result :: "u32 \<Rightarrow> int \<Rightarrow> int \<Rightarrow> bytes list \<Rightarrow> bytes" where
  "print_reverse_lookup_result s_addr result_code ttl results =
     ascii (c_printf ''%u.%u.%u.%u => (%d)'' [P_int (uint (drop_bit 24 s_addr AND 0xFF)), P_int (uint (drop_bit 16 s_addr AND 0xFF)),
       P_int (uint (drop_bit 8 s_addr AND 0xFF)), P_int (uint (s_addr AND 0xFF)), P_int result_code]) @
     (if result_code = 0 then ascii (c_printf '' ttl=%d ['' [P_int ttl]) @ names_text True results @ ascii '']\<newline>'' else ascii ''\<newline>'')"

section \<open>The program\<close>

text \<open>
  The tasks wait when they are started (for their delay and the answer), so none is done at once.  A task that
  ends, with the given answer, has just printed its line.
\<close>

record range_state =
  rg_limit :: "(unit, unit) limit_state"
  rg_out :: bytes

type_synonym answer = "int \<times> int \<times> bytes list"

definition print_reverse_range_lookup_results :: "order \<Rightarrow> nat \<Rightarrow> u32 list \<Rightarrow> range_state" where
  "print_reverse_range_lookup_results order parallelism addrs =
     \<lparr>rg_limit = all_limit order (\<lambda>_. None) parallelism (replicate (length addrs) Task_new), rg_out = []\<rparr>"

definition range_end :: "order \<Rightarrow> nat \<Rightarrow> u32 list \<Rightarrow> nat \<Rightarrow> answer \<Rightarrow> range_state \<Rightarrow> range_state" where
  "range_end order parallelism addrs i a s = (case a of (result_code, ttl, results) \<Rightarrow>
     \<lparr>rg_limit = all_limit_finish order (\<lambda>_. None) parallelism i (Inr ()) (rg_limit s),
      rg_out = rg_out s @ print_reverse_lookup_result (addrs ! i) result_code ttl results\<rparr>)"

fun range_run :: "order \<Rightarrow> nat \<Rightarrow> u32 list \<Rightarrow> (nat \<times> answer) list \<Rightarrow> range_state \<Rightarrow> range_state" where
  "range_run order p addrs [] s = s"
| "range_run order p addrs ((i, a) # es) s = range_run order p addrs es (range_end order p addrs i a s)"

text \<open>The tasks end in an order in which they can.\<close>

definition range_possible :: "order \<Rightarrow> nat \<Rightarrow> u32 list \<Rightarrow> (nat \<times> answer) list \<Rightarrow> bool" where
  "range_possible order p addrs es \<longleftrightarrow> possible al_tasks (all_limit_finish order (\<lambda>_. None) p) (map (\<lambda>(i, a). (i, Inr ())) es)
     (rg_limit (print_reverse_range_lookup_results order p addrs))"

section \<open>The addresses are those of the network\<close>

definition same_network :: "nat \<Rightarrow> u32 \<Rightarrow> u32 \<Rightarrow> bool" where
  "same_network scope_bits a b \<longleftrightarrow> drop_bit (32 - scope_bits) a = drop_bit (32 - scope_bits) b"

lemma power_above: "- (2 ^ 31) < (2::int) ^ k"
  by (rule less_le_trans [of _ 0]) simp_all

lemma range_shift_run:
  assumes "2 \<le> unat scope_bits" "unat scope_bits \<le> 32"
  shows "range_shift scope_bits = Ret (2 ^ (32 - unat scope_bits))"
proof -
  let ?k = "32 - unat scope_bits"
  have u: "32 - uint scope_bits = int ?k" using assms by (simp add: of_nat_diff)
  have "(2::int) ^ ?k \<le> 2 ^ 30" using assms by (intro power_increasing) auto
  moreover have "- (2 ^ 31) \<le> (2::int) ^ ?k" by (rule less_imp_le [OF power_above])
  ultimately have "signed_take_bit 31 ((2::int) ^ ?k) = 2 ^ ?k" by (intro signed_take_bit_int_eq_self) auto
  moreover have "(push_bit ?k 1 :: u32) = word_of_int (2 ^ ?k)" by (simp add: push_bit_eq_mult)
  ultimately have "sint (push_bit ?k 1 :: u32) = 2 ^ ?k" by (simp only: sint_sbintrunc') simp
  moreover have "?k < 32" using assms by linarith
  then have "0 \<le> int ?k \<and> int ?k < 32" by (metis of_nat_less_iff of_nat_numeral zero_le_imp_eq_int le0 of_nat_0_le_iff)
  ultimately show ?thesis unfolding range_shift_def Let_def u by (simp only: nat_int simp_thms if_True)
qed

lemma range_address_bit: "bit (range_address base x) n \<longleftrightarrow> n < 32 \<and> (bit base n \<or> bit x n)"
  by (auto simp: range_address_def bit_simps)

lemma range_base_run:
  assumes "2 \<le> unat scope_bits" "unat scope_bits \<le> 32"
  shows "range_base b scope_bits = Ret (b AND NOT (mask (32 - unat scope_bits)))"
proof -
  have "(word_of_int (2 ^ k - 1) :: u32) = mask k" for k by (simp add: mask_eq_exp_minus_1)
  moreover have "(2::int) ^ (32 - unat scope_bits) \<noteq> - (2 ^ 31)" by (rule power_above [THEN less_imp_neq, symmetric])
  ultimately show ?thesis by (simp add: range_base_def range_shift_run [OF assms])
qed

lemma range_addresses_run:
  assumes "2 \<le> unat scope_bits" "unat scope_bits \<le> 32"
  shows "range_addresses b scope_bits = Ret (map (range_address (b AND NOT (mask (32 - unat scope_bits)))) [0..<2 ^ (32 - unat scope_bits)])"
proof -
  have "(2::nat) ^ (32 - unat scope_bits) \<le> 2 ^ 30" using assms by (intro power_increasing) auto
  then have "unat (word_of_nat (2 ^ (32 - unat scope_bits)) :: u64) = 2 ^ (32 - unat scope_bits)" unfolding unat_of_nat by (intro mod_less) auto
  then have "unat (word_of_int (2 ^ (32 - unat scope_bits)) :: u64) = 2 ^ (32 - unat scope_bits)" by simp
  then show ?thesis by (simp add: range_addresses_def range_shift_run [OF assms] range_base_run [OF assms])
qed

text \<open>The address has the upper bits of the base and the lower bits of \<open>x\<close>.\<close>

lemma range_address_split:
  assumes "x < 2 ^ k" "k \<le> 32"
  shows "bit (range_address (b AND NOT (mask k)) x) n \<longleftrightarrow> n < 32 \<and> (if n < k then bit x n else bit b n)"
proof -
  have "\<not> bit x n" if "k \<le> n" using assms(1) that by (metis bit_take_bit_iff not_less take_bit_nat_eq_self)
  then show ?thesis by (auto simp: range_address_bit bit_simps)
qed

lemma network_addresses:
  assumes "k \<le> 32"
  shows "range_address (b AND NOT (mask k)) ` {0..<2 ^ k} = {a. drop_bit k a = drop_bit k b}"
    and "inj_on (range_address (b AND NOT (mask k))) {0..<2 ^ k}"
proof -
  show "range_address (b AND NOT (mask k)) ` {0..<2 ^ k} = {a. drop_bit k a = drop_bit k b}"
  proof (intro equalityI subsetI)
    fix a assume "a \<in> range_address (b AND NOT (mask k)) ` {0..<2 ^ k}"
    then obtain x where "x < 2 ^ k" "a = range_address (b AND NOT (mask k)) x" by auto
    then have "bit (drop_bit k a) n = bit (drop_bit k b) n" for n using range_address_split [OF _ assms, of x b "k + n"]
      by (auto simp: bit_simps dest: bit_imp_le_length)
    then show "a \<in> {a. drop_bit k a = drop_bit k b}" by (simp add: bit_eqI)
  next
    fix a assume "a \<in> {a. drop_bit k a = drop_bit k b}"
    then have d: "bit a (k + n) = bit b (k + n)" for n by (metis (mono_tags) bit_drop_bit_eq comp_apply mem_Collect_eq)
    let ?x = "take_bit k (unat a)"
    have x: "?x < 2 ^ k" by simp
    have "bit a n = bit (range_address (b AND NOT (mask k)) ?x) n" for n
      using d [of "n - k"] by (auto simp: range_address_split [OF x assms] bit_simps bit_imp_le_length dest: bit_imp_le_length)
    then show "a \<in> range_address (b AND NOT (mask k)) ` {0..<2 ^ k}" using x by (intro image_eqI [of _ _ ?x]) (auto intro: bit_eqI)
  qed
  show "inj_on (range_address (b AND NOT (mask k))) {0..<2 ^ k}"
  proof
    fix x y :: nat assume xy: "x \<in> {0..<2 ^ k}" "y \<in> {0..<2 ^ k}" and "range_address (b AND NOT (mask k)) x = range_address (b AND NOT (mask k)) y"
    then have "bit (take_bit k x) n = bit (take_bit k y) n" for n
      using range_address_split [OF _ assms, of x b n] range_address_split [OF _ assms, of y b n] assms by (auto simp: bit_simps)
    then have "take_bit k x = take_bit k y" by (simp add: bit_eqI)
    with xy show "x = y" by (simp add: take_bit_nat_eq_self)
  qed
qed

section \<open>Every address once\<close>

text \<open>Tasks that do not end by themselves are done exactly when they were ended.\<close>

lemma start_done: "TaskBase_start (\<lambda>_. None) i ts = (ts', c) \<Longrightarrow> TaskBase_done ts' = TaskBase_done ts"
  by (auto simp: TaskBase_start_def first_resume_def TaskBase_done_def nth_update_if fun_eq_iff split: if_splits)

lemma await_any_done:
  "await_any aw ts = (None, ts') \<Longrightarrow> TaskBase_done ts' = TaskBase_done ts"
  "await_any aw ts = (Some (r, aw', ts'), ts'') \<Longrightarrow> TaskBase_done ts' = TaskBase_done ts"
  by (auto simp: await_any_def AnyAwaiter_await_suspend_def AnyAwaiter_await_resume_def any_resume_loop_eq split: sum.splits bool.splits option.splits)

lemma all_limit_loop_done: "TaskBase_done (al_tasks (all_limit_loop order (\<lambda>_. None) p start aw ts)) = TaskBase_done ts"
proof (induction order "\<lambda>_ :: nat. None :: 'a task_result option" p start aw ts rule: all_limit_loop.induct)
  case (1 order parallelism start aw ts)
  show ?case
    by (subst all_limit_loop.simps)
      (auto simp: 1 start_done await_any_done split: prod.splits option.splits sum.splits)
qed

lemma all_limit_finish_done:
  assumes "running (al_tasks s) i"
  shows "TaskBase_done (al_tasks (all_limit_finish order (\<lambda>_. None) p i r s)) j \<longleftrightarrow> j = i \<or> TaskBase_done (al_tasks s) j"
proof -
  have "TaskBase_done ((al_tasks s)[i := (al_tasks s ! i)\<lparr>tk_value := Some r\<rparr>]) j \<longleftrightarrow> j = i \<or> TaskBase_done (al_tasks s) j"
    using assms by (auto simp: TaskBase_done_def running_def nth_update_if)
  then show ?thesis
    by (auto simp: all_limit_finish_def TaskPromise_final_def all_limit_loop_done AnyAwaiter_await_resume_def any_resume_loop_eq
        split: option.splits prod.splits sum.splits)
qed

lemma ends_once:
  assumes "possible al_tasks (all_limit_finish order (\<lambda>_. None) p) es s" and "limit_inv p s" "0 < p"
  shows "distinct (map fst es) \<and> (\<forall>i\<in>set (map fst es). i < length (al_tasks s) \<and> \<not> TaskBase_done (al_tasks s) i) \<and>
    length (al_tasks (after (all_limit_finish order (\<lambda>_. None) p) es s)) = length (al_tasks s) \<and>
    (\<forall>j. TaskBase_done (al_tasks (after (all_limit_finish order (\<lambda>_. None) p) es s)) j \<longleftrightarrow> j \<in> set (map fst es) \<or> TaskBase_done (al_tasks s) j)"
  using assms(1,2)
proof (induction es arbitrary: s)
  case (Cons e es)
  obtain i r where e: "e = (i, r)" by force
  let ?s = "all_limit_finish order (\<lambda>_. None) p i r s"
  from e Cons.prems have run: "running (al_tasks s) i" and "possible al_tasks (all_limit_finish order (\<lambda>_. None) p) es ?s" by simp_all
  moreover have "limit_inv p ?s" "length (al_tasks ?s) = length (al_tasks s)"
    using limit_finish_run [of p s i order "\<lambda>_. None" r] Cons.prems(2) run assms(3) by (auto simp: tasks_le_def)
  ultimately show ?case using Cons.IH [of ?s] all_limit_finish_done [OF run, of order p r] by (auto simp: e running_def)
qed simp

lemma possible_snoc: "possible tasks finish (es @ [(i, r)]) s \<longleftrightarrow> possible tasks finish es s \<and> running (tasks (after finish es s)) i"
  by (induction es arbitrary: s) auto

lemma range_run_limit:
  "rg_limit (range_run order p addrs es s) = after (all_limit_finish order (\<lambda>_. None) p) (map (\<lambda>(i, a). (i, Inr ())) es) (rg_limit s)"
  "rg_out (range_run order p addrs es s) = rg_out s @ concat (map (\<lambda>(i, code, ttl, names). print_reverse_lookup_result (addrs ! i) code ttl names) es)"
  by (induction es arbitrary: s) (auto simp: range_end_def split: prod.splits)



text \<open>With a prefix of one bit the subtraction overflows, and with none the shift is too long: the program is undefined for them.\<close>

theorem short_prefix_undefined:
  "unat scope_bits < 2 \<Longrightarrow> \<exists>w. range_addresses b scope_bits = Throw (Undefined_behaviour w)"
proof -
  assume "unat scope_bits < 2"
  then have "scope_bits = 0 \<or> scope_bits = 1" by (auto simp: less_2_cases_iff word_unat_eq_iff)
  moreover have "range_shift 0 = Throw (Undefined_behaviour ''shift'')" "range_shift 1 = Ret (- (2 ^ 31))" by code_simp+
  ultimately show ?thesis by (auto simp: range_addresses_def range_base_def)
qed

end
