(* ===== verification/HTTP_Request.thy ===== *)
theory HTTP_Request
  imports Prelude
begin

text \<open>
  Protocols/HTTP/Request.cc and the request part of Connection.cc: parsing of URL parameters, and
  the life of a request from its construction over sending and awaiting to its response.  phosg's
  \<open>split\<close> and \<open>value_for_hex_char\<close> are parameters, and so are the results of libevent's functions.
\<close>

section \<open>URL parameters\<close>

record strings_api =
  split_at :: "bytes \<Rightarrow> byte \<Rightarrow> bytes list"
  value_for_hex_char :: "byte \<Rightarrow> u8 outcome"

text \<open>The byte of \<open>%ab\<close>.\<close>

definition hex_byte :: "strings_api \<Rightarrow> byte \<Rightarrow> byte \<Rightarrow> byte outcome" where
  "hex_byte S a b = (case value_for_hex_char S a of
     Ret x \<Rightarrow> (case value_for_hex_char S b of Ret y \<Rightarrow> Ret (push_bit 4 x OR y) | Throw e \<Rightarrow> Throw e | Blocked \<Rightarrow> Blocked)
   | Throw e \<Rightarrow> Throw e | Blocked \<Rightarrow> Blocked)"

text \<open>\<open>read_offset < value.size() - 2\<close>, in unsigned arithmetic.\<close>

definition before_last_two :: "nat \<Rightarrow> nat \<Rightarrow> bool" where
  "before_last_two r n \<longleftrightarrow> r < unat (word_of_nat n - 2 :: u64)"

text \<open>The loop that decodes a value in place.\<close>

function url_decode_loop :: "strings_api \<Rightarrow> bytes \<Rightarrow> nat \<Rightarrow> nat \<Rightarrow> bytes outcome" where
  "url_decode_loop S val w r =
     (if r < length val then
        (if val ! r = 37 \<and> before_last_two r (length val) then
           (case (str_at val (r + 1), str_at val (r + 2)) of
              (Some a, Some b) \<Rightarrow> (case hex_byte S a b of
                  Ret c \<Rightarrow> url_decode_loop S (val[w := c]) (w + 1) (r + 3)
                | Throw e \<Rightarrow> Throw e | Blocked \<Rightarrow> Blocked)
            | _ \<Rightarrow> Throw (Undefined_behaviour ''string index out of range''))
         else if val ! w = 43 then url_decode_loop S (val[w := 32]) (w + 1) (r + 1)
         else url_decode_loop S (val[w := val ! r]) (w + 1) (r + 1))
      else Ret (resize w val))"
  by pat_completeness auto
termination by (relation "measure (\<lambda>(S, val, w, r). length val - r)") auto

declare url_decode_loop.simps [simp del]

text \<open>One parameter: the key up to the first equals sign, the value decoded.\<close>

definition parse_param :: "strings_api \<Rightarrow> bytes \<Rightarrow> (bytes \<times> bytes) outcome" where
  "parse_param S it =
     (if 61 \<in> set it then
        (case url_decode_loop S (tl (dropWhile (\<lambda>b. b \<noteq> 61) it)) 0 0 of
           Ret val \<Rightarrow> Ret (takeWhile (\<lambda>b. b \<noteq> 61) it, val) | Throw e \<Rightarrow> Throw e | Blocked \<Rightarrow> Blocked)
      else Ret (it, []))"

fun params_loop :: "strings_api \<Rightarrow> bytes list \<Rightarrow> (bytes \<times> bytes) list \<Rightarrow> (bytes \<times> bytes) list outcome" where
  "params_loop S [] params = Ret params"
| "params_loop S (it # its) params = (case parse_param S it of
     Ret p \<Rightarrow> params_loop S its (params @ [p]) | Throw e \<Rightarrow> Throw e | Blocked \<Rightarrow> Blocked)"

text \<open>The query is a C string, or a null pointer when the URI has none.\<close>

definition parse_url_params :: "strings_api \<Rightarrow> bytes option \<Rightarrow> (bytes \<times> bytes) list outcome" where
  "parse_url_params S query = (case query of
     None \<Rightarrow> Throw (Undefined_behaviour ''null pointer'')
   | Some q \<Rightarrow> if q = [] then Ret [] else params_loop S (split_at S q 38) [])"

text \<open>\<open>ord\<close> is the order in which the multimap is traversed, which the language leaves open.\<close>

definition parse_url_params_unique :: "strings_api \<Rightarrow> ((bytes \<times> bytes) list \<Rightarrow> (bytes \<times> bytes) list) \<Rightarrow> bytes option \<Rightarrow> (bytes \<rightharpoonup> bytes) outcome" where
  "parse_url_params_unique S ord query = (case parse_url_params S query of
     Ret ps \<Rightarrow> Ret (fold (\<lambda>(k, x) m. map_emplace m k x) (ord ps) Map.empty) | Throw e \<Rightarrow> Throw e | Blocked \<Rightarrow> Blocked)"

text \<open>What percent and plus decoding means, read off from the left.\<close>

function url_decode :: "strings_api \<Rightarrow> bytes \<Rightarrow> bytes outcome" where
  "url_decode S [] = Ret []"
| "url_decode S (c # cs) =
     (if c = 37 \<and> 2 \<le> length cs then
        (case hex_byte S (cs ! 0) (cs ! 1) of
           Ret x \<Rightarrow> (case url_decode S (drop 2 cs) of Ret d \<Rightarrow> Ret (x # d) | Throw e \<Rightarrow> Throw e | Blocked \<Rightarrow> Blocked)
         | Throw e \<Rightarrow> Throw e | Blocked \<Rightarrow> Blocked)
      else (case url_decode S cs of Ret d \<Rightarrow> Ret ((if c = 43 then 32 else c) # d) | Throw e \<Rightarrow> Throw e | Blocked \<Rightarrow> Blocked))"
  by pat_completeness auto
termination by (relation "measure (\<lambda>(S, cs). length cs)") auto

definition prefix_outcome :: "bytes \<Rightarrow> bytes outcome \<Rightarrow> bytes outcome" where
  "prefix_outcome d r = (case r of Ret x \<Rightarrow> Ret (d @ x) | Throw e \<Rightarrow> Throw e | Blocked \<Rightarrow> Blocked)"

lemma prefix_outcome_simps [simp]:
  "prefix_outcome d (Ret x) = Ret (d @ x)" "prefix_outcome d (Throw e) = Throw e" "prefix_outcome d Blocked = Blocked"
  "prefix_outcome [] r = r"
  by (simp_all add: prefix_outcome_def split: outcome.splits)

lemma before_last_two_iff:
  assumes "2 \<le> n" and "n < 2 ^ 64"
  shows "before_last_two r n \<longleftrightarrow> r + 2 < n"
proof -
  have "word_of_nat n - 2 = (word_of_nat (n - 2) :: u64)" using assms(1) by (simp add: of_nat_diff)
  moreover have "unat (word_of_nat (n - 2) :: u64) = n - 2" using assms(2) by (simp add: unat_of_nat)
  ultimately show ?thesis using assms(1) by (auto simp: before_last_two_def)
qed

text \<open>
  The loop on the original value \<open>orig\<close> after \<open>length done\<close> bytes have been written: they are at the
  front, the rest is as it was.
\<close>

lemma url_decode_loop_correct:
  assumes "43 \<notin> set orig \<or> 37 \<notin> set orig \<and> w = r" and "length orig < 2 ^ 64" and "37 \<in> set orig \<Longrightarrow> 2 \<le> length orig"
    and "length out = w" and "w \<le> r" and "r \<le> length orig"
  shows "url_decode_loop S (out @ drop w orig) w r = prefix_outcome out (url_decode S (drop r orig))"
  using assms
proof (induction "length orig - r" arbitrary: out w r rule: less_induct)
  case less
  define v where v: "v = out @ drop w orig"
  have len: "length v = length orig" using less.prems by (simp add: v)
  have nth: "v ! i = orig ! i" if "w \<le> i" "i < length orig" for i using that less.prems(4) by (simp add: v nth_append)
  have upd: "v[w := c] = (out @ [c]) @ drop (w + 1) orig" if "w < length orig" for c
    using that less.prems(4) by (simp add: v list_update_append flip: Cons_nth_drop_Suc)
  have "url_decode_loop S v w r = prefix_outcome out (url_decode S (drop r orig))"
  proof (cases "r < length orig")
    case False
    then show ?thesis using less.prems len by (subst url_decode_loop.simps) (simp add: resize_def v)
  next
    case True
    then have d: "drop r orig = orig ! r # drop (r + 1) orig" by (simp add: Cons_nth_drop_Suc)
    have mem: "orig ! i \<in> set orig" if "i < length orig" for i using that by simp
    show ?thesis
    proof (cases "orig ! r = 37 \<and> r + 2 < length orig")
      case esc: True
      then have in37: "37 \<in> set orig" using mem [OF True] by simp
      then have blt: "before_last_two r (length orig)" using esc less.prems(2,3) by (simp add: before_last_two_iff)
      have at: "str_at v (r + 1) = Some (drop (r + 1) orig ! 0)" "str_at v (r + 2) = Some (drop (r + 1) orig ! 1)"
        using esc less.prems(5) nth len by (auto simp: str_at_def)
      have IH: "url_decode_loop S ((out @ [c]) @ drop (w + 1) orig) (w + 1) (r + 3) = prefix_outcome (out @ [c]) (url_decode S (drop (r + 3) orig))" for c
        by (rule less.hyps) (use esc less.prems in37 in auto)
      have "url_decode_loop S v w r = (case hex_byte S (drop (r + 1) orig ! 0) (drop (r + 1) orig ! 1) of
          Ret c \<Rightarrow> url_decode_loop S (v[w := c]) (w + 1) (r + 3) | Throw e \<Rightarrow> Throw e | Blocked \<Rightarrow> Blocked)"
        using True esc blt nth [of r] less.prems(5) at len by (subst url_decode_loop.simps) simp
      also have "\<dots> = (case hex_byte S (drop (r + 1) orig ! 0) (drop (r + 1) orig ! 1) of
          Ret c \<Rightarrow> prefix_outcome (out @ [c]) (url_decode S (drop (r + 3) orig)) | Throw e \<Rightarrow> Throw e | Blocked \<Rightarrow> Blocked)"
        using upd IH True less.prems(5) by (auto split: outcome.splits)
      also have "\<dots> = prefix_outcome out (url_decode S (drop r orig))"
      proof -
        define cs where "cs = drop (r + 1) orig"
        have "drop (r + 3) orig = drop 2 cs" unfolding cs_def drop_drop by (rule arg_cong [where f = "\<lambda>n. drop n orig"]) simp
        moreover have "2 \<le> length cs" using esc unfolding cs_def length_drop by linarith
        moreover have "drop r orig = 37 # cs" using esc d by (simp add: cs_def)
        ultimately have "drop (r + 3) orig = drop 2 cs" "2 \<le> length cs" "drop r orig = 37 # cs" .
        then show ?thesis unfolding cs_def [symmetric] by (simp add: prefix_outcome_def split: outcome.splits)
      qed
      finally show ?thesis .
    next
      case lit: False
      have "\<not> before_last_two r (length orig)" if "orig ! r = 37"
      proof -
        have "37 \<in> set orig" using mem [OF True] that by simp
        then show ?thesis using lit that before_last_two_iff [OF less.prems(3) less.prems(2), of r] by simp
      qed
      then have blt: "\<not> (v ! r = 37 \<and> before_last_two r (length v))" using nth [OF less.prems(5) True] unfolding len by simp
      have plus: "v ! w = 43 \<longleftrightarrow> orig ! r = 43"
      proof (cases "w = r")
        case False
        then have "43 \<notin> set orig" "w < length orig" using less.prems(1,5) True by auto
        then have "orig ! w \<noteq> 43" "orig ! r \<noteq> 43" using True by (metis nth_mem)+
        then show ?thesis using nth [of w] \<open>w < length orig\<close> by simp
      qed (use nth [of r] True in simp)
      let ?c = "if orig ! r = 43 then 32 else orig ! r"
      have "url_decode_loop S v w r = url_decode_loop S (v[w := ?c]) (w + 1) (r + 1)"
        using True blt plus nth [of r] less.prems(5) by (subst url_decode_loop.simps) (auto simp: len)
      also have "\<dots> = url_decode_loop S ((out @ [?c]) @ drop (w + 1) orig) (w + 1) (r + 1)"
        using upd True less.prems(5) by simp
      also have "\<dots> = prefix_outcome (out @ [?c]) (url_decode S (drop (r + 1) orig))"
        by (rule less.hyps) (use True less.prems in auto)
      also have "\<dots> = prefix_outcome out (url_decode S (drop r orig))"
        unfolding d using lit by (auto simp: prefix_outcome_def split: outcome.splits)
      finally show ?thesis .
    qed
  qed
  then show ?case by (simp add: v)
qed

text \<open>A hexadecimal digit as phosg documents it: its value, and an exception for anything else.\<close>

definition hex_digit :: "byte \<Rightarrow> u8 outcome" where
  "hex_digit c = (if 48 \<le> c \<and> c \<le> 57 then Ret (c - 48) else if 65 \<le> c \<and> c \<le> 70 then Ret (c - 55)
     else if 97 \<le> c \<and> c \<le> 102 then Ret (c - 87) else Throw (Out_of_range ''value_for_hex_char''))"

fun split_list :: "bytes \<Rightarrow> byte \<Rightarrow> bytes \<Rightarrow> bytes list" where
  "split_list [] c acc = [acc]"
| "split_list (b # bs) c acc = (if b = c then acc # split_list bs c [] else split_list bs c (acc @ [b]))"

definition strings_model :: strings_api where
  "strings_model = \<lparr>split_at = (\<lambda>s c. split_list s c []), value_for_hex_char = hex_digit\<rparr>"



text \<open>A plus sign after an escape is not decoded: the loop looks for it at the position it writes to, not
  at the one it reads, and after an escape the two differ.  And the value that is a lone percent
  sign makes it read past the end of the string.\<close>

theorem url_plus_after_escape:
  assumes "hex_byte S a b = Ret c" and "a \<noteq> 43"
  shows "url_decode_loop S [37, a, b, 43] 0 0 = Ret [c, 43]" and "url_decode S [37, a, b, 43] = Ret [c, 32]"
    and "url_decode_loop S [37] 0 0 = Throw (Undefined_behaviour ''string index out of range'')"
proof -
  have "unat (- 1 :: u64) = 2 ^ 64 - 1" by (simp add: unsigned_minus_1_eq_mask mask_eq_exp_minus_1)
  then have blt: "before_last_two 0 (length [37, a, b, 43])" "before_last_two 0 (length [37 :: byte])" by (simp_all add: before_last_two_def)
  have "url_decode_loop S [37, a, b, 43] 0 0 = url_decode_loop S [c, a, b, 43] 1 3"
    using assms(1) blt(1) by (subst url_decode_loop.simps) (simp add: str_at_def)
  also have "\<dots> = url_decode_loop S [c, 43, b, 43] (Suc 1) 4" using assms(2) by (subst url_decode_loop.simps) simp
  also have "\<dots> = Ret [c, 43]" by (subst url_decode_loop.simps) (simp add: resize_def)
  finally show "url_decode_loop S [37, a, b, 43] 0 0 = Ret [c, 43]" .
  show "url_decode S [37, a, b, 43] = Ret [c, 32]" using assms by simp
  show "url_decode_loop S [37] 0 0 = Throw (Undefined_behaviour ''string index out of range'')"
    using blt(2) by (subst url_decode_loop.simps) (simp add: str_at_def)
qed

theorem url_plus_after_escape_witness:
  "url_decode_loop strings_model (ascii ''%41+'') 0 0 = Ret (ascii ''A+'')"
  using url_plus_after_escape(1) [of strings_model 52 49 65] by (simp add: ascii_def strings_model_def hex_byte_def hex_digit_def)

section \<open>The life of a request\<close>

text \<open>
  \<open>is_complete\<close> and \<open>awaiter\<close> are not initialised by every constructor: \<open>None\<close> is an indeterminate value,
  and using one is undefined.  The awaiter is represented by the coroutine it resumes.
\<close>

record request =
  rq_req :: nat
  rq_owned :: bool
  rq_is_complete :: "bool option"
  rq_awaiter :: "nat option option"

text \<open>\<open>evhttp_request_new\<close> gives a handle, or a null pointer.\<close>

definition Request_new :: "nat option \<Rightarrow> request outcome" where
  "Request_new h = (case h of None \<Rightarrow> Throw Bad_alloc
     | Some r \<Rightarrow> Ret \<lparr>rq_req = r, rq_owned = False, rq_is_complete = Some False, rq_awaiter = Some None\<rparr>)"

definition Request_wrap :: "nat \<Rightarrow> request" where
  "Request_wrap r = \<lparr>rq_req = r, rq_owned = False, rq_is_complete = None, rq_awaiter = None\<rparr>"

definition Request_move :: "request \<Rightarrow> request \<times> request" where
  "Request_move other = (\<lparr>rq_req = rq_req other, rq_owned = rq_owned other, rq_is_complete = None, rq_awaiter = None\<rparr>, other\<lparr>rq_owned := False\<rparr>)"

text \<open>
  The rest of the world as far as a request touches it: the coroutines it has resumed, and the
  handles libevent has given up ownership of and those that were freed.
\<close>

record http_world =
  hw_request :: request
  hw_resumed :: "nat list"
  hw_disowned :: "nat list"
  hw_freed :: "nat list"

definition Request_destroy :: "(http_world, unit) act" where
  "Request_destroy = modifyA (\<lambda>s. if rq_owned (hw_request s) then s\<lparr>hw_freed := hw_freed s @ [rq_req (hw_request s)]\<rparr> else s)"

definition Awaiter_on_response :: "nat \<Rightarrow> (http_world, unit) act" where
  "Awaiter_on_response coro = modifyA (\<lambda>s. s\<lparr>hw_resumed := hw_resumed s @ [coro]\<rparr>)"

definition Request_on_response :: "(http_world, unit) act" where
  "Request_on_response = seqA (modifyA (\<lambda>s. s\<lparr>hw_disowned := hw_disowned s @ [rq_req (hw_request s)]\<rparr>))
     (seqA (modifyA (\<lambda>s. s\<lparr>hw_request := (hw_request s)\<lparr>rq_is_complete := Some True\<rparr>\<rparr>))
     (bindA (getsA (\<lambda>s. rq_awaiter (hw_request s))) (\<lambda>aw. case aw of
        None \<Rightarrow> throwA (Undefined_behaviour ''indeterminate awaiter'')
      | Some None \<Rightarrow> retA ()
      | Some (Some coro) \<Rightarrow> Awaiter_on_response coro)))"

text \<open>\<open>rc\<close> is the result of \<open>evhttp_make_request\<close>.\<close>

definition Connection_send_request :: "bool \<Rightarrow> (http_world, unit) act" where
  "Connection_send_request rc = bindA (getsA (\<lambda>s. rq_is_complete (hw_request s))) (\<lambda>c. case c of
     None \<Rightarrow> throwA (Undefined_behaviour ''indeterminate is_complete'')
   | Some True \<Rightarrow> throwA (Logic_error ''attempted to re-send completed request'')
   | Some False \<Rightarrow> if rc then throwA (Runtime_error ''failed to send http request'') else retA ())"

definition Awaiter_await_ready :: "(http_world, bool) act" where
  "Awaiter_await_ready = bindA (getsA (\<lambda>s. rq_is_complete (hw_request s))) (\<lambda>c. case c of
     None \<Rightarrow> throwA (Undefined_behaviour ''indeterminate is_complete'') | Some b \<Rightarrow> retA b)"

definition Awaiter_await_suspend :: "nat \<Rightarrow> (http_world, unit) act" where
  "Awaiter_await_suspend coro = modifyA (\<lambda>s. s\<lparr>hw_request := (hw_request s)\<lparr>rq_awaiter := Some (Some coro)\<rparr>\<rparr>)"

text \<open>\<open>co_await\<close> of the awaiter in coroutine \<open>coro\<close>: whether it goes on at once.\<close>

definition await_response :: "nat \<Rightarrow> (http_world, bool) act" where
  "await_response coro = bindA Awaiter_await_ready (\<lambda>r. if r then retA True else seqA (Awaiter_await_suspend coro) (retA False))"

definition http_start :: "request \<Rightarrow> http_world" where
  "http_start r = \<lparr>hw_request = r, hw_resumed = [], hw_disowned = [], hw_freed = []\<rparr>"

text \<open>A coroutine that sends a request and awaits the response goes on exactly once: when the response
  comes after it has suspended, it is resumed by it, and when the response came first, it does not
  suspend.  A request that has been answered cannot be sent again.  The handle, which the response
  makes the request's own to free, is not freed by the destructor.\<close>

theorem http_request_awaited:
  assumes "Request_new (Some h) = Ret r"
  shows "(\<exists>s1 s2 s3. Connection_send_request False (http_start r) = (Ret (), s1) \<and> await_response coro s1 = (Ret False, s2) \<and> hw_resumed s2 = [] \<and>
      Request_on_response s2 = (Ret (), s3) \<and> hw_resumed s3 = [coro] \<and>
      fst (Connection_send_request rc s3) = Throw (Logic_error ''attempted to re-send completed request'') \<and>
      hw_disowned s3 = [h] \<and> h \<notin> set (hw_freed (snd (Request_destroy s3)))) \<and>
    (\<exists>s1 s2 s3. Connection_send_request False (http_start r) = (Ret (), s1) \<and> Request_on_response s1 = (Ret (), s2) \<and>
      await_response coro s2 = (Ret True, s3) \<and> hw_resumed s3 = [])"
proof (rule conjI)
  have r: "r = \<lparr>rq_req = h, rq_owned = False, rq_is_complete = Some False, rq_awaiter = Some None\<rparr>"
    using assms by (simp add: Request_new_def)
  note defs = r http_start_def Connection_send_request_def await_response_def Awaiter_await_ready_def Awaiter_await_suspend_def
    Request_on_response_def Awaiter_on_response_def Request_destroy_def seqA_def bindA_def
  show "\<exists>s1 s2 s3. Connection_send_request False (http_start r) = (Ret (), s1) \<and> await_response coro s1 = (Ret False, s2) \<and> hw_resumed s2 = [] \<and>
      Request_on_response s2 = (Ret (), s3) \<and> hw_resumed s3 = [coro] \<and>
      fst (Connection_send_request rc s3) = Throw (Logic_error ''attempted to re-send completed request'') \<and>
      hw_disowned s3 = [h] \<and> h \<notin> set (hw_freed (snd (Request_destroy s3)))"
    by (simp add: defs)
  show "\<exists>s1 s2 s3. Connection_send_request False (http_start r) = (Ret (), s1) \<and> Request_on_response s1 = (Ret (), s2) \<and>
      await_response coro s2 = (Ret True, s3) \<and> hw_resumed s3 = []"
    by (simp add: defs)
qed

theorem http_request_awaited_witness:
  "\<exists>s1 s2 s3. Connection_send_request False (http_start \<lparr>rq_req = 5, rq_owned = False, rq_is_complete = Some False, rq_awaiter = Some None\<rparr>) = (Ret (), s1) \<and>
    Request_on_response s1 = (Ret (), s2) \<and> await_response 7 s2 = (Ret True, s3) \<and> hw_resumed s3 = []"
  by (rule conjunct2 [OF http_request_awaited [where h = 5]]) (simp add: Request_new_def)

end
