(* ===== verification/HTTP_Connection.thy ===== *)
theory HTTP_Connection
  imports HTTP_Request
begin

text \<open>
  The construction of outgoing connections and of TLS contexts: the constructor and the setters of
  Protocols/HTTP/Connection.cc, the TLS functions of Protocols/HTTP/Server.cc, and their use in
  Examples/HTTPClient.cc.  OpenSSL and
  libevent give out handles, which have to be freed or handed over to another; the lemmas show that a
  connection owns all that was made for it and checks its peer, and that nothing is left behind when the
  constructor throws.
\<close>

section \<open>Handles\<close>

text \<open>
  What exists and has to be freed: TLS contexts and sessions, a bufferevent with the session it has
  taken over, a connection with the bufferevent it has taken over.
\<close>

datatype tls_handle = Ctx nat | Ssl nat | Bev nat nat | Conn nat "(nat \<times> nat) option"

text \<open>The settings of a session or context, which are false or empty at first.\<close>

record tls_settings =
  no_partial_wildcards :: bool
  expected_host :: "bytes option"
  verify_peer :: bool
  server_name_indication :: "bytes option"
  min_protocol_tls12 :: bool
  cipher_list :: string

definition default_settings :: tls_settings where
  "default_settings = \<lparr>no_partial_wildcards = False, expected_host = None, verify_peer = False, server_name_indication = None,
     min_protocol_tls12 = False, cipher_list = []\<rparr>"

record tls_world =
  tw_live :: "tls_handle list"
  tw_settings :: "nat \<Rightarrow> tls_settings"
  tw_dirty_shutdown :: "nat set"

text \<open>What the library functions return: a handle or a null pointer, and success or failure.\<close>

record tls_api =
  ssl_new :: "nat option"
  set1_host_ok :: bool
  bufferevent_openssl_socket_new :: "nat option"
  connection_base_bufferevent_new :: "nat option"
  connection_base_new :: "nat option"
  ssl_ctx_new :: "nat option"
  set_default_paths_ok :: bool
  use_certificate_ok :: bool
  use_private_key_ok :: bool

definition handle_made :: "tls_handle \<Rightarrow> (tls_world, unit) act" where
  "handle_made h = modifyA (\<lambda>s. s\<lparr>tw_live := h # tw_live s\<rparr>)"

text \<open>Freeing a handle, or handing it over; only a handle that is there can be.\<close>

definition handle_given :: "tls_handle \<Rightarrow> (tls_world, unit) act" where
  "handle_given h = (\<lambda>s. if h \<in> set (tw_live s) then (Ret (), s\<lparr>tw_live := remove1 h (tw_live s)\<rparr>) else (Throw (Undefined_behaviour ''handle used after free''), s))"

definition setting :: "nat \<Rightarrow> (tls_settings \<Rightarrow> tls_settings) \<Rightarrow> (tls_world, unit) act" where
  "setting i f = modifyA (\<lambda>s. s\<lparr>tw_settings := (tw_settings s)(i := f (tw_settings s i))\<rparr>)"

section \<open>Connections\<close>

definition Connection_ssl :: "tls_api \<Rightarrow> bytes \<Rightarrow> (tls_world, tls_handle) act" where
  "Connection_ssl T host = (case ssl_new T of
     None \<Rightarrow> throwA (Runtime_error ''failed to create connection-specific ssl context'')
   | Some ssl \<Rightarrow> seqA (handle_made (Ssl ssl)) (seqA (setting ssl (\<lambda>_. default_settings))
      (seqA (setting ssl (\<lambda>c. c\<lparr>no_partial_wildcards := True\<rparr>))
      (if \<not> set1_host_ok T then seqA (handle_given (Ssl ssl)) (throwA (Runtime_error ''failed to set expected hostname''))
       else seqA (setting ssl (\<lambda>c. c\<lparr>expected_host := Some host\<rparr>))
         (seqA (setting ssl (\<lambda>c. c\<lparr>verify_peer := True\<rparr>))
         (seqA (setting ssl (\<lambda>c. c\<lparr>server_name_indication := Some host\<rparr>))
         (case bufferevent_openssl_socket_new T of
            None \<Rightarrow> seqA (handle_given (Ssl ssl)) (throwA (Runtime_error ''failed to create ssl bufferevent''))
          | Some bev \<Rightarrow> seqA (handle_given (Ssl ssl)) (seqA (handle_made (Bev bev ssl))
              (seqA (modifyA (\<lambda>s. s\<lparr>tw_dirty_shutdown := insert bev (tw_dirty_shutdown s)\<rparr>))
              (case connection_base_bufferevent_new T of
                 None \<Rightarrow> seqA (handle_given (Bev bev ssl)) (throwA (Runtime_error ''failed to create http connection''))
               | Some conn \<Rightarrow> seqA (handle_given (Bev bev ssl)) (seqA (handle_made (Conn conn (Some (bev, ssl)))) (retA (Conn conn (Some (bev, ssl)))))))))))))))"

text \<open>The context itself is the caller's.\<close>

definition Connection_new :: "tls_api \<Rightarrow> bytes \<Rightarrow> nat option \<Rightarrow> (tls_world, tls_handle) act" where
  "Connection_new T host ssl_ctx = (case ssl_ctx of
     Some _ \<Rightarrow> Connection_ssl T host
   | None \<Rightarrow> (case connection_base_new T of
       None \<Rightarrow> throwA (Runtime_error ''failed to create http connection'')
     | Some conn \<Rightarrow> seqA (handle_made (Conn conn None)) (retA (Conn conn None))))"

definition Connection_free :: "tls_handle \<Rightarrow> (tls_world, unit) act" where
  "Connection_free conn = handle_given conn"

text \<open>\<open>SSL_set_verify\<close> and the expected host make the handshake fail unless the peer's certificate is for the host.\<close>

definition checks_peer :: "tls_settings \<Rightarrow> bytes \<Rightarrow> bool" where
  "checks_peer c host \<longleftrightarrow> verify_peer c \<and> expected_host c = Some host \<and> no_partial_wildcards c \<and> server_name_indication c = Some host"

lemma handle_runs:
  "seqA (handle_made h) m s = m (s\<lparr>tw_live := h # tw_live s\<rparr>)"
  "seqA (setting i f) m s = m (s\<lparr>tw_settings := (tw_settings s)(i := f (tw_settings s i))\<rparr>)"
  "tw_live s = h # hs \<Longrightarrow> seqA (handle_given h) m s = m (s\<lparr>tw_live := hs\<rparr>)"
  by (simp_all add: seqA_def bindA_def handle_made_def setting_def handle_given_def)

lemma Connection_new_run:
  "case Connection_new T host ssl_ctx s of
     (Ret conn, s') \<Rightarrow> tw_live s' = conn # tw_live s \<and> Connection_free conn s' = (Ret (), s'\<lparr>tw_live := tw_live s\<rparr>) \<and>
       (case conn of Conn c (Some (bev, ssl)) \<Rightarrow> ssl_ctx \<noteq> None \<and> checks_peer (tw_settings s' ssl) host | Conn c None \<Rightarrow> ssl_ctx = None | _ \<Rightarrow> False)
   | (Throw e, s') \<Rightarrow> tw_live s' = tw_live s \<and> (\<exists>what. e = Runtime_error what)
   | (Blocked, s') \<Rightarrow> False"
  by (auto simp: Connection_new_def Connection_ssl_def handle_runs modifyA_def seqA_def bindA_def handle_made_def setting_def handle_given_def Connection_free_def
      checks_peer_def split: option.splits)


section \<open>TLS contexts\<close>

definition create_default_ssl_ctx :: "tls_api \<Rightarrow> (tls_world, nat) act" where
  "create_default_ssl_ctx T = (case ssl_ctx_new T of
     None \<Rightarrow> throwA (Runtime_error ''SSL_CTX_new did not succeed'')
   | Some ctx \<Rightarrow> seqA (handle_made (Ctx ctx))
       (if \<not> set_default_paths_ok T then throwA (Runtime_error ''X509_STORE_set_default_paths did not succeed'')
        else seqA (setting ctx (\<lambda>c. c\<lparr>verify_peer := True\<rparr>)) (retA ctx)))"

definition server_ciphers :: string where
  "server_ciphers = ''ECDH+AESGCM:ECDH+CHACHA20:DH+AESGCM:ECDH+AES256:DH+AES256:ECDH+AES128:DH+AES:RSA+AESGCM:RSA+AES:!aNULL:!MD5:!DSS:!AESCCM:!RSA''"

definition create_server_ssl_ctx :: "tls_api \<Rightarrow> string \<Rightarrow> string \<Rightarrow> (tls_world, nat) act" where
  "create_server_ssl_ctx T key_filename cert_filename = (case ssl_ctx_new T of
     None \<Rightarrow> throwA Bad_alloc
   | Some ctx \<Rightarrow> seqA (handle_made (Ctx ctx)) (seqA (setting ctx (\<lambda>c. c\<lparr>min_protocol_tls12 := True\<rparr>))
      (seqA (setting ctx (\<lambda>c. c\<lparr>cipher_list := server_ciphers\<rparr>))
      (if \<not> use_certificate_ok T then throwA (Runtime_error (''cannot load SSL certificate file '' @ cert_filename))
       else if \<not> use_private_key_ok T then throwA (Runtime_error (''cannot load SSL private key '' @ key_filename))
       else retA ctx))))"

text \<open>\<open>SSL_new\<close> is not checked; when the bufferevent cannot be made, the session is not freed.\<close>

definition dispatch_on_ssl_connection :: "tls_api \<Rightarrow> (tls_world, tls_handle option) act" where
  "dispatch_on_ssl_connection T = (case ssl_new T of
     None \<Rightarrow> throwA (Undefined_behaviour ''null SSL'')
   | Some ssl \<Rightarrow> seqA (handle_made (Ssl ssl)) (case bufferevent_openssl_socket_new T of
       None \<Rightarrow> retA None
     | Some bev \<Rightarrow> seqA (handle_given (Ssl ssl)) (seqA (handle_made (Bev bev ssl)) (retA (Some (Bev bev ssl))))))"

text \<open>When a context cannot be set up completely, the functions throw and the context, which only they know of, stays allocated.
  The same holds of the session for an incoming connection.\<close>

theorem ssl_contexts_leak:
  assumes "ssl_ctx_new T = Some ctx" and "ssl_new T = Some ssl"
  shows "\<not> set_default_paths_ok T \<Longrightarrow> \<exists>e s'. create_default_ssl_ctx T s = (Throw e, s') \<and> tw_live s' = Ctx ctx # tw_live s"
    and "\<not> use_certificate_ok T \<or> \<not> use_private_key_ok T \<Longrightarrow>
      \<exists>e s'. create_server_ssl_ctx T key cert s = (Throw e, s') \<and> tw_live s' = Ctx ctx # tw_live s"
    and "bufferevent_openssl_socket_new T = None \<Longrightarrow> \<exists>s'. dispatch_on_ssl_connection T s = (Ret None, s') \<and> tw_live s' = Ssl ssl # tw_live s"
  using assms by (auto simp: create_default_ssl_ctx_def create_server_ssl_ctx_def dispatch_on_ssl_connection_def seqA_def bindA_def handle_made_def setting_def)

section \<open>Settings of a connection\<close>

record conn_options =
  co_local_address :: "bytes option"
  co_local_port :: "u16 option"
  co_max_body_size :: "int option"
  co_max_headers_size :: "int option"
  co_retries :: "int option"
  co_timeout :: "int option"

definition set_local_address :: "bytes \<Rightarrow> (conn_options, unit) act" where
  "set_local_address addr = modifyA (\<lambda>c. c\<lparr>co_local_address := Some addr\<rparr>)"

definition set_local_port :: "u16 \<Rightarrow> (conn_options, unit) act" where
  "set_local_port port = modifyA (\<lambda>c. c\<lparr>co_local_port := Some port\<rparr>)"

definition set_max_body_size :: "int \<Rightarrow> (conn_options, unit) act" where
  "set_max_body_size n = modifyA (\<lambda>c. c\<lparr>co_max_body_size := Some n\<rparr>)"

definition set_max_headers_size :: "int \<Rightarrow> (conn_options, unit) act" where
  "set_max_headers_size n = modifyA (\<lambda>c. c\<lparr>co_max_headers_size := Some n\<rparr>)"

definition set_retries :: "int \<Rightarrow> (conn_options, unit) act" where
  "set_retries n = modifyA (\<lambda>c. c\<lparr>co_retries := Some n\<rparr>)"

definition set_timeout :: "int \<Rightarrow> (conn_options, unit) act" where
  "set_timeout n = modifyA (\<lambda>c. c\<lparr>co_timeout := Some n\<rparr>)"

text \<open>\<open>peer\<close> is what \<open>evhttp_connection_get_peer\<close> writes: an address or a null pointer, and a port.\<close>

definition get_peer :: "bytes option \<times> u16 \<Rightarrow> (bytes \<times> u16) outcome" where
  "get_peer peer = (case peer of (None, _) \<Rightarrow> Throw (Runtime_error ''no peer on http connection'') | (Some addr, port) \<Rightarrow> Ret (addr, port))"

section \<open>The example client\<close>

text \<open>
  Examples/HTTPClient.cc: make_request.  What it owns is released when its block is left, by returning or by an
  exception: the connection first, then the context, which the shared pointer frees.  \<open>answer\<close> is how sending the request
  and awaiting the response end; a client whose server never answers stays suspended.
\<close>

definition finally_do :: "('s, unit) act \<Rightarrow> ('s, 'a) act \<Rightarrow> ('s, 'a) act" where
  "finally_do f m = (\<lambda>s. case m s of
     (Ret x, s') \<Rightarrow> seqA f (retA x) s' | (Throw e, s') \<Rightarrow> seqA f (throwA e) s' | (Blocked, s') \<Rightarrow> (Blocked, s'))"

definition make_request :: "tls_api \<Rightarrow> bytes \<Rightarrow> u16 \<Rightarrow> unit outcome \<Rightarrow> (tls_world, unit) act" where
  "make_request T host port answer = bindA
     (if port = 443 then bindA (create_default_ssl_ctx T) (\<lambda>c. retA (Some c)) else retA None) (\<lambda>ssl_ctx.
     finally_do (case ssl_ctx of None \<Rightarrow> retA () | Some c \<Rightarrow> handle_given (Ctx c))
       (bindA (Connection_new T host ssl_ctx) (\<lambda>conn. finally_do (Connection_free conn) (\<lambda>s. (answer, s)))))"

lemma finally_do_run:
  "m s = (r, s') \<Longrightarrow> r \<noteq> Blocked \<Longrightarrow> f s' = (Ret (), s'') \<Longrightarrow> finally_do f m s = (r, s'')"
  by (cases r) (simp_all add: finally_do_def seqA_def bindA_def)

text \<open>Whatever fails after the context was set up, and however the request ends, everything is released.\<close>

lemma client_releases:
  assumes "answer \<noteq> Blocked" and "port = 443 \<Longrightarrow> set_default_paths_ok T"
  shows "case make_request T host port answer s of (r, s') \<Rightarrow> tw_live s' = tw_live s \<and> (r = answer \<or> (\<exists>what. r = Throw (Runtime_error what)))"
proof -
  have inner: "case bindA (Connection_new T host ctx) (\<lambda>conn. finally_do (Connection_free conn) (\<lambda>s. (answer, s))) s of
      (r, s') \<Rightarrow> tw_live s' = tw_live s \<and> r \<noteq> Blocked \<and> (r = answer \<or> (\<exists>what. r = Throw (Runtime_error what)))" for ctx s
    using Connection_new_run [where T = T and host = host and ssl_ctx = ctx and s = s] assms(1)
    by (auto simp: bindA_def finally_do_run split: outcome.splits prod.splits)
  have rel: "case finally_do (handle_given (Ctx c)) m s of (r, s') \<Rightarrow> tw_live s' = hs \<and> (r = answer \<or> (\<exists>what. r = Throw (Runtime_error what)))"
    if "tw_live s = Ctx c # hs" "case m s of (r, s') \<Rightarrow> tw_live s' = tw_live s \<and> r \<noteq> Blocked \<and> (r = answer \<or> (\<exists>what. r = Throw (Runtime_error what)))" for c m s hs
    using that by (auto simp: finally_do_def seqA_def bindA_def handle_given_def split: outcome.splits prod.splits)
  show ?thesis
  proof (cases "port = 443")
    case True
    show ?thesis
    proof (cases "ssl_ctx_new T")
      case (Some c)
      let ?s = "s\<lparr>tw_live := Ctx c # tw_live s, tw_settings := (tw_settings s)(c := (tw_settings s c)\<lparr>verify_peer := True\<rparr>)\<rparr>"
      let ?m = "bindA (Connection_new T host (Some c)) (\<lambda>conn. finally_do (Connection_free conn) (\<lambda>s. (answer, s)))"
      from rel [where s = ?s and c = c and hs = "tw_live s" and m = ?m, OF _ inner [of ?s "Some c"]] True Some assms(2) show ?thesis
        by (simp add: make_request_def create_default_ssl_ctx_def seqA_def bindA_def handle_made_def setting_def)
    qed (use True in \<open>simp add: make_request_def create_default_ssl_ctx_def bindA_def\<close>)
  next
    case False
    with inner [of s None] show ?thesis
      by (auto simp: make_request_def finally_do_def seqA_def bindA_def split: outcome.splits prod.splits)
  qed
qed

end
