(* ===== verification/HTTP_Websocket.thy ===== *)
theory HTTP_Websocket
  imports Buffer_Async
begin

text \<open>
  The websocket part of Protocols/HTTP/Server.cc: reading messages frame by frame, with
  unmasking, fragments and control frames, and writing frames.  The state is the connection with
  \<open>input_buf\<close> as its buffer.  The lemmas show which frames are written and how any sequence of
  frames is read.  The lifetime of the connection handle is in HTTP_Server.
\<close>

section \<open>Operations\<close>

record websocket_message =
  wm_opcode :: u8
  wm_data :: bytes

definition WebsocketMessage_new :: websocket_message where
  "WebsocketMessage_new = \<lparr>wm_opcode = 0, wm_data = []\<rparr>"

definition add_frame_header :: "'b evbuffer_api \<Rightarrow> u8 \<Rightarrow> nat \<Rightarrow> ('b, unit) act" where
  "add_frame_header E opcode data_size = seqA (Buffer_add_u8 E (0x80 OR (opcode AND 0x0F)))
     (if 0xFFFF < data_size then seqA (Buffer_add_u8 E 0x7F) (Buffer_add_u64b E (word_of_nat data_size))
      else if 0x7D < data_size then seqA (Buffer_add_u8 E 0x7E) (Buffer_add_u16b E (word_of_nat data_size))
      else Buffer_add_u8 E (word_of_nat data_size))"

text \<open>\<open>write(Buffer&, opcode)\<close>: the state has the caller's buffer in the place of \<open>input_buf\<close>.\<close>

definition WebsocketClient_write :: "'b evbuffer_api \<Rightarrow> u8 \<Rightarrow> (('b, 'z) chan_scheme, unit) act" where
  "WebsocketClient_write E opcode = bindA (on_buf (Buffer_get_length E)) (\<lambda>data_size.
     with_local E (seqA (on_local (add_frame_header E opcode data_size))
       (seqA (on_both (Buffer_add_buffer E)) (local_chan (Buffer_write E (-1))))))"

definition WebsocketClient_write_data :: "'b evbuffer_api \<Rightarrow> bytes \<Rightarrow> u8 \<Rightarrow> (('b, 'z) chan_scheme, unit) act" where
  "WebsocketClient_write_data E d opcode =
     with_local E (seqA (on_local (Buffer_add_reference E d)) (local_chan (WebsocketClient_write E opcode)))"

definition read_payload_size :: "'b evbuffer_api \<Rightarrow> u8 \<Rightarrow> (('b, 'z) chan_scheme, nat) act" where
  "read_payload_size E frame_size =
     (let payload_size = frame_size AND 0x7F in
      if payload_size = 0x7F then seqA (Buffer_read_to E 8) (bindA (on_buf (Buffer_remove_u64b E)) (\<lambda>n. retA (unat n)))
      else if payload_size = 0x7E then seqA (Buffer_read_to E 2) (bindA (on_buf (Buffer_remove_u16b E)) (\<lambda>n. retA (unat n)))
      else retA (unat payload_size))"

text \<open>\<open>frame_payload[x] ^= mask_key[x & 3]\<close> for every \<open>x\<close>.\<close>

definition unmask :: "bytes \<Rightarrow> bytes \<Rightarrow> bytes" where
  "unmask key d = map (\<lambda>x. d ! x XOR key ! (x AND 3)) [0..<length d]"

definition read_frame :: "'b evbuffer_api \<Rightarrow> (('b, 'z) chan_scheme, u8 \<times> bytes) act" where
  "read_frame E = seqA (Buffer_read_to E 2)
     (bindA (on_buf (Buffer_remove_u8 E)) (\<lambda>frame_opcode. bindA (on_buf (Buffer_remove_u8 E)) (\<lambda>frame_size.
      bindA (read_payload_size E frame_size) (\<lambda>payload_size.
      let has_mask = (frame_size AND 0x80 \<noteq> 0) in
      bindA (if has_mask then seqA (Buffer_read_to E 4) (on_buf (Buffer_remove E 4)) else retA []) (\<lambda>mask_key.
      seqA (Buffer_read_to E payload_size) (bindA (on_buf (Buffer_remove E payload_size)) (\<lambda>frame_payload.
      retA (frame_opcode, if has_mask then unmask mask_key frame_payload else frame_payload))))))))"

text \<open>The rest of one turn of the loop, for a frame that has been read: whether the message is complete, and the message so far.\<close>

definition handle_frame :: "'b evbuffer_api \<Rightarrow> websocket_message \<Rightarrow> u8 \<Rightarrow> bytes \<Rightarrow> (('b, 'z) chan_scheme, bool \<times> websocket_message) act" where
  "handle_frame E msg frame_opcode frame_payload =
     (let opcode = frame_opcode AND 0x0F in
      if opcode AND 0x08 \<noteq> 0 then
        (if opcode = 0x0A then retA (False, msg)
         else if opcode = 0x08 then seqA (WebsocketClient_write_data E frame_payload 0x08) (throwA (Runtime_error ''client has disconnected''))
         else if opcode = 0x09 then seqA (WebsocketClient_write_data E frame_payload 0x0A) (retA (False, msg))
         else throwA (Runtime_error ''unrecognized control message''))
      else if (wm_opcode msg = 0) = (opcode = 0) then throwA (Runtime_error ''invalid opcode'')
      else retA (frame_opcode AND 0x80 \<noteq> 0,
        \<lparr>wm_opcode = (if opcode \<noteq> 0 then opcode else wm_opcode msg), wm_data = wm_data msg @ frame_payload\<rparr>))"

text \<open>The loop, cut off after \<open>fuel\<close> frames.\<close>

fun read_message_loop :: "nat \<Rightarrow> 'b evbuffer_api \<Rightarrow> websocket_message \<Rightarrow> (('b, 'z) chan_scheme, websocket_message) act" where
  "read_message_loop 0 E msg = throwA Out_of_fuel"
| "read_message_loop (Suc n) E msg = bindA (read_frame E) (\<lambda>(frame_opcode, frame_payload).
     bindA (handle_frame E msg frame_opcode frame_payload) (\<lambda>(complete, msg').
     if complete then retA msg' else read_message_loop n E msg'))"

definition WebsocketClient_read :: "nat \<Rightarrow> 'b evbuffer_api \<Rightarrow> (('b, 'z) chan_scheme, websocket_message) act" where
  "WebsocketClient_read fuel E = read_message_loop fuel E WebsocketMessage_new"

section \<open>Simulation\<close>

lemma add_frame_header_sim [sim_intros]:
  "evbuffer_spec E v \<Longrightarrow> simA v (add_frame_header E opcode n) (add_frame_header (evb_ref E) opcode n)"
  unfolding add_frame_header_def Buffer_add_defs by (intro sim_intros)

lemma websocket_write_sims [sim_intros]:
  assumes "evbuffer_spec E v"
  shows "simA (chan_abs v) (WebsocketClient_write E opcode) (WebsocketClient_write (evb_ref E) opcode)"
    and "simA (chan_abs v) (WebsocketClient_write_data E d opcode) (WebsocketClient_write_data (evb_ref E) d opcode)"
  unfolding WebsocketClient_write_def WebsocketClient_write_data_def by (intro sim_intros assms)+

lemma simA_split: "(\<And>a b. simA h (f a b) (g a b)) \<Longrightarrow> simA h (case p of (a, b) \<Rightarrow> f a b) (case p of (a, b) \<Rightarrow> g a b)"
  by (cases p) simp

lemma websocket_frame_sims [sim_intros]:
  assumes "evbuffer_spec E v"
  shows "simA (chan_abs v) (read_frame E) (read_frame (evb_ref E))"
    and "simA (chan_abs v) (handle_frame E msg a b) (handle_frame (evb_ref E) msg a b)"
  unfolding read_frame_def handle_frame_def read_payload_size_def Let_def Buffer_remove_defs by (intro sim_intros assms)+

lemma websocket_read_sim:
  assumes "evbuffer_spec E v"
  shows "simA (chan_abs v) (read_message_loop n E msg) (read_message_loop n (evb_ref E) msg)"
proof (induction n arbitrary: msg)
  case (Suc n)
  show ?case unfolding read_message_loop.simps by (intro sim_intros simA_split assms Suc)
qed (simp add: simA_def)

section \<open>Frames on the wire\<close>

text \<open>
  A frame: its first byte (final bit, reserved bits, opcode), the masking key if it is masked, how
  its length is written (in the second byte, in two or in eight more bytes), and its payload.
\<close>

record ws_frame =
  wf_first :: byte
  wf_key :: "bytes option"
  wf_width :: nat
  wf_payload :: bytes

definition size_bytes :: "byte \<Rightarrow> nat \<Rightarrow> nat \<Rightarrow> bytes" where
  "size_bytes m w n = (if w = 0 then [m OR word_of_nat n] else if w = 1 then [m OR 0x7E] @ be_bytes 2 n else [m OR 0x7F] @ be_bytes 8 n)"

text \<open>Masking as the protocol describes it: byte \<open>i\<close> of the payload with byte \<open>i mod 4\<close> of the key.\<close>

definition masked :: "bytes \<Rightarrow> bytes \<Rightarrow> bytes" where
  "masked key d = map (\<lambda>i. d ! i XOR key ! (i mod 4)) [0..<length d]"

definition frame_bytes :: "ws_frame \<Rightarrow> bytes" where
  "frame_bytes f = [wf_first f] @ size_bytes (if wf_key f = None then 0 else 0x80) (wf_width f) (length (wf_payload f)) @
     (case wf_key f of None \<Rightarrow> wf_payload f | Some key \<Rightarrow> key @ masked key (wf_payload f))"

definition frame_ok :: "ws_frame \<Rightarrow> bool" where
  "frame_ok f \<longleftrightarrow> length (wf_payload f) < (if wf_width f = 0 then 126 else if wf_width f = 1 then 2 ^ 16 else 2 ^ 31) \<and>
     (\<forall>key. wf_key f = Some key \<longrightarrow> length key = 4)"

lemma length_unmask [simp]: "length (unmask key d) = length d"
  by (simp add: unmask_def)

lemma length_masked [simp]: "length (masked key d) = length d"
  by (simp add: masked_def)

lemma unmask_masked [simp]: "unmask key (masked key d) = d"
proof (rule nth_equalityI)
  fix i assume "i < length (unmask key (masked key d))"
  moreover have "i AND 3 = i mod 4" using take_bit_eq_mask [of 2 i] by (simp add: take_bit_eq_mod mask_eq_exp_minus_1)
  ultimately show "unmask key (masked key d) ! i = d ! i" by (simp add: unmask_def masked_def xor.assoc)
qed simp

text \<open>The second byte: the mask bit and seven bits of length.\<close>

lemma size_byte:
  assumes "n < 128" and "m \<in> {0, 0x80}"
  shows "(m OR word_of_nat n :: byte) AND 0x7F = word_of_nat n" and "(m OR word_of_nat n :: byte) AND 0x80 \<noteq> 0 \<longleftrightarrow> m \<noteq> 0"
proof -
  have "take_bit 7 n = n" using assms(1) by (simp add: take_bit_nat_eq_self)
  then have n: "take_bit 7 (word_of_nat n :: byte) = word_of_nat n" by (metis take_bit_of_nat)
  have m: "take_bit 7 m = 0" using assms(2) by (auto simp: take_bit_eq_mod)
  have "(m OR word_of_nat n :: byte) AND mask 7 = word_of_nat n"
    by (simp add: n m take_bit_or flip: take_bit_eq_mask)
  moreover have "mask 7 = (0x7F :: byte)" by (simp add: mask_eq_exp_minus_1)
  ultimately show "(m OR word_of_nat n :: byte) AND 0x7F = word_of_nat n" by simp
  have "(m OR word_of_nat n :: byte) AND 0x80 \<noteq> 0 \<longleftrightarrow> bit (m OR word_of_nat n :: byte) 7"
    by (simp add: bit_iff_and_push_bit_not_eq_0 push_bit_eq_mult)
  also have "\<dots> \<longleftrightarrow> bit m 7 \<or> bit n 7" by (simp add: bit_simps)
  also have "\<dots> \<longleftrightarrow> m \<noteq> 0" using assms by (auto simp: bit_iff_odd)
  finally show "(m OR word_of_nat n :: byte) AND 0x80 \<noteq> 0 \<longleftrightarrow> m \<noteq> 0" by simp
qed

lemma reaches_take:
  assumes "chan_at [] (d @ inp) out w x s" and "length d = n" and "n < 2 ^ 31"
  shows "reaches (Buffer_read_to (evb_list z) n) s () (chan_at d inp out w x)"
  using reaches_read_to [OF assms(1), of n z] assms(2,3) by simp

lemma reaches_remove_all:
  "chan_at d inp out w x s \<Longrightarrow> length d = n \<Longrightarrow> reaches (on_buf (Buffer_remove (evb_list z) n)) s d (chan_at [] inp out w x)"
  by (erule reaches_on_buf) (simp add: Buffer_list)

lemma reaches_remove_byte:
  "chan_at (b # d) inp out w x s \<Longrightarrow> reaches (on_buf (Buffer_remove_u8 (evb_list z))) s b (chan_at d inp out w x)"
  by (erule reaches_on_buf) (simp add: Buffer_remove_defs Buffer_list)

lemma reaches_payload_size:
  assumes "chan_at [] (tl (size_bytes m wd n) @ inp) out w x s" and "m \<in> {0, 0x80}"
    and "n < (if wd = 0 then 126 else if wd = 1 then 2 ^ 16 else 2 ^ 31)"
  shows "reaches (read_payload_size (evb_list z) (hd (size_bytes m wd n))) s n (chan_at [] inp out w x)"
proof -
  have u: "unat (word_of_nat n :: u16) = n" if "n < 2 ^ 16" using that by (simp add: unat_of_nat)
  have u': "unat (word_of_nat n :: u64) = n" if "n < 2 ^ 31" using that by (simp add: unat_of_nat)
  have r2: "reaches (on_buf (Buffer_remove_u16b (evb_list z))) s1 (word_of_nat n) (chan_at [] inp out w x)"
    if "chan_at (be_bytes 2 n) inp out w x s1" "n < 2 ^ 16" for s1
    using that(1) by (rule reaches_on_buf) (use that(2) in \<open>simp add: Buffer_remove_defs Buffer_list be_val_be_bytes\<close>)
  have r8: "reaches (on_buf (Buffer_remove_u64b (evb_list z))) s1 (word_of_nat n) (chan_at [] inp out w x)"
    if "chan_at (be_bytes 8 n) inp out w x s1" "n < 2 ^ 31" for s1
    using that(1) by (rule reaches_on_buf) (use that(2) in \<open>simp add: Buffer_remove_defs Buffer_list be_val_be_bytes\<close>)
  consider "wd = 0" "n < 126" | "wd = 1" "n < 2 ^ 16" | "wd \<noteq> 0" "wd \<noteq> 1" "n < 2 ^ 31" using assms(3) by (auto split: if_splits)
  then show ?thesis
  proof cases
    case 1
    then have "(m OR word_of_nat n :: byte) AND 0x7F = word_of_nat n" using size_byte(1) [where n = n, OF _ assms(2)] by simp
    moreover have "unat (word_of_nat n :: byte) = n" "word_of_nat n \<noteq> (0x7F :: byte)" "word_of_nat n \<noteq> (0x7E :: byte)"
      using 1(2) by (simp_all add: unat_of_nat word_unat_eq_iff)
    ultimately show ?thesis using 1 assms(1) by (simp add: read_payload_size_def size_bytes_def reaches_def)
  next
    case 2
    have "(m OR 0x7E :: byte) AND 0x7F = 0x7E" using size_byte(1) [where n = 126, OF _ assms(2)] by simp
    moreover have "chan_at [] (be_bytes 2 n @ inp) out w x s" using assms(1) 2 by (simp add: size_bytes_def)
    then have "reaches (seqA (Buffer_read_to (evb_list z) 2) (bindA (on_buf (Buffer_remove_u16b (evb_list z))) (\<lambda>n. retA (unat n)))) s n
        (chan_at [] inp out w x)"
      by (rule reaches_seqA [OF reaches_take]) (simp_all, rule reaches_bindA [OF r2], use 2 u in \<open>simp_all add: reaches_def\<close>)
    ultimately show ?thesis using 2 by (simp add: read_payload_size_def size_bytes_def)
  next
    case 3
    have "(m OR 0x7F :: byte) AND 0x7F = 0x7F" using size_byte(1) [where n = 127, OF _ assms(2)] by simp
    moreover have "chan_at [] (be_bytes 8 n @ inp) out w x s" using assms(1) 3 by (simp add: size_bytes_def)
    then have "reaches (seqA (Buffer_read_to (evb_list z) 8) (bindA (on_buf (Buffer_remove_u64b (evb_list z))) (\<lambda>n. retA (unat n)))) s n
        (chan_at [] inp out w x)"
      by (rule reaches_seqA [OF reaches_take]) (simp_all, rule reaches_bindA [OF r8], use 3 u' in \<open>simp_all add: reaches_def\<close>)
    ultimately show ?thesis using 3 by (simp add: read_payload_size_def size_bytes_def)
  qed
qed

lemma size_bytes_hd_tl: "hd (size_bytes m wd n) # tl (size_bytes m wd n) = size_bytes m wd n"
  by (simp add: size_bytes_def)

lemma size_bytes_mask:
  assumes "m \<in> {0, 0x80}" and "n < (if wd = 0 then 126 else if wd = 1 then 2 ^ 16 else 2 ^ 31)"
  shows "hd (size_bytes m wd n) AND 0x80 \<noteq> 0 \<longleftrightarrow> m \<noteq> 0"
  using size_byte(2) [where n = n, OF _ assms(1)] size_byte(2) [where n = 126, OF _ assms(1)] size_byte(2) [where n = 127, OF _ assms(1)] assms(2)
  by (simp add: size_bytes_def split: if_splits)

lemma read_frame_list:
  assumes at: "chan_at [] (frame_bytes f @ inp) out w x s" and ok: "frame_ok f"
  shows "reaches (read_frame (evb_list z)) s (wf_first f, wf_payload f) (chan_at [] inp out w x)"
proof -
  let ?p = "wf_payload f" and ?m = "if wf_key f = None then 0 else 0x80 :: byte"
  let ?sz = "size_bytes ?m (wf_width f) (length ?p)"
  let ?key = "case wf_key f of None \<Rightarrow> [] | Some key \<Rightarrow> key"
  let ?data = "case wf_key f of None \<Rightarrow> ?p | Some key \<Rightarrow> masked key ?p"
  have m: "?m \<in> {0, 0x80}" and n: "length ?p < (if wf_width f = 0 then 126 else if wf_width f = 1 then 2 ^ 16 else 2 ^ 31)"
    using ok by (auto simp: frame_ok_def)
  have has: "hd ?sz AND 0x80 \<noteq> 0 \<longleftrightarrow> wf_key f \<noteq> None" using size_bytes_mask [OF m n] by simp
  have bs: "frame_bytes f @ inp = [wf_first f, hd ?sz] @ tl ?sz @ ?key @ ?data @ inp"
    using size_bytes_hd_tl [of ?m "wf_width f" "length ?p"] by (cases "wf_key f") (simp_all add: frame_bytes_def)
  have len: "length ?data = length ?p" "length ?p < 2 ^ 31" using n by (auto split: option.splits if_splits)
  have key: "reaches (if hd ?sz AND 0x80 \<noteq> 0 then seqA (Buffer_read_to (evb_list z) 4) (on_buf (Buffer_remove (evb_list z) 4)) else retA []) s1 ?key
      (chan_at [] (?data @ inp) out w x)" if "chan_at [] (?key @ ?data @ inp) out w x s1" for s1
  proof (cases "wf_key f")
    case None
    with that has show ?thesis by (simp add: reaches_def)
  next
    case (Some key)
    then have "length key = 4" using ok by (simp add: frame_ok_def)
    with that Some show ?thesis unfolding if_P [OF has [THEN iffD2, OF option.distinct(2) [of key, folded Some]]]
      by (intro reaches_seqA [OF reaches_take]) (auto intro: reaches_remove_all)
  qed
  have res: "(if hd ?sz AND 0x80 \<noteq> 0 then unmask ?key ?data else ?data) = ?p"
    unfolding has by (cases "wf_key f") simp_all
  show ?thesis unfolding read_frame_def Let_def using at unfolding bs
    apply -
    apply (rule reaches_seqA, erule reaches_take, simp, simp)
    apply (rule reaches_bindA, simp only: append.simps, erule reaches_remove_byte)
    apply (rule reaches_bindA, erule reaches_remove_byte)
    apply (rule reaches_bindA, erule reaches_payload_size [OF _ m n])
    apply (rule reaches_bindA, erule key)
    apply (rule reaches_seqA, erule reaches_take [OF _ len])
    apply (rule reaches_bindA, erule reaches_remove_all [OF _ len(1)])
    apply (simp only: res reaches_def retA_apply)
    apply blast
    done
qed

section \<open>Writing a frame\<close>

definition server_frame :: "u8 \<Rightarrow> bytes \<Rightarrow> ws_frame" where
  "server_frame opcode d = \<lparr>wf_first = 0x80 OR (opcode AND 0x0F), wf_key = None,
     wf_width = (if 0xFFFF < length d then 2 else if 0x7D < length d then 1 else 0), wf_payload = d\<rparr>"

lemma frame_bytes_nonempty [simp]: "frame_bytes f \<noteq> []"
  by (simp add: frame_bytes_def)

lemma server_frame_ok: "length d < 2 ^ 31 \<Longrightarrow> frame_ok (server_frame op d)"
  by (simp add: frame_ok_def server_frame_def)

lemma add_frame_header_list:
  "length d < 2 ^ 31 \<Longrightarrow> \<exists>h. add_frame_header (evb_list z) opcode (length d) b = (Ret (), b @ h) \<and> h @ d = frame_bytes (server_frame opcode d)"
proof -
  assume "length d < 2 ^ 31"
  then have "unat (word_of_nat (length d) :: u64) = length d" by (simp add: unat_of_nat)
  moreover have "unat (word_of_nat (length d) :: u16) = length d" if "length d \<le> 0xFFFF" using that by (simp add: unat_of_nat)
  ultimately show ?thesis
    by (auto simp: add_frame_header_def seqA_def bindA_def Buffer_add_defs frame_bytes_def server_frame_def size_bytes_def)
qed

lemma websocket_write_list:
  assumes at: "chan_at b inp out (length (frame_bytes (server_frame opcode b)) + w) x s" and len: "length b < 2 ^ 31"
  shows "reaches (WebsocketClient_write (evb_list z) opcode) s () (chan_at [] inp (out @ frame_bytes (server_frame opcode b)) w x)"
proof -
  obtain h where h: "add_frame_header (evb_list z) opcode (length b) [] = (Ret (), h)" "h @ b = frame_bytes (server_frame opcode b)"
    using add_frame_header_list [OF len, of z opcode "[]"] by auto
  have "length (frame_bytes (server_frame opcode b)) < 2 ^ 63"
    using len by (simp add: frame_bytes_def server_frame_def size_bytes_def)
  then have wr: "reaches (Buffer_write (evb_list z) (-1)) s1 () (chan_at [] inp (out @ frame_bytes (server_frame opcode b)) w x)"
    if "chan_at (h @ b) inp out (length (frame_bytes (server_frame opcode b)) + w) x s1" for s1
    by (intro reaches_write) (use that h(2) in auto)
  show ?thesis unfolding WebsocketClient_write_def
    apply (rule reaches_bindA, rule reaches_on_buf [OF at Buffer_list_simps(1)])
    apply (rule reaches_with_local, assumption)
    apply (rule reaches_seqA, erule reaches_local, rule h(1))
    apply (rule reaches_seqA, erule reaches_both, rule Buffer_list_simps(10))
    apply (rule reaches_local_chan, assumption, erule wr)
    done
qed

lemma websocket_write_data_list:
  assumes at: "chan_at b inp out (length (frame_bytes (server_frame opcode d)) + w) x s" and len: "length d < 2 ^ 31"
  shows "reaches (WebsocketClient_write_data (evb_list z) d opcode) s () (chan_at b inp (out @ frame_bytes (server_frame opcode d)) w x)"
  unfolding WebsocketClient_write_data_def
  apply (rule reaches_with_local [OF at])
  apply (rule reaches_seqA, erule reaches_local, rule Buffer_list_simps(4), unfold append_Nil)
  apply (rule reaches_local_chan, assumption, erule websocket_write_list [OF _ len])
  done

section \<open>Sequences of frames\<close>

definition f_op :: "ws_frame \<Rightarrow> u8" where
  "f_op f = wf_first f AND 0x0F"

definition f_control :: "ws_frame \<Rightarrow> bool" where
  "f_control f \<longleftrightarrow> f_op f AND 0x08 \<noteq> 0"

definition f_final :: "ws_frame \<Rightarrow> bool" where
  "f_final f \<longleftrightarrow> wf_first f AND 0x80 \<noteq> 0"

text \<open>
  Frames that do not complete a message: pings and pongs anywhere, and data frames without the
  final bit, the first of a message with an opcode and the others without.  \<open>started\<close>: a data
  frame has come before.
\<close>

fun pending :: "bool \<Rightarrow> ws_frame list \<Rightarrow> bool" where
  "pending started [] = True"
| "pending started (f # fs) \<longleftrightarrow> frame_ok f \<and>
     (if f_control f then f_op f \<in> {0x09, 0x0A} \<and> pending started fs
      else (f_op f = 0) = started \<and> \<not> f_final f \<and> pending True fs)"

text \<open>What the frames add to the message, and the pongs sent for their pings.\<close>

fun absorb :: "websocket_message \<Rightarrow> ws_frame list \<Rightarrow> websocket_message" where
  "absorb msg [] = msg"
| "absorb msg (f # fs) = absorb (if f_control f then msg
     else \<lparr>wm_opcode = (if f_op f \<noteq> 0 then f_op f else wm_opcode msg), wm_data = wm_data msg @ wf_payload f\<rparr>) fs"

definition pongs :: "ws_frame list \<Rightarrow> bytes" where
  "pongs fs = concat (map (\<lambda>f. frame_bytes (server_frame 0x0A (wf_payload f))) (filter (\<lambda>f. f_op f = 0x09) fs))"

lemma pongs_Cons: "pongs (f # fs) = (if f_op f = 0x09 then frame_bytes (server_frame 0x0A (wf_payload f)) else []) @ pongs fs"
  by (simp add: pongs_def)

lemma frame_ok_length: "frame_ok f \<Longrightarrow> length (wf_payload f) < 2 ^ 31"
  by (auto simp: frame_ok_def split: if_splits)

text \<open>One frame that does not complete the message.\<close>

lemma handle_pending:
  assumes "pending (wm_opcode msg \<noteq> 0) [f]" and "chan_at b inp out (length (pongs [f]) + w) x s"
  shows "reaches (handle_frame (evb_list z) msg (wf_first f) (wf_payload f)) s (False, absorb msg [f]) (chan_at b inp (out @ pongs [f]) w x)"
proof (cases "f_control f")
  case True
  with assms(1) consider "f_op f = 0x0A" | "f_op f = 0x09" by auto
  then show ?thesis
  proof cases
    case 1
    with True assms(2) show ?thesis by (simp add: handle_frame_def f_op_def f_control_def reaches_def pongs_def)
  next
    case 2
    have "length (wf_payload f) < 2 ^ 31" using assms(1) by (intro frame_ok_length) simp
    with 2 assms(2) have "reaches (seqA (WebsocketClient_write_data (evb_list z) (wf_payload f) 0x0A) (retA (False, msg))) s (False, msg)
        (chan_at b inp (out @ pongs [f]) w x)"
      by (intro reaches_seqA [OF websocket_write_data_list]) (auto simp: pongs_def reaches_def)
    with 2 True show ?thesis by (simp add: handle_frame_def f_op_def f_control_def)
  qed
next
  case False
  then have "f_op f \<noteq> 0x09" by (auto simp: f_control_def)
  with False assms show ?thesis
    by (auto simp: handle_frame_def f_op_def f_control_def f_final_def reaches_def pongs_def Let_def)
qed

lemma absorb_started: "\<not> f_control f \<Longrightarrow> (f_op f = 0) = (wm_opcode msg \<noteq> 0) \<Longrightarrow> wm_opcode (absorb msg [f]) \<noteq> 0"
  by auto

lemma read_pending:
  assumes "pending (wm_opcode msg \<noteq> 0) fs" and "chan_at [] (concat (map frame_bytes fs) @ inp) out (length (pongs fs) + w) x s"
  shows "\<exists>s'. chan_at [] inp (out @ pongs fs) w x s' \<and>
    read_message_loop (length fs + n) (evb_list z) msg s = read_message_loop n (evb_list z) (absorb msg fs) s'"
  using assms
proof (induction fs arbitrary: msg out s)
  case Nil
  then show ?case by (auto simp: pongs_def)
next
  case (Cons f fs)
  let ?rest = "concat (map frame_bytes fs) @ inp"
  have ok: "frame_ok f" and one: "pending (wm_opcode msg \<noteq> 0) [f]" using Cons.prems(1) by (auto split: if_splits)
  have more: "pending (wm_opcode (absorb msg [f]) \<noteq> 0) fs"
    using Cons.prems(1) absorb_started [of f msg] by (auto split: if_splits)
  have len: "length (pongs (f # fs)) + w = length (pongs [f]) + (length (pongs fs) + w)" by (simp add: pongs_def)
  have "chan_at [] (frame_bytes f @ ?rest) out (length (pongs [f]) + (length (pongs fs) + w)) x s" using Cons.prems(2) unfolding len by simp
  from read_frame_list [OF this ok] obtain s1 where s1: "read_frame (evb_list z) s = (Ret (wf_first f, wf_payload f), s1)"
    "chan_at [] ?rest out (length (pongs [f]) + (length (pongs fs) + w)) x s1" by (auto simp: reaches_def)
  from handle_pending [OF one s1(2)] obtain s2 where s2:
    "handle_frame (evb_list z) msg (wf_first f) (wf_payload f) s1 = (Ret (False, absorb msg [f]), s2)"
    "chan_at [] ?rest (out @ pongs [f]) (length (pongs fs) + w) x s2" by (auto simp: reaches_def)
  have step: "read_message_loop (length (f # fs) + n) (evb_list z) msg s = read_message_loop (length fs + n) (evb_list z) (absorb msg [f]) s2"
    using s1(1) s2(1) by (simp add: bindA_def)
  from Cons.IH [OF more s2(2)] obtain s' where "chan_at [] inp ((out @ pongs [f]) @ pongs fs) w x s'"
    "read_message_loop (length fs + n) (evb_list z) (absorb msg [f]) s2 = read_message_loop n (evb_list z) (absorb (absorb msg [f]) fs) s'" by blast
  with step show ?case by (auto simp: pongs_Cons [of f fs] pongs_Cons [of f "[]"] pongs_def [of "[]"] split: if_splits)
qed

text \<open>The frame that ends the reading.\<close>

lemma read_last:
  assumes "chan_at [] (frame_bytes f @ inp) out (k + w) x s" and "frame_ok f"
  shows "\<not> f_control f \<Longrightarrow> f_final f \<Longrightarrow> (f_op f = 0) = (wm_opcode msg \<noteq> 0) \<Longrightarrow> k = 0 \<Longrightarrow>
      reaches (read_message_loop (Suc n) (evb_list z) msg) s (absorb msg [f]) (chan_at [] inp out w x)"
    and "f_op f = 0x08 \<Longrightarrow> k = length (frame_bytes (server_frame 0x08 (wf_payload f))) \<Longrightarrow>
      fails (read_message_loop (Suc n) (evb_list z) msg) s (Runtime_error ''client has disconnected'')
        (chan_at [] inp (out @ frame_bytes (server_frame 0x08 (wf_payload f))) w x)"
    and "\<not> f_control f \<Longrightarrow> (f_op f = 0) \<noteq> (wm_opcode msg \<noteq> 0) \<Longrightarrow> k = 0 \<Longrightarrow>
      fails (read_message_loop (Suc n) (evb_list z) msg) s (Runtime_error ''invalid opcode'') (chan_at [] inp out w x)"
proof -
  from read_frame_list [OF assms] obtain s1 where s1: "read_frame (evb_list z) s = (Ret (wf_first f, wf_payload f), s1)"
    "chan_at [] inp out (k + w) x s1" by (auto simp: reaches_def)
  show "\<not> f_control f \<Longrightarrow> f_final f \<Longrightarrow> (f_op f = 0) = (wm_opcode msg \<noteq> 0) \<Longrightarrow> k = 0 \<Longrightarrow>
      reaches (read_message_loop (Suc n) (evb_list z) msg) s (absorb msg [f]) (chan_at [] inp out w x)"
    using s1 by (auto simp: reaches_def bindA_def handle_frame_def f_op_def f_control_def f_final_def Let_def)
  show "\<not> f_control f \<Longrightarrow> (f_op f = 0) \<noteq> (wm_opcode msg \<noteq> 0) \<Longrightarrow> k = 0 \<Longrightarrow>
      fails (read_message_loop (Suc n) (evb_list z) msg) s (Runtime_error ''invalid opcode'') (chan_at [] inp out w x)"
    using s1 by (auto simp: fails_def bindA_def handle_frame_def f_op_def f_control_def Let_def)
  assume op: "f_op f = 0x08" and k: "k = length (frame_bytes (server_frame 0x08 (wf_payload f)))"
  from websocket_write_data_list [of "[]" inp out "0x08" "wf_payload f" w x s1 z] s1(2) k frame_ok_length [OF assms(2)]
  obtain s2 where "WebsocketClient_write_data (evb_list z) (wf_payload f) 0x08 s1 = (Ret (), s2)"
    "chan_at [] inp (out @ frame_bytes (server_frame 0x08 (wf_payload f))) w x s2" by (auto simp: reaches_def)
  with s1 op show "fails (read_message_loop (Suc n) (evb_list z) msg) s (Runtime_error ''client has disconnected'')
        (chan_at [] inp (out @ frame_bytes (server_frame 0x08 (wf_payload f))) w x)"
    by (simp add: fails_def bindA_def seqA_def handle_frame_def f_op_def Let_def)
qed

text \<open>The message a sequence of frames stands for: the first data frame's opcode, all data together.\<close>

definition data_frames :: "ws_frame list \<Rightarrow> ws_frame list" where
  "data_frames fs = filter (\<lambda>f. \<not> f_control f) fs"

definition message_of :: "ws_frame list \<Rightarrow> websocket_message" where
  "message_of fs = \<lparr>wm_opcode = f_op (hd (data_frames fs)), wm_data = concat (map wf_payload (data_frames fs))\<rparr>"

lemma absorb_data: "wm_data (absorb msg fs) = wm_data msg @ concat (map wf_payload (data_frames fs))"
  by (induction fs arbitrary: msg) (simp_all add: data_frames_def)

lemma absorb_opcode:
  "pending (wm_opcode msg \<noteq> 0) fs \<Longrightarrow>
     wm_opcode (absorb msg fs) = (if wm_opcode msg = 0 \<and> data_frames fs \<noteq> [] then f_op (hd (data_frames fs)) else wm_opcode msg)"
proof (induction fs arbitrary: msg)
  case (Cons f fs)
  let ?m = "\<lparr>wm_opcode = (if f_op f \<noteq> 0 then f_op f else wm_opcode msg), wm_data = wm_data msg @ wf_payload f\<rparr>"
  show ?case
  proof (cases "f_control f")
    case True
    with Cons show ?thesis by (auto simp: data_frames_def)
  next
    case False
    with Cons.prems have p: "pending True fs" "(f_op f = 0) = (wm_opcode msg \<noteq> 0)" by simp_all
    then have "wm_opcode ?m \<noteq> 0" by auto
    with Cons.IH [of ?m] p False show ?thesis by (auto simp: data_frames_def)
  qed
qed (simp add: data_frames_def)

lemma absorb_append: "absorb msg (fs @ gs) = absorb (absorb msg fs) gs"
  by (induction fs arbitrary: msg) simp_all

lemma pending_opcode: "pending False fs \<Longrightarrow> wm_opcode (absorb WebsocketMessage_new fs) \<noteq> 0 \<longleftrightarrow> data_frames fs \<noteq> []"
proof -
  assume p: "pending False fs"
  have "f_op (hd (data_frames fs)) \<noteq> 0" if "pending False fs" "data_frames fs \<noteq> []" for fs
    using that by (induction fs) (auto simp: data_frames_def split: if_splits)
  with p absorb_opcode [of WebsocketMessage_new fs] show ?thesis by (simp add: WebsocketMessage_new_def)
qed

lemma absorb_message:
  assumes "pending False fs" and "\<not> f_control f" and "(f_op f = 0) = (data_frames fs \<noteq> [])"
  shows "absorb WebsocketMessage_new (fs @ [f]) = message_of (fs @ [f])"
proof -
  have "wm_opcode (absorb WebsocketMessage_new fs) = (if data_frames fs \<noteq> [] then f_op (hd (data_frames fs)) else 0)"
    using absorb_opcode [of WebsocketMessage_new fs] assms(1) by (simp add: WebsocketMessage_new_def)
  with assms(2,3) absorb_data [of WebsocketMessage_new fs] show ?thesis
    by (simp add: absorb_append message_of_def data_frames_def WebsocketMessage_new_def)
qed

text \<open>A whole message, and a close frame after any frames that do not complete one.\<close>

lemma websocket_read_list:
  assumes "chan_at [] (concat (map frame_bytes (fs @ [f])) @ rest) out (length (pongs fs) + w) x s"
    and "pending False fs" and "frame_ok f" and "\<not> f_control f" and "f_final f" and "(f_op f = 0) = (data_frames fs \<noteq> [])" and "length fs < fuel"
  shows "reaches (WebsocketClient_read fuel (evb_list z)) s (message_of (fs @ [f])) (chan_at [] rest (out @ pongs fs) w x)"
proof -
  obtain n where n: "fuel = length fs + Suc n" using assms(7) by (metis less_iff_Suc_add add_Suc_right)
  let ?m = "WebsocketMessage_new"
  from read_pending [of ?m fs "frame_bytes f @ rest" out w x s "Suc n" z] assms(1,2) obtain s1 where
    s1: "chan_at [] (frame_bytes f @ rest) (out @ pongs fs) (0 + w) x s1"
    "read_message_loop fuel (evb_list z) ?m s = read_message_loop (Suc n) (evb_list z) (absorb ?m fs) s1"
    by (auto simp: n WebsocketMessage_new_def)
  have "reaches (read_message_loop (Suc n) (evb_list z) (absorb ?m fs)) s1 (absorb (absorb ?m fs) [f]) (chan_at [] rest (out @ pongs fs) w x)"
    by (rule read_last(1) [OF s1(1) assms(3-5)]) (use assms(6) pending_opcode [OF assms(2)] in auto)
  moreover have "absorb (absorb ?m fs) [f] = message_of (fs @ [f])" using absorb_message [OF assms(2,4,6)] by (simp only: absorb_append)
  ultimately show ?thesis using s1(2) by (simp add: reaches_def WebsocketClient_read_def del: read_message_loop.simps)
qed

lemma websocket_close_list:
  assumes "chan_at [] (concat (map frame_bytes (fs @ [f])) @ rest) out
      (length (pongs fs) + (length (frame_bytes (server_frame 0x08 (wf_payload f))) + w)) x s"
    and "pending False fs" and "frame_ok f" and "f_op f = 0x08" and "length fs < fuel"
  shows "fails (WebsocketClient_read fuel (evb_list z)) s (Runtime_error ''client has disconnected'')
    (chan_at [] rest (out @ pongs fs @ frame_bytes (server_frame 0x08 (wf_payload f))) w x)"
proof -
  obtain n where n: "fuel = length fs + Suc n" using assms(5) by (metis less_iff_Suc_add add_Suc_right)
  let ?m = "WebsocketMessage_new" and ?k = "length (frame_bytes (server_frame 0x08 (wf_payload f)))"
  from read_pending [of ?m fs "frame_bytes f @ rest" out "?k + w" x s "Suc n" z] assms(1,2) obtain s1 where
    s1: "chan_at [] (frame_bytes f @ rest) (out @ pongs fs) (?k + w) x s1"
    "read_message_loop fuel (evb_list z) ?m s = read_message_loop (Suc n) (evb_list z) (absorb ?m fs) s1"
    by (auto simp: n WebsocketMessage_new_def)
  from read_last(2) [OF s1(1) assms(3,4) refl, of n z "absorb ?m fs"] show ?thesis
    using s1(2) by (simp add: fails_def WebsocketClient_read_def del: read_message_loop.simps)
qed

section \<open>Properties\<close>

text \<open>C10: Reading a websocket message.  Whatever way the client cuts a message into frames, masked or not,
  with lengths in any of the three encodings, and however it mixes pings and pongs between them,
  \<open>read\<close> returns exactly the message: the opcode of its first frame and the concatenation of the
  unmasked payloads.  It answers every ping, in order, with a pong of the same payload and sends
  nothing else, it leaves what follows the message unread, and it returns however the bytes are
  cut into reads.\<close>

theorem websocket_message_read:
  assumes "evbuffer_spec E v" and "v (ch_buf s) = []" and "ch_inp s = concat (map frame_bytes (fs @ [f])) @ rest"
    and "pending False fs" and "frame_ok f" and "\<not> f_control f" and "f_final f" and "(f_op f = 0) = (data_frames fs \<noteq> [])"
    and "live (length (pongs fs)) s" and "length fs < fuel"
  shows "\<exists>s'. WebsocketClient_read fuel E s = (Ret (message_of (fs @ [f])), s') \<and> v (ch_buf s') = [] \<and> ch_inp s' = rest \<and>
    ch_out s' = ch_out s @ pongs fs"
proof -
  have "chan_at [] (concat (map frame_bytes (fs @ [f])) @ rest) (ch_out s) (length (pongs fs) + 0) (chan.more s) (chan_abs v s)"
    using assms(2,3,9) by (simp add: chan_at_def)
  from websocket_read_list [OF this assms(4-8,10), of "evbuffer_write_none E", folded evb_ref_def]
  obtain s' where "WebsocketClient_read fuel E s = (Ret (message_of (fs @ [f])), s')" "v (ch_buf s') = []" "ch_inp s' = rest" "ch_out s' = ch_out s @ pongs fs"
    by (rule reaches_chanE [OF websocket_read_sim [OF assms(1), of fuel WebsocketMessage_new, folded WebsocketClient_read_def]])
  then show ?thesis by blast
qed

text \<open>A close frame.  After any frames that do not complete a message, a close frame makes \<open>read\<close> send the
  frame back (after the pongs it owes) and throw; the unfinished message is dropped.\<close>

theorem websocket_close_echoed:
  assumes "evbuffer_spec E v" and "v (ch_buf s) = []" and "ch_inp s = concat (map frame_bytes (fs @ [f])) @ rest"
    and "pending False fs" and "frame_ok f" and "f_op f = 0x08"
    and "live (length (pongs fs) + length (frame_bytes (server_frame 0x08 (wf_payload f)))) s" and "length fs < fuel"
  shows "\<exists>s'. WebsocketClient_read fuel E s = (Throw (Runtime_error ''client has disconnected''), s') \<and> ch_inp s' = rest \<and>
    ch_out s' = ch_out s @ pongs fs @ frame_bytes (server_frame 0x08 (wf_payload f))"
proof -
  have "chan_at [] (concat (map frame_bytes (fs @ [f])) @ rest) (ch_out s)
      (length (pongs fs) + (length (frame_bytes (server_frame 0x08 (wf_payload f))) + 0)) (chan.more s) (chan_abs v s)"
    using assms(2,3,7) by (simp add: chan_at_def)
  from websocket_close_list [OF this assms(4-6,8), of "evbuffer_write_none E", folded evb_ref_def]
  obtain s' where "WebsocketClient_read fuel E s = (Throw (Runtime_error ''client has disconnected''), s')" "ch_inp s' = rest"
    "ch_out s' = ch_out s @ pongs fs @ frame_bytes (server_frame 0x08 (wf_payload f))"
    by (rule fails_chanE [OF websocket_read_sim [OF assms(1), of fuel WebsocketMessage_new, folded WebsocketClient_read_def]])
  then show ?thesis by blast
qed

text \<open>Writing a websocket message.  \<open>write\<close> sends exactly one frame, final and unmasked, with the low four
  bits of the opcode and the shortest encoding of the length, followed by the bytes of the
  caller's buffer, which it empties.  A frame with a data opcode is a complete message that \<open>read\<close>
  on the other side returns unchanged.\<close>

theorem websocket_write_roundtrip:
  assumes "evbuffer_spec E v" and "length (v (ch_buf s)) < 2 ^ 31"
    and "live (length (frame_bytes (server_frame opcode (v (ch_buf s))))) s" and "opcode AND 0x0F \<in> {1..7}"
    and "v (ch_buf t) = []" and "ch_inp t = frame_bytes (server_frame opcode (v (ch_buf s))) @ rest" and "live 0 t" and "0 < fuel"
  shows "(\<exists>s'. WebsocketClient_write E opcode s = (Ret (), s') \<and> v (ch_buf s') = [] \<and>
      ch_out s' = ch_out s @ frame_bytes (server_frame opcode (v (ch_buf s))) \<and> ch_inp s' = ch_inp s) \<and>
    (\<exists>t'. WebsocketClient_read fuel E t = (Ret \<lparr>wm_opcode = opcode AND 0x0F, wm_data = v (ch_buf s)\<rparr>, t') \<and> ch_inp t' = rest)"
proof
  let ?b = "v (ch_buf s)" and ?f = "server_frame opcode (v (ch_buf s))"
  have "chan_at ?b (ch_inp s) (ch_out s) (length (frame_bytes ?f) + 0) (chan.more s) (chan_abs v s)"
    using assms(3) by (simp add: chan_at_def)
  from websocket_write_list [OF this assms(2), of "evbuffer_write_none E", folded evb_ref_def]
  show "\<exists>s'. WebsocketClient_write E opcode s = (Ret (), s') \<and> v (ch_buf s') = [] \<and>
      ch_out s' = ch_out s @ frame_bytes ?f \<and> ch_inp s' = ch_inp s"
    by (rule reaches_chanE [OF websocket_write_sims(1) [OF assms(1)]]) auto
  obtain n where n: "fuel = Suc n" using assms(8) by (cases fuel) auto
  have op: "f_op ?f = opcode AND 0x0F" unfolding f_op_def server_frame_def
    by (simp add: bit_word_eqI bit_and_iff bit_or_iff and.assoc bit.conj_disj_distrib2)
  have fin: "f_final ?f"
  proof -
    have "bit (wf_first ?f) 7" by (simp add: server_frame_def bit_simps)
    then show ?thesis by (simp add: f_final_def bit_iff_and_push_bit_not_eq_0 push_bit_eq_mult)
  qed
  have less: "opcode AND 0x0F < 8" "opcode AND 0x0F \<noteq> 0" using assms(4) by (auto simp: word_le_nat_alt word_less_nat_alt)
  have data: "\<not> f_control ?f"
  proof -
    have "unat (opcode AND 0x0F) div 8 = 0" using less(1) by (simp add: word_less_nat_alt)
    then have "\<not> bit (unat (opcode AND 0x0F)) 3" by (simp add: bit_iff_odd)
    then have "\<not> bit (opcode AND 0x0F) 3" by (simp only: bit_unsigned_iff) simp
    then show ?thesis unfolding f_control_def op by (simp add: bit_iff_and_push_bit_not_eq_0 push_bit_eq_mult)
  qed
  have pay: "wf_payload ?f = ?b" by (simp add: server_frame_def)
  have new: "wm_opcode WebsocketMessage_new = 0" "wm_data WebsocketMessage_new = []" by (simp_all add: WebsocketMessage_new_def)
  have at: "chan_at [] (frame_bytes ?f @ rest) (ch_out t) (0 + 0) (chan.more t) (chan_abs v t)"
    using assms(5-7) by (simp add: chan_at_def)
  have "(f_op ?f = 0) = (wm_opcode WebsocketMessage_new \<noteq> 0)" using less(2) by (simp add: op WebsocketMessage_new_def)
  from read_last(1) [OF at server_frame_ok [OF assms(2)] data fin this refl, of n "evbuffer_write_none E"]
  have "reaches (WebsocketClient_read fuel (evb_ref E)) (chan_abs v t) \<lparr>wm_opcode = opcode AND 0x0F, wm_data = ?b\<rparr>
      (chan_at [] rest (ch_out t) 0 (chan.more t))"
    using data less(2) pay by (simp add: WebsocketClient_read_def evb_ref_def n op new del: read_message_loop.simps)
  then show "\<exists>t'. WebsocketClient_read fuel E t = (Ret \<lparr>wm_opcode = opcode AND 0x0F, wm_data = ?b\<rparr>, t') \<and> ch_inp t' = rest"
    by (rule reaches_chanE [OF websocket_read_sim [OF assms(1), of fuel WebsocketMessage_new, folded WebsocketClient_read_def]]) auto
qed

text \<open>A message in two frames with a ping between them, and a close frame.\<close>

definition example_socket :: "bytes \<Rightarrow> bytes \<Rightarrow> bytes chan" where
  "example_socket b inp = \<lparr>ch_buf = b, ch_inp = inp, ch_sched = replicate 100 (Os_ok 3), ch_out = []\<rparr>"

definition example_pending :: "ws_frame list" where
  "example_pending = [\<lparr>wf_first = 0x01, wf_key = Some [1, 2, 3, 4], wf_width = 1, wf_payload = [72, 101]\<rparr>,
     \<lparr>wf_first = 0x89, wf_key = None, wf_width = 0, wf_payload = [7]\<rparr>]"

definition example_final :: "u8 \<Rightarrow> ws_frame" where
  "example_final b = \<lparr>wf_first = b, wf_key = Some [9, 8, 7, 6], wf_width = 0, wf_payload = [33]\<rparr>"

lemmas example_frame_defs = example_pending_def example_final_def frame_ok_def f_control_def f_op_def f_final_def data_frames_def pongs_def
  frame_bytes_def size_bytes_def server_frame_def live_def example_socket_def

theorem websocket_message_read_witness:
  "\<exists>s'. WebsocketClient_read 3 (evb_list 0) (example_socket [] (concat (map frame_bytes (example_pending @ [example_final 0x80])) @ [5])) =
    (Ret (message_of (example_pending @ [example_final 0x80])), s') \<and> ch_buf s' = [] \<and> ch_inp s' = [5] \<and> ch_out s' = [0x8A, 1, 7]"
proof -
  let ?s = "example_socket [] (concat (map frame_bytes (example_pending @ [example_final 0x80])) @ [5])"
  have p: "pongs example_pending = [0x8A, 1, 7]" by (simp add: example_frame_defs)
  have "\<exists>s'. WebsocketClient_read 3 (evb_list 0) ?s = (Ret (message_of (example_pending @ [example_final 0x80])), s') \<and> id (ch_buf s') = [] \<and>
      ch_inp s' = [5] \<and> ch_out s' = ch_out ?s @ pongs example_pending"
    by (rule websocket_message_read [OF evb_list_spec [of 0]]) (simp_all add: example_frame_defs unmask_def masked_def)
  then show ?thesis by (simp add: p example_socket_def)
qed

theorem websocket_close_echoed_witness:
  "\<exists>s'. WebsocketClient_read 3 (evb_list 0) (example_socket [] (concat (map frame_bytes (example_pending @ [example_final 0x88])) @ [])) =
    (Throw (Runtime_error ''client has disconnected''), s') \<and> ch_out s' = [0x8A, 1, 7, 0x88, 1, 33]"
proof -
  let ?s = "example_socket [] (concat (map frame_bytes (example_pending @ [example_final 0x88])) @ [])"
  have p: "pongs example_pending = [0x8A, 1, 7]" "frame_bytes (server_frame 0x08 (wf_payload (example_final 0x88))) = [0x88, 1, 33]"
    by (simp_all add: example_frame_defs)
  have "\<exists>s'. WebsocketClient_read 3 (evb_list 0) ?s = (Throw (Runtime_error ''client has disconnected''), s') \<and> ch_inp s' = [] \<and>
      ch_out s' = ch_out ?s @ pongs example_pending @ frame_bytes (server_frame 0x08 (wf_payload (example_final 0x88)))"
    by (rule websocket_close_echoed [OF evb_list_spec [of 0]]) (simp_all add: example_frame_defs unmask_def masked_def)
  then show ?thesis unfolding p by (auto simp: example_socket_def)
qed

theorem websocket_write_roundtrip_witness:
  "\<exists>s'. WebsocketClient_write (evb_list 0) 2 (example_socket [1, 2, 3] []) = (Ret (), s') \<and> ch_buf s' = [] \<and> ch_out s' = [0x82, 3, 1, 2, 3]"
proof -
  let ?s = "example_socket [1, 2, 3] []" and ?t = "example_socket [] [0x82, 3, 1, 2, 3]"
  have f: "frame_bytes (server_frame 2 (id (ch_buf ?s))) = [0x82, 3, 1, 2, 3]" by (simp add: example_frame_defs)
  have "length (id (ch_buf ?s)) < 2 ^ 31" "live (length (frame_bytes (server_frame 2 (id (ch_buf ?s))))) ?s" "(2 :: u8) AND 0x0F \<in> {1..7}"
    "id (ch_buf ?t) = []" "ch_inp ?t = frame_bytes (server_frame 2 (id (ch_buf ?s))) @ []" "live 0 ?t" "0 < (1 :: nat)"
    unfolding f by (simp_all add: example_socket_def live_def)
  from websocket_write_roundtrip [OF evb_list_spec [of 0] this, THEN conjunct1] show ?thesis unfolding f by (auto simp: example_socket_def)
qed

end
