(* ===== verification/HTTP_Server.thy ===== *)
theory HTTP_Server
  imports HTTP_Websocket HTTP_Request Phosg Ownership
begin

text \<open>
  Protocols/HTTP/Server.cc without its websocket frames: the listening sockets, responses, the
  switch of a request to the websocket protocol, and the lifetime of a websocket client's
  connection.  libevent's HTTP functions are represented by their effects: headers added, replies
  sent, sockets accepted, handles freed.
\<close>

section \<open>Responses\<close>

definition explanation_for_response_code :: "(int \<times> string) list" where
  "explanation_for_response_code = [
     (100, ''Continue''), (101, ''Switching Protocols''), (102, ''Processing''), (200, ''OK''), (201, ''Created''),
     (202, ''Accepted''), (203, ''Non-Authoritative Information''), (204, ''No Content''), (205, ''Reset Content''),
     (206, ''Partial Content''), (207, ''Multi-Status''), (208, ''Already Reported''), (226, ''IM Used''),
     (300, ''Multiple Choices''), (301, ''Moved Permanently''), (302, ''Found''), (303, ''See Other''), (304, ''Not Modified''),
     (305, ''Use Proxy''), (307, ''Temporary Redirect''), (308, ''Permanent Redirect''), (400, ''Bad Request''),
     (401, ''Unathorized''), (402, ''Payment Required''), (403, ''Forbidden''), (404, ''Not Found''),
     (405, ''Method Not Allowed''), (406, ''Not Acceptable''), (407, ''Proxy Authentication Required''),
     (408, ''Request Timeout''), (409, ''Conflict''), (410, ''Gone''), (411, ''Length Required''), (412, ''Precondition Failed''),
     (413, ''Request Entity Too Large''), (414, ''Request-URI Too Long''), (415, ''Unsupported Media Type''),
     (416, ''Requested Range Not Satisfiable''), (417, ''Expectation Failed''), (418, ''I'' @ [CHR 0x27] @ ''m a Teapot''),
     (420, ''Enhance Your Calm''), (422, ''Unprocessable Entity''), (423, ''Locked''), (424, ''Failed Dependency''),
     (426, ''Upgrade Required''), (428, ''Precondition Required''), (429, ''Too Many Requests''),
     (431, ''Request Header Fields Too Large''), (444, ''No Response''), (449, ''Retry With''),
     (451, ''Unavailable For Legal Reasons''), (500, ''Internal Server Error''), (501, ''Not Implemented''),
     (502, ''Bad Gateway''), (503, ''Service Unavailable''), (504, ''Gateway Timeout''), (505, ''HTTP Version Not Supported''),
     (506, ''Variant Also Negotiates''), (507, ''Insufficient Storage''), (508, ''Loop Detected''),
     (509, ''Bandwidth Limit Exceeded''), (510, ''Not Extended''), (511, ''Network Authentication Required''),
     (598, ''Network Read Timeout Error''), (599, ''Network Connect Timeout Error'')]"

record http_server =
  hs_http :: "nat option"
  hs_ssl_http :: "nat option"
  hs_ssl_ctx :: "nat option"
  hs_server_name :: bytes
  hs_out_headers :: "(bytes \<times> bytes) list"
  hs_replies :: "(int \<times> string \<times> bytes option) list"
  hs_accepted :: "(nat \<times> int) list"
  hs_freed :: "nat list"

text \<open>The last four fields are what the server has done to the request and to libevent.\<close>

definition Server_new :: "nat option \<Rightarrow> http_server" where
  "Server_new ssl_ctx = \<lparr>hs_http = None, hs_ssl_http = None, hs_ssl_ctx = ssl_ctx, hs_server_name = [], hs_out_headers = [], hs_replies = [],
     hs_accepted = [], hs_freed = []\<rparr>"

definition free_handle :: "nat option \<Rightarrow> (http_server, unit) act" where
  "free_handle h = (case h of None \<Rightarrow> retA () | Some x \<Rightarrow> modifyA (\<lambda>s. s\<lparr>hs_freed := hs_freed s @ [x]\<rparr>))"

definition Server_destroy :: "(http_server, unit) act" where
  "Server_destroy = seqA (bindA (getsA hs_http) free_handle) (bindA (getsA hs_ssl_http) free_handle)"

text \<open>\<open>fresh\<close> is the result of \<open>evhttp_new\<close>, if it is called.\<close>

definition accept_on :: "nat \<Rightarrow> int \<Rightarrow> (http_server, unit) act" where
  "accept_on h fd = modifyA (\<lambda>s. s\<lparr>hs_accepted := hs_accepted s @ [(h, fd)]\<rparr>)"

definition Server_add_socket :: "nat option \<Rightarrow> int \<Rightarrow> bool \<Rightarrow> (http_server, unit) act" where
  "Server_add_socket fresh fd ssl =
     (if ssl then bindA (getsA hs_ssl_http) (\<lambda>h. case h of
         Some x \<Rightarrow> accept_on x fd
       | None \<Rightarrow> bindA (getsA hs_ssl_ctx) (\<lambda>c.
           if c = None then throwA (Logic_error ''cannot add SSL listening socket without SSL_CTX set'')
           else seqA (modifyA (\<lambda>s. s\<lparr>hs_ssl_http := fresh\<rparr>))
             (case fresh of None \<Rightarrow> throwA Bad_alloc | Some x \<Rightarrow> accept_on x fd)))
      else bindA (getsA hs_http) (\<lambda>h. case h of
         Some x \<Rightarrow> accept_on x fd
       | None \<Rightarrow> seqA (modifyA (\<lambda>s. s\<lparr>hs_http := fresh\<rparr>))
           (case fresh of None \<Rightarrow> throwA Bad_alloc | Some x \<Rightarrow> accept_on x fd)))"

definition set_server_name :: "bytes \<Rightarrow> (http_server, unit) act" where
  "set_server_name name = modifyA (\<lambda>s. s\<lparr>hs_server_name := name\<rparr>)"

definition Request_add_output_header :: "bytes \<Rightarrow> bytes \<Rightarrow> (http_server, unit) act" where
  "Request_add_output_header k x = modifyA (\<lambda>s. s\<lparr>hs_out_headers := hs_out_headers s @ [(k, x)]\<rparr>)"

definition add_server_header :: "(http_server, unit) act" where
  "add_server_header = bindA (getsA hs_server_name) (\<lambda>n. whenA (n \<noteq> []) (Request_add_output_header (ascii ''Server'') n))"

text \<open>\<open>at\<close> throws for a code that is not in the table, before \<open>evhttp_send_reply\<close> is called.\<close>

definition send_reply :: "int \<Rightarrow> bytes option \<Rightarrow> (http_server, unit) act" where
  "send_reply code body = (case map_of explanation_for_response_code code of
     None \<Rightarrow> throwA (Out_of_range ''unordered_map::at'')
   | Some reason \<Rightarrow> modifyA (\<lambda>s. s\<lparr>hs_replies := hs_replies s @ [(code, reason, body)]\<rparr>))"

text \<open>A response whose body is in a buffer: \<open>body\<close> is what the buffer holds, which \<open>evhttp_send_reply\<close> takes out of it.\<close>

definition send_response :: "int \<Rightarrow> bytes \<Rightarrow> bytes \<Rightarrow> (http_server, unit) act" where
  "send_response code content_type body = seqA (Request_add_output_header (ascii ''Content-Type'') content_type)
     (seqA add_server_header (send_reply code (Some body)))"

text \<open>The overloads that put the body into a buffer of their own.\<close>

definition with_buffer :: "'b evbuffer_api \<Rightarrow> ('b, 'a) act \<Rightarrow> (bytes \<Rightarrow> (http_server, unit) act) \<Rightarrow> (http_server, unit) act" where
  "with_buffer E fill send = (\<lambda>s. case evbuffer_new E of None \<Rightarrow> (Throw Bad_alloc, s)
     | Some b \<Rightarrow> (case fill b of
         (Ret _, b') \<Rightarrow> send (snd (evbuffer_copyout E b' (evbuffer_get_length E b'))) s
       | (Throw e, _) \<Rightarrow> (Throw e, s) | (Blocked, _) \<Rightarrow> (Blocked, s)))"

definition send_response_data :: "'b evbuffer_api \<Rightarrow> int \<Rightarrow> bytes \<Rightarrow> bytes \<Rightarrow> (http_server, unit) act" where
  "send_response_data E code content_type d = with_buffer E (Buffer_add E d) (send_response code content_type)"

definition send_response_moved :: "'b evbuffer_api \<Rightarrow> int \<Rightarrow> bytes \<Rightarrow> bytes \<Rightarrow> (http_server, unit) act" where
  "send_response_moved E code content_type d = with_buffer E (Buffer_add_moved E d) (send_response code content_type)"

definition send_response_printf :: "'b evbuffer_api \<Rightarrow> int \<Rightarrow> bytes \<Rightarrow> string \<Rightarrow> printf_arg list \<Rightarrow> (http_server, unit) act" where
  "send_response_printf E code content_type fmt va = with_buffer E (Buffer_add_vprintf E fmt va) (send_response code content_type)"

definition send_response_empty :: "int \<Rightarrow> bytes option \<Rightarrow> (http_server, unit) act" where
  "send_response_empty code content_type = seqA add_server_header
     (seqA (case content_type of None \<Rightarrow> retA () | Some ct \<Rightarrow> Request_add_output_header (ascii ''Content-Type'') ct) (send_reply code None))"

text \<open>A response with a code of the table is sent exactly once, with the table's explanation and the given
  body, after the content type and, if one is set, the server name.  With any other code
  \<open>send_response\<close> throws and no reply is ever sent, but the headers have been added to the request.\<close>

theorem server_response:
  "send_response code ct body s = (case map_of explanation_for_response_code code of
     Some reason \<Rightarrow> (Ret (), s\<lparr>hs_out_headers := hs_out_headers s @ [(ascii ''Content-Type'', ct)] @
         (if hs_server_name s = [] then [] else [(ascii ''Server'', hs_server_name s)]), hs_replies := hs_replies s @ [(code, reason, Some body)]\<rparr>)
   | None \<Rightarrow> (Throw (Out_of_range ''unordered_map::at''), s\<lparr>hs_out_headers := hs_out_headers s @ [(ascii ''Content-Type'', ct)] @
         (if hs_server_name s = [] then [] else [(ascii ''Server'', hs_server_name s)])\<rparr>))"
  by (simp add: send_response_def seqA_def bindA_def add_server_header_def whenA_def Request_add_output_header_def send_reply_def
      split: option.splits)

text \<open>All overloads with a body send the response they are asked for, whatever buffers libevent gives them.\<close>

lemma with_buffer_spec:
  assumes "evbuffer_spec E v" and "\<And>b. v b = [] \<Longrightarrow> \<exists>r b'. fill b = (Ret r, b') \<and> v b' = d"
  shows "with_buffer E fill send = send d"
proof
  fix s
  obtain b where b: "evbuffer_new E = Some b" "v b = []" using evb_laws(1) [OF assms(1)] by auto
  from assms(2) [OF b(2)] obtain r b' where "fill b = (Ret r, b')" "v b' = d" by blast
  with b(1) evb_laws [OF assms(1)] show "with_buffer E fill send s = send d s" by (simp add: with_buffer_def)
qed

lemma send_response_overloads:
  assumes "evbuffer_spec E v"
  shows "send_response_data E code ct d = send_response code ct d"
    and "send_response_moved E code ct d = send_response code ct d"
    and "send_response_printf E code ct fmt va = send_response code ct (ascii (c_printf fmt va))"
  unfolding send_response_data_def send_response_moved_def send_response_printf_def
  by (rule with_buffer_spec [OF assms], use evb_laws [OF assms] in
    \<open>simp add: Buffer_add_def Buffer_add_moved_def Buffer_add_vprintf_def case_prod_beta\<close>)+

section \<open>Switching to websockets\<close>

definition c_lower :: "byte \<Rightarrow> byte" where
  "c_lower b = (if 65 \<le> b \<and> b \<le> 90 then b + 32 else b)"

definition same_ignoring_case :: "bytes \<Rightarrow> bytes \<Rightarrow> bool" where
  "same_ignoring_case a b \<longleftrightarrow> map c_lower a = map c_lower b"

record upgrade_api =
  sha1 :: "bytes \<Rightarrow> bytes"
  base64_encode :: "bytes \<Rightarrow> bytes"

text \<open>What the code looks at in a request: whether it is a GET, and its headers as C strings.\<close>

record upgrade_request =
  ur_is_get :: bool
  ur_header :: "string \<Rightarrow> bytes option"

definition is_upgrade :: "upgrade_request \<Rightarrow> bytes option" where
  "is_upgrade req =
     (if \<not> ur_is_get req then None
      else case ur_header req ''Connection'' of None \<Rightarrow> None
      | Some c \<Rightarrow> if \<not> same_ignoring_case c (ascii ''upgrade'') then None
        else case ur_header req ''Upgrade'' of None \<Rightarrow> None
        | Some u \<Rightarrow> if \<not> same_ignoring_case u (ascii ''websocket'') then None else ur_header req ''Sec-WebSocket-Key'')"

definition switching_format :: string where
  "switching_format = ''HTTP/1.1 101 Switching Protocols'' @ [CHR 0x0D, CHR 0x0A] @ ''Upgrade: websocket'' @ [CHR 0x0D, CHR 0x0A] @
     ''Connection: upgrade'' @ [CHR 0x0D, CHR 0x0A] @ ''Sec-WebSocket-Accept: %s'' @ [CHR 0x0D, CHR 0x0A] @ [CHR 0x0D, CHR 0x0A]"

text \<open>What it prints.\<close>

definition switching_reply :: "bytes \<Rightarrow> bytes" where
  "switching_reply accept = ascii ''HTTP/1.1 101 Switching Protocols'' @ [13, 10] @ ascii ''Upgrade: websocket'' @ [13, 10] @
     ascii ''Connection: upgrade'' @ [13, 10] @ ascii ''Sec-WebSocket-Accept: '' @ accept @ [13, 10] @ [13, 10]"

text \<open>Whether a client is returned; the buffer of the state is the one of the connection.\<close>

definition enable_websockets :: "'b evbuffer_api \<Rightarrow> upgrade_api \<Rightarrow> upgrade_request \<Rightarrow> (('b, 'z) chan_scheme, bool) act" where
  "enable_websockets E U req = (case is_upgrade req of
     None \<Rightarrow> retA False
   | Some key \<Rightarrow>
       let accept = base64_encode U (sha1 U (key @ ascii ''258EAFA5-E914-47DA-95CA-C5AB0DC85B11'')) in
       with_local E (seqA (on_local (Buffer_add_printf E switching_format [c_str accept]))
         (seqA (local_chan (Buffer_write E (-1))) (retA True))))"

lemma enable_websockets_sim:
  "evbuffer_spec E v \<Longrightarrow> simA (chan_abs v) (enable_websockets E U req) (enable_websockets (evb_ref E) U req)"
  unfolding enable_websockets_def Let_def by (cases "is_upgrade req") (simp_all add: sim_intros del: retA_apply)

lemma switching_text: "ascii (c_printf switching_format [c_str a]) = switching_reply (takeWhile (\<lambda>b. b \<noteq> 0) a)"
  by (simp add: c_printf_def switching_format_def switching_reply_def conversion_of_def convert_def c_str_def pad_def ascii_Cons)

lemma websocket_upgrade_list:
  assumes at: "chan_at b inp out (length (switching_reply a) + w) x s" and a: "0 \<notin> set a" "length (switching_reply a) < 2 ^ 63"
  shows "reaches (with_local (evb_list z) (seqA (on_local (Buffer_add_printf (evb_list z) switching_format [c_str a]))
      (seqA (local_chan (Buffer_write (evb_list z) (-1))) (retA True)))) s True (chan_at b inp (out @ switching_reply a) w x)"
proof -
  let ?d = "switching_reply a"
  have tw: "takeWhile (\<lambda>b. b \<noteq> 0) a = a" unfolding takeWhile_eq_all_conv using a(1) by (intro ballI notI) simp
  have t: "Buffer_add_printf (evb_list z) switching_format [c_str a] [] = (Ret (length (c_printf switching_format [c_str a])), ?d)"
    by (simp add: switching_text tw)
  have d: "?d \<noteq> []" "length ?d < 2 ^ 63" using a(2) by (simp_all add: switching_reply_def)
  have wr: "reaches (Buffer_write (evb_list z) (-1)) s1 () (chan_at [] inp (out @ ?d) w x)" if "chan_at ?d inp out (length ?d + w) x s1" for s1
    by (rule reaches_write [OF that d])
  show ?thesis
    apply (rule reaches_with_local [OF at])
    apply (rule reaches_seqA, erule reaches_local, rule t)
    apply (rule reaches_seqA, rule reaches_local_chan, assumption, erule wr)
    apply (simp add: reaches_def)
    done
qed


definition example_upgrade :: upgrade_request where
  "example_upgrade = \<lparr>ur_is_get = True, ur_header = (\<lambda>h. if h = ''Connection'' then Some (ascii ''Upgrade'')
     else if h = ''Upgrade'' then Some (ascii ''WebSocket'') else Some (ascii ''k''))\<rparr>"


section \<open>The connection of a websocket client\<close>

record ws_handle =
  wc_conn :: "nat option"
  wc_bev :: "nat option"
  wc_fd :: int
  wc_input :: bytes

datatype release = Free_conn nat | Close_fd int

text \<open>\<open>bev\<close> and \<open>fd\<close> are those of the connection; \<open>wc_input\<close> is the contents of \<open>input_buf\<close>.\<close>

definition WebsocketClient_new :: "nat \<Rightarrow> nat \<Rightarrow> int \<Rightarrow> ws_handle" where
  "WebsocketClient_new conn bev fd = \<lparr>wc_conn = Some conn, wc_bev = Some bev, wc_fd = fd, wc_input = []\<rparr>"

definition moved_from :: "ws_handle \<Rightarrow> ws_handle" where
  "moved_from h = h\<lparr>wc_conn := None, wc_bev := None, wc_fd := -1, wc_input := []\<rparr>"

text \<open>The new object and what is left of the old one; the second also for move assignment.\<close>

definition WebsocketClient_move :: "ws_handle \<Rightarrow> ws_handle \<times> ws_handle" where
  "WebsocketClient_move other = (other, moved_from other)"

definition WebsocketClient_assign :: "ws_handle \<Rightarrow> ws_handle \<Rightarrow> ws_handle \<times> ws_handle" where
  "WebsocketClient_assign this other = (\<lparr>wc_conn = wc_conn other, wc_bev = wc_bev other, wc_fd = wc_fd other, wc_input = wc_input other\<rparr>, moved_from other)"

definition WebsocketClient_close :: "ws_handle \<Rightarrow> ws_handle \<times> release list" where
  "WebsocketClient_close h = (h\<lparr>wc_conn := None, wc_fd := -1\<rparr>,
     case wc_conn h of Some c \<Rightarrow> [Free_conn c] | None \<Rightarrow> if 0 \<le> wc_fd h then [Close_fd (wc_fd h)] else [])"

definition WebsocketClient_is_closed :: "ws_handle \<Rightarrow> bool" where
  "WebsocketClient_is_closed h \<longleftrightarrow> wc_conn h = None \<and> wc_fd h < 0"

lemmas websocket_handle_defs = WebsocketClient_new_def WebsocketClient_move_def WebsocketClient_assign_def WebsocketClient_close_def moved_from_def

text \<open>
  The class as an owner of connections.  What it can release is a connection, and the descriptor when
  there is no connection; in every object without a connection the descriptor is negative.
\<close>

definition websocket_owner :: "(ws_handle, release) owner_ops" where
  "websocket_owner = \<lparr>made = (\<lambda>h. \<exists>conn bev fd. h = WebsocketClient_new conn bev fd), held = (\<lambda>h. map_option Free_conn (wc_conn h)),
     move_from = WebsocketClient_move, assign_from = (\<lambda>a b. case WebsocketClient_assign a b of (x, y) \<Rightarrow> (x, y, [])),
     release = WebsocketClient_close\<rparr>"

interpretation websocket_conns: owning_handle websocket_owner "\<lambda>h. wc_conn h = None \<longrightarrow> wc_fd h < 0"
  by unfold_locales (auto simp: websocket_owner_def websocket_handle_defs split: option.splits if_splits)

text \<open>C40: However clients are constructed, moved, assigned, closed and destroyed, no connection is freed twice, no
  client refers to a freed connection or to another's, and no descriptor is closed apart from its connection.\<close>

theorem websocket_connection_freed_once:
  assumes "(owner_step websocket_owner)\<^sup>*\<^sup>* owner_start s"
  shows "handles_safe websocket_owner s \<and> (\<forall>fd. Close_fd fd \<notin> set (os_released s))"
proof -
  have "Close_fd fd \<notin> set (os_acquired s)" for fd
    using assms by (induction rule: rtranclp_induct)
      (auto simp: owner_start_def websocket_owner_def elim!: owner_step.cases split: option.splits)
  with websocket_conns.reach_safe [OF assms] show ?thesis by (auto simp: handles_safe_def)
qed

theorem websocket_connection_freed_once_witness:
  "\<exists>s. (owner_step websocket_owner)\<^sup>*\<^sup>* owner_start s \<and> os_acquired s = [Free_conn 7] \<and> handles_safe websocket_owner s"
proof -
  have r: "(owner_step websocket_owner)\<^sup>*\<^sup>* owner_start \<lparr>os_objects = [0 \<mapsto> WebsocketClient_new 7 8 3], os_acquired = [Free_conn 7], os_released = []\<rparr>"
    by (rule owner_step_first) (auto simp: websocket_owner_def WebsocketClient_new_def)
  with websocket_connection_freed_once [OF r] show ?thesis by (metis owner_state.select_convs(2))
qed

text \<open>Move assignment forgets the connection the target held: afterwards neither object refers to it, so
  that nothing will ever free it.\<close>

theorem websocket_assign_leaks:
  assumes "wc_conn h = Some c" and "wc_conn h2 \<noteq> Some c" and "WebsocketClient_assign h h2 = (h', old)"
  shows "wc_conn h' \<noteq> Some c \<and> wc_conn old \<noteq> Some c \<and> Free_conn c \<notin> set (snd (WebsocketClient_close h')) \<and>
    Free_conn c \<notin> set (snd (WebsocketClient_close old))"
  using assms by (auto simp: websocket_handle_defs split: option.splits)

theorem websocket_assign_leaks_witness:
  "Free_conn 7 \<notin> set (snd (WebsocketClient_close (fst (WebsocketClient_assign (WebsocketClient_new 7 8 3) (WebsocketClient_new 9 10 4)))))"
  using websocket_assign_leaks [of "WebsocketClient_new 7 8 3" 7 "WebsocketClient_new 9 10 4", OF _ _ prod.collapse [symmetric]]
  by (simp add: WebsocketClient_new_def)

end
