(* ===== verification/Websocket_Example.thy ===== *)
theory Websocket_Example
  imports HTTP_Server
begin

text \<open>
  Examples/HTTPWebsocketServer.cc, and the simpler Examples/HTTPServer.cc: the request handler of an HTTP server that serves static files and
  a websocket stream, as a composition of the responses, the upgrade and the websocket client.  The
  lemmas show which response every request gets, that no file outside the static directory is opened,
  and what a websocket session sends.
\<close>

section \<open>The handler\<close>

text \<open>
  The functions of phosg the handler calls.  \<open>load_file\<close> gives the contents of a file, or the
  \<open>what()\<close> of the exception it throws.
\<close>

record files_api =
  starts_with :: "bytes \<Rightarrow> bytes \<Rightarrow> bool"
  ends_with :: "bytes \<Rightarrow> bytes \<Rightarrow> bool"
  load_file :: "bytes \<Rightarrow> bytes + bytes"
  rot13 :: "bytes \<Rightarrow> bytes"

definition starts_with_spec :: "files_api \<Rightarrow> bool" where
  "starts_with_spec F \<longleftrightarrow> (\<forall>s p. starts_with F s p \<longleftrightarrow> take (length p) s = p)"

definition rot13_spec :: "files_api \<Rightarrow> bool" where
  "rot13_spec F \<longleftrightarrow> (\<forall>d. length (rot13 F d) = length d)"

text \<open>A request with its URI, a C string, and the connection it came on.\<close>

record stream_request = upgrade_request +
  sr_uri :: bytes
  sr_conn :: nat
  sr_bev :: nat
  sr_fd :: int

text \<open>
  The state of the handler's coroutine: the connection, the server, and what has happened outside of
  it: the files opened, the handles released, and whether \<open>std::terminate\<close> was called.
\<close>

record 'b handler_state = "'b chan" +
  wx_server :: http_server
  wx_opened :: "bytes list"
  wx_released :: "release list"
  wx_terminated :: bool

definition on_server :: "(http_server, 'a) act \<Rightarrow> ('b handler_state, 'a) act" where
  "on_server m = (\<lambda>s. case m (wx_server s) of (r, h) \<Rightarrow> (r, s\<lparr>wx_server := h\<rparr>))"

text \<open>\<open>string::find\<close>: whether it does not return \<open>npos\<close>.\<close>

definition str_contains :: "bytes \<Rightarrow> bytes \<Rightarrow> bool" where
  "str_contains s p \<longleftrightarrow> (\<exists>i\<in>{0..length s}. take (length p) (drop i s) = p)"

definition static_dir :: bytes where
  "static_dir = ascii ''HTTPWebsocketServer-Static''"

definition serve_static :: "'b evbuffer_api \<Rightarrow> files_api \<Rightarrow> bytes \<Rightarrow> ('b handler_state, unit) act" where
  "serve_static E F path =
     (let filename = static_dir @ ascii ''/'' @ drop 8 path in
      if str_contains filename (ascii ''..'') then on_server (send_response_printf E 400 (ascii ''text/plain'') ''Invalid static file'' [])
      else seqA (modifyA (\<lambda>s. s\<lparr>wx_opened := wx_opened s @ [filename]\<rparr>))
        (case load_file F filename of
           Inl what \<Rightarrow> on_server (send_response_printf E 500 (ascii ''text/plain'') ''Could not read file: %s'' [c_str what])
         | Inr d \<Rightarrow> on_server (send_response_moved E 200
             (if ends_with F filename (ascii ''.js'') then ascii ''text/javascript'' else ascii ''text/html'') d)))"

text \<open>The loop of a session, cut off after \<open>n\<close> messages and \<open>fuel\<close> frames of a message.\<close>

fun stream_loop :: "nat \<Rightarrow> nat \<Rightarrow> 'b evbuffer_api \<Rightarrow> files_api \<Rightarrow> (('b, 'z) chan_scheme, unit) act" where
  "stream_loop 0 fuel E F = throwA Out_of_fuel"
| "stream_loop (Suc n) fuel E F = bindA (WebsocketClient_read fuel E) (\<lambda>msg.
     let response = rot13 F (wm_data msg) in
     seqA (WebsocketClient_write_data E response 0x01)
       (if wm_data msg = ascii ''quit'' then retA () else stream_loop n fuel E F))"

text \<open>The client is destroyed, and its connection closed, when the block that holds it is left in any way.\<close>

definition with_client :: "ws_handle \<Rightarrow> ('b handler_state, unit) act \<Rightarrow> ('b handler_state, unit) act" where
  "with_client c m = (\<lambda>s. case m s of (r, s') \<Rightarrow>
     (r, if r = Blocked then s' else s'\<lparr>wx_released := wx_released s' @ snd (WebsocketClient_close c)\<rparr>))"

definition serve_stream :: "nat \<Rightarrow> 'b evbuffer_api \<Rightarrow> upgrade_api \<Rightarrow> files_api \<Rightarrow> stream_request \<Rightarrow> ('b handler_state, unit) act" where
  "serve_stream fuel E U F req = bindA (enable_websockets E U (upgrade_request.truncate req)) (\<lambda>c.
     if \<not> c then on_server (send_response_printf E 400 (ascii ''text/plain'') ''Could not enable websockets for request'' [])
     else with_client (WebsocketClient_new (sr_conn req) (sr_bev req) (sr_fd req)) (seqA (Buffer_new E) (stream_loop fuel fuel E F)))"

text \<open>An exception that leaves the coroutine of a \<open>DetachedTask\<close> ends the process.\<close>

definition DetachedTask_unhandled_exception :: "('b handler_state, unit) act \<Rightarrow> ('b handler_state, unit) act" where
  "DetachedTask_unhandled_exception m = (\<lambda>s. case m s of (r, s') \<Rightarrow> (r, case r of Throw e \<Rightarrow> s'\<lparr>wx_terminated := True\<rparr> | _ \<Rightarrow> s'))"

definition handle_request :: "nat \<Rightarrow> 'b evbuffer_api \<Rightarrow> upgrade_api \<Rightarrow> files_api \<Rightarrow> stream_request \<Rightarrow> ('b handler_state, unit) act" where
  "handle_request fuel E U F req = DetachedTask_unhandled_exception
     (let path = (if sr_uri req = ascii ''/'' then ascii ''/static/index.html'' else sr_uri req) in
      if starts_with F path (ascii ''/static/'') then serve_static E F path
      else if starts_with F path (ascii ''/stream'') then serve_stream fuel E U F req
      else on_server (send_response_printf E 404 (ascii ''text/plain'') ''Incorrect path: %s'' [c_str path]))"

section \<open>Static files\<close>

text \<open>How a path is resolved: the directories entered, component by component.\<close>

function path_components :: "bytes \<Rightarrow> bytes list" where
  "path_components p = takeWhile (\<lambda>b. b \<noteq> 47) p #
     (if 47 \<in> set p then path_components (tl (dropWhile (\<lambda>b. b \<noteq> 47) p)) else [])"
  by pat_completeness auto
termination
proof (relation "measure length", simp)
  fix p :: bytes assume "47 \<in> set p"
  then have "dropWhile (\<lambda>b. b \<noteq> 47) p \<noteq> []" by (auto simp: dropWhile_eq_Nil_conv)
  then have "length (tl (dropWhile (\<lambda>b. b \<noteq> 47) p)) < length (dropWhile (\<lambda>b. b \<noteq> 47) p)" by simp
  also have "\<dots> \<le> length p" by (rule length_dropWhile_le)
  finally show "(tl (dropWhile (\<lambda>b. b \<noteq> 47) p), p) \<in> measure length" by simp
qed

declare path_components.simps [simp del]

fun resolve :: "bytes list \<Rightarrow> bytes list \<Rightarrow> bytes list" where
  "resolve at [] = at"
| "resolve at (c # cs) = resolve (if c = [] \<or> c = ascii ''.'' then at else if c = ascii ''..'' then butlast at else at @ [c]) cs"

text \<open>At no point does the path leave the directory \<open>dir\<close>.\<close>

definition confined :: "bytes \<Rightarrow> bytes \<Rightarrow> bool" where
  "confined dir p \<longleftrightarrow> (\<forall>k>0. k \<le> length (path_components p) \<longrightarrow> take 1 (resolve [] (take k (path_components p))) = [dir])"

lemma str_contains_iff: "str_contains s p \<longleftrightarrow> (\<exists>a b. s = a @ p @ b)"
proof
  assume "str_contains s p"
  then obtain i where "take (length p) (drop i s) = p" by (auto simp: str_contains_def)
  then have "s = take i s @ p @ drop (length p) (drop i s)" by (metis append_take_drop_id)
  then show "\<exists>a b. s = a @ p @ b" by blast
next
  assume "\<exists>a b. s = a @ p @ b"
  then obtain a b where "s = a @ p @ b" by blast
  then show "str_contains s p" by (auto simp: str_contains_def intro!: bexI [of _ "length a"])
qed

lemma str_contains_count: "str_contains s p \<Longrightarrow> count_list p b \<le> count_list s b"
  by (auto simp: str_contains_iff)

lemma path_component_part: "c \<in> set (path_components p) \<Longrightarrow> str_contains p c"
proof (induction p rule: path_components.induct)
  case (1 p)
  consider "c = takeWhile (\<lambda>b. b \<noteq> 47) p" | "47 \<in> set p" "c \<in> set (path_components (tl (dropWhile (\<lambda>b. b \<noteq> 47) p)))"
    using "1.prems" by (subst (asm) path_components.simps) (auto split: if_splits)
  then show ?case
  proof cases
    case 1
    have "p = [] @ takeWhile (\<lambda>b. b \<noteq> 47) p @ dropWhile (\<lambda>b. b \<noteq> 47) p" by simp
    then show ?thesis unfolding str_contains_iff 1 by blast
  next
    case 2
    from "1.IH" [OF this] obtain a b where "tl (dropWhile (\<lambda>b. b \<noteq> 47) p) = a @ c @ b" unfolding str_contains_iff by blast
    moreover have "dropWhile (\<lambda>b. b \<noteq> 47) p \<noteq> []" using 2(1) by (auto simp: dropWhile_eq_Nil_conv)
    ultimately have "p = (takeWhile (\<lambda>b. b \<noteq> 47) p @ [hd (dropWhile (\<lambda>b. b \<noteq> 47) p)] @ a) @ c @ b"
      by (metis append.assoc append_Cons append_Nil list.collapse takeWhile_dropWhile_id)
    then show ?thesis unfolding str_contains_iff by blast
  qed
qed

lemma resolve_down: "ascii ''..'' \<notin> set cs \<Longrightarrow> at \<noteq> [] \<Longrightarrow> take 1 (resolve at cs) = take 1 at"
proof (induction cs arbitrary: at)
  case (Cons c cs)
  then show ?case by (cases at) auto
qed simp

lemma confined_static:
  assumes "\<not> str_contains (static_dir @ ascii ''/'' @ p) (ascii ''..'')"
  shows "confined static_dir (static_dir @ ascii ''/'' @ p)"
proof -
  let ?f = "static_dir @ ascii ''/'' @ p"
  have ne: "static_dir \<noteq> []" "static_dir \<noteq> ascii ''.''" "static_dir \<noteq> ascii ''..''" "47 \<notin> set static_dir"
    by (simp_all add: static_dir_def ascii_def)
  have "takeWhile (\<lambda>b. b \<noteq> 47) ?f = static_dir" "47 \<in> set ?f"
    using ne(4) by (auto simp: takeWhile_append ascii_def)
  then have "\<exists>cs. path_components ?f = static_dir # cs" by (subst path_components.simps) simp
  then obtain cs where cs: "path_components ?f = static_dir # cs" by blast
  have dots: "ascii ''..'' \<notin> set cs" using assms path_component_part [of "ascii ''..''" ?f] by (auto simp: cs)
  show ?thesis unfolding confined_def cs
  proof (intro allI impI)
    fix k :: nat assume "0 < k"
    then obtain j where k: "k = Suc j" by (cases k) auto
    have "ascii ''..'' \<notin> set (take j cs)" using dots by (meson in_set_takeD)
    then show "take 1 (resolve [] (take k (static_dir # cs))) = [static_dir]" using ne resolve_down [of "take j cs" "[static_dir]"] by (simp add: k)
  qed
qed

text \<open>The response to a request that is not for the stream: its code, content type and body.\<close>

definition expected_reply :: "files_api \<Rightarrow> bytes \<Rightarrow> int \<times> bytes \<times> bytes" where
  "expected_reply F path =
     (let f = static_dir @ ascii ''/'' @ drop 8 path; plain = ascii ''text/plain'' in
      if take 8 path = ascii ''/static/'' then
        (if str_contains f (ascii ''..'') then (400, plain, ascii ''Invalid static file'')
         else case load_file F f of
           Inl what \<Rightarrow> (500, plain, ascii ''Could not read file: '' @ takeWhile (\<lambda>b. b \<noteq> 0) what)
         | Inr d \<Rightarrow> (200, if ends_with F f (ascii ''.js'') then ascii ''text/javascript'' else ascii ''text/html'', d))
      else if take 7 path = ascii ''/stream'' then (400, plain, ascii ''Could not enable websockets for request'')
      else (404, plain, ascii ''Incorrect path: '' @ path))"

lemma handler_texts:
  "ascii (c_printf ''Invalid static file'' []) = ascii ''Invalid static file''"
  "ascii (c_printf ''Could not enable websockets for request'' []) = ascii ''Could not enable websockets for request''"
  "ascii (c_printf ''Could not read file: %s'' [c_str d]) = ascii ''Could not read file: '' @ takeWhile (\<lambda>b. b \<noteq> 0) d"
  "ascii (c_printf ''Incorrect path: %s'' [c_str d]) = ascii ''Incorrect path: '' @ takeWhile (\<lambda>b. b \<noteq> 0) d"
  by (simp_all add: c_printf_def conversion_of_def convert_def c_str_def pad_def ascii_Cons)

text \<open>A reply has been sent, and nothing else has changed on the connection.\<close>

definition replied :: "'b handler_state \<Rightarrow> int \<times> bytes \<times> bytes \<Rightarrow> 'b handler_state \<Rightarrow> bool" where
  "replied s r s' \<longleftrightarrow> (case r of (code, ct, body) \<Rightarrow>
     hs_replies (wx_server s') = hs_replies (wx_server s) @ [(code, the (map_of explanation_for_response_code code), Some body)] \<and>
     hs_out_headers (wx_server s') = hs_out_headers (wx_server s) @ [(ascii ''Content-Type'', ct)] @
       (if hs_server_name (wx_server s) = [] then [] else [(ascii ''Server'', hs_server_name (wx_server s))])) \<and>
     wx_terminated s' = wx_terminated s \<and> wx_released s' = wx_released s \<and> ch_out s' = ch_out s \<and> ch_inp s' = ch_inp s"

lemma handler_reply:
  assumes "code \<in> {200, 400, 404, 500}"
  shows "\<exists>s'. on_server (send_response code ct body) s = (Ret (), s') \<and> replied s (code, ct, body) s' \<and> wx_opened s' = wx_opened s"
proof -
  have "map_of explanation_for_response_code code \<noteq> None" using assms by (auto simp: explanation_for_response_code_def)
  then obtain reason where "map_of explanation_for_response_code code = Some reason" by auto
  then show ?thesis by (simp add: on_server_def send_response_def seqA_def bindA_def add_server_header_def whenA_def
    Request_add_output_header_def send_reply_def replied_def)
qed

text \<open>The handler of Examples/HTTPServer.cc: every request is answered with its path.\<close>

definition works_handle_request :: "'b evbuffer_api \<Rightarrow> bytes \<Rightarrow> ('b handler_state, unit) act" where
  "works_handle_request E path = DetachedTask_unhandled_exception
     (on_server (send_response_printf E 200 (ascii ''text/plain'') ''Looks like it works!\<newline>You requested: %s'' [c_str path]))"

lemma works_answered:
  assumes "evbuffer_spec E v"
  obtains s' where "works_handle_request E path s = (Ret (), s')"
    and "replied s (200, ascii ''text/plain'', ascii ''Looks like it works!\<newline>You requested: '' @ takeWhile (\<lambda>b. b \<noteq> 0) path) s'"
proof -
  have text_eq: "ascii (c_printf ''Looks like it works!\<newline>You requested: %s'' [c_str path]) = ascii ''Looks like it works!\<newline>You requested: '' @ takeWhile (\<lambda>b. b \<noteq> 0) path"
    by (simp add: c_printf_def conversion_of_def convert_def c_str_def pad_def ascii_Cons)
  show ?thesis
    using handler_reply [of 200 "ascii ''text/plain''" "ascii ''Looks like it works!\<newline>You requested: '' @ takeWhile (\<lambda>b. b \<noteq> 0) path" s] that
    by (auto simp: works_handle_request_def DetachedTask_unhandled_exception_def send_response_overloads [OF assms] text_eq)
qed

text \<open>The expected reply was sent, and whatever files were opened are in the static directory.\<close>

definition request_served :: "files_api \<Rightarrow> bytes \<Rightarrow> ('b handler_state, unit) act \<Rightarrow> 'b handler_state \<Rightarrow> bool" where
  "request_served F path m s \<longleftrightarrow> (\<exists>s' fs. m s = (Ret (), s') \<and> replied s (expected_reply F path) s' \<and>
     wx_opened s' = wx_opened s @ fs \<and> (\<forall>f\<in>set fs. confined static_dir f))"

lemma served_reply:
  assumes "expected_reply F path = (code, ct, body)" and "code \<in> {200, 400, 404, 500}"
  shows "request_served F path (on_server (send_response code ct body)) s"
    and "confined static_dir f \<Longrightarrow> request_served F path (seqA (modifyA (\<lambda>s. s\<lparr>wx_opened := wx_opened s @ [f]\<rparr>)) (on_server (send_response code ct body))) s"
proof -
  show "request_served F path (on_server (send_response code ct body)) s"
    using handler_reply [OF assms(2), of ct body s] by (auto simp: request_served_def assms(1) intro!: exI [of _ "[]"])
  assume "confined static_dir f"
  then show "request_served F path (seqA (modifyA (\<lambda>s. s\<lparr>wx_opened := wx_opened s @ [f]\<rparr>)) (on_server (send_response code ct body))) s"
    using handler_reply [OF assms(2), of ct body "s\<lparr>wx_opened := wx_opened s @ [f]\<rparr>"]
    by (auto simp: request_served_def assms(1) seqA_def bindA_def replied_def)
qed

lemma serve_static_served:
  assumes "evbuffer_spec E v" and "take 8 path = ascii ''/static/''"
  shows "request_served F path (serve_static E F path) s"
proof -
  note texts = serve_static_def expected_reply_def send_response_overloads [OF assms(1)] handler_texts assms(2)
  let ?f = "static_dir @ ascii ''/'' @ drop 8 path"
  show ?thesis
  proof (cases "str_contains ?f (ascii ''..'')")
    case True
    then show ?thesis using served_reply(1) [of F path 400 "ascii ''text/plain''" "ascii ''Invalid static file''" s] by (simp add: texts)
  next
    case False
    note opened = served_reply(2) [OF _ _ confined_static [OF False], of F path _ _ _ s]
    show ?thesis
    proof (cases "load_file F ?f")
      case (Inl what)
      then show ?thesis using opened [of 500] False by (simp add: texts)
    next
      case (Inr d)
      then show ?thesis using opened [of 200] False by (cases "ends_with F ?f (ascii ''.js'')") (simp_all add: texts)
    qed
  qed
qed

lemma detached_served: "request_served F path m s \<Longrightarrow> request_served F path (DetachedTask_unhandled_exception m) s"
  by (fastforce simp: request_served_def DetachedTask_unhandled_exception_def)

text \<open>C17: Requests without a websocket.  Every request except an upgrade for the stream is answered at once with exactly
  one response, whatever the URI is and whether or not a file can be read, and the handler ends without an
  exception.  The response is the file asked for, or the error that belongs to the request.  Every file
  opened for it is named by a path that stays inside the static directory at each of its components.\<close>

theorem requests_answered:
  assumes "evbuffer_spec E v" and "starts_with_spec F" and "0 \<notin> set (sr_uri req)"
    and "path = (if sr_uri req = ascii ''/'' then ascii ''/static/index.html'' else sr_uri req)"
    and "take 7 path = ascii ''/stream'' \<longrightarrow> is_upgrade (upgrade_request.truncate req) = None"
  shows "\<exists>s' fs. handle_request fuel E U F req s = (Ret (), s') \<and> replied s (expected_reply F path) s' \<and>
    wx_opened s' = wx_opened s @ fs \<and> (\<forall>f\<in>set fs. confined static_dir f)"
proof -
  have "length (ascii ''/static/'') = 8" "length (ascii ''/stream'') = 7" by (simp_all add: ascii_def)
  then have st: "starts_with F path (ascii ''/static/'') \<longleftrightarrow> take 8 path = ascii ''/static/''"
    "starts_with F path (ascii ''/stream'') \<longleftrightarrow> take 7 path = ascii ''/stream''" using assms(2) unfolding starts_with_spec_def by metis+
  have z: "takeWhile (\<lambda>b. b \<noteq> 0) path = path" unfolding takeWhile_eq_all_conv assms(4) using assms(3) by (auto simp: ascii_def)
  note texts = send_response_overloads [OF assms(1)] handler_texts z expected_reply_def
  have "request_served F path (serve_stream fuel E U F req) s" if "take 8 path \<noteq> ascii ''/static/''" "take 7 path = ascii ''/stream''"
    using served_reply(1) [of F path 400 "ascii ''text/plain''" "ascii ''Could not enable websockets for request''" s] that assms(5)
    by (simp add: serve_stream_def enable_websockets_def texts)
  moreover have "request_served F path (on_server (send_response_printf E 404 (ascii ''text/plain'') ''Incorrect path: %s'' [c_str path])) s"
    if "take 8 path \<noteq> ascii ''/static/''" "take 7 path \<noteq> ascii ''/stream''"
    using served_reply(1) [of F path 404 "ascii ''text/plain''" "ascii ''Incorrect path: '' @ path" s] that by (simp add: texts)
  ultimately have "request_served F path (handle_request fuel E U F req) s"
    unfolding handle_request_def Let_def assms(4) [symmetric] using serve_static_served [OF assms(1)]
    by (intro detached_served) (simp add: st)
  then show ?thesis unfolding request_served_def .
qed

section \<open>The stream\<close>

text \<open>A message as the frames before the final one, and the final one; its text; what the server sends for it.\<close>

definition message_ok :: "ws_frame list \<times> ws_frame \<Rightarrow> bool" where
  "message_ok m \<longleftrightarrow> (case m of (fs, f) \<Rightarrow> pending False fs \<and> frame_ok f \<and> \<not> f_control f \<and> f_final f \<and>
     (f_op f = 0) = (data_frames fs \<noteq> []) \<and> length (wm_data (message_of (fs @ [f]))) < 2 ^ 31)"

definition message_text :: "ws_frame list \<times> ws_frame \<Rightarrow> bytes" where
  "message_text m = wm_data (message_of (fst m @ [snd m]))"

definition message_bytes :: "ws_frame list \<times> ws_frame \<Rightarrow> bytes" where
  "message_bytes m = concat (map frame_bytes (fst m @ [snd m]))"

definition message_reply :: "files_api \<Rightarrow> ws_frame list \<times> ws_frame \<Rightarrow> bytes" where
  "message_reply F m = pongs (fst m) @ frame_bytes (server_frame 0x01 (rot13 F (message_text m)))"

lemma stream_loop_sim: "evbuffer_spec E v \<Longrightarrow> simA (chan_abs v) (stream_loop n fuel E F) (stream_loop n fuel (evb_ref E) F)"
proof (induction n)
  case (Suc n)
  note IH = Suc.IH [OF Suc.prems]
  show ?case unfolding stream_loop.simps Let_def WebsocketClient_read_def by (intro sim_intros Suc.prems IH websocket_read_sim)
qed (simp add: simA_def)

text \<open>One message: it is read and answered.\<close>

lemma stream_message_list:
  assumes "rot13_spec F" and "message_ok m" and "length (fst m) < fuel"
    and "chan_at [] (message_bytes m @ inp) out (length (message_reply F m) + w) x s"
    and rest: "\<And>s'. chan_at [] inp (out @ message_reply F m) w x s' \<Longrightarrow>
      reaches (if message_text m = ascii ''quit'' then retA () else stream_loop n fuel (evb_list z) F) s' () Q"
  shows "reaches (stream_loop (Suc n) fuel (evb_list z) F) s () Q"
proof -
  obtain fs f where m: "m = (fs, f)" by (cases m)
  let ?r = "rot13 F (message_text m)"
  have ok: "pending False fs" "frame_ok f" "\<not> f_control f" "f_final f" "(f_op f = 0) = (data_frames fs \<noteq> [])" "length ?r < 2 ^ 31"
    using assms(1,2) by (simp_all add: message_ok_def m message_text_def rot13_spec_def)
  have "chan_at [] (concat (map frame_bytes (fs @ [f])) @ inp) out (length (pongs fs) + (length (frame_bytes (server_frame 0x01 ?r)) + w)) x s"
    using assms(4) by (simp add: message_bytes_def message_reply_def m add.assoc)
  from websocket_read_list [OF this ok(1-5), of fuel z] assms(3)
  have rd: "reaches (WebsocketClient_read fuel (evb_list z)) s (message_of (fs @ [f]))
      (chan_at [] inp (out @ pongs fs) (length (frame_bytes (server_frame 0x01 ?r)) + w) x)" by (simp add: m)
  have t: "wm_data (message_of (fs @ [f])) = message_text m" by (simp add: message_text_def m)
  have out: "(out @ pongs fs) @ frame_bytes (server_frame 0x01 ?r) = out @ message_reply F m" by (simp add: message_reply_def m)
  show ?thesis unfolding stream_loop.simps Let_def
    apply (rule reaches_bindA [OF rd])
    apply (unfold t)
    apply (rule reaches_seqA, erule websocket_write_data_list [OF _ ok(6)])
    apply (unfold out)
    apply (erule rest)
    done
qed

lemma stream_loop_list:
  assumes "rot13_spec F" and "\<forall>m\<in>set (ms @ [q]). message_ok m \<and> length (fst m) < fuel"
    and "\<forall>m\<in>set ms. message_text m \<noteq> ascii ''quit''" and "message_text q = ascii ''quit''" and "length ms < n"
    and "chan_at [] (concat (map message_bytes (ms @ [q])) @ rest) out (length (concat (map (message_reply F) (ms @ [q]))) + w) x s"
  shows "reaches (stream_loop n fuel (evb_list z) F) s () (chan_at [] rest (out @ concat (map (message_reply F) (ms @ [q]))) w x)"
  using assms(2,3,5,6)
proof (induction ms arbitrary: n out s)
  case Nil
  then obtain n' where n: "n = Suc n'" by (cases n) auto
  show ?case unfolding n
    by (rule stream_message_list [OF assms(1)]) (use Nil assms(4) in \<open>auto simp: reaches_def\<close>)
next
  case (Cons m ms)
  then obtain n' where n: "n = Suc n'" by (cases n) auto
  let ?rs = "concat (map (message_reply F) (ms @ [q]))"
  have "chan_at [] (message_bytes m @ concat (map message_bytes (ms @ [q])) @ rest) out (length (message_reply F m) + (length ?rs + w)) x s"
    using Cons.prems(4) by (simp add: add.assoc)
  then show ?case unfolding n
  proof (rule stream_message_list [OF assms(1), rotated 2])
    show "message_ok m" "length (fst m) < fuel" using Cons.prems(1) by simp_all
    fix s' assume s': "chan_at [] (concat (map message_bytes (ms @ [q])) @ rest) (out @ message_reply F m) (length ?rs + w) x s'"
    have "reaches (stream_loop n' fuel (evb_list z) F) s' () (chan_at [] rest ((out @ message_reply F m) @ ?rs) w x)"
      by (rule Cons.IH [OF _ _ _ s']) (use Cons.prems n in auto)
    then show "reaches (if message_text m = ascii ''quit'' then retA () else stream_loop n' fuel (evb_list z) F) s' ()
        (chan_at [] rest (out @ concat (map (message_reply F) ((m # ms) @ [q]))) w x)" using Cons.prems(2) by simp
  qed
qed

text \<open>From the upgrade to the loop.\<close>

lemma stream_enabled:
  assumes "evbuffer_spec E v" and "is_upgrade (upgrade_request.truncate req) = Some key"
    and "a = base64_encode U (sha1 U (key @ ascii ''258EAFA5-E914-47DA-95CA-C5AB0DC85B11''))" and "0 \<notin> set a"
    and "length (switching_reply a) < 2 ^ 63" and "live (length (switching_reply a) + w) s"
  obtains s1 where "serve_stream fuel E U F req s = with_client (WebsocketClient_new (sr_conn req) (sr_bev req) (sr_fd req)) (stream_loop fuel fuel E F) s1"
    and "chan_at [] (ch_inp s) (ch_out s @ switching_reply a) w (chan.more s) (chan_abs v s1)" and "chan.more s1 = chan.more s"
proof -
  have "chan_at (v (ch_buf s)) (ch_inp s) (ch_out s) (length (switching_reply a) + w) (chan.more s) (chan_abs v s)"
    using assms(6) by (simp add: chan_at_def)
  from websocket_upgrade_list [OF this assms(4,5), of "evbuffer_write_none E", folded evb_ref_def]
  have "reaches (enable_websockets (evb_ref E) U (upgrade_request.truncate req)) (chan_abs v s) True
      (chan_at (v (ch_buf s)) (ch_inp s) (ch_out s @ switching_reply a) w (chan.more s))"
    by (simp add: enable_websockets_def assms(2,3))
  from reaches_chanE [OF enable_websockets_sim [OF assms(1)] this] obtain s' where
    s': "enable_websockets E U (upgrade_request.truncate req) s = (Ret True, s')" "ch_inp s' = ch_inp s" "ch_out s' = ch_out s @ switching_reply a"
      "live w s'" "chan.more s' = chan.more s" .
  obtain b where b: "evbuffer_new E = Some b" "v b = []" using evb_laws(1) [OF assms(1)] by auto
  show ?thesis
  proof (rule that [of "s'\<lparr>ch_buf := b\<rparr>"])
    show "serve_stream fuel E U F req s = with_client (WebsocketClient_new (sr_conn req) (sr_bev req) (sr_fd req)) (stream_loop fuel fuel E F) (s'\<lparr>ch_buf := b\<rparr>)"
      by (simp add: serve_stream_def bindA_def s'(1) with_client_def seqA_def Buffer_new_def b(1))
  qed (use s' b(2) in \<open>simp_all add: chan_at_def chan_abs_def live_def\<close>)
qed

lemma stream_path:
  assumes "starts_with_spec F" and "take 7 path = ascii ''/stream''"
  shows "path \<noteq> ascii ''/''" and "\<not> starts_with F path (ascii ''/static/'')" and "starts_with F path (ascii ''/stream'')"
proof -
  have n: "length (ascii ''/static/'') = 8" "length (ascii ''/stream'') = 7" by (simp_all add: ascii_def)
  show "path \<noteq> ascii ''/''" using assms(2) by (auto simp: ascii_def)
  have "take 7 (take 8 path) \<noteq> take 7 (ascii ''/static/'')" using assms(2) by (simp add: ascii_def)
  then have "take 8 path \<noteq> ascii ''/static/''" by metis
  then show "\<not> starts_with F path (ascii ''/static/'')" "starts_with F path (ascii ''/stream'')"
    using assms n unfolding starts_with_spec_def by metis+
qed

text \<open>C15: A websocket session.  A client that upgrades a request for the stream and then sends any messages, the last and only
  the last of them "quit", each cut into frames in any way and with pings and pongs anywhere, gets the 101
  response, then for every message in order the pongs for its pings and one frame with the rot13 of its
  text.  After the reply to "quit" the handler frees the connection, exactly once, reads nothing more, and ends
  without an exception, however the bytes are cut on the way in and out.\<close>

theorem stream_session:
  assumes "evbuffer_spec E v" and "starts_with_spec F" and "rot13_spec F" and "take 7 (sr_uri req) = ascii ''/stream''"
    and "is_upgrade (upgrade_request.truncate req) = Some key"
    and "a = base64_encode U (sha1 U (key @ ascii ''258EAFA5-E914-47DA-95CA-C5AB0DC85B11''))" and "0 \<notin> set a" and "length a < 2 ^ 31"
    and "\<forall>m\<in>set (ms @ [q]). message_ok m \<and> length (fst m) < fuel" and "\<forall>m\<in>set ms. message_text m \<noteq> ascii ''quit''"
    and "message_text q = ascii ''quit''" and "length ms < fuel"
    and "ch_inp s = concat (map message_bytes (ms @ [q])) @ rest"
    and "live (length (switching_reply a @ concat (map (message_reply F) (ms @ [q])))) s"
  shows "\<exists>s'. handle_request fuel E U F req s = (Ret (), s') \<and> ch_inp s' = rest \<and>
    ch_out s' = ch_out s @ switching_reply a @ concat (map (message_reply F) (ms @ [q])) \<and>
    wx_released s' = wx_released s @ [Free_conn (sr_conn req)] \<and> hs_replies (wx_server s') = hs_replies (wx_server s)"
proof -
  let ?rs = "concat (map (message_reply F) (ms @ [q]))"
  have "length (switching_reply a) < 2 ^ 63" using assms(8) by (simp add: switching_reply_def)
  moreover have "live (length (switching_reply a) + (length ?rs + 0)) s" using assms(14) by simp
  ultimately obtain s1 where s1: "serve_stream fuel E U F req s =
      with_client (WebsocketClient_new (sr_conn req) (sr_bev req) (sr_fd req)) (stream_loop fuel fuel E F) s1"
    "chan_at [] (ch_inp s) (ch_out s @ switching_reply a) (length ?rs + 0) (chan.more s) (chan_abs v s1)" "chan.more s1 = chan.more s"
    by (rule stream_enabled [OF assms(1,5-7)])
  from stream_loop_list [OF assms(3,9-12) s1(2) [unfolded assms(13)], of "evbuffer_write_none E", folded evb_ref_def]
  obtain s2 where s2: "stream_loop fuel fuel E F s1 = (Ret (), s2)" "ch_inp s2 = rest" "ch_out s2 = (ch_out s @ switching_reply a) @ ?rs"
    "chan.more s2 = chan.more s" by (rule reaches_chanE [OF stream_loop_sim [OF assms(1)]])
  have more: "wx_released s2 = wx_released s" "wx_server s2 = wx_server s" using s2(4) by (cases s; cases s2; simp)+
  show ?thesis unfolding handle_request_def Let_def
    using stream_path [OF assms(2,4)] s1(1) s2 more by (simp add: DetachedTask_unhandled_exception_def with_client_def WebsocketClient_new_def WebsocketClient_close_def)
qed

text \<open>A client that ends its session the way the protocol describes, with a close frame, makes \<open>read\<close> throw;
  nothing catches the exception, and the server's process is terminated.\<close>

theorem close_frame_terminates:
  assumes "evbuffer_spec E v" and "starts_with_spec F" and "take 7 (sr_uri req) = ascii ''/stream''"
    and "is_upgrade (upgrade_request.truncate req) = Some key"
    and "a = base64_encode U (sha1 U (key @ ascii ''258EAFA5-E914-47DA-95CA-C5AB0DC85B11''))" and "0 \<notin> set a" and "length a < 2 ^ 31"
    and "pending False fs" and "frame_ok f" and "f_op f = 0x08" and "length fs < fuel"
    and "ch_inp s = concat (map frame_bytes (fs @ [f])) @ rest"
    and "live (length (switching_reply a @ pongs fs @ frame_bytes (server_frame 0x08 (wf_payload f)))) s"
  shows "\<exists>s'. handle_request fuel E U F req s = (Throw (Runtime_error ''client has disconnected''), s') \<and> wx_terminated s' \<and>
    wx_released s' = wx_released s @ [Free_conn (sr_conn req)]"
proof -
  let ?k = "length (frame_bytes (server_frame 0x08 (wf_payload f)))"
  have "length (switching_reply a) < 2 ^ 63" using assms(7) by (simp add: switching_reply_def)
  moreover have "live (length (switching_reply a) + (length (pongs fs) + (?k + 0))) s" using assms(13) by simp
  ultimately obtain s1 where s1: "serve_stream fuel E U F req s =
      with_client (WebsocketClient_new (sr_conn req) (sr_bev req) (sr_fd req)) (stream_loop fuel fuel E F) s1"
    "chan_at [] (ch_inp s) (ch_out s @ switching_reply a) (length (pongs fs) + (?k + 0)) (chan.more s) (chan_abs v s1)" "chan.more s1 = chan.more s"
    by (rule stream_enabled [OF assms(1,4-6)])
  obtain n where n: "fuel = Suc n" using assms(11) by (cases fuel) auto
  from fails_bindA1 [OF websocket_close_list [OF s1(2) [unfolded assms(12)] assms(8-11)]]
  have "fails (stream_loop fuel fuel (evb_ref E) F) (chan_abs v s1) (Runtime_error ''client has disconnected'')
      (chan_at [] rest ((ch_out s @ switching_reply a) @ pongs fs @ frame_bytes (server_frame 0x08 (wf_payload f))) 0 (chan.more s))"
    unfolding evb_ref_def by (subst n, unfold stream_loop.simps)
  then obtain s2 where s2: "stream_loop fuel fuel E F s1 = (Throw (Runtime_error ''client has disconnected''), s2)" "chan.more s2 = chan.more s"
    by (rule fails_chanE [OF stream_loop_sim [OF assms(1)]])
  have more: "wx_released s2 = wx_released s" using s2(2) by (cases s; cases s2; simp)
  show ?thesis unfolding handle_request_def Let_def
    using stream_path [OF assms(2,3)] s1(1) s2 more by (simp add: DetachedTask_unhandled_exception_def with_client_def WebsocketClient_new_def WebsocketClient_close_def)
qed

section \<open>Examples\<close>

definition files_model :: files_api where
  "files_model = \<lparr>starts_with = (\<lambda>s p. take (length p) s = p), ends_with = (\<lambda>s p. drop (length s - length p) s = p),
     load_file = (\<lambda>f. if f = static_dir @ ascii ''/a.js'' then Inr [104, 105] else Inl (ascii ''not found'')),
     rot13 = map (\<lambda>b. if b \<in> {65..77} \<union> {97..109} then b + 13 else if b \<in> {78..90} \<union> {110..122} then b - 13 else b)\<rparr>"

lemma files_model_spec: "starts_with_spec files_model" "rot13_spec files_model"
  by (simp_all add: files_model_def starts_with_spec_def rot13_spec_def)

definition stream_example :: "bytes \<Rightarrow> bytes \<Rightarrow> bytes handler_state" where
  "stream_example inp out = \<lparr>ch_buf = [], ch_inp = inp, ch_sched = replicate 300 (Os_ok 4), ch_out = out, wx_server = Server_new None,
     wx_opened = [], wx_released = [], wx_terminated = False\<rparr>"

definition request_to :: "string \<Rightarrow> stream_request" where
  "request_to uri = upgrade_request.extend example_upgrade (stream_request.fields (ascii uri) 7 8 9)"

lemma request_to_simps [simp]:
  "sr_uri (request_to u) = ascii u" "sr_conn (request_to u) = 7" "upgrade_request.truncate (request_to u) = example_upgrade"
  by (simp_all add: request_to_def upgrade_request.defs stream_request.defs example_upgrade_def)

theorem requests_answered_witness:
  "\<exists>s'. handle_request 1 (evb_list 0) \<lparr>sha1 = id, base64_encode = id\<rparr> files_model (request_to ''/static/a.js'') (stream_example [] []) = (Ret (), s') \<and>
     hs_replies (wx_server s') = [(200, ''OK'', Some [104, 105])]"
proof -
  let ?U = "\<lparr>sha1 = id, base64_encode = id\<rparr>" and ?p = "ascii ''/static/a.js''"
  have "count_list (static_dir @ ascii ''/a.js'') 46 < count_list (ascii ''..'') 46" by (simp add: static_dir_def ascii_def)
  then have "\<not> str_contains (static_dir @ ascii ''/a.js'') (ascii ''..'')" using str_contains_count leD by blast
  moreover have "static_dir @ ascii ''/'' @ drop 8 ?p = static_dir @ ascii ''/a.js''" "take 8 ?p = ascii ''/static/''" by (simp_all add: ascii_def)
  moreover have "ends_with files_model (static_dir @ ascii ''/a.js'') (ascii ''.js'')" by (simp add: files_model_def static_dir_def ascii_def)
  ultimately have e: "expected_reply files_model ?p = (200, ascii ''text/javascript'', [104, 105])"
    by (simp add: expected_reply_def) (simp add: files_model_def)
  have z: "0 \<notin> set (sr_uri (request_to ''/static/a.js''))" by (simp add: ascii_def)
  have p: "?p = (if sr_uri (request_to ''/static/a.js'') = ascii ''/'' then ascii ''/static/index.html'' else sr_uri (request_to ''/static/a.js''))"
    by (simp add: ascii_def)
  have u: "take 7 ?p = ascii ''/stream'' \<longrightarrow> is_upgrade (upgrade_request.truncate (request_to ''/static/a.js'')) = None" by (simp add: ascii_def)
  from requests_answered [OF evb_list_spec [of 0, OF order_refl] files_model_spec(1) z p u, of 1 ?U "stream_example [] []"]
  show ?thesis unfolding e
    by (elim exE conjE) (auto simp: replied_def stream_example_def Server_new_def explanation_for_response_code_def)
qed

definition text_frame :: "string \<Rightarrow> ws_frame list \<times> ws_frame" where
  "text_frame t = ([], \<lparr>wf_first = 0x81, wf_key = Some [1, 2, 3, 4], wf_width = 0, wf_payload = ascii t\<rparr>)"

lemma text_frame_ok: "length t < 126 \<Longrightarrow> message_ok (text_frame t) \<and> message_text (text_frame t) = ascii t \<and> fst (text_frame t) = []"
  by (simp add: text_frame_def message_ok_def message_text_def message_of_def data_frames_def frame_ok_def f_control_def f_op_def f_final_def)

theorem stream_session_witness:
  "\<exists>s'. handle_request 2 (evb_list 0) \<lparr>sha1 = id, base64_encode = (\<lambda>_. ascii ''a'')\<rparr> files_model (request_to ''/stream'')
      (stream_example (concat (map message_bytes ([text_frame ''Hi''] @ [text_frame ''quit''])) @ [5]) []) = (Ret (), s') \<and>
     ch_out s' = switching_reply (ascii ''a'') @ [0x81, 2] @ ascii ''Uv'' @ [0x81, 4] @ ascii ''dhvg'' \<and> wx_released s' = [Free_conn 7]"
proof -
  let ?U = "\<lparr>sha1 = id, base64_encode = (\<lambda>_. ascii ''a'')\<rparr>" and ?ms = "[text_frame ''Hi'']" and ?q = "text_frame ''quit''"
  let ?s = "stream_example (concat (map message_bytes (?ms @ [?q])) @ [5]) []"
  have up: "is_upgrade (upgrade_request.truncate (request_to ''/stream'')) = Some (ascii ''k'')"
    by (simp add: is_upgrade_def example_upgrade_def same_ignoring_case_def c_lower_def ascii_def)
  have a: "ascii ''a'' = base64_encode ?U (sha1 ?U (ascii ''k'' @ ascii ''258EAFA5-E914-47DA-95CA-C5AB0DC85B11''))"
    "0 \<notin> set (ascii ''a'')" "length (ascii ''a'') < 2 ^ 31" by (simp_all add: ascii_def)
  have uri: "take 7 (sr_uri (request_to ''/stream'')) = ascii ''/stream''" by simp
  have ok: "\<forall>m\<in>set (?ms @ [?q]). message_ok m \<and> length (fst m) < 2" "\<forall>m\<in>set ?ms. message_text m \<noteq> ascii ''quit''"
    "message_text ?q = ascii ''quit''" "length ?ms < 2"
    by (simp_all add: text_frame_ok) (simp add: ascii_def)
  have inp: "ch_inp ?s = concat (map message_bytes (?ms @ [?q])) @ [5]" by (simp add: stream_example_def)
  have r: "message_reply files_model (text_frame ''Hi'') = [0x81, 2] @ ascii ''Uv''" "message_reply files_model ?q = [0x81, 4] @ ascii ''dhvg''"
    by (simp_all add: message_reply_def text_frame_ok pongs_def server_frame_def frame_bytes_def size_bytes_def files_model_def ascii_def)
  have b: "length (frame_bytes (snd (text_frame ''Hi''))) = 8" "length (frame_bytes (snd ?q)) = 10" "fst ?q = []" "fst (text_frame ''Hi'') = []"
    by (simp_all add: text_frame_def frame_bytes_def size_bytes_def)
  have l: "live (length (switching_reply (ascii ''a'') @ concat (map (message_reply files_model) (?ms @ [?q])))) ?s"
    by (simp add: r live_def stream_example_def switching_reply_def message_bytes_def b)
  from stream_session [OF evb_list_spec [of 0, OF order_refl] files_model_spec uri up a ok inp l] show ?thesis
    by (elim exE conjE) (simp add: r stream_example_def)
qed

end
