(* ===== verification/Spec2Isabelle.thy ===== *)
theory Spec2Isabelle
  imports Base_IO Buffer_References MySQL_Typing Program_Options Memcache_Test Channel Future Task Coroutines Control_Flow_Tests Event_Loop Owners DNS_Lookup Echo_Server UDP_Echo Reverse_DNS HTTP_Connection Websocket_Example
begin

text \<open>
  A verification development for libevent-async, a C++ library that lets coroutines await the events of
  libevent, with clients and servers for three protocols built on it.  The sources are under
  src/src; every theory names the file it models.

  \<^bold>\<open>The program.\<close>  \<open>Base\<close> (Base.cc) owns the event loop and makes the awaiters for descriptors, timeouts
  and connections.  \<open>Buffer\<close> (Buffer.cc) wraps libevent's byte queue; its asynchronous methods read
  from and write to a descriptor.  \<open>Task\<close>, \<open>Future\<close> and \<open>Channel\<close> (Task.hh, Future.hh, Channel.hh) are
  the means by which coroutines wait for each other.  \<open>Event\<close>, \<open>DNSBase\<close> and the classes of HTTP own
  libevent's objects.  The protocol code sits on top: the Memcache client writes a request to a
  buffer and reads its response; the MySQL client frames its commands with ProtocolBuffer, decodes
  result sets into the values of Types, and hands the events of a binary log to BinlogProcessor; the HTTP
  server switches a request to the websocket protocol, whose messages it reads frame by frame.

  \<^bold>\<open>How it is modelled.\<close>  An operation is an action (\<open>('s, 'a) act\<close> of Prelude): a function from a state to an
  outcome (a value, a C++ exception, or \<open>Blocked\<close> for a coroutine that is never resumed) and a new
  state; changes made before an exception persist.  \<open>Undefined_behaviour\<close> is the outcome of an execution
  without meaning in C++.  A coroutine that awaits is an action whose state has the events still to come:
  which bytes the peer sends and how the system cuts them into reads and writes (\<open>chan\<close> of
  Buffer_Async, \<open>fdio\<close> of Base_IO), so a theorem for all such states is a theorem for all schedules.
  Coroutines that resume one another (Task, Future, Channel, Event) are modelled with the order of
  resumptions in the state, and theorems speak of all sequences of operations.

  \<^bold>\<open>What is a parameter.\<close>  Code that is not in the repository is a record of functions passed to the
  definitions, and theorems assume of it only a named specification: libevent's evbuffer
  (\<open>evbuffer_api\<close>, \<open>evbuffer_spec\<close>), phosg's functions (\<open>phosg_api\<close>, \<open>bswap_spec\<close>, \<open>scoped_fd_spec\<close>,
  \<open>printf_spec\<close>) and string reader (\<open>string_reader_api\<close>, \<open>string_reader_spec\<close>), phosg's character functions
  (\<open>strings_api\<close>), the parsing of floating-point numbers (\<open>float_api\<close>), the hash and encoding of the
  websocket handshake (\<open>upgrade_api\<close>), libevent's constants (\<open>evdns_constants\<close>, \<open>event_flags\<close>).  Each
  specification is shown to have a model (\<open>evb_list\<close>, \<open>phosg_model\<close>, \<open>sr_list\<close>), which the witnesses use.
  The theorems about buffers and protocols are proved once for \<open>evb_list\<close> and carried to every
  evbuffer that meets the specification by the simulation \<open>simA\<close>.

  \<^bold>\<open>The theories.\<close>
  \<^item> Prelude: machine types, exceptions, actions and their rules (\<open>reaches\<close>, \<open>fails\<close>, \<open>gives\<close>, \<open>simA\<close>), byte
    encodings.  Awaiters: the events that wake a coroutine, and the contract \<open>retry_loop\<close> of callbacks that
    re-arm themselves until the work is done.  Decoders: what it means that code decodes bytes, and the
    contract \<open>le_reader\<close> of the two readers of integers.
  \<^item> Evbuffer, Phosg, Printf, String_Reader: the libraries, and the C library's formatted output.
  \<^item> Buffer (Buffer.hh, Buffer.cc): the synchronous methods; the contracts \<open>byte_source\<close> and \<open>byte_queue\<close>; the class is a
    first-in first-out queue of bytes.  Buffer_Async (Buffer.cc): read_atmost, read, read_to and
    write; they transfer exactly the bytes asked for, whatever the fragmentation, and report the end of
    the stream.  Buffer_References (Buffer.cc): memory added without a copy, and the objects that
    are kept for it, each deleted once.  Base_IO (Base.cc): the awaiters of read, write, recvfrom and accept.  Base_Connect: connect.
  \<^item> Waiters, Channel, Future (Channel.hh, Future.hh, Base.hh): the list of suspended coroutines with the contract
    \<open>fifo_waiters\<close>; a channel delivers every item once and in order; a future resumes every waiter once with
    its result.  Task (Task.hh, Task.cc): \<open>all\<close>, \<open>multi\<close>, \<open>all_limit\<close> and \<open>any\<close> under every order of
    completion, with the contract \<open>task_group\<close>.  Coroutines (Task.hh): awaiting a task is
    the same as calling a function, and every frame is destroyed once.
  \<^item> Control_Flow, Control_Flow_Tests (Examples/ControlFlowTests.cc): a machine on which coroutines use tasks, the combinators,
    futures, channels and timers together, with the awaiters of the theories before; the repository's tests of control
    flow pass on it, however late timers fire within a bound.
  \<^item> Ownership, Owners, Event_Loop (Event.cc, Base.cc, Task.hh, DNSBase.cc, Connection.cc, Buffer.cc): the contracts
    \<open>owning_handle\<close> and \<open>releasing_handle\<close>, and which classes meet them; every wait for an event is
    resumed once.  DNS_Lookup (DNSBase.cc): lookups.
  \<^item> Memcache (Protocols/Memcache): every command's request and what it makes of every response.  Memcache_Sessions: programs
    over the client behave as if they called the server directly.  Memcache_Test (Examples/MemcacheFunctionalTest.cc): the
    test passes on every server that behaves as documented.
  \<^item> MySQL_Types, MySQL_Print, MySQL_ProtocolBuffer, MySQL_Client, MySQL_Client_Properties, MySQL_Typing (Protocols/MySQL): values
    and their texts, the wire format, the client; results are exactly the server's answers, and
    are typed by their columns whatever the server sends.  Binlog_Processor, Binlog_Properties
    (BinlogProcessor.cc): the events of a binary log are parsed as documented, and the processor's
    invariant with the contract \<open>event_operation\<close> of every operation.
  \<^item> Binlog_Reader, Binlog_Session (Examples/MySQLBinlogReader.cc), Binlog_Stats (Examples/MySQLBinlogStats.cc), Program_Options
    (their command lines), Echo_Server (Examples/EchoServer.cc), UDP_Echo (Examples/UDPEchoServer.cc), Reverse_DNS
    (Examples/RangeReverseDNS.cc), Websocket_Example
    (Examples/HTTPWebsocketServer.cc, HTTPServer.cc): programs that compose the
    components, from bytes on a connection or arguments to what they print or send.
  \<^item> HTTP_Request, HTTP_Websocket, HTTP_Server (Protocols/HTTP): URL parameters, requests of the client, websocket frames
    and messages, responses, the switch to websockets and the lifetime of its connections.  HTTP_Connection (Connection.cc, Server.cc): the
    construction of connections and of TLS contexts, and the resources of the client in Examples/HTTPClient.cc.

  \<^bold>\<open>Loops and fuel.\<close>  Loops over data are structural recursion or have a termination proof.  A loop that runs as
  long as the peer sends takes a number that bounds its turns and throws \<open>Out_of_fuel\<close> when it is used up;
  its theorems show the result for every sufficient number: one per frame of a websocket message, more than
  the number of statistics of Memcache, more than the number of notes in a MySQL login, the number of
  answers and of rows of a query, the number of rows of a rows event, more than the number of
  bytes of the echo server's input, one more than the number of events for the binary log
  reader and the UDP echo server, the number of messages and of their frames for the websocket server,
  1000 steps for each test of control flow.
  A connection is \<open>live\<close> when there are as many events to come as bytes to transfer, none of them a failure: since
  each event moves at least one byte, this is enough for every transfer to end.

  \<^bold>\<open>Findings.\<close>  Where the code does not do what it means to, the theorems state what it does: a channel used after
  it was drained while a reader waited (Channel), an end of file that leaves a reader suspended (Base_IO), the
  error packets of query_multi (MySQL_Client_Properties), tags, differences and large numbers in metrics (Binlog_Stats), move operations that lose or free a handle twice (Owners,
  Event_Loop), a table without columns (Binlog_Properties), a DNS record of an unexpected type (DNS_Lookup), a websocket
  close frame that ends the server (Websocket_Example), an empty datagram that stops the UDP echo server (UDP_Echo), TLS contexts that leak (HTTP_Connection),
  a test that tests nothing (Control_Flow_Tests).

  \<^bold>\<open>Not modelled.\<close>  Config.cc and the configuration methods of DNSBase and Base, which pass their arguments on to libevent and
  throw when it fails; the methods of Buffer that expose libevent's pointers, memory segments and
  files (search, peek, reserve_space, add_file and their like); the getters of an HTTP request, which only call libevent; and
  the main functions of the examples, except those of the binary log programs and of ControlFlowTests, which only read their arguments,
  construct the objects and run the event loop.
\<close>

end
